(* ===== verification/Prelude.thy ===== *)
theory Prelude
  imports Main
    "HOL-Library.AList"
    "HOL-Library.List_Lexorder"
    "HOL-Library.Char_ord"
    "HOL-Library.Product_Lexorder"
    "HOL-Library.Multiset"
    "HOL-Library.While_Combinator"
begin

text \<open>
  The vocabulary every component shares: Python exceptions as the left summand of a sum,
  loops that stop at the first exception, dictionaries as association lists in insertion
  order, strings compared by code point, and the pinned regular expressions of the
  contracts. Strings are lists of characters, so a model string is a Python string whose
  code points lie below 256; the library order on lists is then Python's order on them.
\<close>

named_theorems result_simps
named_theorems dict_simps
named_theorems fails_intros

type_synonym 'v dict = "(string \<times> 'v) list"

section \<open>Results: a Python call returns a value or raises\<close>

definition bindR :: "'e + 'a \<Rightarrow> ('a \<Rightarrow> 'e + 'b) \<Rightarrow> 'e + 'b" where
  "bindR r f = (case r of Inl e \<Rightarrow> Inl e | Inr a \<Rightarrow> f a)"

definition rejectR :: "bool \<Rightarrow> 'e \<Rightarrow> 'e + unit" where
  "rejectR b e = (if b then Inl e else Inr ())"

definition thenR :: "'e + unit \<Rightarrow> 'e + 'b \<Rightarrow> 'e + 'b" where
  "thenR r s = bindR r (\<lambda>_. s)"

definition isOk :: "'e + 'a \<Rightarrow> bool" where
  "isOk r = (case r of Inl _ \<Rightarrow> False | Inr _ \<Rightarrow> True)"

fun iterR :: "('a \<Rightarrow> 'e + unit) \<Rightarrow> 'a list \<Rightarrow> 'e + unit" where
  "iterR f [] = Inr ()"
| "iterR f (x # xs) = thenR (f x) (iterR f xs)"

fun mapR :: "('a \<Rightarrow> 'e + 'b) \<Rightarrow> 'a list \<Rightarrow> 'e + 'b list" where
  "mapR f [] = Inr []"
| "mapR f (x # xs) = bindR (f x) (\<lambda>y. bindR (mapR f xs) (\<lambda>ys. Inr (y # ys)))"

fun foldR :: "('a \<Rightarrow> 's \<Rightarrow> 'e + 's) \<Rightarrow> 'a list \<Rightarrow> 's \<Rightarrow> 'e + 's" where
  "foldR f [] s = Inr s"
| "foldR f (x # xs) s = bindR (f x s) (foldR f xs)"

definition liftR :: "('e \<Rightarrow> 'f) \<Rightarrow> 'e + 'a \<Rightarrow> 'f + 'a" where
  "liftR g r = (case r of Inl e \<Rightarrow> Inl (g e) | Inr a \<Rightarrow> Inr a)"

lemma bindR_simps [simp]:
  "bindR (Inl e) f = Inl e" "bindR (Inr a) f = f a"
  by (simp_all add: bindR_def)

lemma thenR_simps [simp]:
  "thenR (Inl e) s = Inl e" "thenR (Inr u) s = s"
  by (simp_all add: thenR_def)

lemma rejectR_simps [simp]:
  "rejectR True e = Inl e" "rejectR False e = Inr ()"
  by (simp_all add: rejectR_def)

lemma isOk_simps [simp]: "isOk (Inr a)" "\<not> isOk (Inl e)"
  by (simp_all add: isOk_def)

lemma isOk_iff: "isOk r \<longleftrightarrow> (\<exists>a. r = Inr a)"
  by (cases r) auto

lemma isOk_unit: "isOk r \<longleftrightarrow> r = Inr ()"
  by (cases r) auto

text \<open>Which exceptions a call can raise: a predicate on its errors, carried through the
  combinators.\<close>

definition fails_only :: "('e \<Rightarrow> bool) \<Rightarrow> 'e + 'a \<Rightarrow> bool" where
  "fails_only P r \<longleftrightarrow> (\<forall>e. r = Inl e \<longrightarrow> P e)"

lemma fails_onlyD: "fails_only P r \<Longrightarrow> r = Inl e \<Longrightarrow> P e"
  by (simp add: fails_only_def)

lemma fails_only_Inr [simp, fails_intros]: "fails_only P (Inr a)"
  by (simp add: fails_only_def)

lemma fails_only_Inl [simp]: "fails_only P (Inl e) \<longleftrightarrow> P e"
  by (simp add: fails_only_def)

lemma fails_only_rejectR [fails_intros]: "P e \<Longrightarrow> fails_only P (rejectR b e)"
  by (simp add: fails_only_def rejectR_def)

lemma fails_only_bindR [fails_intros]:
  "fails_only P r \<Longrightarrow> (\<And>a. r = Inr a \<Longrightarrow> fails_only P (f a)) \<Longrightarrow> fails_only P (bindR r f)"
  by (cases r) auto

lemma fails_only_thenR [fails_intros]: "fails_only P r \<Longrightarrow> fails_only P s \<Longrightarrow> fails_only P (thenR r s)"
  by (cases r) auto

lemma fails_only_if [fails_intros]:
  "(b \<Longrightarrow> fails_only P r) \<Longrightarrow> (\<not> b \<Longrightarrow> fails_only P s) \<Longrightarrow> fails_only P (if b then r else s)"
  by simp

lemma fails_only_iterR [fails_intros]:
  "(\<And>x. x \<in> set xs \<Longrightarrow> fails_only P (f x)) \<Longrightarrow> fails_only P (iterR f xs)"
  by (induction xs) (auto intro: fails_only_thenR)

lemma fails_only_mapR [fails_intros]:
  "(\<And>x. x \<in> set xs \<Longrightarrow> fails_only P (f x)) \<Longrightarrow> fails_only P (mapR f xs)"
  by (induction xs) (auto intro!: fails_only_bindR)

lemma fails_only_foldR [fails_intros]:
  "(\<And>x s. x \<in> set xs \<Longrightarrow> fails_only P (f x s)) \<Longrightarrow> fails_only P (foldR f xs s)"
  by (induction xs arbitrary: s) (auto intro!: fails_only_bindR)

lemma bindR_Inr_iff [result_simps]:
  "bindR r f = Inr b \<longleftrightarrow> (\<exists>a. r = Inr a \<and> f a = Inr b)"
  by (cases r) auto

lemma bindR_Inl_iff [result_simps]:
  "bindR r f = Inl e \<longleftrightarrow> r = Inl e \<or> (\<exists>a. r = Inr a \<and> f a = Inl e)"
  by (cases r) auto

lemma thenR_Inr_iff [result_simps]:
  "thenR r s = Inr b \<longleftrightarrow> r = Inr () \<and> s = Inr b"
  by (cases r) auto

lemma thenR_Inl_iff [result_simps]:
  "thenR r s = Inl e \<longleftrightarrow> r = Inl e \<or> (r = Inr () \<and> s = Inl e)"
  by (cases r) auto

lemma rejectR_Inr_iff [result_simps]: "rejectR b e = Inr u \<longleftrightarrow> \<not> b"
  by (simp add: rejectR_def)

lemma rejectR_Inl_iff [result_simps]: "rejectR b e = Inl e' \<longleftrightarrow> b \<and> e' = e"
  by (auto simp: rejectR_def)

lemma liftR_Inr_iff [result_simps]: "liftR g r = Inr a \<longleftrightarrow> r = Inr a"
  by (cases r) (simp_all add: liftR_def)

lemma liftR_Inl_iff [result_simps]: "liftR g r = Inl f \<longleftrightarrow> (\<exists>e. r = Inl e \<and> f = g e)"
  by (cases r) (auto simp: liftR_def)

lemma liftR_simps [simp]: "liftR g (Inl e) = Inl (g e)" "liftR g (Inr a) = Inr a"
  by (simp_all add: liftR_def)

lemma iterR_Inr_iff [result_simps]:
  "iterR f xs = Inr u \<longleftrightarrow> (\<forall>x \<in> set xs. f x = Inr ())"
  by (induction xs) (auto simp: result_simps)

lemma mapR_Inr_iff [result_simps]:
  "mapR f xs = Inr ys \<longleftrightarrow> list_all2 (\<lambda>x y. f x = Inr y) xs ys"
  by (induction xs arbitrary: ys) (auto simp: result_simps list_all2_Cons1)

lemma mapR_map_Inr: "(\<And>x. x \<in> set xs \<Longrightarrow> f x = Inr (g x)) \<Longrightarrow> mapR f xs = Inr (map g xs)"
  by (induction xs) auto

lemma iterR_cong [fundef_cong]:
  "xs = ys \<Longrightarrow> (\<And>x. x \<in> set ys \<Longrightarrow> f x = g x) \<Longrightarrow> iterR f xs = iterR g ys"
  by (induction xs arbitrary: ys) auto

lemma mapR_cong [fundef_cong]:
  "xs = ys \<Longrightarrow> (\<And>x. x \<in> set ys \<Longrightarrow> f x = g x) \<Longrightarrow> mapR f xs = mapR g ys"
  by (induction xs arbitrary: ys) auto

lemma bindR_cong [fundef_cong]:
  "r = r' \<Longrightarrow> (\<And>a. r' = Inr a \<Longrightarrow> f a = g a) \<Longrightarrow> bindR r f = bindR r' g"
  by (cases r') auto

lemma thenR_cong [fundef_cong]:
  "r = r' \<Longrightarrow> (r' = Inr () \<Longrightarrow> s = s') \<Longrightarrow> thenR r s = thenR r' s'"
  by (cases r') auto

lemma foldR_append: "foldR f (xs @ ys) s = bindR (foldR f xs s) (foldR f ys)"
  by (induction xs arbitrary: s) (auto simp: bindR_def split: sum.splits)

lemma foldR_invariant:
  assumes "\<And>x s s'. x \<in> set xs \<Longrightarrow> P s \<Longrightarrow> f x s = Inr s' \<Longrightarrow> P s'"
    and "foldR f xs s = Inr t" and "P s"
  shows "P t"
  using assms
proof (induction xs arbitrary: s)
  case Nil
  then show ?case by simp
next
  case (Cons x xs)
  from Cons.prems(2) obtain s' where s': "f x s = Inr s'" "foldR f xs s' = Inr t"
    by (auto simp: result_simps)
  have "P s'" using Cons.prems(1) [of x s s'] Cons.prems(3) s'(1) by simp
  then show ?case using Cons.IH [OF _ s'(2)] Cons.prems(1) by auto
qed

section \<open>Dictionaries: insertion-ordered association lists\<close>

definition dput :: "string \<Rightarrow> 'v \<Rightarrow> 'v dict \<Rightarrow> 'v dict" where
  "dput k v d = AList.update k v d"

definition dget :: "'v dict \<Rightarrow> string \<Rightarrow> 'v option" where
  "dget d k = map_of d k"

definition dget_or :: "'v dict \<Rightarrow> string \<Rightarrow> 'v \<Rightarrow> 'v" where
  "dget_or d k v = (case dget d k of None \<Rightarrow> v | Some w \<Rightarrow> w)"

definition dkeys :: "'v dict \<Rightarrow> string list" where
  "dkeys d = map fst d"

definition dupdate :: "'v dict \<Rightarrow> 'v dict \<Rightarrow> 'v dict" where
  "dupdate d e = foldl (\<lambda>acc kv. dput (fst kv) (snd kv) acc) d e"

definition wf_dict :: "'v dict \<Rightarrow> bool" where
  "wf_dict d \<longleftrightarrow> distinct (map fst d)"

lemma dget_dput [dict_simps]: "dget (dput k v d) k' = (if k' = k then Some v else dget d k')"
  by (simp add: dget_def dput_def update_conv')

lemma wf_dict_dput [dict_simps]: "wf_dict d \<Longrightarrow> wf_dict (dput k v d)"
  by (simp add: wf_dict_def dput_def distinct_update)

lemma wf_dict_Nil [simp]: "wf_dict []"
  by (simp add: wf_dict_def)

lemma dget_Nil [simp]: "dget [] k = None"
  by (simp add: dget_def)

lemma set_keys_dput [dict_simps]: "fst ` set (dput k v d) = insert k (fst ` set d)"
  by (simp add: dput_def dom_update)

lemma dget_None_iff: "dget d k = None \<longleftrightarrow> k \<notin> fst ` set d"
  by (simp add: dget_def map_of_eq_None_iff)

lemma dget_Some_in: "dget d k = Some v \<Longrightarrow> (k, v) \<in> set d"
  by (simp add: dget_def map_of_SomeD)

lemma dget_wf: "wf_dict d \<Longrightarrow> (k, v) \<in> set d \<Longrightarrow> dget d k = Some v"
  by (simp add: dget_def wf_dict_def)

lemma length_dput_new: "k \<notin> fst ` set d \<Longrightarrow> dput k v d = d @ [(k, v)]"
  by (induction d) (auto simp: dput_def)

lemma dget_Cons: "dget ((a, b) # d) k = (if k = a then Some b else dget d k)"
  by (simp add: dget_def)

lemma dupdate_Nil [simp]: "dupdate d [] = d"
  by (simp add: dupdate_def)

lemma dupdate_Cons [simp]: "dupdate d ((k, v) # e) = dupdate (dput k v d) e"
  by (simp add: dupdate_def)

lemma dget_dupdate_notin: "k \<notin> fst ` set e \<Longrightarrow> dget (dupdate d e) k = dget d k"
  by (induction e arbitrary: d) (auto simp: dict_simps)

lemma dget_dupdate:
  "wf_dict e \<Longrightarrow> dget (dupdate d e) k = (case dget e k of None \<Rightarrow> dget d k | Some v \<Rightarrow> Some v)"
proof (induction e arbitrary: d)
  case Nil
  then show ?case by simp
next
  case (Cons kv e)
  obtain a b where kv: "kv = (a, b)" by force
  from Cons.prems kv have "wf_dict e" and notin: "a \<notin> fst ` set e"
    by (auto simp: wf_dict_def)
  then have "dget e a = None" by (simp add: dget_None_iff)
  with \<open>wf_dict e\<close> show ?case
    using Cons.IH [of "dput a b d"]
    by (cases "k = a") (auto simp: kv dict_simps dget_Cons split: option.splits)
qed

section \<open>Sorted, duplicate-free lists\<close>

definition usort :: "'a::linorder list \<Rightarrow> 'a list" where
  "usort xs = sort (remdups xs)"

lemma set_usort [simp]: "set (usort xs) = set xs"
  by (simp add: usort_def)

lemma distinct_usort [simp]: "distinct (usort xs)"
  by (simp add: usort_def)

lemma sorted_usort [simp]: "sorted (usort xs)"
  by (simp add: usort_def)

lemma usort_cong_set: "set xs = set ys \<Longrightarrow> usort xs = usort ys"
  by (rule sorted_distinct_set_unique) simp_all

lemma usort_idem [simp]: "usort (usort xs) = usort xs"
  by (rule usort_cong_set) simp

lemma usort_id: "sorted xs \<Longrightarrow> distinct xs \<Longrightarrow> usort xs = xs"
  by (rule sorted_distinct_set_unique) simp_all

lemma sort_key_unique:
  fixes f :: "'a \<Rightarrow> 'k::linorder"
  assumes "distinct (map f xs)" "distinct (map f ys)" "set xs = set ys"
  shows "sort_key f xs = sort_key f ys"
proof -
  have "distinct xs" "distinct ys" using assms by (auto simp: distinct_map)
  then have "mset xs = mset ys" using assms(3) by (simp add: set_eq_iff_mset_eq_distinct)
  moreover have "inj_on f (set ys)" using assms by (simp add: distinct_map)
  ultimately show ?thesis
    using assms(3) by (intro sort_key_inj_key_eq) simp_all
qed

section \<open>Pinned regular expressions\<close>

text \<open>
  The contracts test digests with \<open>re.match("^[0-9a-f]{n}$", s)\<close>. In Python the
  anchor \<open>$\<close> also matches just before one newline at the end of the string, so the
  pattern accepts a digest followed by a newline; the model keeps that.
\<close>

definition newline :: char where
  "newline = CHR 0x0A"

definition chomp :: "string \<Rightarrow> string" where
  "chomp s = (if s \<noteq> [] \<and> last s = newline then butlast s else s)"

definition hexl_chars :: string where
  "hexl_chars = ''0123456789abcdef''"

definition is_hexl :: "char \<Rightarrow> bool" where
  "is_hexl c \<longleftrightarrow> c \<in> set hexl_chars"

definition re_hex :: "nat \<Rightarrow> string \<Rightarrow> bool" where
  "re_hex n s \<longleftrightarrow> (length (chomp s) = n \<and> list_all is_hexl (chomp s)) \<or>
     (length s = n \<and> list_all is_hexl s)"

lemma newline_not_hexl [simp]: "\<not> is_hexl newline"
  by (simp add: is_hexl_def hexl_chars_def newline_def)

lemma re_hex_iff:
  "re_hex n s \<longleftrightarrow> (\<exists>h. length h = n \<and> list_all is_hexl h \<and> (s = h \<or> s = h @ [newline]))"
proof
  assume "re_hex n s"
  then consider "length (chomp s) = n" "list_all is_hexl (chomp s)"
    | "length s = n" "list_all is_hexl s"
    by (auto simp: re_hex_def)
  then show "\<exists>h. length h = n \<and> list_all is_hexl h \<and> (s = h \<or> s = h @ [newline])"
  proof cases
    case 1
    moreover have "s = chomp s \<or> s = chomp s @ [newline]"
      by (cases s rule: rev_cases) (simp_all add: chomp_def)
    ultimately show ?thesis by blast
  next
    case 2
    then show ?thesis by blast
  qed
next
  assume "\<exists>h. length h = n \<and> list_all is_hexl h \<and> (s = h \<or> s = h @ [newline])"
  then show "re_hex n s" by (auto simp: re_hex_def chomp_def)
qed

end
