(* ===== verification/Canonical_Json.thy ===== *)
theory Canonical_Json
  imports Prelude
begin

text \<open>
  JSON-ready Python values and the one canonicalization of the system:
  \<open>json.dumps(document, sort_keys=True, separators=(",", ":")).encode("utf-8")\<close>,
  which every content address is computed from (\<open>_canonical_bytes\<close> of the contracts,
  \<open>canonical_json_bytes\<close> of the network module). A float carries the text of its
  \<open>repr\<close>, which determines the double. The reader \<open>json_loads\<close> is
  \<open>json.loads\<close> on texts whose floats are written as \<open>repr\<close> writes them; a key that is repeated takes its last value, in the place of the first.
  Of the limits of the interpreter (digits of an integer, nesting) it has none.
\<close>

datatype pyval =
    PNone
  | PBool bool
  | PInt int
  | PFloat string
  | PStr string
  | PList "pyval list"
  | PDict "(string \<times> pyval) list"

section \<open>Characters\<close>

definition quote_c :: char where "quote_c = CHR 0x22"
definition bslash_c :: char where "bslash_c = CHR 0x5C"

definition digit_char :: "nat \<Rightarrow> char" where
  "digit_char n = hexl_chars ! n"

definition code :: "char \<Rightarrow> nat" where
  "code c = of_char c"

definition esc_u :: "char \<Rightarrow> string" where
  "esc_u c = [bslash_c, CHR ''u'', CHR ''0'', CHR ''0'',
     digit_char (code c div 16), digit_char (code c mod 16)]"

definition esc_char :: "char \<Rightarrow> string" where
  "esc_char c =
     (if c = quote_c then [bslash_c, quote_c]
      else if c = bslash_c then [bslash_c, bslash_c]
      else if c = CHR 0x0A then [bslash_c, CHR ''n'']
      else if c = CHR 0x0D then [bslash_c, CHR ''r'']
      else if c = CHR 0x09 then [bslash_c, CHR ''t'']
      else if c = CHR 0x0C then [bslash_c, CHR ''f'']
      else if c = CHR 0x08 then [bslash_c, CHR ''b'']
      else if code c < 32 \<or> 126 < code c then esc_u c
      else [c])"

definition quoted :: "(char \<Rightarrow> string) \<Rightarrow> string \<Rightarrow> string" where
  "quoted enc s = quote_c # concat (map enc s) @ [quote_c]"

abbreviation json_str :: "string \<Rightarrow> string" where
  "json_str \<equiv> quoted esc_char"

section \<open>Numbers\<close>

fun show_nat :: "nat \<Rightarrow> string" where
  "show_nat n = (if n < 10 then [digit_char n] else show_nat (n div 10) @ [digit_char (n mod 10)])"

declare show_nat.simps [simp del]

definition show_int :: "int \<Rightarrow> string" where
  "show_int i = (if i < 0 then CHR ''-'' # show_nat (nat (- i)) else show_nat (nat i))"

section \<open>The writer\<close>

text \<open>\<open>json.dumps\<close> writes \<open>", "\<close> and \<open>": "\<close> by default and \<open>","\<close> and \<open>":"\<close> in the canonical form:
  \<open>sp\<close> is what follows a comma and a colon.\<close>

fun joinc :: "char \<Rightarrow> string \<Rightarrow> string list \<Rightarrow> string" where
  "joinc c sp [] = []"
| "joinc c sp [s] = s"
| "joinc c sp (s # t # ts) = s @ c # sp @ joinc c sp (t # ts)"

fun json_print :: "(char \<Rightarrow> string) \<Rightarrow> string \<Rightarrow> pyval \<Rightarrow> string" where
  "json_print enc sp PNone = ''null''"
| "json_print enc sp (PBool b) = (if b then ''true'' else ''false'')"
| "json_print enc sp (PInt i) = show_int i"
| "json_print enc sp (PFloat r) = r"
| "json_print enc sp (PStr s) = quoted enc s"
| "json_print enc sp (PList vs) = CHR ''['' # joinc (CHR '','') sp (map (json_print enc sp) vs) @ '']''"
| "json_print enc sp (PDict kvs) =
     CHR ''{'' # joinc (CHR '','') sp
       (map (\<lambda>kv. quoted enc (fst kv) @ CHR '':'' # sp @ json_print enc sp (snd kv)) kvs) @ ''}''"

abbreviation json_write :: "string \<Rightarrow> pyval \<Rightarrow> string" where
  "json_write \<equiv> json_print esc_char"

abbreviation json_text :: "pyval \<Rightarrow> string" where
  "json_text \<equiv> json_write []"

fun json_norm :: "pyval \<Rightarrow> pyval" where
  "json_norm (PList vs) = PList (map json_norm vs)"
| "json_norm (PDict kvs) = PDict (sort_key fst (map (\<lambda>kv. (fst kv, json_norm (snd kv))) kvs))"
| "json_norm v = v"

definition canonical_bytes :: "pyval \<Rightarrow> string" where
  "canonical_bytes v = json_text (json_norm v)"

section \<open>The reader\<close>

definition hex_value :: "char \<Rightarrow> nat option" where
  "hex_value c = (let k = length (takeWhile (\<lambda>x. x \<noteq> c) hexl_chars)
     in if k < 16 then Some k else None)"

fun read_str :: "string \<Rightarrow> (string \<times> string) option" where
  "read_str [] = None"
| "read_str (c # r) =
     (if c = quote_c then Some ([], r)
      else if c = bslash_c then
        (case r of
           [] \<Rightarrow> None
         | e # r2 \<Rightarrow>
             if e = CHR ''u'' then
               (case r2 of
                  z1 # z2 # h # l # r3 \<Rightarrow>
                    (case (hex_value h, hex_value l, z1 = CHR ''0'' \<and> z2 = CHR ''0'', read_str r3) of
                       (Some a, Some b, True, Some (t, rest)) \<Rightarrow> Some (char_of (16 * a + b) # t, rest)
                     | _ \<Rightarrow> None)
                | _ \<Rightarrow> None)
             else
               (case (map_of [(quote_c, quote_c), (bslash_c, bslash_c), (CHR ''n'', CHR 0x0A),
                     (CHR ''r'', CHR 0x0D), (CHR ''t'', CHR 0x09), (CHR ''f'', CHR 0x0C),
                     (CHR ''b'', CHR 0x08), (CHR 0x2F, CHR 0x2F)] e, read_str r2) of
                  (Some x, Some (t, rest)) \<Rightarrow> Some (x # t, rest)
                | _ \<Rightarrow> None))
      else if code c < 32 then None
      else (case read_str r of None \<Rightarrow> None | Some (t, rest) \<Rightarrow> Some (c # t, rest)))"

definition is_digit :: "char \<Rightarrow> bool" where
  "is_digit c \<longleftrightarrow> c \<in> set ''0123456789''"

definition token_char :: "char \<Rightarrow> bool" where
  "token_char c \<longleftrightarrow> c \<notin> set '',]}:'' \<and> c \<noteq> quote_c \<and> c \<notin> {CHR '' '', CHR 0x09, CHR 0x0A, CHR 0x0D}"

definition read_nat :: "string \<Rightarrow> nat" where
  "read_nat s = foldl (\<lambda>n c. 10 * n + length (takeWhile (\<lambda>x. x \<noteq> c) hexl_chars)) 0 s"

definition int_token :: "string \<Rightarrow> bool" where
  "int_token s \<longleftrightarrow> (let d = (case s of c # r \<Rightarrow> (if c = CHR ''-'' then r else s) | [] \<Rightarrow> [])
     in d \<noteq> [] \<and> list_all is_digit d \<and> (hd d = CHR ''0'' \<longrightarrow> tl d = []))"

definition read_int :: "string \<Rightarrow> int" where
  "read_int s = (case s of c # r \<Rightarrow>
       (if c = CHR ''-'' then - int (read_nat r) else int (read_nat s)) | [] \<Rightarrow> 0)"

text \<open>The grammar of a JSON number with a fraction or an exponent.\<close>

definition float_shape :: "string \<Rightarrow> bool" where
  "float_shape s \<longleftrightarrow>
     (let t = (case s of c # r \<Rightarrow> if c = CHR ''-'' then r else s | [] \<Rightarrow> []);
          m = takeWhile (\<lambda>c. c \<noteq> CHR ''e'') t; ex = dropWhile (\<lambda>c. c \<noteq> CHR ''e'') t;
          ip = takeWhile (\<lambda>c. c \<noteq> CHR ''.'') m; fp = dropWhile (\<lambda>c. c \<noteq> CHR ''.'') m;
          xp = (case tl ex of c # r \<Rightarrow> if c = CHR ''+'' \<or> c = CHR ''-'' then r else c # r | [] \<Rightarrow> [])
      in ip \<noteq> [] \<and> list_all is_digit ip \<and> (hd ip = CHR ''0'' \<longrightarrow> tl ip = []) \<and>
         (fp = [] \<or> (tl fp \<noteq> [] \<and> list_all is_digit (tl fp))) \<and> (ex = [] \<or> (xp \<noteq> [] \<and> list_all is_digit xp)))"

definition float_token :: "string \<Rightarrow> bool" where
  "float_token s \<longleftrightarrow> s \<in> {''NaN'', ''Infinity'', ''-Infinity''} \<or>
     (s \<noteq> [] \<and> list_all (\<lambda>c. is_digit c \<or> c \<in> set ''+-.e'') s \<and>
      list_ex (\<lambda>c. c \<in> set ''.e'') s \<and> hd s \<in> set ''-0123456789'' \<and> float_shape s)"

definition read_token :: "string \<Rightarrow> pyval option" where
  "read_token t =
     (if t = ''null'' then Some PNone
      else if t = ''true'' then Some (PBool True)
      else if t = ''false'' then Some (PBool False)
      else if int_token t then Some (PInt (read_int t))
      else if float_token t then Some (PFloat t)
      else None)"

definition is_ws :: "char \<Rightarrow> bool" where
  "is_ws c \<longleftrightarrow> c = CHR '' '' \<or> c = CHR 0x09 \<or> c = CHR 0x0A \<or> c = CHR 0x0D"

definition skip_ws :: "string \<Rightarrow> string" where
  "skip_ws s = dropWhile is_ws s"

fun read_val :: "nat \<Rightarrow> string \<Rightarrow> (pyval \<times> string) option"
  and read_elems :: "nat \<Rightarrow> string \<Rightarrow> (pyval list \<times> string) option"
  and read_members :: "nat \<Rightarrow> string \<Rightarrow> ((string \<times> pyval) list \<times> string) option" where
  "read_val 0 s = None"
| "read_val (Suc n) s =
     (case skip_ws s of
        [] \<Rightarrow> None
      | c # r \<Rightarrow>
          if c = quote_c then map_option (\<lambda>(t, q). (PStr t, q)) (read_str r)
          else if c = CHR ''['' then
            (case skip_ws r of
               d # q \<Rightarrow> if d = CHR '']'' then Some (PList [], q)
                 else map_option (\<lambda>(vs, q). (PList vs, q)) (read_elems n r)
             | [] \<Rightarrow> None)
          else if c = CHR ''{'' then
            (case skip_ws r of
               d # q \<Rightarrow> if d = CHR ''}'' then Some (PDict [], q)
                 else map_option (\<lambda>(kvs, q). (PDict (dupdate [] kvs), q)) (read_members n r)
             | [] \<Rightarrow> None)
          else (case read_token (takeWhile token_char (c # r)) of
                  None \<Rightarrow> None
                | Some v \<Rightarrow> Some (v, dropWhile token_char (c # r))))"
| "read_elems 0 s = None"
| "read_elems (Suc n) s =
     (case read_val n s of
        None \<Rightarrow> None
      | Some (v, q) \<Rightarrow>
          (case skip_ws q of
             [] \<Rightarrow> None
           | d # r \<Rightarrow>
               if d = CHR '']'' then Some ([v], r)
               else if d = CHR '','' then map_option (\<lambda>(vs, q). (v # vs, q)) (read_elems n r)
               else None))"
| "read_members 0 s = None"
| "read_members (Suc n) s =
     (case skip_ws s of
        [] \<Rightarrow> None
      | c # r \<Rightarrow>
          if c \<noteq> quote_c then None
          else (case read_str r of
                  None \<Rightarrow> None
                | Some (k, r1) \<Rightarrow>
                    (case skip_ws r1 of
                       [] \<Rightarrow> None
                     | e # r2 \<Rightarrow>
                         if e \<noteq> CHR '':'' then None
                         else (case read_val n r2 of
                                 None \<Rightarrow> None
                               | Some (v, r3) \<Rightarrow>
                                   (case skip_ws r3 of
                                      [] \<Rightarrow> None
                                    | d # r4 \<Rightarrow>
                                        if d = CHR ''}'' then Some ([(k, v)], r4)
                                        else if d = CHR '','' then
                                          map_option (\<lambda>(kvs, q). ((k, v) # kvs, q)) (read_members n r4)
                                        else None)))))"

definition json_loads :: "string \<Rightarrow> pyval option" where
  "json_loads s =
     (case read_val (Suc (length s)) s of
        Some (v, q) \<Rightarrow> if skip_ws q = [] then Some v else None
      | None \<Rightarrow> None)"

section \<open>Well-formed values\<close>

fun wf_pyval :: "pyval \<Rightarrow> bool" where
  "wf_pyval (PFloat r) = float_token r"
| "wf_pyval (PList vs) = list_all wf_pyval vs"
| "wf_pyval (PDict kvs) = (distinct (map fst kvs) \<and> list_all (\<lambda>kv. wf_pyval (snd kv)) kvs)"
| "wf_pyval _ = True"

section \<open>Reading back a string\<close>

lemma code_less: "code c < 256"
  using of_char_mod_256 [of c, where ?'a = nat] by (simp add: code_def)

lemma code_split: "char_of (16 * (code c div 16) + code c mod 16) = c"
  by (simp add: code_def)

lemma hex_value_digits: "\<forall>k \<in> set [0..<16]. hex_value (digit_char k) = Some k"
  by code_simp

lemma hex_value_digit_char [simp]: "k < 16 \<Longrightarrow> hex_value (digit_char k) = Some k"
  using hex_value_digits by simp

lemma read_str_esc_u:
  "read_str (esc_u c @ r) = map_option (\<lambda>(t, q). (c # t, q)) (read_str r)"
proof -
  have "code c div 16 < 16" using code_less [of c] by linarith
  then show ?thesis
    using code_split [of c]
    by (simp add: esc_u_def bslash_c_def quote_c_def split: option.splits prod.splits)
qed

lemma read_str_esc [simp]:
  "read_str (esc_char c @ r) = map_option (\<lambda>(t, q). (c # t, q)) (read_str r)"
proof (cases "c = quote_c \<or> c = bslash_c \<or> c \<in> {CHR 0x0A, CHR 0x0D, CHR 0x09, CHR 0x0C, CHR 0x08}")
  case True
  then show ?thesis
    by (auto simp: esc_char_def quote_c_def bslash_c_def split: option.splits prod.splits)
next
  case False
  then show ?thesis
    by (auto simp: esc_char_def read_str_esc_u split: option.splits prod.splits)
qed

section \<open>Reading back a number\<close>

lemma digit_chars: "\<forall>k \<in> set [0..<10]. is_digit (digit_char k) \<and>
    length (takeWhile (\<lambda>x. x \<noteq> digit_char k) hexl_chars) = k"
  by code_simp

lemma digit_char_simps:
  assumes "k < 10"
  shows "is_digit (digit_char k)" "length (takeWhile (\<lambda>x. x \<noteq> digit_char k) hexl_chars) = k"
  using digit_chars assms by auto

lemma show_nat_induct_cases:
  "show_nat n \<noteq> [] \<and> list_all is_digit (show_nat n) \<and> read_nat (show_nat n) = n"
proof (induction n rule: show_nat.induct)
  case (1 n)
  show ?case
  proof (cases "n < 10")
    case True
    then show ?thesis by (simp add: show_nat.simps [of n] digit_char_simps read_nat_def)
  next
    case False
    with 1 show ?thesis
      by (simp add: show_nat.simps [of n] digit_char_simps read_nat_def)
  qed
qed

lemmas show_nat_facts [simp] =
  show_nat_induct_cases [THEN conjunct1]
  show_nat_induct_cases [THEN conjunct2, THEN conjunct1]
  show_nat_induct_cases [THEN conjunct2, THEN conjunct2]

lemma minus_not_digit [simp]: "\<not> is_digit CHR ''-''"
  by (simp add: is_digit_def)

lemma show_nat_hd [simp]: "is_digit (hd (show_nat n))"
  using show_nat_facts(1,2) [of n] by (cases "show_nat n") auto

lemma digit_char_0: "k < 10 \<Longrightarrow> digit_char k = CHR ''0'' \<longleftrightarrow> k = 0"
proof -
  have "\<forall>k \<in> set [0..<10]. digit_char k = CHR ''0'' \<longleftrightarrow> k = 0" by code_simp
  then show "k < 10 \<Longrightarrow> digit_char k = CHR ''0'' \<longleftrightarrow> k = 0" by simp
qed

lemma show_nat_zero: "hd (show_nat n) = CHR ''0'' \<longrightarrow> n = 0"
proof (induction n rule: show_nat.induct)
  case (1 n)
  then show ?case by (cases "n < 10") (auto simp: show_nat.simps [of n] digit_char_0 div_eq_0_iff)
qed

lemma show_nat_no_zero [simp]: "hd (show_nat n) = CHR ''0'' \<longrightarrow> tl (show_nat n) = []"
proof
  assume "hd (show_nat n) = CHR ''0''"
  then show "tl (show_nat n) = []" using show_nat_zero [of n] by (simp add: show_nat.simps)
qed

lemma show_nat_Cons: obtains c r where "show_nat n = c # r" "is_digit c"
  using show_nat_facts(1) [of n] show_nat_hd [of n] by (cases "show_nat n") auto

lemma int_token_show_int: "int_token (show_int i)"
proof (cases "i < 0")
  case True
  then show ?thesis by (simp add: show_int_def int_token_def)
next
  case False
  obtain c r where cr: "show_nat (nat i) = c # r" "is_digit c" by (rule show_nat_Cons)
  then have "c \<noteq> CHR ''-''" by auto
  moreover have "list_all is_digit (c # r)" using show_nat_facts(2) [of "nat i"] cr by simp
  moreover have "c = CHR ''0'' \<longrightarrow> r = []" using show_nat_no_zero [of "nat i"] cr by simp
  ultimately show ?thesis using False cr by (simp add: show_int_def int_token_def)
qed

lemma read_int_show_int: "read_int (show_int i) = i"
proof (cases "i < 0")
  case True
  then show ?thesis by (simp add: show_int_def read_int_def)
next
  case False
  obtain c r where cr: "show_nat (nat i) = c # r" "is_digit c" by (rule show_nat_Cons)
  then have "c \<noteq> CHR ''-''" by auto
  moreover have "read_nat (c # r) = nat i" using show_nat_facts(3) [of "nat i"] cr by simp
  ultimately show ?thesis using False cr by (simp add: show_int_def read_int_def)
qed

lemma int_token_chars: "int_token t \<Longrightarrow> c \<in> set t \<Longrightarrow> is_digit c \<or> c = CHR ''-''"
  by (cases t) (auto simp: int_token_def list_all_iff split: if_splits)

lemma int_token_nonempty: "int_token t \<Longrightarrow> t \<noteq> []"
  by (auto simp: int_token_def)

lemma words_not_int: "\<not> int_token ''null''" "\<not> int_token ''true''" "\<not> int_token ''false''"
  by (simp_all add: int_token_def is_digit_def)

lemma words_not_float: "\<not> float_token ''null''" "\<not> float_token ''true''" "\<not> float_token ''false''"
  by (simp_all add: float_token_def is_digit_def)

lemma int_token_not_float:
  assumes "int_token t" shows "\<not> float_token t"
proof
  assume "float_token t"
  then consider "t \<in> {''NaN'', ''Infinity'', ''-Infinity''}" | "list_ex (\<lambda>c. c \<in> set ''.e'') t"
    by (auto simp: float_token_def)
  then show False
  proof cases
    case 1
    then show False using assms by (auto simp: int_token_def is_digit_def)
  next
    case 2
    then obtain c where "c \<in> set t" "c \<in> set ''.e''" by (auto simp: list_ex_iff)
    then show False using int_token_chars [OF assms] by (auto simp: is_digit_def)
  qed
qed

lemma read_token_int: "int_token t \<Longrightarrow> read_token t = Some (PInt (read_int t))"
  using words_not_int by (auto simp: read_token_def)

lemma read_token_float: "float_token t \<Longrightarrow> read_token t = Some (PFloat t)"
  using words_not_float int_token_not_float [of t] by (auto simp: read_token_def)

lemma read_token_words:
  "read_token ''null'' = Some PNone" "read_token ''true'' = Some (PBool True)"
  "read_token ''false'' = Some (PBool False)"
  by (simp_all add: read_token_def)

definition plain_token :: "string \<Rightarrow> bool" where
  "plain_token t \<longleftrightarrow> t \<noteq> [] \<and> list_all token_char t \<and> hd t \<notin> {CHR ''['', CHR ''{''}"

lemma digit_token: "is_digit c \<Longrightarrow> token_char c \<and> c \<notin> {CHR ''['', CHR ''{''}"
  by (auto simp: is_digit_def token_char_def quote_c_def)

lemma token_minus: "token_char CHR ''-'' \<and> CHR ''-'' \<notin> {CHR ''['', CHR ''{''}"
  by (simp add: token_char_def quote_c_def)

lemma plain_token_int:
  assumes "int_token t" shows "plain_token t"
proof -
  have "token_char c \<and> c \<notin> {CHR ''['', CHR ''{''}" if "c \<in> set t" for c
    using int_token_chars [OF assms that] digit_token token_minus by blast
  then show ?thesis
    using hd_in_set [OF int_token_nonempty [OF assms]] int_token_nonempty [OF assms]
    by (simp add: plain_token_def list_all_iff)
qed

lemma number_chars:
  "is_digit c \<or> c \<in> set ''+-.e'' \<Longrightarrow> token_char c \<and> c \<notin> {CHR ''['', CHR ''{''}"
  by (auto simp: is_digit_def token_char_def quote_c_def)

lemma plain_token_number:
  assumes "t \<noteq> []" "list_all (\<lambda>c. is_digit c \<or> c \<in> set ''+-.e'') t"
  shows "plain_token t"
proof -
  have "token_char c \<and> c \<notin> {CHR ''['', CHR ''{''}" if "c \<in> set t" for c
    using that assms(2) number_chars unfolding list_all_iff by blast
  then show ?thesis
    using assms(1) hd_in_set [OF assms(1)] by (simp add: plain_token_def list_all_iff)
qed

lemma plain_token_float: "float_token t \<Longrightarrow> plain_token t"
  unfolding float_token_def
proof (elim disjE conjE)
  assume "t \<in> {''NaN'', ''Infinity'', ''-Infinity''}"
  then show ?thesis by (auto simp: plain_token_def token_char_def quote_c_def)
qed (rule plain_token_number)

lemma plain_token_words:
  "plain_token ''null''" "plain_token ''true''" "plain_token ''false''"
  by (simp_all add: plain_token_def token_char_def quote_c_def)

definition delimited :: "string \<Rightarrow> bool" where
  "delimited r \<longleftrightarrow> (case r of [] \<Rightarrow> True | c # _ \<Rightarrow> \<not> token_char c)"

lemma span_token:
  assumes "plain_token t" "delimited r"
  shows "takeWhile token_char (t @ r) = t" "dropWhile token_char (t @ r) = r"
proof -
  have "takeWhile token_char r = []" "dropWhile token_char r = r"
    using assms(2) by (cases r; simp add: delimited_def)+
  with assms(1) show "takeWhile token_char (t @ r) = t" "dropWhile token_char (t @ r) = r"
    by (auto simp: plain_token_def list_all_iff takeWhile_append dropWhile_append)
qed

lemma skip_ws_Cons [simp]: "\<not> is_ws c \<Longrightarrow> skip_ws (c # r) = c # r"
  by (simp add: skip_ws_def)

lemma skip_ws_Nil [simp]: "skip_ws [] = []"
  by (simp add: skip_ws_def)

lemma skip_ws_sp: "list_all is_ws sp \<Longrightarrow> skip_ws (sp @ r) = skip_ws r"
  by (induction sp) (simp_all add: skip_ws_def)

lemma quote_neq [simp]: "quote_c \<noteq> CHR ''}''" "CHR ''{'' \<noteq> quote_c" "CHR ''['' \<noteq> quote_c"
  by (simp_all add: quote_c_def)

lemma not_ws [simp]: "\<not> is_ws quote_c" "\<not> is_ws CHR ''[''" "\<not> is_ws CHR '']''" "\<not> is_ws CHR ''{''" "\<not> is_ws CHR ''}''"
  "\<not> is_ws CHR '',''" "\<not> is_ws CHR '':''"
  by (simp_all add: is_ws_def quote_c_def)

lemma token_not_ws: "token_char c \<Longrightarrow> \<not> is_ws c"
  by (auto simp: token_char_def is_ws_def)

text \<open>A leading space changes nothing.\<close>

lemma read_val_skip: "list_all is_ws sp \<Longrightarrow> read_val n (sp @ s) = read_val n s"
  by (cases n) (simp_all add: skip_ws_sp)

lemma read_elems_skip: "list_all is_ws sp \<Longrightarrow> read_elems n (sp @ s) = read_elems n s"
  by (cases n) (simp_all add: read_val_skip)

lemma read_members_skip: "list_all is_ws sp \<Longrightarrow> read_members n (sp @ s) = read_members n s"
  by (cases n) (simp_all add: skip_ws_sp)

lemma read_val_token:
  assumes "plain_token t" "delimited r" "read_token t = Some v"
  shows "read_val (Suc n) (t @ r) = Some (v, r)"
proof -
  obtain c u where t: "t = c # u" using assms(1) by (cases t) (auto simp: plain_token_def)
  with assms(1) have c: "c \<noteq> quote_c" "c \<noteq> CHR ''[''" "c \<noteq> CHR ''{''" "token_char c"
    by (auto simp: plain_token_def token_char_def)
  have "takeWhile token_char (c # u @ r) = t" "dropWhile token_char (c # u @ r) = r"
    using span_token [OF assms(1,2)] by (simp_all add: t)
  then show ?thesis
    using assms(3) c token_not_ws [OF c(4)] by (simp add: t)
qed

section \<open>Round trip\<close>

lemma delimited_simps [simp]:
  "delimited []" "delimited (CHR '','' # r)" "delimited (CHR '']'' # r)" "delimited (CHR ''}'' # r)"
  by (simp_all add: delimited_def token_char_def)

lemma dupdate_distinct: "distinct (map fst (d @ e)) \<Longrightarrow> dupdate d e = d @ e"
proof (induction e arbitrary: d)
  case Nil
  then show ?case by simp
next
  case (Cons kv e)
  then have "fst kv \<notin> fst ` set d" by auto
  then have "dupdate d (kv # e) = dupdate (d @ [kv]) e" by (cases kv) (simp add: length_dput_new)
  also have "\<dots> = (d @ [kv]) @ e" using Cons.prems by (intro Cons.IH) simp
  finally show ?case by simp
qed

lemma dupdate_wf [simp]: "distinct (map fst e) \<Longrightarrow> dupdate [] e = e"
  using dupdate_distinct [of "[]" e] by simp

text \<open>The first character of a text opens a value.\<close>

lemma joinc_Cons: "joinc c sp (s # ts) = s @ (if ts = [] then [] else c # sp @ joinc c sp ts)"
  by (cases ts) simp_all

text \<open>A text is read back whatever way its characters are escaped, if the reader undoes it.\<close>

locale json_encoder =
  fixes enc :: "char \<Rightarrow> string"
  assumes read_enc: "read_str (enc c @ r) = map_option (\<lambda>(t, q). (c # t, q)) (read_str r)"
begin

lemma read_enc_quoted [simp]:
  "read_str (concat (map enc s) @ quote_c # r) = Some (s, r)"
  by (induction s) (simp_all add: read_enc)

lemma text_hd:
  assumes "wf_pyval v"
  obtains c r where "json_print enc sp v = c # r" "\<not> is_ws c" "c \<noteq> CHR '']''"
proof -
  have token: "\<exists>c r. t = c # r \<and> \<not> is_ws c \<and> c \<noteq> CHR '']''" if "plain_token t" for t
    using that by (cases t) (auto simp: plain_token_def token_char_def is_ws_def)
  have "\<exists>c r. json_print enc sp v = c # r \<and> \<not> is_ws c \<and> c \<noteq> CHR '']''"
  proof (cases v)
    case (PInt i)
    then show ?thesis using token [OF plain_token_int [OF int_token_show_int]] by simp
  next
    case (PFloat t)
    then show ?thesis using assms token [OF plain_token_float] by simp
  qed (simp_all add: quoted_def quote_c_def is_ws_def)
  then show thesis using that by blast
qed

abbreviation elems_text :: "string \<Rightarrow> pyval list \<Rightarrow> string" where
  "elems_text sp vs \<equiv> joinc (CHR '','') sp (map (json_print enc sp) vs)"

abbreviation members_text :: "string \<Rightarrow> (string \<times> pyval) list \<Rightarrow> string" where
  "members_text sp kvs \<equiv>
     joinc (CHR '','') sp (map (\<lambda>kv. quoted enc (fst kv) @ CHR '':'' # sp @ json_print enc sp (snd kv)) kvs)"

lemma read_elems_joinc:
  assumes "list_all is_ws sp"
    and "\<And>v n r. v \<in> set vs \<Longrightarrow> delimited r \<Longrightarrow> length (json_print enc sp v) < n \<Longrightarrow>
      read_val n (json_print enc sp v @ r) = Some (v, r)"
    and "vs \<noteq> []" and "length (elems_text sp vs) + 1 < n"
  shows "read_elems n (elems_text sp vs @ CHR '']'' # r) = Some (vs, r)"
  using assms(2-4)
proof (induction vs arbitrary: n)
  case Nil
  then show ?case by simp
next
  case (Cons v vs)
  then obtain m where n: "n = Suc m" by (cases n) auto
  have len: "length (json_print enc sp v) < m" using Cons.prems(3) by (simp add: n joinc_Cons)
  have val: "read_val m (json_print enc sp v @ q) = Some (v, q)" if "delimited q" for q
    using Cons.prems(1) [of v q m] that len by simp
  show ?case
  proof (cases "vs = []")
    case True
    then show ?thesis by (simp add: n val)
  next
    case False
    with Cons.prems(3) have "length (elems_text sp vs) + 1 < m" by (simp add: n joinc_Cons)
    then have "read_elems m (elems_text sp vs @ CHR '']'' # r) = Some (vs, r)"
      using Cons.IH [of m] Cons.prems(1) False by simp
    with False show ?thesis by (simp add: n val joinc_Cons read_elems_skip assms(1))
  qed
qed

lemma read_members_joinc:
  assumes "list_all is_ws sp"
    and "\<And>k v n r. (k, v) \<in> set kvs \<Longrightarrow> delimited r \<Longrightarrow> length (json_print enc sp v) < n \<Longrightarrow>
      read_val n (json_print enc sp v @ r) = Some (v, r)"
    and "kvs \<noteq> []" and "length (members_text sp kvs) + 1 < n"
  shows "read_members n (members_text sp kvs @ CHR ''}'' # r) = Some (kvs, r)"
  using assms(2-4)
proof (induction kvs arbitrary: n)
  case Nil
  then show ?case by simp
next
  case (Cons kv kvs)
  obtain k v where kv: "kv = (k, v)" by force
  obtain m where n: "n = Suc m" using Cons.prems(3) by (cases n) auto
  have len: "length (json_print enc sp v) < m" using Cons.prems(3) by (simp add: n kv joinc_Cons)
  have val: "read_val m (sp @ json_print enc sp v @ q) = Some (v, q)" if "delimited q" for q
    using Cons.prems(1) [of k v q m] that len by (simp add: kv read_val_skip assms(1))
  show ?case
  proof (cases "kvs = []")
    case True
    then show ?thesis by (simp add: n kv val quoted_def)
  next
    case False
    with Cons.prems(3) have "length (members_text sp kvs) + 1 < m" by (simp add: n kv joinc_Cons)
    moreover have "read_val q (json_print enc sp w @ r') = Some (w, r')"
      if "(j, w) \<in> set kvs" "delimited r'" "length (json_print enc sp w) < q" for j w q r'
      using Cons.prems(1) [of j w] that by simp
    ultimately have "read_members m (members_text sp kvs @ CHR ''}'' # r) = Some (kvs, r)"
      using Cons.IH [of m] False by blast
    with False show ?thesis by (simp add: n kv val joinc_Cons quoted_def read_members_skip assms(1))
  qed
qed

lemma read_val_bool:
  "delimited r \<Longrightarrow> length (json_print enc sp (PBool b)) < n \<Longrightarrow>
    read_val n (json_print enc sp (PBool b) @ r) = Some (PBool b, r)"
  using read_val_token [OF plain_token_words(2), of r "PBool True"]
    read_val_token [OF plain_token_words(3), of r "PBool False"]
  by (cases n; cases b) (simp_all add: read_token_words del: read_val.simps)

lemma read_val_int:
  "delimited r \<Longrightarrow> length (json_print enc sp (PInt i)) < n \<Longrightarrow>
    read_val n (json_print enc sp (PInt i) @ r) = Some (PInt i, r)"
  using read_val_token [OF plain_token_int [OF int_token_show_int], of r i "PInt i"]
  by (cases n) (simp_all add: read_token_int int_token_show_int read_int_show_int del: read_val.simps)

lemma skip_ws_text: "wf_pyval v \<Longrightarrow> skip_ws (json_print enc sp v @ r) = json_print enc sp v @ r"
  by (rule text_hd [of v sp]) simp_all

text \<open>An object is read whatever follows it.\<close>

lemma read_val_dict:
  assumes "list_all is_ws sp" "distinct (map fst kvs)" "length (json_print enc sp (PDict kvs)) < n"
    and "\<And>k v n r. (k, v) \<in> set kvs \<Longrightarrow> delimited r \<Longrightarrow> length (json_print enc sp v) < n \<Longrightarrow>
      read_val n (json_print enc sp v @ r) = Some (v, r)"
  shows "read_val n (json_print enc sp (PDict kvs) @ r) = Some (PDict kvs, r)"
proof -
  obtain m where n: "n = Suc m" using assms(3) by (cases n) auto
  show ?thesis
  proof (cases "kvs = []")
    case True
    then show ?thesis by (simp add: n quote_c_def)
  next
    case False
    have hd: "\<exists>q. members_text sp kvs @ CHR ''}'' # r = quote_c # q"
      using False by (cases kvs) (simp_all add: joinc_Cons quoted_def)
    have len: "length (members_text sp kvs) + 1 < m" using assms(3) by (simp add: n)
    have "read_members m (members_text sp kvs @ CHR ''}'' # r) = Some (kvs, r)"
      by (rule read_members_joinc [OF assms(1,4) False len])
    then show ?thesis using hd assms(2) by (auto simp: n)
  qed
qed

lemma read_val_text:
  assumes "list_all is_ws sp"
  shows "wf_pyval v \<Longrightarrow> delimited r \<Longrightarrow> length (json_print enc sp v) < n \<Longrightarrow>
    read_val n (json_print enc sp v @ r) = Some (v, r)"
proof (induction v arbitrary: n r rule: wf_pyval.induct)
  case (1 t)
  then show ?case using read_val_token [OF plain_token_float, of t r "PFloat t"]
    by (cases n) (simp_all add: read_token_float del: read_val.simps)
next
  case (2 vs)
  obtain m where n: "n = Suc m" using 2(4) by (cases n) auto
  show ?case
  proof (cases "vs = []")
    case True
    then show ?thesis by (simp add: n quote_c_def)
  next
    case False
    from False obtain w ws where vs: "vs = w # ws" by (cases vs) auto
    then have "wf_pyval w" using 2(2) by simp
    then obtain c q where hd: "json_print enc sp w = c # q" "\<not> is_ws c" "c \<noteq> CHR '']''" by (rule text_hd)
    have len: "length (elems_text sp vs) + 1 < m" using 2(4) by (simp add: n)
    have elem: "read_val q (json_print enc sp v @ r') = Some (v, r')"
      if "v \<in> set vs" "delimited r'" "length (json_print enc sp v) < q" for v q r'
      using 2(1) [OF that(1) _ that(2,3)] 2(2) that(1) by (simp add: list_all_iff)
    have "read_elems m (elems_text sp vs @ CHR '']'' # r) = Some (vs, r)"
      by (rule read_elems_joinc [OF assms elem False len])
    moreover have "\<exists>q. elems_text sp vs @ CHR '']'' # r = c # q" using hd by (simp add: vs joinc_Cons)
    ultimately show ?thesis using hd by (auto simp: n quote_c_def)
  qed
next
  case (3 kvs)
  have elem: "read_val q (json_print enc sp v @ r') = Some (v, r')"
    if "(k, v) \<in> set kvs" "delimited r'" "length (json_print enc sp v) < q" for k v q r'
    using 3(1) [OF that(1) _ that(2)] 3(2) that(1,3) by (force simp: list_all_iff)
  show ?case by (rule read_val_dict [OF assms _ 3(4) elem]) (use 3(2) in simp)
next
  case "4_4"
  then show ?case by (cases n) (simp_all add: quoted_def)
next
  case "4_1"
  then show ?case using read_val_token [OF plain_token_words(1), of r PNone]
    by (cases n) (simp_all add: read_token_words del: read_val.simps)
next
  case "4_2"
  then show ?case by (intro read_val_bool) simp_all
next
  case "4_3"
  then show ?case by (intro read_val_int) simp_all
qed

lemma loads_print: "wf_pyval v \<Longrightarrow> list_all is_ws sp \<Longrightarrow> json_loads (json_print enc sp v) = Some v"
  using read_val_text [of sp v "[]" "Suc (length (json_print enc sp v))"] by (simp add: json_loads_def del: read_val.simps)

end

interpretation ascii: json_encoder esc_char
  by unfold_locales simp

lemma json_loads_write: "wf_pyval v \<Longrightarrow> list_all is_ws sp \<Longrightarrow> json_loads (json_write sp v) = Some v"
  by (rule ascii.loads_print)

lemma json_loads_text: "wf_pyval v \<Longrightarrow> json_loads (json_text v) = Some v"
  by (simp add: json_loads_write)

section \<open>The canonical form\<close>

lemma sort_key_map_fst:
  assumes "\<And>x. fst (g x) = fst x"
  shows "sort_key fst (map g xs) = map g (sort_key fst xs)"
proof -
  have "insort_key fst (g x) (map g ys) = map g (insort_key fst x ys)" for x ys
    by (induction ys) (simp_all add: assms)
  then show ?thesis by (induction xs) (simp_all add: sort_key_def)
qed

lemma sort_key_idem: "sort_key fst (sort_key fst xs) = sort_key fst xs"
  by (rule sort_key_id_if_sorted) simp

lemma wf_pyval_norm: "wf_pyval v \<Longrightarrow> wf_pyval (json_norm v)"
  by (induction v rule: json_norm.induct)
    (auto simp: list_all_iff comp_def distinct_map sort_key_map_fst inj_on_def)

lemma json_norm_idem [simp]: "json_norm (json_norm v) = json_norm v"
proof (induction v rule: json_norm.induct)
  case (2 kvs)
  let ?g = "\<lambda>kv. (fst kv, json_norm (snd kv))"
  have fst_g: "fst (?g x) = fst x" for x :: "string \<times> pyval" by simp
  have "map ?g (map ?g kvs) = map ?g kvs" using 2 by (auto simp: comp_def)
  then show ?case
    by (simp add: sort_key_map_fst [OF fst_g, symmetric] del: map_map)
      (simp add: sort_key_map_fst comp_def sort_key_idem)
qed (simp_all add: comp_def)

lemma canonical_loads: "wf_pyval v \<Longrightarrow> json_loads (canonical_bytes v) = Some (json_norm v)"
  by (simp add: canonical_bytes_def json_loads_text wf_pyval_norm)

lemma canonical_bytes_norm [simp]: "canonical_bytes (json_norm v) = canonical_bytes v"
  by (simp add: canonical_bytes_def)

lemma canonical_bytes_eq_iff:
  assumes "wf_pyval v" "wf_pyval w"
  shows "canonical_bytes v = canonical_bytes w \<longleftrightarrow> json_norm v = json_norm w"
proof
  assume "canonical_bytes v = canonical_bytes w"
  then have "json_loads (canonical_bytes v) = json_loads (canonical_bytes w)" by simp
  then show "json_norm v = json_norm w" using assms by (simp add: canonical_loads)
next
  assume "json_norm v = json_norm w"
  then show "canonical_bytes v = canonical_bytes w" by (simp add: canonical_bytes_def)
qed

lemma canonical_bytes_perm:
  assumes "distinct (map fst kvs)" "distinct (map fst kws)" "set kvs = set kws"
  shows "canonical_bytes (PDict kvs) = canonical_bytes (PDict kws)"
proof -
  have "sort_key fst kvs = sort_key fst kws"
    using assms by (intro sort_key_unique) simp_all
  then show ?thesis by (simp add: canonical_bytes_def sort_key_map_fst)
qed

section \<open>The default separators\<close>

text \<open>\<open>json.dumps(v)\<close> and \<open>json.dumps(v, sort_keys=True)\<close>.\<close>

definition json_dumps :: "pyval \<Rightarrow> string" where
  "json_dumps v = json_write '' '' v"

definition canonic :: "pyval \<Rightarrow> string" where
  "canonic v = json_write '' '' (json_norm v)"

lemma blank_ws: "list_all is_ws '' ''"
  by (simp add: is_ws_def)

lemma json_dumps_loads: "wf_pyval v \<Longrightarrow> json_loads (json_dumps v) = Some v"
  unfolding json_dumps_def by (rule json_loads_write [OF _ blank_ws])

lemma canonic_loads: "wf_pyval v \<Longrightarrow> json_loads (canonic v) = Some (json_norm v)"
  unfolding canonic_def by (rule json_loads_write [OF wf_pyval_norm blank_ws])

lemma canonic_eq_iff: "wf_pyval v \<Longrightarrow> wf_pyval w \<Longrightarrow> canonic v = canonic w \<longleftrightarrow> json_norm v = json_norm w"
  by (metis canonic_def canonic_loads option.inject)

section \<open>Texts are printable ASCII\<close>

definition printable :: "string \<Rightarrow> bool" where
  "printable s \<longleftrightarrow> list_all (\<lambda>c. 32 \<le> code c \<and> code c \<le> 126) s"

lemma printable_simps [simp]:
  "printable []" "printable (c # s) \<longleftrightarrow> (32 \<le> code c \<and> code c \<le> 126) \<and> printable s"
  "printable (s @ t) \<longleftrightarrow> printable s \<and> printable t"
  by (simp_all add: printable_def)

lemma printable_concat: "printable (concat ss) \<longleftrightarrow> (\<forall>s \<in> set ss. printable s)"
  by (induction ss) simp_all

lemma printable_joinc: "32 \<le> code c \<Longrightarrow> code c \<le> 126 \<Longrightarrow> printable sp \<Longrightarrow> (\<And>s. s \<in> set ss \<Longrightarrow> printable s) \<Longrightarrow> printable (joinc c sp ss)"
  by (induction ss) (auto simp: joinc_Cons)

lemma hexl_printable: "\<forall>k \<in> set [0..<16]. 32 \<le> code (digit_char k) \<and> code (digit_char k) \<le> 126"
  by code_simp

lemma ascii_codes [simp]:
  "code quote_c = 34" "code bslash_c = 92" "code CHR '','' = 44" "code CHR '':'' = 58"
  "code CHR ''['' = 91" "code CHR '']'' = 93" "code CHR ''{'' = 123" "code CHR ''}'' = 125"
  "code CHR ''u'' = 117" "code CHR ''0'' = 48" "code CHR ''n'' = 110" "code CHR ''r'' = 114"
  "code CHR ''t'' = 116" "code CHR ''f'' = 102" "code CHR ''b'' = 98" "code CHR ''-'' = 45"
  by (code_simp)+

lemma printable_esc: "printable (esc_char c)"
proof -
  have "code c div 16 < 16" using code_less [of c] by linarith
  then have "printable (esc_u c)" using hexl_printable by (simp add: esc_u_def)
  then show ?thesis by (auto simp: esc_char_def)
qed

lemma printable_json_str: "printable (json_str s)"
  by (simp add: quoted_def printable_concat printable_esc)

definition ascii_char :: "char \<Rightarrow> bool" where
  "ascii_char c \<longleftrightarrow> 32 \<le> code c \<and> code c \<le> 126"

lemma printable_iff: "printable s \<longleftrightarrow> (\<forall>c \<in> set s. ascii_char c)"
  by (simp add: printable_def list_all_iff ascii_char_def)

lemma ascii_digit: "is_digit c \<Longrightarrow> ascii_char c"
proof -
  have "\<forall>c \<in> set ''0123456789''. ascii_char c" by code_simp
  then show "is_digit c \<Longrightarrow> ascii_char c" unfolding is_digit_def by blast
qed

lemma printable_words: "printable ''null''" "printable ''true''" "printable ''false''" "printable ''+-.e''"
  "printable ''NaN''" "printable ''Infinity''" "printable ''-Infinity''"
  by (code_simp)+

lemma ascii_minus: "ascii_char CHR ''-''"
  by code_simp

lemma printable_int: "printable (show_int i)"
  using int_token_chars [OF int_token_show_int, of _ i] ascii_digit ascii_minus
  unfolding printable_iff by metis

lemma printable_float: "float_token t \<Longrightarrow> printable t"
  unfolding float_token_def
proof (elim disjE conjE)
  assume "list_all (\<lambda>c. is_digit c \<or> c \<in> set ''+-.e'') t"
  then show "printable t"
    using ascii_digit printable_words(4) unfolding printable_iff list_all_iff by blast
qed (use printable_words in blast)

lemma printable_json_write: "printable sp \<Longrightarrow> wf_pyval v \<Longrightarrow> printable (json_write sp v)"
proof (induction v rule: wf_pyval.induct)
  case (2 vs)
  then show ?case by (auto simp: list_all_iff intro!: printable_joinc)
next
  case (3 kvs)
  have "printable (json_str (fst kv) @ CHR '':'' # sp @ json_write sp (snd kv))" if "kv \<in> set kvs" for kv
    using 3 that by (cases kv) (auto simp: list_all_iff printable_json_str)
  then show ?case using 3(2) by (auto intro!: printable_joinc)
next
  case "4_2"
  then show ?case using printable_words by (simp del: printable_simps split: if_split)
next
  case "4_1"
  then show ?case using printable_words by simp
qed (simp_all add: printable_json_str printable_int printable_float del: printable_simps)

lemma printable_json_text: "wf_pyval v \<Longrightarrow> printable (json_text v)"
  by (simp add: printable_json_write)

lemma printable_canonical: "wf_pyval v \<Longrightarrow> printable (canonical_bytes v)"
  by (simp add: canonical_bytes_def printable_json_text wf_pyval_norm)

end
