(* ===== verification/Handoff.thy ===== *)
theory Handoff
  imports Canonical_Json
begin

text \<open>
  \<open>contracts/handoff.py\<close>: the value types of a stage hand-off, the compatibility of an
  out-port type with an in-port type, and the validation of a payload against a scalar or
  an object schema.
\<close>

section \<open>The value types\<close>

definition type_names :: "string list" where
  "type_names = [''str'', ''int'', ''float'', ''bool'', ''dict'', ''list'', ''null'', ''any'']"

text \<open>\<open>_TYPE_CHECKERS\<close>: \<open>isinstance(v, int)\<close> excludes the subclass \<open>bool\<close> explicitly.\<close>

definition type_checker :: "string \<Rightarrow> (pyval \<Rightarrow> bool) option" where
  "type_checker t =
     (if t = ''str'' then Some (\<lambda>v. case v of PStr _ \<Rightarrow> True | _ \<Rightarrow> False)
      else if t = ''int'' then Some (\<lambda>v. case v of PInt _ \<Rightarrow> True | _ \<Rightarrow> False)
      else if t = ''float'' then Some (\<lambda>v. case v of PFloat _ \<Rightarrow> True | _ \<Rightarrow> False)
      else if t = ''bool'' then Some (\<lambda>v. case v of PBool _ \<Rightarrow> True | _ \<Rightarrow> False)
      else if t = ''dict'' then Some (\<lambda>v. case v of PDict _ \<Rightarrow> True | _ \<Rightarrow> False)
      else if t = ''list'' then Some (\<lambda>v. case v of PList _ \<Rightarrow> True | _ \<Rightarrow> False)
      else if t = ''null'' then Some (\<lambda>v. case v of PNone \<Rightarrow> True | _ \<Rightarrow> False)
      else if t = ''any'' then Some (\<lambda>v. True)
      else None)"

definition is_known_type :: "string \<Rightarrow> bool" where
  "is_known_type t \<longleftrightarrow> type_checker t \<noteq> None"

definition types_compatible :: "string \<Rightarrow> string \<Rightarrow> bool" where
  "types_compatible source target \<longleftrightarrow>
     (if type_checker source = None \<or> type_checker target = None then False
      else source = target \<or> source = ''any'' \<or> target = ''any'')"

definition value_matches_type :: "pyval \<Rightarrow> string \<Rightarrow> bool" where
  "value_matches_type v t = (case type_checker t of None \<Rightarrow> False | Some chk \<Rightarrow> chk v)"

section \<open>Schemas\<close>

definition is_valid_schema :: "pyval \<Rightarrow> bool" where
  "is_valid_schema schema =
     (case schema of
        PStr t \<Rightarrow> type_checker t \<noteq> None
      | PDict kvs \<Rightarrow> list_all (\<lambda>kv. case snd kv of PStr t \<Rightarrow> type_checker t \<noteq> None | _ \<Rightarrow> False) kvs
      | _ \<Rightarrow> False)"

datatype handoff_schema = Scalar string | Object "string dict"

datatype handoff_error =
    Unknown_Schema_Type string
  | Not_Of_Type string
  | Not_A_Mapping
  | Missing_Field string
  | Unknown_Field_Type string string
  | Field_Not_Of_Type string string

definition validate_field :: "pyval dict \<Rightarrow> string \<times> string \<Rightarrow> handoff_error + unit" where
  "validate_field payload ft =
     (case ft of (field, typ) \<Rightarrow>
       (case dget payload field of
          None \<Rightarrow> Inl (Missing_Field field)
        | Some v \<Rightarrow>
            (case type_checker typ of
               None \<Rightarrow> Inl (Unknown_Field_Type typ field)
             | Some chk \<Rightarrow> rejectR (\<not> chk v) (Field_Not_Of_Type field typ))))"

definition validate_handoff :: "pyval \<Rightarrow> handoff_schema \<Rightarrow> handoff_error + unit" where
  "validate_handoff payload schema =
     (case schema of
        Scalar t \<Rightarrow>
          (case type_checker t of
             None \<Rightarrow> Inl (Unknown_Schema_Type t)
           | Some chk \<Rightarrow> rejectR (\<not> chk payload) (Not_Of_Type t))
      | Object fields \<Rightarrow>
          (case payload of
             PDict kvs \<Rightarrow> iterR (validate_field kvs) fields
           | _ \<Rightarrow> Inl Not_A_Mapping))"

section \<open>Properties of the types\<close>

named_theorems handoff_simps

lemma is_known_type_iff [handoff_simps]: "is_known_type t \<longleftrightarrow> t \<in> set type_names"
  by (simp add: is_known_type_def type_checker_def type_names_def)

lemma value_matches_any [simp]: "value_matches_type v ''any''"
  by (simp add: value_matches_type_def type_checker_def)

lemma value_matches_known: "value_matches_type v t \<Longrightarrow> is_known_type t"
  by (auto simp: value_matches_type_def is_known_type_def split: option.splits)

lemma types_compatible_iff [handoff_simps]:
  "types_compatible s t \<longleftrightarrow>
     is_known_type s \<and> is_known_type t \<and> (s = t \<or> s = ''any'' \<or> t = ''any'')"
  by (auto simp: types_compatible_def is_known_type_def)

definition value_type :: "pyval \<Rightarrow> string" where
  "value_type v = (case v of PNone \<Rightarrow> ''null'' | PBool _ \<Rightarrow> ''bool'' | PInt _ \<Rightarrow> ''int''
     | PFloat _ \<Rightarrow> ''float'' | PStr _ \<Rightarrow> ''str'' | PList _ \<Rightarrow> ''list'' | PDict _ \<Rightarrow> ''dict'')"

lemma value_matches_iff [handoff_simps]:
  "value_matches_type v t \<longleftrightarrow> t = ''any'' \<or> t = value_type v"
  by (cases v) (simp_all add: value_matches_type_def type_checker_def value_type_def)

lemma value_type_unique:
  "value_matches_type v s \<Longrightarrow> value_matches_type v t \<Longrightarrow> s \<noteq> ''any'' \<Longrightarrow> t \<noteq> ''any'' \<Longrightarrow> s = t"
  by (simp add: value_matches_iff)

lemma value_type_known [simp]: "is_known_type (value_type v)" "value_type v \<noteq> ''any''"
  by (cases v; simp add: value_type_def is_known_type_iff type_names_def)+

lemma validate_field_ok_iff:
  "validate_field kvs (f, t) = Inr u \<longleftrightarrow> (\<exists>v. dget kvs f = Some v \<and> value_matches_type v t)"
  by (auto simp: validate_field_def value_matches_type_def rejectR_Inr_iff split: option.splits)

lemma validate_handoff_ok_iff:
  "validate_handoff payload schema = Inr u \<longleftrightarrow>
     (case schema of
        Scalar t \<Rightarrow> value_matches_type payload t
      | Object fields \<Rightarrow> \<exists>kvs. payload = PDict kvs \<and>
          (\<forall>(f, t) \<in> set fields. \<exists>v. dget kvs f = Some v \<and> value_matches_type v t))"
proof (cases schema)
  case (Scalar t)
  then show ?thesis
    by (auto simp: validate_handoff_def value_matches_type_def result_simps split: option.splits)
next
  case (Object fields)
  have "iterR (validate_field kvs) fields = Inr u \<longleftrightarrow>
      (\<forall>(f, t) \<in> set fields. \<exists>v. dget kvs f = Some v \<and> value_matches_type v t)" for kvs
    by (simp add: iterR_Inr_iff validate_field_ok_iff split_beta'
        validate_field_ok_iff [of kvs "fst x" "snd x" for x, simplified])
  then show ?thesis using Object by (cases payload) (simp_all add: validate_handoff_def)
qed

end
