(* ===== verification/Kahn.thy ===== *)
theory Kahn
  imports Prelude
begin

text \<open>
  Kahn's algorithm as the program writes it three times (\<open>ComponentNetwork._check_acyclic\<close>,
  \<open>ComponentNetwork._topological_order\<close>, \<open>critical_path._topo_sort\<close>): the in-degrees and
  the adjacency are filled edge by edge, then a loop takes a ready node, appends it to the
  order and relaxes its successors. The three sites differ in the container of ready nodes
  only, so the loop takes its operations as arguments. The locale \<open>ready_container\<close> states
  what the loop relies on, and the correctness of the loop is proved once from it.
\<close>

section \<open>In-degrees, adjacency and the loop\<close>

definition indegrees :: "('a \<times> 'a) list \<Rightarrow> 'a \<Rightarrow> int" where
  "indegrees es = foldl (\<lambda>d e. d(snd e := d (snd e) + 1)) (\<lambda>_. 0) es"

definition adjacency :: "('a \<times> 'a) list \<Rightarrow> 'a \<Rightarrow> 'a list" where
  "adjacency es = foldl (\<lambda>a e. a(fst e := a (fst e) @ [snd e])) (\<lambda>_. []) es"

fun relax :: "('a \<Rightarrow> 'q \<Rightarrow> 'q) \<Rightarrow> 'a list \<Rightarrow> ('a \<Rightarrow> int) \<Rightarrow> 'q \<Rightarrow> ('a \<Rightarrow> int) \<times> 'q" where
  "relax push [] d q = (d, q)"
| "relax push (x # xs) d q =
     (let d' = d(x := d x - 1) in relax push xs d' (if d' x = 0 then push x q else q))"

type_synonym ('a, 'q) kahn_state = "('a \<Rightarrow> int) \<times> 'q \<times> 'a list"

definition kahn_step ::
  "('q \<Rightarrow> 'a \<times> 'q) \<Rightarrow> ('a \<Rightarrow> 'q \<Rightarrow> 'q) \<Rightarrow> ('a \<Rightarrow> 'a list) \<Rightarrow> ('a, 'q) kahn_state \<Rightarrow> ('a, 'q) kahn_state"
where
  "kahn_step pop push succ s =
     (case s of (d, q, os) \<Rightarrow>
        (case pop q of (x, q') \<Rightarrow>
           (case relax push (succ x) d q' of (d', q'') \<Rightarrow> (d', q'', os @ [x]))))"

definition kahn_run ::
  "('q \<Rightarrow> bool) \<Rightarrow> ('q \<Rightarrow> 'a \<times> 'q) \<Rightarrow> ('a \<Rightarrow> 'q \<Rightarrow> 'q) \<Rightarrow> ('a \<Rightarrow> 'a list) \<Rightarrow> ('a, 'q) kahn_state
    \<Rightarrow> ('a, 'q) kahn_state option"
where
  "kahn_run isempty pop push succ s =
     while_option (\<lambda>(d, q, os). \<not> isempty q) (kahn_step pop push succ) s"

section \<open>Topological orders\<close>

definition topo_before :: "('a \<times> 'a) set \<Rightarrow> 'a list \<Rightarrow> bool" where
  "topo_before E os \<longleftrightarrow> (\<forall>(u, v) \<in> E. \<forall>xs ys. os = xs @ v # ys \<longrightarrow> u \<in> set xs)"

lemma topo_before_Nil [simp]: "topo_before E []"
  by (simp add: topo_before_def)

lemma topo_before_snoc:
  assumes "topo_before E os" "\<And>u. (u, x) \<in> E \<Longrightarrow> u \<in> set os" "x \<notin> set os"
  shows "topo_before E (os @ [x])"
  unfolding topo_before_def
proof (intro ballI, clarify)
  fix u v xs ys
  assume e: "(u, v) \<in> E" and eq: "os @ [x] = xs @ v # ys"
  show "u \<in> set xs"
  proof (cases ys rule: rev_cases)
    case Nil
    then show ?thesis using eq e assms(2) by auto
  next
    case (snoc zs z)
    then have "os = xs @ v # zs" using eq by simp
    then show ?thesis using e assms(1) by (auto simp: topo_before_def)
  qed
qed

lemma topo_before_trancl:
  assumes "(u, v) \<in> E\<^sup>+" "topo_before E os" "os = xs @ v # ys"
  shows "u \<in> set xs"
  using assms(1,3)
proof (induction arbitrary: xs ys rule: trancl_induct)
  case (base y)
  then show ?case using assms(2) by (auto simp: topo_before_def)
next
  case (step y z)
  then have "y \<in> set xs" using assms(2) by (auto simp: topo_before_def)
  then obtain as bs where xs: "xs = as @ y # bs" by (auto dest: split_list)
  then have "u \<in> set as" using step.IH [of as "bs @ z # ys"] step.prems by simp
  then show ?case by (simp add: xs)
qed

lemma topo_before_acyclic:
  assumes "topo_before E os" "distinct os" "\<And>u v. (u, v) \<in> E \<Longrightarrow> v \<in> set os"
  shows "acyclic E"
  unfolding acyclic_def
proof (intro allI notI)
  fix x
  assume cyc: "(x, x) \<in> E\<^sup>+"
  then obtain y where "(y, x) \<in> E" by (auto elim: tranclE)
  then obtain xs ys where "os = xs @ x # ys" using assms(3) by (meson split_list)
  moreover from this have "x \<in> set xs" by (rule topo_before_trancl [OF cyc assms(1)])
  ultimately show False using assms(2) by simp
qed

lemma acyclic_has_source:
  assumes "acyclic E" "finite E" "R \<noteq> {}"
  shows "\<exists>n \<in> R. \<forall>u. (u, n) \<in> E \<longrightarrow> u \<notin> R"
proof -
  have "wf E" using assms by (simp add: finite_acyclic_wf)
  then show ?thesis using assms(3) by (auto simp: wf_eq_minimal)
qed

section \<open>Closed forms\<close>

lemma foldl_indegree:
  "foldl (\<lambda>d e. d(snd e := d (snd e) + 1)) d es n =
     d n + int (length (filter (\<lambda>e. snd e = n) es))"
  by (induction es arbitrary: d) auto

lemma indegrees_eq: "indegrees es n = int (length (filter (\<lambda>e. snd e = n) es))"
  by (simp add: indegrees_def foldl_indegree)

lemma foldl_adjacency:
  "foldl (\<lambda>a e. a(fst e := a (fst e) @ [snd e])) a es n =
     a n @ map snd (filter (\<lambda>e. fst e = n) es)"
  by (induction es arbitrary: a) auto

lemma adjacency_eq: "adjacency es n = map snd (filter (\<lambda>e. fst e = n) es)"
  by (simp add: adjacency_def foldl_adjacency)

definition pending :: "('a \<times> 'a) list \<Rightarrow> 'a set \<Rightarrow> 'a \<Rightarrow> nat" where
  "pending es D n = length (filter (\<lambda>e. snd e = n \<and> fst e \<notin> D) es)"

lemma pending_empty: "int (pending es {} n) = indegrees es n"
  by (simp add: pending_def indegrees_eq)

lemma pending_0_iff: "pending es D n = 0 \<longleftrightarrow> (\<forall>u. (u, n) \<in> set es \<longrightarrow> u \<in> D)"
  by (auto simp: pending_def filter_empty_conv)

lemma pending_insert:
  assumes "x \<notin> D"
  shows "pending es D n = pending es (insert x D) n + count_list (adjacency es x) n"
  using assms by (induction es) (auto simp: pending_def adjacency_eq)

section \<open>The contract of the ready container\<close>

locale ready_container =
  fixes isempty :: "'q \<Rightarrow> bool"
    and pop :: "'q \<Rightarrow> 'a \<times> 'q"
    and push :: "'a \<Rightarrow> 'q \<Rightarrow> 'q"
    and items :: "'q \<Rightarrow> 'a multiset"
  assumes isempty_iff: "isempty q \<longleftrightarrow> items q = {#}"
    and pop_item: "\<not> isempty q \<Longrightarrow> pop q = (x, q') \<Longrightarrow> items q = add_mset x (items q')"
    and push_item: "items (push x q) = add_mset x (items q)"
begin

lemma relax_result:
  assumes "\<And>n. int (count_list xs n) \<le> d n"
  shows "\<exists>q'. relax push xs d q = (\<lambda>n. d n - int (count_list xs n), q') \<and>
     items q' = items q + mset_set {n \<in> set xs. d n = int (count_list xs n)}"
  using assms
proof (induction xs arbitrary: d q)
  case Nil
  then show ?case by simp
next
  case (Cons x xs)
  let ?d = "d(x := d x - 1)"
  let ?q = "if ?d x = 0 then push x q else q"
  have pre: "int (count_list xs n) \<le> ?d n" for n
    using Cons.prems [of n] by (auto split: if_splits)
  obtain q' where q': "relax push xs ?d ?q = (\<lambda>n. ?d n - int (count_list xs n), q')"
    "items q' = items ?q + mset_set {n \<in> set xs. ?d n = int (count_list xs n)}"
    using Cons.IH [OF pre] by blast
  have fn: "(\<lambda>n. ?d n - int (count_list xs n)) = (\<lambda>n. d n - int (count_list (x # xs) n))"
    by (auto simp: fun_eq_iff)
  have items_eq: "items q' = items q + mset_set {n \<in> set (x # xs). d n = int (count_list (x # xs) n)}"
  proof (cases "d x = 1")
    case True
    then have "count_list xs x = 0" using Cons.prems [of x] by simp
    then have "x \<notin> set xs" by (simp add: count_list_0_iff)
    then have "{n \<in> set (x # xs). d n = int (count_list (x # xs) n)} =
        insert x {n \<in> set xs. ?d n = int (count_list xs n)}"
      using True by auto
    then show ?thesis using q'(2) True \<open>x \<notin> set xs\<close> by (simp add: push_item)
  next
    case False
    have "{n \<in> set (x # xs). d n = int (count_list (x # xs) n)} =
        {n \<in> set xs. ?d n = int (count_list xs n)}"
      using False pre [of x] by (auto simp: count_list_0_iff)
    then show ?thesis using q'(2) False by simp
  qed
  show ?case using q'(1) fn items_eq by (simp add: Let_def)
qed

end

section \<open>Correctness of the loop\<close>

locale kahn_sort = ready_container isempty pop push items
  for isempty :: "'q \<Rightarrow> bool" and pop :: "'q \<Rightarrow> 'a \<times> 'q" and push :: "'a \<Rightarrow> 'q \<Rightarrow> 'q"
    and items :: "'q \<Rightarrow> 'a multiset" +
  fixes succ :: "('a \<times> 'a) list \<Rightarrow> 'a \<Rightarrow> 'a list"
  assumes succ_mset: "mset (succ es x) = mset (adjacency es x)"
begin

definition kahn_inv :: "('a \<times> 'a) list \<Rightarrow> 'a set \<Rightarrow> ('a, 'q) kahn_state \<Rightarrow> bool" where
  "kahn_inv es V s = (case s of (d, q, os) \<Rightarrow>
     distinct os \<and> set os \<subseteq> V \<and> topo_before (set es) os \<and>
     (\<forall>n. d n = int (pending es (set os) n)) \<and>
     items q = mset_set {n \<in> V - set os. d n = 0} \<and>
     (\<forall>n \<in> set os. d n = 0))"

lemma kahn_inv_step:
  assumes V: "finite V" "\<And>u v. (u, v) \<in> set es \<Longrightarrow> u \<in> V \<and> v \<in> V"
    and inv: "kahn_inv es V (d, q, os)" and ne: "\<not> isempty q"
  shows "kahn_inv es V (kahn_step pop push (succ es) (d, q, os)) \<and>
    length (snd (snd (kahn_step pop push (succ es) (d, q, os)))) = Suc (length os) \<and> length os < card V"
proof -
  obtain x q1 where px: "pop q = (x, q1)" by force
  from inv have os: "distinct os" "set os \<subseteq> V" "topo_before (set es) os"
    and d: "\<And>n. d n = int (pending es (set os) n)"
    and q: "items q = mset_set {n \<in> V - set os. d n = 0}"
    and os0: "\<forall>n \<in> set os. d n = 0"
    by (auto simp: kahn_inv_def)
  have items: "items q = add_mset x (items q1)" by (rule pop_item [OF ne px])
  have "x \<in># items q" by (simp add: items)
  then have x: "x \<in> V" "x \<notin> set os" "d x = 0" using q V(1) by auto
  have cnt: "count_list (succ es x) n = count_list (adjacency es x) n" for n
    using succ_mset [of es x] by (metis count_mset)
  have set_succ: "set (succ es x) = set (adjacency es x)"
    using succ_mset [of es x] by (metis set_mset_mset)
  have pend: "pending es (set os) n = pending es (set (os @ [x])) n + count_list (succ es x) n" for n
    using pending_insert [OF x(2), where es = es and n = n] by (simp add: cnt)
  have pre: "int (count_list (succ es x) n) \<le> d n" for n by (simp add: d pend)
  obtain q2 where rel: "relax push (succ es x) d q1 = (\<lambda>n. d n - int (count_list (succ es x) n), q2)"
    and q2: "items q2 = items q1 + mset_set {n \<in> set (succ es x). d n = int (count_list (succ es x) n)}"
    using relax_result [OF pre] by blast
  let ?d = "\<lambda>n. d n - int (count_list (succ es x) n)"
  have d': "?d n = int (pending es (set (os @ [x])) n)" for n by (simp add: d pend)
  have step: "kahn_step pop push (succ es) (d, q, os) = (?d, q2, os @ [x])"
    by (simp add: kahn_step_def px rel)
  let ?A = "{n \<in> V - set os. d n = 0}"
  let ?N = "{n \<in> set (succ es x). d n = int (count_list (succ es x) n)}"
  have q1: "items q1 = mset_set (?A - {x})"
  proof -
    have "mset_set ?A = add_mset x (mset_set (?A - {x}))"
      using V(1) x by (intro mset_set.remove) auto
    then show ?thesis using q items by simp
  qed
  have succ_V: "set (succ es x) \<subseteq> V" using V(2) by (auto simp: set_succ adjacency_eq)
  have N_pos: "d n > 0" if "n \<in> ?N" for n
    using that by (auto simp: count_list_0_iff intro: gr0I)
  have "items q2 = mset_set ((?A - {x}) \<union> ?N)"
  proof -
    have "(?A - {x}) \<inter> ?N = {}" using N_pos by force
    then show ?thesis using V(1) by (subst mset_set_Union) (simp_all add: q2 q1)
  qed
  also have "(?A - {x}) \<union> ?N = {n \<in> V - set (os @ [x]). ?d n = 0}"
  proof (intro equalityI subsetI)
    fix n assume n: "n \<in> (?A - {x}) \<union> ?N"
    show "n \<in> {n \<in> V - set (os @ [x]). ?d n = 0}"
    proof (cases "n \<in> ?N")
      case True
      then have "n \<noteq> x" "n \<notin> set os" using N_pos [OF True] x(3) os0 by auto
      then show ?thesis using True succ_V by auto
    next
      case False
      then show ?thesis using n pre [of n] by auto
    qed
  next
    fix n assume n: "n \<in> {n \<in> V - set (os @ [x]). ?d n = 0}"
    then show "n \<in> (?A - {x}) \<union> ?N" by (cases "d n = 0") (auto simp: count_list_0_iff intro: ccontr)
  qed
  finally have items2: "items q2 = mset_set {n \<in> V - set (os @ [x]). ?d n = 0}" .
  have "u \<in> set os" if "(u, x) \<in> set es" for u
    using x(3) that by (simp add: d pending_0_iff)
  then have topo: "topo_before (set es) (os @ [x])"
    using os(3) x(2) by (auto intro: topo_before_snoc)
  have zero: "?d n = 0" if "n \<in> set (os @ [x])" for n
    using that pre [of n] os0 x(3) by auto
  have "card (set os) < card V"
    using x os(2) V(1) by (intro psubset_card_mono) auto
  then have "length os < card V" using os(1) by (simp add: distinct_card)
  with topo zero items2 d' os x show ?thesis by (simp add: step kahn_inv_def)
qed

lemma kahn_run_result:
  assumes V: "finite V" "\<And>u v. (u, v) \<in> set es \<Longrightarrow> u \<in> V \<and> v \<in> V"
    and start: "items q0 = mset_set {n \<in> V. indegrees es n = 0}"
  shows "\<exists>d q os. kahn_run isempty pop push (succ es) (indegrees es, q0, []) = Some (d, q, os) \<and>
     distinct os \<and> set os \<subseteq> V \<and> topo_before (set es) os \<and> (set os = V \<longleftrightarrow> acyclic (set es))"
proof -
  let ?b = "\<lambda>(d, q, os). \<not> isempty q" and ?c = "kahn_step pop push (succ es)"
  let ?s0 = "(indegrees es, q0, [])"
  have inv0: "kahn_inv es V ?s0" using start by (simp add: kahn_inv_def pending_empty)
  have dec: "kahn_inv es V s \<Longrightarrow> ?b s \<Longrightarrow> kahn_inv es V (?c s) \<and>
      card V - length (snd (snd (?c s))) < card V - length (snd (snd s))" for s
    using kahn_inv_step [OF V] by (cases s) fastforce
  obtain t where t: "while_option ?b ?c ?s0 = Some t"
    using measure_while_option_Some [of "kahn_inv es V" ?b ?c "\<lambda>s. card V - length (snd (snd s))"]
      dec inv0 by blast
  have inv: "kahn_inv es V t"
    by (rule while_option_rule [OF _ t, of "kahn_inv es V"]) (use dec inv0 in blast)+
  obtain d q os where tt: "t = (d, q, os)" by (cases t) auto
  have empty: "items q = {#}" using while_option_stop [OF t] by (simp add: tt isempty_iff)
  from inv tt have os: "distinct os" "set os \<subseteq> V" "topo_before (set es) os"
    and d: "\<And>n. d n = int (pending es (set os) n)"
    and q: "items q = mset_set {n \<in> V - set os. d n = 0}"
    by (auto simp: kahn_inv_def)
  have none: "{n \<in> V - set os. d n = 0} = {}"
  proof -
    have "finite {n \<in> V - set os. d n = 0}" using V(1) by simp
    then show ?thesis using q empty by (simp add: mset_set_empty_iff)
  qed
  have "set os = V \<longleftrightarrow> acyclic (set es)"
  proof
    assume "set os = V"
    then show "acyclic (set es)" using V(2) by (intro topo_before_acyclic [OF os(3,1)]) blast
  next
    assume ac: "acyclic (set es)"
    show "set os = V"
    proof (rule ccontr)
      assume "set os \<noteq> V"
      then have "V - set os \<noteq> {}" using os(2) by blast
      then obtain n where n: "n \<in> V - set os" "\<forall>u. (u, n) \<in> set es \<longrightarrow> u \<notin> V - set os"
        using acyclic_has_source [OF ac finite_set \<open>V - set os \<noteq> {}\<close>] by blast
      then have "pending es (set os) n = 0" using V(2) by (auto simp: pending_0_iff)
      then show False using n(1) none d [of n] by auto
    qed
  qed
  then show ?thesis using os t by (auto simp: kahn_run_def tt)
qed

end

end
