(* ===== verification/Network.thy ===== *)
theory Network
  imports Handoff Kahn
begin

text \<open>
  \<open>cbp/network.py\<close>: component networks, their construction and fail-closed validation,
  the two topological sorts and the compiler to an ordered plan. A \<open>ComponentNetwork\<close> is
  the dictionary of its components (insertion order), its edges and its initial packets; a
  composite component carries the network of its body.
\<close>

section \<open>Data\<close>

definition DEFAULT_STEP_LIMIT :: int where "DEFAULT_STEP_LIMIT = 512"
definition DEFAULT_CONNECTION_CAPACITY :: int where "DEFAULT_CONNECTION_CAPACITY = 1"
definition MAX_CONNECTION_CAPACITY :: int where "MAX_CONNECTION_CAPACITY = 1024"
definition MAX_SUBNET_DEPTH :: nat where "MAX_SUBNET_DEPTH = 8"

definition port_directions :: "string list" where
  "port_directions = [''in'', ''out'']"

record edge =
  e_source :: string
  e_source_field :: string
  e_target :: string
  e_target_arg :: string
  e_capacity :: int

record iip =
  i_component :: string
  i_port :: string
  i_value :: pyval

datatype component = Component
    (c_id: string)
    (c_task: string)
    (c_args: "pyval dict")
    (c_verifier: "string option")
    (c_child: "string option")
    (c_ports: "string list dict")
    (c_port_types: "string dict dict")
    (c_stream: "string list")
    (c_external: "string dict")
    (c_subnet: "network option")
and network = Network
    (n_components: "(string \<times> component) list")
    (n_edges: "edge list")
    (n_iips: "iip list")

definition ports_of :: "component \<Rightarrow> string \<Rightarrow> string list" where
  "ports_of c direction = dget_or (c_ports c) direction []"

definition port_type :: "component \<Rightarrow> string \<Rightarrow> string \<Rightarrow> string" where
  "port_type c direction port = dget_or (dget_or (c_port_types c) direction []) port ''any''"

datatype net_error =
    Empty_Id
  | Dotted_Id string
  | Unknown_Direction string string
  | Bad_Port_Names string string
  | Unknown_Typed_Direction string string
  | Empty_Typed_Port string
  | Undeclared_Typed_Port string string
  | Unknown_Port_Type string string string
  | Depth_Exceeded
  | Dotted_Reference
  | Unknown_Source string
  | Unknown_Target string
  | Self_Loop
  | Bad_Capacity int
  | No_Out_Port string string
  | No_In_Port string string
  | Incompatible_Types string string
  | Unknown_Iip_Target string
  | Empty_Iip_Port
  | Duplicate_Iip string string
  | Iip_No_In_Port string string
  | Iip_Type string string
  | Iip_And_Edge string string
  | Stream_Port string string
  | External_Without_Subnet string
  | External_Mismatch string
  | Bad_External_Ref string string
  | Unknown_Interior string string
  | Interior_Port string string
  | Cycle
  | Unknown_Output_Field string string
  | Loop_Diverges
  | Key_Error string
  | Malformed string

section \<open>Construction\<close>

definition empty_network :: network where
  "empty_network = Network [] [] []"

definition check_ports :: "string \<Rightarrow> string \<times> string list \<Rightarrow> net_error + unit" where
  "check_ports cid dn =
     thenR (rejectR (fst dn \<notin> set port_directions) (Unknown_Direction cid (fst dn)))
       (rejectR ([] \<in> set (snd dn) \<or> \<not> distinct (snd dn)) (Bad_Port_Names cid (fst dn)))"

definition check_typed_port :: "component \<Rightarrow> string \<Rightarrow> string \<times> string \<Rightarrow> net_error + unit" where
  "check_typed_port c direction nt =
     thenR (rejectR (fst nt = []) (Empty_Typed_Port (c_id c)))
       (thenR (rejectR (fst nt \<notin> set (ports_of c direction)) (Undeclared_Typed_Port (c_id c) (fst nt)))
         (rejectR (\<not> is_known_type (snd nt)) (Unknown_Port_Type (c_id c) (fst nt) (snd nt))))"

definition check_port_types :: "component \<Rightarrow> string \<times> string dict \<Rightarrow> net_error + unit" where
  "check_port_types c dt =
     thenR (rejectR (fst dt \<notin> set port_directions) (Unknown_Typed_Direction (c_id c) (fst dt)))
       (iterR (check_typed_port c (fst dt)) (snd dt))"

definition check_component :: "component \<Rightarrow> net_error + unit" where
  "check_component c =
     thenR (rejectR (c_id c = []) Empty_Id)
       (thenR (rejectR (CHR ''.'' \<in> set (c_id c)) (Dotted_Id (c_id c)))
         (thenR (iterR (check_ports (c_id c)) (c_ports c))
           (iterR (check_port_types c) (c_port_types c))))"

definition add_component :: "component \<Rightarrow> network \<Rightarrow> net_error + network" where
  "add_component c net =
     thenR (check_component c)
       (Inr (Network (dput (c_id c) c (n_components net)) (n_edges net) (n_iips net)))"

definition add_edge :: "edge \<Rightarrow> network \<Rightarrow> network" where
  "add_edge e net = Network (n_components net) (n_edges net @ [e]) (n_iips net)"

definition add_iip :: "iip \<Rightarrow> network \<Rightarrow> network" where
  "add_iip i net = Network (n_components net) (n_edges net) (n_iips net @ [i])"

section \<open>Inspection\<close>

definition component_ids :: "network \<Rightarrow> string list" where
  "component_ids net = map fst (n_components net)"

definition lookup :: "network \<Rightarrow> string \<Rightarrow> component option" where
  "lookup net cid = dget (n_components net) cid"

definition components :: "network \<Rightarrow> component list" where
  "components net = sort_key c_id (map snd (n_components net))"

definition edge_pairs :: "network \<Rightarrow> (string \<times> string) list" where
  "edge_pairs net = map (\<lambda>e. (e_source e, e_target e)) (n_edges net)"

section \<open>The topological sorts\<close>

text \<open>
  \<open>_check_acyclic\<close>: the queue is a list popped and appended at its end; the component
  graph has a cycle when some component is never taken.
\<close>

definition stack_pop :: "string list \<Rightarrow> string \<times> string list" where
  "stack_pop q = (last q, butlast q)"

definition stack_push :: "string \<Rightarrow> string list \<Rightarrow> string list" where
  "stack_push x q = q @ [x]"

definition check_acyclic :: "network \<Rightarrow> net_error + unit" where
  "check_acyclic net =
     (let es = edge_pairs net; d = indegrees es;
          q = filter (\<lambda>cid. d cid = 0) (component_ids net)
      in (case kahn_run (\<lambda>q. q = []) stack_pop stack_push (adjacency es) (d, q, []) of
            None \<Rightarrow> Inl Loop_Diverges
          | Some (_, _, seen) \<Rightarrow> rejectR (length seen \<noteq> length (component_ids net)) Cycle))"

text \<open>
  \<open>_topological_order\<close>: the ready ids are kept sorted and the first is taken; the
  successors are relaxed in sorted order.
\<close>

definition ready_pop :: "string list \<Rightarrow> string \<times> string list" where
  "ready_pop q = (hd q, tl q)"

definition ready_push :: "string \<Rightarrow> string list \<Rightarrow> string list" where
  "ready_push x q = sort (q @ [x])"

definition sorted_adjacency :: "(string \<times> string) list \<Rightarrow> string \<Rightarrow> string list" where
  "sorted_adjacency es x = sort (adjacency es x)"

definition topological_order_raw :: "network \<Rightarrow> net_error + string list" where
  "topological_order_raw net =
     (let es = edge_pairs net; d = indegrees es;
          q = sort (filter (\<lambda>cid. d cid = 0) (component_ids net))
      in (case kahn_run (\<lambda>q. q = []) ready_pop ready_push (sorted_adjacency es) (d, q, []) of
            None \<Rightarrow> Inl Loop_Diverges
          | Some (_, _, order) \<Rightarrow> Inr order))"

section \<open>Validation\<close>

definition validate_edge :: "network \<Rightarrow> edge \<Rightarrow> net_error + unit" where
  "validate_edge net e =
     thenR (rejectR (CHR ''.'' \<in> set (e_source e) \<or> CHR ''.'' \<in> set (e_target e)) Dotted_Reference)
       (case lookup net (e_source e) of
          None \<Rightarrow> Inl (Unknown_Source (e_source e))
        | Some source \<Rightarrow>
            (case lookup net (e_target e) of
               None \<Rightarrow> Inl (Unknown_Target (e_target e))
             | Some target \<Rightarrow>
                 thenR (rejectR (e_source e = e_target e) Self_Loop)
                 (thenR (rejectR (\<not> (1 \<le> e_capacity e \<and> e_capacity e \<le> MAX_CONNECTION_CAPACITY))
                           (Bad_Capacity (e_capacity e)))
                 (thenR (rejectR (ports_of source ''out'' \<noteq> [] \<and>
                             e_source_field e \<notin> set (ports_of source ''out''))
                           (No_Out_Port (e_source e) (e_source_field e)))
                 (thenR (rejectR (ports_of target ''in'' \<noteq> [] \<and>
                             e_target_arg e \<notin> set (ports_of target ''in''))
                           (No_In_Port (e_target e) (e_target_arg e)))
                 (rejectR (\<not> types_compatible (port_type source ''out'' (e_source_field e))
                             (port_type target ''in'' (e_target_arg e)))
                    (Incompatible_Types (port_type source ''out'' (e_source_field e))
                       (port_type target ''in'' (e_target_arg e)))))))))"

definition validate_iip ::
  "network \<Rightarrow> iip \<Rightarrow> (string \<times> string) list \<Rightarrow> net_error + (string \<times> string) list" where
  "validate_iip net i seen =
     (case lookup net (i_component i) of
        None \<Rightarrow> Inl (Unknown_Iip_Target (i_component i))
      | Some c \<Rightarrow>
          thenR (rejectR (i_port i = []) Empty_Iip_Port)
          (thenR (rejectR ((i_component i, i_port i) \<in> set seen) (Duplicate_Iip (i_component i) (i_port i)))
          (thenR (rejectR (i_port i \<notin> set (ports_of c ''in'')) (Iip_No_In_Port (i_component i) (i_port i)))
          (thenR (rejectR (\<not> value_matches_type (i_value i) (port_type c ''in'' (i_port i)))
                    (Iip_Type (i_component i) (i_port i)))
             (Inr ((i_component i, i_port i) # seen))))))"

definition check_iip_clash :: "(string \<times> string) list \<Rightarrow> edge \<Rightarrow> net_error + unit" where
  "check_iip_clash seen e =
     rejectR ((e_target e, e_target_arg e) \<in> set seen) (Iip_And_Edge (e_target e) (e_target_arg e))"

definition check_stream :: "component \<Rightarrow> string \<Rightarrow> net_error + unit" where
  "check_stream c port = rejectR (port \<notin> set (ports_of c ''out'')) (Stream_Port (c_id c) port)"

text \<open>\<open>ref.split(".")\<close> of a reference that holds exactly one dot.\<close>

definition split_ref :: "string \<Rightarrow> string \<times> string" where
  "split_ref ref = (takeWhile (\<lambda>c. c \<noteq> CHR ''.'') ref, tl (dropWhile (\<lambda>c. c \<noteq> CHR ''.'') ref))"

definition bad_ref :: "string \<Rightarrow> bool" where
  "bad_ref ref \<longleftrightarrow> count_list ref CHR ''.'' \<noteq> 1 \<or> hd ref = CHR ''.'' \<or> last ref = CHR ''.''"

definition check_external_port :: "component \<Rightarrow> component dict \<Rightarrow> string \<Rightarrow> net_error + unit" where
  "check_external_port c inner port =
     (let ref = dget_or (c_external c) port [] in
      thenR (rejectR (bad_ref ref) (Bad_External_Ref (c_id c) port))
        (case dget inner (fst (split_ref ref)) of
           None \<Rightarrow> Inl (Unknown_Interior (c_id c) port)
         | Some ic \<Rightarrow>
             (let side = (if port \<in> set (ports_of c ''in'') then ''in'' else ''out'')
              in rejectR (snd (split_ref ref) \<notin> set (ports_of ic side)) (Interior_Port (c_id c) port))))"

definition check_boundary :: "component \<Rightarrow> network \<Rightarrow> net_error + unit" where
  "check_boundary c subnet =
     thenR (rejectR (set (dkeys (c_external c)) \<noteq> set (ports_of c ''in'') \<union> set (ports_of c ''out''))
              (External_Mismatch (c_id c)))
       (iterR (check_external_port c (dupdate [] (map (\<lambda>ic. (c_id ic, ic)) (components subnet))))
          (sort (dkeys (c_external c))))"

function validate :: "nat \<Rightarrow> network \<Rightarrow> net_error + unit" where
  "validate depth net =
     thenR (rejectR (MAX_SUBNET_DEPTH < depth) Depth_Exceeded)
     (thenR (iterR (validate_edge net) (n_edges net))
     (bindR (foldR (validate_iip net) (n_iips net) [])
       (\<lambda>seen. thenR (iterR (check_iip_clash seen) (n_edges net))
         (thenR (iterR
            (\<lambda>c. thenR (iterR (check_stream c) (c_stream c))
               (case c_subnet c of
                  None \<Rightarrow> rejectR (c_external c \<noteq> []) (External_Without_Subnet (c_id c))
                | Some subnet \<Rightarrow>
                    thenR (rejectR (MAX_SUBNET_DEPTH \<le> depth) Depth_Exceeded)
                      (thenR (check_boundary c subnet) (validate (Suc depth) subnet))))
            (components net))
         (check_acyclic net)))))"
  by pat_completeness auto
termination
  by (relation "measure (\<lambda>(depth, _). Suc MAX_SUBNET_DEPTH - depth)")
    (auto simp: rejectR_Inr_iff)

declare validate.simps [simp del]

text \<open>\<open>topological_order\<close>: validated first, then the private sort.\<close>

definition topological_order :: "network \<Rightarrow> net_error + string list" where
  "topological_order net = thenR (validate 0 net) (topological_order_raw net)"

section \<open>The two sorts refine the contract\<close>

interpretation stack: kahn_sort "\<lambda>q. q = []" stack_pop stack_push mset adjacency
proof
  fix x q q' assume "\<not> (q :: string list) = []" "stack_pop q = (x, q')"
  then show "mset q = add_mset x (mset q')"
    by (cases q rule: rev_cases) (simp_all add: stack_pop_def)
qed (simp_all add: stack_push_def)

interpretation ready: kahn_sort "\<lambda>q. q = []" ready_pop ready_push mset sorted_adjacency
proof
  fix x q q' assume "\<not> (q :: string list) = []" "ready_pop q = (x, q')"
  then show "mset q = add_mset x (mset q')" by (cases q) (simp_all add: ready_pop_def)
qed (simp_all add: ready_push_def sorted_adjacency_def)

definition wf_keys :: "network \<Rightarrow> bool" where
  "wf_keys net \<longleftrightarrow> distinct (component_ids net) \<and> (\<forall>(k, c) \<in> set (n_components net). c_id c = k)"

definition edges_inside :: "network \<Rightarrow> bool" where
  "edges_inside net \<longleftrightarrow>
     (\<forall>(u, v) \<in> set (edge_pairs net). u \<in> set (component_ids net) \<and> v \<in> set (component_ids net))"

lemma lookup_None_iff: "lookup net cid = None \<longleftrightarrow> cid \<notin> set (component_ids net)"
  by (simp add: lookup_def dget_None_iff component_ids_def)

lemma mset_filter_distinct:
  "distinct xs \<Longrightarrow> mset (filter P xs) = mset_set {x \<in> set xs. P x}"
  by (metis distinct_filter mset_set_set set_filter)

lemma check_acyclic_iff:
  assumes "distinct (component_ids net)" "edges_inside net"
  shows "check_acyclic net = (if acyclic (set (edge_pairs net)) then Inr () else Inl Cycle)"
proof -
  let ?V = "set (component_ids net)" and ?es = "edge_pairs net"
  have V: "\<And>u v. (u, v) \<in> set ?es \<Longrightarrow> u \<in> ?V \<and> v \<in> ?V"
    using assms(2) by (auto simp: edges_inside_def)
  have start: "mset (filter (\<lambda>cid. indegrees ?es cid = 0) (component_ids net)) =
      mset_set {n \<in> ?V. indegrees ?es n = 0}"
    by (rule mset_filter_distinct [OF assms(1)])
  obtain d q os where run: "kahn_run (\<lambda>q. q = []) stack_pop stack_push (adjacency ?es)
      (indegrees ?es, filter (\<lambda>cid. indegrees ?es cid = 0) (component_ids net), []) = Some (d, q, os)"
    and os: "distinct os" "set os \<subseteq> ?V" "set os = ?V \<longleftrightarrow> acyclic (set ?es)"
    using stack.kahn_run_result [OF finite_set V start] by blast
  have "length os = length (component_ids net) \<longleftrightarrow> set os = ?V"
    using os(1,2) assms(1) by (metis card_subset_eq distinct_card finite_set)
  then show ?thesis using os(3) by (simp add: check_acyclic_def Let_def run)
qed

lemma topological_order_raw_result:
  assumes "distinct (component_ids net)" "edges_inside net"
  shows "\<exists>os. topological_order_raw net = Inr os \<and> distinct os \<and> set os \<subseteq> set (component_ids net) \<and>
    topo_before (set (edge_pairs net)) os \<and>
    (set os = set (component_ids net) \<longleftrightarrow> acyclic (set (edge_pairs net)))"
proof -
  let ?V = "set (component_ids net)" and ?es = "edge_pairs net"
  let ?q = "sort (filter (\<lambda>cid. indegrees ?es cid = 0) (component_ids net))"
  have V: "\<And>u v. (u, v) \<in> set ?es \<Longrightarrow> u \<in> ?V \<and> v \<in> ?V"
    using assms(2) by (auto simp: edges_inside_def)
  have start: "mset ?q = mset_set {n \<in> ?V. indegrees ?es n = 0}"
    using mset_filter_distinct [OF assms(1)] by simp
  obtain d q os where run: "kahn_run (\<lambda>q. q = []) ready_pop ready_push (sorted_adjacency ?es)
      (indegrees ?es, ?q, []) = Some (d, q, os)"
    and os: "distinct os" "set os \<subseteq> ?V" "topo_before (set ?es) os" "set os = ?V \<longleftrightarrow> acyclic (set ?es)"
    using ready.kahn_run_result [OF finite_set V start] by blast
  then show ?thesis by (simp add: topological_order_raw_def Let_def)
qed

section \<open>What validation accepts\<close>

lemma lookup_Some_in: "lookup net cid = Some c \<Longrightarrow> cid \<in> set (component_ids net)"
  using lookup_None_iff [of net cid] by auto

definition edge_ok :: "network \<Rightarrow> edge \<Rightarrow> bool" where
  "edge_ok net e \<longleftrightarrow> (\<exists>s t. lookup net (e_source e) = Some s \<and> lookup net (e_target e) = Some t \<and>
     CHR ''.'' \<notin> set (e_source e) \<and> CHR ''.'' \<notin> set (e_target e) \<and> e_source e \<noteq> e_target e \<and>
     1 \<le> e_capacity e \<and> e_capacity e \<le> MAX_CONNECTION_CAPACITY \<and>
     (ports_of s ''out'' = [] \<or> e_source_field e \<in> set (ports_of s ''out'')) \<and>
     (ports_of t ''in'' = [] \<or> e_target_arg e \<in> set (ports_of t ''in'')) \<and>
     types_compatible (port_type s ''out'' (e_source_field e)) (port_type t ''in'' (e_target_arg e)))"

lemma validate_edge_ok_iff: "validate_edge net e = Inr u \<longleftrightarrow> edge_ok net e"
  by (auto simp: validate_edge_def edge_ok_def result_simps split: option.splits)

lemma validate_edge_inside:
  "validate_edge net e = Inr u \<Longrightarrow>
    e_source e \<in> set (component_ids net) \<and> e_target e \<in> set (component_ids net)"
  by (auto simp: validate_edge_ok_iff edge_ok_def dest: lookup_Some_in)

lemma validate_edges_inside:
  "iterR (validate_edge net) (n_edges net) = Inr u \<Longrightarrow> edges_inside net"
  using validate_edge_inside by (force simp: edges_inside_def edge_pairs_def iterR_Inr_iff)

lemma validate_parts:
  assumes "validate depth net = Inr u"
  shows "depth \<le> MAX_SUBNET_DEPTH" "iterR (validate_edge net) (n_edges net) = Inr ()"
    "check_acyclic net = Inr ()"
    "\<exists>seen. foldR (validate_iip net) (n_iips net) [] = Inr seen \<and>
       (\<forall>e \<in> set (n_edges net). (e_target e, e_target_arg e) \<notin> set seen)"
    "\<forall>c \<in> set (components net). (\<forall>p \<in> set (c_stream c). p \<in> set (ports_of c ''out'')) \<and>
       (case c_subnet c of None \<Rightarrow> c_external c = []
        | Some sub \<Rightarrow> depth < MAX_SUBNET_DEPTH \<and> check_boundary c sub = Inr () \<and> validate (Suc depth) sub = Inr ())"
  using assms
  by (auto simp: validate.simps [of depth net] result_simps check_iip_clash_def check_stream_def
      split: option.splits)

lemma topological_order_ok:
  assumes "distinct (component_ids net)" "validate 0 net = Inr ()"
  shows "\<exists>os. topological_order net = Inr os \<and> distinct os \<and> set os = set (component_ids net) \<and>
    topo_before (set (edge_pairs net)) os"
proof -
  have inside: "edges_inside net"
    using validate_parts(2) [OF assms(2)] by (rule validate_edges_inside)
  have "acyclic (set (edge_pairs net))"
    using validate_parts(3) [OF assms(2)] check_acyclic_iff [OF assms(1) inside]
    by (auto split: if_splits)
  then show ?thesis
    using topological_order_raw_result [OF assms(1) inside] assms(2) by (auto simp: topological_order_def)
qed

lemma validate_iff:
  "validate depth net = Inr () \<longleftrightarrow>
     depth \<le> MAX_SUBNET_DEPTH \<and> (\<forall>e \<in> set (n_edges net). edge_ok net e) \<and>
     (\<exists>seen. foldR (validate_iip net) (n_iips net) [] = Inr seen \<and>
        (\<forall>e \<in> set (n_edges net). (e_target e, e_target_arg e) \<notin> set seen)) \<and>
     (\<forall>c \<in> set (components net). (\<forall>p \<in> set (c_stream c). p \<in> set (ports_of c ''out'')) \<and>
        (case c_subnet c of None \<Rightarrow> c_external c = []
         | Some sub \<Rightarrow> depth < MAX_SUBNET_DEPTH \<and> check_boundary c sub = Inr () \<and>
             validate (Suc depth) sub = Inr ())) \<and>
     check_acyclic net = Inr ()"
proof -
  have split: "(case c_subnet c of None \<Rightarrow> rejectR (c_external c \<noteq> []) (External_Without_Subnet (c_id c))
      | Some subnet \<Rightarrow> thenR (rejectR (MAX_SUBNET_DEPTH \<le> depth) Depth_Exceeded)
          (thenR (check_boundary c subnet) (validate (Suc depth) subnet))) = Inr () \<longleftrightarrow>
      (case c_subnet c of None \<Rightarrow> c_external c = []
         | Some sub \<Rightarrow> depth < MAX_SUBNET_DEPTH \<and> check_boundary c sub = Inr () \<and>
             validate (Suc depth) sub = Inr ())" for c
    by (cases "c_subnet c") (auto simp: result_simps)
  show ?thesis
    by (subst validate.simps)
      (auto simp: result_simps validate_edge_ok_iff check_iip_clash_def check_stream_def split)
qed

section \<open>Packets bound to in-ports\<close>

lemma validate_iip_step:
  "validate_iip net i seen = Inr seen' \<longleftrightarrow>
     (\<exists>c. lookup net (i_component i) = Some c \<and> i_port i \<noteq> [] \<and>
        (i_component i, i_port i) \<notin> set seen \<and> i_port i \<in> set (ports_of c ''in'') \<and>
        value_matches_type (i_value i) (port_type c ''in'' (i_port i)) \<and>
        seen' = (i_component i, i_port i) # seen)"
  by (auto simp: validate_iip_def result_simps split: option.splits)

definition iip_keys :: "network \<Rightarrow> (string \<times> string) list" where
  "iip_keys net = map (\<lambda>i. (i_component i, i_port i)) (n_iips net)"

lemma validate_iips_result:
  "foldR (validate_iip net) is seen = Inr seen' \<Longrightarrow>
     seen' = rev (map (\<lambda>i. (i_component i, i_port i)) is) @ seen \<and>
     distinct (map (\<lambda>i. (i_component i, i_port i)) is) \<and>
     (\<forall>i \<in> set is. (i_component i, i_port i) \<notin> set seen \<and>
        (\<exists>c. lookup net (i_component i) = Some c \<and> i_port i \<in> set (ports_of c ''in'') \<and>
           value_matches_type (i_value i) (port_type c ''in'' (i_port i))))"
proof (induction "is" arbitrary: seen)
  case Nil
  then show ?case by simp
next
  case (Cons i "is")
  then obtain c where c: "lookup net (i_component i) = Some c" "(i_component i, i_port i) \<notin> set seen"
    "i_port i \<in> set (ports_of c ''in'')" "value_matches_type (i_value i) (port_type c ''in'' (i_port i))"
    "foldR (validate_iip net) is ((i_component i, i_port i) # seen) = Inr seen'"
    by (auto simp: result_simps validate_iip_step)
  then show ?case using Cons.IH [OF c(5)] by auto
qed

text \<open>In a valid network an in-port is fed by at most one packet, and never by a packet and an edge.\<close>

lemma validate_inports_exclusive:
  assumes "validate depth net = Inr ()"
  shows "distinct (iip_keys net)"
    "e \<in> set (n_edges net) \<Longrightarrow> (e_target e, e_target_arg e) \<notin> set (iip_keys net)"
proof -
  from assms obtain seen where seen: "foldR (validate_iip net) (n_iips net) [] = Inr seen"
    "\<forall>e \<in> set (n_edges net). (e_target e, e_target_arg e) \<notin> set seen"
    by (auto simp: validate_iff)
  from validate_iips_result [OF seen(1)]
  show "distinct (iip_keys net)"
    "e \<in> set (n_edges net) \<Longrightarrow> (e_target e, e_target_arg e) \<notin> set (iip_keys net)"
    using seen(2) by (auto simp: iip_keys_def)
qed

section \<open>Nesting depth\<close>

fun nests :: "nat \<Rightarrow> network \<Rightarrow> bool" where
  "nests 0 net = False"
| "nests (Suc n) net =
     (\<forall>c \<in> set (components net). case c_subnet c of None \<Rightarrow> True | Some sub \<Rightarrow> nests n sub)"

lemma validate_nests: "validate depth net = Inr () \<Longrightarrow> nests (Suc MAX_SUBNET_DEPTH - depth) net"
proof (induction "Suc MAX_SUBNET_DEPTH - depth" arbitrary: depth net)
  case 0
  then show ?case by (simp add: validate_iff)
next
  case (Suc n)
  have "case c_subnet c of None \<Rightarrow> True | Some sub \<Rightarrow> nests n sub" if "c \<in> set (components net)" for c
  proof (cases "c_subnet c")
    case (Some sub)
    then have "validate (Suc depth) sub = Inr ()"
      using Suc.prems that by (force simp: validate_iff [of depth])
    moreover have n: "n = Suc MAX_SUBNET_DEPTH - Suc depth" using Suc.hyps(2) by simp
    ultimately show ?thesis using Suc.hyps(1) [OF n] Some n by simp
  qed simp
  then show ?case by (simp flip: Suc.hyps(2))
qed

section \<open>Construction keeps the keys\<close>

lemma wf_keys_empty: "wf_keys empty_network"
  by (simp add: wf_keys_def empty_network_def component_ids_def)

lemma in_dput: "(k', v') \<in> set (dput k v d) \<Longrightarrow> (k', v') = (k, v) \<or> (k', v') \<in> set d"
  by (induction d) (auto simp: dput_def split: if_splits)

lemma wf_keys_add_component:
  assumes "wf_keys net" "add_component c net = Inr net'"
  shows "wf_keys net'"
proof -
  from assms(2) have net': "n_components net' = dput (c_id c) c (n_components net)"
    by (auto simp: add_component_def result_simps)
  then show ?thesis
    using assms(1) wf_dict_dput [of "n_components net" "c_id c" c]
    by (auto simp: wf_keys_def component_ids_def wf_dict_def dest!: in_dput)
qed

lemma wf_keys_add_edge: "wf_keys net \<Longrightarrow> wf_keys (add_edge e net)"
  by (simp add: wf_keys_def add_edge_def component_ids_def)

lemma wf_keys_add_iip: "wf_keys net \<Longrightarrow> wf_keys (add_iip i net)"
  by (simp add: wf_keys_def add_iip_def component_ids_def)

lemma lookup_add_component:
  "add_component c net = Inr net' \<Longrightarrow> lookup net' k = (if k = c_id c then Some c else lookup net k)"
  by (auto simp: add_component_def result_simps lookup_def dict_simps)

lemma wf_keys_lookup: "wf_keys net \<Longrightarrow> c \<in> set (components net) \<Longrightarrow> lookup net (c_id c) = Some c"
  unfolding lookup_def
  by (rule dget_wf) (auto simp: wf_keys_def components_def wf_dict_def component_ids_def)

lemma set_components_ids: "wf_keys net \<Longrightarrow> c_id ` set (components net) = set (component_ids net)"
  by (force simp: wf_keys_def components_def component_ids_def image_iff)

section \<open>The order does not depend on insertion\<close>

lemma indegrees_cong_mset: "mset es = mset fs \<Longrightarrow> indegrees es = indegrees fs"
  by (rule ext) (metis indegrees_eq mset_filter size_mset)

lemma sorted_adjacency_cong_mset: "mset es = mset fs \<Longrightarrow> sorted_adjacency es = sorted_adjacency fs"
proof (rule ext)
  fix x
  assume "mset es = mset fs"
  then have "mset (adjacency es x) = mset (adjacency fs x)"
    by (simp add: adjacency_eq)
  then show "sorted_adjacency es x = sorted_adjacency fs x"
    unfolding sorted_adjacency_def by (metis sorted_list_of_multiset_mset)
qed

lemma topological_order_raw_cong:
  assumes "mset (component_ids net) = mset (component_ids net')"
    and "mset (edge_pairs net) = mset (edge_pairs net')"
  shows "topological_order_raw net = topological_order_raw net'"
proof -
  have d: "indegrees (edge_pairs net) = indegrees (edge_pairs net')"
    using assms(2) by (rule indegrees_cong_mset)
  have s: "sorted_adjacency (edge_pairs net) = sorted_adjacency (edge_pairs net')"
    using assms(2) by (rule sorted_adjacency_cong_mset)
  have "mset (filter P (component_ids net)) = mset (filter P (component_ids net'))" for P
    using assms(1) by simp
  then have "sort (filter P (component_ids net)) = sort (filter P (component_ids net'))" for P
    by (metis sorted_list_of_multiset_mset)
  then show ?thesis by (simp add: topological_order_raw_def Let_def d s)
qed

end
