(* ===== verification/Packets.thy ===== *)
theory Packets
  imports Network
begin

text \<open>
  The parts the three execution engines share (\<open>cbp/flow.py\<close>, \<open>cbp/stream.py\<close>,
  \<open>network.run_network\<close>): information packets on bounded connections, the selection and
  type check of a packet, the driver the engines call, the reports they return, and the
  admission of a network (validation, topological order, step limit). The driver is not
  part of these files: it is an argument of every engine, a function from its state and a
  call to its next state and either the text of the exception it raised or a response.
\<close>

section \<open>Errors and reports\<close>

datatype flow_error =
    Bad_Network net_error
  | Bad_Step_Limit int
  | Too_Many_Components nat int
  | Undeclared_Out string string
  | Undeclared_In string string
  | Connection_Capacity int
  | Connection_Full string string
  | Connection_Empty string string
  | No_Packet string string
  | Component_Raised string string string
  | No_Output_Field string string
  | Output_Not_Mapping string string
  | Packet_Type string string
  | No_Computed_Output string
  | Two_Writers string string
  | Not_Iterable string string
  | Activation_Limit int
  | Send_Limit int
  | Stranded_Packets
  | All_Blocked
  | Missing_Component string

record response =
  p_verified :: bool
  p_value :: pyval
  p_error :: "string option"

record step_result =
  y_step :: nat
  y_id :: string
  y_task :: string
  y_verified :: bool
  y_value :: pyval
  y_error :: "string option"

record report =
  r_ok :: bool
  r_results :: "step_result list"
  r_completed :: nat
  r_failed :: "step_result option"
  r_error :: "flow_error option"

type_synonym 'd driver =
  "'d \<Rightarrow> string \<Rightarrow> pyval dict \<Rightarrow> string option \<Rightarrow> string option \<Rightarrow> 'd \<times> (string + response)"

text \<open>How a run stops: it returns a failure report with a message, returns one that names the
  unverified step, or an exception leaves it.\<close>

datatype stop = Fail flow_error | Unverified step_result | Crash flow_error

definition fail_report :: "step_result list \<Rightarrow> nat \<Rightarrow> flow_error \<Rightarrow> report" where
  "fail_report results n e =
     \<lparr>r_ok = False, r_results = results, r_completed = n, r_failed = None, r_error = Some e\<rparr>"

definition unverified_report :: "step_result list \<Rightarrow> nat \<Rightarrow> step_result \<Rightarrow> report" where
  "unverified_report results n r =
     \<lparr>r_ok = False, r_results = results, r_completed = n, r_failed = Some r, r_error = None\<rparr>"

definition ok_report :: "step_result list \<Rightarrow> report" where
  "ok_report results =
     \<lparr>r_ok = True, r_results = results, r_completed = length results, r_failed = None, r_error = None\<rparr>"

definition finish :: "step_result list \<Rightarrow> nat \<Rightarrow> stop \<Rightarrow> flow_error + report" where
  "finish results n s =
     (case s of Fail e \<Rightarrow> Inr (fail_report results n e)
      | Unverified r \<Rightarrow> Inr (unverified_report results n r)
      | Crash e \<Rightarrow> Inl e)"

definition step_record :: "nat \<Rightarrow> component \<Rightarrow> string \<Rightarrow> response \<Rightarrow> step_result" where
  "step_record idx c cid resp =
     \<lparr>y_step = idx, y_id = cid, y_task = c_task c, y_verified = p_verified resp,
      y_value = p_value resp, y_error = p_error resp\<rparr>"

section \<open>Bounded connections\<close>

record connection =
  k_source :: string
  k_source_port :: string
  k_target :: string
  k_target_port :: string
  k_capacity :: int
  k_buffer :: "pyval list"

definition new_connection :: "edge \<Rightarrow> flow_error + connection" where
  "new_connection e =
     (if \<not> (1 \<le> e_capacity e \<and> e_capacity e \<le> MAX_CONNECTION_CAPACITY)
      then Inl (Connection_Capacity (e_capacity e))
      else Inr \<lparr>k_source = e_source e, k_source_port = e_source_field e, k_target = e_target e,
             k_target_port = e_target_arg e, k_capacity = e_capacity e, k_buffer = []\<rparr>)"

definition is_full :: "connection \<Rightarrow> bool" where
  "is_full c \<longleftrightarrow> int (length (k_buffer c)) \<ge> k_capacity c"

definition is_empty :: "connection \<Rightarrow> bool" where
  "is_empty c \<longleftrightarrow> k_buffer c = []"

definition send :: "pyval \<Rightarrow> connection \<Rightarrow> flow_error + connection" where
  "send v c =
     (if is_full c then Inl (Connection_Full (k_target c) (k_target_port c))
      else Inr (c\<lparr>k_buffer := k_buffer c @ [v]\<rparr>))"

definition receive :: "connection \<Rightarrow> flow_error + pyval \<times> connection" where
  "receive c =
     (if is_empty c then Inl (Connection_Empty (k_target c) (k_target_port c))
      else Inr (hd (k_buffer c), c\<lparr>k_buffer := tl (k_buffer c)\<rparr>))"

text \<open>What a client relies on: a buffer of at most \<open>cap\<close> packets, sent to its end and received
  from its front.\<close>

locale packet_channel =
  fixes buf :: "'c \<Rightarrow> 'v list"
    and cap :: "'c \<Rightarrow> int"
    and snd_op :: "'v \<Rightarrow> 'c \<Rightarrow> 'e + 'c"
    and rcv_op :: "'c \<Rightarrow> 'e + 'v \<times> 'c"
  assumes send_room: "int (length (buf c)) < cap c \<Longrightarrow>
      \<exists>c'. snd_op v c = Inr c' \<and> buf c' = buf c @ [v] \<and> cap c' = cap c"
    and send_full: "\<not> int (length (buf c)) < cap c \<Longrightarrow> \<not> isOk (snd_op v c)"
    and receive_packet: "buf c = v # vs \<Longrightarrow> \<exists>c'. rcv_op c = Inr (v, c') \<and> buf c' = vs \<and> cap c' = cap c"
    and receive_empty: "buf c = [] \<Longrightarrow> \<not> isOk (rcv_op c)"
begin

definition send_all :: "'v list \<Rightarrow> 'c \<Rightarrow> 'e + 'c" where
  "send_all vs c = foldR snd_op vs c"

primrec receive_n :: "nat \<Rightarrow> 'c \<Rightarrow> 'e + 'v list \<times> 'c" where
  "receive_n 0 c = Inr ([], c)"
| "receive_n (Suc n) c =
     bindR (rcv_op c) (\<lambda>(v, c'). bindR (receive_n n c') (\<lambda>(vs, c''). Inr (v # vs, c'')))"

lemma send_ok_iff: "isOk (snd_op v c) \<longleftrightarrow> int (length (buf c)) < cap c"
  using send_room [of c v] send_full [of c v] by auto

lemma send_result: "snd_op v c = Inr c' \<Longrightarrow> buf c' = buf c @ [v] \<and> cap c' = cap c"
  using send_room [of c v] send_full [of c v] by auto

lemma receive_result: "rcv_op c = Inr (v, c') \<Longrightarrow> buf c = v # buf c' \<and> cap c' = cap c"
  using receive_packet [of c] receive_empty [of c] by (cases "buf c") force+

lemma send_all_buffer:
  "send_all vs c = Inr c' \<Longrightarrow> buf c' = buf c @ vs \<and> cap c' = cap c"
  unfolding send_all_def
  by (induction vs arbitrary: c) (auto simp: result_simps dest!: send_result)

lemma send_all_ok_iff:
  "length (buf c) \<le> nat (cap c) \<Longrightarrow>
    isOk (send_all vs c) \<longleftrightarrow> length (buf c) + length vs \<le> nat (cap c)"
proof (induction vs arbitrary: c)
  case Nil
  then show ?case by (simp add: send_all_def)
next
  case (Cons v vs)
  show ?case
  proof (cases "snd_op v c")
    case (Inl e)
    then show ?thesis using send_ok_iff [of v c] Cons.prems by (simp add: send_all_def)
  next
    case (Inr c')
    then have "int (length (buf c)) < cap c" using send_ok_iff [of v c] by simp
    then show ?thesis
      using Cons.IH [of c'] send_result [OF Inr] by (simp add: send_all_def Inr)
  qed
qed

lemma receive_n_buffer:
  "n \<le> length (buf c) \<Longrightarrow>
    \<exists>c'. receive_n n c = Inr (take n (buf c), c') \<and> buf c' = drop n (buf c) \<and> cap c' = cap c"
proof (induction n arbitrary: c)
  case 0
  then show ?case by simp
next
  case (Suc n)
  then obtain v vs where "buf c = v # vs" by (cases "buf c") auto
  then obtain c' where "rcv_op c = Inr (v, c')" "buf c' = vs" "cap c' = cap c"
    using receive_packet by blast
  then show ?case using Suc.IH [of c'] Suc.prems \<open>buf c = v # vs\<close> by auto
qed

text \<open>First in, first out: what was sent into an empty channel is received in the same order.\<close>

lemma fifo:
  assumes "buf c = []" "send_all vs c = Inr c'"
  shows "\<exists>c''. receive_n (length vs) c' = Inr (vs, c'') \<and> buf c'' = [] \<and> cap c'' = cap c"
  using receive_n_buffer [of "length vs" c'] send_all_buffer [OF assms(2)] assms(1) by simp

end

interpretation conn: packet_channel k_buffer k_capacity send receive
  by unfold_locales (auto simp: send_def receive_def is_full_def is_empty_def)

section \<open>Selecting and checking a packet\<close>

definition effective_port_type :: "string \<Rightarrow> string \<Rightarrow> string" where
  "effective_port_type source_type target_type =
     (if source_type = ''any'' then target_type else source_type)"

definition check_ip :: "pyval \<Rightarrow> string \<Rightarrow> string \<Rightarrow> connection \<Rightarrow> flow_error + unit" where
  "check_ip v source_type target_type c =
     rejectR (\<not> value_matches_type v (effective_port_type source_type target_type))
       (Packet_Type (k_target c) (k_target_port c))"

definition extract_output :: "pyval \<Rightarrow> string \<Rightarrow> string list \<Rightarrow> string \<Rightarrow> flow_error + pyval" where
  "extract_output out port out_ports cid =
     (case out of
        PDict kvs \<Rightarrow> (case dget kvs port of None \<Rightarrow> Inl (No_Output_Field cid port) | Some v \<Rightarrow> Inr v)
      | _ \<Rightarrow> if length out_ports = 1 then Inr out else Inl (Output_Not_Mapping cid port))"

section \<open>Admission\<close>

definition component_table :: "network \<Rightarrow> component dict" where
  "component_table net = dupdate [] (map (\<lambda>c. (c_id c, c)) (components net))"

definition run_limit :: "int option \<Rightarrow> int" where
  "run_limit step_limit = (case step_limit of None \<Rightarrow> DEFAULT_STEP_LIMIT | Some n \<Rightarrow> n)"

definition admit :: "network \<Rightarrow> int option \<Rightarrow> flow_error + string list" where
  "admit net step_limit =
     bindR (liftR Bad_Network (thenR (validate 0 net) (topological_order net)))
       (\<lambda>order. thenR (rejectR (run_limit step_limit \<le> 0) (Bad_Step_Limit (run_limit step_limit)))
         (thenR (rejectR (int (length order) > run_limit step_limit)
                   (Too_Many_Components (length order) (run_limit step_limit)))
           (Inr order)))"

text \<open>The initial packets of a component, later ones first to be overwritten.\<close>

definition iips_of :: "network \<Rightarrow> string \<Rightarrow> pyval dict" where
  "iips_of net cid =
     dupdate [] (map (\<lambda>i. (i_port i, i_value i)) (filter (\<lambda>i. i_component i = cid) (n_iips net)))"

lemma component_table_lookup:
  assumes "wf_keys net"
  shows "dget (component_table net) k = lookup net k"
proof -
  have perm: "mset (components net) = mset (map snd (n_components net))"
    by (simp add: components_def)
  have "map c_id (map snd (n_components net)) = component_ids net"
    using assms by (auto simp: wf_keys_def component_ids_def)
  then have d: "distinct (map c_id (components net))"
    using assms perm by (metis mset_eq_imp_distinct_iff mset_map wf_keys_def)
  then have wf: "wf_dict (map (\<lambda>c. (c_id c, c)) (components net))"
    by (simp add: wf_dict_def comp_def)
  have eq: "dget (component_table net) k = dget (map (\<lambda>c. (c_id c, c)) (components net)) k"
    by (simp add: component_table_def dget_dupdate [OF wf] split: option.splits)
  show ?thesis
  proof (cases "lookup net k")
    case None
    then have "k \<notin> fst ` set (map (\<lambda>c. (c_id c, c)) (components net))"
      using set_components_ids [OF assms] by (auto simp: lookup_None_iff image_iff)
    then show ?thesis using eq None by (metis dget_None_iff)
  next
    case (Some c)
    then have "(k, c) \<in> set (n_components net)" by (simp add: lookup_def dget_Some_in)
    then have "c \<in> set (components net)" "c_id c = k"
      using assms by (force simp: components_def wf_keys_def)+
    then have "(k, c) \<in> set (map (\<lambda>c. (c_id c, c)) (components net))" by auto
    then show ?thesis using eq Some dget_wf [OF wf] by simp
  qed
qed

lemma admit_ok_iff:
  "admit net step_limit = Inr order \<longleftrightarrow>
     validate 0 net = Inr () \<and> topological_order net = Inr order \<and>
     int (length order) \<le> run_limit step_limit \<and> 0 < run_limit step_limit"
  by (auto simp: admit_def result_simps)

lemma admit_order:
  assumes "wf_keys net" "admit net step_limit = Inr order"
  shows "distinct order" "set order = set (component_ids net)"
    "topo_before (set (edge_pairs net)) order" "int (length order) \<le> run_limit step_limit"
    "\<forall>e \<in> set (n_edges net). edge_ok net e"
  using topological_order_ok [of net] assms validate_parts(2) [of 0 net]
  by (auto simp: admit_ok_iff wf_keys_def iterR_Inr_iff validate_edge_ok_iff)

end
