(* ===== verification/Flow.thy ===== *)
theory Flow
  imports Packets
begin

text \<open>
  \<open>cbp/flow.py\<close>: the single-shot engine. Every component runs once, in topological order;
  its wired in-ports receive from their connections, its verified output is extracted per
  out-port, type-checked and sent on. The connections are a list indexed as the edges are:
  the objects that \<open>incoming\<close> and \<open>outgoing\<close> share are positions of that list.
\<close>

section \<open>The engine\<close>

definition check_port_mode :: "network \<Rightarrow> edge \<Rightarrow> stop + unit" where
  "check_port_mode net e =
     (case dget (component_table net) (e_source e) of
        None \<Rightarrow> Inl (Crash (Missing_Component (e_source e)))
      | Some src \<Rightarrow>
          (case dget (component_table net) (e_target e) of
             None \<Rightarrow> Inl (Crash (Missing_Component (e_target e)))
           | Some dst \<Rightarrow>
               thenR (rejectR (e_source_field e \<notin> set (ports_of src ''out''))
                        (Fail (Undeclared_Out (e_source e) (e_source_field e))))
                 (rejectR (e_target_arg e \<notin> set (ports_of dst ''in''))
                    (Fail (Undeclared_In (e_target e) (e_target_arg e))))))"

definition incoming :: "string \<Rightarrow> connection list \<Rightarrow> nat list" where
  "incoming cid conns =
     sort_key (\<lambda>i. k_target_port (conns ! i)) (filter (\<lambda>i. k_target (conns ! i) = cid) [0..<length conns])"

definition outgoing :: "string \<Rightarrow> connection list \<Rightarrow> nat list" where
  "outgoing cid conns =
     sort_key (\<lambda>i. k_source_port (conns ! i)) (filter (\<lambda>i. k_source (conns ! i) = cid) [0..<length conns])"

definition take_packet ::
  "string \<Rightarrow> nat \<Rightarrow> connection list \<times> pyval dict \<Rightarrow> stop + connection list \<times> pyval dict" where
  "take_packet cid i ca =
     (let c = fst ca ! i in
      thenR (rejectR (is_empty c) (Fail (No_Packet cid (k_target_port c))))
        (bindR (liftR Crash (receive c))
          (\<lambda>(v, c'). Inr ((fst ca)[i := c'], dput (k_target_port c) v (snd ca)))))"

definition emit_packet ::
  "network \<Rightarrow> component \<Rightarrow> string \<Rightarrow> pyval \<Rightarrow> nat \<Rightarrow> connection list \<Rightarrow> stop + connection list" where
  "emit_packet net node cid out i conns =
     (let c = conns ! i in
      bindR (liftR Fail (extract_output out (k_source_port c) (ports_of node ''out'') cid)) (\<lambda>v.
        case dget (component_table net) (k_target c) of
          None \<Rightarrow> Inl (Crash (Missing_Component (k_target c)))
        | Some t \<Rightarrow>
            thenR (liftR Fail (check_ip v (port_type node ''out'' (k_source_port c))
                     (port_type t ''in'' (k_target_port c)) c))
              (bindR (liftR Fail (send v c)) (\<lambda>c'. Inr (conns[i := c'])))))"

text \<open>One turn of the loop over the order: the driver's next state, the results so far, and
  either a stop or the connections the next turn sees.\<close>

definition flow_step ::
  "'d driver \<Rightarrow> network \<Rightarrow> nat \<Rightarrow> string \<Rightarrow> 'd \<Rightarrow> connection list \<Rightarrow> step_result list
    \<Rightarrow> 'd \<times> step_result list \<times> (stop + connection list)" where
  "flow_step drv net idx cid d conns results =
     (case dget (component_table net) cid of
        None \<Rightarrow> (d, results, Inl (Crash (Missing_Component cid)))
      | Some node \<Rightarrow>
          (case foldR (take_packet cid) (incoming cid conns)
                  (conns, dupdate (c_args node) (iips_of net cid)) of
             Inl s \<Rightarrow> (d, results, Inl s)
           | Inr (conns', args) \<Rightarrow>
               (case drv d (c_task node) args (c_verifier node) (c_child node) of
                  (d', Inl msg) \<Rightarrow> (d', results, Inl (Fail (Component_Raised cid (c_task node) msg)))
                | (d', Inr resp) \<Rightarrow>
                    (let r = step_record idx node cid resp; results' = results @ [r] in
                     if \<not> p_verified resp then (d', results', Inl (Unverified r))
                     else (d', results',
                           foldR (emit_packet net node cid (p_value resp)) (outgoing cid conns') conns')))))"

fun flow_loop ::
  "'d driver \<Rightarrow> network \<Rightarrow> nat \<Rightarrow> string list \<Rightarrow> 'd \<Rightarrow> connection list \<Rightarrow> step_result list
    \<Rightarrow> 'd \<times> (flow_error + report)" where
  "flow_loop drv net idx [] d conns results = (d, Inr (ok_report results))"
| "flow_loop drv net idx (cid # cids) d conns results =
     (case flow_step drv net idx cid d conns results of
        (d', results', Inl s) \<Rightarrow> (d', finish results' idx s)
      | (d', results', Inr conns') \<Rightarrow> flow_loop drv net (Suc idx) cids d' conns' results')"

definition run_flow ::
  "'d driver \<Rightarrow> network \<Rightarrow> int option \<Rightarrow> 'd \<Rightarrow> 'd \<times> (flow_error + report)" where
  "run_flow drv net step_limit d =
     (case admit net step_limit of
        Inl e \<Rightarrow> (d, Inr (fail_report [] 0 e))
      | Inr order \<Rightarrow>
          (case thenR (iterR (check_port_mode net) (n_edges net))
                  (liftR Crash (mapR new_connection (n_edges net))) of
             Inl s \<Rightarrow> (d, finish [] 0 s)
           | Inr conns \<Rightarrow> flow_loop drv net 0 order d conns []))"

section \<open>The abstract specification: dataflow without connections\<close>

text \<open>The packet an edge carries once its source has a result, and the arguments a component
  gets: its template, its initial packets, then the packet of every incoming edge in the order
  of the in-ports.\<close>

definition carries :: "network \<Rightarrow> step_result list \<Rightarrow> edge \<Rightarrow> pyval \<Rightarrow> bool" where
  "carries net results e v \<longleftrightarrow>
     (\<exists>r \<in> set results. \<exists>s t. y_id r = e_source e \<and> lookup net (e_source e) = Some s \<and>
        lookup net (e_target e) = Some t \<and>
        extract_output (y_value r) (e_source_field e) (ports_of s ''out'') (e_source e) = Inr v \<and>
        value_matches_type v (effective_port_type (port_type s ''out'' (e_source_field e))
          (port_type t ''in'' (e_target_arg e))))"

definition edges_into :: "network \<Rightarrow> string \<Rightarrow> edge list" where
  "edges_into net cid = sort_key e_target_arg (filter (\<lambda>e. e_target e = cid) (n_edges net))"

definition dataflow_args :: "network \<Rightarrow> step_result list \<Rightarrow> string \<Rightarrow> component \<Rightarrow> pyval dict \<Rightarrow> bool" where
  "dataflow_args net results cid c args \<longleftrightarrow>
     (\<exists>vs. list_all2 (carries net results) (edges_into net cid) vs \<and>
        args = dupdate (dupdate (c_args c) (iips_of net cid)) (zip (map e_target_arg (edges_into net cid)) vs))"

inductive dataflow :: "'d driver \<Rightarrow> network \<Rightarrow> 'd \<Rightarrow> step_result list \<Rightarrow> 'd \<Rightarrow> bool"
  for drv net d0 where
  start: "dataflow drv net d0 [] d0"
| step: "dataflow drv net d0 results d \<Longrightarrow> lookup net cid = Some c \<Longrightarrow>
    dataflow_args net results cid c args \<Longrightarrow>
    drv d (c_task c) args (c_verifier c) (c_child c) = (d', Inr resp) \<Longrightarrow> p_verified resp \<Longrightarrow>
    dataflow drv net d0 (results @ [step_record (length results) c cid resp]) d'"

inductive_cases dataflow_Nil: "dataflow drv net d0 [] d"

lemma dataflow_verified: "dataflow drv net d0 results d \<Longrightarrow> y \<in> set results \<Longrightarrow> y_verified y"
  by (induction rule: dataflow.induct) (auto simp: step_record_def)

lemma dataflow_results:
  "dataflow drv net d0 results d \<Longrightarrow> i < length results \<Longrightarrow>
    y_verified (results ! i) \<and> y_step (results ! i) = i \<and>
    (\<exists>c. lookup net (y_id (results ! i)) = Some c \<and> y_task (results ! i) = c_task c)"
  by (induction arbitrary: i rule: dataflow.induct)
    (auto simp: nth_append step_record_def less_Suc_eq)

section \<open>Packets in flight\<close>

text \<open>After the components of \<open>done_ids\<close> have run, an edge from a component that ran to one that
  did not holds its packet, and every other connection is empty.\<close>

definition link :: "edge \<Rightarrow> connection \<Rightarrow> bool" where
  "link e c \<longleftrightarrow> k_source c = e_source e \<and> k_source_port c = e_source_field e \<and>
     k_target c = e_target e \<and> k_target_port c = e_target_arg e \<and> k_capacity c = e_capacity e"

definition in_flight :: "network \<Rightarrow> step_result list \<Rightarrow> connection list \<Rightarrow> bool" where
  "in_flight net results conns \<longleftrightarrow>
     list_all2 (\<lambda>e c. link e c \<and>
       (if e_source e \<in> y_id ` set results \<and> e_target e \<notin> y_id ` set results
        then \<exists>v. k_buffer c = [v] \<and> carries net results e v
        else k_buffer c = [])) (n_edges net) conns"

lemma carries_mono: "carries net results e v \<Longrightarrow> set results \<subseteq> set results' \<Longrightarrow> carries net results' e v"
  unfolding carries_def by blast

lemma carries_snoc: "carries net results e v \<Longrightarrow> carries net (results @ [y]) e v"
  by (erule carries_mono) auto

lemma in_flight_link: "in_flight net results conns \<Longrightarrow> i < length conns \<Longrightarrow> link (n_edges net ! i) (conns ! i)"
  by (simp add: in_flight_def list_all2_conv_all_nth)

lemma in_flight_length: "in_flight net results conns \<Longrightarrow> length conns = length (n_edges net)"
  by (simp add: in_flight_def list_all2_lengthD)

lemma set_incoming: "i \<in> set (incoming cid conns) \<longleftrightarrow> i < length conns \<and> k_target (conns ! i) = cid"
  by (auto simp: incoming_def)

lemma distinct_incoming [simp]: "distinct (incoming cid conns)" "distinct (outgoing cid conns)"
  by (simp_all add: incoming_def outgoing_def)

lemma set_outgoing: "i \<in> set (outgoing cid conns) \<longleftrightarrow> i < length conns \<and> k_source (conns ! i) = cid"
  by (auto simp: outgoing_def)

lemma foldR_take_packet:
  assumes "distinct is" "\<forall>i \<in> set is. i < length conns \<and> k_buffer (conns ! i) = [v i]"
  shows "\<exists>conns'. foldR (take_packet cid) is (conns, args) =
      Inr (conns', dupdate args (map (\<lambda>i. (k_target_port (conns ! i), v i)) is)) \<and>
    length conns' = length conns \<and>
    (\<forall>j < length conns. conns' ! j = (if j \<in> set is then (conns ! j)\<lparr>k_buffer := []\<rparr> else conns ! j))"
  using assms
proof (induction "is" arbitrary: conns args)
  case Nil
  then show ?case by simp
next
  case (Cons i "is")
  let ?conns = "conns[i := (conns ! i)\<lparr>k_buffer := []\<rparr>]"
  have step: "take_packet cid i (conns, args) = Inr (?conns, dput (k_target_port (conns ! i)) (v i) args)"
    using Cons.prems(2) by (simp add: take_packet_def is_empty_def receive_def Let_def)
  have "\<forall>j \<in> set is. j < length ?conns \<and> k_buffer (?conns ! j) = [v j]"
    using Cons.prems by (auto simp: nth_list_update split: if_splits)
  then obtain conns' where IH: "foldR (take_packet cid) is (?conns, dput (k_target_port (conns ! i)) (v i) args) =
      Inr (conns', dupdate (dput (k_target_port (conns ! i)) (v i) args)
        (map (\<lambda>j. (k_target_port (?conns ! j), v j)) is))"
    "length conns' = length ?conns"
    "\<forall>j < length ?conns. conns' ! j = (if j \<in> set is then (?conns ! j)\<lparr>k_buffer := []\<rparr> else ?conns ! j)"
    using Cons.IH [of ?conns "dput (k_target_port (conns ! i)) (v i) args"] Cons.prems(1) by auto
  have m: "map (\<lambda>j. (k_target_port (?conns ! j), v j)) is = map (\<lambda>j. (k_target_port (conns ! j), v j)) is"
    using Cons.prems(1) by (intro map_cong refl) (metis distinct.simps(2) nth_list_update_neq)
  show ?case
    using IH(2,3) Cons.prems by (intro exI [of _ conns']) (auto simp: step IH(1) [unfolded m] nth_list_update)
qed

definition packet_fault :: "flow_error \<Rightarrow> bool" where
  "packet_fault e \<longleftrightarrow> (\<exists>a b. e = No_Output_Field a b \<or> e = Output_Not_Mapping a b \<or> e = Packet_Type a b)"

lemma extract_output_fault: "extract_output out port ps cid = Inl e \<Longrightarrow> packet_fault e"
  by (auto simp: extract_output_def packet_fault_def split: pyval.splits option.splits if_splits)

text \<open>Sending from a component whose connections are all empty ends in a packet fault or puts the
  extracted packet, and only it, on each of them.\<close>

definition loaded :: "network \<Rightarrow> component \<Rightarrow> string \<Rightarrow> pyval \<Rightarrow> connection \<Rightarrow> connection \<Rightarrow> bool" where
  "loaded net node cid out c c' \<longleftrightarrow>
     (\<exists>v t. c' = c\<lparr>k_buffer := [v]\<rparr> \<and> lookup net (k_target c) = Some t \<and>
        extract_output out (k_source_port c) (ports_of node ''out'') cid = Inr v \<and>
        value_matches_type v (effective_port_type (port_type node ''out'' (k_source_port c))
          (port_type t ''in'' (k_target_port c))))"

definition sendable :: "network \<Rightarrow> connection \<Rightarrow> bool" where
  "sendable net c \<longleftrightarrow> k_buffer c = [] \<and> 1 \<le> k_capacity c \<and> lookup net (k_target c) \<noteq> None"

lemma emit_packet_cases:
  assumes "wf_keys net" "sendable net (conns ! i)"
  shows "(\<exists>e. emit_packet net node cid out i conns = Inl (Fail e) \<and> packet_fault e) \<or>
    (\<exists>c'. emit_packet net node cid out i conns = Inr (conns[i := c']) \<and> loaded net node cid out (conns ! i) c')"
proof -
  let ?c = "conns ! i"
  obtain t where t: "lookup net (k_target ?c) = Some t" using assms(2) by (auto simp: sendable_def)
  show ?thesis
  proof (cases "extract_output out (k_source_port ?c) (ports_of node ''out'') cid")
    case (Inl e)
    then show ?thesis using extract_output_fault [OF Inl] by (simp add: emit_packet_def Let_def)
  next
    case (Inr v)
    then show ?thesis using assms t
      by (cases "value_matches_type v (effective_port_type (port_type node ''out'' (k_source_port ?c))
            (port_type t ''in'' (k_target_port ?c)))")
        (auto simp: emit_packet_def Let_def component_table_lookup [OF assms(1)] check_ip_def
          packet_fault_def send_def is_full_def loaded_def sendable_def)
  qed
qed

lemma foldR_emit_packet:
  assumes "distinct is" "wf_keys net" "\<forall>i \<in> set is. i < length conns \<and> sendable net (conns ! i)"
  shows "(\<exists>e. foldR (emit_packet net node cid out) is conns = Inl (Fail e) \<and> packet_fault e) \<or>
    (\<exists>conns'. foldR (emit_packet net node cid out) is conns = Inr conns' \<and> length conns' = length conns \<and>
      (\<forall>j < length conns. if j \<in> set is then loaded net node cid out (conns ! j) (conns' ! j)
         else conns' ! j = conns ! j))"
  using assms(1,3)
proof (induction "is" arbitrary: conns)
  case Nil
  then show ?case by simp
next
  case (Cons i "is")
  from emit_packet_cases [OF assms(2), of conns i node cid out] Cons.prems(2)
  consider e where "emit_packet net node cid out i conns = Inl (Fail e)" "packet_fault e"
    | c' where "emit_packet net node cid out i conns = Inr (conns[i := c'])"
      "loaded net node cid out (conns ! i) c'"
    by auto
  then show ?case
  proof cases
    case 1
    then show ?thesis by simp
  next
    case 2
    have ne: "j \<noteq> i" if "j \<in> set is" for j using Cons.prems(1) that by auto
    have "\<forall>j \<in> set is. j < length (conns[i := c']) \<and> sendable net (conns[i := c'] ! j)"
      using Cons.prems(2) ne by (metis length_list_update list.set_intros(2) nth_list_update_neq)
    from Cons.IH [OF _ this] Cons.prems(1)
    have "(\<exists>e. foldR (emit_packet net node cid out) is (conns[i := c']) = Inl (Fail e) \<and> packet_fault e) \<or>
      (\<exists>conns'. foldR (emit_packet net node cid out) is (conns[i := c']) = Inr conns' \<and>
        length conns' = length (conns[i := c']) \<and>
        (\<forall>j < length (conns[i := c']). if j \<in> set is
           then loaded net node cid out (conns[i := c'] ! j) (conns' ! j)
           else conns' ! j = conns[i := c'] ! j))" by simp
    then show ?thesis
    proof (elim disjE exE conjE)
      fix conns'
      assume res: "foldR (emit_packet net node cid out) is (conns[i := c']) = Inr conns'"
        "length conns' = length (conns[i := c'])"
        "\<forall>j < length (conns[i := c']). if j \<in> set is
           then loaded net node cid out (conns[i := c'] ! j) (conns' ! j)
           else conns' ! j = conns[i := c'] ! j"
      have "if j \<in> set (i # is) then loaded net node cid out (conns ! j) (conns' ! j)
          else conns' ! j = conns ! j" if "j < length conns" for j
        using res(3) that 2(2) Cons.prems(1) by (cases "j = i") (auto split: if_splits)
      then show ?thesis using res 2 by simp
    qed (auto simp: 2)
  qed
qed

section \<open>One turn of the loop\<close>

lemma sort_key_cong_on: "(\<And>x. x \<in> set xs \<Longrightarrow> f x = g x) \<Longrightarrow> sort_key f xs = sort_key g xs"
proof (induction xs)
  case (Cons x xs)
  have "insort_key f x ys = insort_key g x ys" if "set ys \<subseteq> set (x # xs)" for ys
    using that Cons.prems by (induction ys) auto
  moreover have "set (sort_key g xs) \<subseteq> set (x # xs)" by auto
  ultimately show ?case using Cons by (simp add: sort_key_simps)
qed simp

lemma map_sort_key: "map f (sort_key (\<lambda>x. g (f x)) xs) = sort_key g (map f xs)"
proof (induction xs)
  case (Cons x xs)
  have "map f (insort_key (\<lambda>x. g (f x)) x ys) = insort_key g (f x) (map f ys)" for ys
    by (induction ys) auto
  then show ?case using Cons by (simp add: sort_key_simps)
qed simp

lemma map_nth_filter: "map ((!) xs) (filter (\<lambda>i. P (xs ! i)) [0..<length xs]) = filter P xs"
proof -
  have "filter P xs = filter P (map ((!) xs) [0..<length xs])" by (simp add: map_nth)
  then show ?thesis by (simp add: filter_map comp_def)
qed

lemma incoming_edges:
  assumes "in_flight net results conns"
  shows "map ((!) (n_edges net)) (incoming cid conns) = edges_into net cid"
proof -
  have len: "length conns = length (n_edges net)" using assms by (rule in_flight_length)
  have lk: "link (n_edges net ! i) (conns ! i)" if "i < length (n_edges net)" for i
    using in_flight_link [OF assms] that len by simp
  have "filter (\<lambda>i. k_target (conns ! i) = cid) [0..<length conns] =
      filter (\<lambda>i. e_target (n_edges net ! i) = cid) [0..<length (n_edges net)]"
    unfolding len by (rule filter_cong) (auto dest: lk simp: link_def)
  moreover have "sort_key (\<lambda>i. k_target_port (conns ! i)) (filter (\<lambda>i. e_target (n_edges net ! i) = cid) [0..<length (n_edges net)]) =
      sort_key (\<lambda>i. e_target_arg (n_edges net ! i)) (filter (\<lambda>i. e_target (n_edges net ! i) = cid) [0..<length (n_edges net)])"
    by (rule sort_key_cong_on) (auto dest: lk simp: link_def)
  ultimately show ?thesis
    unfolding incoming_def edges_into_def
    by (simp add: map_sort_key [of "(!) (n_edges net)" e_target_arg]
        map_nth_filter [of "n_edges net" "\<lambda>e. e_target e = cid"])
qed

text \<open>The situation between two turns: \<open>results\<close> are those of a prefix of the order.\<close>

definition flow_state :: "network \<Rightarrow> string list \<Rightarrow> step_result list \<Rightarrow> string list \<Rightarrow> connection list \<Rightarrow> bool" where
  "flow_state net order results cids conns \<longleftrightarrow>
     order = map y_id results @ cids \<and> in_flight net results conns"

definition runnable :: "network \<Rightarrow> string list \<Rightarrow> bool" where
  "runnable net order \<longleftrightarrow> wf_keys net \<and> distinct order \<and> set order = set (component_ids net) \<and>
     topo_before (set (edge_pairs net)) order \<and> (\<forall>e \<in> set (n_edges net). edge_ok net e)"

lemma flow_incoming:
  assumes r: "runnable net order" and fs: "flow_state net order results (cid # cids) conns"
    and i: "i \<in> set (incoming cid conns)"
  shows "i < length conns \<and> (\<exists>v. k_buffer (conns ! i) = [v] \<and> carries net results (n_edges net ! i) v)"
proof -
  have len: "length conns = length (n_edges net)" and lk: "link (n_edges net ! i) (conns ! i)"
    and i': "i < length conns" "k_target (conns ! i) = cid"
    using fs i by (auto simp: flow_state_def set_incoming in_flight_length intro: in_flight_link)
  let ?e = "n_edges net ! i"
  have tgt: "e_target ?e = cid" using lk i' by (simp add: link_def)
  have "(e_source ?e, cid) \<in> set (edge_pairs net)"
    using i' len tgt by (force simp: edge_pairs_def)
  moreover have order: "order = map y_id results @ cid # cids" using fs by (simp add: flow_state_def)
  ultimately have "e_source ?e \<in> y_id ` set results"
    using r by (force simp: runnable_def topo_before_def)
  moreover have "cid \<notin> y_id ` set results" using r order by (auto simp: runnable_def)
  moreover have "(if e_source ?e \<in> y_id ` set results \<and> e_target ?e \<notin> y_id ` set results
      then \<exists>v. k_buffer (conns ! i) = [v] \<and> carries net results ?e v else k_buffer (conns ! i) = [])"
    using fs i' len by (simp add: flow_state_def in_flight_def list_all2_conv_all_nth)
  ultimately show ?thesis using tgt i' by simp
qed

lemma flow_fill:
  assumes r: "runnable net order" and fs: "flow_state net order results (cid # cids) conns"
    and c: "lookup net cid = Some c"
  shows "\<exists>conns' args. foldR (take_packet cid) (incoming cid conns) (conns, dupdate (c_args c) (iips_of net cid)) =
      Inr (conns', args) \<and> dataflow_args net results cid c args \<and> length conns' = length conns \<and>
      (\<forall>j < length conns. conns' ! j = (if k_target (conns ! j) = cid then (conns ! j)\<lparr>k_buffer := []\<rparr> else conns ! j))"
proof -
  let ?is = "incoming cid conns" and ?v = "\<lambda>i. hd (k_buffer (conns ! i))"
  have inf: "in_flight net results conns" using fs by (simp add: flow_state_def)
  have "\<forall>i \<in> set ?is. i < length conns \<and> k_buffer (conns ! i) = [?v i]"
    using flow_incoming [OF r fs] by force
  from foldR_take_packet [OF distinct_incoming(1) this, of cid "dupdate (c_args c) (iips_of net cid)"]
  obtain conns' where run: "foldR (take_packet cid) ?is (conns, dupdate (c_args c) (iips_of net cid)) =
      Inr (conns', dupdate (dupdate (c_args c) (iips_of net cid)) (map (\<lambda>i. (k_target_port (conns ! i), ?v i)) ?is))"
    "length conns' = length conns"
    "\<forall>j < length conns. conns' ! j = (if j \<in> set ?is then (conns ! j)\<lparr>k_buffer := []\<rparr> else conns ! j)"
    by auto
  have "list_all2 (carries net results) (edges_into net cid) (map ?v ?is)"
    using flow_incoming [OF r fs]
    by (force simp: incoming_edges [OF inf, symmetric] list_all2_map1 list_all2_map2
        intro!: list.rel_refl_strong)
  moreover have "map (\<lambda>i. (k_target_port (conns ! i), ?v i)) ?is =
      zip (map e_target_arg (edges_into net cid)) (map ?v ?is)"
    using in_flight_link [OF inf]
    by (auto simp: incoming_edges [OF inf, symmetric] zip_map_map zip_same_conv_map set_incoming link_def comp_def)
  ultimately have "dataflow_args net results cid c
      (dupdate (dupdate (c_args c) (iips_of net cid)) (map (\<lambda>i. (k_target_port (conns ! i), ?v i)) ?is))"
    by (auto simp: dataflow_args_def)
  then show ?thesis using run by (auto simp: set_incoming)
qed

lemma flow_emit:
  assumes r: "runnable net order" and fs: "flow_state net order results (cid # cids) conns"
    and c: "lookup net cid = Some c" and len: "length conns1 = length conns"
    and cleared: "\<forall>j < length conns. conns1 ! j =
      (if k_target (conns ! j) = cid then (conns ! j)\<lparr>k_buffer := []\<rparr> else conns ! j)"
    and rec: "y_id y = cid" "y_value y = out"
  shows "(\<exists>e. foldR (emit_packet net c cid out) (outgoing cid conns1) conns1 = Inl (Fail e) \<and> packet_fault e) \<or>
    (\<exists>conns2. foldR (emit_packet net c cid out) (outgoing cid conns1) conns1 = Inr conns2 \<and>
       flow_state net order (results @ [y]) cids conns2)"
proof -
  let ?es = "n_edges net" and ?ran = "y_id ` set results"
  have inf: "in_flight net results conns" and order: "order = map y_id results @ cid # cids"
    using fs by (auto simp: flow_state_def)
  have nE: "length conns = length ?es" using inf by (rule in_flight_length)
  have new: "cid \<notin> ?ran" using r order by (auto simp: runnable_def)
  have buf: "link (?es ! j) (conns ! j) \<and>
      (if e_source (?es ! j) \<in> ?ran \<and> e_target (?es ! j) \<notin> ?ran
       then \<exists>v. k_buffer (conns ! j) = [v] \<and> carries net results (?es ! j) v else k_buffer (conns ! j) = [])"
    if "j < length conns" for j
    using inf that nE by (simp add: in_flight_def list_all2_conv_all_nth)
  have link1: "link (?es ! j) (conns1 ! j)" if "j < length conns" for j
    using buf [OF that] cleared that by (simp add: link_def)
  have ok: "edge_ok net (?es ! j)" if "j < length conns" for j
    using r that nE by (simp add: runnable_def)
  have send: "j < length conns1 \<and> sendable net (conns1 ! j)" if j: "j \<in> set (outgoing cid conns1)" for j
  proof -
    have j: "j < length conns" "e_source (?es ! j) = cid"
      using j link1 len by (auto simp: set_outgoing link_def)
    then have "k_buffer (conns ! j) = []" using buf [OF j(1)] new by auto
    then show ?thesis
      using ok [OF j(1)] link1 [OF j(1)] cleared j len by (auto simp: sendable_def edge_ok_def link_def)
  qed
  have later: "e_target (?es ! j) \<notin> insert cid ?ran" if j: "j < length conns" "e_source (?es ! j) = cid" for j
  proof
    assume "e_target (?es ! j) \<in> insert cid ?ran"
    then obtain xs ys where x: "map y_id results @ [cid] = xs @ e_target (?es ! j) # ys"
      by (metis image_set insert_is_Un set_append set_simps(1) list.simps(15) split_list sup_commute Un_commute)
    then have "order = xs @ e_target (?es ! j) # ys @ cids" using order by simp
    moreover have "(cid, e_target (?es ! j)) \<in> set (edge_pairs net)"
      using j nE by (force simp: edge_pairs_def)
    ultimately have "cid \<in> set xs" using r by (auto simp: runnable_def topo_before_def)
    then have "xs = map y_id results @ [cid] \<or> cid \<in> ?ran"
      using x by (cases ys rule: rev_cases) (auto simp: append_eq_append_conv2 Cons_eq_append_conv dest!: arg_cong [of _ _ set])
    then show False using x new by auto
  qed
  have "wf_keys net" using r by (simp add: runnable_def)
  moreover have "\<forall>j \<in> set (outgoing cid conns1). j < length conns1 \<and> sendable net (conns1 ! j)"
    using send by blast
  ultimately consider (fault) e where
      "foldR (emit_packet net c cid out) (outgoing cid conns1) conns1 = Inl (Fail e)" "packet_fault e"
    | (sent) conns2 where "foldR (emit_packet net c cid out) (outgoing cid conns1) conns1 = Inr conns2"
      "length conns2 = length conns1"
      "\<forall>j < length conns1. if j \<in> set (outgoing cid conns1) then loaded net c cid out (conns1 ! j) (conns2 ! j)
         else conns2 ! j = conns1 ! j"
    using foldR_emit_packet [of "outgoing cid conns1" net conns1 c cid out] by auto
  then show ?thesis
  proof cases
    case sent
    have "link (?es ! j) (conns2 ! j) \<and>
        (if e_source (?es ! j) \<in> insert cid ?ran \<and> e_target (?es ! j) \<notin> insert cid ?ran
         then \<exists>v. k_buffer (conns2 ! j) = [v] \<and> carries net (results @ [y]) (?es ! j) v
         else k_buffer (conns2 ! j) = [])" if j: "j < length conns" for j
    proof (cases "e_source (?es ! j) = cid")
      case True
      then have "j \<in> set (outgoing cid conns1)" using link1 [OF j] j len by (simp add: set_outgoing link_def)
      then have "loaded net c cid out (conns1 ! j) (conns2 ! j)" using sent(3) j len by simp
      then show ?thesis
        using True later [OF j True] link1 [OF j] c rec by (fastforce simp: loaded_def link_def carries_def)
    next
      case False
      then have same: "conns2 ! j = conns1 ! j"
        using sent(3) j len link1 [OF j] by (auto simp: set_outgoing link_def)
      show ?thesis
      proof (cases "e_target (?es ! j) = cid")
        case True
        then show ?thesis using same cleared j link1 [OF j] buf [OF j] by (auto simp: link_def)
      next
        case noti: False
        then show ?thesis
          using same cleared j link1 [OF j] buf [OF j] False
          by (clarsimp simp: link_def split: if_splits) (metis carries_snoc)
      qed
    qed
    then have "in_flight net (results @ [y]) conns2"
      using nE len sent(2) rec by (simp add: in_flight_def list_all2_conv_all_nth)
    then show ?thesis using sent(1) order rec by (simp add: flow_state_def)
  qed blast
qed

text \<open>One turn either ends the run in an admissible way or reaches the state of the next turn;
  a missing packet, a full connection or an exception is never among its ends.\<close>

definition turn_result :: "'d driver \<Rightarrow> network \<Rightarrow> string list \<Rightarrow> string \<Rightarrow> string list \<Rightarrow> component \<Rightarrow> 'd \<Rightarrow>
    step_result list \<Rightarrow> 'd \<times> step_result list \<times> (stop + connection list) \<Rightarrow> bool" where
  "turn_result drv net order cid cids c d results out \<longleftrightarrow>
     (\<exists>args d'. dataflow_args net results cid c args \<and>
       ((\<exists>msg. drv d (c_task c) args (c_verifier c) (c_child c) = (d', Inl msg) \<and>
           out = (d', results, Inl (Fail (Component_Raised cid (c_task c) msg)))) \<or>
        (\<exists>resp. drv d (c_task c) args (c_verifier c) (c_child c) = (d', Inr resp) \<and>
           (let y = step_record (length results) c cid resp in
             (\<not> p_verified resp \<and> out = (d', results @ [y], Inl (Unverified y))) \<or>
             (p_verified resp \<and> ((\<exists>e. out = (d', results @ [y], Inl (Fail e)) \<and> packet_fault e) \<or>
               (\<exists>conns. out = (d', results @ [y], Inr conns) \<and>
                  flow_state net order (results @ [y]) cids conns)))))))"

lemma flow_step_turn:
  assumes r: "runnable net order" and fs: "flow_state net order results (cid # cids) conns"
    and c: "lookup net cid = Some c"
  shows "turn_result drv net order cid cids c d results (flow_step drv net (length results) cid d conns results)"
proof -
  have tab: "dget (component_table net) cid = Some c"
    using r c by (simp add: runnable_def component_table_lookup)
  from flow_fill [OF r fs c] obtain conns1 args where fill:
    "foldR (take_packet cid) (incoming cid conns) (conns, dupdate (c_args c) (iips_of net cid)) = Inr (conns1, args)"
    "dataflow_args net results cid c args" "length conns1 = length conns"
    "\<forall>j < length conns. conns1 ! j = (if k_target (conns ! j) = cid then (conns ! j)\<lparr>k_buffer := []\<rparr> else conns ! j)"
    by blast
  obtain d' o' where call: "drv d (c_task c) args (c_verifier c) (c_child c) = (d', o')" by force
  show ?thesis
  proof (cases o')
    case (Inl msg)
    then show ?thesis using fill(2) call by (auto simp: turn_result_def flow_step_def tab fill(1))
  next
    case (Inr resp)
    let ?y = "step_record (length results) c cid resp"
    have "y_id ?y = cid" "y_value ?y = p_value resp" by (simp_all add: step_record_def)
    from flow_emit [OF r fs c fill(3,4) this] show ?thesis
      using fill(2) call Inr
      by (cases "p_verified resp") (force simp: turn_result_def flow_step_def tab fill(1) Let_def)+
  qed
qed

section \<open>A run and its outcome\<close>

inductive flow_outcome :: "'d driver \<Rightarrow> network \<Rightarrow> string list \<Rightarrow> 'd \<Rightarrow> 'd \<Rightarrow> report \<Rightarrow> bool"
  for drv net order d0 where
  complete: "dataflow drv net d0 rs d \<Longrightarrow> map y_id rs = order \<Longrightarrow>
    flow_outcome drv net order d0 d (ok_report rs)"
| raised: "dataflow drv net d0 rs d \<Longrightarrow> order = map y_id rs @ cid # cids \<Longrightarrow> lookup net cid = Some c \<Longrightarrow>
    dataflow_args net rs cid c args \<Longrightarrow> drv d (c_task c) args (c_verifier c) (c_child c) = (d', Inl msg) \<Longrightarrow>
    flow_outcome drv net order d0 d' (fail_report rs (length rs) (Component_Raised cid (c_task c) msg))"
| unverified: "dataflow drv net d0 rs d \<Longrightarrow> order = map y_id rs @ cid # cids \<Longrightarrow> lookup net cid = Some c \<Longrightarrow>
    dataflow_args net rs cid c args \<Longrightarrow> drv d (c_task c) args (c_verifier c) (c_child c) = (d', Inr resp) \<Longrightarrow>
    \<not> p_verified resp \<Longrightarrow> y = step_record (length rs) c cid resp \<Longrightarrow>
    flow_outcome drv net order d0 d' (unverified_report (rs @ [y]) (length rs) y)"
| bad_packet: "dataflow drv net d0 rs d \<Longrightarrow> map y_id rs @ cids = order \<Longrightarrow> rs \<noteq> [] \<Longrightarrow> packet_fault e \<Longrightarrow>
    flow_outcome drv net order d0 d (fail_report rs (length rs - 1) e)"

lemma flow_loop_outcome:
  assumes "runnable net order" "flow_state net order results cids conns" "dataflow drv net d0 results d"
  shows "\<exists>d' rep. flow_loop drv net (length results) cids d conns results = (d', Inr rep) \<and>
    flow_outcome drv net order d0 d' rep"
  using assms(2,3)
proof (induction cids arbitrary: d conns results)
  case Nil
  then show ?case by (auto simp: flow_state_def intro: flow_outcome.complete)
next
  case (Cons cid cids)
  have order: "order = map y_id results @ cid # cids" using Cons.prems by (simp add: flow_state_def)
  then have "cid \<in> set (component_ids net)" using assms(1) by (auto simp: runnable_def)
  then obtain c where c: "lookup net cid = Some c" using lookup_None_iff [of net cid] by auto
  from flow_step_turn [OF assms(1) Cons.prems(1) c, of drv d] obtain args d' where
    args: "dataflow_args net results cid c args"
    and turn: "(\<exists>msg. drv d (c_task c) args (c_verifier c) (c_child c) = (d', Inl msg) \<and>
           flow_step drv net (length results) cid d conns results =
             (d', results, Inl (Fail (Component_Raised cid (c_task c) msg)))) \<or>
        (\<exists>resp. drv d (c_task c) args (c_verifier c) (c_child c) = (d', Inr resp) \<and>
           (let y = step_record (length results) c cid resp in
             (\<not> p_verified resp \<and> flow_step drv net (length results) cid d conns results =
                (d', results @ [y], Inl (Unverified y))) \<or>
             (p_verified resp \<and> ((\<exists>e. flow_step drv net (length results) cid d conns results =
                 (d', results @ [y], Inl (Fail e)) \<and> packet_fault e) \<or>
               (\<exists>conns'. flow_step drv net (length results) cid d conns results = (d', results @ [y], Inr conns') \<and>
                  flow_state net order (results @ [y]) cids conns')))))"
    unfolding turn_result_def by blast
  from turn show ?case
  proof (elim disjE exE conjE)
    fix msg assume "drv d (c_task c) args (c_verifier c) (c_child c) = (d', Inl msg)"
      "flow_step drv net (length results) cid d conns results =
        (d', results, Inl (Fail (Component_Raised cid (c_task c) msg)))"
    then show ?thesis
      using flow_outcome.raised [OF Cons.prems(2) order c args] by (simp add: finish_def)
  next
    fix resp let ?y = "step_record (length results) c cid resp"
    assume call: "drv d (c_task c) args (c_verifier c) (c_child c) = (d', Inr resp)"
      and res: "let y = ?y in
        (\<not> p_verified resp \<and> flow_step drv net (length results) cid d conns results =
           (d', results @ [y], Inl (Unverified y))) \<or>
        (p_verified resp \<and> ((\<exists>e. flow_step drv net (length results) cid d conns results =
            (d', results @ [y], Inl (Fail e)) \<and> packet_fault e) \<or>
          (\<exists>conns'. flow_step drv net (length results) cid d conns results = (d', results @ [y], Inr conns') \<and>
             flow_state net order (results @ [y]) cids conns')))"
    have nxt: "dataflow drv net d0 (results @ [?y]) d'" if "p_verified resp"
      by (rule dataflow.step [OF Cons.prems(2) c args call that])
    from res consider (unv) "\<not> p_verified resp" "flow_step drv net (length results) cid d conns results =
           (d', results @ [?y], Inl (Unverified ?y))"
      | (bad) e where "p_verified resp" "packet_fault e" "flow_step drv net (length results) cid d conns results =
           (d', results @ [?y], Inl (Fail e))"
      | (go) conns' where "p_verified resp" "flow_state net order (results @ [?y]) cids conns'"
          "flow_step drv net (length results) cid d conns results = (d', results @ [?y], Inr conns')"
      by (auto simp: Let_def)
    then show ?thesis
    proof cases
      case unv
      then show ?thesis
        using flow_outcome.unverified [OF Cons.prems(2) order c args call] by (simp add: finish_def)
    next
      case bad
      have "map y_id (results @ [?y]) @ cids = order" by (simp add: order step_record_def)
      from flow_outcome.bad_packet [OF nxt this _ bad(2)] bad show ?thesis by (simp add: finish_def)
    next
      case go
      then show ?thesis using Cons.IH [OF go(2) nxt] by simp
    qed
  qed
qed

section \<open>Admission to a run\<close>

definition port_mode_edge :: "network \<Rightarrow> edge \<Rightarrow> bool" where
  "port_mode_edge net e \<longleftrightarrow>
     (case lookup net (e_source e) of None \<Rightarrow> False | Some s \<Rightarrow>
       (case lookup net (e_target e) of None \<Rightarrow> False | Some t \<Rightarrow>
          e_source_field e \<in> set (ports_of s ''out'') \<and> e_target_arg e \<in> set (ports_of t ''in'')))"

definition port_mode_ok :: "network \<Rightarrow> bool" where
  "port_mode_ok net \<longleftrightarrow> (\<forall>e \<in> set (n_edges net). port_mode_edge net e)"

lemma admit_runnable: "wf_keys net \<Longrightarrow> admit net step_limit = Inr order \<Longrightarrow> runnable net order"
  using admit_order [of net step_limit order] by (simp add: runnable_def)

definition rejection :: "flow_error \<Rightarrow> bool" where
  "rejection e \<longleftrightarrow> (\<exists>x. e = Bad_Network x) \<or> (\<exists>n. e = Bad_Step_Limit n) \<or>
     (\<exists>m n. e = Too_Many_Components m n) \<or> (\<exists>a b. e = Undeclared_Out a b \<or> e = Undeclared_In a b)"

lemma admit_rejection: "admit net step_limit = Inl e \<Longrightarrow> rejection e"
  by (auto simp: admit_def result_simps rejection_def)

lemma check_port_mode_cases:
  assumes "wf_keys net" "edge_ok net e"
  shows "check_port_mode net e = Inr () \<and> port_mode_edge net e \<or>
    (\<exists>err. check_port_mode net e = Inl (Fail err) \<and> rejection err) \<and> \<not> port_mode_edge net e"
  using assms
  by (auto simp: check_port_mode_def component_table_lookup edge_ok_def port_mode_edge_def rejectR_def rejection_def)

lemma check_port_mode_all:
  assumes "wf_keys net" "\<forall>e \<in> set es. edge_ok net e"
  shows "(\<forall>e \<in> set es. port_mode_edge net e) \<and> iterR (check_port_mode net) es = Inr () \<or>
    \<not> (\<forall>e \<in> set es. port_mode_edge net e) \<and>
    (\<exists>err. iterR (check_port_mode net) es = Inl (Fail err) \<and> rejection err)"
  using assms(2)
proof (induction es)
  case (Cons e es)
  then show ?case using check_port_mode_cases [OF assms(1), of e] by auto
qed simp

lemma mapR_new_connection:
  assumes "\<forall>e \<in> set es. edge_ok net e"
  shows "\<exists>conns. mapR new_connection es = Inr conns \<and> list_all2 (\<lambda>e c. link e c \<and> k_buffer c = []) es conns"
proof -
  let ?k = "\<lambda>e. \<lparr>k_source = e_source e, k_source_port = e_source_field e, k_target = e_target e,
             k_target_port = e_target_arg e, k_capacity = e_capacity e, k_buffer = []\<rparr>"
  have "mapR new_connection es = Inr (map ?k es)"
    by (rule mapR_map_Inr) (use assms in \<open>auto simp: new_connection_def edge_ok_def\<close>)
  moreover have "list_all2 (\<lambda>e c. link e c \<and> k_buffer c = []) es (map ?k es)"
    by (simp add: list_all2_conv_all_nth link_def)
  ultimately show ?thesis by blast
qed

definition admitted :: "network \<Rightarrow> int option \<Rightarrow> bool" where
  "admitted net step_limit \<longleftrightarrow> isOk (admit net step_limit) \<and> port_mode_ok net"

lemma run_flow_cases:
  assumes wf: "wf_keys net"
  shows "(\<not> admitted net step_limit \<and> (\<exists>e. run_flow drv net step_limit d = (d, Inr (fail_report [] 0 e)) \<and>
        rejection e)) \<or>
    (\<exists>order d' rep. admitted net step_limit \<and> admit net step_limit = Inr order \<and>
       run_flow drv net step_limit d = (d', Inr rep) \<and> flow_outcome drv net order d d' rep)"
proof (cases "admit net step_limit")
  case (Inl e)
  then show ?thesis by (auto simp: run_flow_def admitted_def intro: admit_rejection)
next
  case (Inr order)
  have r: "runnable net order" by (rule admit_runnable [OF wf Inr])
  then have ok: "\<forall>e \<in> set (n_edges net). edge_ok net e" by (simp add: runnable_def)
  show ?thesis
  proof (cases "port_mode_ok net")
    case False
    then obtain err where "iterR (check_port_mode net) (n_edges net) = Inl (Fail err)" "rejection err"
      using check_port_mode_all [OF wf ok] port_mode_ok_def [of net] by blast
    then show ?thesis using False by (auto simp: run_flow_def Inr admitted_def finish_def)
  next
    case True
    then have pm: "iterR (check_port_mode net) (n_edges net) = Inr ()"
      using check_port_mode_all [OF wf ok] port_mode_ok_def [of net] by blast
    obtain conns where conns: "mapR new_connection (n_edges net) = Inr conns"
      "list_all2 (\<lambda>e c. link e c \<and> k_buffer c = []) (n_edges net) conns"
      using mapR_new_connection [OF ok] by blast
    have "flow_state net order [] order conns"
      using conns(2) by (simp add: flow_state_def in_flight_def)
    from flow_loop_outcome [OF r this dataflow.start, of drv d] obtain d' rep where
      "flow_loop drv net 0 order d conns [] = (d', Inr rep)" "flow_outcome drv net order d d' rep" by auto
    then show ?thesis using True by (simp add: run_flow_def Inr admitted_def pm conns(1))
  qed
qed

end
