(* ===== verification/Py_Values.thy ===== *)
theory Py_Values
  imports Canonical_Json
begin

text \<open>
  The operations of Python on dynamic values that the parsers use: \<open>str\<close> and \<open>repr\<close>,
  truthiness, iteration, and access to a mapping by key. Floats are the text that
  \<open>json\<close> writes for them, so only their special values print differently under \<open>str\<close>.
\<close>

section \<open>Text of a value\<close>

definition repr_char :: "char \<Rightarrow> char \<Rightarrow> string" where
  "repr_char q c =
     (if c = q \<or> c = bslash_c then [bslash_c, c]
      else if code c = 10 then [bslash_c, CHR ''n'']
      else if code c = 13 then [bslash_c, CHR ''r'']
      else if code c = 9 then [bslash_c, CHR ''t'']
      else if code c < 32 \<or> (127 \<le> code c \<and> code c < 161) \<or> code c = 173
        then [bslash_c, CHR ''x'', digit_char (code c div 16), digit_char (code c mod 16)]
      else [c])"

definition squote_c :: char where "squote_c = CHR 0x27"

definition repr_str :: "string \<Rightarrow> string" where
  "repr_str s =
     (let q = (if squote_c \<in> set s \<and> quote_c \<notin> set s then quote_c else squote_c)
      in q # concat (map (repr_char q) s) @ [q])"

fun commas :: "string list \<Rightarrow> string" where
  "commas [] = []"
| "commas [s] = s"
| "commas (s # t # ts) = s @ '', '' @ commas (t # ts)"

fun py_repr :: "pyval \<Rightarrow> string" where
  "py_repr PNone = ''None''"
| "py_repr (PBool b) = (if b then ''True'' else ''False'')"
| "py_repr (PInt i) = show_int i"
| "py_repr (PFloat t) = (if t = ''NaN'' then ''nan'' else if t = ''Infinity'' then ''inf''
     else if t = ''-Infinity'' then ''-inf'' else t)"
| "py_repr (PStr s) = repr_str s"
| "py_repr (PList vs) = CHR ''['' # commas (map py_repr vs) @ '']''"
| "py_repr (PDict kvs) =
     CHR ''{'' # commas (map (\<lambda>kv. repr_str (fst kv) @ '': '' @ py_repr (snd kv)) kvs) @ ''}''"

definition py_str :: "pyval \<Rightarrow> string" where
  "py_str v = (case v of PStr s \<Rightarrow> s | _ \<Rightarrow> py_repr v)"

lemma py_str_PStr [simp]: "py_str (PStr s) = s"
  by (simp add: py_str_def)

section \<open>Truth, iteration, access\<close>

definition truthy :: "pyval \<Rightarrow> bool" where
  "truthy v =
     (case v of PNone \<Rightarrow> False | PBool b \<Rightarrow> b | PInt i \<Rightarrow> i \<noteq> 0
      | PFloat t \<Rightarrow> t \<noteq> ''0.0'' \<and> t \<noteq> ''-0.0'' | PStr s \<Rightarrow> s \<noteq> [] | PList vs \<Rightarrow> vs \<noteq> [] | PDict kvs \<Rightarrow> kvs \<noteq> [])"

text \<open>\<open>iter(value)\<close>: a string yields its characters, a mapping its keys, a list its elements.\<close>

definition iter_values :: "pyval \<Rightarrow> pyval list option" where
  "iter_values v =
     (case v of
        PStr s \<Rightarrow> Some (map (\<lambda>c. PStr [c]) s)
      | PList vs \<Rightarrow> Some vs
      | PDict kvs \<Rightarrow> Some (map (\<lambda>kv. PStr (fst kv)) kvs)
      | _ \<Rightarrow> None)"

datatype py_error = Missing_Key string | Type_Error | Attribute_Error | Value_Error | Overflow_Error

text \<open>\<open>v[key]\<close> and \<open>v.get(key, default)\<close>.\<close>

definition subscript :: "pyval \<Rightarrow> string \<Rightarrow> py_error + pyval" where
  "subscript v key =
     (case v of PDict kvs \<Rightarrow> (case dget kvs key of None \<Rightarrow> Inl (Missing_Key key) | Some w \<Rightarrow> Inr w)
      | _ \<Rightarrow> Inl Type_Error)"

definition get_or :: "pyval \<Rightarrow> string \<Rightarrow> pyval \<Rightarrow> py_error + pyval" where
  "get_or v key dflt =
     (case v of PDict kvs \<Rightarrow> Inr (dget_or kvs key dflt) | _ \<Rightarrow> Inl Attribute_Error)"

text \<open>\<open>tuple(str(x) for x in v)\<close>.\<close>

definition str_tuple :: "pyval \<Rightarrow> py_error + string list" where
  "str_tuple v = (case iter_values v of None \<Rightarrow> Inl Type_Error | Some vs \<Rightarrow> Inr (map py_str vs))"

definition PStrs :: "string list \<Rightarrow> pyval" where
  "PStrs ss = PList (map PStr ss)"

lemma str_tuple_PStrs [simp]: "str_tuple (PStrs ss) = Inr ss"
  by (simp add: str_tuple_def PStrs_def iter_values_def comp_def)

lemma wf_PStrs [simp]: "wf_pyval (PStrs ss)"
  by (simp add: PStrs_def list_all_iff)

lemma PStrs_eq_iff [simp]: "PStrs ss = PStrs ts \<longleftrightarrow> ss = ts"
  by (auto simp: PStrs_def inj_map_eq_map inj_def)

lemma json_norm_PStrs [simp]: "json_norm (PStrs ss) = PStrs ss"
  by (simp add: PStrs_def)

lemma subscript_PDict [simp]:
  "subscript (PDict kvs) key = (case dget kvs key of None \<Rightarrow> Inl (Missing_Key key) | Some w \<Rightarrow> Inr w)"
  by (simp add: subscript_def)

lemma get_or_PDict [simp]: "get_or (PDict kvs) key dflt = Inr (dget_or kvs key dflt)"
  by (simp add: get_or_def)

section \<open>Equality\<close>

text \<open>Python's \<open>==\<close> identifies numbers across their types: \<open>1 == True == 1.0\<close>. The integer that
  the double written \<open>t\<close> equals is the decimal rounded to 53 bits (half to even); a shortest
  representation that is no integer stands for no integer.\<close>

fun bit_length :: "nat \<Rightarrow> nat" where
  "bit_length n = (if n = 0 then 0 else Suc (bit_length (n div 2)))"

declare bit_length.simps [simp del]

definition round53 :: "nat \<Rightarrow> nat" where
  "round53 m =
     (if m < 2 ^ 53 then m
      else let k = bit_length m - 53; q = m div 2 ^ k; r = m mod 2 ^ k; half = 2 ^ (k - 1)
        in (if half < r \<or> (r = half \<and> odd q) then q + 1 else q) * 2 ^ k)"

definition decimal_parts :: "string \<Rightarrow> nat \<times> int" where
  "decimal_parts t =
     (let body = takeWhile (\<lambda>c. c \<noteq> CHR ''e'') t; ex = tl (dropWhile (\<lambda>c. c \<noteq> CHR ''e'') t);
          ip = takeWhile (\<lambda>c. c \<noteq> CHR ''.'') body; fp = tl (dropWhile (\<lambda>c. c \<noteq> CHR ''.'') body);
          e = (case ex of [] \<Rightarrow> 0 | c # r \<Rightarrow> if c = CHR ''+'' then int (read_nat r) else read_int ex)
      in (read_nat (ip @ fp), e - int (length fp)))"

definition float_int :: "string \<Rightarrow> int option" where
  "float_int t =
     (if t \<in> {''NaN'', ''Infinity'', ''-Infinity''} then None
      else let neg = (case t of c # _ \<Rightarrow> c = CHR ''-'' | [] \<Rightarrow> False); u = (if neg then tl t else t);
               n = fst (decimal_parts u); e = snd (decimal_parts u);
               m = (if 0 \<le> e then Some (n * 10 ^ nat e)
                    else if n mod 10 ^ nat (- e) = 0 then Some (n div 10 ^ nat (- e)) else None)
           in map_option (\<lambda>m. if neg then - int (round53 m) else int (round53 m)) m)"

definition number :: "pyval \<Rightarrow> int option" where
  "number v = (case v of PBool b \<Rightarrow> Some (if b then 1 else 0) | PInt i \<Rightarrow> Some i | PFloat t \<Rightarrow> float_int t | _ \<Rightarrow> None)"

definition scalar_eq :: "pyval \<Rightarrow> pyval \<Rightarrow> bool" where
  "scalar_eq v w \<longleftrightarrow> (v = w \<and> v \<noteq> PFloat ''NaN'') \<or> (number v \<noteq> None \<and> number v = number w)"

function py_eq :: "pyval \<Rightarrow> pyval \<Rightarrow> bool" where
  "py_eq (PList vs) w =
     (case w of PList ws \<Rightarrow> length vs = length ws \<and> list_all (\<lambda>p. py_eq (fst p) (snd p)) (zip vs ws) | _ \<Rightarrow> False)"
| "py_eq (PDict kvs) w =
     (case w of PDict kws \<Rightarrow> length kvs = length kws \<and>
         list_all (\<lambda>kv. case dget kws (fst kv) of None \<Rightarrow> False | Some u \<Rightarrow> py_eq (snd kv) u) kvs | _ \<Rightarrow> False)"
| "py_eq PNone w = scalar_eq PNone w"
| "py_eq (PBool b) w = scalar_eq (PBool b) w"
| "py_eq (PInt i) w = scalar_eq (PInt i) w"
| "py_eq (PFloat t) w = scalar_eq (PFloat t) w"
| "py_eq (PStr s) w = scalar_eq (PStr s) w"
  by pat_completeness auto
termination
proof (relation "measure (\<lambda>(v, _). size v)")
  show "((fst p, snd p), PList vs, w) \<in> measure (\<lambda>(v, _). size v)"
    if "w = PList ws" "p \<in> set (zip vs ws)" for vs w ws p
  proof -
    have "fst p \<in> set vs" using that(2) by (metis prod.collapse set_zip_leftD)
    then show ?thesis using size_list_estimation' [of "fst p" vs "size (fst p)" size] by (simp add: split_beta)
  qed
  show "((snd kv, u), PDict kvs, w) \<in> measure (\<lambda>(v, _). size v)"
    if "w = PDict kws" "kv \<in> set kvs" "dget kws (fst kv) = Some u" for kvs w kws kv u
  proof -
    have "size (snd kv) \<le> (case kv of (k, v) \<Rightarrow> size v)" by (cases kv) simp
    then show ?thesis
      using size_list_estimation' [of kv kvs "size (snd kv)" "size_prod (\<lambda>_. 0) size"] that(2)
      by (cases kv) (simp add: less_Suc_eq_le)
  qed
qed simp

section \<open>Strings\<close>

text \<open>\<open>s.split(c)\<close> for one character, and \<open>s.startswith(p)\<close>.\<close>

fun split_on :: "char \<Rightarrow> string \<Rightarrow> string list" where
  "split_on c [] = [[]]"
| "split_on c (x # xs) = (case split_on c xs of [] \<Rightarrow> [] | p # ps \<Rightarrow> if x = c then [] # p # ps else (x # p) # ps)"

definition starts_with :: "string \<Rightarrow> string \<Rightarrow> bool" where
  "starts_with p s \<longleftrightarrow> take (length p) s = p"

section \<open>Conversions\<close>

definition py_space :: "char \<Rightarrow> bool" where
  "py_space c \<longleftrightarrow> (9 \<le> code c \<and> code c \<le> 13) \<or> (28 \<le> code c \<and> code c \<le> 32) \<or> code c = 133 \<or> code c = 160"

definition py_strip :: "string \<Rightarrow> string" where
  "py_strip s = rev (dropWhile py_space (rev (dropWhile py_space s)))"

text \<open>The digits of an integer literal, single underscores between them removed.\<close>

fun int_digits :: "string \<Rightarrow> string option" where
  "int_digits [] = None"
| "int_digits [c] = (if is_digit c then Some [c] else None)"
| "int_digits (c # d # r) =
     (if \<not> is_digit c then None
      else map_option ((#) c) (if d = CHR ''_'' then int_digits r else int_digits (d # r)))"

definition MAX_INT_DIGITS :: nat where "MAX_INT_DIGITS = 4300"

definition int_of_str :: "string \<Rightarrow> py_error + int" where
  "int_of_str s =
     (let t = py_strip s; neg = (case t of c # _ \<Rightarrow> c = CHR ''-'' | [] \<Rightarrow> False);
          u = (case t of c # r \<Rightarrow> if c = CHR ''-'' \<or> c = CHR ''+'' then r else t | [] \<Rightarrow> [])
      in (case int_digits u of
            None \<Rightarrow> Inl Value_Error
          | Some ds \<Rightarrow> if MAX_INT_DIGITS < length ds then Inl Value_Error
              else Inr (if neg then - int (read_nat ds) else int (read_nat ds))))"

definition float_trunc :: "string \<Rightarrow> int" where
  "float_trunc t =
     (let neg = (case t of c # _ \<Rightarrow> c = CHR ''-'' | [] \<Rightarrow> False); u = (if neg then tl t else t);
          n = fst (decimal_parts u); e = snd (decimal_parts u);
          m = int (round53 (if 0 \<le> e then n * 10 ^ nat e else n div 10 ^ nat (- e)))
      in if neg then - m else m)"

text \<open>\<open>int(v)\<close>.\<close>

definition py_int :: "pyval \<Rightarrow> py_error + int" where
  "py_int v =
     (case v of
        PBool b \<Rightarrow> Inr (if b then 1 else 0)
      | PInt i \<Rightarrow> Inr i
      | PFloat t \<Rightarrow> if t = ''NaN'' then Inl Value_Error
          else if t \<in> {''Infinity'', ''-Infinity''} then Inl Overflow_Error else Inr (float_trunc t)
      | PStr s \<Rightarrow> int_of_str s
      | _ \<Rightarrow> Inl Type_Error)"

lemma py_int_PInt [simp]: "py_int (PInt i) = Inr i"
  by (simp add: py_int_def)

text \<open>\<open>key in v\<close>: a key of a mapping, an element of a list, a substring of a string.\<close>

definition py_in :: "string \<Rightarrow> pyval \<Rightarrow> py_error + bool" where
  "py_in key v =
     (case v of
        PDict kvs \<Rightarrow> Inr (dget kvs key \<noteq> None)
      | PList vs \<Rightarrow> Inr (PStr key \<in> set vs)
      | PStr s \<Rightarrow> Inr (\<exists>i \<in> set [0..<Suc (length s)]. take (length key) (drop i s) = key)
      | _ \<Rightarrow> Inl Type_Error)"

lemma py_in_PDict [simp]: "py_in key (PDict kvs) = Inr (dget kvs key \<noteq> None)"
  by (simp add: py_in_def)

end
