(* ===== verification/Stream.thy ===== *)
theory Stream
  imports Flow Py_Values
begin

text \<open>
  \<open>cbp/stream.py\<close>: repeated activation over bounded connections. The connections are a list
  indexed as the sorted edges are; an emitter holds positions of that list, the elements its
  streams have yet to yield and the element in flight. The scheduler loop is a
  \<open>while_option\<close> over single turns, so that returning is a theorem and not a convention.
\<close>

section \<open>Emitters\<close>

type_synonym outbound = "(nat \<times> string) list"

record emitter =
  em_streams :: "(outbound \<times> pyval list) list"
  em_pending :: "(pyval \<times> outbound) option"

datatype status = Progress | Blocked | Done

fun send_pending ::
  "pyval \<Rightarrow> outbound \<Rightarrow> connection list \<Rightarrow> flow_error + outbound \<times> connection list" where
  "send_pending v [] conns = Inr ([], conns)"
| "send_pending v ((i, required) # rest) conns =
     (if is_full (conns ! i) then Inr ((i, required) # rest, conns)
      else if \<not> value_matches_type v required
        then Inl (Packet_Type (k_target (conns ! i)) (k_target_port (conns ! i)))
      else bindR (send v (conns ! i)) (\<lambda>c. send_pending v rest (conns[i := c])))"

fun pull :: "(outbound \<times> pyval list) list \<Rightarrow> ((pyval \<times> outbound) \<times> (outbound \<times> pyval list) list) option" where
  "pull [] = None"
| "pull ((cs, []) # streams) = pull streams"
| "pull ((cs, v # vs) # streams) = Some ((v, cs), (cs, vs) # streams)"

definition drain ::
  "(outbound \<times> pyval list) list \<Rightarrow> pyval \<times> outbound \<Rightarrow> connection list
    \<Rightarrow> flow_error + status \<times> emitter \<times> connection list" where
  "drain streams p conns =
     bindR (send_pending (fst p) (snd p) conns) (\<lambda>(rest, conns').
       Inr (if rest = [] then (Progress, \<lparr>em_streams = streams, em_pending = None\<rparr>, conns')
            else (Blocked, \<lparr>em_streams = streams, em_pending = Some (fst p, rest)\<rparr>, conns')))"

definition emitter_step ::
  "emitter \<Rightarrow> connection list \<Rightarrow> flow_error + status \<times> emitter \<times> connection list" where
  "emitter_step em conns =
     (case em_pending em of
        Some p \<Rightarrow> drain (em_streams em) p conns
      | None \<Rightarrow>
          (case pull (em_streams em) of
             None \<Rightarrow> Inr (Done, \<lparr>em_streams = [], em_pending = None\<rparr>, conns)
           | Some (p, streams) \<Rightarrow> drain streams p conns))"

text \<open>\<open>_build_emitter\<close>: one stream per wired out-port, in the order of the ports.\<close>

definition outbound_of :: "network \<Rightarrow> component \<Rightarrow> string \<Rightarrow> connection list \<Rightarrow> nat \<Rightarrow> stop + nat \<times> string" where
  "outbound_of net node port conns i =
     (case dget (component_table net) (k_target (conns ! i)) of
        None \<Rightarrow> Inl (Crash (Missing_Component (k_target (conns ! i))))
      | Some t \<Rightarrow> Inr (i, effective_port_type (port_type node ''out'' port)
                        (port_type t ''in'' (k_target_port (conns ! i)))))"

definition port_conns :: "string \<Rightarrow> string \<Rightarrow> connection list \<Rightarrow> nat list" where
  "port_conns cid port conns =
     sort_key (\<lambda>i. (k_target (conns ! i), k_target_port (conns ! i)))
       (filter (\<lambda>i. k_source (conns ! i) = cid \<and> k_source_port (conns ! i) = port) [0..<length conns])"

definition wired_out :: "string \<Rightarrow> connection list \<Rightarrow> string list" where
  "wired_out cid conns =
     usort (map (\<lambda>i. k_source_port (conns ! i)) (filter (\<lambda>i. k_source (conns ! i) = cid) [0..<length conns]))"

definition stream_items :: "component \<Rightarrow> string \<Rightarrow> string \<Rightarrow> pyval \<Rightarrow> flow_error + pyval list" where
  "stream_items node cid port v =
     (if port \<in> set (c_stream node)
      then (case iter_values v of None \<Rightarrow> Inl (Not_Iterable cid port) | Some vs \<Rightarrow> Inr vs)
      else Inr [v])"

definition build_port ::
  "network \<Rightarrow> component \<Rightarrow> string \<Rightarrow> pyval \<Rightarrow> connection list \<Rightarrow> string \<Rightarrow> stop + outbound \<times> pyval list" where
  "build_port net node cid out conns port =
     bindR (liftR Fail (extract_output out port (ports_of node ''out'') cid)) (\<lambda>v.
       bindR (mapR (outbound_of net node port conns) (port_conns cid port conns)) (\<lambda>cs.
         bindR (liftR Fail (stream_items node cid port v)) (\<lambda>vs. Inr (cs, vs))))"

definition build_emitter ::
  "network \<Rightarrow> component \<Rightarrow> string \<Rightarrow> pyval \<Rightarrow> connection list \<Rightarrow> stop + emitter" where
  "build_emitter net node cid out conns =
     bindR (mapR (build_port net node cid out conns) (wired_out cid conns))
       (\<lambda>streams. Inr \<lparr>em_streams = streams, em_pending = None\<rparr>)"

definition emitter_empty :: "emitter \<Rightarrow> bool" where
  "emitter_empty em \<longleftrightarrow> em_streams em = [] \<and> em_pending em = None"

section \<open>The scheduler\<close>

record 'd scheduler =
  g_driver :: 'd
  g_conns :: "connection list"
  g_results :: "step_result list"
  g_spent :: "string list"
  g_emitters :: "emitter dict"
  g_activations :: int
  g_sends :: int

definition edge_key :: "edge \<Rightarrow> string \<times> string \<times> string \<times> string" where
  "edge_key e = (e_source e, e_source_field e, e_target e, e_target_arg e)"

definition stream_edges :: "network \<Rightarrow> edge list" where
  "stream_edges net = sort_key edge_key (n_edges net)"

definition add_connection :: "edge \<Rightarrow> connection list \<Rightarrow> stop + connection list" where
  "add_connection e conns =
     bindR (liftR Crash (new_connection e)) (\<lambda>c.
       thenR (rejectR (\<exists>k \<in> set conns. k_target k = e_target e \<and> k_target_port k = e_target_arg e)
                (Fail (Two_Writers (e_target e) (e_target_arg e))))
         (Inr (conns @ [c])))"

definition wired_in :: "string \<Rightarrow> connection list \<Rightarrow> nat list" where
  "wired_in cid conns = filter (\<lambda>i. k_target (conns ! i) = cid) [0..<length conns]"

definition ports_ready :: "string \<Rightarrow> connection list \<Rightarrow> bool" where
  "ports_ready cid conns \<longleftrightarrow> (\<forall>i \<in> set (wired_in cid conns). \<not> is_empty (conns ! i))"

definition is_ready :: "'d scheduler \<Rightarrow> string \<Rightarrow> bool" where
  "is_ready g cid \<longleftrightarrow>
     dget (g_emitters g) cid = None \<and>
     (wired_in cid (g_conns g) = [] \<and> cid \<notin> set (g_spent g) \<or>
      wired_in cid (g_conns g) \<noteq> [] \<and> ports_ready cid (g_conns g))"

text \<open>The packets of one activation, received in the order of the in-ports.\<close>

definition receive_packets ::
  "string \<Rightarrow> connection list \<Rightarrow> pyval dict \<Rightarrow> stop + connection list \<times> pyval dict" where
  "receive_packets cid conns args =
     foldR (\<lambda>i (cs, as). bindR (liftR Crash (receive (cs ! i)))
         (\<lambda>(v, c). Inr (cs[i := c], dput (k_target_port (cs ! i)) v as)))
       (sort_key (\<lambda>i. k_target_port (conns ! i)) (wired_in cid conns)) (conns, args)"

text \<open>One activation: the state it leaves and, when it ends the run, how. The activation is counted
  before the limit is tested, and the limit before the driver is called.\<close>

definition activate ::
  "'d driver \<Rightarrow> network \<Rightarrow> int \<Rightarrow> string \<Rightarrow> 'd scheduler \<Rightarrow> 'd scheduler \<times> stop option" where
  "activate drv net limit cid g =
     (case dget (component_table net) cid of
        None \<Rightarrow> (g, Some (Crash (Missing_Component cid)))
      | Some node \<Rightarrow>
          (case receive_packets cid (g_conns g) (dupdate (c_args node) (iips_of net cid)) of
             Inl s \<Rightarrow> (g, Some s)
           | Inr (conns, args) \<Rightarrow>
               (let g1 = g\<lparr>g_conns := conns,
                     g_spent := (if wired_in cid (g_conns g) = [] then cid # g_spent g else g_spent g),
                     g_activations := g_activations g + 1\<rparr>
                in if g_activations g1 > limit then (g1, Some (Fail (Activation_Limit limit)))
                else (case drv (g_driver g) (c_task node) args (c_verifier node) (c_child node) of
                   (d, Inl msg) \<Rightarrow> (g1\<lparr>g_driver := d\<rparr>, Some (Fail (Component_Raised cid (c_task node) msg)))
                 | (d, Inr resp) \<Rightarrow>
                     (let r = step_record (length (g_results g)) node cid resp;
                          g2 = g1\<lparr>g_driver := d, g_results := g_results g @ [r]\<rparr>
                      in if \<not> p_verified resp then (g2, Some (Unverified r))
                      else (case build_emitter net node cid (p_value resp) conns of
                         Inl s \<Rightarrow> (g2, Some s)
                       | Inr em \<Rightarrow>
                           (if emitter_empty em then g2 else g2\<lparr>g_emitters := dput cid em (g_emitters g)\<rparr>,
                            None)))))))"

definition ddel :: "string \<Rightarrow> 'v dict \<Rightarrow> 'v dict" where
  "ddel k d = filter (\<lambda>kv. fst kv \<noteq> k) d"

text \<open>The producers in topological order: a blocked one is left suspended, the first that can move
  takes one step.\<close>

fun resume ::
  "int \<Rightarrow> string list \<Rightarrow> 'd scheduler \<Rightarrow> 'd scheduler \<times> stop option" where
  "resume limit [] g = (g, Some (Fail All_Blocked))"
| "resume limit (cid # cids) g =
     (case dget (g_emitters g) cid of
        None \<Rightarrow> (g, Some (Crash (Missing_Component cid)))
      | Some em \<Rightarrow>
          (case emitter_step em (g_conns g) of
             Inl e \<Rightarrow> (g, Some (Fail e))
           | Inr (Blocked, em', conns) \<Rightarrow>
               resume limit cids (g\<lparr>g_conns := conns, g_emitters := dput cid em' (g_emitters g)\<rparr>)
           | Inr (Done, _, conns) \<Rightarrow> (g\<lparr>g_conns := conns, g_emitters := ddel cid (g_emitters g)\<rparr>, None)
           | Inr (Progress, em', conns) \<Rightarrow>
               (let g' = g\<lparr>g_conns := conns, g_emitters := dput cid em' (g_emitters g), g_sends := g_sends g + 1\<rparr>
                in if g_sends g' > limit * MAX_CONNECTION_CAPACITY
                   then (g', Some (Fail (Send_Limit (limit * MAX_CONNECTION_CAPACITY))))
                   else (g', None))))"

definition topo_index :: "string list \<Rightarrow> string \<Rightarrow> nat" where
  "topo_index order cid = length (takeWhile (\<lambda>c. c \<noteq> cid) order)"

definition stream_turn ::
  "'d driver \<Rightarrow> network \<Rightarrow> int \<Rightarrow> string list \<Rightarrow> 'd scheduler \<Rightarrow> 'd scheduler \<times> stop option option" where
  "stream_turn drv net limit order g =
     (case filter (is_ready g) order of
        cid # _ \<Rightarrow> (case activate drv net limit cid g of (g', s) \<Rightarrow> (g', map_option Some s))
      | [] \<Rightarrow>
          if g_emitters g = [] then
            (g, Some (if \<exists>c \<in> set (g_conns g). \<not> is_empty c then Some (Fail Stranded_Packets) else None))
          else
            (case resume limit (sort_key (\<lambda>c. (topo_index order c, c)) (dkeys (g_emitters g))) g of
               (g', s) \<Rightarrow> (g', map_option Some s)))"

text \<open>The loop runs while no turn has ended the run: \<open>Some None\<close> is success.\<close>

definition stream_loop ::
  "'d driver \<Rightarrow> network \<Rightarrow> int \<Rightarrow> string list \<Rightarrow> 'd scheduler \<Rightarrow> ('d scheduler \<times> stop option option) option" where
  "stream_loop drv net limit order g =
     while_option (\<lambda>(g, s). s = None) (\<lambda>(g, s). stream_turn drv net limit order g) (g, None)"

definition stream_report :: "step_result list \<Rightarrow> stop option \<Rightarrow> flow_error + report" where
  "stream_report results s =
     (case s of None \<Rightarrow> Inr (ok_report results) | Some s \<Rightarrow> finish results (length results) s)"

definition check_stream_mode :: "network \<Rightarrow> edge \<Rightarrow> stop + unit" where
  "check_stream_mode net e =
     (case dget (component_table net) (e_source e) of
        None \<Rightarrow> Inl (Crash (Missing_Component (e_source e)))
      | Some src \<Rightarrow>
          thenR (rejectR (e_source_field e \<notin> set (ports_of src ''out''))
                   (Fail (Undeclared_Out (e_source e) (e_source_field e))))
            (case dget (component_table net) (e_target e) of
               None \<Rightarrow> Inl (Crash (Missing_Component (e_target e)))
             | Some dst \<Rightarrow> rejectR (e_target_arg e \<notin> set (ports_of dst ''in''))
                              (Fail (Undeclared_In (e_target e) (e_target_arg e)))))"

definition start_scheduler :: "'d \<Rightarrow> connection list \<Rightarrow> 'd scheduler" where
  "start_scheduler d conns = \<lparr>g_driver = d, g_conns = conns, g_results = [], g_spent = [],
     g_emitters = [], g_activations = 0, g_sends = 0\<rparr>"

definition run_stream ::
  "'d driver \<Rightarrow> network \<Rightarrow> int option \<Rightarrow> 'd \<Rightarrow> ('d \<times> (flow_error + report)) option" where
  "run_stream drv net step_limit d =
     (case admit net step_limit of
        Inl e \<Rightarrow> Some (d, Inr (fail_report [] 0 e))
      | Inr order \<Rightarrow>
          (case thenR (iterR (check_stream_mode net) (n_edges net)) (foldR add_connection (stream_edges net) []) of
             Inl s \<Rightarrow> Some (d, finish [] 0 s)
           | Inr conns \<Rightarrow>
               (case stream_loop drv net (run_limit step_limit) order (start_scheduler d conns) of
                  None \<Rightarrow> None
                | Some (g, s) \<Rightarrow>
                    Some (g_driver g, stream_report (g_results g) (case s of None \<Rightarrow> None | Some s' \<Rightarrow> s')))))"

end
