(* ===== verification/Stream_Inv.thy ===== *)
theory Stream_Inv
  imports Stream
begin

text \<open>
  The invariant of the streaming scheduler: for every edge the packets on its connection followed
  by those its producer has yet to send are exactly the packets emitted on the edge so far that
  its consumer has not been activated with. No packet is lost, duplicated or reordered.
\<close>

section \<open>Packets still to be sent\<close>

definition stream_rest :: "nat \<Rightarrow> outbound \<times> pyval list \<Rightarrow> pyval list" where
  "stream_rest j s = (if j \<in> fst ` set (fst s) then snd s else [])"

definition pending_rest :: "nat \<Rightarrow> (pyval \<times> outbound) option \<Rightarrow> pyval list" where
  "pending_rest j p = (case p of None \<Rightarrow> [] | Some (v, cs) \<Rightarrow> if j \<in> fst ` set cs then [v] else [])"

definition remaining :: "emitter \<Rightarrow> nat \<Rightarrow> pyval list" where
  "remaining em j = pending_rest j (em_pending em) @ concat (map (stream_rest j) (em_streams em))"

definition wire_type :: "network \<Rightarrow> edge \<Rightarrow> string" where
  "wire_type net e =
     (case lookup net (e_source e) of None \<Rightarrow> ''any'' | Some s \<Rightarrow>
       (case lookup net (e_target e) of None \<Rightarrow> ''any'' | Some t \<Rightarrow>
          effective_port_type (port_type s ''out'' (e_source_field e)) (port_type t ''in'' (e_target_arg e))))"

definition out_ok :: "network \<Rightarrow> edge list \<Rightarrow> string \<Rightarrow> outbound \<Rightarrow> bool" where
  "out_ok net es cid cs \<longleftrightarrow> distinct (map fst cs) \<and>
     (\<forall>(i, req) \<in> set cs. i < length es \<and> e_source (es ! i) = cid \<and> req = wire_type net (es ! i))"

definition em_ok :: "network \<Rightarrow> edge list \<Rightarrow> string \<Rightarrow> emitter \<Rightarrow> bool" where
  "em_ok net es cid em \<longleftrightarrow> (\<forall>s \<in> set (em_streams em). out_ok net es cid (fst s)) \<and>
     (case em_pending em of None \<Rightarrow> True | Some p \<Rightarrow> out_ok net es cid (snd p))"

lemma pull_remaining:
  "pull streams = Some (p, streams') \<Longrightarrow>
     concat (map (stream_rest j) streams) = pending_rest j (Some p) @ concat (map (stream_rest j) streams')"
  by (induction streams rule: pull.induct) (force simp: stream_rest_def pending_rest_def)+

lemma pull_None_remaining: "pull streams = None \<Longrightarrow> concat (map (stream_rest j) streams) = []"
  by (induction streams rule: pull.induct) (auto simp: stream_rest_def)

lemma pull_outbounds:
  "pull streams = Some (p, streams') \<Longrightarrow> \<forall>s \<in> set streams. Q (fst s) \<Longrightarrow>
     Q (snd p) \<and> (\<forall>s \<in> set streams'. Q (fst s))"
  by (induction streams rule: pull.induct) auto

text \<open>What a step of an emitter does to the connections.\<close>

definition moved :: "network \<Rightarrow> edge list \<Rightarrow> string \<Rightarrow> (nat \<Rightarrow> pyval list) \<Rightarrow> connection list \<Rightarrow>
    (nat \<Rightarrow> pyval list) \<Rightarrow> connection list \<Rightarrow> bool" where
  "moved net es cid rem conns rem' conns' \<longleftrightarrow> length conns' = length conns \<and>
     (\<forall>j < length conns. \<exists>vs. conns' ! j = (conns ! j)\<lparr>k_buffer := k_buffer (conns ! j) @ vs\<rparr> \<and>
        rem j = vs @ rem' j \<and> (vs \<noteq> [] \<longrightarrow> j < length es \<and> e_source (es ! j) = cid) \<and>
        (\<forall>v \<in> set vs. value_matches_type v (wire_type net (es ! j))) \<and>
        (int (length (k_buffer (conns ! j))) \<le> k_capacity (conns ! j) \<longrightarrow>
         int (length (k_buffer (conns ! j) @ vs)) \<le> k_capacity (conns ! j)))"

lemma send_pending_result:
  assumes "send_pending v cs conns = Inr (rest, conns')" "distinct (map fst cs)"
    "\<forall>i \<in> fst ` set cs. i < length conns"
  shows "length conns' = length conns \<and> (\<exists>sent. cs = sent @ rest \<and>
    (\<forall>j < length conns. conns' ! j = (if j \<in> fst ` set sent
       then (conns ! j)\<lparr>k_buffer := k_buffer (conns ! j) @ [v]\<rparr> else conns ! j)) \<and>
    (\<forall>(i, req) \<in> set sent. value_matches_type v req \<and> \<not> is_full (conns ! i)))"
  using assms
proof (induction v cs conns arbitrary: rest conns' rule: send_pending.induct)
  case (1 v conns)
  then show ?case by simp
next
  case (2 v i req cs conns)
  show ?case
  proof (cases "is_full (conns ! i)")
    case True
    then show ?thesis using 2(2) by (auto intro!: exI [of _ "[]"])
  next
    case False
    let ?conns = "conns[i := (conns ! i)\<lparr>k_buffer := k_buffer (conns ! i) @ [v]\<rparr>]"
    have m: "value_matches_type v req" using 2(2) False by (auto split: if_splits)
    have s: "send v (conns ! i) = Inr ((conns ! i)\<lparr>k_buffer := k_buffer (conns ! i) @ [v]\<rparr>)"
      using False by (simp add: send_def)
    then have run: "send_pending v cs ?conns = Inr (rest, conns')" using 2(2) False m by simp
    have notin: "i \<notin> fst ` set cs" "i < length conns" using 2(3,4) by auto
    obtain sent where sent: "cs = sent @ rest" "length conns' = length ?conns"
      "\<forall>j < length ?conns. conns' ! j = (if j \<in> fst ` set sent
         then (?conns ! j)\<lparr>k_buffer := k_buffer (?conns ! j) @ [v]\<rparr> else ?conns ! j)"
      "\<forall>(i, req) \<in> set sent. value_matches_type v req \<and> \<not> is_full (?conns ! i)"
      using 2(1) [OF False _ s run] m 2(3,4) by auto
    have "\<forall>(k, req') \<in> set sent. \<not> is_full (conns ! k)"
    proof (clarify)
      fix k req' assume k: "(k, req') \<in> set sent" "is_full (conns ! k)"
      then have "k \<noteq> i" using sent(1) notin(1) by force
      then show False using sent(4) k by force
    qed
    moreover have "\<forall>j < length conns. conns' ! j = (if j \<in> fst ` set ((i, req) # sent)
       then (conns ! j)\<lparr>k_buffer := k_buffer (conns ! j) @ [v]\<rparr> else conns ! j)"
      using sent(1,3) notin by (auto simp: nth_list_update)
    ultimately show ?thesis
      using sent(1,2,4) False m by (intro conjI exI [of _ "(i, req) # sent"]) auto
  qed
qed

lemma drain_result:
  assumes "drain streams p conns = Inr (st, em', conns')" "out_ok net es cid (snd p)"
    "\<forall>s \<in> set streams. out_ok net es cid (fst s)" "length conns = length es"
  shows "moved net es cid (remaining \<lparr>em_streams = streams, em_pending = Some p\<rparr>) conns (remaining em') conns'"
    "em_ok net es cid em'" "st \<noteq> Done"
proof -
  obtain rest where sp: "send_pending (fst p) (snd p) conns = Inr (rest, conns')"
    and em': "(st, em') = (if rest = [] then (Progress, \<lparr>em_streams = streams, em_pending = None\<rparr>)
       else (Blocked, \<lparr>em_streams = streams, em_pending = Some (fst p, rest)\<rparr>))"
    using assms(1) by (auto simp: drain_def result_simps split: if_splits)
  have d: "distinct (map fst (snd p))" "\<forall>i \<in> fst ` set (snd p). i < length conns"
    using assms(2,4) by (auto simp: out_ok_def)
  from send_pending_result [OF sp d] obtain sent where sent: "length conns' = length conns" "snd p = sent @ rest"
    "\<forall>j < length conns. conns' ! j = (if j \<in> fst ` set sent
       then (conns ! j)\<lparr>k_buffer := k_buffer (conns ! j) @ [fst p]\<rparr> else conns ! j)"
    "\<forall>(i, req) \<in> set sent. value_matches_type (fst p) req \<and> \<not> is_full (conns ! i)" by blast
  have p: "p = (fst p, sent @ rest)" using sent(2) by (metis prod.collapse)
  have disj: "fst ` set sent \<inter> fst ` set rest = {}" using d(1) by (auto simp: sent(2))
  have srcs: "j < length es \<and> e_source (es ! j) = cid \<and> value_matches_type (fst p) (wire_type net (es ! j)) \<and>
      \<not> is_full (conns ! j)" if "j \<in> fst ` set sent" for j
  proof -
    from that obtain req where req: "(j, req) \<in> set sent" by auto
    then have "(j, req) \<in> set (snd p)" by (simp add: sent(2))
    then have "j < length es \<and> e_source (es ! j) = cid \<and> req = wire_type net (es ! j)"
      using assms(2) unfolding out_ok_def by blast
    then show ?thesis using sent(4) req by auto
  qed
  have "\<exists>vs. conns' ! j = (conns ! j)\<lparr>k_buffer := k_buffer (conns ! j) @ vs\<rparr> \<and>
        remaining \<lparr>em_streams = streams, em_pending = Some p\<rparr> j = vs @ remaining em' j \<and>
        (vs \<noteq> [] \<longrightarrow> j < length es \<and> e_source (es ! j) = cid) \<and>
        (\<forall>v \<in> set vs. value_matches_type v (wire_type net (es ! j))) \<and>
        (int (length (k_buffer (conns ! j))) \<le> k_capacity (conns ! j) \<longrightarrow>
         int (length (k_buffer (conns ! j) @ vs)) \<le> k_capacity (conns ! j))" if j: "j < length conns" for j
  proof (cases "j \<in> fst ` set sent")
    case True
    then have "j \<notin> fst ` set rest" using disj by blast
    then have "remaining \<lparr>em_streams = streams, em_pending = Some p\<rparr> j = [fst p] @ remaining em' j"
      using True em' by (subst p) (auto simp: remaining_def pending_rest_def split: if_splits)
    then show ?thesis using sent(3) j True srcs [OF True]
      by (intro exI [of _ "[fst p]"]) (auto simp: is_full_def)
  next
    case False
    then have "remaining \<lparr>em_streams = streams, em_pending = Some p\<rparr> j = remaining em' j"
      using em' by (subst p) (auto simp: remaining_def pending_rest_def split: if_splits)
    then show ?thesis using sent(3) j False by (intro exI [of _ "[]"]) simp
  qed
  then show "moved net es cid (remaining \<lparr>em_streams = streams, em_pending = Some p\<rparr>) conns (remaining em') conns'"
    using sent(1) by (simp add: moved_def)
  have "out_ok net es cid rest" using assms(2) by (auto simp: out_ok_def sent(2))
  then show "em_ok net es cid em'" using assms(3) em' by (auto simp: em_ok_def split: if_splits)
  show "st \<noteq> Done" using em' by (auto split: if_splits)
qed

lemma emitter_step_result:
  assumes "emitter_step em conns = Inr (st, em', conns')" "em_ok net es cid em" "length conns = length es"
  shows "moved net es cid (remaining em) conns (remaining em') conns'" "em_ok net es cid em'"
    "st = Done \<longrightarrow> (\<forall>j. remaining em j = [] \<and> remaining em' j = []) \<and> conns' = conns"
proof -
  have "moved net es cid (remaining em) conns (remaining em') conns' \<and> em_ok net es cid em' \<and>
    (st = Done \<longrightarrow> (\<forall>j. remaining em j = [] \<and> remaining em' j = []) \<and> conns' = conns)"
  proof (cases "em_pending em")
    case (Some p)
    then have em: "em = \<lparr>em_streams = em_streams em, em_pending = Some p\<rparr>" by simp
    have ok: "out_ok net es cid (snd p)" "\<forall>s \<in> set (em_streams em). out_ok net es cid (fst s)"
      using assms(2) Some by (auto simp: em_ok_def)
    show ?thesis
      using drain_result [OF _ ok assms(3)] assms(1) Some em by (auto simp: emitter_step_def)
  next
    case None
    show ?thesis
    proof (cases "pull (em_streams em)")
      case None': None
      have r: "remaining em j = []" "remaining \<lparr>em_streams = [], em_pending = None\<rparr> j = []" for j
        using pull_None_remaining [OF None', of j] None by (simp_all add: remaining_def pending_rest_def)
      then show ?thesis using assms(1) None None'
        by (auto simp: emitter_step_def moved_def em_ok_def)
    next
      case (Some ps)
      obtain p streams where ps: "ps = (p, streams)" by (cases ps)
      have ok: "out_ok net es cid (snd p)" "\<forall>s \<in> set streams. out_ok net es cid (fst s)"
        using pull_outbounds [OF Some [unfolded ps], of "out_ok net es cid"] assms(2) by (auto simp: em_ok_def)
      have "remaining em = remaining \<lparr>em_streams = streams, em_pending = Some p\<rparr>"
        using pull_remaining [OF Some [unfolded ps]] None by (simp add: remaining_def pending_rest_def fun_eq_iff)
      then show ?thesis
        using drain_result [OF _ ok assms(3), of st em' conns'] assms(1) None Some ps
        by (auto simp: emitter_step_def)
    qed
  qed
  then show "moved net es cid (remaining em) conns (remaining em') conns'" "em_ok net es cid em'"
    "st = Done \<longrightarrow> (\<forall>j. remaining em j = [] \<and> remaining em' j = []) \<and> conns' = conns" by auto
qed

section \<open>Receiving\<close>

lemma foldR_receive:
  assumes "distinct is" "\<forall>i \<in> set is. i < length conns \<and> k_buffer (conns ! i) \<noteq> []"
  shows "\<exists>conns'. foldR (\<lambda>i (cs, as). bindR (liftR Crash (receive (cs ! i)))
         (\<lambda>(v, c). Inr (cs[i := c], dput (k_target_port (cs ! i)) v as))) is (conns, args) =
      Inr (conns', dupdate args (map (\<lambda>i. (k_target_port (conns ! i), hd (k_buffer (conns ! i)))) is)) \<and>
    length conns' = length conns \<and>
    (\<forall>j < length conns. conns' ! j =
       (if j \<in> set is then (conns ! j)\<lparr>k_buffer := tl (k_buffer (conns ! j))\<rparr> else conns ! j))"
  using assms
proof (induction "is" arbitrary: conns args)
  case Nil
  then show ?case by simp
next
  case (Cons i "is")
  let ?c = "conns ! i"
  let ?conns = "conns[i := ?c\<lparr>k_buffer := tl (k_buffer ?c)\<rparr>]"
  have rcv: "receive ?c = Inr (hd (k_buffer ?c), ?c\<lparr>k_buffer := tl (k_buffer ?c)\<rparr>)"
    using Cons.prems(2) by (simp add: receive_def is_empty_def)
  have ne: "j \<noteq> i" if "j \<in> set is" for j using Cons.prems(1) that by auto
  have same: "?conns ! j = conns ! j" if "j \<in> set is" for j using ne [OF that] by simp
  have "\<forall>j \<in> set is. j < length ?conns \<and> k_buffer (?conns ! j) \<noteq> []"
    using Cons.prems(2) by (simp add: same)
  from Cons.IH [OF _ this, of "dput (k_target_port ?c) (hd (k_buffer ?c)) args"] Cons.prems(1)
  obtain conns' where IH: "foldR (\<lambda>i (cs, as). bindR (liftR Crash (receive (cs ! i)))
         (\<lambda>(v, c). Inr (cs[i := c], dput (k_target_port (cs ! i)) v as))) is
         (?conns, dput (k_target_port ?c) (hd (k_buffer ?c)) args) =
      Inr (conns', dupdate (dput (k_target_port ?c) (hd (k_buffer ?c)) args)
        (map (\<lambda>i. (k_target_port (?conns ! i), hd (k_buffer (?conns ! i)))) is))"
    "length conns' = length ?conns"
    "\<forall>j < length ?conns. conns' ! j =
       (if j \<in> set is then (?conns ! j)\<lparr>k_buffer := tl (k_buffer (?conns ! j))\<rparr> else ?conns ! j)"
    by auto
  have m: "map (\<lambda>i. (k_target_port (?conns ! i), hd (k_buffer (?conns ! i)))) is =
      map (\<lambda>i. (k_target_port (conns ! i), hd (k_buffer (conns ! i)))) is"
    by (rule map_cong [OF refl]) (simp only: same)
  show ?case
    using IH(2,3) Cons.prems ne
    by (intro exI [of _ conns']) (auto simp: rcv IH(1) [unfolded m] nth_list_update)
qed

section \<open>The packets of an activation\<close>

definition packets_of :: "network \<Rightarrow> edge \<Rightarrow> step_result \<Rightarrow> pyval list" where
  "packets_of net e r =
     (case lookup net (e_source e) of None \<Rightarrow> [] | Some s \<Rightarrow>
       (case bindR (extract_output (y_value r) (e_source_field e) (ports_of s ''out'') (e_source e))
               (stream_items s (e_source e) (e_source_field e)) of Inl _ \<Rightarrow> [] | Inr vs \<Rightarrow> vs))"

definition emitted :: "network \<Rightarrow> step_result list \<Rightarrow> edge \<Rightarrow> pyval list" where
  "emitted net rs e = concat (map (packets_of net e) (filter (\<lambda>r. y_id r = e_source e) rs))"

definition acts :: "step_result list \<Rightarrow> string \<Rightarrow> nat" where
  "acts rs cid = length (filter (\<lambda>r. y_id r = cid) rs)"

lemma emitted_snoc: "emitted net (rs @ [r]) e =
    emitted net rs e @ (if y_id r = e_source e then packets_of net e r else [])"
  by (simp add: emitted_def)

lemma acts_snoc: "acts (rs @ [r]) cid = acts rs cid + (if y_id r = cid then 1 else 0)"
  by (simp add: acts_def)

lemma acts_Nil [simp]: "acts [] cid = 0"
  by (simp add: acts_def)

lemma emitted_Nil [simp]: "emitted net [] e = []"
  by (simp add: emitted_def)

definition linked :: "edge list \<Rightarrow> connection list \<Rightarrow> bool" where
  "linked es conns \<longleftrightarrow> list_all2 link es conns"

lemma linked_nth: "linked es conns \<Longrightarrow> i < length es \<Longrightarrow> link (es ! i) (conns ! i)"
  by (simp add: linked_def list_all2_conv_all_nth)

lemma linked_length: "linked es conns \<Longrightarrow> length conns = length es"
  by (simp add: linked_def list_all2_lengthD)

lemma concat_single:
  "distinct ps \<Longrightarrow> concat (map (\<lambda>p. if p = q then f p else []) ps) = (if q \<in> set ps then f q else [])"
  by (induction ps) auto

lemma set_port_conns: "i \<in> set (port_conns cid port conns) \<longleftrightarrow>
    i < length conns \<and> k_source (conns ! i) = cid \<and> k_source_port (conns ! i) = port"
  by (auto simp: port_conns_def)

lemma distinct_port_conns [simp]: "distinct (port_conns cid port conns)"
  by (simp add: port_conns_def)

lemma outbounds_result:
  assumes wf: "wf_keys net" and lk: "linked es conns" and ok: "\<forall>e \<in> set es. edge_ok net e"
    and c: "lookup net cid = Some c" and "set is \<subseteq> set (port_conns cid port conns)"
  shows "mapR (outbound_of net c port conns) is = Inr (map (\<lambda>i. (i, wire_type net (es ! i))) is)"
proof (rule mapR_map_Inr)
  fix i assume "i \<in> set is"
  then have i: "i < length es" "k_source (conns ! i) = cid" "k_source_port (conns ! i) = port"
    using assms(5) linked_length [OF lk] by (auto simp: set_port_conns)
  moreover have "edge_ok net (es ! i)" using ok i(1) by simp
  ultimately show "outbound_of net c port conns i = Inr (i, wire_type net (es ! i))"
    using linked_nth [OF lk i(1)] c
    by (auto simp: outbound_of_def component_table_lookup [OF wf] link_def edge_ok_def wire_type_def)
qed

lemma distinct_wired_out: "distinct (wired_out cid conns)"
  by (simp add: wired_out_def)

lemma build_emitter_result:
  assumes wf: "wf_keys net" and lk: "linked es conns" and ok: "\<forall>e \<in> set es. edge_ok net e"
    and c: "lookup net cid = Some c" and b: "build_emitter net c cid out conns = Inr em"
    and r: "y_id r = cid" "y_value r = out"
  shows "em_ok net es cid em"
    "j < length es \<Longrightarrow> remaining em j = (if e_source (es ! j) = cid then packets_of net (es ! j) r else [])"
proof -
  let ?ps = "wired_out cid conns"
  define item where "item p = (case bindR (extract_output out p (ports_of c ''out'') cid)
      (stream_items c cid p) of Inl _ \<Rightarrow> [] | Inr vs \<Rightarrow> vs)" for p
  define s where "s p = (map (\<lambda>i. (i, wire_type net (es ! i))) (port_conns cid p conns), item p)" for p
  have port: "t = s p" if "build_port net c cid out conns p = Inr t" for p t
    using that outbounds_result [OF wf lk ok c subset_refl, of p]
    by (auto simp: build_port_def result_simps s_def item_def)
  obtain streams where streams: "mapR (build_port net c cid out conns) ?ps = Inr streams"
    and em: "em = \<lparr>em_streams = streams, em_pending = None\<rparr>"
    using b by (auto simp: build_emitter_def result_simps)
  have st: "streams = map s ?ps"
    using streams
    by (auto simp: result_simps list_all2_conv_all_nth intro!: nth_equalityI) (metis port prod.collapse)
  show "em_ok net es cid em"
    using linked_nth [OF lk] linked_length [OF lk]
    by (auto simp: em_ok_def em st s_def out_ok_def comp_def set_port_conns link_def)
  assume j: "j < length es"
  have rest: "stream_rest j (s p) = (if p = e_source_field (es ! j) then
      (if e_source (es ! j) = cid then item p else []) else [])" for p
    using linked_nth [OF lk j] linked_length [OF lk] j
    by (auto simp: stream_rest_def s_def set_port_conns link_def image_image)
  have "remaining em j = (if e_source_field (es ! j) \<in> set ?ps then
      (if e_source (es ! j) = cid then item (e_source_field (es ! j)) else []) else [])"
    using concat_single [of ?ps "e_source_field (es ! j)" "\<lambda>p. if e_source (es ! j) = cid then item p else []"]
    by (simp add: remaining_def em pending_rest_def st comp_def rest distinct_wired_out)
  moreover have "e_source_field (es ! j) \<in> set ?ps" if "e_source (es ! j) = cid"
    using linked_nth [OF lk j] linked_length [OF lk] j that by (force simp: wired_out_def link_def)
  ultimately show "remaining em j = (if e_source (es ! j) = cid then packets_of net (es ! j) r else [])"
    using c r by (auto simp: packets_of_def item_def)
qed

lemma build_emitter_no_crash:
  assumes wf: "wf_keys net" and lk: "linked es conns" and ok: "\<forall>e \<in> set es. edge_ok net e"
    and c: "lookup net cid = Some c" and b: "build_emitter net c cid out conns = Inl s"
  shows "\<exists>e. s = Fail e"
proof -
  have "\<exists>e. s = Fail e" if "build_port net c cid out conns p = Inl s" for p
    using that outbounds_result [OF wf lk ok c subset_refl, of p]
    by (auto simp: build_port_def result_simps)
  moreover have "\<exists>p. build_port net c cid out conns p = Inl s" if "mapR (build_port net c cid out conns) ps = Inl s" for ps
    using that by (induction ps) (auto simp: result_simps)
  moreover have "mapR (build_port net c cid out conns) (wired_out cid conns) = Inl s"
    using b by (auto simp: build_emitter_def result_simps)
  ultimately show ?thesis by blast
qed

end
