(* ===== verification/Stream_Run.thy ===== *)
theory Stream_Run
  imports Stream_Inv
begin

text \<open>
  Runs of the streaming scheduler: the specification without connections or emitters
  (\<open>stream_dataflow\<close>), the invariant that every turn keeps, and the outcome of the loop.
\<close>

section \<open>The abstract specification\<close>

text \<open>The \<open>k\<close>-th activation of a component takes the \<open>k\<close>-th packet emitted on each incoming edge.\<close>

definition stream_into :: "network \<Rightarrow> string \<Rightarrow> edge list" where
  "stream_into net cid = sort_key e_target_arg (filter (\<lambda>e. e_target e = cid) (stream_edges net))"

definition stream_args :: "network \<Rightarrow> step_result list \<Rightarrow> string \<Rightarrow> component \<Rightarrow> pyval dict \<Rightarrow> bool" where
  "stream_args net rs cid c args \<longleftrightarrow>
     (\<forall>e \<in> set (stream_into net cid). acts rs cid < length (emitted net rs e) \<and>
        value_matches_type (emitted net rs e ! acts rs cid) (wire_type net e)) \<and>
     (stream_into net cid = [] \<longrightarrow> acts rs cid = 0) \<and>
     args = dupdate (dupdate (c_args c) (iips_of net cid))
       (map (\<lambda>e. (e_target_arg e, emitted net rs e ! acts rs cid)) (stream_into net cid))"

inductive stream_dataflow :: "'d driver \<Rightarrow> network \<Rightarrow> 'd \<Rightarrow> step_result list \<Rightarrow> 'd \<Rightarrow> bool"
  for drv net d0 where
  start: "stream_dataflow drv net d0 [] d0"
| step: "stream_dataflow drv net d0 results d \<Longrightarrow> lookup net cid = Some c \<Longrightarrow>
    stream_args net results cid c args \<Longrightarrow>
    drv d (c_task c) args (c_verifier c) (c_child c) = (d', Inr resp) \<Longrightarrow> p_verified resp \<Longrightarrow>
    stream_dataflow drv net d0 (results @ [step_record (length results) c cid resp]) d'"

lemma stream_dataflow_verified: "stream_dataflow drv net d0 rs d \<Longrightarrow> y \<in> set rs \<Longrightarrow> y_verified y"
  by (induction rule: stream_dataflow.induct) (auto simp: step_record_def)

section \<open>The invariant\<close>

definition rem_of :: "edge list \<Rightarrow> emitter dict \<Rightarrow> nat \<Rightarrow> pyval list" where
  "rem_of es ems j = (case dget ems (e_source (es ! j)) of None \<Rightarrow> [] | Some em \<Rightarrow> remaining em j)"

definition edge_inv :: "network \<Rightarrow> edge \<Rightarrow> step_result list \<Rightarrow> connection \<Rightarrow> pyval list \<Rightarrow> bool" where
  "edge_inv net e rs c rest \<longleftrightarrow>
     k_buffer c @ rest = drop (acts rs (e_target e)) (emitted net rs e) \<and>
     acts rs (e_target e) \<le> length (emitted net rs e) \<and>
     (\<forall>v \<in> set (k_buffer c). value_matches_type v (wire_type net e)) \<and>
     int (length (k_buffer c)) \<le> k_capacity c"

definition ems_ok :: "network \<Rightarrow> edge list \<Rightarrow> emitter dict \<Rightarrow> bool" where
  "ems_ok net es ems \<longleftrightarrow> wf_dict ems \<and>
     (\<forall>(cid, em) \<in> set ems. cid \<in> set (component_ids net) \<and> em_ok net es cid em)"

definition spent_ok :: "network \<Rightarrow> edge list \<Rightarrow> step_result list \<Rightarrow> string list \<Rightarrow> bool" where
  "spent_ok net es rs spent \<longleftrightarrow> (\<forall>cid. (\<forall>e \<in> set es. e_target e \<noteq> cid) \<longrightarrow>
     acts rs cid = (if cid \<in> set spent then 1 else 0))"

definition stream_inv :: "network \<Rightarrow> edge list \<Rightarrow> 'd scheduler \<Rightarrow> bool" where
  "stream_inv net es g \<longleftrightarrow> linked es (g_conns g) \<and> ems_ok net es (g_emitters g) \<and>
     (\<forall>j < length es. edge_inv net (es ! j) (g_results g) (g_conns g ! j) (rem_of es (g_emitters g) j)) \<and>
     spent_ok net es (g_results g) (g_spent g)"

lemma in_dput_cases: "(k', v') \<in> set (dput k v d) \<Longrightarrow> wf_dict d \<Longrightarrow> (k' = k \<and> v' = v) \<or> (k' \<noteq> k \<and> (k', v') \<in> set d)"
  by (metis dget_Some_in dget_dput dget_wf option.inject wf_dict_dput)

lemma ems_ok_dput:
  "ems_ok net es ems \<Longrightarrow> cid \<in> set (component_ids net) \<Longrightarrow> em_ok net es cid em \<Longrightarrow> ems_ok net es (dput cid em ems)"
  by (auto simp: ems_ok_def dict_simps dest!: in_dput_cases)

lemma ems_ok_get: "ems_ok net es ems \<Longrightarrow> dget ems cid = Some em \<Longrightarrow>
    em_ok net es cid em \<and> cid \<in> set (component_ids net)"
  by (auto simp: ems_ok_def dest!: dget_Some_in)

lemma dget_ddel: "dget (ddel k d) k' = (if k' = k then None else dget d k')"
  by (induction d) (auto simp: dget_def ddel_def)

lemma ems_ok_ddel: "ems_ok net es ems \<Longrightarrow> ems_ok net es (ddel cid ems)"
  by (auto simp: ems_ok_def ddel_def wf_dict_def distinct_map_filter)

lemma length_ddel: "dget d k \<noteq> None \<Longrightarrow> length (ddel k d) < length d"
  unfolding ddel_def dget_def
  by (metis (mono_tags, lifting) length_filter_less map_of_SomeD not_Some_eq fst_conv)

lemma length_dput: "dget d k \<noteq> None \<Longrightarrow> length (dput k v d) = length d"
  by (induction d) (auto simp: dget_def dput_def)

lemma length_dput_le: "length (dput k v d) \<le> Suc (length d)"
  by (induction d) (auto simp: dput_def)

lemma moved_edge_inv:
  assumes "moved net es cid rem conns rem' conns'" "j < length conns"
    "edge_inv net (es ! j) rs (conns ! j) (rem j)"
  shows "edge_inv net (es ! j) rs (conns' ! j) (rem' j)"
  using assms unfolding moved_def edge_inv_def by force

lemma moved_other:
  assumes "moved net es cid rem conns rem' conns'" "j < length conns" "e_source (es ! j) \<noteq> cid"
  shows "conns' ! j = conns ! j"
  using assms unfolding moved_def by force

lemma moved_linked:
  assumes "moved net es cid rem conns rem' conns'" "linked es conns"
  shows "linked es conns'"
  unfolding linked_def list_all2_conv_all_nth
proof (intro conjI allI impI)
  have len: "length conns = length es" using assms(2) by (rule linked_length)
  then show "length es = length conns'" using assms(1) by (simp add: moved_def)
  fix j assume j: "j < length es"
  then obtain vs where "conns' ! j = (conns ! j)\<lparr>k_buffer := vs\<rparr>"
    using assms(1) len unfolding moved_def by metis
  then show "link (es ! j) (conns' ! j)" using linked_nth [OF assms(2) j] by (simp add: link_def)
qed

text \<open>A step of the emitter of \<open>cid\<close> keeps the invariant.\<close>

lemma stream_inv_emitter:
  assumes inv: "stream_inv net es g" and em: "dget (g_emitters g) cid = Some em"
    and st: "emitter_step em (g_conns g) = Inr (st, em', conns')"
    and g': "g_conns g' = conns'" "g_results g' = g_results g" "g_spent g' = g_spent g"
      "g_emitters g' = (if st = Done then ddel cid (g_emitters g) else dput cid em' (g_emitters g))"
  shows "stream_inv net es g'"
proof -
  have lk: "linked es (g_conns g)" and ok: "ems_ok net es (g_emitters g)"
    using inv by (simp_all add: stream_inv_def)
  have len: "length (g_conns g) = length es" by (rule linked_length [OF lk])
  note emok = ems_ok_get [OF ok em]
  note res = emitter_step_result [OF st conjunct1 [OF emok] len]
  have edge: "edge_inv net (es ! j) (g_results g) (conns' ! j) (rem_of es (g_emitters g') j)" if j: "j < length es" for j
  proof (cases "e_source (es ! j) = cid")
    case True
    then have "rem_of es (g_emitters g) j = remaining em j" by (simp add: rem_of_def em)
    then have "edge_inv net (es ! j) (g_results g) (g_conns g ! j) (remaining em j)"
      using inv j by (auto simp: stream_inv_def)
    from moved_edge_inv [OF res(1) _ this] len j
    have "edge_inv net (es ! j) (g_results g) (conns' ! j) (remaining em' j)" by simp
    moreover have "rem_of es (g_emitters g') j = remaining em' j"
      using res(3) True by (simp add: rem_of_def g'(4) dget_ddel dict_simps)
    ultimately show ?thesis by simp
  next
    case False
    then have "rem_of es (g_emitters g') j = rem_of es (g_emitters g) j"
      by (simp add: rem_of_def g'(4) dget_ddel dict_simps)
    then show ?thesis using moved_other [OF res(1) _ False] len j inv by (simp add: stream_inv_def)
  qed
  then show ?thesis
    using moved_linked [OF res(1) lk] ok emok res(2) inv
    by (auto simp: stream_inv_def g' ems_ok_ddel ems_ok_dput)
qed

section \<open>Resuming producers\<close>

lemma resume_result:
  assumes "stream_inv net es g" "\<forall>cid \<in> set cids. dget (g_emitters g) cid \<noteq> None" "resume limit cids g = (g', s)"
  shows "g_results g' = g_results g \<and> g_driver g' = g_driver g \<and> g_spent g' = g_spent g \<and>
    g_activations g' = g_activations g \<and>
    (s = None \<longrightarrow> stream_inv net es g' \<and>
       (g_sends g' = g_sends g + 1 \<and> g_sends g' \<le> limit * MAX_CONNECTION_CAPACITY \<and>
          length (g_emitters g') = length (g_emitters g) \<or>
        g_sends g' = g_sends g \<and> length (g_emitters g') < length (g_emitters g))) \<and>
    (\<forall>s'. s = Some s' \<longrightarrow> (\<exists>e. s' = Fail e))"
  using assms
proof (induction cids arbitrary: g)
  case Nil
  then show ?case by auto
next
  case (Cons cid cids)
  note 2 = Cons.IH Cons.prems
  then obtain em where em: "dget (g_emitters g) cid = Some em" by auto
  show ?case
  proof (cases "emitter_step em (g_conns g)")
    case (Inl e)
    then show ?thesis using 2(4) em by auto
  next
    case (Inr r)
    obtain st em' conns' where r: "r = (st, em', conns')" by (cases r)
    note step = Inr [unfolded r]
    show ?thesis
    proof (cases st)
      case Blocked
      let ?g = "g\<lparr>g_conns := conns', g_emitters := dput cid em' (g_emitters g)\<rparr>"
      have inv: "stream_inv net es ?g"
        by (rule stream_inv_emitter [OF 2(2) em step]) (simp_all add: Blocked)
      have "\<forall>cid \<in> set cids. dget (g_emitters ?g) cid \<noteq> None" using 2(3) by (simp add: dict_simps)
      from 2(1) [OF inv this] 2(4) show ?thesis
        by (simp add: em step Blocked length_dput)
    next
      case Done
      let ?g = "g\<lparr>g_conns := conns', g_emitters := ddel cid (g_emitters g)\<rparr>"
      have inv: "stream_inv net es ?g"
        by (rule stream_inv_emitter [OF 2(2) em step]) (simp_all add: Done)
      then show ?thesis using 2(4) length_ddel [of "g_emitters g" cid] by (auto simp: em step Done)
    next
      case Progress
      let ?g = "g\<lparr>g_conns := conns', g_emitters := dput cid em' (g_emitters g), g_sends := g_sends g + 1\<rparr>"
      have inv: "stream_inv net es ?g"
        by (rule stream_inv_emitter [OF 2(2) em step]) (simp_all add: Progress)
      then show ?thesis using 2(4) by (auto simp: em step Progress Let_def length_dput split: if_splits)
    qed
  qed
qed

section \<open>Activations\<close>

lemma wired_in_edges: "linked es conns \<Longrightarrow> wired_in cid conns = filter (\<lambda>i. e_target (es ! i) = cid) [0..<length es]"
  using linked_nth [of es conns] linked_length [of es conns]
  by (auto simp: wired_in_def link_def intro!: filter_cong)

lemma wired_in_into:
  assumes "linked es conns"
  shows "map ((!) es) (sort_key (\<lambda>i. k_target_port (conns ! i)) (wired_in cid conns)) =
    sort_key e_target_arg (filter (\<lambda>e. e_target e = cid) es)"
proof -
  have "sort_key (\<lambda>i. k_target_port (conns ! i)) (wired_in cid conns) =
      sort_key (\<lambda>i. e_target_arg (es ! i)) (wired_in cid conns)"
    by (rule sort_key_cong_on) (use linked_nth [OF assms] in \<open>auto simp: wired_in_edges [OF assms] link_def\<close>)
  then show ?thesis
    by (simp add: map_sort_key [of "(!) es" e_target_arg] wired_in_edges [OF assms] map_nth_filter [of es "\<lambda>e. e_target e = cid"])
qed

lemma edge_inv_head:
  assumes "edge_inv net e rs c rest" "k_buffer c \<noteq> []" "e_target e = cid"
  shows "acts rs cid < length (emitted net rs e)" "hd (k_buffer c) = emitted net rs e ! acts rs cid"
    "value_matches_type (emitted net rs e ! acts rs cid) (wire_type net e)"
proof -
  have d: "k_buffer c @ rest = drop (acts rs cid) (emitted net rs e)"
    using assms(1,3) by (simp add: edge_inv_def)
  then show lt: "acts rs cid < length (emitted net rs e)" using assms(2) by (metis append_is_Nil_conv drop_all leI)
  show hd: "hd (k_buffer c) = emitted net rs e ! acts rs cid"
    using d assms(2) lt by (metis hd_append2 hd_drop_conv_nth)
  show "value_matches_type (emitted net rs e ! acts rs cid) (wire_type net e)"
    using assms(1,2) hd by (metis edge_inv_def hd_in_set)
qed

lemma ready_receive:
  assumes inv: "stream_inv net (stream_edges net) g" and rdy: "is_ready g cid" and c: "lookup net cid = Some c"
    and inside: "cid \<in> set (component_ids net)"
  shows "\<exists>conns args. receive_packets cid (g_conns g) (dupdate (c_args c) (iips_of net cid)) = Inr (conns, args) \<and>
    stream_args net (g_results g) cid c args \<and> length conns = length (g_conns g) \<and>
    (\<forall>j < length (g_conns g). conns ! j = (if e_target (stream_edges net ! j) = cid
       then (g_conns g ! j)\<lparr>k_buffer := tl (k_buffer (g_conns g ! j))\<rparr> else g_conns g ! j) \<and>
       (e_target (stream_edges net ! j) = cid \<longrightarrow> k_buffer (g_conns g ! j) \<noteq> []))"
proof -
  let ?es = "stream_edges net" and ?rs = "g_results g"
  let ?is = "sort_key (\<lambda>i. k_target_port (g_conns g ! i)) (wired_in cid (g_conns g))"
  have lk: "linked ?es (g_conns g)" using inv by (simp add: stream_inv_def)
  note len = linked_length [OF lk]
  have set_is: "i \<in> set ?is \<longleftrightarrow> i < length ?es \<and> e_target (?es ! i) = cid" for i
    by (auto simp: wired_in_edges [OF lk])
  have ne: "k_buffer (g_conns g ! i) \<noteq> []" if "i \<in> set ?is" for i
    using rdy that by (auto simp: is_ready_def ports_ready_def is_empty_def)
  have "distinct ?is" by (simp add: wired_in_def)
  have all: "\<forall>i \<in> set ?is. i < length (g_conns g) \<and> k_buffer (g_conns g ! i) \<noteq> []"
    using ne set_is len by metis
  from foldR_receive [OF \<open>distinct ?is\<close> all, of "dupdate (c_args c) (iips_of net cid)"]
  obtain conns where run: "receive_packets cid (g_conns g) (dupdate (c_args c) (iips_of net cid)) =
      Inr (conns, dupdate (dupdate (c_args c) (iips_of net cid))
        (map (\<lambda>i. (k_target_port (g_conns g ! i), hd (k_buffer (g_conns g ! i)))) ?is))"
    "length conns = length (g_conns g)"
    "\<forall>j < length (g_conns g). conns ! j =
       (if j \<in> set ?is then (g_conns g ! j)\<lparr>k_buffer := tl (k_buffer (g_conns g ! j))\<rparr> else g_conns g ! j)"
    unfolding receive_packets_def by blast
  have into: "map ((!) ?es) ?is = stream_into net cid"
    unfolding stream_into_def by (rule wired_in_into [OF lk])
  have edge: "edge_inv net (?es ! i) ?rs (g_conns g ! i) (rem_of ?es (g_emitters g) i)" if "i < length ?es" for i
    using inv that by (simp add: stream_inv_def)
  have head: "acts ?rs cid < length (emitted net ?rs (?es ! i)) \<and>
      hd (k_buffer (g_conns g ! i)) = emitted net ?rs (?es ! i) ! acts ?rs cid \<and>
      value_matches_type (emitted net ?rs (?es ! i) ! acts ?rs cid) (wire_type net (?es ! i)) \<and>
      k_target_port (g_conns g ! i) = e_target_arg (?es ! i)" if "i \<in> set ?is" for i
    using edge_inv_head [OF edge ne [OF that]] that set_is linked_nth [OF lk] by (auto simp: link_def)
  have m: "map (\<lambda>i. (k_target_port (g_conns g ! i), hd (k_buffer (g_conns g ! i)))) ?is =
      map (\<lambda>e. (e_target_arg e, emitted net ?rs e ! acts ?rs cid)) (stream_into net cid)"
    unfolding into [symmetric] using head by simp
  have unwired: "acts ?rs cid = 0" if "stream_into net cid = []"
  proof -
    have nil: "wired_in cid (g_conns g) = []" using that into by (metis map_is_Nil_conv length_0_conv length_sort)
    then have "cid \<notin> set (g_spent g)" using rdy by (simp add: is_ready_def)
    moreover have "\<forall>e \<in> set ?es. e_target e \<noteq> cid"
      using nil by (fastforce simp: wired_in_edges [OF lk] filter_empty_conv in_set_conv_nth)
    ultimately show ?thesis using inv by (simp add: stream_inv_def spent_ok_def)
  qed
  have "\<forall>e \<in> set (stream_into net cid). acts ?rs cid < length (emitted net ?rs e) \<and>
      value_matches_type (emitted net ?rs e ! acts ?rs cid) (wire_type net e)"
    unfolding into [symmetric] using head by auto
  then have "stream_args net ?rs cid c (dupdate (dupdate (c_args c) (iips_of net cid))
        (map (\<lambda>i. (k_target_port (g_conns g ! i), hd (k_buffer (g_conns g ! i)))) ?is))"
    using m unwired by (simp add: stream_args_def)
  then show ?thesis using run set_is len ne by auto
qed

text \<open>The invariant after an activation whose output became the emitter \<open>em\<close> (or none).\<close>

lemma stream_inv_activated:
  assumes wf: "wf_keys net" and inv: "stream_inv net (stream_edges net) g" and rdy: "is_ready g cid"
    and c: "lookup net cid = Some c" and ok: "\<forall>e \<in> set (stream_edges net). edge_ok net e"
    and len: "length conns = length (g_conns g)"
    and rcv: "\<forall>j < length (g_conns g). conns ! j = (if e_target (stream_edges net ! j) = cid
       then (g_conns g ! j)\<lparr>k_buffer := tl (k_buffer (g_conns g ! j))\<rparr> else g_conns g ! j) \<and>
       (e_target (stream_edges net ! j) = cid \<longrightarrow> k_buffer (g_conns g ! j) \<noteq> [])"
    and y: "y_id y = cid" and em: "build_emitter net c cid (y_value y) conns = Inr em"
    and g': "g_conns g' = conns" "g_results g' = g_results g @ [y]"
      "g_spent g' = (if wired_in cid (g_conns g) = [] then cid # g_spent g else g_spent g)"
      "g_emitters g' = (if emitter_empty em then g_emitters g else dput cid em (g_emitters g))"
  shows "stream_inv net (stream_edges net) g'"
proof -
  let ?es = "stream_edges net" and ?rs = "g_results g"
  have lk: "linked ?es (g_conns g)" and ems: "ems_ok net ?es (g_emitters g)" and sp: "spent_ok net ?es ?rs (g_spent g)"
    using inv by (simp_all add: stream_inv_def)
  note nE = linked_length [OF lk]
  have lk': "linked ?es conns"
    using lk len rcv unfolding linked_def list_all2_conv_all_nth link_def by auto
  note emit = build_emitter_result [OF wf lk' ok c em y refl]
  have none: "dget (g_emitters g) cid = None" using rdy by (simp add: is_ready_def)
  have rem_new: "rem_of ?es (g_emitters g') j = (if e_source (?es ! j) = cid then packets_of net (?es ! j) y
      else rem_of ?es (g_emitters g) j)" if j: "j < length ?es" for j
  proof (cases "e_source (?es ! j) = cid")
    case True
    have "remaining em j = []" if "emitter_empty em"
      using that by (auto simp: emitter_empty_def remaining_def pending_rest_def)
    then show ?thesis using emit(2) [OF j] True none by (simp add: rem_of_def g'(4) dict_simps)
  qed (simp add: rem_of_def g'(4) dict_simps)
  have edge: "edge_inv net (?es ! j) (?rs @ [y]) (conns ! j) (rem_of ?es (g_emitters g') j)" if j: "j < length ?es" for j
  proof -
    let ?e = "?es ! j"
    have old: "edge_inv net ?e ?rs (g_conns g ! j) (rem_of ?es (g_emitters g) j)"
      using inv j by (simp add: stream_inv_def)
    have ns: "e_source ?e \<noteq> e_target ?e" using ok j by (auto simp: edge_ok_def)
    show ?thesis
    proof (cases "e_target ?e = cid")
      case True
      then have ne: "k_buffer (g_conns g ! j) \<noteq> []" and cj: "conns ! j = (g_conns g ! j)\<lparr>k_buffer := tl (k_buffer (g_conns g ! j))\<rparr>"
        using rcv j nE by auto
      obtain v vs where buf: "k_buffer (g_conns g ! j) = v # vs" using ne by (cases "k_buffer (g_conns g ! j)") auto
      have d: "v # vs @ rem_of ?es (g_emitters g) j = drop (acts ?rs cid) (emitted net ?rs ?e)"
        using old True buf by (simp add: edge_inv_def)
      then have "vs @ rem_of ?es (g_emitters g) j = drop (Suc (acts ?rs cid)) (emitted net ?rs ?e)"
        by (metis drop_Suc list.sel(3) tl_drop)
      moreover have "acts ?rs cid < length (emitted net ?rs ?e)" using d by (metis drop_all leI list.distinct(1))
      ultimately show ?thesis
        using old True ns y buf cj rem_new [OF j] by (simp add: edge_inv_def emitted_snoc acts_snoc)
    next
      case False
      then have cj: "conns ! j = g_conns g ! j" using rcv j nE by simp
      have src: "rem_of ?es (g_emitters g) j = []" if "e_source ?e = cid"
        using none that by (simp add: rem_of_def)
      show ?thesis
        using old False y cj rem_new [OF j] src by (auto simp: edge_inv_def emitted_snoc acts_snoc)
    qed
  qed
  have "spent_ok net ?es (?rs @ [y]) (g_spent g')"
    unfolding spent_ok_def
  proof (intro allI impI)
    fix cid' assume un: "\<forall>e \<in> set ?es. e_target e \<noteq> cid'"
    have "acts ?rs cid' = (if cid' \<in> set (g_spent g) then 1 else 0)" using sp un by (simp add: spent_ok_def)
    moreover have "wired_in cid' (g_conns g) = []"
      using un by (auto simp: wired_in_edges [OF lk] filter_empty_conv)
    moreover have "cid' = cid \<Longrightarrow> cid \<notin> set (g_spent g)" using rdy calculation(2) by (simp add: is_ready_def)
    ultimately show "acts (?rs @ [y]) cid' = (if cid' \<in> set (g_spent g') then 1 else 0)"
      using y by (auto simp: g'(3) acts_snoc)
  qed
  moreover have "ems_ok net ?es (g_emitters g')"
    using ems_ok_dput [OF ems _ emit(1)] ems lookup_Some_in [OF c] by (simp add: g'(4))
  ultimately show ?thesis using lk' edge by (simp add: stream_inv_def g')
qed

text \<open>How an activation or a turn can end a run, and what its results are then.\<close>

definition ends :: "step_result list \<Rightarrow> stop \<Rightarrow> bool" where
  "ends rs s \<longleftrightarrow> (\<exists>e. s = Fail e) \<or> (\<exists>y. s = Unverified y \<and> rs \<noteq> [] \<and> y = last rs \<and> \<not> y_verified y)"

definition follows :: "step_result list \<Rightarrow> step_result list \<Rightarrow> bool" where
  "follows rs rs' \<longleftrightarrow> rs' = rs \<or> (\<exists>y. rs' = rs @ [y])"

lemma activate_result:
  assumes r: "runnable net order" and inv: "stream_inv net (stream_edges net) g" and rdy: "is_ready g cid"
    and inside: "cid \<in> set (component_ids net)"
    and df: "stream_dataflow drv net d0 (g_results g) (g_driver g)"
    and cnt: "g_activations g = int (length (g_results g))"
    and act: "activate drv net limit cid g = (g', s)"
  shows "(s = None \<longrightarrow> stream_inv net (stream_edges net) g' \<and>
       stream_dataflow drv net d0 (g_results g') (g_driver g') \<and>
       g_activations g' = int (length (g_results g')) \<and> g_activations g' = g_activations g + 1 \<and>
       g_activations g' \<le> limit \<and> g_sends g' = g_sends g \<and>
       length (g_emitters g') \<le> Suc (length (g_emitters g))) \<and>
    (\<forall>s'. s = Some s' \<longrightarrow> ends (g_results g') s' \<and> follows (g_results g) (g_results g') \<and>
       (g_results g' = g_results g \<or> g_activations g < limit))"
proof -
  have wf: "wf_keys net" and ok: "\<forall>e \<in> set (stream_edges net). edge_ok net e"
    using r by (simp_all add: runnable_def stream_edges_def)
  obtain c where c: "lookup net cid = Some c" using inside lookup_None_iff [of net cid] by auto
  have tab: "dget (component_table net) cid = Some c" using c by (simp add: component_table_lookup [OF wf])
  obtain conns args where rcv: "receive_packets cid (g_conns g) (dupdate (c_args c) (iips_of net cid)) = Inr (conns, args)"
    "stream_args net (g_results g) cid c args" "length conns = length (g_conns g)"
    "\<forall>j < length (g_conns g). conns ! j = (if e_target (stream_edges net ! j) = cid
       then (g_conns g ! j)\<lparr>k_buffer := tl (k_buffer (g_conns g ! j))\<rparr> else g_conns g ! j) \<and>
       (e_target (stream_edges net ! j) = cid \<longrightarrow> k_buffer (g_conns g ! j) \<noteq> [])"
    using ready_receive [OF inv rdy c inside] by blast
  obtain d o' where call: "drv (g_driver g) (c_task c) args (c_verifier c) (c_child c) = (d, o')" by force
  show ?thesis
  proof (cases "g_activations g + 1 > limit")
    case True
    then show ?thesis using act by (auto simp: activate_def tab rcv(1) Let_def ends_def follows_def)
  next
    case lim: False
    show ?thesis
    proof (cases o')
      case (Inl msg)
      then show ?thesis using act lim call
        by (auto simp: activate_def tab rcv(1) Let_def ends_def follows_def)
    next
      case (Inr resp)
      let ?y = "step_record (length (g_results g)) c cid resp"
      have y: "y_id ?y = cid" "y_value ?y = p_value resp" "y_verified ?y = p_verified resp"
        by (simp_all add: step_record_def)
      show ?thesis
      proof (cases "p_verified resp")
        case False
        then show ?thesis using act lim call Inr y(3)
          by (auto simp: activate_def tab rcv(1) Let_def ends_def follows_def)
      next
        case ver: True
        have df': "stream_dataflow drv net d0 (g_results g @ [?y]) d"
          by (rule stream_dataflow.step [OF df c rcv(2) call [unfolded Inr] ver])
        show ?thesis
        proof (cases "build_emitter net c cid (p_value resp) conns")
          case (Inl s')
          have "linked (stream_edges net) conns"
            using inv rcv(3,4) unfolding stream_inv_def linked_def list_all2_conv_all_nth link_def by auto
          from build_emitter_no_crash [OF wf this ok c Inl] show ?thesis
            using act lim call Inr ver Inl
            by (auto simp: activate_def tab rcv(1) Let_def ends_def follows_def)
        next
          case em: (Inr em)
          have g': "s = None" "g_conns g' = conns" "g_results g' = g_results g @ [?y]" "g_driver g' = d"
            "g_spent g' = (if wired_in cid (g_conns g) = [] then cid # g_spent g else g_spent g)"
            "g_emitters g' = (if emitter_empty em then g_emitters g else dput cid em (g_emitters g))"
            "g_activations g' = g_activations g + 1" "g_sends g' = g_sends g"
            using act lim call Inr ver em
            by (auto simp: activate_def tab rcv(1) Let_def split: if_splits)
          have "stream_inv net (stream_edges net) g'"
            by (rule stream_inv_activated [OF wf inv rdy c ok rcv(3,4) y(1) em [folded y(2)] g'(2,3,5,6)])
          then show ?thesis using df' cnt lim g' length_dput_le [of cid em "g_emitters g"] by simp
        qed
      qed
    qed
  qed
qed

section \<open>Turns and the loop\<close>

definition running :: "'d driver \<Rightarrow> network \<Rightarrow> 'd \<Rightarrow> int \<Rightarrow> 'd scheduler \<Rightarrow> bool" where
  "running drv net d0 limit g \<longleftrightarrow> stream_inv net (stream_edges net) g \<and>
     stream_dataflow drv net d0 (g_results g) (g_driver g) \<and>
     g_activations g = int (length (g_results g)) \<and> g_activations g \<le> limit \<and>
     g_sends g \<le> limit * MAX_CONNECTION_CAPACITY"

text \<open>Everything that was emitted on an edge has been consumed, and every component without
  incoming edges has run exactly once.\<close>

definition drained :: "network \<Rightarrow> string list \<Rightarrow> step_result list \<Rightarrow> bool" where
  "drained net order rs \<longleftrightarrow> (\<forall>e \<in> set (n_edges net). length (emitted net rs e) = acts rs (e_target e)) \<and>
     (\<forall>cid \<in> set order. (\<forall>e \<in> set (n_edges net). e_target e \<noteq> cid) \<longrightarrow> acts rs cid = 1)"

definition budget :: "int \<Rightarrow> 'd scheduler \<Rightarrow> nat" where
  "budget limit g = 2 * nat (limit - g_activations g) + nat (limit * MAX_CONNECTION_CAPACITY - g_sends g) +
     length (g_emitters g)"

lemma set_stream_edges [simp]: "set (stream_edges net) = set (n_edges net)"
  by (simp add: stream_edges_def)

lemma drained_at_rest:
  assumes run: "stream_inv net (stream_edges net) g" and none: "filter (is_ready g) order = []"
    and em: "g_emitters g = []" and rest: "\<forall>c \<in> set (g_conns g). is_empty c"
  shows "drained net order (g_results g)"
proof -
  let ?es = "stream_edges net"
  have lk: "linked ?es (g_conns g)" using run by (simp add: stream_inv_def)
  have edge: "length (emitted net (g_results g) (?es ! j)) = acts (g_results g) (e_target (?es ! j))"
    if j: "j < length ?es" for j
  proof -
    have "edge_inv net (?es ! j) (g_results g) (g_conns g ! j) (rem_of ?es (g_emitters g) j)"
      using run j by (simp add: stream_inv_def)
    moreover have "is_empty (g_conns g ! j)" using rest j linked_length [OF lk] by simp
    ultimately show ?thesis by (simp add: edge_inv_def rem_of_def em is_empty_def)
  qed
  have src: "acts (g_results g) cid = 1" if "cid \<in> set order" "\<forall>e \<in> set (n_edges net). e_target e \<noteq> cid" for cid
  proof -
    have "wired_in cid (g_conns g) = []"
      using that(2) by (auto simp: wired_in_edges [OF lk] filter_empty_conv)
        (metis nth_mem set_stream_edges)
    then have "cid \<in> set (g_spent g)"
      using none that(1) em by (auto simp: filter_empty_conv is_ready_def)
    then show ?thesis using run that(2) by (simp add: stream_inv_def spent_ok_def)
  qed
  have "length (emitted net (g_results g) e) = acts (g_results g) (e_target e)" if "e \<in> set (n_edges net)" for e
    using that edge by (metis in_set_conv_nth set_stream_edges)
  then show ?thesis using src by (simp add: drained_def)
qed

lemma stream_turn_result:
  assumes r: "runnable net order" and run: "running drv net d0 limit g"
    and turn: "stream_turn drv net limit order g = (g', s)"
  shows "(s = None \<longrightarrow> running drv net d0 limit g' \<and> budget limit g' < budget limit g) \<and>
    (s = Some None \<longrightarrow> g' = g \<and> drained net order (g_results g)) \<and>
    (\<forall>s'. s = Some (Some s') \<longrightarrow> ends (g_results g') s' \<and> follows (g_results g) (g_results g') \<and>
       int (length (g_results g')) \<le> limit)"
proof -
  let ?es = "stream_edges net"
  have inv: "stream_inv net ?es g" and df: "stream_dataflow drv net d0 (g_results g) (g_driver g)"
    and cnt: "g_activations g = int (length (g_results g))" "g_activations g \<le> limit"
    and snds: "g_sends g \<le> limit * MAX_CONNECTION_CAPACITY"
    using run by (simp_all add: running_def)
  show ?thesis
  proof (cases "filter (is_ready g) order")
    case (Cons cid cids)
    then have "cid \<in> set (filter (is_ready g) order)" by simp
    then have rdy: "is_ready g cid" "cid \<in> set (component_ids net)" using r by (auto simp: runnable_def)
    obtain s1 where act: "activate drv net limit cid g = (g', s1)" "s = map_option Some s1"
      using turn Cons by (auto simp: stream_turn_def split: prod.splits)
    note res = activate_result [OF r inv rdy df cnt(1) act(1)]
    show ?thesis
    proof (cases s1)
      case None
      with res have n: "stream_inv net ?es g'" "stream_dataflow drv net d0 (g_results g') (g_driver g')"
        "g_activations g' = int (length (g_results g'))" "g_activations g' = g_activations g + 1"
        "g_activations g' \<le> limit" "g_sends g' = g_sends g"
        "length (g_emitters g') \<le> Suc (length (g_emitters g))" by auto
      then have "running drv net d0 limit g'" using snds by (simp add: running_def)
      moreover have "budget limit g' < budget limit g" using n(4-7) by (simp add: budget_def)
      ultimately show ?thesis using act(2) None by simp
    next
      case (Some s')
      with res have "ends (g_results g') s'" "follows (g_results g) (g_results g')"
        "g_results g' = g_results g \<or> g_activations g < limit" by auto
      then show ?thesis using act(2) Some cnt by (auto simp: follows_def)
    qed
  next
    case Nil
    show ?thesis
    proof (cases "g_emitters g = []")
      case True
      have "drained net order (g_results g)" if "\<forall>c \<in> set (g_conns g). is_empty c"
        by (rule drained_at_rest [OF inv Nil True that])
      then show ?thesis using turn Nil True cnt
        by (auto simp: stream_turn_def ends_def follows_def split: if_splits)
    next
      case False
      let ?cids = "sort_key (\<lambda>c. (topo_index order c, c)) (dkeys (g_emitters g))"
      obtain s1 where res: "resume limit ?cids g = (g', s1)" "s = map_option Some s1"
        using turn Nil False by (auto simp: stream_turn_def split: prod.splits)
      have "\<forall>cid \<in> set ?cids. dget (g_emitters g) cid \<noteq> None" by (auto simp: dkeys_def dget_None_iff)
      note rr = resume_result [OF inv this res(1)]
      show ?thesis
      proof (cases s1)
        case None
        with rr have n: "stream_inv net ?es g'" "g_results g' = g_results g" "g_driver g' = g_driver g"
          "g_activations g' = g_activations g" "g_sends g' = g_sends g + 1 \<and> g_sends g' \<le> limit * MAX_CONNECTION_CAPACITY \<and>
             length (g_emitters g') = length (g_emitters g) \<or>
           g_sends g' = g_sends g \<and> length (g_emitters g') < length (g_emitters g)" by auto
        then have "running drv net d0 limit g'" using run snds by (auto simp: running_def)
        moreover have "budget limit g' < budget limit g" using n(4,5) by (auto simp: budget_def)
        ultimately show ?thesis using res(2) None by simp
      next
        case (Some s')
        then show ?thesis using rr res(2) cnt by (auto simp: ends_def follows_def)
      qed
    qed
  qed
qed

end
