(* ===== verification/Network_Compile.thy ===== *)
theory Network_Compile
  imports Network
begin

text \<open>
  \<open>ComponentNetwork.compile\<close>: a valid network becomes an ordered list of run steps. An edge
  out of a component with declared out-ports is a wire of the step; an edge out of a component
  without them copies a field of the source's argument template into the target's arguments.
\<close>

section \<open>The compiler\<close>

record wire =
  w_inport :: string
  w_source :: string
  w_outport :: string
  w_capacity :: int

record plan_step =
  s_task :: string
  s_args :: "pyval dict"
  s_wires :: "wire list"
  s_verifier :: "string option"
  s_child :: "string option"

definition truthy_name :: "string option \<Rightarrow> string option" where
  "truthy_name v = (case v of None \<Rightarrow> None | Some s \<Rightarrow> (if s = [] then None else Some s))"

definition compile_edge ::
  "network \<Rightarrow> string \<Rightarrow> edge \<Rightarrow> pyval dict \<times> wire list \<Rightarrow> net_error + pyval dict \<times> wire list" where
  "compile_edge net cid e aw =
     (if e_target e \<noteq> cid then Inr aw
      else (case lookup net (e_source e) of
              None \<Rightarrow> Inl (Key_Error (e_source e))
            | Some src \<Rightarrow>
                if ports_of src ''out'' \<noteq> [] then
                  Inr (fst aw, snd aw @ [\<lparr>w_inport = e_target_arg e, w_source = e_source e,
                         w_outport = e_source_field e, w_capacity = e_capacity e\<rparr>])
                else (case dget (c_args src) (e_source_field e) of
                        None \<Rightarrow> Inl (Unknown_Output_Field (e_source e) (e_source_field e))
                      | Some v \<Rightarrow> Inr (dput (e_target_arg e) v (fst aw), snd aw))))"

definition wire_key :: "wire \<Rightarrow> string \<times> string \<times> string \<times> int" where
  "wire_key w = (w_source w, w_outport w, w_inport w, w_capacity w)"

definition compile_component :: "network \<Rightarrow> string \<Rightarrow> net_error + plan_step" where
  "compile_component net cid =
     (case lookup net cid of
        None \<Rightarrow> Inl (Key_Error cid)
      | Some c \<Rightarrow>
          bindR (foldR (compile_edge net cid) (n_edges net) (c_args c, []))
            (\<lambda>(args, wires). Inr \<lparr>s_task = c_task c, s_args = args,
               s_wires = sort_key wire_key wires,
               s_verifier = truthy_name (c_verifier c), s_child = truthy_name (c_child c)\<rparr>))"

definition compile :: "network \<Rightarrow> net_error + plan_step list" where
  "compile net =
     thenR (validate 0 net)
       (bindR (topological_order_raw net) (mapR (compile_component net)))"

section \<open>Which networks compile\<close>

definition edge_compiles :: "network \<Rightarrow> edge \<Rightarrow> bool" where
  "edge_compiles net e \<longleftrightarrow> (\<exists>src. lookup net (e_source e) = Some src \<and>
     (ports_of src ''out'' \<noteq> [] \<or> dget (c_args src) (e_source_field e) \<noteq> None))"

lemma compile_edge_ok_iff:
  "isOk (compile_edge net cid e aw) \<longleftrightarrow> e_target e \<noteq> cid \<or> edge_compiles net e"
  by (auto simp: compile_edge_def edge_compiles_def isOk_def split: option.splits if_splits)

lemma compile_edges_ok_iff:
  "isOk (foldR (compile_edge net cid) es aw) \<longleftrightarrow>
     (\<forall>e \<in> set es. e_target e = cid \<longrightarrow> edge_compiles net e)"
proof (induction es arbitrary: aw)
  case Nil
  then show ?case by simp
next
  case (Cons e es)
  show ?case
  proof (cases "compile_edge net cid e aw")
    case (Inl err)
    then show ?thesis using compile_edge_ok_iff [of net cid e aw] by auto
  next
    case (Inr aw')
    then show ?thesis using compile_edge_ok_iff [of net cid e aw] Cons.IH [of aw'] by auto
  qed
qed

lemma isOk_bindR: "isOk (bindR r f) \<longleftrightarrow> (\<exists>a. r = Inr a \<and> isOk (f a))"
  by (cases r) auto

lemma isOk_mapR: "isOk (mapR f xs) \<longleftrightarrow> (\<forall>x \<in> set xs. isOk (f x))"
proof (induction xs)
  case Nil
  then show ?case by simp
next
  case (Cons x xs)
  then show ?case by (cases "f x"; cases "mapR f xs") (auto simp: isOk_iff)
qed

lemma compile_component_ok_iff:
  "isOk (compile_component net cid) \<longleftrightarrow> cid \<in> set (component_ids net) \<and>
     (\<forall>e \<in> set (n_edges net). e_target e = cid \<longrightarrow> edge_compiles net e)"
proof (cases "lookup net cid")
  case None
  then show ?thesis using lookup_None_iff [of net cid] by (simp add: compile_component_def)
next
  case (Some c)
  then show ?thesis
    using compile_edges_ok_iff [of net cid "n_edges net" "(c_args c, [])"] lookup_Some_in [OF Some]
    by (cases "foldR (compile_edge net cid) (n_edges net) (c_args c, [])")
      (auto simp: compile_component_def)
qed

lemma compile_ok_iff:
  assumes "distinct (component_ids net)"
  shows "isOk (compile net) \<longleftrightarrow>
    validate 0 net = Inr () \<and> (\<forall>e \<in> set (n_edges net). edge_compiles net e)"
proof (cases "validate 0 net = Inr ()")
  case True
  then obtain os where os: "topological_order_raw net = Inr os" "set os = set (component_ids net)"
    using topological_order_ok [OF assms] by (auto simp: topological_order_def)
  have "edges_inside net"
    using validate_parts(2) [OF True] by (rule validate_edges_inside)
  then have "\<forall>e \<in> set (n_edges net). e_target e \<in> set (component_ids net)"
    by (force simp: edges_inside_def edge_pairs_def)
  then show ?thesis
    using True os by (auto simp: compile_def isOk_mapR compile_component_ok_iff)
next
  case False
  then show ?thesis by (auto simp: compile_def isOk_iff result_simps)
qed

section \<open>What the plan holds\<close>

lemma compile_edge_wires:
  assumes "compile_edge net cid e aw = Inr aw'"
  shows "set (snd aw') \<subseteq> set (snd aw) \<union>
    (if e_target e = cid then {\<lparr>w_inport = e_target_arg e, w_source = e_source e,
       w_outport = e_source_field e, w_capacity = e_capacity e\<rparr>} else {})"
  using assms by (auto simp: compile_edge_def split: if_splits option.splits)

lemma compile_edges_wires:
  assumes "foldR (compile_edge net cid) es aw = Inr aw'" "w \<in> set (snd aw')"
  shows "w \<in> set (snd aw) \<or>
    (\<exists>e \<in> set es. e_target e = cid \<and> w_source w = e_source e \<and> w_inport w = e_target_arg e \<and>
       w_outport w = e_source_field e \<and> w_capacity w = e_capacity e)"
  using assms
proof (induction es arbitrary: aw)
  case Nil
  then show ?case by simp
next
  case (Cons e es)
  from Cons.prems(1) obtain aw1 where aw1: "compile_edge net cid e aw = Inr aw1"
    "foldR (compile_edge net cid) es aw1 = Inr aw'"
    by (auto simp: result_simps)
  from Cons.IH [OF aw1(2) Cons.prems(2)] compile_edge_wires [OF aw1(1)]
  show ?case by (auto split: if_splits)
qed

lemma compile_component_step:
  assumes "compile_component net cid = Inr st"
  shows "\<exists>c. lookup net cid = Some c \<and> s_task st = c_task c"
    "w \<in> set (s_wires st) \<Longrightarrow> \<exists>e \<in> set (n_edges net). e_target e = cid \<and> e_source e = w_source w \<and>
       e_target_arg e = w_inport w \<and> e_source_field e = w_outport w \<and> e_capacity e = w_capacity w"
  using assms
  by (auto simp: compile_component_def result_simps split: option.splits prod.splits
      dest!: compile_edges_wires)

lemma compile_result:
  assumes "distinct (component_ids net)" "compile net = Inr steps"
  shows "\<exists>os. topological_order net = Inr os \<and>
    list_all2 (\<lambda>cid st. compile_component net cid = Inr st) os steps"
  using assms(2) by (auto simp: compile_def topological_order_def result_simps)

lemma compile_wires_backward:
  assumes wf: "distinct (component_ids net)" and ok: "compile net = Inr steps"
    and os: "topological_order net = Inr os" and i: "i < length steps"
    and w: "w \<in> set (s_wires (steps ! i))"
  shows "w_source w \<in> set (take i os)"
proof -
  have l2: "list_all2 (\<lambda>cid st. compile_component net cid = Inr st) os steps"
    using compile_result [OF wf ok] os by simp
  then have "compile_component net (os ! i) = Inr (steps ! i)" and len: "length os = length steps"
    using i by (auto simp: list_all2_conv_all_nth)
  then obtain e where e: "e \<in> set (n_edges net)" "e_target e = os ! i" "e_source e = w_source w"
    using compile_component_step(2) w by blast
  have val: "validate 0 net = Inr ()" using ok by (auto simp: compile_def result_simps)
  have "topo_before (set (edge_pairs net)) os"
    using topological_order_ok [OF wf val] os by simp
  moreover have "(w_source w, os ! i) \<in> set (edge_pairs net)"
    using e by (force simp: edge_pairs_def)
  moreover have "os = take i os @ os ! i # drop (Suc i) os"
    using i len by (simp add: id_take_nth_drop)
  ultimately show ?thesis unfolding topo_before_def by blast
qed

end
