(* ===== verification/Network_Props.thy ===== *)
theory Network_Props
  imports Network_Compile
begin

text \<open>
  The properties of \<open>cbp/network.py\<close>: what validation accepts, that the order of a valid
  network is topological and independent of insertion, and what compiling yields. The
  examples \<open>ex_net\<close> and \<open>ex_nested\<close> are the inputs of the witnesses.
\<close>

section \<open>Example networks\<close>

definition ex_component :: "string \<Rightarrow> string list \<Rightarrow> string list \<Rightarrow> component" where
  "ex_component cid ins outs =
     Component cid (''task-'' @ cid) [] None None [(''in'', ins), (''out'', outs)]
       [(''out'', map (\<lambda>p. (p, ''int'')) outs)] [] [] None"

definition ex_edge :: "string \<Rightarrow> string \<Rightarrow> edge" where
  "ex_edge s t = \<lparr>e_source = s, e_source_field = ''o'', e_target = t, e_target_arg = ''i'', e_capacity = 1\<rparr>"

definition ex_net :: network where
  "ex_net = Network
     [(''c'', ex_component ''c'' [''i''] []), (''a'', ex_component ''a'' [''k''] [''o'']),
      (''b'', ex_component ''b'' [''i''] [''o''])]
     [ex_edge ''b'' ''c'', ex_edge ''a'' ''b'']
     [\<lparr>i_component = ''a'', i_port = ''k'', i_value = PInt 7\<rparr>]"

definition ex_net_permuted :: network where
  "ex_net_permuted = Network
     [(''a'', ex_component ''a'' [''k''] [''o'']), (''b'', ex_component ''b'' [''i''] [''o'']),
      (''c'', ex_component ''c'' [''i''] [])]
     [ex_edge ''a'' ''b'', ex_edge ''b'' ''c'']
     [\<lparr>i_component = ''a'', i_port = ''k'', i_value = PInt 7\<rparr>]"

definition ex_composite :: component where
  "ex_composite = Component ''box'' ''subnet'' [] None None [(''in'', [''x'']), (''out'', [])] []
     [] [(''x'', ''a.k'')] (Some ex_net)"

definition ex_nested :: network where
  "ex_nested = Network [(''box'', ex_composite)] [] []"

lemma ex_net_valid: "validate 0 ex_net = Inr ()"
  by code_simp

lemma ex_net_permuted_valid: "validate 0 ex_net_permuted = Inr ()"
  by code_simp

lemma ex_nested_valid: "validate 0 ex_nested = Inr ()"
  by code_simp

lemma ex_net_order: "topological_order ex_net = Inr [''a'', ''b'', ''c'']"
  by code_simp

lemma ex_net_keys: "wf_keys ex_net"
  by (simp add: wf_keys_def ex_net_def component_ids_def ex_component_def)

section \<open>Networks as the class builds them\<close>

inductive built :: "network \<Rightarrow> bool" where
  built_empty: "built empty_network"
| built_component: "built net \<Longrightarrow> add_component c net = Inr net' \<Longrightarrow> built net'"
| built_edge: "built net \<Longrightarrow> built (add_edge e net)"
| built_iip: "built net \<Longrightarrow> built (add_iip i net)"

lemma built_wf_keys: "built net \<Longrightarrow> wf_keys net"
proof (induction rule: built.induct)
  case built_empty
  show ?case by (rule wf_keys_empty)
next
  case (built_component net c net')
  then show ?case by (blast intro: wf_keys_add_component)
next
  case (built_edge net e)
  then show ?case by (blast intro: wf_keys_add_edge)
next
  case (built_iip net i)
  then show ?case by (blast intro: wf_keys_add_iip)
qed

lemma built_checked: "built net \<Longrightarrow> (k, c) \<in> set (n_components net) \<Longrightarrow> check_component c = Inr ()"
proof (induction arbitrary: k c rule: built.induct)
  case (built_component net c' net')
  then have "n_components net' = dput (c_id c') c' (n_components net)" "check_component c' = Inr ()"
    by (auto simp: add_component_def result_simps)
  with built_component show ?case by (auto dest!: in_dput)
qed (auto simp: empty_network_def add_edge_def add_iip_def)

lemma built_components:
  assumes "distinct (map fst cs)" "\<forall>(k, c) \<in> set cs. c_id c = k \<and> check_component c = Inr ()"
  shows "built (Network cs [] [])"
  using assms
proof (induction cs rule: rev_induct)
  case Nil
  show ?case using built_empty by (simp add: empty_network_def)
next
  case (snoc kc cs)
  obtain k c where kc: "kc = (k, c)" by force
  have "add_component c (Network cs [] []) = Inr (Network (cs @ [(k, c)]) [] [])"
    using snoc.prems by (simp add: add_component_def kc length_dput_new)
  then show ?case using snoc by (auto simp: kc intro: built_component)
qed

lemma built_edges: "built (Network cs [] []) \<Longrightarrow> built (Network cs es [])"
proof (induction es rule: rev_induct)
  case (snoc e es)
  then show ?case using built_edge [of "Network cs es []" e] by (simp add: add_edge_def)
qed

lemma built_iips: "built (Network cs es []) \<Longrightarrow> built (Network cs es is)"
proof (induction "is" rule: rev_induct)
  case (snoc i "is")
  then show ?case using built_iip [of "Network cs es is" i] by (simp add: add_iip_def)
qed simp

lemma built_iff:
  "built net \<longleftrightarrow> wf_keys net \<and> (\<forall>(k, c) \<in> set (n_components net). check_component c = Inr ())"
proof
  assume "built net"
  then show "wf_keys net \<and> (\<forall>(k, c) \<in> set (n_components net). check_component c = Inr ())"
    using built_wf_keys built_checked by blast
next
  assume r: "wf_keys net \<and> (\<forall>(k, c) \<in> set (n_components net). check_component c = Inr ())"
  obtain cs es "is" where net: "net = Network cs es is" by (cases net)
  have "built (Network cs [] [])"
  proof (rule built_components)
    show "distinct (map fst cs)" using r by (simp add: net wf_keys_def component_ids_def)
    show "\<forall>(k, c) \<in> set cs. c_id c = k \<and> check_component c = Inr ()"
      using r unfolding net wf_keys_def network.sel by blast
  qed
  then show "built net" unfolding net by (rule built_iips [OF built_edges])
qed

lemma ex_net_built: "built ex_net"
  unfolding built_iff wf_keys_def by code_simp

lemma ex_net_permuted_built: "built ex_net_permuted"
  unfolding built_iff wf_keys_def by code_simp

section \<open>Properties\<close>

text \<open>C16: A network built by the class's operations that passes \<open>validate\<close> has a topological
  order: \<open>topological_order\<close> returns every component exactly once, each after the sources of
  all its incoming edges.\<close>

theorem topological_order_correct:
  assumes "built net" and "validate 0 net = Inr ()"
  shows "\<exists>os. topological_order net = Inr os \<and> distinct os \<and> set os = set (component_ids net) \<and>
    topo_before (set (edge_pairs net)) os"
  using topological_order_ok built_wf_keys [OF assms(1)] assms(2) by (simp add: wf_keys_def)

lemma topological_order_correct_witness:
  "built ex_net \<and> validate 0 ex_net = Inr () \<and> (\<exists>os. topological_order ex_net = Inr os \<and> distinct os \<and>
     set os = set (component_ids ex_net) \<and> topo_before (set (edge_pairs ex_net)) os)"
  using topological_order_correct [OF ex_net_built ex_net_valid] ex_net_built ex_net_valid by blast

text \<open>C11: \<open>validate\<close> accepts exactly the networks within the depth limit whose edges join declared,
  type-compatible ports of existing components with a capacity in range, whose edge relation is acyclic,
  whose stream ports are out-ports, where no edge feeds a port that an initial packet binds, and whose
  initial packets, composite boundaries and bodies pass the code's own checks: these last clauses name \<open>validate_iip\<close>, \<open>check_boundary\<close> and \<open>validate\<close> at the next depth and do not restate them.\<close>

theorem validate_accepts_iff:
  assumes "built net"
  shows "validate depth net = Inr () \<longleftrightarrow>
     depth \<le> MAX_SUBNET_DEPTH \<and> (\<forall>e \<in> set (n_edges net). edge_ok net e) \<and>
     (\<exists>seen. foldR (validate_iip net) (n_iips net) [] = Inr seen \<and>
        (\<forall>e \<in> set (n_edges net). (e_target e, e_target_arg e) \<notin> set seen)) \<and>
     (\<forall>c \<in> set (components net). (\<forall>p \<in> set (c_stream c). p \<in> set (ports_of c ''out'')) \<and>
        (case c_subnet c of None \<Rightarrow> c_external c = []
         | Some sub \<Rightarrow> depth < MAX_SUBNET_DEPTH \<and> check_boundary c sub = Inr () \<and>
             validate (Suc depth) sub = Inr ())) \<and>
     acyclic (set (edge_pairs net))"
proof -
  have d: "distinct (component_ids net)" using built_wf_keys [OF assms] by (simp add: wf_keys_def)
  have "edges_inside net" if "\<forall>e \<in> set (n_edges net). edge_ok net e"
    using that validate_edges_inside [of net "()"] by (simp add: iterR_Inr_iff validate_edge_ok_iff)
  then have "check_acyclic net = Inr () \<longleftrightarrow> acyclic (set (edge_pairs net))"
    if "\<forall>e \<in> set (n_edges net). edge_ok net e"
    using check_acyclic_iff [OF d] that by simp
  then show ?thesis by (subst validate_iff) blast
qed

lemma validate_accepts_iff_witness:
  "built ex_net \<and> acyclic (set (edge_pairs ex_net))"
  using validate_accepts_iff [OF ex_net_built, of 0] ex_net_valid ex_net_built by blast

text \<open>The topological order depends only on the set of component ids and the multiset of edges:
  two valid networks that differ in insertion order compile in the same order.\<close>

theorem topological_order_insertion_independent:
  assumes "built net" "built net'" "validate 0 net = Inr ()" "validate 0 net' = Inr ()"
    and "set (component_ids net) = set (component_ids net')"
    and "mset (edge_pairs net) = mset (edge_pairs net')"
  shows "topological_order net = topological_order net'"
proof -
  have "mset (component_ids net) = mset (component_ids net')"
    using built_wf_keys [OF assms(1)] built_wf_keys [OF assms(2)] assms(5)
    by (simp add: wf_keys_def set_eq_iff_mset_eq_distinct)
  then show ?thesis
    using topological_order_raw_cong [OF _ assms(6)] assms(3,4) by (simp add: topological_order_def)
qed

lemma topological_order_insertion_independent_witness:
  "topological_order ex_net = topological_order ex_net_permuted"
  by (rule topological_order_insertion_independent
      [OF ex_net_built ex_net_permuted_built ex_net_valid ex_net_permuted_valid]; code_simp)

text \<open>Nesting is bounded: whatever \<open>validate\<close> accepts has composites nested at most eight
  levels deep.\<close>

theorem validated_nesting_bounded:
  assumes "validate 0 net = Inr ()"
  shows "nests (Suc MAX_SUBNET_DEPTH) net"
  using validate_nests [OF assms] by simp

lemma validated_nesting_bounded_witness:
  "validate 0 ex_nested = Inr () \<and> nests (Suc MAX_SUBNET_DEPTH) ex_nested"
  using validated_nesting_bounded [OF ex_nested_valid] ex_nested_valid by simp

text \<open>Compiling succeeds exactly on the valid networks in which every edge leaves a component
  with declared out-ports or names a field of its source's argument template.\<close>

theorem compile_succeeds_iff:
  assumes "built net"
  shows "isOk (compile net) \<longleftrightarrow>
    validate 0 net = Inr () \<and> (\<forall>e \<in> set (n_edges net). edge_compiles net e)"
  using compile_ok_iff built_wf_keys [OF assms] by (simp add: wf_keys_def)

lemma compile_succeeds_iff_witness: "built ex_net \<and> isOk (compile ex_net)"
proof -
  have "\<forall>e \<in> set (n_edges ex_net). edge_compiles ex_net e"
    by (auto simp: edge_compiles_def ex_net_def ex_edge_def lookup_def dget_def ex_component_def
        ports_of_def dget_or_def)
  then show ?thesis using compile_succeeds_iff [OF ex_net_built] ex_net_valid ex_net_built by simp
qed

text \<open>In a compiled plan step \<open>i\<close> runs the task of the \<open>i\<close>-th component of the topological
  order, and every wire it reads comes from a component that an earlier step runs.\<close>

theorem compiled_plan_ordered:
  assumes "built net" "compile net = Inr steps"
  shows "\<exists>os. topological_order net = Inr os \<and> length os = length steps \<and>
    (\<forall>i < length steps.
       (\<exists>c. lookup net (os ! i) = Some c \<and> s_task (steps ! i) = c_task c) \<and>
       (\<forall>w \<in> set (s_wires (steps ! i)). w_source w \<in> set (take i os)))"
proof -
  have d: "distinct (component_ids net)" using built_wf_keys [OF assms(1)] by (simp add: wf_keys_def)
  obtain os where os: "topological_order net = Inr os"
    "list_all2 (\<lambda>cid st. compile_component net cid = Inr st) os steps"
    using compile_result [OF d assms(2)] by blast
  then show ?thesis
    using compile_wires_backward [OF d assms(2) os(1)] compile_component_step(1)
    by (auto simp: list_all2_conv_all_nth)
qed

lemma compiled_plan_ordered_witness:
  "\<exists>steps os. compile ex_net = Inr steps \<and> topological_order ex_net = Inr os \<and> length os = length steps"
proof -
  have "isOk (compile ex_net)" by code_simp
  then obtain steps where "compile ex_net = Inr steps" by (auto simp: isOk_iff)
  then show ?thesis using compiled_plan_ordered [OF ex_net_built] by blast
qed

end
