(* ===== verification/Flow_Props.thy ===== *)
theory Flow_Props
  imports Flow Network_Props
begin

text \<open>
  The properties of the single-shot engine: every run of a built network returns a report, and
  the report is that of the connection-free dataflow specification of \<open>Flow\<close>; the engine never
  deadlocks nor overflows a connection; whatever fails, nothing runs after it.
\<close>

section \<open>An example driver\<close>

text \<open>It counts its calls, answers every component with a packet on the out-port \<open>o\<close>, and refuses
  the task \<open>fail\<close>.\<close>

definition ex_driver :: "nat driver" where
  "ex_driver n task args verifier child =
     (if task = ''fail'' then (Suc n, Inl ''boom'')
      else (Suc n, Inr \<lparr>p_verified = True, p_value = PDict [(''o'', PInt (int n))], p_error = None\<rparr>))"

definition ex_flow_report :: report where
  "ex_flow_report = ok_report
     [\<lparr>y_step = 0, y_id = ''a'', y_task = ''task-a'', y_verified = True,
        y_value = PDict [(''o'', PInt 0)], y_error = None\<rparr>,
      \<lparr>y_step = 1, y_id = ''b'', y_task = ''task-b'', y_verified = True,
        y_value = PDict [(''o'', PInt 1)], y_error = None\<rparr>,
      \<lparr>y_step = 2, y_id = ''c'', y_task = ''task-c'', y_verified = True,
        y_value = PDict [(''o'', PInt 2)], y_error = None\<rparr>]"

lemma ex_flow_run: "run_flow ex_driver ex_net None 0 = (3, Inr ex_flow_report)"
  by code_simp

section \<open>Outcomes\<close>

lemma flow_outcome_ok:
  "flow_outcome drv net order d d' rep \<Longrightarrow> r_ok rep \<Longrightarrow>
    dataflow drv net d (r_results rep) d' \<and> map y_id (r_results rep) = order \<and>
    r_completed rep = length order \<and> r_error rep = None \<and> r_failed rep = None"
  by (auto elim!: flow_outcome.cases simp: ok_report_def fail_report_def unverified_report_def)

lemma flow_outcome_error:
  "flow_outcome drv net order d d' rep \<Longrightarrow> r_error rep = Some e \<Longrightarrow>
    packet_fault e \<or> (\<exists>cid task msg. e = Component_Raised cid task msg)"
  by (auto elim!: flow_outcome.cases simp: ok_report_def fail_report_def unverified_report_def)

lemma flow_outcome_prefix:
  assumes "flow_outcome drv net order d d' rep"
  shows "\<exists>rest. order = map y_id (r_results rep) @ rest"
  using assms
  by (auto elim!: flow_outcome.cases simp: ok_report_def fail_report_def unverified_report_def
      step_record_def) (metis append_assoc)?

lemma flow_outcome_verified:
  assumes "flow_outcome drv net order d d' rep"
  shows "\<forall>i < length (r_results rep) - 1. y_verified (r_results rep ! i)"
  using assms
  by (auto elim!: flow_outcome.cases intro: dataflow_verified
      simp: ok_report_def fail_report_def unverified_report_def nth_append)

section \<open>Properties\<close>

text \<open>C1: The single-shot engine refines dataflow: for a network built by the class's operations and
  any driver, \<open>run_flow\<close> returns a report and no exception leaves it. When the network is admitted
  (valid, within the step limit, every edge between declared ports) the report is an outcome of the
  specification without connections, in which each component runs on its template, its initial
  packets and the type-checked outputs of its sources; otherwise no component has run.\<close>

theorem flow_refines_dataflow:
  assumes "built net"
  shows "\<exists>d' rep. run_flow drv net step_limit d = (d', Inr rep) \<and>
    (if admitted net step_limit
     then \<exists>order. topological_order net = Inr order \<and> flow_outcome drv net order d d' rep
     else d' = d \<and> \<not> r_ok rep \<and> r_results rep = [])"
  using run_flow_cases [OF built_wf_keys [OF assms], of step_limit drv d]
  by (auto simp: fail_report_def admit_ok_iff)

lemma flow_refines_dataflow_witness:
  "built ex_net \<and> (\<exists>order. topological_order ex_net = Inr order \<and>
     flow_outcome ex_driver ex_net order 0 3 ex_flow_report)"
proof -
  have "isOk (admit ex_net None)" "port_mode_ok ex_net" by code_simp+
  then have "admitted ex_net None" by (simp add: admitted_def)
  then show ?thesis
    using flow_refines_dataflow [OF ex_net_built, of ex_driver None 0] ex_flow_run ex_net_built by auto
qed

text \<open>A successful run is complete: it ran every component once, in topological order, within the
  step limit, and every step was verified.\<close>

theorem flow_success_complete:
  assumes "built net" "run_flow drv net step_limit d = (d', Inr rep)" "r_ok rep"
  shows "topological_order net = Inr (map y_id (r_results rep)) \<and>
    set (map y_id (r_results rep)) = set (component_ids net) \<and>
    (\<forall>y \<in> set (r_results rep). y_verified y) \<and> r_completed rep = length (r_results rep) \<and>
    int (length (r_results rep)) \<le> run_limit step_limit"
proof -
  have wf: "wf_keys net" using assms(1) by (rule built_wf_keys)
  from run_flow_cases [OF wf, of step_limit drv d] assms(2,3) obtain order where
    order: "admit net step_limit = Inr order" "flow_outcome drv net order d d' rep"
    by (auto simp: fail_report_def)
  from flow_outcome_ok [OF order(2) assms(3)] have ok: "dataflow drv net d (r_results rep) d'"
    "map y_id (r_results rep) = order" "r_completed rep = length order" by auto
  have "length (r_results rep) = length order" using ok(2) by (metis length_map)
  then show ?thesis
    using admit_order [OF wf order(1)] order(1) ok dataflow_results [OF ok(1)]
    by (auto simp: admit_ok_iff in_set_conv_nth)
qed

lemma flow_success_complete_witness:
  "r_ok ex_flow_report \<and> topological_order ex_net = Inr (map y_id (r_results ex_flow_report))"
proof -
  have "r_ok ex_flow_report" by code_simp
  then show ?thesis using flow_success_complete [OF ex_net_built ex_flow_run] by blast
qed

text \<open>The engine never deadlocks and never overflows: in a network built by the class's operations
  an in-port always has its packet when its component runs, and a connection always has room.\<close>

theorem flow_never_stuck:
  assumes "built net" "run_flow drv net step_limit d = (d', Inr rep)"
  shows "r_error rep \<noteq> Some (No_Packet cid port) \<and> r_error rep \<noteq> Some (Connection_Full cid port) \<and>
    r_error rep \<noteq> Some (Connection_Empty cid port)"
proof -
  have "rejection e \<or> packet_fault e \<or> (\<exists>cid task msg. e = Component_Raised cid task msg)"
    if "r_error rep = Some e" for e
    using run_flow_cases [OF built_wf_keys [OF assms(1)], of step_limit drv d] assms(2) that
    by (auto simp: fail_report_def dest: flow_outcome_error)
  then show ?thesis by (fastforce simp: rejection_def packet_fault_def)
qed

lemma flow_never_stuck_witness:
  "r_error ex_flow_report \<noteq> Some (No_Packet ''b'' ''i'') \<and>
     r_error ex_flow_report \<noteq> Some (Connection_Full ''b'' ''i'')"
  using flow_never_stuck [OF ex_net_built ex_flow_run] by blast

text \<open>C17: A run is fail-closed: its results are those of a prefix of the topological order, all but
  the last of them verified, and their number never exceeds the step limit.\<close>

theorem flow_fail_closed:
  assumes "built net" "run_flow drv net step_limit d = (d', Inr rep)"
  shows "(r_results rep = [] \<or> (\<exists>rest. topological_order net = Inr (map y_id (r_results rep) @ rest))) \<and>
    (\<forall>i < length (r_results rep) - 1. y_verified (r_results rep ! i)) \<and>
    (r_results rep \<noteq> [] \<longrightarrow> int (length (r_results rep)) \<le> run_limit step_limit)"
proof -
  have wf: "wf_keys net" using assms(1) by (rule built_wf_keys)
  from run_flow_cases [OF wf, of step_limit drv d] assms(2)
  consider e where "rep = fail_report [] 0 e"
    | order where "admit net step_limit = Inr order" "flow_outcome drv net order d d' rep"
    by auto
  then show ?thesis
  proof cases
    case 2
    obtain rest where rest: "order = map y_id (r_results rep) @ rest"
      using flow_outcome_prefix [OF 2(2)] by blast
    then have "length (r_results rep) \<le> length order" by simp
    then show ?thesis
      using 2(1) rest flow_outcome_verified [OF 2(2)] by (auto simp: admit_ok_iff)
  qed (simp add: fail_report_def)
qed

definition ex_fail_net :: network where
  "ex_fail_net = Network [(''a'', ex_component ''a'' [] [''o'']),
     (''b'', Component ''b'' ''fail'' [] None None [(''in'', [''i''])] [] [] [] None)] [ex_edge ''a'' ''b''] []"

lemma flow_fail_closed_witness:
  "\<exists>rep. run_flow ex_driver ex_fail_net None 0 = (2, Inr rep) \<and> \<not> r_ok rep \<and> length (r_results rep) = 1 \<and>
     (\<exists>rest. topological_order ex_fail_net = Inr (map y_id (r_results rep) @ rest))"
proof -
  let ?y = "\<lparr>y_step = 0, y_id = ''a'', y_task = ''task-a'', y_verified = True,
        y_value = PDict [(''o'', PInt 0)], y_error = None\<rparr>"
  let ?rep = "fail_report [?y] 1 (Component_Raised ''b'' ''fail'' ''boom'')"
  have b: "built ex_fail_net" unfolding built_iff wf_keys_def by code_simp
  have run: "run_flow ex_driver ex_fail_net None 0 = (2, Inr ?rep)" by code_simp
  from flow_fail_closed [OF b run] run show ?thesis by (auto simp: fail_report_def)
qed

end
