(* ===== verification/Stream_Props.thy ===== *)
theory Stream_Props
  imports Stream_Run Flow_Props
begin

text \<open>
  The properties of the streaming engine: it returns, within its activation limit, a report that
  refines the connection-free specification \<open>stream_dataflow\<close>; success means that every packet
  emitted was consumed.
\<close>

section \<open>The loop returns\<close>

definition loop_post :: "'d driver \<Rightarrow> network \<Rightarrow> string list \<Rightarrow> int \<Rightarrow> 'd \<Rightarrow> 'd scheduler \<times> stop option option \<Rightarrow> bool" where
  "loop_post drv net order limit d0 gs \<longleftrightarrow>
     (case gs of
        (g, None) \<Rightarrow> running drv net d0 limit g
      | (g, Some None) \<Rightarrow> running drv net d0 limit g \<and> drained net order (g_results g)
      | (g, Some (Some s)) \<Rightarrow> ends (g_results g) s \<and> int (length (g_results g)) \<le> limit \<and>
          (\<exists>rs d. stream_dataflow drv net d0 rs d \<and> follows rs (g_results g)))"

lemma stream_loop_result:
  assumes r: "runnable net order" and run: "running drv net d0 limit g"
  shows "\<exists>g' s. stream_loop drv net limit order g = Some (g', Some s) \<and> loop_post drv net order limit d0 (g', Some s)"
proof -
  let ?b = "\<lambda>(g, s). s = None" and ?c = "\<lambda>(g, s). stream_turn drv net limit order g"
  let ?P = "loop_post drv net order limit d0"
  let ?f = "\<lambda>(g, s). if s = None then Suc (budget limit g) else 0"
  have step: "?P (?c gs) \<and> ?f (?c gs) < ?f gs" if pre: "?P gs" and guard: "?b gs" for gs
  proof -
    obtain g1 where gs: "gs = (g1, None)" using guard by (cases gs) auto
    have run1: "running drv net d0 limit g1" using pre by (simp add: gs loop_post_def)
    obtain g2 s2 where turn: "stream_turn drv net limit order g1 = (g2, s2)" by force
    have df: "stream_dataflow drv net d0 (g_results g1) (g_driver g1)" using run1 by (simp add: running_def)
    from stream_turn_result [OF r run1 turn] show ?thesis
      using run1 df by (cases s2) (auto simp: gs turn loop_post_def split: option.splits)
  qed
  have P0: "?P (g, None)" using run by (simp add: loop_post_def)
  obtain t where t: "while_option ?b ?c (g, None) = Some t"
    using measure_while_option_Some [of ?P ?b ?c ?f, OF step P0] by blast
  have "?P t" using while_option_rule [of ?P ?b ?c, OF _ t P0] step by blast
  moreover have "\<not> ?b t" using while_option_stop [OF t] .
  ultimately show ?thesis using t by (cases t) (auto simp: stream_loop_def)
qed

section \<open>Building the connections\<close>

lemma add_connections_result:
  assumes "\<forall>e \<in> set es. edge_ok net e" "list_all2 (\<lambda>e c. link e c \<and> k_buffer c = []) es0 conns0"
  shows "(\<exists>e. foldR add_connection es conns0 = Inl (Fail e)) \<or>
    (\<exists>conns. foldR add_connection es conns0 = Inr conns \<and>
       list_all2 (\<lambda>e c. link e c \<and> k_buffer c = []) (es0 @ es) conns)"
  using assms
proof (induction es arbitrary: es0 conns0)
  case Nil
  then show ?case by simp
next
  case (Cons e es)
  let ?k = "\<lparr>k_source = e_source e, k_source_port = e_source_field e, k_target = e_target e,
     k_target_port = e_target_arg e, k_capacity = e_capacity e, k_buffer = []\<rparr>"
  have new: "new_connection e = Inr ?k" using Cons.prems(1) by (auto simp: new_connection_def edge_ok_def)
  show ?case
  proof (cases "\<exists>k \<in> set conns0. k_target k = e_target e \<and> k_target_port k = e_target_arg e")
    case True
    then show ?thesis by (simp add: add_connection_def new)
  next
    case False
    have l: "list_all2 (\<lambda>e c. link e c \<and> k_buffer c = []) (es0 @ [e]) (conns0 @ [?k])"
      using Cons.prems(2) by (simp add: list_all2_appendI link_def)
    have "add_connection e conns0 = Inr (conns0 @ [?k])"
      using False by (simp add: add_connection_def new rejectR_def)
    then show ?thesis using Cons.IH [OF _ l] Cons.prems(1) by simp
  qed
qed

lemma check_stream_mode_cases:
  assumes "wf_keys net" "\<forall>e \<in> set es. edge_ok net e"
  shows "iterR (check_stream_mode net) es = Inr () \<or> (\<exists>err. iterR (check_stream_mode net) es = Inl (Fail err))"
  using assms(2)
  by (induction es)
    (auto simp: check_stream_mode_def component_table_lookup [OF assms(1)] edge_ok_def rejectR_def)

section \<open>Runs\<close>

definition stream_outcome :: "'d driver \<Rightarrow> network \<Rightarrow> int option \<Rightarrow> 'd \<Rightarrow> 'd \<Rightarrow> report \<Rightarrow> bool" where
  "stream_outcome drv net step_limit d0 d rep \<longleftrightarrow>
     r_completed rep = length (r_results rep) \<and>
     (r_results rep \<noteq> [] \<longrightarrow> int (length (r_results rep)) \<le> run_limit step_limit) \<and>
     (\<exists>rs d1. stream_dataflow drv net d0 rs d1 \<and> follows rs (r_results rep) \<and>
        (r_ok rep \<longrightarrow> r_results rep = rs \<and> d1 = d \<and>
           (\<exists>order. topological_order net = Inr order \<and> drained net order rs)))"

lemma stream_outcome_fail:
  "stream_outcome drv net step_limit d d (fail_report [] 0 e)"
  by (auto simp: stream_outcome_def fail_report_def follows_def intro: stream_dataflow.start)

lemma stream_start:
  assumes "list_all2 (\<lambda>e c. link e c \<and> k_buffer c = []) (stream_edges net) conns"
    "\<forall>e \<in> set (n_edges net). edge_ok net e" "0 < limit"
  shows "running drv net d limit (start_scheduler d conns)"
proof -
  have lk: "linked (stream_edges net) conns"
    using assms(1) by (auto simp: linked_def elim: list_all2_mono)
  have "edge_inv net (stream_edges net ! j) [] (conns ! j) []" if "j < length (stream_edges net)" for j
  proof -
    have e: "link (stream_edges net ! j) (conns ! j)" "k_buffer (conns ! j) = []"
      using assms(1) that by (auto simp: list_all2_conv_all_nth)
    have "edge_ok net (stream_edges net ! j)" using assms(2) that by (metis nth_mem set_stream_edges)
    then show ?thesis using e by (auto simp: edge_inv_def link_def edge_ok_def)
  qed
  then show ?thesis using lk assms(3)
    by (simp add: running_def start_scheduler_def stream_inv_def ems_ok_def rem_of_def spent_ok_def
        MAX_CONNECTION_CAPACITY_def stream_dataflow.start)
qed

lemma stream_report_outcome:
  assumes ord: "topological_order net = Inr order"
    and post: "loop_post drv net order (run_limit step_limit) d (g, Some s)"
  shows "\<exists>rep. stream_report (g_results g) s = Inr rep \<and> stream_outcome drv net step_limit d (g_driver g) rep"
proof (cases s)
  case None
  then have "running drv net d (run_limit step_limit) g" "drained net order (g_results g)"
    using post by (auto simp: loop_post_def)
  then show ?thesis using None ord
    by (auto simp: stream_report_def stream_outcome_def ok_report_def running_def follows_def)
next
  case (Some s')
  then have p: "ends (g_results g) s'" "int (length (g_results g)) \<le> run_limit step_limit"
    "\<exists>rs d1. stream_dataflow drv net d rs d1 \<and> follows rs (g_results g)"
    using post by (simp_all add: loop_post_def)
  then show ?thesis using Some
    by (auto simp: stream_report_def stream_outcome_def ends_def finish_def fail_report_def unverified_report_def; blast)
qed

lemma run_stream_result:
  assumes wf: "wf_keys net"
  shows "\<exists>d' rep. run_stream drv net step_limit d = Some (d', Inr rep) \<and>
    stream_outcome drv net step_limit d d' rep"
proof (cases "admit net step_limit")
  case (Inl e)
  then show ?thesis by (simp add: run_stream_def stream_outcome_fail)
next
  case (Inr order)
  have r: "runnable net order" by (rule admit_runnable [OF wf Inr])
  then have ok: "\<forall>e \<in> set (n_edges net). edge_ok net e" by (simp add: runnable_def)
  have adm: "topological_order net = Inr order" "0 < run_limit step_limit" using Inr by (auto simp: admit_ok_iff)
  have ok': "\<forall>e \<in> set (stream_edges net). edge_ok net e" using ok by simp
  note empty_conns = list_all2_Nil [THEN iffD2, OF refl]
  from check_stream_mode_cases [OF wf ok] add_connections_result [OF ok' empty_conns]
  consider (stop) err where "thenR (iterR (check_stream_mode net) (n_edges net))
      (foldR add_connection (stream_edges net) []) = Inl (Fail err)"
    | (go) conns where "thenR (iterR (check_stream_mode net) (n_edges net))
        (foldR add_connection (stream_edges net) []) = Inr conns"
      "list_all2 (\<lambda>e c. link e c \<and> k_buffer c = []) (stream_edges net) conns"
    by auto
  then show ?thesis
  proof cases
    case stop
    then show ?thesis by (simp add: run_stream_def Inr finish_def stream_outcome_fail)
  next
    case go
    from stream_loop_result [OF r stream_start [OF go(2) ok adm(2), of drv d]] obtain g s where
      loop: "stream_loop drv net (run_limit step_limit) order (start_scheduler d conns) = Some (g, Some s)"
      "loop_post drv net order (run_limit step_limit) d (g, Some s)" by blast
    from stream_report_outcome [OF adm(1) loop(2)] show ?thesis
      by (auto simp: run_stream_def Inr go(1) loop(1))
  qed
qed

section \<open>Example: a source that streams three packets\<close>

definition ex_stream_net :: network where
  "ex_stream_net = Network
     [(''src'', Component ''src'' ''gen'' [] None None [(''in'', []), (''out'', [''o''])] [] [''o''] [] None),
      (''snk'', Component ''snk'' ''eat'' [] None None [(''in'', [''i'']), (''out'', [])]
         [(''in'', [(''i'', ''int'')])] [] [] None)]
     [ex_edge ''src'' ''snk''] []"

definition ex_stream_driver :: "nat driver" where
  "ex_stream_driver n task args verifier child =
     (Suc n, Inr \<lparr>p_verified = True,
        p_value = (if task = ''gen'' then PDict [(''o'', PList [PInt 1, PInt 2, PInt 3])] else PNone),
        p_error = None\<rparr>)"

lemma ex_stream_built: "built ex_stream_net"
  unfolding built_iff wf_keys_def by code_simp

lemma ex_stream_run:
  "\<exists>rep. run_stream ex_stream_driver ex_stream_net None 0 = Some (4, Inr rep) \<and> r_ok rep \<and>
     map y_id (r_results rep) = [''src'', ''snk'', ''snk'', ''snk'']"
proof -
  have "map_option (\<lambda>(d, r). (d, case r of Inl _ \<Rightarrow> None | Inr rep \<Rightarrow> Some (r_ok rep, map y_id (r_results rep))))
      (run_stream ex_stream_driver ex_stream_net None 0) =
    Some (4, Some (True, [''src'', ''snk'', ''snk'', ''snk'']))" by code_simp
  then obtain r where "run_stream ex_stream_driver ex_stream_net None 0 = Some (4, r)"
    "(case r of Inl _ \<Rightarrow> None | Inr rep \<Rightarrow> Some (r_ok rep, map y_id (r_results rep))) =
       Some (True, [''src'', ''snk'', ''snk'', ''snk''])" by auto
  then show ?thesis by (cases r) auto
qed

section \<open>Properties\<close>

text \<open>C13: The streaming engine terminates and never raises: for a network built by the class's
  operations, any driver and any step limit, the scheduler loop ends and \<open>run_stream\<close> returns a
  report, having activated components at most as often as the limit allows.\<close>

theorem stream_terminates:
  assumes "built net"
  shows "\<exists>d' rep. run_stream drv net step_limit d = Some (d', Inr rep) \<and>
    int (length (r_results rep)) \<le> max 0 (run_limit step_limit) \<and> r_completed rep = length (r_results rep)"
  using run_stream_result [OF built_wf_keys [OF assms], of drv step_limit d]
  by (fastforce simp: stream_outcome_def)

lemma stream_terminates_witness:
  "built ex_stream_net \<and> (\<exists>d' rep. run_stream ex_stream_driver ex_stream_net (Some 2) 0 = Some (d', Inr rep) \<and>
     length (r_results rep) \<le> 2)"
  using stream_terminates [OF ex_stream_built, of ex_stream_driver "Some 2" 0] ex_stream_built
  by (fastforce simp: run_limit_def)

text \<open>C14: A successful streaming run loses, duplicates and reorders nothing: its activations are
  those of the specification in which the \<open>k\<close>-th activation of a component receives the \<open>k\<close>-th
  packet emitted on each of its incoming edges (type-checked), on every edge as many packets were
  consumed as emitted, and every component without incoming edges ran once.\<close>

theorem stream_success_drains:
  assumes "built net" "run_stream drv net step_limit d = Some (d', Inr rep)" "r_ok rep"
  shows "stream_dataflow drv net d (r_results rep) d' \<and>
    (\<exists>order. topological_order net = Inr order \<and> drained net order (r_results rep))"
  using run_stream_result [OF built_wf_keys [OF assms(1)], of drv step_limit d] assms(2,3)
  by (auto simp: stream_outcome_def)

lemma stream_success_drains_witness:
  "\<exists>rep. run_stream ex_stream_driver ex_stream_net None 0 = Some (4, Inr rep) \<and>
     stream_dataflow ex_stream_driver ex_stream_net 0 (r_results rep) 4"
  using ex_stream_run stream_success_drains [OF ex_stream_built, of ex_stream_driver None 0 4] by blast

text \<open>A streaming run is fail-closed: all of its activations but the last are verified and follow
  the specification, whatever ends it.\<close>

theorem stream_fail_closed:
  assumes "built net" "run_stream drv net step_limit d = Some (d', Inr rep)"
  shows "\<exists>rs d1. stream_dataflow drv net d rs d1 \<and> follows rs (r_results rep) \<and>
    (\<forall>i < length (r_results rep) - 1. y_verified (r_results rep ! i))"
proof -
  obtain rs d1 where rs: "stream_dataflow drv net d rs d1" "follows rs (r_results rep)"
    using run_stream_result [OF built_wf_keys [OF assms(1)], of drv step_limit d] assms(2)
    by (auto simp: stream_outcome_def)
  then have "y_verified (r_results rep ! i)" if "i < length (r_results rep) - 1" for i
    using that stream_dataflow_verified [OF rs(1)] by (auto simp: follows_def nth_append)
  then show ?thesis using rs by blast
qed

lemma stream_fail_closed_witness:
  "\<exists>rep rs d1. run_stream ex_stream_driver ex_stream_net None 0 = Some (4, Inr rep) \<and>
     stream_dataflow ex_stream_driver ex_stream_net 0 rs d1 \<and> follows rs (r_results rep)"
  using ex_stream_run stream_fail_closed [OF ex_stream_built, of ex_stream_driver None 0 4] by metis

section \<open>A deadlock report while a component is ready\<close>

text \<open>\<open>s\<close> streams two packets to \<open>c\<close> and to \<open>d\<close>; \<open>d\<close> also waits for \<open>a\<close>, whose stream is
  empty. The second packet reaches \<open>c\<close> and finds the connection to \<open>d\<close> full.\<close>

definition ex_part :: "string \<Rightarrow> string list \<Rightarrow> string list \<Rightarrow> component" where
  "ex_part cid ins outs = Component cid cid [] None None [(''in'', ins), (''out'', outs)] [] outs [] None"

definition ex_blocked_net :: network where
  "ex_blocked_net = Network
     [(''a'', ex_part ''a'' [] [''o'']), (''s'', ex_part ''s'' [] [''o'']),
      (''c'', ex_part ''c'' [''i''] []), (''d'', ex_part ''d'' [''i'', ''j''] [])]
     [ex_edge ''s'' ''c'', ex_edge ''s'' ''d'',
      \<lparr>e_source = ''a'', e_source_field = ''o'', e_target = ''d'', e_target_arg = ''j'', e_capacity = 1\<rparr>] []"

definition ex_blocked_driver :: "nat driver" where
  "ex_blocked_driver n task args verifier child =
     (Suc n, Inr \<lparr>p_verified = True,
        p_value = PDict [(''o'', PList (if task = ''s'' then [PInt 1, PInt 2] else []))], p_error = None\<rparr>)"

definition blocked_start :: "(nat scheduler \<times> stop option option) option" where
  "blocked_start =
     (case (admit ex_blocked_net None, foldR add_connection (stream_edges ex_blocked_net) []) of
        (Inr order, Inr conns) \<Rightarrow>
          stream_loop ex_blocked_driver ex_blocked_net DEFAULT_STEP_LIMIT order (start_scheduler 0 conns)
      | _ \<Rightarrow> None)"

text \<open>The deadlock message of the streaming engine can be wrong: a producer that is blocked half
  way through its fan-out has already delivered to some consumers, but the turn counts as no step,
  so the run ends with \<open>every producer is blocked and no component is ready\<close> while \<open>c\<close> is ready.\<close>

theorem stream_deadlock_report_with_ready_component:
  "validate 0 ex_blocked_net = Inr () \<and>
   (\<exists>g. blocked_start = Some (g, Some (Some (Fail All_Blocked))) \<and> is_ready g ''c'' \<and>
      run_stream ex_blocked_driver ex_blocked_net None 0 =
        Some (3, Inr (fail_report (g_results g) 3 All_Blocked)))"
proof -
  have v: "validate 0 ex_blocked_net = Inr ()" by code_simp
  have s: "map_option snd blocked_start = Some (Some (Some (Fail All_Blocked)))" by code_simp
  have g: "case blocked_start of None \<Rightarrow> False | Some gs \<Rightarrow> is_ready (fst gs) ''c'' \<and>
      run_stream ex_blocked_driver ex_blocked_net None 0 =
        Some (3, Inr (fail_report (g_results (fst gs)) 3 All_Blocked))" by code_simp
  from s obtain gs where gs: "blocked_start = Some gs" "snd gs = Some (Some (Fail All_Blocked))"
    unfolding map_option_eq_Some by blast
  then have "blocked_start = Some (fst gs, Some (Some (Fail All_Blocked)))" by (cases gs) simp
  moreover have "is_ready (fst gs) ''c'' \<and> run_stream ex_blocked_driver ex_blocked_net None 0 =
        Some (3, Inr (fail_report (g_results (fst gs)) 3 All_Blocked))"
    using g unfolding gs(1) option.case .
  ultimately show ?thesis using v by blast
qed

end
