(* ===== verification/Run_Network.thy ===== *)
theory Run_Network
  imports Stream_Props
begin

text \<open>
  \<open>network.run_network\<close>: the entry point of all three engines. A network with a stream port goes
  to \<open>run_stream\<close>, one with declared ports or initial packets to \<open>run_flow\<close>, any other to the
  legacy loop, in which an edge copies the whole output of its source.
\<close>

section \<open>The legacy loop\<close>

definition wire_outputs ::
  "string \<Rightarrow> pyval dict \<Rightarrow> edge \<Rightarrow> pyval dict \<Rightarrow> stop + pyval dict" where
  "wire_outputs cid outputs e args =
     (if e_target e \<noteq> cid then Inr args
      else (case dget outputs (e_source e) of
              None \<Rightarrow> Inl (Fail (No_Computed_Output (e_source e)))
            | Some v \<Rightarrow> Inr (dput (e_target_arg e) v args)))"

fun legacy_loop ::
  "'d driver \<Rightarrow> network \<Rightarrow> nat \<Rightarrow> string list \<Rightarrow> 'd \<Rightarrow> pyval dict \<Rightarrow> step_result list
    \<Rightarrow> 'd \<times> (flow_error + report)" where
  "legacy_loop drv net idx [] d outputs results = (d, Inr (ok_report results))"
| "legacy_loop drv net idx (cid # cids) d outputs results =
     (case lookup net cid of
        None \<Rightarrow> (d, Inl (Missing_Component cid))
      | Some c \<Rightarrow>
          (case foldR (wire_outputs cid outputs) (n_edges net) (c_args c) of
             Inl s \<Rightarrow> (d, finish results idx s)
           | Inr args \<Rightarrow>
               (case drv d (c_task c) args (c_verifier c) (c_child c) of
                  (d', Inl msg) \<Rightarrow> (d', finish results idx (Fail (Component_Raised cid (c_task c) msg)))
                | (d', Inr resp) \<Rightarrow>
                    (let r = step_record idx c cid resp in
                     if \<not> p_verified resp then (d', finish (results @ [r]) idx (Unverified r))
                     else legacy_loop drv net (Suc idx) cids d' (dput cid (p_value resp) outputs) (results @ [r])))))"

definition run_legacy ::
  "'d driver \<Rightarrow> network \<Rightarrow> int option \<Rightarrow> 'd \<Rightarrow> 'd \<times> (flow_error + report)" where
  "run_legacy drv net step_limit d =
     (case admit net step_limit of
        Inl e \<Rightarrow> (d, Inr (fail_report [] 0 e))
      | Inr order \<Rightarrow> legacy_loop drv net 0 order d [] [])"

definition run_network ::
  "'d driver \<Rightarrow> network \<Rightarrow> int option \<Rightarrow> 'd \<Rightarrow> ('d \<times> (flow_error + report)) option" where
  "run_network drv net step_limit d =
     (if \<exists>c \<in> set (components net). c_stream c \<noteq> [] then run_stream drv net step_limit d
      else if n_iips net \<noteq> [] \<or> (\<exists>c \<in> set (components net). c_ports c \<noteq> []) then Some (run_flow drv net step_limit d)
      else Some (run_legacy drv net step_limit d))"

section \<open>The specification of the legacy loop\<close>

definition output_of :: "step_result list \<Rightarrow> string \<Rightarrow> pyval option" where
  "output_of rs cid = map_of (map (\<lambda>r. (y_id r, y_value r)) rs) cid"

definition legacy_args :: "network \<Rightarrow> step_result list \<Rightarrow> string \<Rightarrow> component \<Rightarrow> pyval dict" where
  "legacy_args net rs cid c =
     dupdate (c_args c) (map (\<lambda>e. (e_target_arg e, the (output_of rs (e_source e))))
       (filter (\<lambda>e. e_target e = cid) (n_edges net)))"

inductive legacy_dataflow :: "'d driver \<Rightarrow> network \<Rightarrow> 'd \<Rightarrow> step_result list \<Rightarrow> 'd \<Rightarrow> bool"
  for drv net d0 where
  start: "legacy_dataflow drv net d0 [] d0"
| step: "legacy_dataflow drv net d0 rs d \<Longrightarrow> lookup net cid = Some c \<Longrightarrow>
    (\<forall>e \<in> set (n_edges net). e_target e = cid \<longrightarrow> output_of rs (e_source e) \<noteq> None) \<Longrightarrow>
    drv d (c_task c) (legacy_args net rs cid c) (c_verifier c) (c_child c) = (d', Inr resp) \<Longrightarrow>
    p_verified resp \<Longrightarrow>
    legacy_dataflow drv net d0 (rs @ [step_record (length rs) c cid resp]) d'"

lemma legacy_dataflow_verified: "legacy_dataflow drv net d0 rs d \<Longrightarrow> y \<in> set rs \<Longrightarrow> y_verified y"
  by (induction rule: legacy_dataflow.induct) (auto simp: step_record_def)

definition outputs_of :: "step_result list \<Rightarrow> pyval dict \<Rightarrow> bool" where
  "outputs_of rs outputs \<longleftrightarrow> (\<forall>cid. dget outputs cid = output_of rs cid)"

lemma foldR_wire_outputs:
  assumes "outputs_of rs outputs" "\<forall>e \<in> set es. e_target e = cid \<longrightarrow> output_of rs (e_source e) \<noteq> None"
  shows "foldR (wire_outputs cid outputs) es args =
    Inr (dupdate args (map (\<lambda>e. (e_target_arg e, the (output_of rs (e_source e))))
       (filter (\<lambda>e. e_target e = cid) es)))"
  using assms(2) by (induction es arbitrary: args) (use assms(1) in \<open>auto simp: wire_outputs_def outputs_of_def\<close>)

lemma outputs_of_snoc:
  "outputs_of rs outputs \<Longrightarrow> y_id r \<notin> y_id ` set rs \<Longrightarrow> outputs_of (rs @ [r]) (dput (y_id r) (y_value r) outputs)"
  by (auto simp: outputs_of_def output_of_def dict_simps map_add_def image_iff
      split: option.splits dest!: map_of_SomeD)

lemma output_of_ran: "cid \<in> y_id ` set rs \<Longrightarrow> output_of rs cid \<noteq> None"
  by (auto simp: output_of_def map_of_eq_None_iff image_iff)

text \<open>What a legacy run reports: \<open>rs\<close> follows the specification, and the report adds at most the
  one step that failed.\<close>

definition legacy_outcome :: "'d driver \<Rightarrow> network \<Rightarrow> string list \<Rightarrow> 'd \<Rightarrow> 'd \<Rightarrow> report \<Rightarrow> bool" where
  "legacy_outcome drv net order d0 d' rep \<longleftrightarrow>
     (\<exists>rs d rest. legacy_dataflow drv net d0 rs d \<and> follows rs (r_results rep) \<and>
        order = map y_id (r_results rep) @ rest \<and>
        (r_ok rep \<longrightarrow> r_results rep = rs \<and> d' = d \<and> rest = []) \<and>
        (\<not> r_ok rep \<longrightarrow> r_error rep \<noteq> None \<and> r_results rep = rs \<or>
           (\<exists>y. r_failed rep = Some y \<and> r_results rep = rs @ [y] \<and> \<not> y_verified y)))"

lemma legacy_loop_outcome:
  assumes r: "runnable net order" and ord: "order = map y_id rs @ cids"
    and outs: "outputs_of rs outputs" and df: "legacy_dataflow drv net d0 rs d"
  shows "\<exists>d' rep. legacy_loop drv net (length rs) cids d outputs rs = (d', Inr rep) \<and>
    legacy_outcome drv net order d0 d' rep"
  using ord outs df
proof (induction cids arbitrary: rs outputs d)
  case Nil
  then show ?case by (auto simp: legacy_outcome_def ok_report_def follows_def)
next
  case (Cons cid cids)
  have "cid \<in> set (component_ids net)" using r Cons.prems(1) by (auto simp: runnable_def)
  then obtain c where c: "lookup net cid = Some c" using lookup_None_iff [of net cid] by auto
  have new: "cid \<notin> y_id ` set rs" using r Cons.prems(1) by (auto simp: runnable_def)
  have have_out: "\<forall>e \<in> set (n_edges net). e_target e = cid \<longrightarrow> output_of rs (e_source e) \<noteq> None"
  proof (intro ballI impI)
    fix e assume e: "e \<in> set (n_edges net)" "e_target e = cid"
    then have "(e_source e, cid) \<in> set (edge_pairs net)" by (force simp: edge_pairs_def)
    then have "e_source e \<in> set (map y_id rs)"
      using r Cons.prems(1) by (force simp: runnable_def topo_before_def)
    then show "output_of rs (e_source e) \<noteq> None" by (intro output_of_ran) simp
  qed
  have args: "foldR (wire_outputs cid outputs) (n_edges net) (c_args c) = Inr (legacy_args net rs cid c)"
    unfolding legacy_args_def by (rule foldR_wire_outputs [OF Cons.prems(2) have_out])
  obtain d' o' where call: "drv d (c_task c) (legacy_args net rs cid c) (c_verifier c) (c_child c) = (d', o')"
    by force
  show ?case
  proof (cases o')
    case (Inl msg)
    then show ?thesis using Cons.prems(1,3)
      by (auto simp: c args call finish_def fail_report_def legacy_outcome_def follows_def)
  next
    case (Inr resp)
    let ?y = "step_record (length rs) c cid resp"
    have y: "y_id ?y = cid" "y_value ?y = p_value resp" "y_verified ?y = p_verified resp"
      by (simp_all add: step_record_def)
    show ?thesis
    proof (cases "p_verified resp")
      case False
      then show ?thesis using Cons.prems(1,3) y
        by (auto simp: c args call Inr finish_def unverified_report_def legacy_outcome_def follows_def Let_def)
    next
      case True
      have df': "legacy_dataflow drv net d0 (rs @ [?y]) d'"
        by (rule legacy_dataflow.step [OF Cons.prems(3) c have_out call [unfolded Inr] True])
      have "outputs_of (rs @ [?y]) (dput cid (p_value resp) outputs)"
        using outputs_of_snoc [OF Cons.prems(2), of ?y] new y by simp
      from Cons.IH [OF _ this df'] Cons.prems(1) y show ?thesis
        by (simp add: c args call Inr True Let_def)
    qed
  qed
qed

section \<open>Properties\<close>


definition ex_legacy :: network where
  "ex_legacy = Network
     [(''a'', Component ''a'' ''t'' [(''x'', PInt 1)] None None [] [] [] [] None),
      (''b'', Component ''b'' ''u'' [] None None [] [] [] [] None)]
     [\<lparr>e_source = ''a'', e_source_field = ''nope'', e_target = ''b'', e_target_arg = ''i'', e_capacity = 1\<rparr>] []"



text \<open>Contrary to its documentation, \<open>run_network\<close> does not fail on an unknown output field: the
  edge of \<open>ex_legacy\<close> names the field \<open>nope\<close>, the output of its source is a mapping without it, and
  the run succeeds, \<open>compile\<close> alone rejecting the network.\<close>

theorem run_network_accepts_unknown_field:
  "run_network ex_driver ex_legacy None 0 =
     Some (2, Inr (ok_report
       [\<lparr>y_step = 0, y_id = ''a'', y_task = ''t'', y_verified = True,
          y_value = PDict [(''o'', PInt 0)], y_error = None\<rparr>,
        \<lparr>y_step = 1, y_id = ''b'', y_task = ''u'', y_verified = True,
          y_value = PDict [(''o'', PInt 1)], y_error = None\<rparr>])) \<and>
   compile ex_legacy = Inl (Unknown_Output_Field ''a'' ''nope'')"
  by code_simp

text \<open>\<open>run_network\<close> is total and bounded whichever engine it selects: for a built network it
  returns a report of at most as many results as the step limit.\<close>

theorem run_network_returns:
  assumes "built net"
  shows "\<exists>d' rep. run_network drv net step_limit d = Some (d', Inr rep) \<and>
    int (length (r_results rep)) \<le> max 0 (run_limit step_limit)"
proof -
  obtain d1 rep1 where fl: "run_flow drv net step_limit d = (d1, Inr rep1)"
    and fb: "r_results rep1 = [] \<or> (\<exists>order. admit net step_limit = Inr order \<and> flow_outcome drv net order d d1 rep1)"
    using run_flow_cases [OF built_wf_keys [OF assms], of step_limit drv d] by (auto simp: fail_report_def)
  have b1: "int (length (r_results rep1)) \<le> max 0 (run_limit step_limit)"
    using fb flow_outcome_prefix by (fastforce simp: admit_ok_iff)
  obtain d2 rep2 where lg: "run_legacy drv net step_limit d = (d2, Inr rep2)"
    and lb: "r_results rep2 = [] \<or> (\<exists>order. admit net step_limit = Inr order \<and> legacy_outcome drv net order d d2 rep2)"
  proof (cases "admit net step_limit")
    case (Inl e)
    then show ?thesis using that [of d "fail_report [] 0 e"] by (simp add: run_legacy_def fail_report_def)
  next
    case (Inr order)
    have r: "runnable net order" by (rule admit_runnable [OF built_wf_keys [OF assms] Inr])
    have "outputs_of [] []" by (simp add: outputs_of_def output_of_def)
    from legacy_loop_outcome [OF r _ this legacy_dataflow.start, of order drv d] Inr that
    show ?thesis by (auto simp: run_legacy_def)
  qed
  have b2: "int (length (r_results rep2)) \<le> max 0 (run_limit step_limit)"
    using lb by (fastforce simp: admit_ok_iff legacy_outcome_def)
  obtain d3 rep3 where st: "run_stream drv net step_limit d = Some (d3, Inr rep3)"
    "stream_outcome drv net step_limit d d3 rep3"
    using run_stream_result [OF built_wf_keys [OF assms], of drv step_limit d] by blast
  have b3: "int (length (r_results rep3)) \<le> max 0 (run_limit step_limit)"
    using st(2) by (cases "r_results rep3 = []") (auto simp: stream_outcome_def)
  show ?thesis using fl b1 lg b2 st(1) b3 by (simp add: run_network_def)
qed

lemma run_network_returns_witness:
  "\<exists>d' rep. run_network ex_stream_driver ex_stream_net (Some 3) 0 = Some (d', Inr rep) \<and> length (r_results rep) \<le> 3"
  using run_network_returns [OF ex_stream_built, of ex_stream_driver "Some 3" 0]
  by (fastforce simp: run_limit_def)

end
