(* ===== verification/Onto_Terms.thy ===== *)
theory Onto_Terms
  imports Handoff Py_Values
begin

text \<open>
  \<open>contracts/ontology.py\<close>, first half: assertion objects, assertions, semantic graphs and
  rules, each a frozen dataclass whose \<open>__post_init__\<close> rejects malformed values, with its
  serialization and its parser. SHA-256 is not part of the repository: it is the argument
  \<open>sha\<close> of every content address.
\<close>

section \<open>Errors and bounds\<close>

datatype error_kind =
    Undeclared_Term | Missing_Import | Version_Conflict | Non_Additive_Change | Shape_Violation
  | Closure_Overflow | Fragment_Overflow | Malformed_Document | Scope_Escape

datatype onto_error = Ontology_Error error_kind | Py_Error py_error | Recursion_Limit

abbreviation malformed :: "bool \<Rightarrow> onto_error + unit" where
  "malformed b \<equiv> rejectR b (Ontology_Error Malformed_Document)"

definition item :: "pyval \<Rightarrow> string \<Rightarrow> onto_error + pyval" where
  "item v key = liftR Py_Error (subscript v key)"

definition item_str :: "pyval \<Rightarrow> string \<Rightarrow> onto_error + string" where
  "item_str v key = bindR (item v key) (\<lambda>w. Inr (py_str w))"

definition fetch :: "pyval \<Rightarrow> string \<Rightarrow> pyval \<Rightarrow> onto_error + pyval" where
  "fetch v key dflt = liftR Py_Error (get_or v key dflt)"

definition fetch_strs :: "pyval \<Rightarrow> string \<Rightarrow> onto_error + string list" where
  "fetch_strs v key = bindR (fetch v key (PList [])) (\<lambda>w. liftR Py_Error (str_tuple w))"

definition is_mapping :: "pyval \<Rightarrow> bool" where
  "is_mapping v = (case v of PDict _ \<Rightarrow> True | _ \<Rightarrow> False)"

named_theorems parse_simps

lemma item_PDict [parse_simps]: "dget kvs key = Some w \<Longrightarrow> item (PDict kvs) key = Inr w"
  by (simp add: item_def)

lemma item_str_PDict [parse_simps]: "dget kvs key = Some w \<Longrightarrow> item_str (PDict kvs) key = Inr (py_str w)"
  by (simp add: item_str_def item_PDict)

lemma fetch_PDict [parse_simps]: "fetch (PDict kvs) key dflt = Inr (dget_or kvs key dflt)"
  by (simp add: fetch_def)

lemma fetch_strs_PDict [parse_simps]: "dget kvs key = Some (PStrs ss) \<Longrightarrow> fetch_strs (PDict kvs) key = Inr ss"
  by (simp add: fetch_strs_def fetch_PDict dget_or_def)

lemma is_mapping_PDict [simp]: "is_mapping (PDict kvs)"
  by (simp add: is_mapping_def)

lemmas dict_eval = dget_Cons dget_or_def

definition ONTOLOGY_SCHEMA :: string where "ONTOLOGY_SCHEMA = ''ontology.v1''"
definition GRAPH_SCHEMA :: string where "GRAPH_SCHEMA = ''semantic-graph.v1''"
definition SHAPES_SCHEMA :: string where "SHAPES_SCHEMA = ''shapes.v1''"
definition QUERY_SCHEMA :: string where "QUERY_SCHEMA = ''ontology.query.v1''"
definition RULES_SCHEMA :: string where "RULES_SCHEMA = ''ontology.rules.v1''"
definition CLOSURE_SCHEMA :: string where "CLOSURE_SCHEMA = ''closure.v1''"
definition CORE_NAMESPACE :: string where "CORE_NAMESPACE = ''urn:cbp:core/''"

definition MAX_FRAGMENT_TERMS :: nat where "MAX_FRAGMENT_TERMS = 10000"
definition MAX_CLOSURE_ASSERTIONS :: nat where "MAX_CLOSURE_ASSERTIONS = 100000"
definition MAX_RULE_COUNT :: nat where "MAX_RULE_COUNT = 1000"
definition MAX_RULE_BODY :: nat where "MAX_RULE_BODY = 64"

section \<open>Objects and assertions\<close>

datatype obj = Term string | Literal string pyval

definition check_obj :: "obj \<Rightarrow> onto_error + unit" where
  "check_obj o' = (case o' of Term n \<Rightarrow> malformed (n = []) | Literal t v \<Rightarrow> malformed (t \<notin> set type_names))"

definition mk_obj :: "obj \<Rightarrow> onto_error + obj" where
  "mk_obj o' = thenR (check_obj o') (Inr o')"

definition obj_to_dict :: "obj \<Rightarrow> pyval" where
  "obj_to_dict o' =
     (case o' of Term n \<Rightarrow> PDict [(''k'', PStr ''t''), (''n'', PStr n)]
      | Literal t v \<Rightarrow> PDict [(''k'', PStr ''l''), (''t'', PStr t), (''v'', v)])"

definition obj_from_dict :: "pyval \<Rightarrow> onto_error + obj" where
  "obj_from_dict data =
     thenR (malformed (\<not> is_mapping data))
       (bindR (fetch data ''k'' PNone) (\<lambda>kind.
          if kind = PStr ''t'' then bindR (item_str data ''n'') (\<lambda>n. mk_obj (Term n))
          else if kind = PStr ''l'' then
            bindR (item_str data ''t'') (\<lambda>t. bindR (fetch data ''v'' PNone) (\<lambda>v. mk_obj (Literal t v)))
          else Inl (Ontology_Error Malformed_Document)))"

record assertion =
  a_s :: string
  a_p :: string
  a_o :: obj

definition mk_assertion :: "string \<Rightarrow> string \<Rightarrow> obj \<Rightarrow> onto_error + assertion" where
  "mk_assertion s p o' = thenR (malformed (s = [] \<or> p = [])) (Inr \<lparr>a_s = s, a_p = p, a_o = o'\<rparr>)"

definition assertion_to_dict :: "assertion \<Rightarrow> pyval" where
  "assertion_to_dict a = PDict [(''s'', PStr (a_s a)), (''p'', PStr (a_p a)), (''o'', obj_to_dict (a_o a))]"

definition assertion_from_dict :: "pyval \<Rightarrow> onto_error + assertion" where
  "assertion_from_dict v =
     bindR (item_str v ''s'') (\<lambda>s. bindR (item_str v ''p'') (\<lambda>p.
       bindR (item v ''o'') (\<lambda>w. bindR (obj_from_dict w) (mk_assertion s p))))"

definition assertion_key :: "assertion \<Rightarrow> string" where
  "assertion_key a = canonical_bytes (assertion_to_dict a)"

definition obj_ok :: "obj \<Rightarrow> bool" where
  "obj_ok o' = (case o' of Term n \<Rightarrow> n \<noteq> [] | Literal t v \<Rightarrow> t \<in> set type_names \<and> wf_pyval v)"

definition assertion_ok :: "assertion \<Rightarrow> bool" where
  "assertion_ok a \<longleftrightarrow> a_s a \<noteq> [] \<and> a_p a \<noteq> [] \<and> obj_ok (a_o a)"

lemma obj_round: "obj_ok o' \<Longrightarrow> obj_from_dict (obj_to_dict o') = Inr o'"
  by (cases o') (simp_all add: obj_ok_def obj_to_dict_def obj_from_dict_def parse_simps dict_eval
      mk_obj_def check_obj_def)

lemma assertion_round: "assertion_ok a \<Longrightarrow> assertion_from_dict (assertion_to_dict a) = Inr a"
  by (simp add: assertion_ok_def assertion_from_dict_def assertion_to_dict_def parse_simps dict_eval
      obj_round mk_assertion_def)

lemma wf_obj_to_dict: "obj_ok o' \<Longrightarrow> wf_pyval (obj_to_dict o')"
  by (cases o') (simp_all add: obj_ok_def obj_to_dict_def)

lemma wf_assertion_to_dict: "assertion_ok a \<Longrightarrow> wf_pyval (assertion_to_dict a)"
  by (simp add: assertion_ok_def assertion_to_dict_def wf_obj_to_dict)

text \<open>What identifies an assertion: its key order apart, the value of its literal.\<close>

definition norm_obj :: "obj \<Rightarrow> obj" where
  "norm_obj o' = (case o' of Term n \<Rightarrow> Term n | Literal t v \<Rightarrow> Literal t (json_norm v))"

definition norm_assertion :: "assertion \<Rightarrow> assertion" where
  "norm_assertion a = a\<lparr>a_o := norm_obj (a_o a)\<rparr>"

lemma json_norm_obj: "json_norm (obj_to_dict o') = json_norm (obj_to_dict (norm_obj o'))"
  by (cases o') (simp_all add: obj_to_dict_def norm_obj_def sort_key_simps)

lemma json_norm_obj_eq:
  "json_norm (obj_to_dict o1) = json_norm (obj_to_dict o2) \<longleftrightarrow> norm_obj o1 = norm_obj o2"
  by (cases o1; cases o2) (auto simp: obj_to_dict_def norm_obj_def sort_key_simps)

lemma assertion_key_eq_iff:
  assumes "assertion_ok a" "assertion_ok b"
  shows "assertion_key a = assertion_key b \<longleftrightarrow> norm_assertion a = norm_assertion b"
proof -
  have "json_norm (assertion_to_dict a) = json_norm (assertion_to_dict b) \<longleftrightarrow>
      a_s a = a_s b \<and> a_p a = a_p b \<and> json_norm (obj_to_dict (a_o a)) = json_norm (obj_to_dict (a_o b))"
    by (auto simp: assertion_to_dict_def sort_key_simps)
  also have "\<dots> \<longleftrightarrow> norm_assertion a = norm_assertion b"
    by (cases a; cases b) (simp add: norm_assertion_def json_norm_obj_eq)
  finally show ?thesis
    using canonical_bytes_eq_iff [OF wf_assertion_to_dict wf_assertion_to_dict] assms
    by (simp add: assertion_key_def)
qed

section \<open>Semantic graphs\<close>

text \<open>One assertion per canonical key, the last one winning, in the order of the keys.\<close>

definition dedupe :: "assertion list \<Rightarrow> (string \<times> assertion) list" where
  "dedupe as = dupdate [] (map (\<lambda>a. (assertion_key a, a)) as)"

definition canonical_assertions :: "assertion list \<Rightarrow> assertion list" where
  "canonical_assertions as = map snd (sort_key fst (dedupe as))"

record graph =
  gr_scope :: string
  gr_assertions :: "assertion list"
  gr_sources :: "(string \<times> string) list"
  gr_schema :: string

definition mk_graph ::
  "string \<Rightarrow> assertion list \<Rightarrow> (string \<times> string) list \<Rightarrow> string \<Rightarrow> onto_error + graph" where
  "mk_graph scope as sources schema =
     thenR (malformed (schema \<noteq> GRAPH_SCHEMA)) (thenR (malformed (scope = []))
       (thenR (rejectR (MAX_CLOSURE_ASSERTIONS < length (canonical_assertions as)) (Ontology_Error Closure_Overflow))
         (Inr \<lparr>gr_scope = scope, gr_assertions = canonical_assertions as,
            gr_sources = sort sources, gr_schema = schema\<rparr>)))"

definition graph_to_dict :: "graph \<Rightarrow> pyval" where
  "graph_to_dict g = PDict
     [(''schema'', PStr (gr_schema g)), (''scope'', PStr (gr_scope g)),
      (''sources'', PDict (dupdate [] (map (\<lambda>kv. (fst kv, PStr (snd kv))) (gr_sources g)))),
      (''assertions'', PList (map assertion_to_dict (gr_assertions g)))]"

definition graph_canonical_bytes :: "graph \<Rightarrow> string" where
  "graph_canonical_bytes g = canonical_bytes (graph_to_dict g)"

definition graph_hash :: "(string \<Rightarrow> string) \<Rightarrow> graph \<Rightarrow> string" where
  "graph_hash sha g = sha (graph_canonical_bytes g)"

definition objects :: "graph \<Rightarrow> string \<Rightarrow> string \<Rightarrow> obj list" where
  "objects g subject predicate =
     map a_o (filter (\<lambda>a. a_s a = subject \<and> a_p a = predicate) (gr_assertions g))"

definition TYPE_P :: string where "TYPE_P = CORE_NAMESPACE @ ''type''"

definition subjects_of_type :: "graph \<Rightarrow> string \<Rightarrow> string list" where
  "subjects_of_type g type_name =
     usort (map a_s (filter (\<lambda>a. a_p a = TYPE_P \<and> a_o a = Term type_name) (gr_assertions g)))"

definition graph_from_dict :: "pyval \<Rightarrow> onto_error + graph" where
  "graph_from_dict data =
     thenR (malformed (\<not> is_mapping data))
     (bindR (fetch data ''schema'' (PStr GRAPH_SCHEMA)) (\<lambda>schema.
      bindR (fetch data ''scope'' PNone) (\<lambda>scope.
      bindR (fetch data ''assertions'' PNone) (\<lambda>raw.
      bindR (fetch data ''sources'' PNone) (\<lambda>srcs.
        let sources = (if truthy srcs then srcs else PDict []) in
        (case (scope, raw) of
           (PStr sc, PList items) \<Rightarrow>
             (case sources of
                PDict kvs \<Rightarrow>
                  bindR (mapR assertion_from_dict items) (\<lambda>as.
                    mk_graph sc as (map (\<lambda>kv. (fst kv, py_str (snd kv))) kvs) (py_str schema))
              | _ \<Rightarrow> Inl (Ontology_Error Malformed_Document))
         | _ \<Rightarrow> Inl (Ontology_Error Malformed_Document)))))))"

section \<open>The canonical form of a graph\<close>

lemma wf_dict_dupdate: "wf_dict d \<Longrightarrow> wf_dict (dupdate d e)"
  by (induction e arbitrary: d) (auto simp: dict_simps)

lemma in_dupdate: "(k, v) \<in> set (dupdate d e) \<Longrightarrow> (k, v) \<in> set d \<or> (k, v) \<in> set e"
proof (induction e arbitrary: d)
  case (Cons kv e)
  obtain a b where kv: "kv = (a, b)" by force
  have "(k', v') \<in> set (dput a b d) \<Longrightarrow> (k', v') = (a, b) \<or> (k', v') \<in> set d" for k' v'
    by (induction d) (auto simp: dput_def split: if_splits)
  then show ?case using Cons.IH [of "dput a b d"] Cons.prems by (auto simp: kv)
qed simp

lemma keys_dupdate: "fst ` set (dupdate d e) = fst ` set d \<union> fst ` set e"
proof (induction e arbitrary: d)
  case (Cons kv e)
  then show ?case by (cases kv) (simp add: dict_simps)
qed simp

lemma dedupe_entry: "(k, a) \<in> set (dedupe as) \<Longrightarrow> k = assertion_key a \<and> a \<in> set as"
  using in_dupdate [of k a "[]" "map (\<lambda>a. (assertion_key a, a)) as"] by (auto simp: dedupe_def)

lemma keys_dedupe: "fst ` set (dedupe as) = assertion_key ` set as"
  by (simp add: dedupe_def keys_dupdate image_image)

lemma wf_dedupe: "wf_dict (dedupe as)"
  by (simp add: dedupe_def wf_dict_dupdate)

lemma map_key_canonical: "map assertion_key (canonical_assertions as) = map fst (sort_key fst (dedupe as))"
  unfolding canonical_assertions_def using dedupe_entry by (auto simp: comp_def)

lemma canonical_keys_sorted: "sorted (map assertion_key (canonical_assertions as))"
  by (simp add: map_key_canonical)

lemma canonical_keys_distinct: "distinct (map assertion_key (canonical_assertions as))"
proof -
  have "mset (map fst (sort_key fst (dedupe as))) = mset (map fst (dedupe as))" by simp
  then have "distinct (map fst (sort_key fst (dedupe as)))"
    using wf_dedupe [of as] by (metis mset_eq_imp_distinct_iff wf_dict_def)
  then show ?thesis by (simp only: map_key_canonical)
qed

lemma set_canonical_keys: "assertion_key ` set (canonical_assertions as) = assertion_key ` set as"
proof -
  have "set (map assertion_key (canonical_assertions as)) = assertion_key ` set as"
    unfolding map_key_canonical using keys_dedupe [of as] by simp
  then show ?thesis by simp
qed

lemma canonical_subset: "set (canonical_assertions as) \<subseteq> set as"
  using dedupe_entry by (auto simp: canonical_assertions_def)

lemma canonical_keys_cong:
  assumes "assertion_key ` set as = assertion_key ` set bs"
  shows "map assertion_key (canonical_assertions as) = map assertion_key (canonical_assertions bs)"
  by (rule sorted_distinct_set_unique)
    (use assms set_canonical_keys in \<open>simp_all add: canonical_keys_sorted canonical_keys_distinct\<close>)

text \<open>A list that is sorted by distinct keys is its own canonical form.\<close>

lemma canonical_id:
  assumes "sorted (map assertion_key as)" "distinct (map assertion_key as)"
  shows "canonical_assertions as = as"
proof -
  let ?kvs = "map (\<lambda>a. (assertion_key a, a)) as"
  have new: "dupdate d e = d @ e" if "distinct (map fst (d @ e))" for d :: "(string \<times> assertion) list" and e
    using that
  proof (induction e arbitrary: d)
    case (Cons kv e)
    obtain k v where kv: "kv = (k, v)" by force
    then have "dput k v d = d @ [(k, v)]" using Cons.prems by (intro length_dput_new) auto
    then show ?case using Cons.IH [of "d @ [(k, v)]"] Cons.prems by (simp add: kv)
  qed simp
  have "dedupe as = ?kvs" using new [of "[]" ?kvs] assms(2) by (simp add: dedupe_def comp_def)
  moreover have "sort_key fst ?kvs = ?kvs" using assms(1) by (intro sort_key_id_if_sorted) (simp add: comp_def)
  ultimately show ?thesis by (simp add: canonical_assertions_def comp_def)
qed

lemma canonical_idem [simp]: "canonical_assertions (canonical_assertions as) = canonical_assertions as"
  by (rule canonical_id [OF canonical_keys_sorted canonical_keys_distinct])

lemma same_keys_same_norm:
  assumes "map assertion_key as = map assertion_key bs" "\<forall>a \<in> set as \<union> set bs. assertion_ok a"
  shows "map norm_assertion as = map norm_assertion bs"
proof (rule nth_equalityI)
  show len: "length (map norm_assertion as) = length (map norm_assertion bs)"
    using assms(1) by (metis length_map)
  fix i assume "i < length (map norm_assertion as)"
  then have i: "i < length as" "i < length bs" using len by auto
  then have "assertion_key (as ! i) = assertion_key (bs ! i)" using assms(1) by (metis nth_map)
  then have "norm_assertion (as ! i) = norm_assertion (bs ! i)"
    using assertion_key_eq_iff [of "as ! i" "bs ! i"] assms(2) i by simp
  then show "map norm_assertion as ! i = map norm_assertion bs ! i" using i by simp
qed

lemma json_norm_assertion: "json_norm (assertion_to_dict a) = json_norm (assertion_to_dict (norm_assertion a))"
  using json_norm_obj [of "a_o a"] by (simp add: assertion_to_dict_def norm_assertion_def sort_key_simps)

lemma assertion_key_norm [simp]: "assertion_key (norm_assertion a) = assertion_key a"
  using json_norm_assertion [of a] by (simp add: assertion_key_def canonical_bytes_def)

lemma assertion_ok_norm: "assertion_ok a \<Longrightarrow> assertion_ok (norm_assertion a)"
  by (cases "a_o a") (simp_all add: assertion_ok_def obj_ok_def norm_assertion_def norm_obj_def wf_pyval_norm)

section \<open>Reading a graph back\<close>

lemma obj_round_norm: "obj_ok o' \<Longrightarrow> obj_from_dict (json_norm (obj_to_dict o')) = Inr (norm_obj o')"
  by (cases o') (simp_all add: obj_ok_def obj_to_dict_def obj_from_dict_def norm_obj_def parse_simps dict_eval
      mk_obj_def check_obj_def sort_key_simps)

lemma assertion_round_norm:
  "assertion_ok a \<Longrightarrow> assertion_from_dict (json_norm (assertion_to_dict a)) = Inr (norm_assertion a)"
  by (simp add: assertion_ok_def assertion_from_dict_def assertion_to_dict_def norm_assertion_def parse_simps
      dict_eval obj_round_norm mk_assertion_def sort_key_simps)

definition graph_ok :: "graph \<Rightarrow> bool" where
  "graph_ok g \<longleftrightarrow> gr_schema g = GRAPH_SCHEMA \<and> gr_scope g \<noteq> [] \<and>
     (\<forall>a \<in> set (gr_assertions g). assertion_ok a) \<and> canonical_assertions (gr_assertions g) = gr_assertions g \<and>
     length (gr_assertions g) \<le> MAX_CLOSURE_ASSERTIONS \<and> sorted (gr_sources g) \<and> distinct (map fst (gr_sources g))"

definition norm_graph :: "graph \<Rightarrow> graph" where
  "norm_graph g = g\<lparr>gr_assertions := map norm_assertion (gr_assertions g)\<rparr>"

lemma mk_graph_ok:
  "mk_graph scope as sources schema = Inr g \<Longrightarrow> \<forall>a \<in> set as. assertion_ok a \<Longrightarrow> distinct (map fst sources) \<Longrightarrow>
     graph_ok g"
  using canonical_subset [of as]
  by (auto simp: mk_graph_def result_simps graph_ok_def
      mset_eq_imp_distinct_iff [of "map fst (sort sources)" "map fst sources"])

lemma sorted_pairs_fst: "sorted (kvs :: (string \<times> string) list) \<Longrightarrow> sorted (map fst kvs)"
  by (induction kvs) (auto simp: less_eq_prod_def)

lemma sources_dict:
  assumes "distinct (map fst kvs)"
  shows "dupdate [] (map (\<lambda>kv. (fst kv, PStr (snd kv))) kvs) = map (\<lambda>kv. (fst kv, PStr (snd kv))) kvs"
proof -
  have "dupdate d e = d @ e" if "distinct (map fst (d @ e))" for d e :: "pyval dict"
    using that
  proof (induction e arbitrary: d)
    case (Cons kv e)
    obtain k v where kv: "kv = (k, v)" by force
    then have "dput k v d = d @ [(k, v)]" using Cons.prems by (intro length_dput_new) auto
    then show ?case using Cons.IH [of "d @ [(k, v)]"] Cons.prems by (simp add: kv)
  qed simp
  from this [of "[]"] assms show ?thesis by (simp add: comp_def)
qed

lemma graph_parse_parts:
  assumes "mapR assertion_from_dict items = Inr as" "schema = GRAPH_SCHEMA" "scope \<noteq> []"
    "canonical_assertions as = as" "length as \<le> MAX_CLOSURE_ASSERTIONS" "sorted sources"
    "dget kvs ''schema'' = Some (PStr schema)" "dget kvs ''scope'' = Some (PStr scope)"
    "dget kvs ''assertions'' = Some (PList items)"
    "dget kvs ''sources'' = Some (PDict (map (\<lambda>kv. (fst kv, PStr (snd kv))) sources))"
  shows "graph_from_dict (PDict kvs) =
    Inr \<lparr>gr_scope = scope, gr_assertions = as, gr_sources = sources, gr_schema = schema\<rparr>"
  using assms
  by (cases "sources = []")
    (simp_all add: graph_from_dict_def parse_simps dget_or_def truthy_def mk_graph_def comp_def sorted_sort_id)

lemma graph_from_to_dict:
  assumes "graph_ok g"
  shows "graph_from_dict (graph_to_dict g) = Inr g"
proof -
  have "mapR assertion_from_dict (map assertion_to_dict (gr_assertions g)) = Inr (gr_assertions g)"
    using assms assertion_round by (auto simp: result_simps list_all2_map1 graph_ok_def intro!: list.rel_refl_strong)
  from graph_parse_parts [OF this] assms show ?thesis
    by (cases g) (simp add: graph_to_dict_def graph_ok_def sources_dict dict_eval)
qed

lemma graph_from_text:
  assumes "graph_ok g"
  shows "graph_from_dict (json_norm (graph_to_dict g)) = Inr (norm_graph g)"
proof -
  let ?as = "gr_assertions g"
  have ok: "\<forall>a \<in> set ?as. assertion_ok a" using assms by (simp add: graph_ok_def)
  have parse: "mapR assertion_from_dict (map (\<lambda>a. json_norm (assertion_to_dict a)) ?as) = Inr (map norm_assertion ?as)"
    using ok assertion_round_norm
    by (auto simp: result_simps list_all2_map1 list_all2_map2 intro!: list.rel_refl_strong)
  have "sorted (map assertion_key ?as)" "distinct (map assertion_key ?as)"
    using assms canonical_keys_sorted [of ?as] canonical_keys_distinct [of ?as] by (simp_all add: graph_ok_def)
  then have can: "canonical_assertions (map norm_assertion ?as) = map norm_assertion ?as"
    by (intro canonical_id) (simp_all add: comp_def)
  have srcs: "sort_key fst (map (\<lambda>kv. (fst kv, PStr (snd kv))) (gr_sources g)) =
      map (\<lambda>kv. (fst kv, PStr (snd kv))) (gr_sources g)"
    using assms sorted_pairs_fst by (intro sort_key_id_if_sorted) (simp add: graph_ok_def comp_def)
  from graph_parse_parts [OF parse] assms can srcs show ?thesis
    by (cases g) (simp add: graph_to_dict_def graph_ok_def sources_dict dict_eval sort_key_simps comp_def norm_graph_def)
qed

end
