(* ===== verification/Onto_Rules.thy ===== *)
theory Onto_Rules
  imports Onto_Terms
begin

text \<open>
  \<open>contracts/ontology.py\<close>: the rules of the pinned entailment program. A \<open>Pattern\<close> is a
  tagged union (variable, named term, literal), an atom may be negated, and a rule must bind
  the variables of its head in its positive atoms.
\<close>

section \<open>Patterns, atoms, rules\<close>

datatype pattern = Var string | Named string | Lit string pyval

definition mk_pattern :: "pattern \<Rightarrow> onto_error + pattern" where
  "mk_pattern p =
     thenR (malformed (case p of Var n \<Rightarrow> n = [] | Named n \<Rightarrow> n = [] | Lit t _ \<Rightarrow> t \<notin> set type_names)) (Inr p)"

definition pattern_variables :: "pattern \<Rightarrow> string list" where
  "pattern_variables p = (case p of Var n \<Rightarrow> if n \<noteq> ''_'' then [n] else [] | _ \<Rightarrow> [])"

definition pattern_to_dict :: "pattern \<Rightarrow> pyval" where
  "pattern_to_dict p =
     (case p of Var n \<Rightarrow> PDict [(''var'', PStr n)] | Named n \<Rightarrow> PDict [(''term'', PStr n)]
      | Lit t v \<Rightarrow> PDict [(''lit'', PDict [(''t'', PStr t), (''v'', v)])])"

definition pattern_from_dict :: "pyval \<Rightarrow> onto_error + pattern" where
  "pattern_from_dict data =
     (case data of
        PDict kvs \<Rightarrow>
          (case dget kvs ''var'' of Some v \<Rightarrow> mk_pattern (Var (py_str v))
           | None \<Rightarrow> (case dget kvs ''term'' of Some v \<Rightarrow> mk_pattern (Named (py_str v))
             | None \<Rightarrow> (case dget kvs ''lit'' of
                 Some inner \<Rightarrow>
                   thenR (malformed (\<not> is_mapping inner))
                     (bindR (item_str inner ''t'') (\<lambda>t. bindR (fetch inner ''v'' PNone) (\<lambda>v. mk_pattern (Lit t v))))
               | None \<Rightarrow> Inl (Ontology_Error Malformed_Document))))
      | _ \<Rightarrow> Inl (Ontology_Error Malformed_Document))"

record rule_atom =
  at_s :: pattern
  at_p :: string
  at_o :: pattern
  at_negated :: bool

definition mk_atom :: "pattern \<Rightarrow> string \<Rightarrow> pattern \<Rightarrow> bool \<Rightarrow> onto_error + rule_atom" where
  "mk_atom s p o' neg =
     thenR (malformed (p = [])) (thenR (malformed (case s of Lit _ _ \<Rightarrow> True | _ \<Rightarrow> False))
       (Inr \<lparr>at_s = s, at_p = p, at_o = o', at_negated = neg\<rparr>))"

definition atom_variables :: "rule_atom \<Rightarrow> string list" where
  "atom_variables a = pattern_variables (at_s a) @ pattern_variables (at_o a)"

definition atom_to_dict :: "rule_atom \<Rightarrow> pyval" where
  "atom_to_dict a = PDict [(''s'', pattern_to_dict (at_s a)), (''p'', PStr (at_p a)),
     (''o'', pattern_to_dict (at_o a)), (''negated'', PBool (at_negated a))]"

definition atom_from_dict :: "pyval \<Rightarrow> onto_error + rule_atom" where
  "atom_from_dict data =
     thenR (malformed (\<not> is_mapping data))
       (bindR (item data ''s'') (\<lambda>s0. bindR (pattern_from_dict s0) (\<lambda>s.
        bindR (item_str data ''p'') (\<lambda>p.
        bindR (item data ''o'') (\<lambda>o0. bindR (pattern_from_dict o0) (\<lambda>o'.
        bindR (fetch data ''negated'' (PBool False)) (\<lambda>neg. mk_atom s p o' (truthy neg))))))))"

record rule =
  ru_id :: string
  ru_head :: rule_atom
  ru_body :: "rule_atom list"
  ru_schema :: string

definition positive_variables :: "rule_atom list \<Rightarrow> string list" where
  "positive_variables body = concat (map atom_variables (filter (\<lambda>a. \<not> at_negated a) body))"

definition mk_rule :: "string \<Rightarrow> rule_atom \<Rightarrow> rule_atom list \<Rightarrow> string \<Rightarrow> onto_error + rule" where
  "mk_rule rid head body schema =
     thenR (malformed (schema \<noteq> RULES_SCHEMA)) (thenR (malformed (rid = []))
     (thenR (malformed (at_negated head)) (thenR (malformed (body = []))
     (thenR (malformed (MAX_RULE_BODY < length body))
     (thenR (iterR (\<lambda>n. malformed (n \<notin> set (positive_variables body))) (atom_variables head))
       (Inr \<lparr>ru_id = rid, ru_head = head, ru_body = body, ru_schema = schema\<rparr>))))))"

definition rule_to_dict :: "rule \<Rightarrow> pyval" where
  "rule_to_dict r = PDict [(''schema'', PStr (ru_schema r)), (''id'', PStr (ru_id r)),
     (''head'', atom_to_dict (ru_head r)), (''body'', PList (map atom_to_dict (ru_body r)))]"

definition rule_from_dict :: "pyval \<Rightarrow> onto_error + rule" where
  "rule_from_dict data =
     thenR (malformed (\<not> is_mapping data))
       (bindR (fetch data ''body'' (PList [])) (\<lambda>raw.
          case raw of
            PList atoms \<Rightarrow>
              bindR (item_str data ''id'') (\<lambda>rid.
              bindR (item data ''head'') (\<lambda>h0. bindR (atom_from_dict h0) (\<lambda>h.
              bindR (mapR atom_from_dict atoms) (\<lambda>body.
              bindR (fetch data ''schema'' (PStr RULES_SCHEMA)) (\<lambda>schema.
                mk_rule rid h body (py_str schema))))))
          | _ \<Rightarrow> Inl (Ontology_Error Malformed_Document)))"

section \<open>Well-formed rules\<close>

definition pattern_ok :: "pattern \<Rightarrow> bool" where
  "pattern_ok p = (case p of Var n \<Rightarrow> n \<noteq> [] | Named n \<Rightarrow> n \<noteq> [] | Lit t v \<Rightarrow> t \<in> set type_names \<and> wf_pyval v)"

definition atom_ok :: "rule_atom \<Rightarrow> bool" where
  "atom_ok a \<longleftrightarrow> pattern_ok (at_s a) \<and> at_p a \<noteq> [] \<and> pattern_ok (at_o a) \<and>
     (case at_s a of Lit _ _ \<Rightarrow> False | _ \<Rightarrow> True)"

definition rule_ok :: "rule \<Rightarrow> bool" where
  "rule_ok r \<longleftrightarrow> ru_schema r = RULES_SCHEMA \<and> ru_id r \<noteq> [] \<and> atom_ok (ru_head r) \<and> \<not> at_negated (ru_head r) \<and>
     ru_body r \<noteq> [] \<and> length (ru_body r) \<le> MAX_RULE_BODY \<and> (\<forall>a \<in> set (ru_body r). atom_ok a) \<and>
     set (atom_variables (ru_head r)) \<subseteq> set (positive_variables (ru_body r))"

lemma pattern_round: "pattern_ok p \<Longrightarrow> pattern_from_dict (pattern_to_dict p) = Inr p"
  by (cases p) (simp_all add: pattern_ok_def pattern_to_dict_def pattern_from_dict_def mk_pattern_def
      parse_simps dict_eval)

lemma atom_round: "atom_ok a \<Longrightarrow> atom_from_dict (atom_to_dict a) = Inr a"
  by (simp add: atom_ok_def atom_from_dict_def atom_to_dict_def parse_simps dict_eval pattern_round
      truthy_def mk_atom_def split: pattern.splits)

lemma mk_rule_iff:
  "mk_rule rid h body schema = Inr r \<longleftrightarrow>
     r = \<lparr>ru_id = rid, ru_head = h, ru_body = body, ru_schema = schema\<rparr> \<and>
     schema = RULES_SCHEMA \<and> rid \<noteq> [] \<and> \<not> at_negated h \<and> body \<noteq> [] \<and> length body \<le> MAX_RULE_BODY \<and>
     set (atom_variables h) \<subseteq> set (positive_variables body)"
  by (auto simp: mk_rule_def result_simps)

lemma rule_round:
  assumes "rule_ok r"
  shows "rule_from_dict (rule_to_dict r) = Inr r"
proof -
  have body: "mapR atom_from_dict (map atom_to_dict (ru_body r)) = Inr (ru_body r)"
    using assms atom_round
    by (auto simp: result_simps list_all2_map1 rule_ok_def intro!: list.rel_refl_strong)
  have "mk_rule (ru_id r) (ru_head r) (ru_body r) RULES_SCHEMA = Inr r"
    using assms by (cases r) (simp add: mk_rule_iff rule_ok_def)
  then show ?thesis
    using assms body
    by (simp add: rule_ok_def rule_from_dict_def rule_to_dict_def parse_simps dict_eval atom_round)
qed

text \<open>Every rule the parser returns is range-restricted and its head is positive.\<close>

lemma parsed_rule_restricted:
  assumes "rule_from_dict data = Inr r"
  shows "\<not> at_negated (ru_head r) \<and> ru_body r \<noteq> [] \<and> length (ru_body r) \<le> MAX_RULE_BODY \<and>
     set (atom_variables (ru_head r)) \<subseteq> set (positive_variables (ru_body r))"
proof -
  obtain raw where raw: "fetch data ''body'' (PList []) = Inr raw"
    using assms by (auto simp: rule_from_dict_def result_simps)
  with assms show ?thesis
    by (cases raw) (auto simp: rule_from_dict_def result_simps mk_rule_iff)
qed

lemma rule_to_dict_inj: "rule_to_dict r = rule_to_dict r' \<Longrightarrow> rule_ok r \<Longrightarrow> rule_ok r' \<Longrightarrow> r = r'"
  using rule_round by (metis sum.inject(2))

end
