(* ===== verification/Onto_Fragment.thy ===== *)
theory Onto_Fragment
  imports Onto_Rules
begin

text \<open>
  \<open>contracts/ontology.py\<close>: ontology fragments. Construction rejects duplicates, overflow and
  a cycle of \<open>subClassOf\<close>, found by a three-colour depth-first search; the lookups, the import
  check and the additive-only check follow.
\<close>

section \<open>Imports and terms\<close>

record import_ref =
  im_id :: string
  im_version :: string
  im_hash :: string

definition mk_import :: "string \<Rightarrow> string \<Rightarrow> string \<Rightarrow> onto_error + import_ref" where
  "mk_import i v h =
     thenR (malformed (i = [] \<or> v = [])) (thenR (malformed (\<not> re_hex 64 h))
       (Inr \<lparr>im_id = i, im_version = v, im_hash = h\<rparr>))"

definition import_to_dict :: "import_ref \<Rightarrow> pyval" where
  "import_to_dict i = PDict [(''id'', PStr (im_id i)), (''version'', PStr (im_version i)), (''hash'', PStr (im_hash i))]"

record onto_term =
  t_kind :: string
  t_name :: string
  t_sub_class_of :: "string list"
  t_domain :: "string list"
  t_range :: "string list"

definition KIND_CLASS :: string where "KIND_CLASS = ''class''"
definition KIND_PROPERTY :: string where "KIND_PROPERTY = ''property''"

definition mk_term ::
  "string \<Rightarrow> string \<Rightarrow> string list \<Rightarrow> string list \<Rightarrow> string list \<Rightarrow> onto_error + onto_term" where
  "mk_term kind name sups dom' ran' =
     thenR (malformed (kind \<noteq> KIND_CLASS \<and> kind \<noteq> KIND_PROPERTY))
     (thenR (malformed (name = []))
     (thenR (malformed (kind = KIND_PROPERTY \<and> sups \<noteq> []))
     (thenR (malformed (kind = KIND_CLASS \<and> (dom' \<noteq> [] \<or> ran' \<noteq> [])))
       (Inr \<lparr>t_kind = kind, t_name = name, t_sub_class_of = sups, t_domain = dom', t_range = ran'\<rparr>))))"

definition term_to_dict :: "onto_term \<Rightarrow> pyval" where
  "term_to_dict t = PDict [(''kind'', PStr (t_kind t)), (''name'', PStr (t_name t)),
     (''sub_class_of'', PStrs (t_sub_class_of t)), (''domain'', PStrs (t_domain t)), (''range'', PStrs (t_range t))]"

record fragment =
  f_id :: string
  f_version :: string
  f_imports :: "import_ref list"
  f_terms :: "onto_term list"
  f_rules :: "rule list"
  f_schema :: string

section \<open>The depth-first search\<close>

text \<open>\<open>parents\<close> maps every declared class to its declared superclasses; a colour is 0 (white), 1
  (on the path) or 2 (done). The fuel bounds the depth of the recursion.\<close>

definition class_parents :: "onto_term list \<Rightarrow> string list dict" where
  "class_parents terms = dupdate [] (map (\<lambda>t. (t_name t, t_sub_class_of t)) (filter (\<lambda>t. t_kind t = KIND_CLASS) terms))"

fun visit :: "nat \<Rightarrow> string list dict \<Rightarrow> string \<Rightarrow> (string \<Rightarrow> nat) \<Rightarrow> onto_error + (string \<Rightarrow> nat)" where
  "visit 0 parents node state = Inl Recursion_Limit"
| "visit (Suc fuel) parents node state =
     (if state node = 1 then Inl (Ontology_Error Malformed_Document)
      else if state node = 2 then Inr state
      else bindR (foldR (\<lambda>parent st. if dget parents parent = None then Inr st else visit fuel parents parent st)
                    (dget_or parents node []) (state(node := 1)))
             (\<lambda>st. Inr (st(node := 2))))"

definition assert_acyclic :: "onto_term list \<Rightarrow> onto_error + unit" where
  "assert_acyclic terms =
     (let parents = class_parents terms in
      bindR (foldR (visit (Suc (length parents)) parents) (dkeys parents) (\<lambda>_. 0)) (\<lambda>_. Inr ()))"

section \<open>Construction\<close>

definition mk_fragment ::
  "string \<Rightarrow> string \<Rightarrow> import_ref list \<Rightarrow> onto_term list \<Rightarrow> rule list \<Rightarrow> string \<Rightarrow> onto_error + fragment" where
  "mk_fragment fid version imports terms rules schema =
     thenR (malformed (schema \<noteq> ONTOLOGY_SCHEMA))
     (thenR (malformed (fid = [] \<or> version = []))
     (thenR (rejectR (MAX_FRAGMENT_TERMS < length terms) (Ontology_Error Fragment_Overflow))
     (thenR (malformed (\<not> distinct (map t_name terms)))
     (thenR (malformed (\<not> distinct (map im_id imports)))
     (thenR (rejectR (MAX_RULE_COUNT < length rules) (Ontology_Error Fragment_Overflow))
     (thenR (malformed (\<not> distinct (map ru_id rules)))
     (thenR (assert_acyclic terms)
       (Inr \<lparr>f_id = fid, f_version = version,
          f_imports = sort_key (\<lambda>i. (im_id i, im_version i, im_hash i)) imports,
          f_terms = sort_key t_name terms, f_rules = sort_key ru_id rules, f_schema = schema\<rparr>))))))))"

section \<open>Lookups and checks\<close>

definition find_term :: "fragment \<Rightarrow> string \<Rightarrow> onto_term option" where
  "find_term f name = find (\<lambda>t. t_name t = name) (f_terms f)"

definition declared :: "fragment \<Rightarrow> string \<Rightarrow> bool" where
  "declared f name \<longleftrightarrow> find_term f name \<noteq> None"

definition assert_declared :: "fragment \<Rightarrow> string \<Rightarrow> string option \<Rightarrow> onto_error + onto_term" where
  "assert_declared f name kind =
     (case find_term f name of
        None \<Rightarrow> Inl (Ontology_Error Undeclared_Term)
      | Some t \<Rightarrow>
          (case kind of None \<Rightarrow> Inr t
           | Some k \<Rightarrow> thenR (rejectR (t_kind t \<noteq> k) (Ontology_Error Undeclared_Term)) (Inr t)))"

text \<open>\<open>subclasses_of\<close>: a stack of names, popped at its end.\<close>

definition subclass_step :: "onto_term list \<Rightarrow> string list \<times> string list \<Rightarrow> string list \<times> string list" where
  "subclass_step terms s =
     (case s of (descendants, frontier) \<Rightarrow>
        let current = last frontier; rest = butlast frontier in
        if current \<in> set descendants then (descendants, rest)
        else (current # descendants,
              rest @ map t_name (filter (\<lambda>t. t_kind t = KIND_CLASS \<and> current \<in> set (t_sub_class_of t)) terms)))"

definition subclasses_of :: "fragment \<Rightarrow> string \<Rightarrow> string list option" where
  "subclasses_of f name =
     map_option (\<lambda>s. usort (fst s)) (while_option (\<lambda>(_, frontier). frontier \<noteq> []) (subclass_step (f_terms f)) ([], [name]))"

definition assert_imports_resolved :: "fragment \<Rightarrow> string dict \<Rightarrow> onto_error + unit" where
  "assert_imports_resolved f available =
     iterR (\<lambda>i. case dget available (im_id i) of
         None \<Rightarrow> Inl (Ontology_Error Missing_Import)
       | Some h \<Rightarrow> rejectR (h \<noteq> im_hash i) (Ontology_Error Version_Conflict)) (f_imports f)"

definition non_additive :: "bool \<Rightarrow> onto_error + unit" where
  "non_additive b = rejectR b (Ontology_Error Non_Additive_Change)"

definition check_old_term :: "onto_term dict \<Rightarrow> onto_term \<Rightarrow> onto_error + unit" where
  "check_old_term current old =
     (case dget current (t_name old) of
        None \<Rightarrow> Inl (Ontology_Error Non_Additive_Change)
      | Some new \<Rightarrow>
          thenR (non_additive (t_kind new \<noteq> t_kind old))
          (thenR (non_additive (\<not> set (t_sub_class_of old) \<subseteq> set (t_sub_class_of new)))
            (non_additive (\<not> set (t_domain old) \<subseteq> set (t_domain new) \<or> \<not> set (t_range old) \<subseteq> set (t_range new)))))"

definition check_old_rule :: "rule dict \<Rightarrow> rule \<Rightarrow> onto_error + unit" where
  "check_old_rule current old =
     (case dget current (ru_id old) of
        None \<Rightarrow> Inl (Ontology_Error Non_Additive_Change)
      | Some new \<Rightarrow> non_additive (\<not> py_eq (rule_to_dict new) (rule_to_dict old)))"

definition assert_additive :: "fragment \<Rightarrow> fragment \<Rightarrow> onto_error + unit" where
  "assert_additive f previous =
     thenR (iterR (check_old_term (dupdate [] (map (\<lambda>t. (t_name t, t)) (f_terms f)))) (f_terms previous))
       (iterR (check_old_rule (dupdate [] (map (\<lambda>r. (ru_id r, r)) (f_rules f)))) (f_rules previous))"

section \<open>Canonical form and parser\<close>

definition fragment_to_dict :: "fragment \<Rightarrow> pyval" where
  "fragment_to_dict f = PDict
     ([(''schema'', PStr (f_schema f)), (''id'', PStr (f_id f)), (''version'', PStr (f_version f)),
       (''imports'', PList (map import_to_dict (f_imports f))), (''terms'', PList (map term_to_dict (f_terms f)))]
      @ (if f_rules f \<noteq> [] then [(''rules'', PList (map rule_to_dict (f_rules f)))] else []))"

definition ontology_hash :: "(string \<Rightarrow> string) \<Rightarrow> fragment \<Rightarrow> string" where
  "ontology_hash sha f = sha (canonical_bytes (fragment_to_dict f))"

definition import_from_dict :: "pyval \<Rightarrow> onto_error + import_ref" where
  "import_from_dict v =
     bindR (item_str v ''id'') (\<lambda>i. bindR (item_str v ''version'') (\<lambda>ver.
       bindR (item_str v ''hash'') (\<lambda>h. mk_import i ver h)))"

definition term_from_dict :: "pyval \<Rightarrow> onto_error + onto_term" where
  "term_from_dict v =
     bindR (item_str v ''kind'') (\<lambda>k. bindR (item_str v ''name'') (\<lambda>n.
       bindR (fetch_strs v ''sub_class_of'') (\<lambda>s. bindR (fetch_strs v ''domain'') (\<lambda>d.
         bindR (fetch_strs v ''range'') (\<lambda>r. mk_term k n s d r)))))"

definition fragment_from_dict :: "pyval \<Rightarrow> onto_error + fragment" where
  "fragment_from_dict data =
     thenR (malformed (\<not> is_mapping data))
     (bindR (fetch data ''imports'' (PList [])) (\<lambda>im. bindR (fetch data ''terms'' (PList [])) (\<lambda>tm.
      bindR (fetch data ''rules'' (PList [])) (\<lambda>ru.
        (case (im, tm, ru) of
           (PList ims, PList tms, PList rus) \<Rightarrow>
             bindR (item_str data ''id'') (\<lambda>fid. bindR (item_str data ''version'') (\<lambda>ver.
             bindR (mapR import_from_dict ims) (\<lambda>imports. bindR (mapR term_from_dict tms) (\<lambda>terms.
             bindR (mapR rule_from_dict rus) (\<lambda>rules.
             bindR (fetch data ''schema'' (PStr ONTOLOGY_SCHEMA)) (\<lambda>schema.
               mk_fragment fid ver imports terms rules (py_str schema)))))))
         | _ \<Rightarrow> Inl (Ontology_Error Malformed_Document))))))"

end
