(* ===== verification/Onto_Acyclic.thy ===== *)
theory Onto_Acyclic
  imports Onto_Fragment
begin

text \<open>
  The three-colour depth-first search of \<open>Ontology._assert_acyclic\<close> decides acyclicity, and the
  stack of \<open>Ontology.subclasses_of\<close> computes the reflexive transitive closure.
\<close>

section \<open>The search\<close>

definition parent_rel :: "string list dict \<Rightarrow> (string \<times> string) set" where
  "parent_rel P = {(x, p). x \<in> fst ` set P \<and> p \<in> fst ` set P \<and> p \<in> set (dget_or P x [])}"

definition colours :: "string list dict \<Rightarrow> (string \<Rightarrow> nat) \<Rightarrow> bool" where
  "colours P st \<longleftrightarrow> (\<forall>x. st x \<noteq> 0 \<longrightarrow> x \<in> fst ` set P \<and> (st x = 1 \<or> st x = 2)) \<and>
     (\<forall>x p. st x = 2 \<longrightarrow> (x, p) \<in> parent_rel P \<longrightarrow> st p = 2) \<and>
     (\<forall>x. st x = 2 \<longrightarrow> (x, x) \<notin> (parent_rel P)\<^sup>+)"

definition extends :: "(string \<Rightarrow> nat) \<Rightarrow> (string \<Rightarrow> nat) \<Rightarrow> bool" where
  "extends st st' \<longleftrightarrow> (\<forall>x. st' x = 1 \<longleftrightarrow> st x = 1) \<and> (\<forall>x. st x = 2 \<longrightarrow> st' x = 2)"

lemma extends_refl [simp]: "extends st st"
  by (simp add: extends_def)

lemma extends_trans: "extends st st' \<Longrightarrow> extends st' st'' \<Longrightarrow> extends st st''"
  by (simp add: extends_def)

lemma done_closed: "(x, y) \<in> (parent_rel P)\<^sup>* \<Longrightarrow> colours P st \<Longrightarrow> st x = 2 \<Longrightarrow> st y = 2"
  by (induction rule: rtrancl_induct) (auto simp: colours_def)

definition white_count :: "string list dict \<Rightarrow> (string \<Rightarrow> nat) \<Rightarrow> nat" where
  "white_count P st = card {x \<in> fst ` set P. st x \<noteq> 1}"

lemma white_count_cong: "extends st st' \<Longrightarrow> white_count P st' = white_count P st"
  by (simp add: white_count_def extends_def)

lemma white_count_grey:
  assumes "node \<in> fst ` set P" "st node \<noteq> 1"
  shows "Suc (white_count P (st(node := 1))) = white_count P st"
proof -
  let ?W = "{x \<in> fst ` set P. st x \<noteq> 1}"
  have "{x \<in> fst ` set P. (st(node := 1)) x \<noteq> 1} = ?W - {node}" by auto
  moreover have "Suc (card (?W - {node})) = card ?W"
    by (rule card_Suc_Diff1) (use assms in simp_all)
  ultimately show ?thesis by (simp add: white_count_def)
qed

definition visit_post :: "string list dict \<Rightarrow> (string \<Rightarrow> nat) \<Rightarrow> (string \<Rightarrow> bool) \<Rightarrow> onto_error + (string \<Rightarrow> nat) \<Rightarrow> bool" where
  "visit_post P st Q r \<longleftrightarrow>
     (case r of Inl e \<Rightarrow> e = Ontology_Error Malformed_Document \<and> \<not> acyclic (parent_rel P)
      | Inr st' \<Rightarrow> colours P st' \<and> extends st st' \<and> (\<forall>x. Q x \<longrightarrow> st' x = 2))"

lemma visit_parents:
  assumes step: "\<And>p st. p \<in> fst ` set P \<Longrightarrow> p \<in> set ps \<Longrightarrow> colours P st \<Longrightarrow> extends st0 st \<Longrightarrow>
      visit_post P st (\<lambda>x. x = p) (visit fuel P p st)"
    and "colours P st" "extends st0 st"
  shows "visit_post P st (\<lambda>x. x \<in> set ps \<and> x \<in> fst ` set P)
    (foldR (\<lambda>p st. if dget P p = None then Inr st else visit fuel P p st) ps st)"
  using assms
proof (induction ps arbitrary: st)
  case Nil
  then show ?case by (simp add: visit_post_def)
next
  case (Cons p ps)
  let ?f = "\<lambda>p st. if dget P p = None then Inr st else visit fuel P p st"
  have IH: "visit_post P st (\<lambda>x. x \<in> set ps \<and> x \<in> fst ` set P) (foldR ?f ps st)"
    if "colours P st" "extends st0 st" for st
    by (rule Cons.IH [OF _ that]) (rule Cons.prems(1); simp)
  show ?case
  proof (cases "p \<in> fst ` set P")
    case False
    then have "?f p st = Inr st" by (simp add: dget_None_iff)
    then show ?thesis using IH [OF Cons.prems(2,3)] False
      by (auto simp: visit_post_def split: sum.splits)
  next
    case True
    then have ne: "dget P p \<noteq> None" by (simp add: dget_None_iff)
    have post: "visit_post P st (\<lambda>x. x = p) (visit fuel P p st)"
      using Cons.prems True by simp
    show ?thesis
    proof (cases "visit fuel P p st")
      case (Inl e)
      then show ?thesis using post ne by (auto simp: visit_post_def)
    next
      case (Inr st1)
      then have st1: "colours P st1" "extends st st1" "st1 p = 2" using post by (auto simp: visit_post_def)
      have "extends st0 st1" using Cons.prems(3) st1(2) by (rule extends_trans)
      have rest: "visit_post P st1 (\<lambda>x. x \<in> set ps \<and> x \<in> fst ` set P) (foldR ?f ps st1)"
        by (rule IH [OF st1(1) \<open>extends st0 st1\<close>])
      have run: "foldR ?f (p # ps) st = foldR ?f ps st1" using ne Inr by auto
      show ?thesis
      proof (cases "foldR ?f ps st1")
        case (Inl e)
        then show ?thesis using rest unfolding run by (simp add: visit_post_def)
      next
        case (Inr st2)
        then have st2: "colours P st2" "extends st1 st2" "\<forall>x. x \<in> set ps \<and> x \<in> fst ` set P \<longrightarrow> st2 x = 2"
          using rest by (simp_all add: visit_post_def)
        have "extends st st2" using st1(2) st2(2) by (rule extends_trans)
        moreover have "st2 p = 2" using st1(3) st2(2) by (simp add: extends_def)
        ultimately show ?thesis using st2(1,3) unfolding run Inr by (auto simp: visit_post_def)
      qed
    qed
  qed
qed

lemma visit_spec:
  assumes "node \<in> fst ` set P" "colours P st" "\<forall>g. st g = 1 \<longrightarrow> (g, node) \<in> (parent_rel P)\<^sup>+"
    "white_count P st < fuel"
  shows "visit_post P st (\<lambda>x. x = node) (visit fuel P node st)"
  using assms
proof (induction fuel arbitrary: node st)
  case 0
  then show ?case by simp
next
  case (Suc fuel)
  consider (grey) "st node = 1" | (black) "st node = 2" | (white) "st node \<noteq> 1" "st node \<noteq> 2" by blast
  then show ?case
  proof cases
    case grey
    then show ?thesis using Suc.prems(3) by (auto simp: visit_post_def acyclic_def)
  next
    case black
    then show ?thesis using Suc.prems(2) by (simp add: visit_post_def)
  next
    case white
    let ?st = "st(node := 1)" and ?ps = "dget_or P node []"
    have zero: "st node = 0" using Suc.prems(2) white by (auto simp: colours_def)
    have col: "colours P ?st" using Suc.prems(1,2) zero by (auto simp: colours_def)
    have wc: "white_count P ?st < fuel" using white_count_grey [of node P st] Suc.prems(1,4) white(1) by simp
    have "visit_post P st' (\<lambda>x. x = p) (visit fuel P p st')"
      if p: "p \<in> fst ` set P" "p \<in> set ?ps" "colours P st'" "extends ?st st'" for p st'
    proof (rule Suc.IH [OF p(1,3)])
      have e: "(node, p) \<in> parent_rel P" using Suc.prems(1) p(1,2) by (simp add: parent_rel_def)
      show "\<forall>g. st' g = 1 \<longrightarrow> (g, p) \<in> (parent_rel P)\<^sup>+"
        using p(4) e Suc.prems(3) by (auto simp: extends_def split: if_splits intro: trancl_into_trancl)
      show "white_count P st' < fuel" using white_count_cong [OF p(4)] wc by simp
    qed
    from visit_parents [OF this col extends_refl]
    have fold: "visit_post P ?st (\<lambda>x. x \<in> set ?ps \<and> x \<in> fst ` set P)
      (foldR (\<lambda>p st. if dget P p = None then Inr st else visit fuel P p st) ?ps ?st)" .
    show ?thesis
    proof (cases "foldR (\<lambda>p st. if dget P p = None then Inr st else visit fuel P p st) ?ps ?st")
      case (Inl e)
      then show ?thesis using fold white by (simp add: visit_post_def)
    next
      case (Inr st')
      with fold have st': "colours P st'" "extends ?st st'" "\<forall>x. x \<in> set ?ps \<and> x \<in> fst ` set P \<longrightarrow> st' x = 2"
        by (auto simp: visit_post_def)
      have grey': "st' node = 1" using st'(2) by (simp add: extends_def)
      have par: "st' p = 2" if "(node, p) \<in> parent_rel P" for p using that st'(3) by (simp add: parent_rel_def)
      have nocycle: "(node, node) \<notin> (parent_rel P)\<^sup>+"
      proof
        assume "(node, node) \<in> (parent_rel P)\<^sup>+"
        then obtain p where "(node, p) \<in> parent_rel P" "(p, node) \<in> (parent_rel P)\<^sup>*" by (meson tranclD)
        then have "st' node = 2" using par done_closed [OF _ st'(1)] by blast
        then show False using grey' by simp
      qed
      have "colours P (st'(node := 2))"
        using st'(1) par nocycle Suc.prems(1) unfolding colours_def by auto
      moreover have "extends st (st'(node := 2))"
        using st'(2) white by (auto simp: extends_def split: if_splits)
      ultimately show ?thesis using Inr white by (simp add: visit_post_def)
    qed
  qed
qed

declare visit.simps [simp del]

lemma visit_all:
  assumes "set ns \<subseteq> fst ` set P" "colours P st" "\<forall>x. st x \<noteq> 1"
  shows "visit_post P st (\<lambda>x. x \<in> set ns) (foldR (visit (Suc (length P)) P) ns st)"
  using assms
proof (induction ns arbitrary: st)
  case Nil
  then show ?case by (simp add: visit_post_def)
next
  case (Cons n ns)
  have "white_count P st \<le> card (fst ` set P)" unfolding white_count_def by (rule card_mono) auto
  also have "\<dots> \<le> length P" by (metis card_length length_map list.set_map)
  finally have "white_count P st \<le> length P" .
  then have post: "visit_post P st (\<lambda>x. x = n) (visit (Suc (length P)) P n st)"
    using Cons.prems by (intro visit_spec) auto
  show ?case
  proof (cases "visit (Suc (length P)) P n st")
    case (Inl e)
    then show ?thesis using post by (simp add: visit_post_def)
  next
    case (Inr st1)
    then have st1: "colours P st1" "extends st st1" "st1 n = 2" using post by (auto simp: visit_post_def)
    then have "\<forall>x. st1 x \<noteq> 1" using Cons.prems(3) by (simp add: extends_def)
    from Cons.IH [OF _ st1(1) this] Cons.prems(1)
    have rest: "visit_post P st1 (\<lambda>x. x \<in> set ns) (foldR (visit (Suc (length P)) P) ns st1)" by simp
    then show ?thesis
    proof (cases "foldR (visit (Suc (length P)) P) ns st1")
      case (Inr st2)
      then show ?thesis using rest st1 \<open>visit (Suc (length P)) P n st = Inr st1\<close>
        by (simp add: visit_post_def extends_def)
    qed (simp add: visit_post_def Inr)
  qed
qed

text \<open>\<open>_assert_acyclic\<close> accepts exactly the acyclic hierarchies, and the fuel is never exhausted.\<close>

theorem assert_acyclic_iff:
  "assert_acyclic terms =
     (if acyclic (parent_rel (class_parents terms)) then Inr () else Inl (Ontology_Error Malformed_Document))"
proof -
  let ?P = "class_parents terms"
  have "visit_post ?P (\<lambda>_. 0) (\<lambda>x. x \<in> set (dkeys ?P)) (foldR (visit (Suc (length ?P)) ?P) (dkeys ?P) (\<lambda>_. 0))"
    by (rule visit_all) (auto simp: dkeys_def colours_def)
  moreover have "acyclic (parent_rel ?P)" if "colours ?P st" "\<forall>x \<in> set (dkeys ?P). st x = 2" for st
    unfolding acyclic_def
  proof (intro allI notI)
    fix x assume cyc: "(x, x) \<in> (parent_rel ?P)\<^sup>+"
    then obtain y where "(x, y) \<in> parent_rel ?P" by (meson tranclD)
    then have "st x = 2" using that(2) by (auto simp: parent_rel_def dkeys_def)
    then show False using that(1) cyc by (simp add: colours_def)
  qed
  ultimately show ?thesis
    by (cases "foldR (visit (Suc (length ?P)) ?P) (dkeys ?P) (\<lambda>_. 0)")
      (auto simp: assert_acyclic_def Let_def visit_post_def)
qed

section \<open>Declared subclasses\<close>

definition subclass_edges :: "onto_term list \<Rightarrow> (string \<times> string) set" where
  "subclass_edges terms = {(t_name t, c) | t c. t \<in> set terms \<and> t_kind t = KIND_CLASS \<and> c \<in> set (t_sub_class_of t)}"

definition subclass_inv :: "onto_term list \<Rightarrow> string \<Rightarrow> string list \<times> string list \<Rightarrow> bool" where
  "subclass_inv terms name s \<longleftrightarrow>
     (case s of (descendants, frontier) \<Rightarrow>
        set descendants \<union> set frontier \<subseteq> {x. (x, name) \<in> (subclass_edges terms)\<^sup>*} \<and>
        name \<in> set descendants \<union> set frontier \<and>
        (\<forall>x y. y \<in> set descendants \<longrightarrow> (x, y) \<in> subclass_edges terms \<longrightarrow> x \<in> set descendants \<union> set frontier) \<and>
        set descendants \<union> set frontier \<subseteq> insert name (t_name ` set terms) \<and> distinct descendants)"

lemma subclass_step_inv:
  assumes "subclass_inv terms name s" "snd s \<noteq> []"
  shows "subclass_inv terms name (subclass_step terms s)"
proof -
  obtain ds fr where s: "s = (ds, fr)" by force
  obtain rest x where fr: "fr = rest @ [x]" using assms(2) by (cases fr rule: rev_cases) (simp_all add: s)
  let ?new = "map t_name (filter (\<lambda>t. t_kind t = KIND_CLASS \<and> x \<in> set (t_sub_class_of t)) terms)"
  have new: "n \<in> set ?new \<longleftrightarrow> (n, x) \<in> subclass_edges terms" for n
    by (auto simp: subclass_edges_def)
  have names: "set ?new \<subseteq> t_name ` set terms" by auto
  have x: "(x, name) \<in> (subclass_edges terms)\<^sup>*" using assms(1) by (simp add: s fr subclass_inv_def)
  have reach: "set ?new \<subseteq> {y. (y, name) \<in> (subclass_edges terms)\<^sup>*}"
    using new x by (auto intro: converse_rtrancl_into_rtrancl)
  show ?thesis
  proof (cases "x \<in> set ds")
    case True
    then show ?thesis using assms(1) by (auto simp: s fr subclass_inv_def subclass_step_def)
  next
    case False
    have step: "subclass_step terms s = (x # ds, rest @ ?new)" using False by (simp add: s fr subclass_step_def)
    have closed: "a \<in> set (x # ds) \<union> set (rest @ ?new)"
      if "y \<in> set (x # ds)" "(a, y) \<in> subclass_edges terms" for a y
    proof (cases "y = x")
      case True
      then show ?thesis using that(2) new by (simp del: set_map)
    next
      case False
      then have "a \<in> set ds \<union> set (rest @ [x])"
        using that assms(1) unfolding s fr subclass_inv_def prod.case by auto
      then show ?thesis by auto
    qed
    have sub: "set ds \<union> set (rest @ [x]) \<subseteq> {x. (x, name) \<in> (subclass_edges terms)\<^sup>*}"
      "name \<in> set ds \<union> set (rest @ [x])" "set ds \<union> set (rest @ [x]) \<subseteq> insert name (t_name ` set terms)"
      "distinct ds"
      using assms(1) unfolding s fr subclass_inv_def prod.case by blast+
    show ?thesis
      unfolding step subclass_inv_def prod.case
    proof (intro conjI allI impI)
      show "set (x # ds) \<union> set (rest @ ?new) \<subseteq> {x. (x, name) \<in> (subclass_edges terms)\<^sup>*}"
        using sub(1) reach by auto
      show "name \<in> set (x # ds) \<union> set (rest @ ?new)" using sub(2) by auto
      show "set (x # ds) \<union> set (rest @ ?new) \<subseteq> insert name (t_name ` set terms)"
        using sub(3) names by auto
      show "distinct (x # ds)" using sub(4) False by simp
    qed (rule closed)
  qed
qed

definition subclass_measure :: "onto_term list \<Rightarrow> string \<Rightarrow> string list \<times> string list \<Rightarrow> nat" where
  "subclass_measure terms name s =
     (Suc (length terms)) * (card (insert name (t_name ` set terms)) - length (fst s)) + length (snd s)"

lemma subclass_step_measure:
  assumes "subclass_inv terms name s" "snd s \<noteq> []"
  shows "subclass_measure terms name (subclass_step terms s) < subclass_measure terms name s"
proof -
  obtain ds fr where s: "s = (ds, fr)" by force
  obtain rest x where fr: "fr = rest @ [x]" using assms(2) by (cases fr rule: rev_cases) (simp_all add: s)
  let ?U = "insert name (t_name ` set terms)"
  let ?new = "map t_name (filter (\<lambda>t. t_kind t = KIND_CLASS \<and> x \<in> set (t_sub_class_of t)) terms)"
  show ?thesis
  proof (cases "x \<in> set ds")
    case True
    then show ?thesis by (simp add: s fr subclass_step_def subclass_measure_def)
  next
    case False
    have "set (x # ds) \<subseteq> ?U" "distinct (x # ds)" using assms(1) False by (auto simp: s fr subclass_inv_def)
    then have "length (x # ds) \<le> card ?U" by (metis card_mono distinct_card finite.insertI finite_imageI List.finite_set)
    then have "card ?U - length ds = Suc (card ?U - length (x # ds))" by simp
    moreover have "length ?new \<le> length terms" by simp
    moreover have "subclass_step terms s = (x # ds, rest @ ?new)" using False by (simp add: s fr subclass_step_def)
    ultimately have "subclass_measure terms name (subclass_step terms s) =
        Suc (length terms) * (card ?U - length (x # ds)) + (length rest + length ?new)"
      "subclass_measure terms name s =
        Suc (length terms) * Suc (card ?U - length (x # ds)) + Suc (length rest)"
      "length ?new \<le> length terms"
      by (simp_all only: subclass_measure_def s fr fst_conv snd_conv length_append list.size add_Suc_right add_0_right)
    then show ?thesis by (simp only: mult_Suc_right)
  qed
qed

theorem subclasses_of_result:
  "\<exists>ns. subclasses_of f name = Some ns \<and> sorted ns \<and> distinct ns \<and>
     set ns = {x. (x, name) \<in> (subclass_edges (f_terms f))\<^sup>*}"
proof -
  let ?b = "\<lambda>(_ :: string list, frontier :: string list). frontier \<noteq> []" and ?c = "subclass_step (f_terms f)"
  let ?P = "subclass_inv (f_terms f) name"
  have step: "?P s \<and> ?b s \<Longrightarrow> ?P (?c s)" and dec: "?P s \<Longrightarrow> ?b s \<Longrightarrow> ?P (?c s) \<and>
      subclass_measure (f_terms f) name (?c s) < subclass_measure (f_terms f) name s" for s
    using subclass_step_inv [of "f_terms f" name s] subclass_step_measure [of "f_terms f" name s]
    by (auto simp: split_beta)
  have P0: "?P ([], [name])" by (simp add: subclass_inv_def)
  obtain t where t: "while_option ?b ?c ([], [name]) = Some t"
    using measure_while_option_Some [of ?P ?b ?c, OF dec P0] by blast
  have inv: "?P t" using while_option_rule [of ?P ?b ?c, OF _ t P0] step by blast
  have stop: "\<not> ?b t" using while_option_stop [OF t] .
  obtain ds where ds: "t = (ds, [])" using stop by (cases t) simp
  have "x \<in> set ds" if "(x, name) \<in> (subclass_edges (f_terms f))\<^sup>*" for x
    using that inv by (induction rule: converse_rtrancl_induct) (auto simp: ds subclass_inv_def)
  then have "set ds = {x. (x, name) \<in> (subclass_edges (f_terms f))\<^sup>*}"
    using inv by (auto simp: ds subclass_inv_def)
  then show ?thesis by (auto simp: subclasses_of_def t ds usort_def)
qed

end
