(* ===== verification/Onto_Gates.thy ===== *)
theory Onto_Gates
  imports Onto_Acyclic
begin

text \<open>
  Shapes, queries and closures (\<open>contracts/ontology.py\<close>, \<open>contracts/closure.py\<close>), and the gates
  of \<open>cbp/ontology_runtime.py\<close> that read a graph: capability discovery and shape validation.
\<close>

section \<open>Shapes\<close>

record requirement =
  q_relation :: string
  q_min_count :: int
  q_max_count :: "int option"
  q_datatype :: "string option"
  q_allowed :: "string list"

definition mk_requirement ::
  "string \<Rightarrow> int \<Rightarrow> int option \<Rightarrow> string option \<Rightarrow> string list \<Rightarrow> onto_error + requirement" where
  "mk_requirement relation mn mx dt allowed =
     thenR (malformed (relation = []))
     (thenR (malformed (mn < 0))
     (thenR (malformed (case mx of None \<Rightarrow> False | Some m \<Rightarrow> m < mn))
     (thenR (malformed (case dt of None \<Rightarrow> False | Some t \<Rightarrow> t \<notin> set type_names))
       (Inr \<lparr>q_relation = relation, q_min_count = mn, q_max_count = mx, q_datatype = dt, q_allowed = allowed\<rparr>))))"

definition opt_val :: "('a \<Rightarrow> pyval) \<Rightarrow> 'a option \<Rightarrow> pyval" where
  "opt_val f v = (case v of None \<Rightarrow> PNone | Some x \<Rightarrow> f x)"

definition requirement_to_dict :: "requirement \<Rightarrow> pyval" where
  "requirement_to_dict q = PDict [(''relation'', PStr (q_relation q)), (''min_count'', PInt (q_min_count q)),
     (''max_count'', opt_val PInt (q_max_count q)), (''datatype'', opt_val PStr (q_datatype q)),
     (''allowed'', PStrs (q_allowed q))]"

record shape =
  h_id :: string
  h_target :: string
  h_requirements :: "requirement list"
  h_closed :: bool
  h_schema :: string

definition mk_shape :: "string \<Rightarrow> string \<Rightarrow> requirement list \<Rightarrow> bool \<Rightarrow> string \<Rightarrow> onto_error + shape" where
  "mk_shape sid target reqs closed schema =
     thenR (malformed (schema \<noteq> SHAPES_SCHEMA))
     (thenR (malformed (sid = [] \<or> target = []))
     (thenR (malformed (\<not> distinct (map q_relation reqs)))
       (Inr \<lparr>h_id = sid, h_target = target, h_requirements = sort_key q_relation reqs,
          h_closed = closed, h_schema = schema\<rparr>)))"

definition shape_to_dict :: "shape \<Rightarrow> pyval" where
  "shape_to_dict h = PDict [(''schema'', PStr (h_schema h)), (''id'', PStr (h_id h)),
     (''target'', PStr (h_target h)), (''closed'', PBool (h_closed h)),
     (''requirements'', PList (map requirement_to_dict (h_requirements h)))]"

definition shape_hash :: "(string \<Rightarrow> string) \<Rightarrow> shape \<Rightarrow> string" where
  "shape_hash sha h = sha (canonical_bytes (shape_to_dict h))"

record shape_report =
  sr_ok :: bool
  sr_shape_id :: string
  sr_violations :: "pyval list"

definition shape_report_to_dict :: "shape_report \<Rightarrow> pyval" where
  "shape_report_to_dict r = PDict [(''ok'', PBool (sr_ok r)), (''shape_id'', PStr (sr_shape_id r)),
     (''violations'', PList (sr_violations r))]"

section \<open>Queries\<close>

record query =
  u_scope :: string
  u_target_class :: string
  u_requires_capabilities :: "string list"
  u_input_types :: "string list"
  u_output_types :: "string list"
  u_schema :: string

definition mk_query ::
  "string \<Rightarrow> string \<Rightarrow> string list \<Rightarrow> string list \<Rightarrow> string list \<Rightarrow> string \<Rightarrow> onto_error + query" where
  "mk_query scope target caps ins outs schema =
     thenR (malformed (schema \<noteq> QUERY_SCHEMA))
     (thenR (malformed (scope = [] \<or> target = []))
     (thenR (iterR (\<lambda>t. malformed (t \<notin> set type_names)) (ins @ outs))
       (Inr \<lparr>u_scope = scope, u_target_class = target, u_requires_capabilities = usort caps,
          u_input_types = usort ins, u_output_types = usort outs, u_schema = schema\<rparr>)))"

definition query_to_dict :: "query \<Rightarrow> pyval" where
  "query_to_dict u = PDict [(''schema'', PStr (u_schema u)), (''scope'', PStr (u_scope u)),
     (''target_class'', PStr (u_target_class u)), (''requires_capabilities'', PStrs (u_requires_capabilities u)),
     (''input_types'', PStrs (u_input_types u)), (''output_types'', PStrs (u_output_types u))]"

definition query_hash :: "(string \<Rightarrow> string) \<Rightarrow> query \<Rightarrow> string" where
  "query_hash sha u = sha (canonical_bytes (query_to_dict u))"

definition query_from_dict :: "pyval \<Rightarrow> onto_error + query" where
  "query_from_dict data =
     bindR (item_str data ''scope'') (\<lambda>scope. bindR (item_str data ''target_class'') (\<lambda>target.
     bindR (fetch_strs data ''requires_capabilities'') (\<lambda>caps. bindR (fetch_strs data ''input_types'') (\<lambda>ins.
     bindR (fetch_strs data ''output_types'') (\<lambda>outs. bindR (fetch data ''schema'' (PStr QUERY_SCHEMA)) (\<lambda>schema.
       mk_query scope target caps ins outs (py_str schema)))))))"

record discovery =
  d_scope :: string
  d_target_class :: string
  d_query_hash :: string
  d_components :: "string list"
  d_schema :: string

definition discovery_to_dict :: "discovery \<Rightarrow> pyval" where
  "discovery_to_dict d = PDict [(''schema'', PStr (d_schema d)), (''scope'', PStr (d_scope d)),
     (''target_class'', PStr (d_target_class d)), (''query_hash'', PStr (d_query_hash d)),
     (''components'', PStrs (d_components d))]"

definition result_hash :: "(string \<Rightarrow> string) \<Rightarrow> discovery \<Rightarrow> string" where
  "result_hash sha d = sha (canonical_bytes (discovery_to_dict d))"

section \<open>Closures\<close>

record closure =
  c_profile :: string
  c_graph_hash :: string
  c_ontology_hash :: string
  c_assertions :: "assertion list"
  c_schema :: string

definition hex64 :: "string \<Rightarrow> bool" where
  "hex64 v \<longleftrightarrow> length v = 64 \<and> list_all is_hexl v"

definition mk_closure ::
  "string \<Rightarrow> string \<Rightarrow> string \<Rightarrow> assertion list \<Rightarrow> string \<Rightarrow> onto_error + closure" where
  "mk_closure profile gh oh as schema =
     thenR (malformed (schema \<noteq> CLOSURE_SCHEMA))
     (thenR (malformed (profile = []))
     (thenR (iterR (\<lambda>v. malformed (\<not> hex64 v)) [gh, oh])
     (thenR (rejectR (MAX_CLOSURE_ASSERTIONS < length (canonical_assertions as)) (Ontology_Error Closure_Overflow))
       (Inr \<lparr>c_profile = profile, c_graph_hash = gh, c_ontology_hash = oh,
          c_assertions = canonical_assertions as, c_schema = schema\<rparr>))))"

definition closure_to_dict :: "closure \<Rightarrow> pyval" where
  "closure_to_dict c = PDict [(''schema'', PStr (c_schema c)), (''profile'', PStr (c_profile c)),
     (''graph_hash'', PStr (c_graph_hash c)), (''ontology_hash'', PStr (c_ontology_hash c)),
     (''assertions'', PList (map assertion_to_dict (c_assertions c)))]"

definition closure_hash :: "(string \<Rightarrow> string) \<Rightarrow> closure \<Rightarrow> string" where
  "closure_hash sha c = sha (canonical_bytes (closure_to_dict c))"

definition closure_from_dict :: "pyval \<Rightarrow> onto_error + closure" where
  "closure_from_dict data =
     thenR (malformed (\<not> is_mapping data))
     (bindR (fetch data ''assertions'' (PList [])) (\<lambda>raw.
        case raw of
          PList items \<Rightarrow>
            bindR (item_str data ''profile'') (\<lambda>p. bindR (item_str data ''graph_hash'') (\<lambda>gh.
            bindR (item_str data ''ontology_hash'') (\<lambda>oh. bindR (mapR assertion_from_dict items) (\<lambda>as.
            bindR (fetch data ''schema'' (PStr CLOSURE_SCHEMA)) (\<lambda>schema. mk_closure p gh oh as (py_str schema))))))
        | _ \<Rightarrow> Inl (Ontology_Error Malformed_Document)))"

section \<open>Discovery\<close>

definition core :: "string \<Rightarrow> string" where
  "core n = CORE_NAMESPACE @ n"

definition literal_values :: "graph \<Rightarrow> string \<Rightarrow> string \<Rightarrow> string list" where
  "literal_values g subject predicate =
     concat (map (\<lambda>o'. case o' of Literal _ v \<Rightarrow> [py_str v] | Term _ \<Rightarrow> []) (objects g subject predicate))"

definition port_terms :: "graph \<Rightarrow> string \<Rightarrow> string \<Rightarrow> string list" where
  "port_terms g cid predicate =
     concat (map (\<lambda>o'. case o' of Term n \<Rightarrow> [n] | Literal _ _ \<Rightarrow> []) (objects g cid predicate))"

definition port_types_of :: "graph \<Rightarrow> string \<Rightarrow> string list" where
  "port_types_of g port = literal_values g port (core ''portType'')"

definition accepts_types :: "graph \<Rightarrow> string \<Rightarrow> string list \<Rightarrow> bool" where
  "accepts_types g cid wanted \<longleftrightarrow>
     (\<forall>t \<in> set wanted. \<exists>port \<in> set (port_terms g cid (core ''input'')).
        \<exists>declared \<in> set (port_types_of g port). types_compatible t declared)"

definition produces_types :: "graph \<Rightarrow> string \<Rightarrow> string list \<Rightarrow> bool" where
  "produces_types g cid wanted \<longleftrightarrow>
     (\<forall>t \<in> set wanted. \<exists>port \<in> set (port_terms g cid (core ''output'')).
        \<exists>declared \<in> set (port_types_of g port). types_compatible declared t)"

text \<open>The subjects of a class and its declared subclasses, in order.\<close>

definition members :: "graph \<Rightarrow> fragment \<Rightarrow> string \<Rightarrow> onto_error + string list" where
  "members g f cls =
     (case subclasses_of f cls of
        None \<Rightarrow> Inl Recursion_Limit
      | Some names \<Rightarrow> Inr (usort (concat (map (subjects_of_type g) names))))"

definition matches_query :: "graph \<Rightarrow> query \<Rightarrow> string \<Rightarrow> bool" where
  "matches_query g u cid \<longleftrightarrow>
     set (u_requires_capabilities u) \<subseteq> set (literal_values g cid (core ''hasCapability'')) \<and>
     accepts_types g cid (u_input_types u) \<and> produces_types g cid (u_output_types u)"

definition discover :: "(string \<Rightarrow> string) \<Rightarrow> graph \<Rightarrow> fragment \<Rightarrow> query \<Rightarrow> onto_error + discovery" where
  "discover sha g f u =
     thenR (rejectR (u_scope u \<noteq> gr_scope g) (Ontology_Error Scope_Escape))
     (bindR (assert_declared f (u_target_class u) (Some KIND_CLASS)) (\<lambda>_.
      bindR (members g f (u_target_class u)) (\<lambda>candidates.
        Inr \<lparr>d_scope = u_scope u, d_target_class = u_target_class u, d_query_hash = query_hash sha u,
           d_components = filter (matches_query g u) candidates, d_schema = ''ontology.result.v1''\<rparr>)))"

section \<open>Shape validation\<close>

definition object_value :: "obj \<Rightarrow> string" where
  "object_value o' = (case o' of Literal _ v \<Rightarrow> py_str v | Term n \<Rightarrow> n)"

definition violation :: "string \<Rightarrow> string \<Rightarrow> string \<Rightarrow> pyval dict \<Rightarrow> pyval" where
  "violation subject relation detail extra =
     PDict ([(''component'', PStr subject), (''relation'', PStr relation), (''detail'', PStr detail)] @ extra)"

definition object_violations :: "string \<Rightarrow> requirement \<Rightarrow> obj \<Rightarrow> pyval list" where
  "object_violations subject q o' =
     (case q_datatype q of
        None \<Rightarrow> []
      | Some dt \<Rightarrow> if (case o' of Literal t _ \<Rightarrow> t \<noteq> dt | Term _ \<Rightarrow> True)
          then [violation subject (q_relation q) ''datatype'' [(''expected'', PStr dt)]] else []) @
     (if q_allowed q \<noteq> [] \<and> object_value o' \<notin> set (q_allowed q)
      then [violation subject (q_relation q) ''allowed'' [(''value'', PStr (object_value o'))]] else [])"

definition requirement_violations :: "graph \<Rightarrow> string \<Rightarrow> requirement \<Rightarrow> pyval list" where
  "requirement_violations g subject q =
     (let os = objects g subject (q_relation q); n = int (length os) in
      (if n < q_min_count q
       then [violation subject (q_relation q) ''too-few'' [(''count'', PInt n), (''expected'', PInt (q_min_count q))]] else []) @
      (case q_max_count q of None \<Rightarrow> []
       | Some m \<Rightarrow> if n > m
           then [violation subject (q_relation q) ''too-many'' [(''count'', PInt n), (''expected'', PInt m)]] else []) @
      concat (map (object_violations subject q) os))"

definition closed_violations :: "graph \<Rightarrow> shape \<Rightarrow> string \<Rightarrow> pyval list" where
  "closed_violations g h subject =
     (if h_closed h then
        map (\<lambda>r. violation subject r ''closed'' [])
          (usort (filter (\<lambda>p. p \<notin> q_relation ` set (h_requirements h) \<and> p \<noteq> TYPE_P)
             (map a_p (filter (\<lambda>a. a_s a = subject) (gr_assertions g)))))
      else [])"

definition subject_violations :: "graph \<Rightarrow> shape \<Rightarrow> string \<Rightarrow> pyval list" where
  "subject_violations g h subject =
     concat (map (requirement_violations g subject) (h_requirements h)) @ closed_violations g h subject"

definition validate_shape :: "graph \<Rightarrow> fragment \<Rightarrow> shape \<Rightarrow> onto_error + shape_report" where
  "validate_shape g f h =
     bindR (assert_declared f (h_target h) (Some KIND_CLASS)) (\<lambda>_.
     bindR (mapR (\<lambda>q. assert_declared f (q_relation q) (Some KIND_PROPERTY)) (h_requirements h)) (\<lambda>_.
     bindR (members g f (h_target h)) (\<lambda>subjects.
       let vs = sort_key canonical_bytes (concat (map (subject_violations g h) subjects))
       in Inr \<lparr>sr_ok = (vs = []), sr_shape_id = h_id h, sr_violations = vs\<rparr>)))"

definition assert_shape :: "graph \<Rightarrow> fragment \<Rightarrow> shape \<Rightarrow> onto_error + unit" where
  "assert_shape g f h =
     bindR (validate_shape g f h) (\<lambda>r. rejectR (\<not> sr_ok r) (Ontology_Error Shape_Violation))"

end
