(* ===== verification/Onto_Closure.thy ===== *)
theory Onto_Closure
  imports Onto_Gates
begin

text \<open>
  The entailment closure of \<open>cbp/ontology_runtime.py\<close>: unification of rule atoms with
  assertions, stratification, and the fixpoint of every stratum over the collection of
  assertions keyed by their canonical bytes. The fixpoint loop is a \<open>while_option\<close>.
\<close>

section \<open>Unification\<close>

datatype gval = VTerm string | VLit string string

type_synonym bindings = "gval dict"

definition val_obj :: "obj \<Rightarrow> gval" where
  "val_obj o' = (case o' of Term n \<Rightarrow> VTerm n | Literal t v \<Rightarrow> VLit t (canonical_bytes v))"

definition unify :: "pattern \<Rightarrow> gval \<Rightarrow> bindings \<Rightarrow> bindings option" where
  "unify p v b =
     (case p of
        Var n \<Rightarrow> (if n = ''_'' then Some b
                  else (case dget b n of None \<Rightarrow> Some (dput n v b) | Some w \<Rightarrow> if w = v then Some b else None))
      | Named n \<Rightarrow> if v = VTerm n then Some b else None
      | Lit t w \<Rightarrow> if v = VLit t (canonical_bytes w) then Some b else None)"

definition atom_matches :: "rule_atom \<Rightarrow> assertion \<Rightarrow> bindings \<Rightarrow> bindings option" where
  "atom_matches at a b =
     (if at_p at \<noteq> a_p a then None
      else (case unify (at_s at) (VTerm (a_s a)) b of None \<Rightarrow> None | Some b' \<Rightarrow> unify (at_o at) (val_obj (a_o a)) b'))"

definition negated_holds :: "rule_atom \<Rightarrow> assertion list \<Rightarrow> bindings \<Rightarrow> bool" where
  "negated_holds at facts b \<longleftrightarrow> (\<exists>a \<in> set facts. atom_matches at a b \<noteq> None)"

fun search :: "rule_atom list \<Rightarrow> assertion list \<Rightarrow> bindings \<Rightarrow> bindings list" where
  "search [] facts b = [b]"
| "search (at # ats) facts b =
     concat (map (\<lambda>a. case atom_matches at a b of None \<Rightarrow> [] | Some b' \<Rightarrow> search ats facts b') facts)"

definition positives :: "rule \<Rightarrow> rule_atom list" where
  "positives r = filter (\<lambda>a. \<not> at_negated a) (ru_body r)"

definition negatives :: "rule \<Rightarrow> rule_atom list" where
  "negatives r = filter at_negated (ru_body r)"

definition rule_bindings :: "rule \<Rightarrow> assertion list \<Rightarrow> bindings list" where
  "rule_bindings r facts =
     filter (\<lambda>b. \<forall>at \<in> set (negatives r). \<not> negated_holds at facts b) (search (positives r) facts [])"

definition resolve_subject :: "pattern \<Rightarrow> bindings \<Rightarrow> string option" where
  "resolve_subject p b =
     (case p of Named n \<Rightarrow> Some n
      | Var n \<Rightarrow> (case dget b n of Some (VTerm s) \<Rightarrow> Some s | _ \<Rightarrow> None)
      | Lit _ _ \<Rightarrow> None)"

definition resolve_object :: "pattern \<Rightarrow> bindings \<Rightarrow> onto_error + obj" where
  "resolve_object p b =
     (case p of
        Named n \<Rightarrow> mk_obj (Term n)
      | Lit t v \<Rightarrow> mk_obj (Literal t v)
      | Var n \<Rightarrow>
          (case dget b n of
             None \<Rightarrow> Inl (Ontology_Error Malformed_Document)
           | Some (VTerm s) \<Rightarrow> mk_obj (Term s)
           | Some (VLit t w) \<Rightarrow>
               (case json_loads w of None \<Rightarrow> Inl (Py_Error Value_Error) | Some v \<Rightarrow> mk_obj (Literal t v))))"

definition derive :: "rule_atom \<Rightarrow> bindings \<Rightarrow> onto_error + assertion" where
  "derive head b =
     (case resolve_subject (at_s head) b of
        None \<Rightarrow> Inl (Ontology_Error Malformed_Document)
      | Some s \<Rightarrow> bindR (resolve_object (at_o head) b) (mk_assertion s (at_p head)))"

section \<open>Stratification\<close>

definition required_stratum :: "(string \<Rightarrow> nat) \<Rightarrow> rule \<Rightarrow> nat" where
  "required_stratum st r =
     foldl (\<lambda>m at. max m (st (at_p at) + (if at_negated at then 1 else 0))) 0 (ru_body r)"

definition raise_stratum :: "rule \<Rightarrow> (string \<Rightarrow> nat) \<times> bool \<Rightarrow> (string \<Rightarrow> nat) \<times> bool" where
  "raise_stratum r sc =
     (case sc of (st, changed) \<Rightarrow>
        if st (at_p (ru_head r)) < required_stratum st r
        then (st(at_p (ru_head r) := required_stratum st r), True) else (st, changed))"

fun stratify_loop :: "nat \<Rightarrow> rule list \<Rightarrow> (string \<Rightarrow> nat) \<Rightarrow> (string \<Rightarrow> nat) option" where
  "stratify_loop 0 rules st = None"
| "stratify_loop (Suc n) rules st =
     (case fold raise_stratum rules (st, False) of
        (st', changed) \<Rightarrow> if changed then stratify_loop n rules st' else Some st')"

definition stratify :: "rule list \<Rightarrow> string list \<Rightarrow> onto_error + (string \<Rightarrow> nat)" where
  "stratify rules predicates =
     (case stratify_loop (Suc (length (usort predicates))) rules (\<lambda>_. 0) of
        None \<Rightarrow> Inl (Ontology_Error Malformed_Document) | Some st \<Rightarrow> Inr st)"

section \<open>The facts of an ontology\<close>

definition term_facts :: "onto_term \<Rightarrow> onto_error + assertion list" where
  "term_facts t =
     bindR (mk_assertion (t_name t) (core ''kind'') (Literal ''str'' (PStr (t_kind t)))) (\<lambda>k.
     bindR (if t_kind t = KIND_CLASS
        then mapR (\<lambda>p. bindR (mk_obj (Term p)) (mk_assertion (t_name t) (core ''subClassOf''))) (t_sub_class_of t)
        else bindR (mapR (\<lambda>p. bindR (mk_obj (Term p)) (mk_assertion (t_name t) (core ''domain''))) (t_domain t)) (\<lambda>ds.
          bindR (mapR (\<lambda>p. bindR (mk_obj (Term p)) (mk_assertion (t_name t) (core ''range''))) (t_range t)) (\<lambda>rs.
            Inr (ds @ rs)))) (\<lambda>as. Inr (k # as)))"

definition ontology_facts :: "fragment \<Rightarrow> onto_error + assertion list" where
  "ontology_facts f = bindR (mapR term_facts (f_terms f)) (\<lambda>fs. Inr (concat fs))"

section \<open>The fixpoint\<close>

type_synonym collection = "assertion dict"

definition add_new :: "assertion \<Rightarrow> collection \<Rightarrow> collection" where
  "add_new a c = (if dget c (assertion_key a) = None then dput (assertion_key a) a c else c)"

definition apply_rule :: "assertion list \<Rightarrow> rule \<Rightarrow> collection \<Rightarrow> onto_error + collection" where
  "apply_rule snapshot r c =
     foldR (\<lambda>b c. bindR (derive (ru_head r) b) (\<lambda>a. Inr (add_new a c))) (rule_bindings r snapshot) c"

definition closure_pass :: "rule list \<Rightarrow> collection \<Rightarrow> onto_error + collection" where
  "closure_pass rules c = foldR (apply_rule (map snd c)) rules c"

text \<open>A pass that adds nothing ends the stratum; \<open>added\<close> is a longer collection.\<close>

datatype progress = Running collection | Fixpoint collection | Stopped onto_error

definition level_step :: "rule list \<Rightarrow> progress \<Rightarrow> progress" where
  "level_step rules p =
     (case p of
        Running c \<Rightarrow>
          (case closure_pass rules c of
             Inl e \<Rightarrow> Stopped e
           | Inr c' \<Rightarrow>
               if length c' = length c then Fixpoint c'
               else if MAX_CLOSURE_ASSERTIONS < length c' then Stopped (Ontology_Error Closure_Overflow)
               else Running c')
      | _ \<Rightarrow> p)"

definition close_level :: "rule list \<Rightarrow> collection \<Rightarrow> onto_error + collection" where
  "close_level rules c =
     (case while_option (\<lambda>p. case p of Running _ \<Rightarrow> True | _ \<Rightarrow> False) (level_step rules) (Running c) of
        Some (Fixpoint c') \<Rightarrow> Inr c'
      | Some (Stopped e) \<Rightarrow> Inl e
      | _ \<Rightarrow> Inl Recursion_Limit)"

definition level_rules :: "rule list \<Rightarrow> (string \<Rightarrow> nat) \<Rightarrow> nat \<Rightarrow> rule list" where
  "level_rules rules st level = filter (\<lambda>r. st (at_p (ru_head r)) = level) rules"

definition closure_predicates :: "rule list \<Rightarrow> assertion list \<Rightarrow> string list" where
  "closure_predicates rules as =
     map a_p as @ concat (map (\<lambda>r. at_p (ru_head r) # map at_p (ru_body r)) rules)"

definition close_rules :: "rule list \<Rightarrow> collection \<Rightarrow> onto_error + collection" where
  "close_rules rules c =
     (let preds = closure_predicates rules (map snd c) in
      bindR (stratify rules preds) (\<lambda>st.
        foldR (\<lambda>level. close_level (level_rules rules st level)) [0..<Suc (Max (insert 0 (st ` set preds)))] c))"

definition base_collection :: "assertion list \<Rightarrow> collection" where
  "base_collection as = fold add_new as []"

definition compute_closure :: "(string \<Rightarrow> string) \<Rightarrow> graph \<Rightarrow> fragment \<Rightarrow> onto_error + closure" where
  "compute_closure sha g f =
     bindR (ontology_facts f) (\<lambda>facts.
       let c = base_collection (gr_assertions g @ facts) in
       thenR (rejectR (MAX_CLOSURE_ASSERTIONS < length c) (Ontology_Error Closure_Overflow))
         (bindR (close_rules (f_rules f) c) (\<lambda>c'.
            mk_closure (f_id f @ CHR ''@'' # f_version f) (graph_hash sha g) (ontology_hash sha f)
              (map snd (sort_key fst c')) CLOSURE_SCHEMA)))"

definition closure_graph :: "closure \<Rightarrow> string \<Rightarrow> onto_error + graph" where
  "closure_graph c scope = mk_graph scope (c_assertions c) [] GRAPH_SCHEMA"

definition assert_closure_shape :: "closure \<Rightarrow> fragment \<Rightarrow> shape \<Rightarrow> onto_error + unit" where
  "assert_closure_shape c f h = bindR (closure_graph c (c_profile c)) (\<lambda>g. assert_shape g f h)"

text \<open>The union of the graphs of a semantic subnet's fragments, keyed by their content addresses.\<close>

definition merge_graph ::
  "(string \<Rightarrow> string) \<Rightarrow> string \<Rightarrow> (string \<times> graph) list \<Rightarrow> onto_error + graph" where
  "merge_graph sha scope fragments =
     mk_graph scope (concat (map (\<lambda>fg. gr_assertions (snd fg)) fragments))
       (sort (map (\<lambda>fg. (fst fg, graph_hash sha (snd fg))) fragments)) GRAPH_SCHEMA"

end
