(* ===== verification/Onto_Entail.thy ===== *)
theory Onto_Entail
  imports Onto_Closure
begin

text \<open>
  The closure against its declarative semantics: assertions are read as ground triples, a rule
  fires under a substitution of its variables, and the closure of a stratum is the least set of
  triples that contains its base and is closed under its rules.
\<close>

section \<open>Triples and substitutions\<close>

type_synonym triple = "string \<times> string \<times> gval"

definition triple_of :: "assertion \<Rightarrow> triple" where
  "triple_of a = (a_s a, a_p a, val_obj (a_o a))"

definition psat :: "pattern \<Rightarrow> gval \<Rightarrow> (string \<Rightarrow> gval) \<Rightarrow> bool" where
  "psat p v \<sigma> \<longleftrightarrow>
     (case p of Var n \<Rightarrow> n = ''_'' \<or> \<sigma> n = v | Named n \<Rightarrow> v = VTerm n | Lit t w \<Rightarrow> v = VLit t (canonical_bytes w))"

definition sat :: "rule_atom \<Rightarrow> triple \<Rightarrow> (string \<Rightarrow> gval) \<Rightarrow> bool" where
  "sat at u \<sigma> \<longleftrightarrow> (case u of (s, p, v) \<Rightarrow> at_p at = p \<and> psat (at_s at) (VTerm s) \<sigma> \<and> psat (at_o at) v \<sigma>)"

definition agrees :: "bindings \<Rightarrow> (string \<Rightarrow> gval) \<Rightarrow> bool" where
  "agrees b \<sigma> \<longleftrightarrow> (\<forall>n v. dget b n = Some v \<longrightarrow> \<sigma> n = v)"

definition bdom :: "bindings \<Rightarrow> string set" where
  "bdom b = {n. dget b n \<noteq> None}"

lemma triple_key:
  assumes "assertion_ok a" "assertion_ok b"
  shows "assertion_key a = assertion_key b \<longleftrightarrow> triple_of a = triple_of b"
proof -
  have "norm_obj (a_o a) = norm_obj (a_o b) \<longleftrightarrow> val_obj (a_o a) = val_obj (a_o b)"
    using assms canonical_bytes_eq_iff
    by (cases "a_o a"; cases "a_o b") (auto simp: norm_obj_def val_obj_def assertion_ok_def obj_ok_def)
  then show ?thesis
    using assertion_key_eq_iff [OF assms]
    by (cases a; cases b) (simp add: norm_assertion_def triple_of_def)
qed

lemma unify_iff:
  "case unify p v b of
     None \<Rightarrow> \<not> (agrees b \<sigma> \<and> psat p v \<sigma>)
   | Some b' \<Rightarrow> (agrees b' \<sigma> \<longleftrightarrow> agrees b \<sigma> \<and> psat p v \<sigma>) \<and> bdom b' = bdom b \<union> set (pattern_variables p)"
proof (cases p)
  case (Var n)
  show ?thesis
  proof (cases "dget b n")
    case None
    then show ?thesis
      by (auto simp: Var unify_def psat_def agrees_def bdom_def pattern_variables_def dict_simps)
  next
    case (Some w)
    then show ?thesis
      by (auto simp: Var unify_def psat_def agrees_def bdom_def pattern_variables_def)
  qed
qed (auto simp: unify_def psat_def pattern_variables_def)

lemma atom_matches_iff:
  "case atom_matches at a b of
     None \<Rightarrow> \<not> (agrees b \<sigma> \<and> sat at (triple_of a) \<sigma>)
   | Some b' \<Rightarrow> (agrees b' \<sigma> \<longleftrightarrow> agrees b \<sigma> \<and> sat at (triple_of a) \<sigma>) \<and> bdom b' = bdom b \<union> set (atom_variables at)"
proof (cases "unify (at_s at) (VTerm (a_s a)) b")
  case None
  then show ?thesis using unify_iff [where p = "at_s at" and v = "VTerm (a_s a)" and b = b and \<sigma> = \<sigma>]
    by (auto simp: atom_matches_def sat_def triple_of_def)
next
  case (Some b1)
  then show ?thesis
    using unify_iff [where p = "at_s at" and v = "VTerm (a_s a)" and b = b and \<sigma> = \<sigma>] unify_iff [where p = "at_o at" and v = "val_obj (a_o a)" and b = b1 and \<sigma> = \<sigma>]
    by (auto simp: atom_matches_def sat_def triple_of_def atom_variables_def split: option.splits)
qed

lemma search_Cons_iff:
  "b' \<in> set (search (at # ats) facts b) \<longleftrightarrow>
     (\<exists>a \<in> set facts. \<exists>b1. atom_matches at a b = Some b1 \<and> b' \<in> set (search ats facts b1))"
proof -
  have "b' \<in> set (case atom_matches at a b of None \<Rightarrow> [] | Some b1 \<Rightarrow> search ats facts b1) \<longleftrightarrow>
      (\<exists>b1. atom_matches at a b = Some b1 \<and> b' \<in> set (search ats facts b1))" for a
    by (cases "atom_matches at a b") auto
  then show ?thesis by simp
qed

declare search.simps(2) [simp del]

lemma search_bdom:
  "b' \<in> set (search ats facts b) \<Longrightarrow> bdom b' = bdom b \<union> (\<Union>at \<in> set ats. set (atom_variables at))"
proof (induction ats arbitrary: b)
  case (Cons at ats)
  then obtain a b1 where "atom_matches at a b = Some b1" "b' \<in> set (search ats facts b1)"
    by (auto simp: search_Cons_iff)
  then show ?case using Cons.IH [of b1] atom_matches_iff [where at = at and a = a and b = b and \<sigma> = "\<lambda>_. VTerm []"] by auto
qed simp

lemma search_iff:
  "(\<exists>b' \<in> set (search ats facts b). agrees b' \<sigma>) \<longleftrightarrow>
     agrees b \<sigma> \<and> (\<forall>at \<in> set ats. \<exists>a \<in> set facts. sat at (triple_of a) \<sigma>)"
proof (induction ats arbitrary: b)
  case (Cons at ats)
  have "(\<exists>b' \<in> set (search (at # ats) facts b). agrees b' \<sigma>) \<longleftrightarrow>
      (\<exists>a \<in> set facts. \<exists>b1. atom_matches at a b = Some b1 \<and> (\<exists>b' \<in> set (search ats facts b1). agrees b' \<sigma>))"
    unfolding Bex_def search_Cons_iff by blast
  also have "\<dots> \<longleftrightarrow> (\<exists>a \<in> set facts. \<exists>b1. atom_matches at a b = Some b1 \<and> agrees b1 \<sigma> \<and>
      (\<forall>at \<in> set ats. \<exists>a \<in> set facts. sat at (triple_of a) \<sigma>))"
    using Cons.IH by blast
  also have "\<dots> \<longleftrightarrow> (\<exists>a \<in> set facts. agrees b \<sigma> \<and> sat at (triple_of a) \<sigma> \<and>
      (\<forall>at \<in> set ats. \<exists>a \<in> set facts. sat at (triple_of a) \<sigma>))"
  proof -
    have "(\<exists>b1. atom_matches at a b = Some b1 \<and> agrees b1 \<sigma>) \<longleftrightarrow> agrees b \<sigma> \<and> sat at (triple_of a) \<sigma>" for a
      using atom_matches_iff [where at = at and a = a and b = b and \<sigma> = \<sigma>] by (cases "atom_matches at a b") auto
    then show ?thesis by blast
  qed
  finally show ?case by auto
qed simp

definition witness :: "bindings \<Rightarrow> string \<Rightarrow> gval" where
  "witness b n = (case dget b n of None \<Rightarrow> VTerm [] | Some v \<Rightarrow> v)"

lemma agrees_witness: "agrees b (witness b)"
  by (simp add: agrees_def witness_def)

lemma negated_holds_iff:
  "negated_holds at facts b \<longleftrightarrow> (\<exists>a \<in> set facts. \<exists>\<sigma>. agrees b \<sigma> \<and> sat at (triple_of a) \<sigma>)"
proof -
  have "atom_matches at a b \<noteq> None \<longleftrightarrow> (\<exists>\<sigma>. agrees b \<sigma> \<and> sat at (triple_of a) \<sigma>)" for a
  proof
    assume "atom_matches at a b \<noteq> None"
    then obtain b' where "atom_matches at a b = Some b'" by auto
    then show "\<exists>\<sigma>. agrees b \<sigma> \<and> sat at (triple_of a) \<sigma>"
      using atom_matches_iff [where at = at and a = a and b = b and \<sigma> = "witness b'"] agrees_witness [of b'] by auto
  next
    assume "\<exists>\<sigma>. agrees b \<sigma> \<and> sat at (triple_of a) \<sigma>"
    then obtain \<sigma> where "agrees b \<sigma> \<and> sat at (triple_of a) \<sigma>" by blast
    then show "atom_matches at a b \<noteq> None"
      using atom_matches_iff [where at = at and a = a and b = b and \<sigma> = \<sigma>] by (cases "atom_matches at a b") auto
  qed
  then show ?thesis by (simp add: negated_holds_def)
qed

section \<open>Firing a rule\<close>

definition rule_vars :: "rule \<Rightarrow> string set" where
  "rule_vars r = (\<Union>at \<in> set (positives r). set (atom_variables at))"

text \<open>A negated atom is blocked by a triple that satisfies it under some extension of the
  substitution to the variables the positive atoms do not bind.\<close>

definition body_holds :: "rule \<Rightarrow> triple set \<Rightarrow> triple set \<Rightarrow> (string \<Rightarrow> gval) \<Rightarrow> bool" where
  "body_holds r I N \<sigma> \<longleftrightarrow> (\<forall>at \<in> set (positives r). \<exists>u \<in> I. sat at u \<sigma>) \<and>
     (\<forall>at \<in> set (negatives r). \<forall>u \<in> N. \<forall>\<tau>. (\<forall>x \<in> rule_vars r. \<tau> x = \<sigma> x) \<longrightarrow> \<not> sat at u \<tau>)"

definition head_subject :: "pattern \<Rightarrow> (string \<Rightarrow> gval) \<Rightarrow> string option" where
  "head_subject p \<sigma> =
     (case p of Named n \<Rightarrow> Some n
      | Var n \<Rightarrow> (case \<sigma> n of VTerm s \<Rightarrow> if n = ''_'' then None else Some s | VLit _ _ \<Rightarrow> None)
      | Lit _ _ \<Rightarrow> None)"

definition head_value :: "pattern \<Rightarrow> (string \<Rightarrow> gval) \<Rightarrow> gval" where
  "head_value p \<sigma> = (case p of Named n \<Rightarrow> VTerm n | Var n \<Rightarrow> \<sigma> n | Lit t v \<Rightarrow> VLit t (canonical_bytes v))"

definition head_triple :: "rule_atom \<Rightarrow> (string \<Rightarrow> gval) \<Rightarrow> triple option" where
  "head_triple h \<sigma> = map_option (\<lambda>s. (s, at_p h, head_value (at_o h) \<sigma>)) (head_subject (at_s h) \<sigma>)"

lemma rule_bindings_iff:
  "(\<exists>b \<in> set (rule_bindings r facts). agrees b \<sigma>) \<longleftrightarrow> body_holds r (triple_of ` set facts) (triple_of ` set facts) \<sigma>"
proof -
  have dom: "bdom b = rule_vars r" if "b \<in> set (search (positives r) facts [])" for b
    using search_bdom [OF that] by (simp add: rule_vars_def bdom_def)
  have ext: "agrees b \<tau> \<longleftrightarrow> (\<forall>x \<in> rule_vars r. \<tau> x = \<sigma> x)"
    if bm: "b \<in> set (search (positives r) facts [])" and ag: "agrees b \<sigma>" for b \<tau>
  proof
    assume "agrees b \<tau>"
    show "\<forall>x \<in> rule_vars r. \<tau> x = \<sigma> x"
    proof
      fix x assume "x \<in> rule_vars r"
      then obtain v where "dget b x = Some v" using dom [OF bm] by (auto simp: bdom_def)
      then show "\<tau> x = \<sigma> x" using \<open>agrees b \<tau>\<close> ag by (simp add: agrees_def)
    qed
  next
    assume eq: "\<forall>x \<in> rule_vars r. \<tau> x = \<sigma> x"
    show "agrees b \<tau>"
      unfolding agrees_def
    proof (intro allI impI)
      fix n v assume v: "dget b n = Some v"
      then have "n \<in> rule_vars r" using dom [OF bm] by (auto simp: bdom_def)
      then show "\<tau> n = v" using eq ag v by (simp add: agrees_def)
    qed
  qed
  have nohold: "(\<forall>at \<in> set (negatives r). \<not> negated_holds at facts b) \<longleftrightarrow>
      (\<forall>at \<in> set (negatives r). \<forall>u \<in> triple_of ` set facts. \<forall>\<tau>. (\<forall>x \<in> rule_vars r. \<tau> x = \<sigma> x) \<longrightarrow> \<not> sat at u \<tau>)"
    if "b \<in> set (search (positives r) facts [])" "agrees b \<sigma>" for b
    unfolding negated_holds_iff using ext [OF that] by blast
  have start: "agrees [] \<sigma>" by (simp add: agrees_def)
  have "(\<exists>b \<in> set (rule_bindings r facts). agrees b \<sigma>) \<longleftrightarrow>
      (\<exists>b \<in> set (search (positives r) facts []). agrees b \<sigma>) \<and>
      (\<forall>at \<in> set (negatives r). \<forall>u \<in> triple_of ` set facts. \<forall>\<tau>. (\<forall>x \<in> rule_vars r. \<tau> x = \<sigma> x) \<longrightarrow> \<not> sat at u \<tau>)"
    unfolding rule_bindings_def using nohold by (simp only: set_filter) blast
  also have "\<dots> \<longleftrightarrow> body_holds r (triple_of ` set facts) (triple_of ` set facts) \<sigma>"
    unfolding search_iff body_holds_def using start by simp
  finally show ?thesis .
qed

section \<open>What is derived\<close>

definition gval_ok :: "gval \<Rightarrow> bool" where
  "gval_ok v = (case v of VTerm _ \<Rightarrow> True | VLit t w \<Rightarrow> \<exists>x. wf_pyval x \<and> w = canonical_bytes x)"

definition bindings_ok :: "bindings \<Rightarrow> bool" where
  "bindings_ok b \<longleftrightarrow> (\<forall>n v. dget b n = Some v \<longrightarrow> gval_ok v)"

lemma val_obj_ok: "obj_ok o' \<Longrightarrow> gval_ok (val_obj o')"
  by (cases o') (auto simp: obj_ok_def val_obj_def gval_ok_def)

lemma unify_ok: "unify p v b = Some b' \<Longrightarrow> gval_ok v \<Longrightarrow> bindings_ok b \<Longrightarrow> bindings_ok b'"
  by (auto simp: unify_def bindings_ok_def dict_simps split: pattern.splits if_splits option.splits)

lemma atom_matches_ok:
  "atom_matches at a b = Some b' \<Longrightarrow> assertion_ok a \<Longrightarrow> bindings_ok b \<Longrightarrow> bindings_ok b'"
proof -
  assume m: "atom_matches at a b = Some b'" "assertion_ok a" "bindings_ok b"
  then obtain b1 where b1: "unify (at_s at) (VTerm (a_s a)) b = Some b1" "unify (at_o at) (val_obj (a_o a)) b1 = Some b'"
    by (auto simp: atom_matches_def split: if_splits option.splits)
  have "bindings_ok b1" using unify_ok [OF b1(1) _ m(3)] by (simp add: gval_ok_def)
  then show "bindings_ok b'" using unify_ok [OF b1(2)] val_obj_ok m(2) by (simp add: assertion_ok_def)
qed

lemma search_ok:
  "b' \<in> set (search ats facts b) \<Longrightarrow> \<forall>a \<in> set facts. assertion_ok a \<Longrightarrow> bindings_ok b \<Longrightarrow> bindings_ok b'"
proof (induction ats arbitrary: b)
  case (Cons at ats)
  then obtain a b1 where "a \<in> set facts" "atom_matches at a b = Some b1" "b' \<in> set (search ats facts b1)"
    by (auto simp: search_Cons_iff)
  then show ?case using Cons.IH [of b1] Cons.prems(2,3) atom_matches_ok by blast
qed simp

lemma resolve_object_value:
  assumes "resolve_object p b = Inr o'" "agrees b \<sigma>" "bindings_ok b" "pattern_ok p"
  shows "val_obj o' = head_value p \<sigma> \<and> obj_ok o'"
proof (cases p)
  case (Var n)
  then obtain v where v: "dget b n = Some v" using assms(1) by (auto simp: resolve_object_def split: option.splits)
  then have \<sigma>: "\<sigma> n = v" "gval_ok v" using assms(2,3) by (auto simp: agrees_def bindings_ok_def)
  show ?thesis
  proof (cases v)
    case (VTerm s)
    then show ?thesis using assms(1) \<sigma> v
      by (auto simp: Var resolve_object_def mk_obj_def check_obj_def result_simps val_obj_def head_value_def obj_ok_def)
  next
    case (VLit t w)
    then obtain x where x: "wf_pyval x" "w = canonical_bytes x" using \<sigma>(2) by (auto simp: gval_ok_def)
    then show ?thesis using assms(1) \<sigma>(1) v VLit wf_pyval_norm [OF x(1)]
      by (auto simp: Var resolve_object_def mk_obj_def check_obj_def result_simps val_obj_def head_value_def
          obj_ok_def canonical_loads)
  qed
qed (use assms in \<open>auto simp: resolve_object_def mk_obj_def check_obj_def result_simps val_obj_def head_value_def
    obj_ok_def pattern_ok_def\<close>)

lemma derive_triple:
  assumes "derive h b = Inr a" "agrees b \<sigma>" "bindings_ok b" "atom_ok h" "''_'' \<notin> bdom b"
  shows "head_triple h \<sigma> = Some (triple_of a)" "assertion_ok a"
proof -
  obtain s o' where so: "resolve_subject (at_s h) b = Some s" "resolve_object (at_o h) b = Inr o'"
    "mk_assertion s (at_p h) o' = Inr a"
    using assms(1) by (auto simp: derive_def result_simps split: option.splits)
  then have a: "a = \<lparr>a_s = s, a_p = at_p h, a_o = o'\<rparr>" "s \<noteq> []" by (auto simp: mk_assertion_def result_simps)
  have subj: "head_subject (at_s h) \<sigma> = Some s"
  proof (cases "at_s h")
    case (Var n)
    then have "dget b n = Some (VTerm s)" using so(1) by (auto simp: resolve_subject_def split: option.splits gval.splits)
    then show ?thesis using assms(2,5) Var by (auto simp: head_subject_def agrees_def bdom_def)
  qed (use so(1) in \<open>auto simp: resolve_subject_def head_subject_def\<close>)
  have ov: "val_obj o' = head_value (at_o h) \<sigma>" "obj_ok o'"
    using resolve_object_value [OF so(2) assms(2,3)] assms(4) by (auto simp: atom_ok_def)
  show "head_triple h \<sigma> = Some (triple_of a)" using subj ov by (simp add: head_triple_def triple_of_def a)
  show "assertion_ok a" using ov(2) a assms(4) by (simp add: assertion_ok_def atom_ok_def)
qed

section \<open>Collections\<close>

definition coll_ok :: "collection \<Rightarrow> bool" where
  "coll_ok c \<longleftrightarrow> wf_dict c \<and> (\<forall>(k, a) \<in> set c. k = assertion_key a \<and> assertion_ok a)"

definition ctriples :: "collection \<Rightarrow> triple set" where
  "ctriples c = triple_of ` snd ` set c"

lemma coll_member: "coll_ok c \<Longrightarrow> assertion_ok a \<Longrightarrow> dget c (assertion_key a) \<noteq> None \<longleftrightarrow> triple_of a \<in> ctriples c"
proof -
  assume c: "coll_ok c" and a: "assertion_ok a"
  have "dget c (assertion_key a) \<noteq> None \<longleftrightarrow> (\<exists>k b. (k, b) \<in> set c \<and> k = assertion_key a)"
    by (force simp: dget_None_iff image_iff)
  also have "\<dots> \<longleftrightarrow> (\<exists>k b. (k, b) \<in> set c \<and> triple_of b = triple_of a)"
  proof -
    have "k = assertion_key a \<longleftrightarrow> triple_of b = triple_of a" if "(k, b) \<in> set c" for k b
      using c that a triple_key [of b a] by (auto simp: coll_ok_def)
    then show ?thesis by blast
  qed
  also have "\<dots> \<longleftrightarrow> triple_of a \<in> ctriples c" by (force simp: ctriples_def image_iff)
  finally show ?thesis .
qed

lemma add_new_cases:
  "add_new a c = (if dget c (assertion_key a) = None then c @ [(assertion_key a, a)] else c)"
  by (simp add: add_new_def length_dput_new dget_None_iff)

lemma add_new_ok:
  assumes "coll_ok c" "assertion_ok a"
  shows "coll_ok (add_new a c)" "ctriples (add_new a c) = insert (triple_of a) (ctriples c)"
proof -
  show "coll_ok (add_new a c)"
    using assms by (auto simp: add_new_cases coll_ok_def wf_dict_def dget_None_iff)
  have "triple_of a \<in> ctriples c" if "dget c (assertion_key a) \<noteq> None"
    using coll_member [OF assms] that by simp
  then show "ctriples (add_new a c) = insert (triple_of a) (ctriples c)"
    by (auto simp: add_new_cases ctriples_def)
qed

definition grows :: "collection \<Rightarrow> collection \<Rightarrow> bool" where
  "grows c c' \<longleftrightarrow> (\<exists>new. c' = c @ new)"

lemma grows_refl [simp]: "grows c c" by (simp add: grows_def)
lemma grows_trans: "grows c c' \<Longrightarrow> grows c' c'' \<Longrightarrow> grows c c''" by (auto simp: grows_def)
lemma grows_add_new: "grows c (add_new a c)" by (simp add: grows_def add_new_cases)
lemma grows_triples: "grows c c' \<Longrightarrow> ctriples c \<subseteq> ctriples c'"
  unfolding grows_def ctriples_def by (elim exE) (simp add: image_Un)
lemma grows_same: "grows c c' \<Longrightarrow> length c' = length c \<Longrightarrow> c' = c" by (auto simp: grows_def)
lemma grows_length: "grows c c' \<Longrightarrow> length c \<le> length c'" by (auto simp: grows_def)

section \<open>The least set closed under the rules of a stratum\<close>

inductive_set entailed :: "rule list \<Rightarrow> triple set \<Rightarrow> triple set" for rules I where
  base: "t \<in> I \<Longrightarrow> t \<in> entailed rules I"
| rule: "r \<in> set rules \<Longrightarrow> \<forall>at \<in> set (positives r). \<exists>u. u \<in> entailed rules I \<and> sat at u \<sigma> \<Longrightarrow>
    \<forall>at \<in> set (negatives r). \<forall>u \<in> I. \<forall>\<tau>. (\<forall>x \<in> rule_vars r. \<tau> x = \<sigma> x) \<longrightarrow> \<not> sat at u \<tau> \<Longrightarrow>
    head_triple (ru_head r) \<sigma> = Some t \<Longrightarrow> t \<in> entailed rules I"

definition negation_below :: "rule list \<Rightarrow> bool" where
  "negation_below rules \<longleftrightarrow>
     (\<forall>r \<in> set rules. \<forall>at \<in> set (negatives r). \<forall>r' \<in> set rules. at_p at \<noteq> at_p (ru_head r'))"

definition heads_ok :: "rule list \<Rightarrow> bool" where
  "heads_ok rules \<longleftrightarrow> (\<forall>r \<in> set rules. atom_ok (ru_head r))"

lemma head_triple_predicate: "head_triple h \<sigma> = Some (s, p, v) \<Longrightarrow> p = at_p h"
  by (auto simp: head_triple_def)

lemma entailed_new: "t \<in> entailed rules I \<Longrightarrow> t \<in> I \<or> (\<exists>r \<in> set rules. fst (snd t) = at_p (ru_head r))"
  by (induction rule: entailed.induct) (auto dest!: head_triple_predicate)

lemma body_holds_base:
  assumes "negation_below rules" "r \<in> set rules" "I \<subseteq> S" "S \<subseteq> entailed rules I"
  shows "body_holds r S S \<sigma> \<longleftrightarrow> body_holds r S I \<sigma>"
proof -
  have "\<not> sat at u \<tau>" if neg: "at \<in> set (negatives r)" and u: "u \<in> S" "u \<notin> I" for at u \<tau>
  proof
    assume "sat at u \<tau>"
    then have "at_p at = fst (snd u)" by (auto simp: sat_def split: prod.splits)
    moreover obtain r' where "r' \<in> set rules" "fst (snd u) = at_p (ru_head r')"
      using entailed_new [of u rules I] u assms(4) by blast
    ultimately show False using assms(1,2) neg by (auto simp: negation_below_def)
  qed
  then show ?thesis using assms(3) unfolding body_holds_def by (meson subsetD)
qed

lemma rule_binding_parts:
  assumes "b \<in> set (rule_bindings r facts)" "\<forall>a \<in> set facts. assertion_ok a"
  shows "bindings_ok b" "''_'' \<notin> bdom b"
proof -
  have s: "b \<in> set (search (positives r) facts [])" using assms(1) by (simp add: rule_bindings_def)
  have "bindings_ok []" by (simp add: bindings_ok_def)
  then show "bindings_ok b" by (rule search_ok [OF s assms(2)])
  show "''_'' \<notin> bdom b"
    using search_bdom [OF s] by (auto simp: bdom_def atom_variables_def pattern_variables_def split: pattern.splits if_splits)
qed

text \<open>One rule applied to a snapshot.\<close>

lemma apply_rule_result:
  assumes run: "apply_rule facts r c = Inr c'" and c: "coll_ok c" and fok: "\<forall>a \<in> set facts. assertion_ok a"
    and h: "atom_ok (ru_head r)"
  shows "coll_ok c' \<and> grows c c' \<and>
    ctriples c' = ctriples c \<union> {t. \<exists>\<sigma>. body_holds r (triple_of ` set facts) (triple_of ` set facts) \<sigma> \<and>
      head_triple (ru_head r) \<sigma> = Some t}"
proof -
  have gen: "coll_ok c' \<and> grows c c' \<and>
      ctriples c' = ctriples c \<union> {t. \<exists>b \<in> set bs. \<exists>\<sigma>. agrees b \<sigma> \<and> head_triple (ru_head r) \<sigma> = Some t}"
    if "foldR (\<lambda>b c. bindR (derive (ru_head r) b) (\<lambda>a. Inr (add_new a c))) bs c = Inr c'"
      "\<forall>b \<in> set bs. bindings_ok b \<and> ''_'' \<notin> bdom b" "coll_ok c" for bs c
    using that
  proof (induction bs arbitrary: c)
    case (Cons b bs)
    then obtain a where a: "derive (ru_head r) b = Inr a"
      "foldR (\<lambda>b c. bindR (derive (ru_head r) b) (\<lambda>a. Inr (add_new a c))) bs (add_new a c) = Inr c'"
      by (auto simp: result_simps)
    have b: "bindings_ok b" "''_'' \<notin> bdom b" using Cons.prems(2) by auto
    have tr: "head_triple (ru_head r) \<sigma> = Some (triple_of a)" if "agrees b \<sigma>" for \<sigma>
      by (rule derive_triple(1) [OF a(1) that b(1) h b(2)])
    have aok: "assertion_ok a" by (rule derive_triple(2) [OF a(1) agrees_witness b(1) h b(2)])
    note add = add_new_ok [OF Cons.prems(3) aok]
    have IH: "coll_ok c'" "grows (add_new a c) c'"
      "ctriples c' = ctriples (add_new a c) \<union> {t. \<exists>b \<in> set bs. \<exists>\<sigma>. agrees b \<sigma> \<and> head_triple (ru_head r) \<sigma> = Some t}"
      using Cons.IH [OF a(2) _ add(1)] Cons.prems(2) by auto
    have "{t. \<exists>\<sigma>. agrees b \<sigma> \<and> head_triple (ru_head r) \<sigma> = Some t} = {triple_of a}"
      using tr agrees_witness [of b] by force
    then have "ctriples c' = ctriples c \<union> {t. \<exists>b \<in> set (b # bs). \<exists>\<sigma>. agrees b \<sigma> \<and> head_triple (ru_head r) \<sigma> = Some t}"
      unfolding IH(3) add(2) by auto
    then show ?case using IH(1) grows_trans [OF grows_add_new IH(2)] by simp
  qed simp
  have bs: "\<forall>b \<in> set (rule_bindings r facts). bindings_ok b \<and> ''_'' \<notin> bdom b"
    using rule_binding_parts [OF _ fok] by blast
  have "(\<exists>b \<in> set (rule_bindings r facts). \<exists>\<sigma>. agrees b \<sigma> \<and> head_triple (ru_head r) \<sigma> = Some t) \<longleftrightarrow>
      (\<exists>\<sigma>. body_holds r (triple_of ` set facts) (triple_of ` set facts) \<sigma> \<and> head_triple (ru_head r) \<sigma> = Some t)" for t
    unfolding rule_bindings_iff [symmetric] by blast
  then show ?thesis using gen [OF run [unfolded apply_rule_def] bs c] by simp
qed

definition consequences :: "rule list \<Rightarrow> triple set \<Rightarrow> triple set" where
  "consequences rules S = {t. \<exists>r \<in> set rules. \<exists>\<sigma>. body_holds r S S \<sigma> \<and> head_triple (ru_head r) \<sigma> = Some t}"

lemma closure_pass_result:
  assumes "closure_pass rules c = Inr c'" "coll_ok c" "heads_ok rules"
  shows "coll_ok c' \<and> grows c c' \<and> ctriples c' = ctriples c \<union> consequences rules (ctriples c)"
proof -
  have facts: "\<forall>a \<in> set (map snd c). assertion_ok a" using assms(2) by (auto simp: coll_ok_def)
  have gen: "coll_ok c' \<and> grows d c' \<and> ctriples c' = ctriples d \<union> consequences rs (ctriples c)"
    if "foldR (apply_rule (map snd c)) rs d = Inr c'" "coll_ok d" "set rs \<subseteq> set rules" for rs d
    using that
  proof (induction rs arbitrary: d)
    case (Cons r rs)
    then obtain e where e: "apply_rule (map snd c) r d = Inr e" "foldR (apply_rule (map snd c)) rs e = Inr c'"
      by (auto simp: result_simps)
    have "atom_ok (ru_head r)" using assms(3) Cons.prems(3) by (simp add: heads_ok_def)
    note one = apply_rule_result [OF e(1) Cons.prems(2) facts this]
    have IH: "coll_ok c'" "grows e c'" "ctriples c' = ctriples e \<union> consequences rs (ctriples c)"
      using Cons.IH [OF e(2)] one Cons.prems(3) by auto
    have img: "triple_of ` set (map snd c) = ctriples c" by (simp add: ctriples_def)
    have "ctriples c' = ctriples d \<union> consequences (r # rs) (ctriples c)"
      unfolding IH(3) using one unfolding img by (auto simp: consequences_def)
    then show ?case using IH(1) one grows_trans IH(2) by blast
  qed (simp add: consequences_def)
  show ?thesis using gen [of rules c] assms(1,2) by (simp add: closure_pass_def)
qed

text \<open>A stratum: what its loop returns is exactly the entailed set, and the loop always ends.\<close>

lemma closed_is_entailed:
  assumes nb: "negation_below rules" and I: "I \<subseteq> S" and sub: "S \<subseteq> entailed rules I"
    and closed: "consequences rules S \<subseteq> S"
  shows "S = entailed rules I"
proof
  show "entailed rules I \<subseteq> S"
  proof
    fix t assume "t \<in> entailed rules I"
    then show "t \<in> S"
    proof (induction rule: entailed.induct)
      case (rule r \<sigma> t)
      then have "body_holds r S I \<sigma>" unfolding body_holds_def by blast
      then have "body_holds r S S \<sigma>" using body_holds_base [OF nb rule(1) I sub] by simp
      then show ?case using rule closed unfolding consequences_def by blast
    qed (use I in auto)
  qed
qed (rule sub)

lemma consequences_entailed:
  assumes nb: "negation_below rules" and I: "I \<subseteq> S" and sub: "S \<subseteq> entailed rules I"
  shows "consequences rules S \<subseteq> entailed rules I"
proof
  fix t assume "t \<in> consequences rules S"
  then obtain r \<sigma> where r: "r \<in> set rules" "body_holds r S S \<sigma>" "head_triple (ru_head r) \<sigma> = Some t"
    by (auto simp: consequences_def)
  have "body_holds r S I \<sigma>" using r(2) body_holds_base [OF nb r(1) I sub] by simp
  then have p: "\<forall>at \<in> set (positives r). \<exists>u. u \<in> entailed rules I \<and> sat at u \<sigma>"
    and n: "\<forall>at \<in> set (negatives r). \<forall>u \<in> I. \<forall>\<tau>. (\<forall>x \<in> rule_vars r. \<tau> x = \<sigma> x) \<longrightarrow> \<not> sat at u \<tau>"
    using sub unfolding body_holds_def by blast+
  show "t \<in> entailed rules I" by (rule entailed.rule [OF r(1) p n r(3)])
qed

definition level_inv :: "rule list \<Rightarrow> collection \<Rightarrow> progress \<Rightarrow> bool" where
  "level_inv rules c0 p \<longleftrightarrow>
     (case p of Running c \<Rightarrow> coll_ok c \<and> grows c0 c \<and> ctriples c \<subseteq> entailed rules (ctriples c0)
      | Fixpoint c \<Rightarrow> coll_ok c \<and> grows c0 c \<and> ctriples c = entailed rules (ctriples c0)
      | Stopped e \<Rightarrow> True)"

lemma level_step_inv:
  assumes nb: "negation_below rules" and h: "heads_ok rules" and inv: "level_inv rules c0 (Running c)"
  shows "level_inv rules c0 (level_step rules (Running c))"
proof (cases "closure_pass rules c")
  case (Inr c')
  have c: "coll_ok c" "grows c0 c" "ctriples c \<subseteq> entailed rules (ctriples c0)" using inv by (auto simp: level_inv_def)
  note I = grows_triples [OF c(2)]
  note pass = closure_pass_result [OF Inr c(1) h]
  have sub: "ctriples c' \<subseteq> entailed rules (ctriples c0)"
    using pass c(3) consequences_entailed [OF nb I c(3)] by auto
  have g: "grows c0 c'" using pass grows_trans c(2) by blast
  show ?thesis
  proof (cases "length c' = length c")
    case True
    then have same: "c' = c" using pass grows_same by blast
    then have "consequences rules (ctriples c) \<subseteq> ctriples c" using pass by auto
    from closed_is_entailed [OF nb I c(3) this] show ?thesis
      using c same by (simp add: level_inv_def level_step_def Inr)
  next
    case False
    then show ?thesis using pass sub g by (simp add: level_inv_def level_step_def Inr)
  qed
qed (simp add: level_inv_def level_step_def)

definition level_measure :: "progress \<Rightarrow> nat" where
  "level_measure p = (case p of Running c \<Rightarrow> Suc (Suc MAX_CLOSURE_ASSERTIONS - length c) | _ \<Rightarrow> 0)"

lemma level_step_measure:
  assumes h: "heads_ok rules" and c: "coll_ok c" and small: "length c \<le> MAX_CLOSURE_ASSERTIONS"
  shows "level_measure (level_step rules (Running c)) < level_measure (Running c) \<and>
    (case level_step rules (Running c) of Running c' \<Rightarrow> length c' \<le> MAX_CLOSURE_ASSERTIONS | _ \<Rightarrow> True)"
proof (cases "closure_pass rules c")
  case (Inr c')
  have "length c \<le> length c'" using closure_pass_result [OF Inr c h] grows_length by blast
  then show ?thesis using small by (auto simp: level_step_def Inr level_measure_def)
qed (simp add: level_step_def level_measure_def)

theorem close_level_result:
  assumes nb: "negation_below rules" and h: "heads_ok rules" and c: "coll_ok c"
    and small: "length c \<le> MAX_CLOSURE_ASSERTIONS"
  shows "(\<exists>c'. close_level rules c = Inr c' \<and> coll_ok c' \<and> grows c c' \<and> length c' \<le> MAX_CLOSURE_ASSERTIONS \<and>
       ctriples c' = entailed rules (ctriples c)) \<or>
    (\<exists>e p. close_level rules c = Inl e \<and>
       while_option (\<lambda>p. case p of Running _ \<Rightarrow> True | _ \<Rightarrow> False) (level_step rules) (Running c) = Some (Stopped e))"
proof -
  let ?b = "\<lambda>p. case p of Running _ \<Rightarrow> True | _ \<Rightarrow> False"
  let ?P = "\<lambda>p. level_inv rules c p \<and> (case p of Running d \<Rightarrow> length d \<le> MAX_CLOSURE_ASSERTIONS
    | Fixpoint d \<Rightarrow> length d \<le> MAX_CLOSURE_ASSERTIONS | _ \<Rightarrow> True)"
  have step: "?P (level_step rules p) \<and> level_measure (level_step rules p) < level_measure p"
    if inv: "?P p" and guard: "?b p" for p
  proof -
    obtain d where p: "p = Running d" using guard by (cases p) auto
    have d: "coll_ok d" "length d \<le> MAX_CLOSURE_ASSERTIONS" using inv by (auto simp: p level_inv_def)
    have "case level_step rules p of Fixpoint d \<Rightarrow> length d \<le> MAX_CLOSURE_ASSERTIONS | _ \<Rightarrow> True"
      using d(2) by (auto simp: p level_step_def split: sum.splits)
    then show ?thesis
      using level_step_inv [OF nb h, of c d] level_step_measure [OF h d] inv unfolding p
      by (auto split: progress.splits)
  qed
  have P0: "?P (Running c)" using c small by (auto simp: level_inv_def intro: entailed.base)
  obtain q where q: "while_option ?b (level_step rules) (Running c) = Some q"
    using measure_while_option_Some [of ?P ?b "level_step rules" level_measure, OF step P0] by blast
  have "?P q" using while_option_rule [of ?P ?b "level_step rules", OF _ q P0] step by blast
  moreover have "\<not> ?b q" using while_option_stop [OF q] .
  ultimately show ?thesis using q by (cases q) (auto simp: close_level_def level_inv_def)
qed

end
