(* ===== verification/Onto_Strata.thy ===== *)
theory Onto_Strata
  imports Onto_Entail
begin

text \<open>
  Stratified evaluation as a whole: the strata \<open>stratify\<close> returns respect every rule, the
  closure is the iterated least fixpoint over them, and it is a model of all rules.
\<close>

section \<open>Stratifications\<close>

definition stratification :: "rule list \<Rightarrow> (string \<Rightarrow> nat) \<Rightarrow> bool" where
  "stratification rules st \<longleftrightarrow> (\<forall>r \<in> set rules. \<forall>at \<in> set (ru_body r).
     st (at_p at) + (if at_negated at then 1 else 0) \<le> st (at_p (ru_head r)))"

lemma foldl_max_ge:
  "m \<le> foldl (\<lambda>m x. max m (w x)) m xs \<and> (\<forall>x \<in> set xs. w x \<le> foldl (\<lambda>m x. max m (w x)) m xs)"
  for w :: "'a \<Rightarrow> nat"
proof (induction xs arbitrary: m)
  case (Cons x xs)
  from Cons.IH [of "max m (w x)"] show ?case by auto
qed simp

lemma required_stratum_ge:
  "at \<in> set (ru_body r) \<Longrightarrow> st (at_p at) + (if at_negated at then 1 else 0) \<le> required_stratum st r"
  using foldl_max_ge [of 0 "\<lambda>at. st (at_p at) + (if at_negated at then 1 else 0)" "ru_body r"]
  unfolding required_stratum_def by blast

lemma raise_stratum_eq: "raise_stratum r (st, ch) =
    (if st (at_p (ru_head r)) < required_stratum st r
     then (st(at_p (ru_head r) := required_stratum st r), True) else (st, ch))"
  by (simp add: raise_stratum_def)

lemma raise_stratum_changed: "snd (fold raise_stratum rs (st, True))"
  by (induction rs arbitrary: st) (auto simp: raise_stratum_eq)

lemma raise_stratum_stable:
  "fold raise_stratum rs (st, False) = (st', False) \<Longrightarrow>
     st' = st \<and> (\<forall>r \<in> set rs. required_stratum st r \<le> st (at_p (ru_head r)))"
proof (induction rs arbitrary: st)
  case (Cons r rs)
  show ?case
  proof (cases "st (at_p (ru_head r)) < required_stratum st r")
    case True
    then have "fold raise_stratum rs (st(at_p (ru_head r) := required_stratum st r), True) = (st', False)"
      using Cons.prems by (simp add: raise_stratum_eq)
    then show ?thesis using raise_stratum_changed by (metis snd_conv)
  next
    case False
    then show ?thesis using Cons by (simp add: raise_stratum_eq)
  qed
qed simp

lemma stratify_sound:
  assumes "stratify rules preds = Inr st"
  shows "stratification rules st"
proof -
  have "stratification rules st" if "stratify_loop n rules st0 = Some st" for n st0
    using that
  proof (induction n arbitrary: st0)
    case (Suc n)
    obtain st1 ch where f: "fold raise_stratum rules (st0, False) = (st1, ch)" by force
    show ?case
    proof (cases ch)
      case True
      then show ?thesis using Suc f by simp
    next
      case False
      then have "st = st0" "\<forall>r \<in> set rules. required_stratum st0 r \<le> st0 (at_p (ru_head r))"
        using Suc.prems raise_stratum_stable [of rules st0 st1] f by auto
      then show ?thesis using required_stratum_ge order_trans unfolding stratification_def by blast
    qed
  qed simp
  then show "stratification rules st" using assms
    by (auto simp: stratify_def split: option.splits simp del: stratify_loop.simps)
qed

lemma level_negation_below: "stratification rules st \<Longrightarrow> negation_below (level_rules rules st l)"
  by (force simp: stratification_def negation_below_def level_rules_def negatives_def)

lemma level_heads_ok: "heads_ok rules \<Longrightarrow> heads_ok (level_rules rules st l)"
  by (simp add: heads_ok_def level_rules_def)

section \<open>The iterated fixpoint\<close>

fun strata :: "rule list \<Rightarrow> (string \<Rightarrow> nat) \<Rightarrow> triple set \<Rightarrow> nat \<Rightarrow> triple set" where
  "strata rules st I 0 = I"
| "strata rules st I (Suc l) = entailed (level_rules rules st l) (strata rules st I l)"

lemma strata_step: "strata rules st I l \<subseteq> strata rules st I (Suc l)"
  by (auto intro: entailed.base)

lemma strata_mono: "l \<le> m \<Longrightarrow> strata rules st I l \<subseteq> strata rules st I m"
  by (rule lift_Suc_mono_le [of "strata rules st I"]) (rule strata_step)

lemma strata_new:
  "l \<le> m \<Longrightarrow> t \<in> strata rules st I m \<Longrightarrow> t \<in> strata rules st I l \<or> l \<le> st (fst (snd t))"
proof (induction m)
  case (Suc m)
  show ?case
  proof (cases "l = Suc m")
    case False
    then have "l \<le> m" using Suc.prems(1) by simp
    from Suc.prems(2) have "t \<in> strata rules st I m \<or> st (fst (snd t)) = m"
      using entailed_new [of t "level_rules rules st m" "strata rules st I m"] by (auto simp: level_rules_def)
    then show ?thesis using Suc.IH [OF \<open>l \<le> m\<close>] \<open>l \<le> m\<close> by blast
  qed (use Suc.prems in simp)
qed simp

text \<open>A stratified closure satisfies every rule, negation read in the closure itself.\<close>

lemma strata_model:
  assumes st: "stratification rules st" and r: "r \<in> set rules" "st (at_p (ru_head r)) < n"
    and body: "body_holds r (strata rules st I n) (strata rules st I n) \<sigma>"
    and head: "head_triple (ru_head r) \<sigma> = Some t"
  shows "t \<in> strata rules st I n"
proof -
  let ?F = "strata rules st I" and ?l = "st (at_p (ru_head r))"
  have le: "?F (Suc ?l) \<subseteq> ?F n" "?F ?l \<subseteq> ?F n" using r(2) by (simp_all add: strata_mono Suc_leI less_imp_le del: strata.simps)
  have rl: "r \<in> set (level_rules rules st ?l)" using r(1) by (simp add: level_rules_def)
  have pos: "\<exists>u. u \<in> ?F (Suc ?l) \<and> sat at u \<sigma>" if at: "at \<in> set (positives r)" for at
  proof -
    obtain u where u: "u \<in> ?F n" "sat at u \<sigma>" using body at unfolding body_holds_def by blast
    have "fst (snd u) = at_p at" using u(2) by (auto simp: sat_def split: prod.splits)
    moreover have "st (at_p at) \<le> ?l" using st r(1) at by (fastforce simp: stratification_def positives_def)
    ultimately have "u \<in> ?F (Suc ?l)" using strata_new [of "Suc ?l" n u rules st I] u(1) r(2) by (simp del: strata.simps)
    then show ?thesis using u(2) by blast
  qed
  have neg: "\<forall>at \<in> set (negatives r). \<forall>u \<in> ?F ?l. \<forall>\<tau>. (\<forall>x \<in> rule_vars r. \<tau> x = \<sigma> x) \<longrightarrow> \<not> sat at u \<tau>"
    using body le(2) unfolding body_holds_def by blast
  have "t \<in> ?F (Suc ?l)"
    unfolding strata.simps by (rule entailed.rule [OF rl _ neg head]) (use pos in simp)
  then show ?thesis using le(1) by blast
qed

lemma close_levels_result:
  assumes st: "stratification rules st" and h: "heads_ok rules"
    and run: "foldR (\<lambda>level. close_level (level_rules rules st level)) [m..<n] c = Inr c'"
    and c: "coll_ok c" "length c \<le> MAX_CLOSURE_ASSERTIONS" "ctriples c = strata rules st I m" and mn: "m \<le> n"
  shows "coll_ok c' \<and> length c' \<le> MAX_CLOSURE_ASSERTIONS \<and> ctriples c' = strata rules st I n"
  using run c mn
proof (induction "n - m" arbitrary: m c)
  case (Suc k)
  then have "[m..<n] = m # [Suc m..<n]" by (simp add: upt_conv_Cons)
  then obtain d where d: "close_level (level_rules rules st m) c = Inr d"
    "foldR (\<lambda>level. close_level (level_rules rules st level)) [Suc m..<n] d = Inr c'"
    using Suc.prems(1) by (auto simp: result_simps)
  from close_level_result [OF level_negation_below [OF st] level_heads_ok [OF h] Suc.prems(2,3), of m] d(1)
  have "coll_ok d" "length d \<le> MAX_CLOSURE_ASSERTIONS" "ctriples d = strata rules st I (Suc m)"
    using Suc.prems(4) by auto
  then show ?case using Suc.hyps(1) [OF _ d(2)] Suc.hyps(2) by auto
qed simp

definition top_stratum :: "rule list \<Rightarrow> (string \<Rightarrow> nat) \<Rightarrow> collection \<Rightarrow> nat" where
  "top_stratum rules st c = Suc (Max (insert 0 (st ` set (closure_predicates rules (map snd c)))))"

lemma close_rules_result:
  assumes "close_rules rules c = Inr c'" "heads_ok rules" "coll_ok c" "length c \<le> MAX_CLOSURE_ASSERTIONS"
  shows "\<exists>st. stratification rules st \<and> coll_ok c' \<and> length c' \<le> MAX_CLOSURE_ASSERTIONS \<and>
    ctriples c' = strata rules st (ctriples c) (top_stratum rules st c) \<and>
    (\<forall>r \<in> set rules. st (at_p (ru_head r)) < top_stratum rules st c)"
proof -
  obtain st where st: "stratify rules (closure_predicates rules (map snd c)) = Inr st"
    "foldR (\<lambda>level. close_level (level_rules rules st level)) [0..<top_stratum rules st c] c = Inr c'"
    using assms(1) by (auto simp: close_rules_def Let_def result_simps top_stratum_def)
  note s = stratify_sound [OF st(1)]
  have "coll_ok c' \<and> length c' \<le> MAX_CLOSURE_ASSERTIONS \<and>
      ctriples c' = strata rules st (ctriples c) (top_stratum rules st c)"
    by (rule close_levels_result [OF s assms(2) st(2) assms(3,4)]) simp_all
  moreover have "st (at_p (ru_head r)) < top_stratum rules st c" if "r \<in> set rules" for r
  proof -
    have "at_p (ru_head r) \<in> set (closure_predicates rules (map snd c))"
      using that by (auto simp: closure_predicates_def)
    then have "st (at_p (ru_head r)) \<le> Max (insert 0 (st ` set (closure_predicates rules (map snd c))))"
      by (intro Max_ge) auto
    then show ?thesis by (simp add: top_stratum_def)
  qed
  ultimately show ?thesis using s by blast
qed

section \<open>The closure of a graph and an ontology\<close>

lemma base_collection_result:
  assumes "\<forall>a \<in> set as. assertion_ok a"
  shows "coll_ok (base_collection as) \<and> ctriples (base_collection as) = triple_of ` set as"
proof -
  have "coll_ok (fold add_new as c) \<and> ctriples (fold add_new as c) = ctriples c \<union> triple_of ` set as"
    if "coll_ok c" "\<forall>a \<in> set as. assertion_ok a" for c as
    using that by (induction as arbitrary: c) (auto simp: add_new_ok)
  from this [of "[]" as] assms show ?thesis
    by (simp add: base_collection_def coll_ok_def ctriples_def)
qed

lemma term_facts_ok: "term_facts t = Inr as \<Longrightarrow> a \<in> set as \<Longrightarrow> assertion_ok a"
proof -
  assume t: "term_facts t = Inr as" "a \<in> set as"
  have mapped: "assertion_ok a"
    if "mapR (\<lambda>p. bindR (mk_obj (Term p)) (mk_assertion n q)) ps = Inr bs" "a \<in> set bs" for n q ps bs a
    using that by (induction ps arbitrary: bs)
      (auto simp: result_simps mk_obj_def check_obj_def mk_assertion_def assertion_ok_def obj_ok_def list_all2_Cons1)
  obtain k bs where kb: "mk_assertion (t_name t) (core ''kind'') (Literal ''str'' (PStr (t_kind t))) = Inr k" "as = k # bs"
    and bs: "(if t_kind t = KIND_CLASS
        then mapR (\<lambda>p. bindR (mk_obj (Term p)) (mk_assertion (t_name t) (core ''subClassOf''))) (t_sub_class_of t)
        else bindR (mapR (\<lambda>p. bindR (mk_obj (Term p)) (mk_assertion (t_name t) (core ''domain''))) (t_domain t)) (\<lambda>ds.
          bindR (mapR (\<lambda>p. bindR (mk_obj (Term p)) (mk_assertion (t_name t) (core ''range''))) (t_range t)) (\<lambda>rs.
            Inr (ds @ rs)))) = Inr bs"
    using t(1) by (auto simp: term_facts_def bindR_Inr_iff)
  have "assertion_ok k"
    using kb(1) by (auto simp: mk_assertion_def assertion_ok_def obj_ok_def type_names_def result_simps)
  moreover have "assertion_ok b" if "b \<in> set bs" for b
  proof (cases "t_kind t = KIND_CLASS")
    case True
    then show ?thesis using bs mapped that by simp
  next
    case False
    then show ?thesis using bs mapped that by (auto simp: bindR_Inr_iff)
  qed
  ultimately show "assertion_ok a" using t(2) kb(2) by auto
qed

lemma ontology_facts_ok:
  assumes "ontology_facts f = Inr facts"
  shows "\<forall>a \<in> set facts. assertion_ok a"
proof
  fix a assume "a \<in> set facts"
  then obtain fs as where "list_all2 (\<lambda>t as. term_facts t = Inr as) (f_terms f) fs" "as \<in> set fs" "a \<in> set as"
    using assms by (auto simp: ontology_facts_def result_simps)
  moreover from this obtain i where "i < length fs" "as = fs ! i" by (auto simp: in_set_conv_nth)
  ultimately have "term_facts (f_terms f ! i) = Inr as" "a \<in> set as" by (auto simp: list_all2_conv_all_nth)
  then show "assertion_ok a" by (rule term_facts_ok)
qed

lemma compute_closure_result:
  assumes run: "compute_closure sha g f = Inr cl" and g: "\<forall>a \<in> set (gr_assertions g). assertion_ok a"
    and h: "heads_ok (f_rules f)"
  shows "\<exists>facts st n. ontology_facts f = Inr facts \<and> stratification (f_rules f) st \<and>
    (\<forall>r \<in> set (f_rules f). st (at_p (ru_head r)) < n) \<and>
    triple_of ` set (c_assertions cl) =
      strata (f_rules f) st (triple_of ` set (gr_assertions g) \<union> triple_of ` set facts) n"
proof -
  obtain facts c' where f: "ontology_facts f = Inr facts"
    and small: "length (base_collection (gr_assertions g @ facts)) \<le> MAX_CLOSURE_ASSERTIONS"
    and c': "close_rules (f_rules f) (base_collection (gr_assertions g @ facts)) = Inr c'"
    and cl: "mk_closure (f_id f @ CHR ''@'' # f_version f) (graph_hash sha g) (ontology_hash sha f)
              (map snd (sort_key fst c')) CLOSURE_SCHEMA = Inr cl"
    using run by (auto simp: compute_closure_def Let_def result_simps)
  let ?c = "base_collection (gr_assertions g @ facts)"
  have base: "coll_ok ?c" "ctriples ?c = triple_of ` set (gr_assertions g) \<union> triple_of ` set facts"
    using base_collection_result [of "gr_assertions g @ facts"] g ontology_facts_ok [OF f]
    by (simp_all add: image_Un ball_Un)
  obtain st where st: "stratification (f_rules f) st" "coll_ok c'"
    "ctriples c' = strata (f_rules f) st (ctriples ?c) (top_stratum (f_rules f) st ?c)"
    "\<forall>r \<in> set (f_rules f). st (at_p (ru_head r)) < top_stratum (f_rules f) st ?c"
    using close_rules_result [OF c' h base(1) small] by blast
  let ?as = "map snd (sort_key fst c')"
  have keys: "map assertion_key ?as = map fst (sort_key fst c')"
    using st(2) by (auto simp: coll_ok_def comp_def)
  have "mset (map fst (sort_key fst c')) = mset (map fst c')" by simp
  then have "distinct (map fst (sort_key fst c'))"
    using st(2) mset_eq_imp_distinct_iff unfolding coll_ok_def wf_dict_def by blast
  then have "canonical_assertions ?as = ?as" by (intro canonical_id) (simp_all only: keys sorted_sort_key)
  then have "c_assertions cl = ?as" using cl by (auto simp: mk_closure_def result_simps)
  then have "set (c_assertions cl) = snd ` set c'" by simp
  then have "triple_of ` set (c_assertions cl) = ctriples c'" by (simp add: ctriples_def)
  then show ?thesis using f st(1,3,4) base(2) by auto
qed

end
