(* ===== verification/Onto_Props.thy ===== *)
theory Onto_Props
  imports Onto_Strata
begin

text \<open>
  The properties of the semantic layer: content addresses of graphs, fragments and their
  additive evolution, discovery and shape gates, and the entailment closure.
\<close>

section \<open>Content addresses of graphs\<close>

lemma wf_pyval_graph:
  assumes "graph_ok g"
  shows "wf_pyval (graph_to_dict g)"
proof -
  have "wf_dict (dupdate [] (map (\<lambda>kv. (fst kv, PStr (snd kv))) (gr_sources g)))" by (simp add: wf_dict_dupdate)
  moreover have "\<forall>kv \<in> set (dupdate [] (map (\<lambda>kv. (fst kv, PStr (snd kv))) (gr_sources g))). wf_pyval (snd kv)"
    using in_dupdate [of _ _ "[]" "map (\<lambda>kv. (fst kv, PStr (snd kv))) (gr_sources g)"] by fastforce
  ultimately show ?thesis
    using assms wf_assertion_to_dict
    by (auto simp: graph_to_dict_def graph_ok_def list_all_iff wf_dict_def)
qed

lemma norm_assertion_triple:
  assumes "assertion_ok a" "assertion_ok b"
  shows "norm_assertion a = norm_assertion b \<longleftrightarrow> triple_of a = triple_of b"
  using triple_key [OF assms] assertion_key_eq_iff [OF assms] by simp

lemma image_eq_key:
  assumes "\<And>a b. a \<in> A \<union> B \<Longrightarrow> b \<in> A \<union> B \<Longrightarrow> f a = f b \<longleftrightarrow> g a = g b"
  shows "f ` A = f ` B \<longleftrightarrow> g ` A = g ` B"
proof -
  have sub: "f ` C \<subseteq> f ` D \<longleftrightarrow> g ` C \<subseteq> g ` D"
    if "\<And>a b. a \<in> C \<Longrightarrow> b \<in> D \<Longrightarrow> f a = f b \<longleftrightarrow> g a = g b" for C D
    unfolding image_subset_iff using that by (auto simp: image_iff)
  show ?thesis
    unfolding set_eq_subset [of "f ` A"] set_eq_subset [of "g ` A"]
    using sub [of A B] sub [of B A] assms by blast
qed

lemma triples_of_keys:
  assumes "\<forall>a \<in> set as \<union> set bs. assertion_ok a"
  shows "assertion_key ` set as = assertion_key ` set bs \<longleftrightarrow> triple_of ` set as = triple_of ` set bs"
  by (rule image_eq_key) (use assms triple_key in blast)

lemma canonical_keys_iff:
  "map assertion_key (canonical_assertions as) = map assertion_key (canonical_assertions bs) \<longleftrightarrow>
   assertion_key ` set as = assertion_key ` set bs"
proof
  assume "map assertion_key (canonical_assertions as) = map assertion_key (canonical_assertions bs)"
  then have "set (map assertion_key (canonical_assertions as)) = set (map assertion_key (canonical_assertions bs))"
    by (rule arg_cong)
  then show "assertion_key ` set as = assertion_key ` set bs" by (simp add: set_canonical_keys)
qed (rule canonical_keys_cong)

lemma length_canonical: "length (canonical_assertions as) \<le> length as"
proof -
  have put: "length (dput k v d) \<le> Suc (length d)" for k and v :: assertion and d
    by (induction d) (auto simp: dput_def)
  have "length (dupdate d e) \<le> length d + length e" for d e :: "assertion dict"
  proof (induction e arbitrary: d)
    case (Cons kv e)
    obtain k v where kv: "kv = (k, v)" by force
    show ?case using put [of k v d] Cons.IH [of "dput k v d"] by (simp add: kv)
  qed simp
  from this [of "[]" "map (\<lambda>a. (assertion_key a, a)) as"] show ?thesis
    by (simp add: canonical_assertions_def dedupe_def)
qed

lemma json_norm_assertions_eq:
  assumes "\<forall>a \<in> set as \<union> set bs. assertion_ok a"
  shows "map (\<lambda>a. json_norm (assertion_to_dict a)) as = map (\<lambda>a. json_norm (assertion_to_dict a)) bs \<longleftrightarrow>
    map assertion_key as = map assertion_key bs"
proof -
  have eq: "json_norm (assertion_to_dict a) = json_norm (assertion_to_dict b) \<longleftrightarrow> assertion_key a = assertion_key b"
    if "assertion_ok a" "assertion_ok b" for a b
    using canonical_bytes_eq_iff [OF wf_assertion_to_dict wf_assertion_to_dict] that by (simp add: assertion_key_def)
  have "list_all2 (\<lambda>a b. json_norm (assertion_to_dict a) = json_norm (assertion_to_dict b)) as bs \<longleftrightarrow>
      list_all2 (\<lambda>a b. assertion_key a = assertion_key b) as bs"
    using assms eq by (auto simp: list_all2_conv_all_nth)
  then show ?thesis by (simp add: list_all2_eq list_all2_map1 list_all2_map2)
qed

lemma json_norm_norm_graph: "json_norm (graph_to_dict (norm_graph g)) = json_norm (graph_to_dict g)"
  by (simp add: graph_to_dict_def norm_graph_def sort_key_simps comp_def json_norm_assertion [symmetric])

section \<open>Example data\<close>

definition ex_a1 :: assertion where "ex_a1 = \<lparr>a_s = ''c1'', a_p = TYPE_P, a_o = Term ''Sub''\<rparr>"
definition ex_a2 :: assertion where
  "ex_a2 = \<lparr>a_s = ''c1'', a_p = ''w'', a_o = Literal ''int'' (PInt 3)\<rparr>"

definition ex_graph :: graph where
  "ex_graph = \<lparr>gr_scope = ''s'', gr_assertions = canonical_assertions [ex_a1, ex_a2], gr_sources = [], gr_schema = GRAPH_SCHEMA\<rparr>"

definition ex_class :: "string \<Rightarrow> string list \<Rightarrow> onto_term" where
  "ex_class n sups = \<lparr>t_kind = KIND_CLASS, t_name = n, t_sub_class_of = sups, t_domain = [], t_range = []\<rparr>"

definition ex_property :: "string \<Rightarrow> onto_term" where
  "ex_property n = \<lparr>t_kind = KIND_PROPERTY, t_name = n, t_sub_class_of = [], t_domain = [], t_range = []\<rparr>"

definition ex_rule :: rule where
  "ex_rule = \<lparr>ru_id = ''r'', ru_head = \<lparr>at_s = Var ''x'', at_p = TYPE_P, at_o = Var ''c'', at_negated = False\<rparr>,
     ru_body = [\<lparr>at_s = Var ''x'', at_p = TYPE_P, at_o = Var ''d'', at_negated = False\<rparr>,
       \<lparr>at_s = Var ''d'', at_p = core ''subClassOf'', at_o = Var ''c'', at_negated = False\<rparr>],
     ru_schema = RULES_SCHEMA\<rparr>"

definition ex_old :: fragment where
  "ex_old = \<lparr>f_id = ''o'', f_version = ''1'', f_imports = [], f_terms = [ex_class ''Base'' []], f_rules = [],
     f_schema = ONTOLOGY_SCHEMA\<rparr>"

definition ex_fragment :: fragment where
  "ex_fragment = \<lparr>f_id = ''o'', f_version = ''2'', f_imports = [],
     f_terms = [ex_class ''Base'' [], ex_class ''Sub'' [''Base''], ex_property ''w''], f_rules = [ex_rule],
     f_schema = ONTOLOGY_SCHEMA\<rparr>"

definition ex_sha :: "string \<Rightarrow> string" where
  "ex_sha s = replicate 64 CHR ''0''"

lemma mk_graph_small:
  assumes "canonical_assertions as = gr_assertions ex_graph" "length as \<le> 10"
  shows "mk_graph ''s'' as [] GRAPH_SCHEMA = Inr ex_graph"
  using assms length_canonical [of as]
  by (simp add: mk_graph_def ex_graph_def MAX_CLOSURE_ASSERTIONS_def)

lemma ex_canonical: "canonical_assertions [ex_a2, ex_a1] = gr_assertions ex_graph"
  "canonical_assertions [ex_a1, ex_a2, ex_a1] = gr_assertions ex_graph"
  by (code_simp, code_simp)

lemma ex_graph_made: "mk_graph ''s'' [ex_a2, ex_a1] [] GRAPH_SCHEMA = Inr ex_graph"
  by (rule mk_graph_small) (simp_all add: ex_canonical)

lemma ex_assertions_ok: "\<forall>a \<in> set [ex_a2, ex_a1]. assertion_ok a"
  by code_simp

section \<open>Properties\<close>

lemma graph_address:
  assumes "mk_graph scope as sources schema = Inr g" "mk_graph scope bs sources' schema = Inr h"
    and "mset sources = mset sources'"
    and "distinct (map fst sources)"
    and ok: "\<forall>a \<in> set as. assertion_ok a" "\<forall>a \<in> set bs. assertion_ok a"
  shows "graph_canonical_bytes g = graph_canonical_bytes h \<longleftrightarrow> triple_of ` set as = triple_of ` set bs"
proof -
  have "distinct (map fst sources')"
    using assms(3,4) by (metis mset_eq_imp_distinct_iff mset_map)
  then have gok: "graph_ok g" "graph_ok h" using mk_graph_ok assms by blast+
  have srt: "sort sources = sort sources'"
    using assms(3) by (metis sorted_list_of_multiset_mset)
  have parts: "gr_assertions g = canonical_assertions as" "gr_assertions h = canonical_assertions bs"
    "gr_scope g = gr_scope h" "gr_schema g = gr_schema h" "gr_sources g = gr_sources h"
    using assms(1,2) srt by (auto simp: mk_graph_def result_simps)
  have cok: "\<forall>a \<in> set (canonical_assertions as) \<union> set (canonical_assertions bs). assertion_ok a"
    using canonical_subset ok by blast
  have "graph_canonical_bytes g = graph_canonical_bytes h \<longleftrightarrow> json_norm (graph_to_dict g) = json_norm (graph_to_dict h)"
    unfolding graph_canonical_bytes_def
    by (rule canonical_bytes_eq_iff [OF wf_pyval_graph wf_pyval_graph]) (rule gok)+
  also have "\<dots> \<longleftrightarrow> map (\<lambda>a. json_norm (assertion_to_dict a)) (gr_assertions g) =
      map (\<lambda>a. json_norm (assertion_to_dict a)) (gr_assertions h)"
    by (simp add: graph_to_dict_def parts sort_key_simps comp_def)
  also have "\<dots> \<longleftrightarrow> map assertion_key (canonical_assertions as) = map assertion_key (canonical_assertions bs)"
    unfolding parts by (rule json_norm_assertions_eq [OF cok])
  also have "\<dots> \<longleftrightarrow> assertion_key ` set as = assertion_key ` set bs"
    by (rule canonical_keys_iff)
  also have "\<dots> \<longleftrightarrow> triple_of ` set as = triple_of ` set bs"
    by (rule triples_of_keys) (use ok in blast)
  finally show ?thesis .
qed

text \<open>C19: The content address of a graph is that of its set of assertions: two graphs built for the
  same scope and sources have the same canonical bytes exactly when they assert the same triples,
  whatever the order and the repetitions of their construction.\<close>

theorem graph_address_is_set:
  assumes "mk_graph scope as sources schema = Inr g" "mk_graph scope bs sources' schema = Inr h"
    and "mset sources = mset sources'"
    and "distinct (map fst sources)"
    and ok: "\<forall>a \<in> set as. assertion_ok a" "\<forall>a \<in> set bs. assertion_ok a"
  shows "graph_canonical_bytes g = graph_canonical_bytes h \<longleftrightarrow> triple_of ` set as = triple_of ` set bs"
  by (rule graph_address [OF assms])

lemma graph_address_is_set_witness:
  "mk_graph ''s'' [ex_a2, ex_a1] [] GRAPH_SCHEMA = Inr ex_graph \<and>
   mk_graph ''s'' [ex_a1, ex_a2, ex_a1] [] GRAPH_SCHEMA = Inr ex_graph \<and>
   triple_of ` set [ex_a2, ex_a1] = triple_of ` set [ex_a1, ex_a2, ex_a1]"
proof -
  have h: "mk_graph ''s'' [ex_a1, ex_a2, ex_a1] [] GRAPH_SCHEMA = Inr ex_graph"
    by (rule mk_graph_small) (simp_all add: ex_canonical)
  have ok: "\<forall>a \<in> set [ex_a1, ex_a2, ex_a1]. assertion_ok a" using ex_assertions_ok by simp
  from graph_address_is_set [OF ex_graph_made h _ _ ex_assertions_ok ok] ex_graph_made h show ?thesis by simp
qed

text \<open>C20: A graph survives storage: the canonical bytes parse back to a document whose graph has the
  same scope, sources and assertions (the keys of literal mappings sorted) and the same address.\<close>

theorem graph_survives_storage:
  assumes "mk_graph scope as sources schema = Inr g" "\<forall>a \<in> set as. assertion_ok a" "distinct (map fst sources)"
  shows "\<exists>doc. json_loads (graph_canonical_bytes g) = Some doc \<and> graph_from_dict doc = Inr (norm_graph g) \<and>
    graph_hash sha (norm_graph g) = graph_hash sha g"
proof -
  have ok: "graph_ok g" by (rule mk_graph_ok [OF assms])
  have "json_loads (graph_canonical_bytes g) = Some (json_norm (graph_to_dict g))"
    unfolding graph_canonical_bytes_def by (rule canonical_loads [OF wf_pyval_graph [OF ok]])
  moreover have "graph_hash sha (norm_graph g) = graph_hash sha g"
    by (simp add: graph_hash_def graph_canonical_bytes_def canonical_bytes_def json_norm_norm_graph)
  ultimately show ?thesis using graph_from_text [OF ok] by blast
qed

lemma graph_survives_storage_witness:
  "\<exists>doc. json_loads (graph_canonical_bytes ex_graph) = Some doc \<and> graph_from_dict doc = Inr (norm_graph ex_graph)"
  using graph_survives_storage [OF ex_graph_made ex_assertions_ok, of ex_sha] by auto

definition declared_supers :: "onto_term list \<Rightarrow> (string \<times> string) set" where
  "declared_supers terms = {(t_name t, t_name u) | t u. t \<in> set terms \<and> u \<in> set terms \<and>
     t_kind t = KIND_CLASS \<and> t_kind u = KIND_CLASS \<and> t_name u \<in> set (t_sub_class_of t)}"

lemma parent_rel_declared:
  assumes "distinct (map t_name terms)"
  shows "parent_rel (class_parents terms) = declared_supers terms"
proof -
  let ?cs = "map (\<lambda>t. (t_name t, t_sub_class_of t)) (filter (\<lambda>t. t_kind t = KIND_CLASS) terms)"
  have wf: "wf_dict ?cs" using assms by (simp add: wf_dict_def comp_def distinct_map_filter)
  have get: "dget (class_parents terms) x = dget ?cs x" for x
    by (simp add: class_parents_def dget_dupdate [OF wf] split: option.splits)
  have keys: "fst ` set (class_parents terms) = {t_name t | t. t \<in> set terms \<and> t_kind t = KIND_CLASS}"
    by (auto simp: class_parents_def keys_dupdate image_image)
  have sup: "dget_or (class_parents terms) (t_name t) [] = t_sub_class_of t" if "t \<in> set terms" "t_kind t = KIND_CLASS" for t
    using dget_wf [OF wf, of "t_name t" "t_sub_class_of t"] that by (simp add: dget_or_def get)
  show ?thesis unfolding parent_rel_def declared_supers_def keys using sup by fastforce
qed

text \<open>Construction of a fragment decides its hierarchy: it succeeds exactly when the fragment has
  an identity and a version, is within its bounds, repeats no term, import or rule, and the declared
  superclass relation has no cycle.\<close>

theorem fragment_construction_iff:
  "isOk (mk_fragment fid version imports terms rules schema) \<longleftrightarrow>
     schema = ONTOLOGY_SCHEMA \<and> fid \<noteq> [] \<and> version \<noteq> [] \<and> length terms \<le> MAX_FRAGMENT_TERMS \<and>
     distinct (map t_name terms) \<and> distinct (map im_id imports) \<and> length rules \<le> MAX_RULE_COUNT \<and>
     distinct (map ru_id rules) \<and> acyclic (declared_supers terms)"
  by (auto simp: mk_fragment_def isOk_iff result_simps assert_acyclic_iff parent_rel_declared split: if_splits)

lemma assert_additive_terms:
  assumes "assert_additive f previous = Inr ()" "t \<in> set (f_terms previous)"
  shows "\<exists>t' \<in> set (f_terms f). t_name t' = t_name t \<and> t_kind t' = t_kind t \<and>
    set (t_sub_class_of t) \<subseteq> set (t_sub_class_of t')"
proof -
  have "check_old_term (dupdate [] (map (\<lambda>t. (t_name t, t)) (f_terms f))) t = Inr ()"
    using assms by (auto simp: assert_additive_def result_simps)
  then obtain t' where t': "dget (dupdate [] (map (\<lambda>t. (t_name t, t)) (f_terms f))) (t_name t) = Some t'"
    "t_kind t' = t_kind t" "set (t_sub_class_of t) \<subseteq> set (t_sub_class_of t')"
    by (auto simp: check_old_term_def non_additive_def result_simps split: option.splits)
  have "(t_name t, t') \<in> set (map (\<lambda>t. (t_name t, t)) (f_terms f))"
    using in_dupdate [OF dget_Some_in [OF t'(1)]] by simp
  then show ?thesis using t' by auto
qed

lemma additive_subclasses:
  assumes "assert_additive f previous = Inr ()"
  shows "(subclass_edges (f_terms previous))\<^sup>* \<subseteq> (subclass_edges (f_terms f))\<^sup>*"
proof (rule rtrancl_mono)
  show "subclass_edges (f_terms previous) \<subseteq> subclass_edges (f_terms f)"
  proof (rule subrelI)
    fix x c assume "(x, c) \<in> subclass_edges (f_terms previous)"
    then obtain t where t: "t \<in> set (f_terms previous)" "t_kind t = KIND_CLASS" "c \<in> set (t_sub_class_of t)" "x = t_name t"
      by (auto simp: subclass_edges_def)
    obtain t' where "t' \<in> set (f_terms f)" "t_name t' = t_name t" "t_kind t' = t_kind t"
      "set (t_sub_class_of t) \<subseteq> set (t_sub_class_of t')"
      using assert_additive_terms [OF assms t(1)] by blast
    then have "t' \<in> set (f_terms f) \<and> t_kind t' = KIND_CLASS \<and> c \<in> set (t_sub_class_of t') \<and> x = t_name t'"
      using t by auto
    then show "(x, c) \<in> subclass_edges (f_terms f)"
      unfolding subclass_edges_def by blast
  qed
qed

lemma members_result:
  "\<exists>ms. members g f cls = Inr ms \<and> sorted ms \<and> distinct ms \<and>
     set ms = {s. \<exists>c. (c, cls) \<in> (subclass_edges (f_terms f))\<^sup>* \<and> s \<in> set (subjects_of_type g c)}"
proof -
  obtain ns where ns: "subclasses_of f cls = Some ns" "set ns = {x. (x, cls) \<in> (subclass_edges (f_terms f))\<^sup>*}"
    using subclasses_of_result by blast
  then show ?thesis by (auto simp: members_def usort_def)
qed

lemma assert_declared_additive:
  assumes "assert_additive f previous = Inr ()" "assert_declared previous n (Some k) = Inr t"
    and "distinct (map t_name (f_terms f))"
  shows "isOk (assert_declared f n (Some k))"
proof -
  have t: "find_term previous n = Some t" "t_kind t = k"
    using assms(2) by (auto simp: assert_declared_def result_simps split: option.splits)
  then have "t \<in> set (f_terms previous)" "t_name t = n" by (auto simp: find_term_def find_Some_iff)
  then obtain t' where t': "t' \<in> set (f_terms f)" "t_name t' = n" "t_kind t' = k"
    using assert_additive_terms [OF assms(1)] t(2) by blast
  have "find_term f n \<noteq> None" using t'(1,2) by (auto simp: find_term_def find_None_iff)
  then obtain u where u: "find_term f n = Some u" by auto
  then have "u \<in> set (f_terms f)" "t_name u = n" by (auto simp: find_term_def find_Some_iff)
  then have "u = t'" using t' assms(3) by (metis distinct_map inj_onD)
  then show ?thesis using u t'(3) by (simp add: assert_declared_def)
qed

text \<open>Additive evolution loses nothing: when a fragment passes \<open>assert_additive\<close> against a
  previous one, every class keeps all its declared subclasses, and every component that a query
  found with the previous fragment is found with the new one.\<close>

theorem additive_keeps_discoveries:
  assumes "assert_additive f previous = Inr ()" "distinct (map t_name (f_terms f))"
    and "discover sha g previous u = Inr d"
  shows "\<exists>d'. discover sha g f u = Inr d' \<and> set (d_components d) \<subseteq> set (d_components d')"
proof -
  obtain t ms where d: "u_scope u = gr_scope g" "assert_declared previous (u_target_class u) (Some KIND_CLASS) = Inr t"
    "members g previous (u_target_class u) = Inr ms" "d_components d = filter (matches_query g u) ms"
    using assms(3) by (auto simp: discover_def result_simps)
  obtain t' where t': "assert_declared f (u_target_class u) (Some KIND_CLASS) = Inr t'"
    using assert_declared_additive [OF assms(1) d(2) assms(2)] by (auto simp: isOk_iff)
  obtain ms' where ms': "members g f (u_target_class u) = Inr ms'"
    "set ms' = {s. \<exists>c. (c, u_target_class u) \<in> (subclass_edges (f_terms f))\<^sup>* \<and> s \<in> set (subjects_of_type g c)}"
    using members_result by blast
  have "set ms = {s. \<exists>c. (c, u_target_class u) \<in> (subclass_edges (f_terms previous))\<^sup>* \<and> s \<in> set (subjects_of_type g c)}"
    using members_result [of g previous "u_target_class u"] d(3) by auto
  then have "set ms \<subseteq> set ms'" using ms'(2) additive_subclasses [OF assms(1)] by auto
  then show ?thesis using d t' ms'(1) by (auto simp: discover_def)
qed

definition ex_query :: query where
  "ex_query = \<lparr>u_scope = ''s'', u_target_class = ''Base'', u_requires_capabilities = [], u_input_types = [],
     u_output_types = [], u_schema = QUERY_SCHEMA\<rparr>"

lemma ex_additive: "assert_additive ex_fragment ex_old = Inr ()"
  by code_simp

lemma ex_distinct: "distinct (map t_name (f_terms ex_fragment))"
  by code_simp

lemma ex_old_discovers: "isOk (discover ex_sha ex_graph ex_old ex_query)"
proof -
  have "isOk (assert_declared ex_old (u_target_class ex_query) (Some KIND_CLASS))"
    "u_scope ex_query = gr_scope ex_graph" by (code_simp, code_simp)
  then show ?thesis using members_result [of ex_graph ex_old "u_target_class ex_query"]
    by (auto simp: discover_def isOk_iff)
qed

lemma additive_keeps_discoveries_witness:
  "\<exists>d d'. discover ex_sha ex_graph ex_old ex_query = Inr d \<and> discover ex_sha ex_graph ex_fragment ex_query = Inr d' \<and>
     set (d_components d) \<subseteq> set (d_components d')"
  using ex_old_discovers additive_keeps_discoveries [OF ex_additive ex_distinct] by (auto simp: isOk_iff)

end
