(* ===== verification/Onto_Closure_Props.thy ===== *)
theory Onto_Closure_Props
  imports Onto_Props
begin

text \<open>
  The properties of the gates and of the entailment closure: discovery and shape validation
  against their declarative meaning, the closure against the stratified semantics of its
  rules, the errors it can raise, and the content addresses a hash check lets through.
\<close>

section \<open>Gates\<close>

lemma in_subjects_of_type:
  "s \<in> set (subjects_of_type g c) \<longleftrightarrow> (\<exists>a \<in> set (gr_assertions g). a_s a = s \<and> a_p a = TYPE_P \<and> a_o a = Term c)"
  by (auto simp: subjects_of_type_def usort_def)

definition instance_of :: "graph \<Rightarrow> fragment \<Rightarrow> string \<Rightarrow> string \<Rightarrow> bool" where
  "instance_of g f cls s \<longleftrightarrow>
     (\<exists>a \<in> set (gr_assertions g). \<exists>c. a_s a = s \<and> a_p a = TYPE_P \<and> a_o a = Term c \<and>
        (c, cls) \<in> (subclass_edges (f_terms f))\<^sup>*)"

lemma members_instances:
  "\<exists>ms. members g f cls = Inr ms \<and> sorted ms \<and> distinct ms \<and> set ms = {s. instance_of g f cls s}"
proof -
  have "{s. \<exists>c. (c, cls) \<in> (subclass_edges (f_terms f))\<^sup>* \<and> s \<in> set (subjects_of_type g c)} =
      {s. instance_of g f cls s}"
    by (auto simp: in_subjects_of_type instance_of_def)
  then show ?thesis using members_result [of g f cls] by simp
qed

text \<open>What a requirement of a shape means for one subject.\<close>

definition meets :: "graph \<Rightarrow> string \<Rightarrow> requirement \<Rightarrow> bool" where
  "meets g s q \<longleftrightarrow>
     (let n = int (length (filter (\<lambda>a. a_s a = s \<and> a_p a = q_relation q) (gr_assertions g))) in
      q_min_count q \<le> n \<and> (\<forall>m. q_max_count q = Some m \<longrightarrow> n \<le> m)) \<and>
     (\<forall>a \<in> set (gr_assertions g). a_s a = s \<and> a_p a = q_relation q \<longrightarrow>
        (\<forall>dt. q_datatype q = Some dt \<longrightarrow> (\<exists>v. a_o a = Literal dt v)) \<and>
        (q_allowed q = [] \<or> object_value (a_o a) \<in> set (q_allowed q)))"

definition conforms :: "graph \<Rightarrow> shape \<Rightarrow> string \<Rightarrow> bool" where
  "conforms g h s \<longleftrightarrow> (\<forall>q \<in> set (h_requirements h). meets g s q) \<and>
     (h_closed h \<longrightarrow> (\<forall>a \<in> set (gr_assertions g). a_s a = s \<longrightarrow>
        a_p a = TYPE_P \<or> (\<exists>q \<in> set (h_requirements h). a_p a = q_relation q)))"

lemma object_violations_Nil:
  "object_violations s q o' = [] \<longleftrightarrow>
     (\<forall>dt. q_datatype q = Some dt \<longrightarrow> (\<exists>v. o' = Literal dt v)) \<and> (q_allowed q = [] \<or> object_value o' \<in> set (q_allowed q))"
  by (cases "q_datatype q"; cases o') (auto simp: object_violations_def)

lemma requirement_violations_Nil: "requirement_violations g s q = [] \<longleftrightarrow> meets g s q"
  by (cases "q_max_count q")
    (auto simp: requirement_violations_def meets_def objects_def object_violations_Nil not_less Let_def)

lemma closed_violations_Nil:
  "closed_violations g h s = [] \<longleftrightarrow> (h_closed h \<longrightarrow> (\<forall>a \<in> set (gr_assertions g). a_s a = s \<longrightarrow>
        a_p a = TYPE_P \<or> (\<exists>q \<in> set (h_requirements h). a_p a = q_relation q)))"
proof -
  have "usort xs = [] \<longleftrightarrow> xs = []" for xs :: "string list"
    unfolding usort_def by (metis set_empty set_remdups set_sort)
  then show ?thesis by (auto simp: closed_violations_def filter_empty_conv)
qed

lemma subject_violations_Nil: "subject_violations g h s = [] \<longleftrightarrow> conforms g h s"
  by (auto simp: subject_violations_def conforms_def requirement_violations_Nil closed_violations_Nil)

lemma mapR_unit_iff: "isOk (mapR f xs) \<longleftrightarrow> (\<forall>x \<in> set xs. isOk (f x))"
  by (induction xs) (auto simp: isOk_iff result_simps)

lemma validate_shape_report:
  "isOk (validate_shape g f h) \<longleftrightarrow> isOk (assert_declared f (h_target h) (Some KIND_CLASS)) \<and>
     (\<forall>q \<in> set (h_requirements h). isOk (assert_declared f (q_relation q) (Some KIND_PROPERTY)))"
  "validate_shape g f h = Inr r \<Longrightarrow> sr_ok r \<longleftrightarrow> (\<forall>s. instance_of g f (h_target h) s \<longrightarrow> conforms g h s)"
proof -
  obtain ms where ms: "members g f (h_target h) = Inr ms" "set ms = {s. instance_of g f (h_target h) s}"
    using members_instances by blast
  show "isOk (validate_shape g f h) \<longleftrightarrow> isOk (assert_declared f (h_target h) (Some KIND_CLASS)) \<and>
     (\<forall>q \<in> set (h_requirements h). isOk (assert_declared f (q_relation q) (Some KIND_PROPERTY)))"
    using ms mapR_unit_iff [of "\<lambda>q. assert_declared f (q_relation q) (Some KIND_PROPERTY)" "h_requirements h"]
    by (auto simp: validate_shape_def isOk_iff bindR_Inr_iff Let_def)
  show "sr_ok r \<longleftrightarrow> (\<forall>s. instance_of g f (h_target h) s \<longrightarrow> conforms g h s)" if "validate_shape g f h = Inr r"
  proof -
    have "sr_ok r \<longleftrightarrow> sort_key canonical_bytes (concat (map (subject_violations g h) ms)) = []"
      using that ms(1) by (auto simp: validate_shape_def bindR_Inr_iff Let_def)
    also have "\<dots> \<longleftrightarrow> (\<forall>s \<in> set ms. subject_violations g h s = [])"
      by (metis (no_types, lifting) concat_eq_Nil_conv imageE image_eqI list.set_map mset_sort mset_zero_iff)
    finally show ?thesis using ms(2) by (auto simp: subject_violations_Nil)
  qed
qed

lemma discover_result:
  "isOk (discover sha g f u) \<longleftrightarrow> u_scope u = gr_scope g \<and> isOk (assert_declared f (u_target_class u) (Some KIND_CLASS))"
  "discover sha g f u = Inr d \<Longrightarrow> sorted (d_components d) \<and> distinct (d_components d) \<and>
     d_query_hash d = query_hash sha u \<and>
     set (d_components d) = {s. instance_of g f (u_target_class u) s \<and>
       (\<forall>c \<in> set (u_requires_capabilities u). c \<in> set (literal_values g s (core ''hasCapability''))) \<and>
       (\<forall>t \<in> set (u_input_types u). \<exists>port dt. port \<in> set (port_terms g s (core ''input'')) \<and>
          dt \<in> set (port_types_of g port) \<and> types_compatible t dt) \<and>
       (\<forall>t \<in> set (u_output_types u). \<exists>port dt. port \<in> set (port_terms g s (core ''output'')) \<and>
          dt \<in> set (port_types_of g port) \<and> types_compatible dt t)}"
proof -
  obtain ms where ms: "members g f (u_target_class u) = Inr ms" "sorted ms" "distinct ms"
    "set ms = {s. instance_of g f (u_target_class u) s}"
    using members_instances by blast
  show "isOk (discover sha g f u) \<longleftrightarrow> u_scope u = gr_scope g \<and> isOk (assert_declared f (u_target_class u) (Some KIND_CLASS))"
    using ms(1) by (auto simp: discover_def isOk_iff result_simps)
  show "sorted (d_components d) \<and> distinct (d_components d) \<and> d_query_hash d = query_hash sha u \<and>
     set (d_components d) = {s. instance_of g f (u_target_class u) s \<and>
       (\<forall>c \<in> set (u_requires_capabilities u). c \<in> set (literal_values g s (core ''hasCapability''))) \<and>
       (\<forall>t \<in> set (u_input_types u). \<exists>port dt. port \<in> set (port_terms g s (core ''input'')) \<and>
          dt \<in> set (port_types_of g port) \<and> types_compatible t dt) \<and>
       (\<forall>t \<in> set (u_output_types u). \<exists>port dt. port \<in> set (port_terms g s (core ''output'')) \<and>
          dt \<in> set (port_types_of g port) \<and> types_compatible dt t)}"
    if "discover sha g f u = Inr d"
  proof -
    have d: "d_components d = filter (matches_query g u) ms" "d_query_hash d = query_hash sha u"
      using that ms(1) by (auto simp: discover_def result_simps)
    have "set (filter (matches_query g u) ms) = {s. instance_of g f (u_target_class u) s \<and> matches_query g u s}"
      using ms(4) by auto
    then show ?thesis using ms(2,3) unfolding d
      by (simp add: sorted_wrt_filter matches_query_def accepts_types_def produces_types_def subset_iff Bex_def)
        (rule Collect_cong; blast)
  qed
qed

text \<open>C21: Discovery answers its query: it succeeds exactly when the query is in the scope of the graph
  and its class is declared, and the components it returns are, in order and once each, the
  instances of the class or of a declared subclass that have every required capability and a
  compatible port for every requested input and output type.\<close>

theorem discover_correct:
  "(isOk (discover sha g f u) \<longleftrightarrow> u_scope u = gr_scope g \<and> isOk (assert_declared f (u_target_class u) (Some KIND_CLASS))) \<and>
   (\<forall>d. discover sha g f u = Inr d \<longrightarrow> sorted (d_components d) \<and> distinct (d_components d) \<and>
     d_query_hash d = query_hash sha u \<and>
     set (d_components d) = {s. instance_of g f (u_target_class u) s \<and>
       (\<forall>c \<in> set (u_requires_capabilities u). c \<in> set (literal_values g s (core ''hasCapability''))) \<and>
       (\<forall>t \<in> set (u_input_types u). \<exists>port dt. port \<in> set (port_terms g s (core ''input'')) \<and>
          dt \<in> set (port_types_of g port) \<and> types_compatible t dt) \<and>
       (\<forall>t \<in> set (u_output_types u). \<exists>port dt. port \<in> set (port_terms g s (core ''output'')) \<and>
          dt \<in> set (port_types_of g port) \<and> types_compatible dt t)})"
  using discover_result by blast

lemma discover_correct_witness:
  "\<exists>d. discover ex_sha ex_graph ex_old ex_query = Inr d \<and> sorted (d_components d)"
  using ex_old_discovers discover_correct [of ex_sha ex_graph ex_old ex_query] by (auto simp: isOk_iff)

text \<open>The shape gate decides conformance: it lets a graph pass exactly when the target is a
  declared class, every relation of the shape a declared property, and every instance of the target
  or of a subclass meets the cardinality, datatype and allowed values of each requirement and, for a
  closed shape, has no other relation.\<close>

theorem assert_shape_iff:
  "assert_shape g f h = Inr () \<longleftrightarrow>
     isOk (assert_declared f (h_target h) (Some KIND_CLASS)) \<and>
     (\<forall>q \<in> set (h_requirements h). isOk (assert_declared f (q_relation q) (Some KIND_PROPERTY))) \<and>
     (\<forall>s. instance_of g f (h_target h) s \<longrightarrow> conforms g h s)"
proof -
  have "assert_shape g f h = Inr () \<longleftrightarrow> (\<exists>r. validate_shape g f h = Inr r \<and> sr_ok r)"
    by (auto simp: assert_shape_def result_simps)
  also have "\<dots> \<longleftrightarrow> isOk (validate_shape g f h) \<and> (\<forall>s. instance_of g f (h_target h) s \<longrightarrow> conforms g h s)"
    unfolding isOk_iff using validate_shape_report(2) by blast
  finally show ?thesis by (simp add: validate_shape_report(1))
qed

definition ex_shape :: shape where
  "ex_shape = \<lparr>h_id = ''h'', h_target = ''Base'', h_requirements = [\<lparr>q_relation = ''w'', q_min_count = 1,
     q_max_count = Some 1, q_datatype = Some ''int'', q_allowed = [''3'']\<rparr>], h_closed = True, h_schema = SHAPES_SCHEMA\<rparr>"

lemma ex_shape_conforms: "instance_of ex_graph ex_fragment (h_target ex_shape) s \<Longrightarrow> conforms ex_graph ex_shape s"
proof -
  have as: "gr_assertions ex_graph = [ex_a1, ex_a2] \<or> gr_assertions ex_graph = [ex_a2, ex_a1]" by code_simp
  have "object_value (a_o ex_a2) = ''3''" by code_simp
  then show "instance_of ex_graph ex_fragment (h_target ex_shape) s \<Longrightarrow> conforms ex_graph ex_shape s"
    using as by (auto simp: conforms_def meets_def instance_of_def ex_shape_def ex_a1_def ex_a2_def TYPE_P_def
        CORE_NAMESPACE_def)
qed

lemma assert_shape_iff_witness: "assert_shape ex_graph ex_fragment ex_shape = Inr ()"
proof -
  have "isOk (assert_declared ex_fragment (h_target ex_shape) (Some KIND_CLASS)) \<and>
     (\<forall>q \<in> set (h_requirements ex_shape). isOk (assert_declared ex_fragment (q_relation q) (Some KIND_PROPERTY)))"
    by code_simp
  then show ?thesis using assert_shape_iff [of ex_graph ex_fragment ex_shape] ex_shape_conforms by blast
qed

section \<open>The closure\<close>

text \<open>No error of the fixpoint is other than an ontology error: the values of its bindings are
  canonical texts, which parse.\<close>

definition is_onto :: "onto_error \<Rightarrow> bool" where
  "is_onto e \<longleftrightarrow> (\<exists>k. e = Ontology_Error k)"

lemma is_onto_error [simp]: "is_onto (Ontology_Error k)"
  by (simp add: is_onto_def)

lemma onto_malformed [fails_intros]: "fails_only is_onto (malformed b)"
  by (rule fails_only_rejectR) simp

lemma onto_mk_obj [fails_intros]: "fails_only is_onto (mk_obj o')"
  by (cases o') (auto simp: mk_obj_def check_obj_def intro!: fails_intros)

lemma onto_mk_assertion [fails_intros]: "fails_only is_onto (mk_assertion s p o')"
  by (auto simp: mk_assertion_def intro!: fails_intros)

lemma onto_mk_closure [fails_intros]: "fails_only is_onto (mk_closure pr gh oh as sc)"
  unfolding mk_closure_def by (intro fails_intros) auto

lemma onto_term_facts: "fails_only is_onto (term_facts t)"
  unfolding term_facts_def by (intro fails_intros)

lemma onto_facts [fails_intros]: "fails_only is_onto (ontology_facts f)"
  unfolding ontology_facts_def by (intro fails_intros onto_term_facts)

lemma onto_resolve:
  assumes "bindings_ok b"
  shows "fails_only is_onto (resolve_object p b)"
proof (cases p)
  case (Var n)
  show ?thesis
  proof (cases "dget b n")
    case (Some v)
    then have ok: "gval_ok v" using assms by (auto simp: bindings_ok_def)
    show ?thesis
    proof (cases v)
      case (VLit t w)
      then obtain x where "wf_pyval x" "w = canonical_bytes x" using ok by (auto simp: gval_ok_def)
      then have "json_loads w = Some (json_norm x)" by (simp add: canonical_loads)
      then show ?thesis by (simp add: resolve_object_def Var Some VLit onto_mk_obj)
    qed (simp add: resolve_object_def Var Some onto_mk_obj)
  qed (simp add: resolve_object_def Var)
qed (simp_all add: resolve_object_def onto_mk_obj)

lemma onto_derive: "bindings_ok b \<Longrightarrow> fails_only is_onto (derive h b)"
  by (cases "resolve_subject (at_s h) b") (auto simp: derive_def intro!: fails_intros onto_resolve)

lemma onto_apply_rule:
  assumes "\<forall>a \<in> set facts. assertion_ok a"
  shows "fails_only is_onto (apply_rule facts r c)"
  unfolding apply_rule_def
  using rule_binding_parts(1) [OF _ assms] by (intro fails_intros onto_derive) auto

lemma onto_pass:
  assumes "coll_ok c"
  shows "fails_only is_onto (closure_pass rules c)"
  unfolding closure_pass_def
  by (intro fails_intros onto_apply_rule) (use assms in \<open>auto simp: coll_ok_def\<close>)

text \<open>A stratum ends for one of three reasons: its fixpoint, the bound, an ontology error.\<close>

lemma onto_level:
  assumes nb: "negation_below rules" and h: "heads_ok rules" and c: "coll_ok c" "length c \<le> MAX_CLOSURE_ASSERTIONS"
  shows "fails_only is_onto (close_level rules c)"
proof -
  let ?b = "\<lambda>p. case p of Running _ \<Rightarrow> True | _ \<Rightarrow> False"
  let ?P = "\<lambda>p. case p of Running d \<Rightarrow> coll_ok d | Fixpoint d \<Rightarrow> True | Stopped e \<Rightarrow> is_onto e"
  have step: "?P (level_step rules p)" if "?P p" "?b p" for p
  proof -
    have "\<exists>d. p = Running d \<and> coll_ok d" using that by (cases p) auto
    then obtain d where p: "p = Running d" "coll_ok d" by blast
    show ?thesis
    proof (cases "closure_pass rules d")
      case (Inl e)
      then show ?thesis using fails_onlyD [OF onto_pass [OF p(2)]] by (simp add: p level_step_def)
    next
      case (Inr d')
      then show ?thesis using closure_pass_result [OF Inr p(2) h] by (simp add: p level_step_def)
    qed
  qed
  have end_state: "?P q" if "while_option ?b (level_step rules) (Running c) = Some q" for q
    by (rule while_option_rule [of ?P ?b "level_step rules", OF _ that]) (use step c(1) in auto)
  show ?thesis
  proof (cases "close_level rules c")
    case (Inl e)
    then have "while_option ?b (level_step rules) (Running c) = Some (Stopped e)"
      using close_level_result [OF nb h c] by auto
    then show ?thesis using end_state Inl by auto
  qed simp
qed

lemma onto_levels:
  assumes st: "stratification rules st" and h: "heads_ok rules"
    and c: "coll_ok c" "length c \<le> MAX_CLOSURE_ASSERTIONS"
  shows "fails_only is_onto (foldR (\<lambda>level. close_level (level_rules rules st level)) ls c)"
  using c
proof (induction ls arbitrary: c)
  case (Cons l ls)
  note lv = level_negation_below [OF st, of l] level_heads_ok [OF h, of st l] Cons.prems
  show ?case
    unfolding foldR.simps
  proof (rule fails_only_bindR [OF onto_level [OF lv]])
    fix c' assume "close_level (level_rules rules st l) c = Inr c'"
    then have "coll_ok c'" "length c' \<le> MAX_CLOSURE_ASSERTIONS"
      using close_level_result [OF lv] by auto
    then show "fails_only is_onto (foldR (\<lambda>level. close_level (level_rules rules st level)) ls c')"
      by (rule Cons.IH)
  qed
qed simp

lemma onto_close_rules:
  assumes "heads_ok rules" "coll_ok c" "length c \<le> MAX_CLOSURE_ASSERTIONS"
  shows "fails_only is_onto (close_rules rules c)"
  unfolding close_rules_def Let_def
proof (rule fails_only_bindR)
  show "fails_only is_onto (stratify rules (closure_predicates rules (map snd c)))"
    by (simp add: stratify_def split: option.splits)
qed (rule onto_levels [OF stratify_sound assms])

text \<open>C4: The closure is the stratified consequence of its inputs: when \<open>compute_closure\<close> returns, the
  rules have a stratification and the closure holds exactly the triples of the iterated least
  fixpoint over the graph and the declarations of the ontology; it contains them and every
  instance of a rule whose body it satisfies, negation read in the closure itself.\<close>

theorem closure_correct:
  assumes "compute_closure sha g f = Inr cl" "\<forall>a \<in> set (gr_assertions g). assertion_ok a"
    and "\<forall>r \<in> set (f_rules f). rule_ok r"
  shows "\<exists>facts st n. ontology_facts f = Inr facts \<and> stratification (f_rules f) st \<and>
     triple_of ` set (c_assertions cl) =
       strata (f_rules f) st (triple_of ` set (gr_assertions g) \<union> triple_of ` set facts) n \<and>
     triple_of ` set (gr_assertions g) \<union> triple_of ` set facts \<subseteq> triple_of ` set (c_assertions cl) \<and>
     (\<forall>r \<in> set (f_rules f). \<forall>\<sigma> t.
        body_holds r (triple_of ` set (c_assertions cl)) (triple_of ` set (c_assertions cl)) \<sigma> \<longrightarrow>
        head_triple (ru_head r) \<sigma> = Some t \<longrightarrow> t \<in> triple_of ` set (c_assertions cl))"
proof -
  have h: "heads_ok (f_rules f)" using assms(3) by (simp add: heads_ok_def rule_ok_def)
  obtain facts st n where c: "ontology_facts f = Inr facts" "stratification (f_rules f) st"
    "\<forall>r \<in> set (f_rules f). st (at_p (ru_head r)) < n"
    "triple_of ` set (c_assertions cl) =
      strata (f_rules f) st (triple_of ` set (gr_assertions g) \<union> triple_of ` set facts) n"
    using compute_closure_result [OF assms(1,2) h] by blast
  have "triple_of ` set (gr_assertions g) \<union> triple_of ` set facts \<subseteq> triple_of ` set (c_assertions cl)"
    unfolding c(4) using strata_mono [of 0 n] by simp
  then show ?thesis using c strata_model [OF c(2)] by metis
qed

definition ex_step_rule :: rule where
  "ex_step_rule = \<lparr>ru_id = ''r'', ru_head = \<lparr>at_s = Var ''x'', at_p = ''q'', at_o = Var ''y'', at_negated = False\<rparr>,
     ru_body = [\<lparr>at_s = Var ''x'', at_p = ''p'', at_o = Var ''y'', at_negated = False\<rparr>], ru_schema = RULES_SCHEMA\<rparr>"

definition ex_step_fragment :: fragment where
  "ex_step_fragment = \<lparr>f_id = ''o'', f_version = ''1'', f_imports = [], f_terms = [], f_rules = [ex_step_rule],
     f_schema = ONTOLOGY_SCHEMA\<rparr>"

definition ex_p :: assertion where "ex_p = \<lparr>a_s = ''a'', a_p = ''p'', a_o = Term ''b''\<rparr>"
definition ex_q :: assertion where "ex_q = \<lparr>a_s = ''a'', a_p = ''q'', a_o = Term ''b''\<rparr>"

definition ex_step_graph :: graph where
  "ex_step_graph = \<lparr>gr_scope = ''s'', gr_assertions = [ex_p], gr_sources = [], gr_schema = GRAPH_SCHEMA\<rparr>"

lemma close_level_step:
  assumes "closure_pass rules c = Inr c'" "length c' \<noteq> length c" "length c' \<le> MAX_CLOSURE_ASSERTIONS"
  shows "close_level rules c = close_level rules c'"
  using assms by (simp add: close_level_def while_option_unfold [of _ _ "Running c"] level_step_def)

lemma close_level_fixpoint:
  assumes "closure_pass rules c = Inr c"
  shows "close_level rules c = Inr c"
  using assms by (simp add: close_level_def while_option_unfold level_step_def)

definition ex_base :: collection where "ex_base = [(assertion_key ex_p, ex_p)]"
definition ex_done :: collection where "ex_done = [(assertion_key ex_p, ex_p), (assertion_key ex_q, ex_q)]"

lemma ex_passes: "closure_pass [ex_step_rule] ex_base = Inr ex_done" "closure_pass [ex_step_rule] ex_done = Inr ex_done"
  by (code_simp, code_simp)

lemma ex_closes: "\<exists>cl. compute_closure ex_sha ex_step_graph ex_step_fragment = Inr cl"
proof -
  have base: "base_collection [ex_p] = ex_base" by code_simp
  have "MAX_CLOSURE_ASSERTIONS \<ge> 2" by (simp add: MAX_CLOSURE_ASSERTIONS_def)
  then have "close_level [ex_step_rule] ex_base = Inr ex_done"
    using close_level_step [OF ex_passes(1)] close_level_fixpoint [OF ex_passes(2)] by (simp add: ex_base_def ex_done_def)
  moreover have "stratify [ex_step_rule] ps = Inr (\<lambda>_. 0)" for ps
    by (simp add: stratify_def raise_stratum_def required_stratum_def ex_step_rule_def)
  ultimately have close: "close_rules [ex_step_rule] ex_base = Inr ex_done"
    by (simp add: close_rules_def level_rules_def image_constant_conv closure_predicates_def)
  have "length (map snd (sort_key fst ex_done)) = length ex_done" by simp
  also have "\<dots> = 2" by (simp add: ex_done_def)
  finally have "length (canonical_assertions (map snd (sort_key fst ex_done))) \<le> 2"
    using length_canonical [of "map snd (sort_key fst ex_done)"] by (simp only:)
  then have "length (canonical_assertions (map snd (sort_key fst ex_done))) \<le> MAX_CLOSURE_ASSERTIONS"
    by (simp add: MAX_CLOSURE_ASSERTIONS_def)
  moreover have "hex64 (ex_sha x)" for x
    by (simp add: hex64_def ex_sha_def is_hexl_def hexl_chars_def list_all_iff)
  ultimately show ?thesis
    using base close
    by (simp add: compute_closure_def ontology_facts_def ex_step_graph_def ex_step_fragment_def mk_closure_def
        graph_hash_def ontology_hash_def ex_base_def MAX_CLOSURE_ASSERTIONS_def)
qed

lemma ex_step_ok: "\<forall>a \<in> set (gr_assertions ex_step_graph). assertion_ok a" "\<forall>r \<in> set (f_rules ex_step_fragment). rule_ok r"
  by (simp_all add: ex_step_graph_def ex_p_def assertion_ok_def obj_ok_def ex_step_fragment_def ex_step_rule_def
      rule_ok_def atom_ok_def pattern_ok_def MAX_RULE_BODY_def atom_variables_def positive_variables_def pattern_variables_def)

lemma closure_correct_witness:
  "\<exists>cl. compute_closure ex_sha ex_step_graph ex_step_fragment = Inr cl \<and>
     triple_of ` set (gr_assertions ex_step_graph) \<subseteq> triple_of ` set (c_assertions cl)"
  using ex_closes closure_correct [OF _ ex_step_ok] by (metis le_sup_iff)

text \<open>The closure fails only with an error of the ontology: for well-formed assertions and rules every
  fixpoint loop ends, every canonical literal a rule binds parses again, and what is raised is
  \<open>OntologyError\<close>.\<close>

theorem closure_errors:
  assumes "compute_closure sha g f = Inl e" "\<forall>a \<in> set (gr_assertions g). assertion_ok a"
    and "\<forall>r \<in> set (f_rules f). rule_ok r"
  shows "\<exists>k. e = Ontology_Error k"
proof -
  have h: "heads_ok (f_rules f)" using assms(3) by (simp add: heads_ok_def rule_ok_def)
  have "fails_only is_onto (compute_closure sha g f)"
    unfolding compute_closure_def Let_def
  proof (rule fails_only_bindR [OF onto_facts])
    fix facts assume f: "ontology_facts f = Inr facts"
    let ?c = "base_collection (gr_assertions g @ facts)"
    have c: "coll_ok ?c" using base_collection_result ontology_facts_ok [OF f] assms(2) by (simp add: ball_Un)
    show "fails_only is_onto (thenR (rejectR (MAX_CLOSURE_ASSERTIONS < length ?c) (Ontology_Error Closure_Overflow))
         (bindR (close_rules (f_rules f) ?c) (\<lambda>c'. mk_closure (f_id f @ CHR ''@'' # f_version f) (graph_hash sha g)
            (ontology_hash sha f) (map snd (sort_key fst c')) CLOSURE_SCHEMA)))"
    proof (cases "MAX_CLOSURE_ASSERTIONS < length ?c")
      case False
      then have "fails_only is_onto (close_rules (f_rules f) ?c)" using onto_close_rules [OF h c] by simp
      then have "fails_only is_onto (bindR (close_rules (f_rules f) ?c)
          (\<lambda>c'. mk_closure (f_id f @ CHR ''@'' # f_version f) (graph_hash sha g)
            (ontology_hash sha f) (map snd (sort_key fst c')) CLOSURE_SCHEMA))"
        by (rule fails_only_bindR) (rule onto_mk_closure)
      then show ?thesis using False by simp
    qed simp
  qed
  from fails_onlyD [OF this assms(1)] show ?thesis by (simp add: is_onto_def)
qed

definition ex_bad_fragment :: fragment where
  "ex_bad_fragment = ex_step_fragment\<lparr>f_terms := [\<lparr>t_kind = KIND_CLASS, t_name = [], t_sub_class_of = [], t_domain = [],
     t_range = []\<rparr>]\<rparr>"

lemma closure_errors_witness:
  "\<exists>e k. compute_closure ex_sha ex_step_graph ex_bad_fragment = Inl e \<and> e = Ontology_Error k"
proof -
  have "\<exists>e. compute_closure ex_sha ex_step_graph ex_bad_fragment = Inl e"
    by (simp add: compute_closure_def ontology_facts_def ex_bad_fragment_def term_facts_def mk_assertion_def)
  moreover have "f_rules ex_bad_fragment = f_rules ex_step_fragment" by (simp add: ex_bad_fragment_def)
  ultimately show ?thesis using closure_errors [of ex_sha ex_step_graph ex_bad_fragment] ex_step_ok by metis
qed

text \<open>The hash check of an import reads a pattern that ends in \<open>$\<close>: it accepts a hash followed by a
  newline, which the parser of a closure rejects, so the declared 64 characters are not enforced.\<close>

theorem import_hash_accepts_newline:
  assumes "length h = 64" "list_all is_hexl h" "i \<noteq> []" "v \<noteq> []"
  shows "mk_import i v (h @ [newline]) = Inr \<lparr>im_id = i, im_version = v, im_hash = h @ [newline]\<rparr> \<and>
    mk_closure p (h @ [newline]) oh as CLOSURE_SCHEMA = Inl (Ontology_Error Malformed_Document)"
proof -
  have "re_hex 64 (h @ [newline])" using assms(1,2) re_hex_iff by blast
  then have "mk_import i v (h @ [newline]) = Inr \<lparr>im_id = i, im_version = v, im_hash = h @ [newline]\<rparr>"
    using assms(3,4) by (simp add: mk_import_def)
  moreover have "mk_closure p (h @ [newline]) oh as CLOSURE_SCHEMA = Inl (Ontology_Error Malformed_Document)"
    using assms(1) by (cases "p = []") (simp_all add: mk_closure_def hex64_def)
  ultimately show ?thesis by blast
qed

lemma import_hash_accepts_newline_witness:
  "isOk (mk_import ''o'' ''1'' (replicate 64 CHR ''0'' @ [newline]))"
  using import_hash_accepts_newline [of "replicate 64 CHR ''0''" "''o''" "''1''"]
  by (simp add: is_hexl_def hexl_chars_def list_all_iff)

end
