(* ===== verification/Cpm.thy ===== *)
theory Cpm
  imports Network Py_Values
begin

text \<open>
  \<open>cbp/critical_path.py\<close>: the critical path method over a network of activities. The forward
  and backward passes are folds over the topological order of Kahn's algorithm (the
  interpretation \<open>ready\<close> of its contract), and the critical chain is a dynamic program over the
  zero-slack activities. The code computes with \<open>int | float\<close>; its functions are therefore written
  once for any type of numbers, and \<open>analyse_cpm\<close> is their instance at \<open>pynum\<close>, the integers and
  doubles of Python.
\<close>

section \<open>The numbers of Python\<close>

text \<open>An integer, the double \<open>m * 2 ^ e\<close> (normal and subnormal ones, with \<open>\<bar>m\<bar> < 2 ^ 53\<close> and
  \<open>- 1074 \<le> e \<le> 971\<close>; the sign of a zero is not kept), the infinities (\<open>True\<close> the positive one) and
  NaN. \<open>Overflow\<close> is no value of Python: it stands for the \<open>OverflowError\<close> of converting an integer
  beyond the doubles, and the analysis raises it where one was computed.\<close>

datatype pynum = Integer int | Float int int | Infinite bool | NaN | Overflow

text \<open>Rounding \<open>m * 2 ^ e\<close> to 53 bits, half to even. A sum of doubles that is subnormal is exact.\<close>

definition float_of :: "int \<Rightarrow> int \<Rightarrow> pynum" where
  "float_of m e = (let r = round53 (nat \<bar>m\<bar>) in
     if 1024 < int (bit_length r) + e then Infinite (0 < m) else Float (if m < 0 then - int r else int r) e)"

definition to_float :: "pynum \<Rightarrow> pynum" where
  "to_float x = (case x of Integer i \<Rightarrow> (case float_of i 0 of Infinite _ \<Rightarrow> Overflow | f \<Rightarrow> f) | _ \<Rightarrow> x)"

fun float_add :: "pynum \<Rightarrow> pynum \<Rightarrow> pynum" where
  "float_add (Float m e) (Float n f) = (let k = min e f in float_of (m * 2 ^ nat (e - k) + n * 2 ^ nat (f - k)) k)"
| "float_add Overflow y = Overflow"
| "float_add x Overflow = Overflow"
| "float_add NaN y = NaN"
| "float_add x NaN = NaN"
| "float_add (Infinite a) (Infinite b) = (if a = b then Infinite a else NaN)"
| "float_add (Infinite a) y = Infinite a"
| "float_add x (Infinite b) = Infinite b"
| "float_add x y = Overflow"

definition float_neg :: "pynum \<Rightarrow> pynum" where
  "float_neg x = (case x of Float m e \<Rightarrow> Float (- m) e | Infinite a \<Rightarrow> Infinite (\<not> a) | _ \<Rightarrow> x)"

definition num_add :: "pynum \<Rightarrow> pynum \<Rightarrow> pynum" where
  "num_add x y = (case (x, y) of (Integer i, Integer j) \<Rightarrow> Integer (i + j) | _ \<Rightarrow> float_add (to_float x) (to_float y))"

definition num_sub :: "pynum \<Rightarrow> pynum \<Rightarrow> pynum" where
  "num_sub x y = (case (x, y) of (Integer i, Integer j) \<Rightarrow> Integer (i - j) | _ \<Rightarrow> float_add (to_float x) (float_neg (to_float y)))"

text \<open>Comparisons are exact, also between an integer and a double, and false with NaN.\<close>

fun dyadic :: "pynum \<Rightarrow> int \<times> int" where
  "dyadic (Integer i) = (i, 0)"
| "dyadic (Float m e) = (m, e)"
| "dyadic x = (0, 0)"

definition dyadic_le :: "int \<times> int \<Rightarrow> int \<times> int \<Rightarrow> bool" where
  "dyadic_le x y = (case (x, y) of ((m, e), (n, f)) \<Rightarrow>
     let k = min e f in m * 2 ^ nat (e - k) \<le> n * 2 ^ nat (f - k))"

fun num_le :: "pynum \<Rightarrow> pynum \<Rightarrow> bool" where
  "num_le x Overflow = True"
| "num_le Overflow y = False"
| "num_le NaN y = False"
| "num_le x NaN = False"
| "num_le (Infinite a) (Infinite b) = (a \<longrightarrow> b)"
| "num_le (Infinite a) y = (\<not> a)"
| "num_le x (Infinite b) = b"
| "num_le x y = dyadic_le (dyadic x) (dyadic y)"

instantiation pynum :: "{zero, plus, minus, ord}"
begin

definition zero_pynum :: pynum where "0 = Integer 0"
definition plus_pynum :: "pynum \<Rightarrow> pynum \<Rightarrow> pynum" where "x + y = num_add x y"
definition minus_pynum :: "pynum \<Rightarrow> pynum \<Rightarrow> pynum" where "x - y = num_sub x y"
definition less_eq_pynum :: "pynum \<Rightarrow> pynum \<Rightarrow> bool" where "x \<le> y \<longleftrightarrow> num_le x y"
definition less_pynum :: "pynum \<Rightarrow> pynum \<Rightarrow> bool" where "x < y \<longleftrightarrow> num_le x y \<and> \<not> num_le y x"

instance ..

end

text \<open>\<open>==\<close>: with NaN it is false, also between a NaN and itself.\<close>

definition num_eq :: "'n::ord \<Rightarrow> 'n \<Rightarrow> bool" where
  "num_eq x y \<longleftrightarrow> x \<le> y \<and> y \<le> x"

section \<open>Model\<close>

record 'n activity =
  av_id :: string
  av_duration :: 'n
  av_deps :: "string list"
  av_name :: "string option"

datatype cpm_error = Cpm_Error | Cpm_Overflow | Cpm_Diverges

record 'n cpm_analysis =
  cp_critical_path :: "string list"
  cp_duration :: 'n
  cp_early_start :: "'n dict"
  cp_early_finish :: "'n dict"
  cp_late_start :: "'n dict"
  cp_late_finish :: "'n dict"
  cp_slack :: "'n dict"
  cp_on_critical :: "bool dict"

text \<open>\<open>num\<close> gives a number as a JSON value; the text of a double is the standard library's.\<close>

definition num_dict :: "('n \<Rightarrow> pyval) \<Rightarrow> 'n dict \<Rightarrow> pyval" where
  "num_dict num d = PDict (map (\<lambda>kv. (fst kv, num (snd kv))) d)"

definition cpm_to_dict :: "('n \<Rightarrow> pyval) \<Rightarrow> 'n cpm_analysis \<Rightarrow> pyval" where
  "cpm_to_dict num a = PDict [(''critical_path'', PStrs (cp_critical_path a)), (''duration'', num (cp_duration a)),
     (''early_start'', num_dict num (cp_early_start a)), (''early_finish'', num_dict num (cp_early_finish a)),
     (''late_start'', num_dict num (cp_late_start a)), (''late_finish'', num_dict num (cp_late_finish a)),
     (''slack'', num_dict num (cp_slack a)),
     (''on_critical'', PDict (map (\<lambda>kv. (fst kv, PBool (snd kv))) (cp_on_critical a)))]"

definition add_activity :: "'n::{zero, ord} activity \<Rightarrow> 'n activity dict \<Rightarrow> cpm_error + 'n activity dict" where
  "add_activity n by_id =
     thenR (rejectR (dget by_id (av_id n) \<noteq> None) Cpm_Error)
       (thenR (rejectR (av_duration n \<le> 0) Cpm_Error) (Inr (dput (av_id n) n by_id)))"

definition check_deps :: "'n activity dict \<Rightarrow> 'n activity \<Rightarrow> cpm_error + unit" where
  "check_deps by_id n =
     iterR (\<lambda>d. thenR (rejectR (d = av_id n) Cpm_Error) (rejectR (dget by_id d = None) Cpm_Error)) (av_deps n)"

definition dep_edges :: "'n activity list \<Rightarrow> (string \<times> string) list" where
  "dep_edges nodes = concat (map (\<lambda>n. map (\<lambda>d. (d, av_id n)) (av_deps n)) nodes)"

definition topo_sort :: "'n activity list \<Rightarrow> 'n activity dict \<Rightarrow> cpm_error + string list" where
  "topo_sort nodes by_id =
     (let es = dep_edges nodes; d = indegrees es; q = sort (filter (\<lambda>i. d i = 0) (dkeys by_id))
      in (case kahn_run (\<lambda>q. q = []) ready_pop ready_push (sorted_adjacency es) (d, q, []) of
            None \<Rightarrow> Inl Cpm_Diverges
          | Some (_, _, order) \<Rightarrow> thenR (rejectR (length order \<noteq> length by_id) Cpm_Error) (Inr order)))"

text \<open>\<open>max(values, default=v)\<close> and \<open>min(values, default=v)\<close>; the lookups of an activity in \<open>by_id\<close>,
  which every use makes with an identifier of the network.\<close>

definition max_default :: "'n::ord \<Rightarrow> 'n list \<Rightarrow> 'n" where
  "max_default v xs = (case xs of [] \<Rightarrow> v | x # r \<Rightarrow> foldl (\<lambda>b y. if b < y then y else b) x r)"

definition min_default :: "'n::ord \<Rightarrow> 'n list \<Rightarrow> 'n" where
  "min_default v xs = (case xs of [] \<Rightarrow> v | x # r \<Rightarrow> foldl (\<lambda>b y. if y < b then y else b) x r)"

definition duration_of :: "'n::zero activity dict \<Rightarrow> string \<Rightarrow> 'n" where
  "duration_of by_id i = (case dget by_id i of None \<Rightarrow> 0 | Some n \<Rightarrow> av_duration n)"

definition deps_of :: "'n activity dict \<Rightarrow> string \<Rightarrow> string list" where
  "deps_of by_id i = (case dget by_id i of None \<Rightarrow> [] | Some n \<Rightarrow> av_deps n)"

type_synonym 'n times = "(string \<Rightarrow> 'n) \<times> (string \<Rightarrow> 'n)"

definition forward_step :: "'n::{zero, plus, ord} activity dict \<Rightarrow> 'n times \<Rightarrow> string \<Rightarrow> 'n times" where
  "forward_step by_id t nid =
     (case t of (es, ef) \<Rightarrow>
        let start = max_default 0 (map ef (deps_of by_id nid))
        in (es(nid := start), ef(nid := start + duration_of by_id nid)))"

definition backward_step ::
  "'n::{zero, minus, ord} activity dict \<Rightarrow> (string \<Rightarrow> string list) \<Rightarrow> 'n \<Rightarrow> 'n times \<Rightarrow> string \<Rightarrow> 'n times"
 where
  "backward_step by_id dependents project_end t nid =
     (case t of (lf, ls) \<Rightarrow>
        let e = min_default project_end (map ls (dependents nid))
        in (lf(nid := e), ls(nid := e - duration_of by_id nid)))"

text \<open>The dynamic program: the length of the longest critical chain that ends at an activity, and
  its predecessor on it (the last one in the order of identifiers that attains it).\<close>

definition pred_step ::
  "(string \<Rightarrow> bool) \<Rightarrow> (string \<Rightarrow> 'n::{plus, ord}) \<Rightarrow> (string \<Rightarrow> 'n) \<Rightarrow> 'n \<Rightarrow> 'n \<Rightarrow> 'n \<times> string option \<Rightarrow> string \<Rightarrow>
   'n \<times> string option"
where
  "pred_step on ef len start dur b d =
     (if on d \<and> num_eq (ef d) start \<and> fst b \<le> len d + dur then (len d + dur, Some d) else b)"

definition chain_step ::
  "'n::{zero, plus, ord} activity dict \<Rightarrow> (string \<Rightarrow> 'n) \<Rightarrow> (string \<Rightarrow> 'n) \<Rightarrow> (string \<Rightarrow> bool) \<Rightarrow>
   (string \<Rightarrow> 'n) \<times> (string \<Rightarrow> string option) \<Rightarrow> string \<Rightarrow> (string \<Rightarrow> 'n) \<times> (string \<Rightarrow> string option)"
where
  "chain_step by_id es ef on s nid =
     (case s of (len, prev) \<Rightarrow>
        if \<not> on nid then (len, prev)
        else (case foldl (pred_step on ef len (es nid) (duration_of by_id nid)) (duration_of by_id nid, None)
                (sort (deps_of by_id nid)) of
                (best_len, best_pred) \<Rightarrow> (len(nid := best_len), prev(nid := best_pred))))"

fun follow :: "nat \<Rightarrow> (string \<Rightarrow> string option) \<Rightarrow> string \<Rightarrow> string list option" where
  "follow 0 prev cur = None"
| "follow (Suc fuel) prev cur =
     (case prev cur of None \<Rightarrow> Some [cur] | Some p \<Rightarrow> map_option (\<lambda>chain. chain @ [cur]) (follow fuel prev p))"

definition first_max :: "(string \<Rightarrow> 'n::ord) \<Rightarrow> string list \<Rightarrow> string" where
  "first_max len keys = foldl (\<lambda>b k. if len b < len k then k else b) (hd keys) (tl keys)"

text \<open>The numbers that end the analysis with an \<open>OverflowError\<close> are a parameter of the generic
  functions: for the integers there are none.\<close>

definition computed :: "('n \<Rightarrow> bool) \<Rightarrow> 'n list \<Rightarrow> cpm_error + unit" where
  "computed bad xs = rejectR (list_ex bad xs) Cpm_Overflow"

definition critical_chain ::
  "('n \<Rightarrow> bool) \<Rightarrow> 'n::{zero, plus, ord} activity dict \<Rightarrow> string list \<Rightarrow> (string \<Rightarrow> 'n) \<Rightarrow> (string \<Rightarrow> 'n) \<Rightarrow>
   (string \<Rightarrow> bool) \<Rightarrow> cpm_error + string list"
where
  "critical_chain bad by_id order es ef on =
     (case foldl (chain_step by_id es ef on) (\<lambda>_. 0, \<lambda>_. None) order of
        (len, prev) \<Rightarrow> thenR (computed bad (map len (filter on order)))
          (if filter on order = [] then Inr []
           else (case follow (Suc (length order)) prev (first_max len (filter on order)) of
                   None \<Rightarrow> Inl Cpm_Diverges | Some chain \<Rightarrow> Inr chain)))"

definition analyse ::
  "('n \<Rightarrow> bool) \<Rightarrow> 'n::{zero, plus, minus, ord} activity list \<Rightarrow> cpm_error + 'n cpm_analysis"
where
  "analyse bad nodes =
     bindR (foldR add_activity nodes []) (\<lambda>by_id.
     thenR (iterR (check_deps by_id) nodes)
     (bindR (topo_sort nodes by_id) (\<lambda>order.
        let (es, ef) = foldl (forward_step by_id) (\<lambda>_. 0, \<lambda>_. 0) order;
            project_end = max_default 0 (map ef order);
            dependents = adjacency (dep_edges nodes);
            (lf, ls) = foldl (backward_step by_id dependents project_end) (\<lambda>_. 0, \<lambda>_. 0) (rev order);
            slack = (\<lambda>i. ls i - es i); on = (\<lambda>i. num_eq (slack i) 0);
            table = (\<lambda>f. map (\<lambda>i. (i, f i)) order)
        in thenR (computed bad (map ef order @ map ls order @ map slack order))
           (bindR (critical_chain bad by_id order es ef on) (\<lambda>critical.
             Inr \<lparr>cp_critical_path = critical, cp_duration = project_end, cp_early_start = table es,
               cp_early_finish = table ef, cp_late_start = map (\<lambda>i. (i, ls i)) (rev order),
               cp_late_finish = map (\<lambda>i. (i, lf i)) (rev order), cp_slack = table slack,
               cp_on_critical = map (\<lambda>i. (i, on i)) order\<rparr>)))))"

definition analyse_cpm :: "pynum activity list \<Rightarrow> cpm_error + pynum cpm_analysis" where
  "analyse_cpm = analyse (\<lambda>x. x = Overflow)"

end
