(* ===== verification/Cpm_Schedule.thy ===== *)
theory Cpm_Schedule
  imports Cpm
begin

text \<open>
  The laws of a schedule over the integers, as a locale: from the equations of the forward and backward passes,
  the project duration is the greatest weight of a chain of dependencies, slack measures the
  chains through an activity, and the dynamic program rebuilds a longest chain.
\<close>

section \<open>Integers\<close>

lemma num_eq_int [simp]: "num_eq (x :: int) y \<longleftrightarrow> x = y"
  by (auto simp: num_eq_def)

lemma computed_int [simp]: "computed (\<lambda>_. False) xs = Inr ()"
  by (simp add: computed_def rejectR_def list_ex_iff)

section \<open>Tables filled along an order\<close>

definition ordered :: "(string \<Rightarrow> string list) \<Rightarrow> string list \<Rightarrow> bool" where
  "ordered nb os \<longleftrightarrow> distinct os \<and> (\<forall>xs x ys. os = xs @ x # ys \<longrightarrow> set (nb x) \<subseteq> set xs)"

lemma ordered_snoc: "ordered nb (os @ [x]) \<longleftrightarrow> ordered nb os \<and> x \<notin> set os \<and> set (nb x) \<subseteq> set os"
proof
  assume o: "ordered nb (os @ [x])"
  have "set (nb y) \<subseteq> set xs" if "os = xs @ y # ys" for xs y ys
    using o that unfolding ordered_def by simp
  then show "ordered nb os \<and> x \<notin> set os \<and> set (nb x) \<subseteq> set os"
    using o unfolding ordered_def by simp
next
  assume o: "ordered nb os \<and> x \<notin> set os \<and> set (nb x) \<subseteq> set os"
  have "set (nb y) \<subseteq> set xs" if eq: "os @ [x] = xs @ y # ys" for xs y ys
  proof (cases ys rule: rev_cases)
    case Nil
    then show ?thesis using o eq by simp
  next
    case (snoc zs z)
    then have "os = xs @ y # zs" using eq by simp
    then show ?thesis using o unfolding ordered_def by blast
  qed
  then show "ordered nb (os @ [x])" using o unfolding ordered_def by simp
qed

lemma table_result:
  assumes step: "\<And>a b x. step (a, b) x = (a(x := F x (map b (nb x))), b(x := G x (map b (nb x))))"
    and "ordered nb os" "foldl step (a0, b0) os = (a, b)"
  shows "\<forall>x \<in> set os. a x = F x (map b (nb x)) \<and> b x = G x (map b (nb x))"
  using assms(2,3)
proof (induction os arbitrary: a b rule: rev_induct)
  case (snoc x os)
  obtain a1 b1 where ab: "foldl step (a0, b0) os = (a1, b1)" by force
  have o: "ordered nb os" "x \<notin> set os" "set (nb x) \<subseteq> set os" using snoc.prems(1) by (auto simp: ordered_snoc)
  have new: "a = a1(x := F x (map b1 (nb x)))" "b = b1(x := G x (map b1 (nb x)))"
    using snoc.prems(2) by (simp_all add: ab step)
  have keep: "map b (nb y) = map b1 (nb y)" if "set (nb y) \<subseteq> set os" for y
    using that o(2) by (auto simp: new)
  have sub: "set (nb y) \<subseteq> set os" if y: "y \<in> set os" for y
  proof -
    obtain xs ys where "os = xs @ y # ys" using y by (meson split_list)
    then show ?thesis using o(1) unfolding ordered_def by fastforce
  qed
  show ?case
  proof
    fix y assume y: "y \<in> set (os @ [x])"
    show "a y = F y (map b (nb y)) \<and> b y = G y (map b (nb y))"
    proof (cases "y = x")
      case True
      have "a x = F x (map b1 (nb x))" "b x = G x (map b1 (nb x))" by (simp_all add: new)
      then show ?thesis unfolding True keep [OF o(3)] by simp
    next
      case False
      then have y': "y \<in> set os" using y by simp
      have "a y = a1 y" "b y = b1 y" using False by (simp_all add: new)
      then show ?thesis using snoc.IH [OF o(1) ab] y' unfolding keep [OF sub [OF y']] by simp
    qed
  qed
qed simp

lemma pick_int:
  "foldl (\<lambda>b y. if b < y then y else b) x xs = foldl max (x :: int) xs"
  "foldl (\<lambda>b y. if y < b then y else b) x xs = foldl min (x :: int) xs"
  by (induction xs arbitrary: x) (simp_all add: max_def min_def)

lemma max_default_ge: "(x :: int) \<in> set xs \<Longrightarrow> x \<le> max_default v xs"
proof -
  have "y \<le> foldl max y ys \<and> (\<forall>z \<in> set ys. z \<le> foldl max y ys)" for y :: int and ys
  proof (induction ys arbitrary: y)
    case (Cons z ys)
    from Cons.IH [of "max y z"] show ?case by auto
  qed simp
  then show "x \<in> set xs \<Longrightarrow> x \<le> max_default v xs" by (cases xs) (auto simp: max_default_def pick_int)
qed

lemma max_default_in: "xs \<noteq> [] \<Longrightarrow> max_default (v :: int) xs \<in> set xs"
proof -
  have "foldl max y ys \<in> insert y (set ys)" for y :: int and ys
    by (induction ys arbitrary: y) (auto simp: max_def)
  then show "xs \<noteq> [] \<Longrightarrow> max_default v xs \<in> set xs" by (cases xs) (auto simp: max_default_def pick_int)
qed

lemma min_default_le: "(x :: int) \<in> set xs \<Longrightarrow> min_default v xs \<le> x"
proof -
  have "foldl min y ys \<le> y \<and> (\<forall>z \<in> set ys. foldl min y ys \<le> z)" for y :: int and ys
  proof (induction ys arbitrary: y)
    case (Cons z ys)
    from Cons.IH [of "min y z"] show ?case by auto
  qed simp
  then show "x \<in> set xs \<Longrightarrow> min_default v xs \<le> x" by (cases xs) (auto simp: min_default_def pick_int)
qed

lemma min_default_in: "xs \<noteq> [] \<Longrightarrow> min_default (v :: int) xs \<in> set xs"
proof -
  have "foldl min y ys \<in> insert y (set ys)" for y :: int and ys
    by (induction ys arbitrary: y) (auto simp: min_def)
  then show "xs \<noteq> [] \<Longrightarrow> min_default v xs \<in> set xs" by (cases xs) (auto simp: min_default_def pick_int)
qed

lemma default_Nil [simp]: "max_default v [] = v" "min_default v [] = v"
  by (simp_all add: max_default_def min_default_def)

lemma ordered_induct:
  assumes "ordered nb os" "\<And>x. x \<in> set os \<Longrightarrow> (\<And>y. y \<in> set (nb x) \<Longrightarrow> y \<in> set os \<and> P y) \<Longrightarrow> P x"
  shows "\<forall>x \<in> set os. P x"
  using assms
proof (induction os rule: rev_induct)
  case (snoc x os)
  have o: "ordered nb os" "set (nb x) \<subseteq> set os" using snoc.prems(1) by (auto simp: ordered_snoc)
  have old: "\<forall>x \<in> set os. P x"
  proof (rule snoc.IH [OF o(1)])
    fix y assume "y \<in> set os" "\<And>z. z \<in> set (nb y) \<Longrightarrow> z \<in> set os \<and> P z"
    then show "P y" using snoc.prems(2) [of y] by auto
  qed
  moreover have "P x" using snoc.prems(2) [of x] old o(2) by auto
  ultimately show ?case by simp
qed simp

section \<open>Chains\<close>

definition weight :: "(string \<Rightarrow> int) \<Rightarrow> string list \<Rightarrow> int" where
  "weight dur p = sum_list (map dur p)"

lemma weight_simps [simp]: "weight dur [] = 0" "weight dur (x # p) = dur x + weight dur p"
  "weight dur (p @ q) = weight dur p + weight dur q"
  by (simp_all add: weight_def)

definition chain :: "(string \<Rightarrow> string list) \<Rightarrow> string set \<Rightarrow> string list \<Rightarrow> bool" where
  "chain deps V p \<longleftrightarrow> set p \<subseteq> V \<and> successively (\<lambda>x y. x \<in> set (deps y)) p"

lemma chain_snoc: "chain deps V (p @ [x, y]) \<longleftrightarrow> chain deps V (p @ [x]) \<and> y \<in> V \<and> x \<in> set (deps y)"
  by (auto simp: chain_def successively_append_iff)

lemma chain_Cons: "chain deps V (x # y # p) \<longleftrightarrow> x \<in> V \<and> x \<in> set (deps y) \<and> chain deps V (y # p)"
  by (auto simp: chain_def)

lemma chain_single: "chain deps V [x] \<longleftrightarrow> x \<in> V"
  by (simp add: chain_def)

lemma chain_join: "chain deps V (p @ [x]) \<Longrightarrow> chain deps V (x # q) \<Longrightarrow> chain deps V (p @ x # q)"
  by (auto simp: chain_def successively_append_iff)

lemma chain_split: "chain deps V (p @ x # q) \<Longrightarrow> chain deps V (p @ [x]) \<and> chain deps V (x # q)"
  by (auto simp: chain_def successively_append_iff)

section \<open>The passes\<close>

lemma ordered_deps_in: "ordered nb os \<Longrightarrow> x \<in> set os \<Longrightarrow> set (nb x) \<subseteq> set os"
proof -
  assume o: "ordered nb os" "x \<in> set os"
  then obtain xs ys where "os = xs @ x # ys" by (meson split_list)
  then show "set (nb x) \<subseteq> set os" using o(1) unfolding ordered_def by fastforce
qed

text \<open>The equations of a schedule: what the two passes leave in their tables.\<close>

locale schedule =
  fixes dur :: "string \<Rightarrow> int" and deps :: "string \<Rightarrow> string list" and dependents :: "string \<Rightarrow> string list"
    and order :: "string list" and es :: "string \<Rightarrow> int" and ef :: "string \<Rightarrow> int" and ls :: "string \<Rightarrow> int"
    and lf :: "string \<Rightarrow> int" and pe :: int
  assumes deps_ordered: "ordered deps order"
    and dependents_ordered: "ordered dependents (rev order)"
    and positive: "x \<in> set order \<Longrightarrow> 0 < dur x"
    and dependent_iff: "x \<in> set order \<Longrightarrow> y \<in> set (dependents x) \<longleftrightarrow> y \<in> set order \<and> x \<in> set (deps y)"
    and es_eq: "x \<in> set order \<Longrightarrow> es x = max_default 0 (map ef (deps x))"
    and ef_eq: "x \<in> set order \<Longrightarrow> ef x = es x + dur x"
    and lf_eq: "x \<in> set order \<Longrightarrow> lf x = min_default pe (map ls (dependents x))"
    and ls_eq: "x \<in> set order \<Longrightarrow> ls x = lf x - dur x"
    and pe_eq: "pe = max_default 0 (map ef order)"
begin

lemma deps_in: "x \<in> set order \<Longrightarrow> y \<in> set (deps x) \<Longrightarrow> y \<in> set order"
  using ordered_deps_in [OF deps_ordered] by blast

lemma ef_le_end: "x \<in> set order \<Longrightarrow> ef x \<le> pe"
  unfolding pe_eq by (rule max_default_ge) simp

lemma es_ge: "x \<in> set order \<Longrightarrow> y \<in> set (deps x) \<Longrightarrow> ef y \<le> es x"
  by (simp add: es_eq max_default_ge)

lemma es_nonneg: "x \<in> set order \<Longrightarrow> 0 \<le> es x"
proof -
  have "\<forall>x \<in> set order. 0 \<le> es x"
  proof (rule ordered_induct [OF deps_ordered])
    fix x assume x: "x \<in> set order" "\<And>y. y \<in> set (deps x) \<Longrightarrow> y \<in> set order \<and> 0 \<le> es y"
    show "0 \<le> es x"
    proof (cases "deps x")
      case Nil
      then show ?thesis by (simp add: es_eq [OF x(1)])
    next
      case (Cons y ys)
      then have y: "y \<in> set (deps x)" "y \<in> set order" "0 \<le> es y" using x(2) by auto
      then have "0 \<le> ef y" using positive [OF y(2)] ef_eq [OF y(2)] by simp
      then show ?thesis using es_ge [OF x(1) y(1)] by simp
    qed
  qed
  then show "x \<in> set order \<Longrightarrow> 0 \<le> es x" by blast
qed

lemma chain_le_ef: "chain deps (set order) (p @ [x]) \<Longrightarrow> weight dur (p @ [x]) \<le> ef x"
proof (induction p arbitrary: x rule: rev_induct)
  case Nil
  then show ?case using es_nonneg ef_eq by (simp add: chain_single)
next
  case (snoc y p)
  then have c: "chain deps (set order) (p @ [y])" "x \<in> set order" "y \<in> set (deps x)" by (simp_all add: chain_snoc)
  then show ?case using snoc.IH [OF c(1)] es_ge [OF c(2,3)] ef_eq [OF c(2)] by simp
qed

lemma ef_attained: "x \<in> set order \<Longrightarrow> \<exists>p. chain deps (set order) (p @ [x]) \<and> weight dur (p @ [x]) = ef x"
proof -
  have "\<forall>x \<in> set order. \<exists>p. chain deps (set order) (p @ [x]) \<and> weight dur (p @ [x]) = ef x"
  proof (rule ordered_induct [OF deps_ordered])
    fix x assume x: "x \<in> set order" and IH: "\<And>y. y \<in> set (deps x) \<Longrightarrow> y \<in> set order \<and>
        (\<exists>p. chain deps (set order) (p @ [y]) \<and> weight dur (p @ [y]) = ef y)"
    show "\<exists>p. chain deps (set order) (p @ [x]) \<and> weight dur (p @ [x]) = ef x"
    proof (cases "deps x = []")
      case True
      then have "chain deps (set order) ([] @ [x])" "weight dur ([] @ [x]) = ef x"
        using x es_eq [OF x] ef_eq [OF x] by (simp_all add: chain_single)
      then show ?thesis by blast
    next
      case False
      then obtain y where y: "y \<in> set (deps x)" "es x = ef y"
        using max_default_in [of "map ef (deps x)" 0] es_eq [OF x] by auto
      then obtain p where "chain deps (set order) (p @ [y])" "weight dur (p @ [y]) = ef y" using IH by blast
      then have "chain deps (set order) ((p @ [y]) @ [x])" "weight dur ((p @ [y]) @ [x]) = ef x"
        using x y ef_eq [OF x] by (simp_all add: chain_snoc)
      then show ?thesis by blast
    qed
  qed
  then show "x \<in> set order \<Longrightarrow> \<exists>p. chain deps (set order) (p @ [x]) \<and> weight dur (p @ [x]) = ef x" by blast
qed

lemma chain_le_late: "chain deps (set order) (x # p) \<Longrightarrow> weight dur (x # p) \<le> pe - ls x"
proof (induction p arbitrary: x)
  case Nil
  then have x: "x \<in> set order" by (simp add: chain_single)
  have "lf x \<le> pe"
  proof -
    have "\<forall>x \<in> set (rev order). lf x \<le> pe"
    proof (rule ordered_induct [OF dependents_ordered])
      fix x assume "x \<in> set (rev order)" and IH: "\<And>y. y \<in> set (dependents x) \<Longrightarrow> y \<in> set (rev order) \<and> lf y \<le> pe"
      then have x: "x \<in> set order" by simp
      show "lf x \<le> pe"
      proof (cases "dependents x")
        case (Cons y ys)
        then have y: "y \<in> set order" "lf y \<le> pe" using IH [of y] by auto
        have "lf x \<le> ls y" unfolding lf_eq [OF x] by (rule min_default_le) (simp add: Cons)
        then show ?thesis using positive [OF y(1)] ls_eq [OF y(1)] y(2) by simp
      qed (simp add: lf_eq [OF x])
    qed
    then show ?thesis using x by simp
  qed
  then show ?case using ls_eq [OF x] by simp
next
  case (Cons y p)
  then have c: "x \<in> set order" "x \<in> set (deps y)" "chain deps (set order) (y # p)" by (simp_all add: chain_Cons)
  have "y \<in> set order" using c(3) by (simp add: chain_def)
  then have "lf x \<le> ls y" using c unfolding lf_eq [OF c(1)] by (intro min_default_le) (simp add: dependent_iff)
  then show ?case using Cons.IH [OF c(3)] ls_eq [OF c(1)] by simp
qed

lemma late_attained: "x \<in> set order \<Longrightarrow> \<exists>p. chain deps (set order) (x # p) \<and> weight dur (x # p) = pe - ls x"
proof -
  have "\<forall>x \<in> set (rev order). \<exists>p. chain deps (set order) (x # p) \<and> weight dur (x # p) = pe - ls x"
  proof (rule ordered_induct [OF dependents_ordered])
    fix x assume "x \<in> set (rev order)" and IH: "\<And>y. y \<in> set (dependents x) \<Longrightarrow> y \<in> set (rev order) \<and>
        (\<exists>p. chain deps (set order) (y # p) \<and> weight dur (y # p) = pe - ls y)"
    then have x: "x \<in> set order" by simp
    show "\<exists>p. chain deps (set order) (x # p) \<and> weight dur (x # p) = pe - ls x"
    proof (cases "dependents x = []")
      case True
      then have "chain deps (set order) (x # [])" "weight dur (x # []) = pe - ls x"
        using x lf_eq [OF x] ls_eq [OF x] by (simp_all add: chain_single)
      then show ?thesis by blast
    next
      case False
      then obtain y where y: "y \<in> set (dependents x)" "lf x = ls y"
        using min_default_in [of "map ls (dependents x)" pe] lf_eq [OF x] by auto
      then obtain p where "chain deps (set order) (y # p)" "weight dur (y # p) = pe - ls y" using IH by blast
      then have "chain deps (set order) (x # y # p)" "weight dur (x # y # p) = pe - ls x"
        using x y ls_eq [OF x] by (simp_all add: chain_Cons dependent_iff)
      then show ?thesis by blast
    qed
  qed
  then show "x \<in> set order \<Longrightarrow> \<exists>p. chain deps (set order) (x # p) \<and> weight dur (x # p) = pe - ls x" by simp
qed

lemma chain_le_end: "chain deps (set order) p \<Longrightarrow> weight dur p \<le> pe"
proof (cases p rule: rev_cases)
  case Nil
  have "0 \<le> pe"
  proof (cases order)
    case (Cons x xs)
    then have x: "x \<in> set order" by simp
    show ?thesis using es_nonneg [OF x] positive [OF x] ef_eq [OF x] ef_le_end [OF x] by simp
  qed (simp add: pe_eq)
  then show ?thesis by (simp add: Nil)
next
  case (snoc q x)
  assume c: "chain deps (set order) p"
  then have "x \<in> set order" by (simp add: snoc chain_def)
  then show ?thesis using chain_le_ef [of q x] ef_le_end [of x] c by (simp add: snoc)
qed

lemma slack_nonneg: "x \<in> set order \<Longrightarrow> es x \<le> ls x"
proof -
  assume x: "x \<in> set order"
  obtain p where p: "chain deps (set order) (p @ [x])" "weight dur (p @ [x]) = ef x" using ef_attained [OF x] by blast
  obtain q where q: "chain deps (set order) (x # q)" "weight dur (x # q) = pe - ls x" using late_attained [OF x] by blast
  show "es x \<le> ls x"
    using chain_le_end [OF chain_join [OF p(1) q(1)]] p(2) q(2) ef_eq [OF x] by simp
qed

lemma critical_iff:
  assumes x: "x \<in> set order"
  shows "ls x - es x = 0 \<longleftrightarrow> (\<exists>p. chain deps (set order) p \<and> x \<in> set p \<and> weight dur p = pe)"
proof
  assume zero: "ls x - es x = 0"
  obtain p where p: "chain deps (set order) (p @ [x])" "weight dur (p @ [x]) = ef x" using ef_attained [OF x] by blast
  obtain q where q: "chain deps (set order) (x # q)" "weight dur (x # q) = pe - ls x" using late_attained [OF x] by blast
  have "weight dur (p @ x # q) = pe" using p(2) q(2) zero ef_eq [OF x] by simp
  then show "\<exists>p. chain deps (set order) p \<and> x \<in> set p \<and> weight dur p = pe"
    using chain_join [OF p(1) q(1)] by (intro exI [of _ "p @ x # q"]) simp
next
  assume "\<exists>p. chain deps (set order) p \<and> x \<in> set p \<and> weight dur p = pe"
  then obtain p q where pq: "chain deps (set order) (p @ x # q)" "weight dur (p @ x # q) = pe"
    by (metis split_list)
  have "weight dur (p @ [x]) \<le> ef x" "weight dur (x # q) \<le> pe - ls x"
    using chain_split [OF pq(1)] chain_le_ef chain_le_late by blast+
  then have "ls x \<le> es x" using pq(2) ef_eq [OF x] by simp
  then show "ls x - es x = 0" using slack_nonneg [OF x] by simp
qed

lemma critical_dep:
  assumes "x \<in> set order" "ls x = es x" "y \<in> set (deps x)" "ef y = es x"
  shows "ls y = es y"
proof -
  have y: "y \<in> set order" using deps_in assms(1,3) by blast
  then have "lf y \<le> ls x" using assms(1,3) unfolding lf_eq [OF y] by (intro min_default_le) (simp add: dependent_iff)
  then show ?thesis using assms(2,4) ef_eq [OF y] ls_eq [OF y] slack_nonneg [OF y] by simp
qed

text \<open>The dynamic program over the critical activities.\<close>

lemma pred_fold:
  assumes "\<And>d. d \<in> set ds \<Longrightarrow> on d \<Longrightarrow> ef d = start \<Longrightarrow> len d = start" "fst b \<le> start + w"
  shows "(\<forall>d \<in> set ds. \<not> (on d \<and> ef d = start)) \<and> foldl (pred_step on ef len start w) b ds = b \<or>
    (\<exists>d \<in> set ds. on d \<and> ef d = start \<and> foldl (pred_step on ef len start w) b ds = (start + w, Some d))"
  using assms
proof (induction ds rule: rev_induct)
  case (snoc d ds)
  then have IH: "(\<forall>d \<in> set ds. \<not> (on d \<and> ef d = start)) \<and> foldl (pred_step on ef len start w) b ds = b \<or>
    (\<exists>d \<in> set ds. on d \<and> ef d = start \<and> foldl (pred_step on ef len start w) b ds = (start + w, Some d))"
    by simp
  have le: "fst (foldl (pred_step on ef len start w) b ds) \<le> start + w"
    using IH snoc.prems(2) by auto
  show ?case
  proof (cases "on d \<and> ef d = start")
    case True
    then have "len d = start" using snoc.prems(1) by simp
    then have "foldl (pred_step on ef len start w) b (ds @ [d]) = (start + w, Some d)"
      using True le by (simp add: pred_step_def)
    then show ?thesis using True by auto
  next
    case False
    then have "foldl (pred_step on ef len start w) b (ds @ [d]) = foldl (pred_step on ef len start w) b ds"
      by (auto simp: pred_step_def)
    then show ?thesis using IH False by auto
  qed
qed simp

definition chain_inv :: "string list \<Rightarrow> (string \<Rightarrow> int) \<times> (string \<Rightarrow> string option) \<Rightarrow> bool" where
  "chain_inv os s \<longleftrightarrow> (\<forall>x \<in> set os. ls x = es x \<longrightarrow> fst s x = ef x \<and>
     (case snd s x of None \<Rightarrow> es x = 0 | Some d \<Rightarrow> d \<in> set (deps x) \<and> ls d = es d \<and> ef d = es x))"

lemma chain_step_inv:
  assumes d: "dur = duration_of by_id" "deps = deps_of by_id"
    and order: "order = os @ x # os'" and inv: "chain_inv os s"
  shows "chain_inv (os @ [x]) (chain_step by_id es ef (\<lambda>i. ls i - es i = 0) s x)"
proof -
  obtain len prev where s: "s = (len, prev)" by force
  have x: "x \<in> set order" "x \<notin> set os" "set (deps x) \<subseteq> set os"
    using deps_ordered unfolding ordered_def order by auto
  show ?thesis
  proof (cases "ls x = es x")
    case False
    then show ?thesis using inv by (simp add: chain_step_def s chain_inv_def)
  next
    case True
    let ?on = "\<lambda>i. ls i - es i = 0" and ?ds = "sort (deps x)"
    have len: "len y = es x" if "y \<in> set ?ds" "?on y" "ef y = es x" for y
      using inv that x(3) by (auto simp: chain_inv_def s)
    have start: "fst (dur x, None :: string option) \<le> es x + dur x" using es_nonneg [OF x(1)] by simp
    let ?r = "foldl (pred_step ?on ef len (es x) (dur x)) (dur x, None) ?ds"
    have "(\<forall>y \<in> set ?ds. \<not> (?on y \<and> ef y = es x)) \<and> ?r = (dur x, None) \<or>
        (\<exists>y \<in> set ?ds. ?on y \<and> ef y = es x \<and> ?r = (es x + dur x, Some y))"
      by (rule pred_fold [where on = ?on and ds = ?ds, OF len start])
    then show ?thesis
    proof (elim disjE bexE conjE)
      assume none: "\<forall>y \<in> set ?ds. \<not> (?on y \<and> ef y = es x)" and r: "?r = (dur x, None)"
      have "es x = 0"
      proof (rule ccontr)
        assume "es x \<noteq> 0"
        then have "deps x \<noteq> []" using es_eq [OF x(1)] by auto
        then obtain y where y: "y \<in> set (deps x)" "ef y = es x"
          using max_default_in [of "map ef (deps x)" 0] es_eq [OF x(1)] by auto
        then have "ls y = es y" using critical_dep [OF x(1) True] by blast
        then show False using none y by auto
      qed
      then show ?thesis using inv x(2) True r ef_eq [OF x(1)]
        by (simp add: chain_step_def s d [symmetric] chain_inv_def)
    next
      fix y assume y: "y \<in> set ?ds" "?on y" "ef y = es x" and r: "?r = (es x + dur x, Some y)"
      then show ?thesis using inv x(2) True ef_eq [OF x(1)]
        by (simp add: chain_step_def s d [symmetric] chain_inv_def)
    qed
  qed
qed

lemma chain_fold_inv:
  assumes "dur = duration_of by_id" "deps = deps_of by_id"
  shows "chain_inv order (foldl (chain_step by_id es ef (\<lambda>i. ls i - es i = 0)) (\<lambda>_. 0, \<lambda>_. None) order)"
proof -
  have "chain_inv os (foldl (chain_step by_id es ef (\<lambda>i. ls i - es i = 0)) (\<lambda>_. 0, \<lambda>_. None) os)"
    if "order = os @ os'" for os os'
    using that
  proof (induction os arbitrary: os' rule: rev_induct)
    case Nil
    then show ?case by (simp add: chain_inv_def)
  next
    case (snoc x os)
    then have "order = os @ x # os'" by simp
    from chain_step_inv [OF assms this] snoc.IH [of "x # os'"] snoc.prems show ?case by simp
  qed
  then show ?thesis by simp
qed

lemma follow_result:
  assumes inv: "chain_inv order (len, prev)"
  shows "order = xs @ x # ys \<Longrightarrow> ls x = es x \<Longrightarrow> length xs < fuel \<Longrightarrow>
    \<exists>c. follow fuel prev x = Some (c @ [x]) \<and> chain deps (set order) (c @ [x]) \<and> weight dur (c @ [x]) = ef x \<and>
      (\<forall>y \<in> set c. ls y = es y)"
proof (induction fuel arbitrary: x xs ys)
  case (Suc fuel)
  have x: "x \<in> set order" using Suc.prems(1) by simp
  show ?case
  proof (cases "prev x")
    case None
    then have "es x = 0" using inv x Suc.prems(2) by (auto simp: chain_inv_def)
    then show ?thesis using None x ef_eq [OF x] by (intro exI [of _ "[]"]) (simp add: chain_single)
  next
    case (Some d)
    then have d: "d \<in> set (deps x)" "ls d = es d" "ef d = es x" using inv x Suc.prems(2) by (auto simp: chain_inv_def)
    then have "d \<in> set xs" using deps_ordered Suc.prems(1) unfolding ordered_def by blast
    then obtain as bs where xs: "xs = as @ d # bs" by (meson split_list)
    then have "order = as @ d # (bs @ x # ys)" "length as < fuel" using Suc.prems(1,3) by simp_all
    then obtain c where c: "follow fuel prev d = Some (c @ [d])" "chain deps (set order) (c @ [d])"
      "weight dur (c @ [d]) = ef d" "\<forall>y \<in> set c. ls y = es y"
      using Suc.IH [of as d] d(2) by blast
    have "chain deps (set order) ((c @ [d]) @ [x])" using c(2) x d(1) by (simp add: chain_snoc)
    moreover have "weight dur ((c @ [d]) @ [x]) = ef x" using c(3) d(3) ef_eq [OF x] by simp
    moreover have "\<forall>y \<in> set (c @ [d]). ls y = es y" using c(4) d(2) by simp
    moreover have "follow (Suc fuel) prev x = Some ((c @ [d]) @ [x])" using c(1) Some by simp
    ultimately show ?thesis by blast
  qed
qed simp

lemma first_max_result:
  "keys \<noteq> [] \<Longrightarrow> first_max (len :: string \<Rightarrow> int) keys \<in> set keys \<and> (\<forall>k \<in> set keys. len k \<le> len (first_max len keys))"
proof -
  have "foldl (\<lambda>b k. if len b < len k then k else b) b ks \<in> insert b (set ks) \<and>
      (\<forall>k \<in> insert b (set ks). len k \<le> len (foldl (\<lambda>b k. if len b < len k then k else b) b ks))" for b ks
  proof (induction ks arbitrary: b)
    case (Cons k ks)
    have "len b \<le> len (if len b < len k then k else b)" "len k \<le> len (if len b < len k then k else b)" by auto
    then show ?case using Cons.IH [of "if len b < len k then k else b"]
      by (auto simp del: if_split intro: order_trans split: if_split_asm)
  qed simp
  from this [of "hd keys" "tl keys"] show "keys \<noteq> [] \<Longrightarrow> ?thesis"
    by (cases keys) (auto simp: first_max_def)
qed

lemma critical_chain_result:
  assumes d: "dur = duration_of by_id" "deps = deps_of by_id"
  shows "\<exists>c. critical_chain (\<lambda>_. False) by_id order es ef (\<lambda>i. ls i - es i = 0) = Inr c \<and> chain deps (set order) c \<and>
    weight dur c = pe \<and> (\<forall>x \<in> set c. ls x = es x) \<and> (order \<noteq> [] \<longrightarrow> c \<noteq> [])"
proof (cases "order = []")
  case True
  then show ?thesis using pe_eq by (simp add: critical_chain_def chain_def)
next
  case False
  obtain len prev where fold: "foldl (chain_step by_id es ef (\<lambda>i. ls i - es i = 0)) (\<lambda>_. 0, \<lambda>_. None) order = (len, prev)"
    by force
  have inv: "chain_inv order (len, prev)" using chain_fold_inv [OF d] unfolding fold .
  let ?keys = "filter (\<lambda>i. ls i - es i = 0) order"
  obtain z where z: "z \<in> set order" "ef z = pe" using max_default_in [of "map ef order" 0] pe_eq False by auto
  obtain p where "chain deps (set order) (p @ [z])" "weight dur (p @ [z]) = ef z" using ef_attained [OF z(1)] by blast
  then have zc: "ls z = es z" using critical_iff [OF z(1)] z(2) by fastforce
  then have ne: "?keys \<noteq> []" using z(1) by (auto simp: filter_empty_conv)
  let ?e = "first_max len ?keys"
  have e: "?e \<in> set order" "ls ?e = es ?e" "len z \<le> len ?e" using first_max_result [OF ne, of len] z(1) zc by auto
  then have "ef z \<le> ef ?e" using inv z(1) zc by (simp add: chain_inv_def)
  then have end_eq: "ef ?e = pe" using ef_le_end [OF e(1)] z(2) by simp
  obtain xs ys where order: "order = xs @ ?e # ys" using e(1) by (meson split_list)
  then have "length xs < Suc (length order)" by (metis length_append less_Suc_eq_le le_add1)
  from follow_result [OF inv order e(2) this] obtain c where
    c: "follow (Suc (length order)) prev ?e = Some (c @ [?e])" "chain deps (set order) (c @ [?e])"
    "weight dur (c @ [?e]) = ef ?e" "\<forall>y \<in> set c. ls y = es y" by blast
  have "critical_chain (\<lambda>_. False) by_id order es ef (\<lambda>i. ls i - es i = 0) = Inr (c @ [?e])"
    unfolding critical_chain_def fold using ne c(1) by simp
  then show ?thesis using c(2,3,4) e(2) end_eq by auto
qed

end

end
