(* ===== verification/Cpm_Props.thy ===== *)
theory Cpm_Props
  imports Cpm_Schedule
begin

text \<open>
  The critical path analysis is right for integer durations: the passes satisfy the equations of the
  method (the interpretation \<open>passes\<close> of the schedule laws, for every admissible network), so the
  duration is the greatest weight of a chain and the reported critical path is such a chain. The
  analysis of Python's numbers computes the same on integers, however large; with doubles it does not
  (\<open>float_chain_lost\<close>).
\<close>

section \<open>The analysis\<close>

definition by_table :: "int activity list \<Rightarrow> int activity dict" where
  "by_table nodes = map (\<lambda>n. (av_id n, n)) nodes"

definition admissible :: "int activity list \<Rightarrow> bool" where
  "admissible nodes \<longleftrightarrow> distinct (map av_id nodes) \<and>
     (\<forall>n \<in> set nodes. 0 < av_duration n \<and> (\<forall>d \<in> set (av_deps n). d \<noteq> av_id n \<and> d \<in> av_id ` set nodes)) \<and>
     acyclic (set (dep_edges nodes))"

lemma add_activities_iff:
  "foldR add_activity nodes d = Inr d' \<longleftrightarrow>
     d' = d @ by_table nodes \<and> distinct (map av_id nodes) \<and> av_id ` set nodes \<inter> fst ` set d = {} \<and>
     (\<forall>n \<in> set nodes. 0 < av_duration n)"
proof (induction nodes arbitrary: d)
  case (Cons n nodes)
  have "add_activity n d = Inr d1 \<longleftrightarrow> av_id n \<notin> fst ` set d \<and> 0 < av_duration n \<and> d1 = d @ [(av_id n, n)]" for d1
    by (auto simp: add_activity_def result_simps dget_None_iff length_dput_new not_le)
  then have "foldR add_activity (n # nodes) d = Inr d' \<longleftrightarrow> av_id n \<notin> fst ` set d \<and> 0 < av_duration n \<and>
      foldR add_activity nodes (d @ [(av_id n, n)]) = Inr d'"
    by (auto simp: bindR_Inr_iff)
  then show ?case unfolding Cons.IH by (auto simp: by_table_def)
qed (auto simp: by_table_def)

lemma wf_by_table: "distinct (map av_id nodes) \<Longrightarrow> wf_dict (by_table nodes)"
  by (simp add: by_table_def wf_dict_def comp_def)

lemma keys_by_table: "dkeys (by_table nodes) = map av_id nodes" "fst ` set (by_table nodes) = av_id ` set nodes"
  by (auto simp: by_table_def dkeys_def image_image)

lemma by_table_lookup:
  assumes "distinct (map av_id nodes)" "n \<in> set nodes"
  shows "duration_of (by_table nodes) (av_id n) = av_duration n" "deps_of (by_table nodes) (av_id n) = av_deps n"
proof -
  have "dget (by_table nodes) (av_id n) = Some n"
    using dget_wf [OF wf_by_table] assms by (simp add: by_table_def)
  then show "duration_of (by_table nodes) (av_id n) = av_duration n" "deps_of (by_table nodes) (av_id n) = av_deps n"
    by (simp_all add: duration_of_def deps_of_def)
qed

lemma deps_of_iff:
  assumes "distinct (map av_id nodes)"
  shows "d \<in> set (deps_of (by_table nodes) i) \<longleftrightarrow> (d, i) \<in> set (dep_edges nodes)"
proof (cases "i \<in> av_id ` set nodes")
  case True
  then obtain n where n: "n \<in> set nodes" "i = av_id n" by auto
  then have "(d, i) \<in> set (dep_edges nodes) \<longleftrightarrow> d \<in> set (av_deps n)"
    using assms by (auto simp: dep_edges_def distinct_map inj_on_def)
  then show ?thesis using n by_table_lookup [OF assms n(1)] by simp
next
  case False
  then have "dget (by_table nodes) i = None" by (simp add: dget_None_iff keys_by_table)
  then show ?thesis using False by (auto simp: deps_of_def dep_edges_def)
qed

lemma check_deps_iff:
  "iterR (check_deps (by_table nodes)) nodes = Inr () \<longleftrightarrow>
     (\<forall>n \<in> set nodes. \<forall>d \<in> set (av_deps n). d \<noteq> av_id n \<and> d \<in> av_id ` set nodes)"
  by (simp add: check_deps_def result_simps dget_None_iff keys_by_table)

lemma topo_sort_result:
  assumes "distinct (map av_id nodes)"
    and inside: "\<forall>n \<in> set nodes. \<forall>d \<in> set (av_deps n). d \<in> av_id ` set nodes"
  shows "if acyclic (set (dep_edges nodes))
    then \<exists>os. topo_sort nodes (by_table nodes) = Inr os \<and> distinct os \<and> set os = av_id ` set nodes \<and>
      topo_before (set (dep_edges nodes)) os
    else topo_sort nodes (by_table nodes) = Inl Cpm_Error"
proof -
  let ?V = "av_id ` set nodes" and ?es = "dep_edges nodes"
  let ?q = "sort (filter (\<lambda>i. indegrees ?es i = 0) (map av_id nodes))"
  have V: "finite ?V" "\<And>u v. (u, v) \<in> set ?es \<Longrightarrow> u \<in> ?V \<and> v \<in> ?V"
    using inside by (auto simp: dep_edges_def)
  have start: "mset ?q = mset_set {n \<in> ?V. indegrees ?es n = 0}"
    using mset_filter_distinct [OF assms(1)] by simp
  obtain d q os where run: "kahn_run (\<lambda>q. q = []) ready_pop ready_push (sorted_adjacency ?es)
      (indegrees ?es, ?q, []) = Some (d, q, os)"
    and os: "distinct os" "set os \<subseteq> ?V" "topo_before (set ?es) os" "set os = ?V \<longleftrightarrow> acyclic (set ?es)"
    using ready.kahn_run_result [OF V start] by blast
  have "length (by_table nodes) = card ?V"
    using distinct_card [OF assms(1)] by (simp add: by_table_def)
  then have "length os = length (by_table nodes) \<longleftrightarrow> set os = ?V"
    using os(1,2) V(1) by (metis card_subset_eq distinct_card)
  then show ?thesis using os by (simp add: topo_sort_def Let_def keys_by_table run)
qed

section \<open>The contract holds of every admissible network\<close>

text \<open>What the analysis computes for a network, and for the empty one when it rejects it.\<close>

definition sound :: "int activity list \<Rightarrow> int activity list" where
  "sound nodes = (if admissible nodes then nodes else [])"

definition order_of :: "int activity list \<Rightarrow> string list" where
  "order_of nodes = (case topo_sort nodes (by_table nodes) of Inl _ \<Rightarrow> [] | Inr os \<Rightarrow> os)"

definition forward_of :: "int activity list \<Rightarrow> int times" where
  "forward_of nodes = foldl (forward_step (by_table nodes)) (\<lambda>_. 0, \<lambda>_. 0) (order_of nodes)"

definition end_of :: "int activity list \<Rightarrow> int" where
  "end_of nodes = max_default 0 (map (snd (forward_of nodes)) (order_of nodes))"

definition backward_of :: "int activity list \<Rightarrow> int times" where
  "backward_of nodes = foldl (backward_step (by_table nodes) (adjacency (dep_edges nodes)) (end_of nodes))
     (\<lambda>_. 0, \<lambda>_. 0) (rev (order_of nodes))"

lemma admissible_sound [simp]: "admissible (sound nodes)" "admissible nodes \<Longrightarrow> sound nodes = nodes"
proof -
  have "admissible []" by (simp add: admissible_def dep_edges_def acyclic_def)
  then show "admissible (sound nodes)" "admissible nodes \<Longrightarrow> sound nodes = nodes" by (simp_all add: sound_def)
qed

lemma order_of_result:
  assumes "admissible nodes"
  shows "topo_sort nodes (by_table nodes) = Inr (order_of nodes)" "distinct (order_of nodes)"
    "set (order_of nodes) = av_id ` set nodes" "topo_before (set (dep_edges nodes)) (order_of nodes)"
  using topo_sort_result [of nodes] assms by (auto simp: admissible_def order_of_def)

lemma adjacency_iff: "y \<in> set (adjacency es x) \<longleftrightarrow> (x, y) \<in> set es"
  by (force simp: adjacency_eq)

lemma dep_edge_target: "(x, y) \<in> set (dep_edges nodes) \<Longrightarrow> y \<in> av_id ` set nodes"
  by (auto simp: dep_edges_def)

lemma order_positive:
  assumes "admissible nodes" "x \<in> set (order_of nodes)"
  shows "0 < duration_of (by_table nodes) x"
proof -
  obtain n where "n \<in> set nodes" "x = av_id n" using order_of_result(3) [OF assms(1)] assms(2) by auto
  then show ?thesis using by_table_lookup [of nodes n] assms(1) by (simp add: admissible_def)
qed

lemma ordered_deps:
  assumes "admissible nodes"
  shows "ordered (deps_of (by_table nodes)) (order_of nodes)"
    "ordered (adjacency (dep_edges nodes)) (rev (order_of nodes))"
proof -
  note o = order_of_result [OF assms]
  have d: "distinct (map av_id nodes)" using assms by (simp add: admissible_def)
  show "ordered (deps_of (by_table nodes)) (order_of nodes)"
    unfolding ordered_def
  proof (intro conjI allI impI subsetI)
    fix xs x ys y assume split: "order_of nodes = xs @ x # ys" and "y \<in> set (deps_of (by_table nodes) x)"
    then have "(y, x) \<in> set (dep_edges nodes)" by (simp add: deps_of_iff [OF d])
    then show "y \<in> set xs" using o(4) split unfolding topo_before_def by blast
  qed (rule o(2))
  have "set (adjacency (dep_edges nodes) x) \<subseteq> set xs" if "rev (order_of nodes) = xs @ x # ys" for xs x ys
  proof
    fix y assume "y \<in> set (adjacency (dep_edges nodes) x)"
    then have e: "(x, y) \<in> set (dep_edges nodes)" by (simp add: adjacency_iff)
    have order: "order_of nodes = rev ys @ x # rev xs" using that by (simp add: rev_swap)
    have "y \<in> set (order_of nodes)" using e o(3) by (auto simp: dep_edges_def)
    then obtain as bs where split: "order_of nodes = as @ y # bs" by (meson split_list)
    then have x: "x \<in> set as" using e o(4) unfolding topo_before_def by blast
    show "y \<in> set xs"
    proof (rule ccontr)
      assume "y \<notin> set xs"
      then have "y \<in> set (rev ys) \<or> y = x" using \<open>y \<in> set (order_of nodes)\<close> unfolding order by auto
      moreover have "y \<noteq> x" using x o(2) unfolding split by auto
      ultimately obtain cs ds where ys: "rev ys = cs @ y # ds" by (meson split_list)
      then have "order_of nodes = cs @ y # (ds @ x # rev xs)" by (simp add: order)
      then have "x \<in> set cs" using e o(4) unfolding topo_before_def by blast
      then show False using o(2) unfolding order ys by auto
    qed
  qed
  then show "ordered (adjacency (dep_edges nodes)) (rev (order_of nodes))" using o(2) by (simp add: ordered_def)
qed

lemma passes_equations:
  assumes "admissible nodes" "x \<in> set (order_of nodes)"
  shows "fst (forward_of nodes) x = max_default 0 (map (snd (forward_of nodes)) (deps_of (by_table nodes) x))"
    "snd (forward_of nodes) x = fst (forward_of nodes) x + duration_of (by_table nodes) x"
    "fst (backward_of nodes) x = min_default (end_of nodes) (map (snd (backward_of nodes)) (adjacency (dep_edges nodes) x))"
    "snd (backward_of nodes) x = fst (backward_of nodes) x - duration_of (by_table nodes) x"
proof -
  note o = ordered_deps [OF assms(1)]
  have f: "foldl (forward_step (by_table nodes)) (\<lambda>_. 0, \<lambda>_. 0) (order_of nodes) = (fst (forward_of nodes), snd (forward_of nodes))"
    by (simp add: forward_of_def)
  have b: "foldl (backward_step (by_table nodes) (adjacency (dep_edges nodes)) (end_of nodes)) (\<lambda>_. 0, \<lambda>_. 0)
      (rev (order_of nodes)) = (fst (backward_of nodes), snd (backward_of nodes))"
    by (simp add: backward_of_def)
  note table_result [where F = "\<lambda>x. max_default 0" and G = "\<lambda>x v. max_default 0 v + duration_of (by_table nodes) x",
      OF _ o(1) f] table_result [where F = "\<lambda>x. min_default (end_of nodes)"
      and G = "\<lambda>x v. min_default (end_of nodes) v - duration_of (by_table nodes) x", OF _ o(2) b]
  then show "fst (forward_of nodes) x = max_default 0 (map (snd (forward_of nodes)) (deps_of (by_table nodes) x))"
    "snd (forward_of nodes) x = fst (forward_of nodes) x + duration_of (by_table nodes) x"
    "fst (backward_of nodes) x = min_default (end_of nodes) (map (snd (backward_of nodes)) (adjacency (dep_edges nodes) x))"
    "snd (backward_of nodes) x = fst (backward_of nodes) x - duration_of (by_table nodes) x"
    using assms(2) by (simp_all add: forward_step_def backward_step_def Let_def)
qed

interpretation passes: schedule "duration_of (by_table (sound nodes))" "deps_of (by_table (sound nodes))"
    "adjacency (dep_edges (sound nodes))" "order_of (sound nodes)" "fst (forward_of (sound nodes))"
    "snd (forward_of (sound nodes))" "snd (backward_of (sound nodes))" "fst (backward_of (sound nodes))"
    "end_of (sound nodes)" for nodes
proof
  let ?n = "sound nodes"
  have d: "distinct (map av_id ?n)" using admissible_sound(1) by (simp add: admissible_def)
  note o = order_of_result [OF admissible_sound(1)]
  fix x y assume x: "x \<in> set (order_of ?n)"
  show "0 < duration_of (by_table ?n) x" by (rule order_positive [OF admissible_sound(1) x])
  show "y \<in> set (adjacency (dep_edges ?n) x) \<longleftrightarrow> y \<in> set (order_of ?n) \<and> x \<in> set (deps_of (by_table ?n) y)"
    unfolding adjacency_iff deps_of_iff [OF d] o(3) using dep_edge_target by blast
qed (rule ordered_deps [OF admissible_sound(1)] passes_equations [OF admissible_sound(1)] end_of_def; assumption?)+

section \<open>The analysis of integers\<close>

abbreviation analyse_int :: "int activity list \<Rightarrow> cpm_error + int cpm_analysis" where
  "analyse_int \<equiv> analyse (\<lambda>_. False)"

lemma analyse_unfold:
  assumes "admissible nodes"
  shows "analyse_int nodes =
    bindR (critical_chain (\<lambda>_. False) (by_table nodes) (order_of nodes) (fst (forward_of nodes)) (snd (forward_of nodes))
        (\<lambda>i. snd (backward_of nodes) i - fst (forward_of nodes) i = 0)) (\<lambda>critical.
      Inr \<lparr>cp_critical_path = critical, cp_duration = end_of nodes,
        cp_early_start = map (\<lambda>i. (i, fst (forward_of nodes) i)) (order_of nodes),
        cp_early_finish = map (\<lambda>i. (i, snd (forward_of nodes) i)) (order_of nodes),
        cp_late_start = map (\<lambda>i. (i, snd (backward_of nodes) i)) (rev (order_of nodes)),
        cp_late_finish = map (\<lambda>i. (i, fst (backward_of nodes) i)) (rev (order_of nodes)),
        cp_slack = map (\<lambda>i. (i, snd (backward_of nodes) i - fst (forward_of nodes) i)) (order_of nodes),
        cp_on_critical = map (\<lambda>i. (i, snd (backward_of nodes) i - fst (forward_of nodes) i = 0)) (order_of nodes)\<rparr>)"
proof -
  have "foldR add_activity nodes [] = Inr (by_table nodes)" "iterR (check_deps (by_table nodes)) nodes = Inr ()"
    using assms by (auto simp: add_activities_iff check_deps_iff admissible_def)
  then show ?thesis
    using order_of_result(1) [OF assms]
    by (simp add: analyse_def Let_def split_beta forward_of_def [symmetric] end_of_def [symmetric]
        backward_of_def [symmetric])
qed

lemma analyse_rejects:
  assumes "\<not> admissible nodes"
  shows "analyse_int nodes = Inl Cpm_Error"
proof -
  let ?P = "\<lambda>e. e = Cpm_Error"
  have fails: "fails_only ?P (foldR add_activity nodes [])" "fails_only ?P (iterR (check_deps (by_table nodes)) nodes)"
    by (auto simp: add_activity_def check_deps_def intro!: fails_intros)
  show ?thesis
  proof (cases "foldR add_activity nodes []")
    case (Inl e)
    then show ?thesis using fails_onlyD [OF fails(1)] by (simp add: analyse_def)
  next
    case (Inr t)
    then have t: "t = by_table nodes" "distinct (map av_id nodes)" "\<forall>n \<in> set nodes. 0 < av_duration n"
      by (auto simp: add_activities_iff)
    show ?thesis
    proof (cases "iterR (check_deps (by_table nodes)) nodes")
      case (Inl e)
      then show ?thesis using fails_onlyD [OF fails(2)] Inr t(1) by (simp add: analyse_def)
    next
      case ok: (Inr u)
      then have "\<forall>n \<in> set nodes. \<forall>d \<in> set (av_deps n). d \<noteq> av_id n \<and> d \<in> av_id ` set nodes"
        using check_deps_iff by simp
      moreover from this have "\<not> acyclic (set (dep_edges nodes))" using assms t by (auto simp: admissible_def)
      ultimately have "topo_sort nodes (by_table nodes) = Inl Cpm_Error" using topo_sort_result [OF t(2)] by simp
      then show ?thesis using Inr t(1) ok by (simp add: analyse_def)
    qed
  qed
qed

lemma analyse_result:
  assumes "admissible nodes"
  shows "\<exists>a. analyse_int nodes = Inr a \<and> cp_duration a = end_of nodes \<and>
    chain (deps_of (by_table nodes)) (av_id ` set nodes) (cp_critical_path a) \<and>
    weight (duration_of (by_table nodes)) (cp_critical_path a) = end_of nodes \<and>
    (nodes \<noteq> [] \<longrightarrow> cp_critical_path a \<noteq> []) \<and>
    cp_slack a = map (\<lambda>i. (i, snd (backward_of nodes) i - fst (forward_of nodes) i)) (order_of nodes)"
proof -
  have "order_of nodes \<noteq> []" if "nodes \<noteq> []" using order_of_result(3) [OF assms] that by auto
  then show ?thesis
    using passes.critical_chain_result [of nodes "by_table nodes"] assms order_of_result(3) [OF assms]
    by (auto simp: analyse_unfold)
qed

abbreviation node_chain :: "int activity list \<Rightarrow> string list \<Rightarrow> bool" where
  "node_chain nodes p \<equiv> chain (deps_of (by_table nodes)) (av_id ` set nodes) p"

abbreviation node_weight :: "int activity list \<Rightarrow> string list \<Rightarrow> int" where
  "node_weight nodes p \<equiv> weight (duration_of (by_table nodes)) p"

definition ex_nodes :: "int activity list" where
  "ex_nodes = [\<lparr>av_id = ''a'', av_duration = 3, av_deps = [], av_name = None\<rparr>,
     \<lparr>av_id = ''b'', av_duration = 2, av_deps = [''a''], av_name = None\<rparr>,
     \<lparr>av_id = ''c'', av_duration = 1, av_deps = [''a''], av_name = None\<rparr>]"

lemma ex_nodes_admissible: "admissible ex_nodes"
proof -
  have "acyclic (set (dep_edges ex_nodes))"
    by (rule topo_before_acyclic [where os = "[''a'', ''b'', ''c'']"])
      (auto simp: ex_nodes_def dep_edges_def topo_before_def Cons_eq_append_conv)
  then show ?thesis by (simp add: admissible_def ex_nodes_def)
qed

section \<open>Python's numbers on integers\<close>

lemma integer_ops:
  "Integer a + Integer b = Integer (a + b)" "Integer a - Integer b = Integer (a - b)" "0 = Integer 0"
  "Integer a \<le> Integer b \<longleftrightarrow> a \<le> b" "Integer a < Integer b \<longleftrightarrow> a < b" "num_eq (Integer a) (Integer b) \<longleftrightarrow> a = b"
  by (auto simp: plus_pynum_def num_add_def minus_pynum_def num_sub_def zero_pynum_def less_eq_pynum_def
      less_pynum_def dyadic_le_def num_eq_def)

definition lift_activity :: "int activity \<Rightarrow> pynum activity" where
  "lift_activity n = \<lparr>av_id = av_id n, av_duration = Integer (av_duration n), av_deps = av_deps n, av_name = av_name n\<rparr>"

abbreviation lift_dict :: "int activity dict \<Rightarrow> pynum activity dict" where
  "lift_dict d \<equiv> map (\<lambda>kv. (fst kv, lift_activity (snd kv))) d"

abbreviation lift_table :: "int dict \<Rightarrow> pynum dict" where
  "lift_table d \<equiv> map (\<lambda>kv. (fst kv, Integer (snd kv))) d"

definition lift_analysis :: "int cpm_analysis \<Rightarrow> pynum cpm_analysis" where
  "lift_analysis a = \<lparr>cp_critical_path = cp_critical_path a, cp_duration = Integer (cp_duration a),
     cp_early_start = lift_table (cp_early_start a), cp_early_finish = lift_table (cp_early_finish a),
     cp_late_start = lift_table (cp_late_start a), cp_late_finish = lift_table (cp_late_finish a),
     cp_slack = lift_table (cp_slack a), cp_on_critical = cp_on_critical a\<rparr>"

lemma lift_activity_simps [simp]:
  "av_id (lift_activity n) = av_id n" "av_deps (lift_activity n) = av_deps n"
  "av_duration (lift_activity n) = Integer (av_duration n)"
  by (simp_all add: lift_activity_def)

lemma lift_lookup:
  "dget (lift_dict d) i = map_option lift_activity (dget d i)"
  "dput i (lift_activity n) (lift_dict d) = lift_dict (dput i n d)"
  "duration_of (lift_dict d) i = Integer (duration_of d i)" "deps_of (lift_dict d) i = deps_of d i"
  "dkeys (lift_dict d) = dkeys d"
proof -
  show g: "dget (lift_dict d) i = map_option lift_activity (dget d i)" by (induction d) (auto simp: dget_Cons)
  show "dput i (lift_activity n) (lift_dict d) = lift_dict (dput i n d)" by (induction d) (auto simp: dput_def)
  show "duration_of (lift_dict d) i = Integer (duration_of d i)" "deps_of (lift_dict d) i = deps_of d i"
    by (auto simp: duration_of_def deps_of_def g integer_ops split: option.splits)
  show "dkeys (lift_dict d) = dkeys d" by (simp add: dkeys_def)
qed

lemma lift_default:
  "max_default (Integer v) (map (\<lambda>x. Integer (f x)) xs) = Integer (max_default v (map f xs))"
  "min_default (Integer v) (map (\<lambda>x. Integer (f x)) xs) = Integer (min_default v (map f xs))"
proof -
  have "foldl (\<lambda>b y. if b < y then y else b) (Integer b) (map (\<lambda>x. Integer (f x)) ys) =
      Integer (foldl (\<lambda>b y. if b < y then y else b) b (map f ys))" for b ys
    by (induction ys arbitrary: b) (simp_all add: integer_ops)
  then show "max_default (Integer v) (map (\<lambda>x. Integer (f x)) xs) = Integer (max_default v (map f xs))"
    by (cases xs) (simp_all add: max_default_def)
  have "foldl (\<lambda>b y. if y < b then y else b) (Integer b) (map (\<lambda>x. Integer (f x)) ys) =
      Integer (foldl (\<lambda>b y. if y < b then y else b) b (map f ys))" for b ys
    by (induction ys arbitrary: b) (simp_all add: integer_ops)
  then show "min_default (Integer v) (map (\<lambda>x. Integer (f x)) xs) = Integer (min_default v (map f xs))"
    by (cases xs) (simp_all add: min_default_def)
qed

text \<open>The state of a fold over integers, as the same fold over Python's numbers has it.\<close>

lemma lift_fold:
  assumes "\<And>a b x. stepP (L a, K b) x = (L (fst (step (a, b) x)), K (snd (step (a, b) x)))"
  shows "foldl stepP (L a, K b) xs = (L (fst (foldl step (a, b) xs)), K (snd (foldl step (a, b) xs)))"
proof (induction xs arbitrary: a b)
  case (Cons x xs)
  then show ?case using assms [of a b x] Cons.IH [of "fst (step (a, b) x)" "snd (step (a, b) x)"] by simp
qed simp

abbreviation lift_fun :: "(string \<Rightarrow> int) \<Rightarrow> string \<Rightarrow> pynum" where
  "lift_fun f \<equiv> \<lambda>i. Integer (f i)"

lemma lift_forward:
  "foldl (forward_step (lift_dict d)) (\<lambda>_. 0, \<lambda>_. 0) os =
     (lift_fun (fst (foldl (forward_step d) (\<lambda>_. 0, \<lambda>_. 0) os)), lift_fun (snd (foldl (forward_step d) (\<lambda>_. 0, \<lambda>_. 0) os)))"
  using lift_fold [of "forward_step (lift_dict d)" lift_fun lift_fun "forward_step d" "\<lambda>_. 0" "\<lambda>_. 0" os]
  by (auto simp: forward_step_def Let_def lift_lookup lift_default integer_ops fun_eq_iff)

lemma lift_backward:
  "foldl (backward_step (lift_dict d) nb (Integer pe)) (\<lambda>_. 0, \<lambda>_. 0) os =
     (lift_fun (fst (foldl (backward_step d nb pe) (\<lambda>_. 0, \<lambda>_. 0) os)),
      lift_fun (snd (foldl (backward_step d nb pe) (\<lambda>_. 0, \<lambda>_. 0) os)))"
  using lift_fold [of "backward_step (lift_dict d) nb (Integer pe)" lift_fun lift_fun "backward_step d nb pe" "\<lambda>_. 0" "\<lambda>_. 0" os]
  by (auto simp: backward_step_def Let_def lift_lookup lift_default integer_ops fun_eq_iff)

lemma lift_pred:
  "foldl (pred_step on (lift_fun ef) (lift_fun len) (Integer start) (Integer w)) (Integer b, c) ds =
     (Integer (fst (foldl (pred_step on ef len start w) (b, c) ds)), snd (foldl (pred_step on ef len start w) (b, c) ds))"
  using lift_fold [of "pred_step on (lift_fun ef) (lift_fun len) (Integer start) (Integer w)" Integer "\<lambda>c. c"
      "pred_step on ef len start w" b c ds]
  by (auto simp: pred_step_def integer_ops)

lemma lift_chain:
  "foldl (chain_step (lift_dict d) (lift_fun es) (lift_fun ef) on) (\<lambda>_. 0, \<lambda>_. None) os =
     (lift_fun (fst (foldl (chain_step d es ef on) (\<lambda>_. 0, \<lambda>_. None) os)),
      snd (foldl (chain_step d es ef on) (\<lambda>_. 0, \<lambda>_. None) os))"
  using lift_fold [of "chain_step (lift_dict d) (lift_fun es) (lift_fun ef) on" lift_fun "\<lambda>c. c" "chain_step d es ef on"
      "\<lambda>_. 0" "\<lambda>_. None" os]
  by (auto simp: chain_step_def lift_lookup lift_pred integer_ops fun_eq_iff split: prod.splits)

lemma lift_first_max: "first_max (lift_fun len) keys = first_max len keys"
  by (simp add: first_max_def integer_ops)

lemma lift_computed: "computed (\<lambda>x. x = Overflow) (map (lift_fun f) xs) = Inr ()"
  by (auto simp: computed_def rejectR_def list_ex_iff)

lemma computed_append: "computed bad (xs @ ys) = thenR (computed bad xs) (computed bad ys)"
  by (auto simp: computed_def rejectR_def)

lemma lift_critical:
  "critical_chain (\<lambda>x. x = Overflow) (lift_dict d) os (lift_fun es) (lift_fun ef) on =
     critical_chain (\<lambda>_. False) d os es ef on"
  by (simp add: critical_chain_def lift_chain lift_computed lift_first_max split_beta)

lemma lift_added:
  "foldR add_activity (map lift_activity nodes) (lift_dict d) = map_sum id lift_dict (foldR add_activity nodes d)"
proof (induction nodes arbitrary: d)
  case (Cons n nodes)
  have "add_activity (lift_activity n) (lift_dict d) = map_sum id lift_dict (add_activity n d)"
    by (simp add: add_activity_def lift_lookup integer_ops rejectR_def)
  then show ?case using Cons.IH by (cases "add_activity n d") simp_all
qed simp

lemma lift_checked: "iterR (check_deps (lift_dict d)) (map lift_activity nodes) = iterR (check_deps d) nodes"
proof -
  have "check_deps (lift_dict d) (lift_activity n) = check_deps d n" for n
    by (simp add: check_deps_def lift_lookup)
  then show ?thesis by (induction nodes) simp_all
qed

lemma lift_order: "topo_sort (map lift_activity nodes) (lift_dict d) = topo_sort nodes d"
  "dep_edges (map lift_activity nodes) = dep_edges nodes"
proof -
  show e: "dep_edges (map lift_activity nodes) = dep_edges nodes" by (simp add: dep_edges_def comp_def)
  show "topo_sort (map lift_activity nodes) (lift_dict d) = topo_sort nodes d"
    unfolding topo_sort_def e lift_lookup length_map ..
qed

lemma map_bindR: "map_sum id f (bindR r g) = bindR r (\<lambda>x. map_sum id f (g x))"
  by (cases r) simp_all

lemma lift_analyse: "analyse_cpm (map lift_activity nodes) = map_sum id lift_analysis (analyse_int nodes)"
proof (cases "foldR add_activity nodes []")
  case (Inl e)
  then show ?thesis using lift_added [of nodes "[]"] by (simp add: analyse_cpm_def analyse_def)
next
  case (Inr d)
  then have d: "foldR add_activity (map lift_activity nodes) [] = Inr (lift_dict d)" using lift_added [of nodes "[]"] by simp
  show ?thesis
  proof (cases "iterR (check_deps d) nodes"; cases "topo_sort nodes d")
    fix u os assume ok: "iterR (check_deps d) nodes = Inr u" "topo_sort nodes d = Inr os"
    obtain es ef where f: "foldl (forward_step d) (\<lambda>_. 0, \<lambda>_. 0) os = (es, ef)" by force
    let ?pe = "max_default 0 (map ef os)" and ?nb = "adjacency (dep_edges nodes)"
    obtain lf ls where b: "foldl (backward_step d ?nb ?pe) (\<lambda>_. 0, \<lambda>_. 0) (rev os) = (lf, ls)" by force
    have pe: "max_default 0 (map (lift_fun ef) os) = Integer ?pe" using lift_default(1) [of 0 ef os] by (simp add: integer_ops)
    have zero: "num_eq (Integer a - Integer b) 0 \<longleftrightarrow> num_eq (a - b) 0" for a b by (simp add: integer_ops)
    have passes: "foldl (forward_step (lift_dict d)) (\<lambda>_. 0, \<lambda>_. 0) os = (lift_fun es, lift_fun ef)"
      "foldl (backward_step (lift_dict d) ?nb (Integer ?pe)) (\<lambda>_. 0, \<lambda>_. 0) (rev os) = (lift_fun lf, lift_fun ls)"
      by (simp_all add: lift_forward lift_backward f b)
    show ?thesis
      unfolding analyse_cpm_def analyse_def d Inr lift_checked lift_order ok bindR_simps thenR_simps f passes Let_def
        split_conv pe b zero lift_critical computed_append
      by (simp add: lift_computed integer_ops(1,2) lift_analysis_def comp_def map_bindR)
  qed (simp_all add: analyse_cpm_def analyse_def d Inr lift_checked lift_order)
qed

text \<open>The analysis of integers succeeds exactly on the networks the method is defined for: identifiers
  are unique, durations positive, dependencies known and distinct from their activity, and the
  dependency graph is acyclic; everything else is refused with \<open>CpmError\<close>.\<close>

lemma analyse_succeeds_iff:
  "(isOk (analyse_int nodes) \<longleftrightarrow> admissible nodes) \<and> (isOk (analyse_int nodes) \<or> analyse_int nodes = Inl Cpm_Error)"
  using analyse_result [of nodes] analyse_rejects [of nodes] by (cases "admissible nodes") auto

text \<open>Slack measures criticality: every activity has a non-negative slack, and it is zero exactly
  when the activity lies on a chain that takes the whole duration of the project.\<close>

lemma slack_zero_iff:
  assumes "analyse_int nodes = Inr a" "(i, s) \<in> set (cp_slack a)"
  shows "0 \<le> s \<and> (s = 0 \<longleftrightarrow> (\<exists>p. node_chain nodes p \<and> i \<in> set p \<and> node_weight nodes p = cp_duration a))"
proof -
  have adm: "admissible nodes" using analyse_rejects [of nodes] assms(1) by auto
  then have i: "i \<in> set (order_of nodes)" "s = snd (backward_of nodes) i - fst (forward_of nodes) i"
    "cp_duration a = end_of nodes"
    using analyse_result [OF adm] assms by auto
  then show ?thesis
    using passes.slack_nonneg [of i nodes] passes.critical_iff [of i nodes] adm order_of_result(3) [OF adm] by simp
qed

lemma analyse_longest:
  assumes "analyse_int nodes = Inr a"
  shows "node_chain nodes (cp_critical_path a) \<and> node_weight nodes (cp_critical_path a) = cp_duration a \<and>
    (nodes \<noteq> [] \<longrightarrow> cp_critical_path a \<noteq> []) \<and> (\<forall>p. node_chain nodes p \<longrightarrow> node_weight nodes p \<le> cp_duration a)"
proof -
  have adm: "admissible nodes" using analyse_rejects [of nodes] assms by auto
  have "node_weight nodes p \<le> end_of nodes" if "node_chain nodes p" for p
    using passes.chain_le_end [of nodes p] that order_of_result(3) [OF adm] adm by simp
  then show ?thesis using analyse_result [OF adm] assms by auto
qed

text \<open>The activities of a network as the code has them, read as a graph: who precedes whom, and the
  integer an activity takes (0 where its duration is none).\<close>

definition precedes :: "pynum activity list \<Rightarrow> string \<Rightarrow> string \<Rightarrow> bool" where
  "precedes nodes i j \<longleftrightarrow> (\<exists>n \<in> set nodes. av_id n = j \<and> i \<in> set (av_deps n))"

definition path_of :: "pynum activity list \<Rightarrow> string list \<Rightarrow> bool" where
  "path_of nodes p \<longleftrightarrow> set p \<subseteq> av_id ` set nodes \<and> successively (precedes nodes) p"

definition takes :: "pynum activity list \<Rightarrow> string \<Rightarrow> int" where
  "takes nodes i = (case find (\<lambda>n. av_id n = i) nodes of
     Some n \<Rightarrow> (case av_duration n of Integer d \<Rightarrow> d | _ \<Rightarrow> 0) | None \<Rightarrow> 0)"

lemma path_lift: "distinct (map av_id nodes) \<Longrightarrow> path_of (map lift_activity nodes) p \<longleftrightarrow> node_chain nodes p"
proof -
  assume d: "distinct (map av_id nodes)"
  have "precedes (map lift_activity nodes) i j \<longleftrightarrow> i \<in> set (deps_of (by_table nodes) j)" for i j
    unfolding deps_of_iff [OF d] by (auto simp: precedes_def dep_edges_def)
  then show ?thesis by (simp add: path_of_def chain_def image_image)
qed

lemma takes_lift: "takes (map lift_activity nodes) i = duration_of (by_table nodes) i"
  by (induction nodes) (auto simp: takes_def duration_of_def by_table_def dget_Cons)

lemma integer_nodes: "\<forall>n \<in> set nodes. \<exists>d. av_duration n = Integer d \<Longrightarrow> \<exists>ns. nodes = map lift_activity ns"
proof (induction nodes)
  case (Cons n nodes)
  then obtain ns d where "nodes = map lift_activity ns" "av_duration n = Integer d" by auto
  moreover have "n = lift_activity \<lparr>av_id = av_id n, av_duration = d, av_deps = av_deps n, av_name = av_name n\<rparr>"
    using calculation(2) by (simp add: lift_activity_def)
  ultimately have "n # nodes = map lift_activity (\<lparr>av_id = av_id n, av_duration = d, av_deps = av_deps n, av_name = av_name n\<rparr> # ns)"
    by simp
  then show ?case by (rule exI)
qed simp

text \<open>C23: With integer durations of any size, the critical path is a longest chain: a sequence of
  activities of the network, each a dependency of the next, whose durations add up to the reported
  duration of the project, and no other chain takes longer. It is not empty when the network is not. The
  code also admits doubles, for which this is false (\<open>float_chain_lost\<close>).\<close>

theorem critical_path_longest:
  assumes "analyse_cpm nodes = Inr a" "\<forall>n \<in> set nodes. \<exists>d. av_duration n = Integer d"
  shows "path_of nodes (cp_critical_path a) \<and>
    cp_duration a = Integer (sum_list (map (takes nodes) (cp_critical_path a))) \<and>
    (nodes \<noteq> [] \<longrightarrow> cp_critical_path a \<noteq> []) \<and>
    (\<forall>p. path_of nodes p \<longrightarrow> sum_list (map (takes nodes) p) \<le> sum_list (map (takes nodes) (cp_critical_path a)))"
proof -
  obtain ns where ns: "nodes = map lift_activity ns" using integer_nodes [OF assms(2)] by blast
  obtain b where b: "analyse_int ns = Inr b" "a = lift_analysis b"
    using assms(1) unfolding ns lift_analyse by (cases "analyse_int ns") auto
  have d: "distinct (map av_id ns)" using analyse_rejects [of ns] b(1) by (auto simp: admissible_def)
  have "takes nodes = duration_of (by_table ns)" by (rule ext) (simp add: ns takes_lift)
  then show ?thesis
    using analyse_longest [OF b(1)] by (simp add: ns b(2) path_lift [OF d] lift_analysis_def weight_def)
qed

lemma critical_path_longest_witness:
  "\<exists>a d. analyse_cpm (map lift_activity ex_nodes) = Inr a \<and> cp_duration a = Integer d"
proof -
  obtain b where "analyse_int ex_nodes = Inr b" using analyse_result [OF ex_nodes_admissible] by blast
  then have a: "analyse_cpm (map lift_activity ex_nodes) = Inr (lift_analysis b)" by (simp add: lift_analyse)
  show ?thesis using critical_path_longest [OF a] a by auto
qed

section \<open>Doubles\<close>

lemmas float_defs = plus_pynum_def minus_pynum_def zero_pynum_def less_eq_pynum_def less_pynum_def
  num_add_def num_sub_def to_float_def float_of_def float_neg_def round53_def bit_length.simps dyadic_le_def num_eq_def

lemma float_sums:
  "0 + Float 3602879701896397 (-55) = Float 3602879701896397 (-55)"
  "Float 3602879701896397 (-55) + Float 3602879701896397 (-54) = Float 10808639105689192 (-55)"
  "Float 10808639105689192 (-55) - Float 3602879701896397 (-54) = Float 3602879701896398 (-55)"
  "Float 3602879701896398 (-55) - Float 3602879701896397 (-55) = Float 1 (-55)" "Float 1 (-55) - 0 = Float 1 (-55)"
  "Float 3602879701896397 (-55) < Float 10808639105689192 (-55)" "\<not> num_eq (Float 1 (-55)) 0"
  "\<not> Float 3602879701896397 (-55) \<le> 0" "\<not> Float 3602879701896397 (-54) \<le> 0"
  by (simp_all add: float_defs)

text \<open>Two activities that take 0.1 and 0.2, one after the other. The project takes 0.30000000000000004,
  and going back from it leaves both a slack of 2.7755575615628914e-17: no slack is zero, and the critical
  path is empty.\<close>

definition float_nodes :: "pynum activity list" where
  "float_nodes = [\<lparr>av_id = ''a'', av_duration = Float 3602879701896397 (-55), av_deps = [], av_name = None\<rparr>,
     \<lparr>av_id = ''b'', av_duration = Float 3602879701896397 (-54), av_deps = [''a''], av_name = None\<rparr>]"

lemma float_chain_lost:
  "\<exists>a. analyse_cpm float_nodes = Inr a \<and> cp_critical_path a = [] \<and> cp_duration a = Float 10808639105689192 (-55) \<and>
     cp_slack a = [(''a'', Float 1 (-55)), (''b'', Float 1 (-55))]"
proof -
  let ?d = "map (\<lambda>n. (av_id n, n)) float_nodes"
  have table: "foldR add_activity float_nodes [] = Inr ?d" "iterR (check_deps ?d) float_nodes = Inr ()"
    by (simp_all add: float_nodes_def add_activity_def check_deps_def float_sums dput_def dget_def)
  have topo: "topo_sort float_nodes ?d = Inr [''a'', ''b'']" by code_simp
  have look: "duration_of ?d ''a'' = Float 3602879701896397 (-55)" "duration_of ?d ''b'' = Float 3602879701896397 (-54)"
    "deps_of ?d ''a'' = []" "deps_of ?d ''b'' = [''a'']" "adjacency (dep_edges float_nodes) ''a'' = [''b'']"
    "adjacency (dep_edges float_nodes) ''b'' = []"
    by (simp_all add: duration_of_def deps_of_def dget_def float_nodes_def dep_edges_def adjacency_def)
  show ?thesis
    unfolding analyse_cpm_def analyse_def table bindR_simps thenR_simps topo
    by (simp add: forward_step_def backward_step_def look max_default_def min_default_def Let_def critical_chain_def
        chain_step_def computed_def float_sums)
qed

end
