(* ===== verification/Locks.thy ===== *)
theory Locks
  imports Py_Values
begin

text \<open>
  \<open>contracts/components_lock.py\<close>: the pinned component set. Lock entries and locks reject
  malformed values on construction; a lock is addressed by the hash of its canonical bytes.
  The errors of the whole distribution layer are one datatype, a constructor per exception
  class; \<open>ThresholdError\<close> is a \<open>SignatureError\<close> and \<open>GraphError\<close> a \<open>ResolveError\<close>.
\<close>

section \<open>Errors\<close>

datatype dist_error =
    Lock_Error | Resolve_Error | Graph_Error | Cache_Error | Bundle_Error
  | Signature_Error | Threshold_Error | Trust_Error | Transparency_Error | Signing_Error
  | Py_Raise py_error | Recursion_Error

definition is_signature_error :: "dist_error \<Rightarrow> bool" where
  "is_signature_error e \<longleftrightarrow> e = Signature_Error \<or> e = Threshold_Error"

definition is_resolve_error :: "dist_error \<Rightarrow> bool" where
  "is_resolve_error e \<longleftrightarrow> e = Resolve_Error \<or> e = Graph_Error"

abbreviation lock_reject :: "bool \<Rightarrow> dist_error + unit" where
  "lock_reject b \<equiv> rejectR b Lock_Error"

definition LOCK_SCHEMA :: string where "LOCK_SCHEMA = ''components.lock/v1''"

section \<open>Entries\<close>

record lock_entry =
  le_name :: string
  le_repo_url :: string
  le_commit_sha :: string
  le_tree_sha256 :: string
  le_implements :: "string list"
  le_capabilities :: "string list"
  le_signature :: string
  le_envelope :: "pyval dict"

definition re_commit :: "string \<Rightarrow> bool" where
  "re_commit s \<longleftrightarrow> re_hex 40 s \<or> re_hex 64 s"

definition mk_lock_entry :: "lock_entry \<Rightarrow> dist_error + lock_entry" where
  "mk_lock_entry e =
     thenR (lock_reject (le_name e = []))
     (thenR (lock_reject (le_repo_url e = []))
     (thenR (lock_reject (\<not> re_commit (le_commit_sha e)))
     (thenR (lock_reject (\<not> re_hex 64 (le_tree_sha256 e)))
     (thenR (lock_reject (le_implements e = [])) (Inr e)))))"

definition lock_entry_to_dict :: "lock_entry \<Rightarrow> pyval" where
  "lock_entry_to_dict e = PDict
     ([(''name'', PStr (le_name e)), (''repo_url'', PStr (le_repo_url e)),
       (''commit_sha'', PStr (le_commit_sha e)), (''tree_sha256'', PStr (le_tree_sha256 e)),
       (''implements'', PStrs (le_implements e)), (''capabilities'', PStrs (le_capabilities e)),
       (''signature'', PStr (le_signature e))]
      @ (if le_envelope e \<noteq> [] then [(''envelope'', PDict (le_envelope e))] else []))"

definition str_field :: "pyval dict \<Rightarrow> string \<Rightarrow> string" where
  "str_field kvs key = py_str (dget_or kvs key (PStr []))"

definition strs_field :: "pyval dict \<Rightarrow> string \<Rightarrow> dist_error + string list" where
  "strs_field kvs key = liftR Py_Raise (str_tuple (dget_or kvs key (PList [])))"

definition lock_entry_from_dict :: "pyval \<Rightarrow> dist_error + lock_entry" where
  "lock_entry_from_dict raw =
     (case raw of
        PDict kvs \<Rightarrow>
          (case dget_or kvs ''envelope'' (PDict []) of
             PDict envelope \<Rightarrow>
               bindR (strs_field kvs ''implements'') (\<lambda>implements.
               bindR (strs_field kvs ''capabilities'') (\<lambda>capabilities.
                 mk_lock_entry \<lparr>le_name = str_field kvs ''name'', le_repo_url = str_field kvs ''repo_url'',
                   le_commit_sha = str_field kvs ''commit_sha'', le_tree_sha256 = str_field kvs ''tree_sha256'',
                   le_implements = implements, le_capabilities = capabilities,
                   le_signature = str_field kvs ''signature'', le_envelope = envelope\<rparr>))
           | _ \<Rightarrow> Inl Lock_Error)
      | _ \<Rightarrow> Inl Lock_Error)"

section \<open>Locks\<close>

record lock =
  lk_root :: string
  lk_entries :: "lock_entry list"
  lk_contracts :: "string list"
  lk_schema :: string

definition mk_lock :: "lock \<Rightarrow> dist_error + lock" where
  "mk_lock l =
     thenR (lock_reject (lk_schema l \<noteq> LOCK_SCHEMA))
     (thenR (lock_reject (lk_root l = []))
     (thenR (lock_reject (lk_entries l = []))
     (thenR (lock_reject (lk_contracts l = []))
     (thenR (lock_reject (\<not> distinct (map le_name (lk_entries l))))
     (thenR (lock_reject (lk_root l \<notin> set (map le_name (lk_entries l)))) (Inr l))))))"

definition lock_to_dict :: "lock \<Rightarrow> pyval" where
  "lock_to_dict l = PDict [(''schema'', PStr (lk_schema l)), (''harness_contracts'', PStrs (lk_contracts l)),
     (''root'', PStr (lk_root l)), (''entries'', PList (map lock_entry_to_dict (lk_entries l)))]"

definition lock_bytes :: "lock \<Rightarrow> string" where
  "lock_bytes l = canonical_bytes (lock_to_dict l)"

definition lock_hash :: "(string \<Rightarrow> string) \<Rightarrow> lock \<Rightarrow> string" where
  "lock_hash sha l = sha (lock_bytes l)"

definition entry_of :: "lock \<Rightarrow> string \<Rightarrow> dist_error + lock_entry" where
  "entry_of l name =
     (case find (\<lambda>e. le_name e = name) (lk_entries l) of None \<Rightarrow> Inl Lock_Error | Some e \<Rightarrow> Inr e)"

text \<open>A missing field is a \<open>LockError\<close>; any other failure of the access is not caught.\<close>

definition lock_field :: "pyval \<Rightarrow> string \<Rightarrow> dist_error + pyval" where
  "lock_field data key =
     liftR (\<lambda>e. case e of Missing_Key _ \<Rightarrow> Lock_Error | _ \<Rightarrow> Py_Raise e) (subscript data key)"

definition lock_from_dict :: "pyval \<Rightarrow> dist_error + lock" where
  "lock_from_dict data =
     bindR (lock_field data ''schema'') (\<lambda>schema.
     bindR (lock_field data ''root'') (\<lambda>root.
     bindR (lock_field data ''entries'') (\<lambda>raw.
     bindR (lock_field data ''harness_contracts'') (\<lambda>hc.
     bindR (liftR Py_Raise (str_tuple hc)) (\<lambda>contracts.
       case raw of
         PList items \<Rightarrow>
           bindR (mapR lock_entry_from_dict items) (\<lambda>entries.
             mk_lock \<lparr>lk_root = py_str root, lk_entries = entries, lk_contracts = contracts, lk_schema = py_str schema\<rparr>)
       | _ \<Rightarrow> Inl Lock_Error)))))"

section \<open>Well-formed locks and their round trip\<close>

definition entry_ok :: "lock_entry \<Rightarrow> bool" where
  "entry_ok e \<longleftrightarrow> le_name e \<noteq> [] \<and> le_repo_url e \<noteq> [] \<and> re_commit (le_commit_sha e) \<and>
     re_hex 64 (le_tree_sha256 e) \<and> le_implements e \<noteq> [] \<and> wf_pyval (PDict (le_envelope e))"

definition lock_ok :: "lock \<Rightarrow> bool" where
  "lock_ok l \<longleftrightarrow> lk_schema l = LOCK_SCHEMA \<and> lk_root l \<noteq> [] \<and> lk_entries l \<noteq> [] \<and> lk_contracts l \<noteq> [] \<and>
     distinct (map le_name (lk_entries l)) \<and> lk_root l \<in> set (map le_name (lk_entries l)) \<and>
     (\<forall>e \<in> set (lk_entries l). entry_ok e)"

text \<open>What identifies an entry: the keys of its envelope have no order.\<close>

definition norm_entry :: "lock_entry \<Rightarrow> lock_entry" where
  "norm_entry e = e\<lparr>le_envelope := sort_key fst (map (\<lambda>kv. (fst kv, json_norm (snd kv))) (le_envelope e))\<rparr>"

definition norm_lock :: "lock \<Rightarrow> lock" where
  "norm_lock l = l\<lparr>lk_entries := map norm_entry (lk_entries l)\<rparr>"

lemma mk_lock_entry_ok: "entry_ok e \<Longrightarrow> mk_lock_entry e = Inr e"
  by (simp add: mk_lock_entry_def entry_ok_def)

lemma mk_lock_ok: "lock_ok l \<Longrightarrow> mk_lock l = Inr l"
  by (simp add: mk_lock_def lock_ok_def)

lemma wf_entry_dict: "entry_ok e \<Longrightarrow> wf_pyval (lock_entry_to_dict e)"
  by (auto simp: lock_entry_to_dict_def entry_ok_def)

lemma wf_lock_dict: "lock_ok l \<Longrightarrow> wf_pyval (lock_to_dict l)"
  by (simp add: lock_to_dict_def lock_ok_def list_all_iff wf_entry_dict)

lemma entry_ok_norm: "entry_ok e \<Longrightarrow> entry_ok (norm_entry e)"
  using wf_pyval_norm [of "PDict (le_envelope e)"] by (simp add: entry_ok_def norm_entry_def)

lemma json_norm_entry: "json_norm (lock_entry_to_dict e) =
  PDict ([(''capabilities'', PStrs (le_capabilities e)), (''commit_sha'', PStr (le_commit_sha e))]
     @ (if le_envelope e \<noteq> [] then [(''envelope'', json_norm (PDict (le_envelope e)))] else [])
     @ [(''implements'', PStrs (le_implements e)), (''name'', PStr (le_name e)), (''repo_url'', PStr (le_repo_url e)),
       (''signature'', PStr (le_signature e)), (''tree_sha256'', PStr (le_tree_sha256 e))])"
  by (simp add: lock_entry_to_dict_def sort_key_simps)

lemma json_norm_Nil_iff: "sort_key fst (map (\<lambda>kv. (fst kv, json_norm (snd kv))) kvs) = [] \<longleftrightarrow> kvs = []"
  by (metis length_0_conv length_map length_sort)

lemma entry_parse_norm:
  assumes "entry_ok e"
  shows "lock_entry_from_dict (json_norm (lock_entry_to_dict e)) = Inr (norm_entry e)"
  using mk_lock_entry_ok [OF entry_ok_norm [OF assms]]
  by (cases e; cases "le_envelope e = []")
    (simp_all add: lock_entry_from_dict_def json_norm_entry dget_or_def dget_Cons strs_field_def str_field_def
      norm_entry_def)

lemma le_name_norm [simp]: "le_name (norm_entry e) = le_name e"
  by (simp add: norm_entry_def)

lemma lock_ok_norm: "lock_ok l \<Longrightarrow> lock_ok (norm_lock l)"
  by (auto simp: lock_ok_def norm_lock_def entry_ok_norm comp_def)

lemma lock_parse_norm:
  assumes "lock_ok l"
  shows "lock_from_dict (json_norm (lock_to_dict l)) = Inr (norm_lock l)"
proof -
  have "mapR lock_entry_from_dict (map (\<lambda>e. json_norm (lock_entry_to_dict e)) (lk_entries l)) =
      Inr (map norm_entry (lk_entries l))"
    using assms entry_parse_norm
    by (auto simp: lock_ok_def result_simps list_all2_map1 list_all2_map2 intro!: list.rel_refl_strong)
  then show ?thesis
    using mk_lock_ok [OF lock_ok_norm [OF assms]]
    by (cases l) (simp add: lock_from_dict_def lock_to_dict_def sort_key_simps lock_field_def dget_Cons norm_lock_def comp_def)
qed

lemma json_norm_lock: "json_norm (lock_to_dict (norm_lock l)) = json_norm (lock_to_dict l)"
proof -
  have "json_norm (lock_entry_to_dict (norm_entry e)) = json_norm (lock_entry_to_dict e)" for e
    using json_norm_idem [of "PDict (le_envelope e)"]
    by (simp add: json_norm_entry norm_entry_def json_norm_Nil_iff del: json_norm_idem)
  then show ?thesis by (simp add: lock_to_dict_def norm_lock_def sort_key_simps comp_def)
qed

lemma lock_bytes_inj:
  assumes "lock_ok l" "lock_ok m"
  shows "lock_bytes l = lock_bytes m \<longleftrightarrow> norm_lock l = norm_lock m"
proof
  assume "lock_bytes l = lock_bytes m"
  then have "json_norm (lock_to_dict l) = json_norm (lock_to_dict m)"
    using canonical_bytes_eq_iff [OF wf_lock_dict [OF assms(1)] wf_lock_dict [OF assms(2)]] by (simp add: lock_bytes_def)
  then show "norm_lock l = norm_lock m" using lock_parse_norm assms by (metis sum.inject(2))
next
  assume "norm_lock l = norm_lock m"
  then have "json_norm (lock_to_dict l) = json_norm (lock_to_dict m)" using json_norm_lock by metis
  then show "lock_bytes l = lock_bytes m" by (simp add: lock_bytes_def canonical_bytes_def)
qed

end
