(* ===== verification/Manifest.thy ===== *)
theory Manifest
  imports Locks
begin

text \<open>
  \<open>contracts/component.py\<close> and \<open>contracts/capability.py\<close>: the declaration a component carries
  in its bundle. A manifest that names an edge is refused: dependencies live in network
  documents only. Malformed values raise \<open>ValueError\<close>.
\<close>

abbreviation value_reject :: "bool \<Rightarrow> dist_error + unit" where
  "value_reject b \<equiv> rejectR b (Py_Raise Value_Error)"

definition field :: "pyval \<Rightarrow> string \<Rightarrow> dist_error + pyval" where
  "field v key = liftR Py_Raise (subscript v key)"

definition field_or :: "pyval \<Rightarrow> string \<Rightarrow> pyval \<Rightarrow> dist_error + pyval" where
  "field_or v key dflt = liftR Py_Raise (get_or v key dflt)"

definition iter_of :: "pyval \<Rightarrow> dist_error + pyval list" where
  "iter_of v = (case iter_values v of None \<Rightarrow> Inl (Py_Raise Type_Error) | Some vs \<Rightarrow> Inr vs)"

section \<open>Parts of a manifest\<close>

record capability =
  ca_name :: string
  ca_version :: string

definition mk_capability :: "string \<Rightarrow> string \<Rightarrow> dist_error + capability" where
  "mk_capability name version =
     thenR (value_reject (name = [])) (thenR (value_reject (version = [])) (Inr \<lparr>ca_name = name, ca_version = version\<rparr>))"

record state_descriptor =
  sd_kind :: string
  sd_path :: string
  sd_single_writer :: bool

definition mk_state :: "string \<Rightarrow> string \<Rightarrow> bool \<Rightarrow> dist_error + state_descriptor" where
  "mk_state kind path single =
     thenR (value_reject (kind \<noteq> ''sqlite'')) (thenR (value_reject (path = [])) (thenR (value_reject (\<not> single))
       (Inr \<lparr>sd_kind = kind, sd_path = path, sd_single_writer = single\<rparr>)))"

definition state_to_dict :: "state_descriptor \<Rightarrow> pyval" where
  "state_to_dict s = PDict [(''kind'', PStr (sd_kind s)), (''path'', PStr (sd_path s)),
     (''single_writer'', PBool (sd_single_writer s))]"

definition state_from_dict :: "pyval \<Rightarrow> dist_error + state_descriptor" where
  "state_from_dict v =
     bindR (field v ''kind'') (\<lambda>k. bindR (field v ''path'') (\<lambda>p.
       bindR (field_or v ''single_writer'' (PBool True)) (\<lambda>w. mk_state (py_str k) (py_str p) (truthy w))))"

record entry_descriptor =
  ed_runtime :: string
  ed_entrypoint :: string

definition runtime_kinds :: "string list" where
  "runtime_kinds = [''python'', ''process'']"

definition mk_entry :: "string \<Rightarrow> string \<Rightarrow> dist_error + entry_descriptor" where
  "mk_entry runtime entrypoint =
     thenR (value_reject (runtime \<notin> set runtime_kinds)) (thenR (value_reject (entrypoint = []))
       (Inr \<lparr>ed_runtime = runtime, ed_entrypoint = entrypoint\<rparr>))"

definition entry_to_dict :: "entry_descriptor \<Rightarrow> pyval" where
  "entry_to_dict e = PDict [(''runtime'', PStr (ed_runtime e)), (''entrypoint'', PStr (ed_entrypoint e))]"

definition entry_from_dict :: "pyval \<Rightarrow> dist_error + entry_descriptor" where
  "entry_from_dict v =
     bindR (field v ''runtime'') (\<lambda>r. bindR (field v ''entrypoint'') (\<lambda>e. mk_entry (py_str r) (py_str e)))"

record child_ref =
  cr_embed :: string
  cr_ref :: string

definition mk_child :: "string \<Rightarrow> string \<Rightarrow> dist_error + child_ref" where
  "mk_child em rf = thenR (value_reject ((em \<noteq> []) = (rf \<noteq> []))) (Inr \<lparr>cr_embed = em, cr_ref = rf\<rparr>)"

definition child_mode :: "child_ref \<Rightarrow> string" where
  "child_mode c = (if cr_embed c \<noteq> [] then ''embed'' else ''ref'')"

definition child_target :: "child_ref \<Rightarrow> string" where
  "child_target c = (if cr_embed c \<noteq> [] then cr_embed c else cr_ref c)"

definition child_to_dict :: "child_ref \<Rightarrow> pyval" where
  "child_to_dict c = PDict [(child_mode c, PStr (child_target c))]"

definition child_from_dict :: "pyval \<Rightarrow> dist_error + child_ref" where
  "child_from_dict v =
     bindR (field_or v ''embed'' (PStr [])) (\<lambda>e. bindR (field_or v ''ref'' (PStr [])) (\<lambda>r. mk_child (py_str e) (py_str r)))"

record provenance =
  pv_repo_url :: string
  pv_commit_sha :: string
  pv_tree_sha256 :: string
  pv_signature :: string

definition mk_provenance :: "string \<Rightarrow> string \<Rightarrow> string \<Rightarrow> string \<Rightarrow> dist_error + provenance" where
  "mk_provenance url commit tree sig =
     thenR (value_reject (url = [])) (thenR (value_reject (\<not> re_commit commit)) (thenR (value_reject (\<not> re_hex 64 tree))
       (Inr \<lparr>pv_repo_url = url, pv_commit_sha = commit, pv_tree_sha256 = tree, pv_signature = sig\<rparr>)))"

definition provenance_to_dict :: "provenance \<Rightarrow> pyval" where
  "provenance_to_dict p = PDict [(''repo_url'', PStr (pv_repo_url p)), (''commit_sha'', PStr (pv_commit_sha p)),
     (''tree_sha256'', PStr (pv_tree_sha256 p)), (''signature'', PStr (pv_signature p))]"

definition provenance_from_dict :: "pyval \<Rightarrow> dist_error + provenance" where
  "provenance_from_dict v =
     bindR (field v ''repo_url'') (\<lambda>u. bindR (field v ''commit_sha'') (\<lambda>c. bindR (field v ''tree_sha256'') (\<lambda>t.
       bindR (field_or v ''signature'' (PStr [])) (\<lambda>s. mk_provenance (py_str u) (py_str c) (py_str t) (py_str s)))))"

section \<open>The manifest\<close>

record manifest =
  mf_version :: string
  mf_name :: string
  mf_kind :: string
  mf_entry :: entry_descriptor
  mf_implements :: "string list"
  mf_state :: "state_descriptor option"
  mf_children :: "child_ref list"
  mf_directive :: string
  mf_capabilities :: "capability list"
  mf_provenance :: "provenance option"
  mf_ports :: "string list dict"

definition COMPONENT_V1 :: string where "COMPONENT_V1 = ''component.v1''"
definition COMPOSITE :: string where "COMPOSITE = ''composite''"

definition component_kinds :: "string list" where
  "component_kinds = [''atomic'', COMPOSITE, ''model'']"

definition forbidden_edge_keys :: "string list" where
  "forbidden_edge_keys = [''edges'', ''wires'', ''connections'']"

definition mk_manifest :: "manifest \<Rightarrow> dist_error + manifest" where
  "mk_manifest m =
     thenR (value_reject (mf_version m \<noteq> COMPONENT_V1))
     (thenR (value_reject (mf_name m = []))
     (thenR (value_reject (mf_kind m \<notin> set component_kinds))
     (thenR (value_reject (mf_children m \<noteq> [] \<and> mf_kind m \<noteq> COMPOSITE))
     (thenR (value_reject (mf_implements m = [])) (Inr m)))))"

definition capability_to_dict :: "capability \<Rightarrow> pyval" where
  "capability_to_dict c = PDict [(''name'', PStr (ca_name c)), (''version'', PStr (ca_version c))]"

definition opt_dict :: "('a \<Rightarrow> pyval) \<Rightarrow> 'a option \<Rightarrow> pyval" where
  "opt_dict f v = (case v of None \<Rightarrow> PNone | Some x \<Rightarrow> f x)"

definition ports_to_dict :: "string list dict \<Rightarrow> pyval" where
  "ports_to_dict ports = PDict (map (\<lambda>kv. (fst kv, PStrs (snd kv))) ports)"

definition manifest_to_dict :: "manifest \<Rightarrow> pyval" where
  "manifest_to_dict m = PDict
     [(''version'', PStr (mf_version m)), (''name'', PStr (mf_name m)), (''kind'', PStr (mf_kind m)),
      (''implements'', PStrs (mf_implements m)), (''state'', opt_dict state_to_dict (mf_state m)),
      (''entry'', entry_to_dict (mf_entry m)), (''children'', PList (map child_to_dict (mf_children m))),
      (''directive'', PStr (mf_directive m)), (''capabilities'', PList (map capability_to_dict (mf_capabilities m))),
      (''provenance'', opt_dict provenance_to_dict (mf_provenance m)), (''ports'', ports_to_dict (mf_ports m))]"

definition capability_from_dict :: "pyval \<Rightarrow> dist_error + capability" where
  "capability_from_dict v =
     bindR (field v ''name'') (\<lambda>n. bindR (field_or v ''version'' (PStr ''1'')) (\<lambda>ver.
       mk_capability (py_str n) (py_str ver)))"

definition opt_from :: "(pyval \<Rightarrow> dist_error + 'a) \<Rightarrow> pyval \<Rightarrow> dist_error + 'a option" where
  "opt_from f v = (if truthy v then bindR (f v) (\<lambda>x. Inr (Some x)) else Inr None)"

definition ports_from_dict :: "pyval \<Rightarrow> dist_error + string list dict" where
  "ports_from_dict v =
     (case v of
        PDict kvs \<Rightarrow> mapR (\<lambda>kv. bindR (liftR Py_Raise (str_tuple (snd kv))) (\<lambda>ps. Inr (fst kv, ps))) kvs
      | _ \<Rightarrow> Inl (Py_Raise Attribute_Error))"

definition manifest_from_dict :: "pyval \<Rightarrow> dist_error + manifest" where
  "manifest_from_dict data =
     thenR (iterR (\<lambda>k. bindR (liftR Py_Raise (py_in k data)) (\<lambda>b. value_reject b)) forbidden_edge_keys)
     (bindR (field_or data ''state'' PNone) (\<lambda>state_raw. bindR (field_or data ''provenance'' PNone) (\<lambda>prov_raw.
      bindR (field data ''version'') (\<lambda>version. bindR (field data ''name'') (\<lambda>name. bindR (field data ''kind'') (\<lambda>kind.
      bindR (field data ''entry'') (\<lambda>entry_raw. bindR (entry_from_dict entry_raw) (\<lambda>entry.
      bindR (field_or data ''implements'' (PList [])) (\<lambda>im. bindR (liftR Py_Raise (str_tuple im)) (\<lambda>implements.
      bindR (opt_from state_from_dict state_raw) (\<lambda>state.
      bindR (field_or data ''children'' (PList [])) (\<lambda>ch. bindR (iter_of ch) (\<lambda>chs. bindR (mapR child_from_dict chs) (\<lambda>children.
      bindR (field_or data ''directive'' (PStr [])) (\<lambda>directive.
      bindR (field_or data ''capabilities'' (PList [])) (\<lambda>ca. bindR (iter_of ca) (\<lambda>cas. bindR (mapR capability_from_dict cas) (\<lambda>capabilities.
      bindR (opt_from provenance_from_dict prov_raw) (\<lambda>prov.
      bindR (field_or data ''ports'' (PDict [])) (\<lambda>po. bindR (ports_from_dict po) (\<lambda>ports.
        mk_manifest \<lparr>mf_version = py_str version, mf_name = py_str name, mf_kind = py_str kind, mf_entry = entry,
          mf_implements = implements, mf_state = state, mf_children = children, mf_directive = py_str directive,
          mf_capabilities = capabilities, mf_provenance = prov, mf_ports = ports\<rparr>)))))))))))))))))))))"

section \<open>Round trip\<close>

definition child_ok :: "child_ref \<Rightarrow> bool" where
  "child_ok c \<longleftrightarrow> (cr_embed c \<noteq> []) \<noteq> (cr_ref c \<noteq> [])"

definition manifest_ok :: "manifest \<Rightarrow> bool" where
  "manifest_ok m \<longleftrightarrow> mk_manifest m = Inr m \<and>
     mk_entry (ed_runtime (mf_entry m)) (ed_entrypoint (mf_entry m)) = Inr (mf_entry m) \<and>
     (\<forall>s. mf_state m = Some s \<longrightarrow> mk_state (sd_kind s) (sd_path s) (sd_single_writer s) = Inr s) \<and>
     (\<forall>c \<in> set (mf_children m). child_ok c) \<and>
     (\<forall>c \<in> set (mf_capabilities m). ca_name c \<noteq> [] \<and> ca_version c \<noteq> []) \<and>
     (\<forall>p. mf_provenance m = Some p \<longrightarrow>
        mk_provenance (pv_repo_url p) (pv_commit_sha p) (pv_tree_sha256 p) (pv_signature p) = Inr p) \<and>
     wf_dict (mf_ports m)"

named_theorems manifest_simps

lemma field_PDict [manifest_simps]: "dget kvs key = Some w \<Longrightarrow> field (PDict kvs) key = Inr w"
  by (simp add: field_def)

lemma field_or_PDict [manifest_simps]: "field_or (PDict kvs) key dflt = Inr (dget_or kvs key dflt)"
  by (simp add: field_or_def)

lemma entry_round [simp]: "mk_entry (ed_runtime e) (ed_entrypoint e) = Inr e \<Longrightarrow> entry_from_dict (entry_to_dict e) = Inr e"
  by (simp add: entry_from_dict_def entry_to_dict_def manifest_simps dget_Cons)

lemma state_round: "mk_state (sd_kind s) (sd_path s) (sd_single_writer s) = Inr s \<Longrightarrow>
    opt_from state_from_dict (state_to_dict s) = Inr (Some s)"
  by (simp add: opt_from_def state_from_dict_def state_to_dict_def manifest_simps dget_Cons dget_or_def truthy_def)

lemma provenance_round:
  "mk_provenance (pv_repo_url p) (pv_commit_sha p) (pv_tree_sha256 p) (pv_signature p) = Inr p \<Longrightarrow>
    opt_from provenance_from_dict (provenance_to_dict p) = Inr (Some p)"
  by (simp add: opt_from_def provenance_from_dict_def provenance_to_dict_def manifest_simps dget_Cons dget_or_def truthy_def)

lemma opt_from_None [simp]: "opt_from f PNone = Inr None"
  by (simp add: opt_from_def truthy_def)

lemma child_round: "child_ok c \<Longrightarrow> child_from_dict (child_to_dict c) = Inr c"
  by (cases c) (auto simp: child_ok_def child_from_dict_def child_to_dict_def child_mode_def child_target_def
      manifest_simps dget_Cons dget_or_def mk_child_def)

lemma capability_round: "ca_name c \<noteq> [] \<Longrightarrow> ca_version c \<noteq> [] \<Longrightarrow> capability_from_dict (capability_to_dict c) = Inr c"
  by (cases c) (simp add: capability_from_dict_def capability_to_dict_def manifest_simps dget_Cons dget_or_def
      mk_capability_def)

lemma ports_round: "ports_from_dict (ports_to_dict ports) = Inr ports"
  by (induction ports) (auto simp: ports_from_dict_def ports_to_dict_def)

lemma iter_of_PList [simp]: "iter_of (PList vs) = Inr vs"
  by (simp add: iter_of_def iter_values_def)

lemma mapR_round: "(\<And>x. x \<in> set xs \<Longrightarrow> f (g x) = Inr x) \<Longrightarrow> mapR f (map g xs) = Inr xs"
  by (induction xs) auto

lemma manifest_round_trip:
  assumes "manifest_ok m"
  shows "manifest_from_dict (manifest_to_dict m) = Inr m"
proof -
  have parts: "mapR child_from_dict (map child_to_dict (mf_children m)) = Inr (mf_children m)"
    "mapR capability_from_dict (map capability_to_dict (mf_capabilities m)) = Inr (mf_capabilities m)"
    using assms child_round capability_round by (auto simp: manifest_ok_def intro!: mapR_round)
  have "opt_from state_from_dict (opt_dict state_to_dict (mf_state m)) = Inr (mf_state m)"
    "opt_from provenance_from_dict (opt_dict provenance_to_dict (mf_provenance m)) = Inr (mf_provenance m)"
    using assms state_round provenance_round
    by (auto simp: manifest_ok_def opt_dict_def split: option.split)
  then show ?thesis
    using assms parts
    by (cases m) (simp add: manifest_from_dict_def manifest_to_dict_def manifest_simps dget_Cons dget_or_def
        manifest_ok_def ports_round forbidden_edge_keys_def)
qed

end
