(* ===== verification/Utf8.thy ===== *)
theory Utf8
  imports Canonical_Json
begin

text \<open>
  \<open>str.encode()\<close> and \<open>bytes.decode()\<close> in UTF-8. A byte string is a list of characters, like a
  text; the decoder knows the texts of the model (code points below 256), a byte string of any
  other text counts as one that does not decode.
\<close>

definition utf8_char :: "char \<Rightarrow> string" where
  "utf8_char c = (if code c < 128 then [c] else [char_of (192 + code c div 64), char_of (128 + code c mod 64)])"

definition utf8 :: "string \<Rightarrow> string" where
  "utf8 s = concat (map utf8_char s)"

fun utf8_decode :: "string \<Rightarrow> string option" where
  "utf8_decode [] = Some []"
| "utf8_decode (c # r) =
     (if code c < 128 then map_option ((#) c) (utf8_decode r)
      else (case r of
              d # r' \<Rightarrow>
                (if (code c = 194 \<or> code c = 195) \<and> 128 \<le> code d \<and> code d < 192
                 then map_option ((#) (char_of ((code c - 192) * 64 + (code d - 128)))) (utf8_decode r') else None)
            | [] \<Rightarrow> None))"

lemma utf8_Cons: "utf8 (c # s) = utf8_char c @ utf8 s"
  by (simp add: utf8_def)

lemma utf8_Nil [simp]: "utf8 [] = []"
  by (simp add: utf8_def)

lemma utf8_printable: "printable s \<Longrightarrow> utf8 s = s"
  by (induction s) (simp_all add: utf8_def utf8_char_def)

lemma code_char_of [simp]: "code (char_of n) = n mod 256"
  by (simp add: code_def)

lemma high_half:
  assumes "128 \<le> n" "n < (256 :: nat)"
  shows "n div 64 = 2 \<or> n div 64 = 3"
proof -
  have "2 \<le> n div 64" using div_le_mono [OF assms(1), of 64] by simp
  moreover have "n div 64 < 4" using assms(2) by (simp add: less_mult_imp_div_less)
  ultimately show ?thesis by linarith
qed

lemma utf8_char_high:
  assumes "\<not> code c < 128"
  shows "utf8_decode (utf8_char c @ r) = map_option ((#) c) (utf8_decode r)"
proof -
  define n where "n = code c"
  have n: "128 \<le> n" "n < 256" using assms code_less [of c] by (simp_all add: n_def)
  have q: "n div 64 = 2 \<or> n div 64 = 3" using high_half [OF n] .
  have m: "n mod 64 < 64" by simp
  have hi: "code (char_of (192 + n div 64)) = 192 + n div 64" using q by auto
  have lo: "code (char_of (128 + n mod 64)) = 128 + n mod 64" using m by simp
  have "64 * (n div 64) + n mod 64 = n" by simp
  then have num: "(192 + n div 64 - 192) * 64 + (128 + n mod 64 - 128) = n" by (simp add: mult.commute)
  have cn: "char_of n = c" by (simp add: n_def code_def)
  have enc: "utf8_char c = [char_of (192 + n div 64), char_of (128 + n mod 64)]"
    using assms by (simp add: utf8_char_def n_def)
  moreover have "192 + n div 64 = 194 \<or> 192 + n div 64 = 195" "\<not> 192 + n div 64 < 128" using q by auto
  moreover have "128 \<le> 128 + n mod 64" "128 + n mod 64 < 192" using m by auto
  ultimately show ?thesis
    unfolding enc append_Cons append_Nil utf8_decode.simps list.case hi lo num by (simp only: cn if_True if_False simp_thms)
qed

lemma utf8_roundtrip [simp]: "utf8_decode (utf8 s) = Some s"
proof (induction s)
  case (Cons c s)
  show ?case
  proof (cases "code c < 128")
    case True
    then show ?thesis using Cons by (simp add: utf8_Cons utf8_char_def)
  next
    case False
    then show ?thesis using Cons by (simp add: utf8_Cons utf8_char_high)
  qed
qed simp

lemma utf8_inj: "utf8 s = utf8 t \<longleftrightarrow> s = t"
  by (metis option.inject utf8_roundtrip)

end
