(* ===== verification/Resolve.thy ===== *)
theory Resolve
  imports Manifest Utf8
begin

text \<open>
  The content-addressed cache (\<open>cbp/cache.py\<close>), the resolver (\<open>cbp/resolver.py\<close>), the reading
  side of bundles (\<open>cbp/component_bundle.py\<close>) and the graph resolver (\<open>cbp/component_graph.py\<close>).
  The cache is the map from digests to the bytes of the file each digest names. Not in the
  repository, hence parameters: SHA-256, the signature tool behind a verifier, the source
  directory, and the tar reader, which lists the members of a bundle.
\<close>

type_synonym verifier = "string \<Rightarrow> string \<Rightarrow> dist_error + unit"

section \<open>The cache\<close>

definition cache_path :: "string \<Rightarrow> dist_error + string" where
  "cache_path digest = thenR (rejectR (\<not> re_hex 64 digest) Cache_Error) (Inr digest)"

definition cache_put :: "(string \<Rightarrow> string) \<Rightarrow> string \<Rightarrow> string dict \<Rightarrow> string dict \<times> (dist_error + string)" where
  "cache_put sha data c =
     (case cache_path (sha data) of
        Inl e \<Rightarrow> (c, Inl e)
      | Inr path \<Rightarrow>
          (case dget c path of
             Some old \<Rightarrow> if sha old = sha data then (c, Inr (sha data)) else (dput path data c, Inr (sha data))
           | None \<Rightarrow> (dput path data c, Inr (sha data))))"

definition cache_get :: "(string \<Rightarrow> string) \<Rightarrow> string \<Rightarrow> string dict \<Rightarrow> dist_error + string option" where
  "cache_get sha digest c =
     bindR (cache_path digest) (\<lambda>path.
       case dget c path of
         None \<Rightarrow> Inr None
       | Some data \<Rightarrow> thenR (rejectR (sha data \<noteq> digest) Cache_Error) (Inr (Some data)))"

definition cache_has :: "(string \<Rightarrow> string) \<Rightarrow> string \<Rightarrow> string dict \<Rightarrow> bool" where
  "cache_has sha digest c = (case cache_get sha digest c of Inr (Some _) \<Rightarrow> True | _ \<Rightarrow> False)"

section \<open>The resolver\<close>

record resolver =
  rs_lock :: lock
  rs_source :: "lock_entry \<Rightarrow> dist_error + string"
  rs_verifier :: "verifier option"

record resolved =
  rv_entry :: lock_entry
  rv_digest :: string
  rv_size :: nat

definition check_component :: "(string \<Rightarrow> string) \<Rightarrow> resolver \<Rightarrow> string \<Rightarrow> dist_error + lock_entry \<times> string" where
  "check_component sha rs name =
     bindR (entry_of (rs_lock rs) name) (\<lambda>entry.
     bindR (rs_source rs entry) (\<lambda>data.
     thenR (rejectR (sha data \<noteq> le_tree_sha256 entry) Resolve_Error)
     (thenR (iterR (\<lambda>k. rejectR (k \<notin> set (lk_contracts (rs_lock rs))) Resolve_Error) (le_implements entry))
       (case rs_verifier rs of
          None \<Rightarrow> Inl Resolve_Error
        | Some verify \<Rightarrow>
            thenR (liftR (\<lambda>e. if is_signature_error e then Resolve_Error else e) (verify data (utf8 (le_signature entry))))
              (Inr (entry, data))))))"

definition resolve ::
  "(string \<Rightarrow> string) \<Rightarrow> resolver \<Rightarrow> string \<Rightarrow> string dict \<Rightarrow> string dict \<times> (dist_error + resolved)" where
  "resolve sha rs name c =
     (case check_component sha rs name of
        Inl e \<Rightarrow> (c, Inl e)
      | Inr (entry, data) \<Rightarrow>
          (case cache_put sha data c of
             (c', r) \<Rightarrow> (c', bindR r (\<lambda>_. Inr \<lparr>rv_entry = entry, rv_digest = sha data, rv_size = length data\<rparr>))))"

fun resolve_names ::
  "(string \<Rightarrow> string) \<Rightarrow> resolver \<Rightarrow> string list \<Rightarrow> string dict \<Rightarrow> string dict \<times> (dist_error + resolved list)" where
  "resolve_names sha rs [] c = (c, Inr [])"
| "resolve_names sha rs (n # ns) c =
     (case resolve sha rs n c of
        (c', Inl e) \<Rightarrow> (c', Inl e)
      | (c', Inr r) \<Rightarrow> (case resolve_names sha rs ns c' of (c'', rest) \<Rightarrow> (c'', bindR rest (\<lambda>rs. Inr (r # rs)))))"

definition resolve_all ::
  "(string \<Rightarrow> string) \<Rightarrow> resolver \<Rightarrow> string dict \<Rightarrow> string dict \<times> (dist_error + resolved list)" where
  "resolve_all sha rs c = resolve_names sha rs (map le_name (sort_key le_name (lk_entries (rs_lock rs)))) c"

section \<open>Bundles\<close>

record tar_member =
  tm_name :: string
  tm_isfile :: bool
  tm_data :: string

type_synonym untar = "string \<Rightarrow> dist_error + tar_member list"

definition rstrip_slash :: "string \<Rightarrow> string" where
  "rstrip_slash s = rev (dropWhile (\<lambda>c. c = CHR ''/'') (rev s))"

definition BUNDLE_MANIFEST :: string where "BUNDLE_MANIFEST = ''component.json''"

definition check_name :: "string \<Rightarrow> dist_error + unit" where
  "check_name name = rejectR (name = [] \<or> starts_with ''/'' name \<or> ''..'' \<in> set (split_on CHR ''/'' name)) Bundle_Error"

definition list_members :: "untar \<Rightarrow> string \<Rightarrow> dist_error + string list" where
  "list_members untar bundle = bindR (untar bundle) (\<lambda>ms. Inr (sort (map tm_name (filter tm_isfile ms))))"

definition read_member :: "untar \<Rightarrow> string \<Rightarrow> string \<Rightarrow> dist_error + string" where
  "read_member untar bundle name =
     thenR (check_name name) (bindR (untar bundle) (\<lambda>ms.
       case filter (\<lambda>m. tm_name m = rstrip_slash name) ms of
         [] \<Rightarrow> Inl Bundle_Error
       | m # r \<Rightarrow> if tm_isfile (last (m # r)) then Inr (tm_data (last (m # r))) else Inl Bundle_Error))"

text \<open>\<open>json.loads\<close> of bytes decodes them first (as UTF-8; the byte order marks and the other Unicode
  encodings it also detects count as malformed here), and a failure to decode is a \<open>ValueError\<close> too.\<close>

definition parse_manifest :: "string \<Rightarrow> dist_error + manifest" where
  "parse_manifest raw = (case Option.bind (utf8_decode raw) json_loads of None \<Rightarrow> Inl (Py_Raise Value_Error) | Some v \<Rightarrow> manifest_from_dict v)"

definition load_manifest :: "untar \<Rightarrow> string \<Rightarrow> dist_error + manifest" where
  "load_manifest untar bundle = bindR (read_member untar bundle BUNDLE_MANIFEST) parse_manifest"

section \<open>Nodes of the component graph\<close>

record resolved_child =
  rc_mode :: string
  rc_target :: string
  rc_manifest :: "manifest option"
  rc_entry :: "lock_entry option"

record resolved_node =
  rn_name :: string
  rn_entry :: lock_entry
  rn_digest :: string
  rn_manifest :: manifest
  rn_children :: "resolved_child list"

text \<open>\<open>except LockError\<close>, \<open>except BundleError\<close> and \<open>except (KeyError, TypeError, ValueError)\<close>.\<close>

definition as_graph_error :: "(dist_error \<Rightarrow> bool) \<Rightarrow> dist_error + 'a \<Rightarrow> dist_error + 'a" where
  "as_graph_error caught r = liftR (\<lambda>e. if caught e then Graph_Error else e) r"

definition parse_failure :: "dist_error \<Rightarrow> bool" where
  "parse_failure e = (case e of Py_Raise (Missing_Key _) \<Rightarrow> True | Py_Raise Type_Error \<Rightarrow> True
     | Py_Raise Value_Error \<Rightarrow> True | _ \<Rightarrow> False)"

definition embedded_manifest :: "untar \<Rightarrow> string \<Rightarrow> child_ref \<Rightarrow> dist_error + manifest" where
  "embedded_manifest untar bundle child =
     (let target = rstrip_slash (child_target child); prefix = target @ ''/'' in
      bindR (list_members untar bundle) (\<lambda>names.
      thenR (rejectR (\<not> list_ex (starts_with prefix) names) Graph_Error)
      (bindR (as_graph_error (\<lambda>e. e = Bundle_Error) (read_member untar bundle (prefix @ BUNDLE_MANIFEST))) (\<lambda>raw.
       bindR (as_graph_error parse_failure (parse_manifest raw)) (\<lambda>m.
         thenR (rejectR (mf_children m \<noteq> [] \<or> mf_kind m = COMPOSITE) Graph_Error) (Inr m))))))"

definition resolve_child :: "untar \<Rightarrow> lock \<Rightarrow> string \<Rightarrow> child_ref \<Rightarrow> dist_error + resolved_child" where
  "resolve_child untar lock bundle child =
     (if child_mode child = ''ref'' then
        bindR (as_graph_error (\<lambda>e. e = Lock_Error) (entry_of lock (child_target child))) (\<lambda>entry.
          Inr \<lparr>rc_mode = ''ref'', rc_target = child_target child, rc_manifest = None, rc_entry = Some entry\<rparr>)
      else bindR (embedded_manifest untar bundle child) (\<lambda>m.
          Inr \<lparr>rc_mode = ''embed'', rc_target = child_target child, rc_manifest = Some m, rc_entry = None\<rparr>))"

definition resolve_children :: "untar \<Rightarrow> lock \<Rightarrow> string \<Rightarrow> manifest \<Rightarrow> dist_error + resolved_child list" where
  "resolve_children untar lock bundle m =
     mapR (resolve_child untar lock bundle) (sort_key (\<lambda>c. (child_mode c, child_target c)) (mf_children m))"

definition resolve_node ::
  "(string \<Rightarrow> string) \<Rightarrow> untar \<Rightarrow> resolver \<Rightarrow> string \<Rightarrow> string dict \<Rightarrow> string dict \<times> (dist_error + resolved_node)" where
  "resolve_node sha untar rs name c =
     (case as_graph_error (\<lambda>e. e = Lock_Error) (entry_of (rs_lock rs) name) of
        Inl e \<Rightarrow> (c, Inl e)
      | Inr entry \<Rightarrow>
          (case resolve sha rs name c of
             (c', r) \<Rightarrow> (c',
               bindR r (\<lambda>rv. bindR (cache_get sha (rv_digest rv) c') (\<lambda>got.
                 case got of
                   None \<Rightarrow> Inl Graph_Error
                 | Some bundle \<Rightarrow>
                     bindR (load_manifest untar bundle) (\<lambda>m. bindR (resolve_children untar (rs_lock rs) bundle m) (\<lambda>ch.
                       Inr \<lparr>rn_name = name, rn_entry = entry, rn_digest = rv_digest rv, rn_manifest = m,
                         rn_children = ch\<rparr>)))))))"

section \<open>The depth-first resolution\<close>

record graph_state =
  gs_cache :: "string dict"
  gs_nodes :: "resolved_node dict"
  gs_order :: "string list"

fun iterS :: "('a \<Rightarrow> 's \<Rightarrow> 's \<times> ('e + unit)) \<Rightarrow> 'a list \<Rightarrow> 's \<Rightarrow> 's \<times> ('e + unit)" where
  "iterS f [] s = (s, Inr ())"
| "iterS f (x # xs) s = (case f x s of (s', Inl e) \<Rightarrow> (s', Inl e) | (s', Inr _) \<Rightarrow> iterS f xs s')"

fun visit_component ::
  "nat \<Rightarrow> (string \<Rightarrow> string) \<Rightarrow> untar \<Rightarrow> resolver \<Rightarrow> string list \<Rightarrow> string \<Rightarrow> graph_state \<Rightarrow>
   graph_state \<times> (dist_error + unit)" where
  "visit_component 0 sha untar rs visiting name s = (s, Inl Recursion_Error)"
| "visit_component (Suc fuel) sha untar rs visiting name s =
     (if name \<in> set visiting then (s, Inl Graph_Error)
      else if dget (gs_nodes s) name \<noteq> None then (s, Inr ())
      else (case resolve_node sha untar rs name (gs_cache s) of
              (c, Inl e) \<Rightarrow> (s\<lparr>gs_cache := c\<rparr>, Inl e)
            | (c, Inr node) \<Rightarrow>
                (case iterS (\<lambda>child. if rc_mode child = ''ref''
                          then visit_component fuel sha untar rs (name # visiting) (rc_target child)
                          else (\<lambda>s. (s, Inr ()))) (rn_children node) (s\<lparr>gs_cache := c\<rparr>) of
                   (s', Inl e) \<Rightarrow> (s', Inl e)
                 | (s', Inr _) \<Rightarrow>
                     (s'\<lparr>gs_nodes := dput name node (gs_nodes s'), gs_order := gs_order s' @ [name]\<rparr>, Inr ()))))"

definition node_at :: "resolved_node dict \<Rightarrow> string \<Rightarrow> dist_error + resolved_node" where
  "node_at nodes name = (case dget nodes name of None \<Rightarrow> Inl (Py_Raise (Missing_Key name)) | Some n \<Rightarrow> Inr n)"

text \<open>A path of the search holds names of the lock only, so one call more than there are entries
  bounds its depth.\<close>

definition resolve_graph ::
  "(string \<Rightarrow> string) \<Rightarrow> untar \<Rightarrow> resolver \<Rightarrow> string \<Rightarrow> string dict \<Rightarrow>
   string dict \<times> (dist_error + resolved_node list)" where
  "resolve_graph sha untar rs root c =
     (case visit_component (Suc (Suc (length (lk_entries (rs_lock rs))))) sha untar rs [] root
         \<lparr>gs_cache = c, gs_nodes = [], gs_order = []\<rparr> of
        (s, r) \<Rightarrow> (gs_cache s, bindR r (\<lambda>_. mapR (node_at (gs_nodes s)) (gs_order s))))"

end
