(* ===== verification/Resolve_Props.thy ===== *)
theory Resolve_Props
  imports Resolve Kahn
begin

text \<open>
  What resolution guarantees: the cache serves only bytes that hash to their key, a resolved
  component has the pinned hash, a supported contract set and a verified signature, and the graph
  resolver returns every component after the components it refers to.
\<close>

section \<open>The cache\<close>

lemma re_hex_path: "re_hex 64 d \<Longrightarrow> cache_path d = Inr d"
  by (simp add: cache_path_def)

lemma cache_get_hash: "cache_get sha d c = Inr (Some x) \<Longrightarrow> sha x = d"
  by (auto simp: cache_get_def cache_path_def result_simps split: option.splits)

lemma cache_put_parts:
  assumes "cache_put sha data c = (c', Inr d)"
  shows "d = sha data" "re_hex 64 d" "\<exists>x. dget c' d = Some x \<and> sha x = d" "k \<noteq> d \<Longrightarrow> dget c' k = dget c k"
  using assms
  by (auto simp: cache_put_def cache_path_def dict_simps rejectR_def split: sum.splits option.splits if_splits)

lemma cache_put_get:
  assumes "cache_put sha data c = (c', Inr d)"
  shows "\<exists>x. cache_get sha d c' = Inr (Some x) \<and> sha x = d"
  using cache_put_parts [OF assms] by (auto simp: cache_get_def re_hex_path)

lemma cache_put_fails: "cache_put sha data c = (c', Inl e) \<Longrightarrow> c' = c \<and> \<not> re_hex 64 (sha data) \<and> e = Cache_Error"
  by (auto simp: cache_put_def cache_path_def rejectR_def split: sum.splits option.splits if_splits)

lemma cache_put_ok: "re_hex 64 (sha data) \<Longrightarrow> \<exists>c'. cache_put sha data c = (c', Inr (sha data))"
  by (simp add: cache_put_def re_hex_path split: option.split)

section \<open>The resolver\<close>

definition verified :: "(string \<Rightarrow> string) \<Rightarrow> resolver \<Rightarrow> lock_entry \<Rightarrow> string \<Rightarrow> bool" where
  "verified sha rs e data \<longleftrightarrow> rs_source rs e = Inr data \<and> sha data = le_tree_sha256 e \<and>
     set (le_implements e) \<subseteq> set (lk_contracts (rs_lock rs)) \<and>
     (\<exists>verify. rs_verifier rs = Some verify \<and> verify data (utf8 (le_signature e)) = Inr ())"

lemma check_component_iff:
  "check_component sha rs name = Inr (e, data) \<longleftrightarrow> entry_of (rs_lock rs) name = Inr e \<and> verified sha rs e data"
proof -
  have "check_component sha rs name = Inr (e, data) \<longleftrightarrow> entry_of (rs_lock rs) name = Inr e \<and> rs_source rs e = Inr data \<and>
      sha data = le_tree_sha256 e \<and> (\<forall>k \<in> set (le_implements e). k \<in> set (lk_contracts (rs_lock rs))) \<and>
      (case rs_verifier rs of None \<Rightarrow> False | Some verify \<Rightarrow> verify data (utf8 (le_signature e)) = Inr ())"
    by (cases "rs_verifier rs") (auto simp: check_component_def result_simps)
  then show ?thesis by (auto simp: verified_def split: option.splits)
qed

lemma resolve_cases:
  "resolve sha rs name c = (c', Inr r) \<longleftrightarrow>
     (\<exists>e data. entry_of (rs_lock rs) name = Inr e \<and> verified sha rs e data \<and>
        cache_put sha data c = (c', Inr (sha data)) \<and> r = \<lparr>rv_entry = e, rv_digest = sha data, rv_size = length data\<rparr>)"
proof -
  have "resolve sha rs name c = (c', Inr r) \<longleftrightarrow> (\<exists>e data. check_component sha rs name = Inr (e, data) \<and>
      cache_put sha data c = (c', Inr (sha data)) \<and> r = \<lparr>rv_entry = e, rv_digest = sha data, rv_size = length data\<rparr>)"
    using cache_put_parts(1) [of sha _ c c']
    by (auto simp: resolve_def result_simps split: sum.splits prod.splits)
  then show ?thesis unfolding check_component_iff by blast
qed

lemma resolve_fails: "resolve sha rs name c = (c', Inl e) \<Longrightarrow> c' = c"
  using cache_put_fails by (auto simp: resolve_def result_simps split: sum.splits prod.splits)

section \<open>Nodes\<close>

definition node_verified :: "(string \<Rightarrow> string) \<Rightarrow> untar \<Rightarrow> resolver \<Rightarrow> resolved_node \<Rightarrow> bool" where
  "node_verified sha untar rs n \<longleftrightarrow>
     entry_of (rs_lock rs) (rn_name n) = Inr (rn_entry n) \<and> (\<exists>data. verified sha rs (rn_entry n) data) \<and>
     rn_digest n = le_tree_sha256 (rn_entry n) \<and>
     (\<exists>bundle. sha bundle = rn_digest n \<and> load_manifest untar bundle = Inr (rn_manifest n) \<and>
        resolve_children untar (rs_lock rs) bundle (rn_manifest n) = Inr (rn_children n))"

lemma resolve_node_verified:
  assumes "resolve_node sha untar rs name c = (c', Inr n)"
  shows "rn_name n = name \<and> node_verified sha untar rs n"
proof -
  obtain e rv bn where e: "entry_of (rs_lock rs) name = Inr e" and r: "resolve sha rs name c = (c', Inr rv)"
    and got: "cache_get sha (rv_digest rv) c' = Inr (Some bn)" and n: "rn_name n = name" "rn_entry n = e"
    "rn_digest n = rv_digest rv" "load_manifest untar bn = Inr (rn_manifest n)"
    "resolve_children untar (rs_lock rs) bn (rn_manifest n) = Inr (rn_children n)"
    using assms by (auto simp: resolve_node_def as_graph_error_def result_simps split: sum.splits prod.splits option.splits)
  obtain data where data: "verified sha rs e data" "rv_digest rv = sha data"
    using r e by (auto simp: resolve_cases)
  then show ?thesis using e n cache_get_hash [OF got]
    by (auto simp: node_verified_def verified_def)
qed

lemma entry_of_name: "entry_of l name = Inr e \<Longrightarrow> name \<in> set (map le_name (lk_entries l))"
  by (auto simp: entry_of_def find_Some_iff split: option.splits)

lemma resolve_child_ref:
  "resolve_child untar l bundle c = Inr ch \<Longrightarrow> rc_mode ch = ''ref'' \<Longrightarrow> rc_target ch \<in> set (map le_name (lk_entries l))"
  using entry_of_name by (auto simp: resolve_child_def as_graph_error_def result_simps split: if_splits)

lemma resolve_child_embed:
  "resolve_child untar l bundle c = Inr ch \<Longrightarrow> rc_mode ch \<noteq> ''ref'' \<Longrightarrow>
     \<exists>m. rc_manifest ch = Some m \<and> mf_children m = [] \<and> mf_kind m \<noteq> COMPOSITE"
  by (auto simp: resolve_child_def embedded_manifest_def result_simps Let_def split: if_splits)

lemma children_of_node:
  assumes "resolve_children untar l bundle m = Inr chs" "ch \<in> set chs"
  shows "\<exists>c. resolve_child untar l bundle c = Inr ch"
  using assms by (auto simp: resolve_children_def result_simps list_all2_conv_all_nth in_set_conv_nth)

section \<open>The search\<close>

definition refs :: "resolved_node \<Rightarrow> string set" where
  "refs n = {rc_target ch | ch. ch \<in> set (rn_children n) \<and> rc_mode ch = ''ref''}"

definition dfs_inv :: "(string \<Rightarrow> string) \<Rightarrow> untar \<Rightarrow> resolver \<Rightarrow> graph_state \<Rightarrow> bool" where
  "dfs_inv sha untar rs s \<longleftrightarrow> gs_order s = map fst (gs_nodes s) \<and> distinct (gs_order s) \<and>
     (\<forall>(k, n) \<in> set (gs_nodes s). rn_name n = k \<and> node_verified sha untar rs n) \<and>
     (\<forall>xs k n ys. gs_nodes s = xs @ (k, n) # ys \<longrightarrow> refs n \<subseteq> fst ` set xs)"

definition dfs_grows :: "graph_state \<Rightarrow> graph_state \<Rightarrow> bool" where
  "dfs_grows s s' \<longleftrightarrow> (\<exists>new. gs_nodes s' = gs_nodes s @ new)"

lemma dfs_grows_refl [simp]: "dfs_grows s s"
  by (simp add: dfs_grows_def)

lemma dfs_grows_trans: "dfs_grows s s' \<Longrightarrow> dfs_grows s' s'' \<Longrightarrow> dfs_grows s s''"
  by (auto simp: dfs_grows_def)

lemma dfs_grows_in: "dfs_grows s s' \<Longrightarrow> k \<in> fst ` set (gs_nodes s) \<Longrightarrow> k \<in> fst ` set (gs_nodes s')"
  by (auto simp: dfs_grows_def)

lemma iterS_result:
  assumes "\<And>x s s'. x \<in> set xs \<Longrightarrow> I s \<Longrightarrow> f x s = (s', Inr ()) \<Longrightarrow> I s' \<and> dfs_grows s s' \<and> Q x s'"
    and "\<And>x s s'. Q x s \<Longrightarrow> dfs_grows s s' \<Longrightarrow> Q x s'"
    and "iterS f xs s = (s', Inr ())" "I s"
  shows "I s' \<and> dfs_grows s s' \<and> (\<forall>x \<in> set xs. Q x s')"
  using assms(1,3,4)
proof (induction xs arbitrary: s)
  case (Cons x xs)
  obtain s1 where s1: "f x s = (s1, Inr ())" "iterS f xs s1 = (s', Inr ())"
    using Cons.prems(2) by (auto split: prod.splits sum.splits)
  have step: "I s1" "dfs_grows s s1" "Q x s1" using Cons.prems(1) [of x s s1] Cons.prems(3) s1(1) by simp_all
  have "I s' \<and> dfs_grows s1 s' \<and> (\<forall>x \<in> set xs. Q x s')"
    by (rule Cons.IH [OF _ s1(2) step(1)]) (use Cons.prems(1) in auto)
  then show ?case using step assms(2) dfs_grows_trans by auto
qed simp

lemma visit_result:
  "visit_component fuel sha untar rs visiting name s = (s', Inr ()) \<Longrightarrow> dfs_inv sha untar rs s \<Longrightarrow>
     set visiting \<inter> fst ` set (gs_nodes s) = {} \<Longrightarrow>
     dfs_inv sha untar rs s' \<and> dfs_grows s s' \<and> name \<in> fst ` set (gs_nodes s') \<and>
     set visiting \<inter> fst ` set (gs_nodes s') = {} \<and> (name \<notin> fst ` set (gs_nodes s) \<longrightarrow> fst (last (gs_nodes s')) = name)"
proof (induction fuel arbitrary: visiting name s s')
  case (Suc fuel)
  have fresh: "name \<notin> set visiting" using Suc.prems(1) by (auto split: if_splits)
  show ?case
  proof (cases "dget (gs_nodes s) name = None")
    case False
    then have "s' = s" "name \<in> fst ` set (gs_nodes s)" using Suc.prems(1) fresh dget_None_iff [of "gs_nodes s" name] by auto
    then show ?thesis using Suc.prems(2,3) by simp
  next
    case new: True
    let ?f = "\<lambda>child :: resolved_child. if rc_mode child = ''ref'' then visit_component fuel sha untar rs (name # visiting) (rc_target child)
                          else (\<lambda>s. (s, Inr ()))"
    obtain c node s1 where node: "resolve_node sha untar rs name (gs_cache s) = (c, Inr node)"
      and it: "iterS ?f (rn_children node) (s\<lparr>gs_cache := c\<rparr>) = (s1, Inr ())"
      and s': "s' = s1\<lparr>gs_nodes := dput name node (gs_nodes s1), gs_order := gs_order s1 @ [name]\<rparr>"
      using Suc.prems(1) fresh new by (auto split: prod.splits sum.splits)
    note nv = resolve_node_verified [OF node]
    let ?I = "\<lambda>s. dfs_inv sha untar rs s \<and> set (name # visiting) \<inter> fst ` set (gs_nodes s) = {}"
    let ?Q = "\<lambda>child s. rc_mode child = ''ref'' \<longrightarrow> rc_target child \<in> fst ` set (gs_nodes s)"
    have start: "?I (s\<lparr>gs_cache := c\<rparr>)" using Suc.prems(2,3) new by (auto simp: dfs_inv_def dget_None_iff)
    have "?I s1 \<and> dfs_grows (s\<lparr>gs_cache := c\<rparr>) s1 \<and> (\<forall>ch \<in> set (rn_children node). ?Q ch s1)"
    proof (rule iterS_result [where I = ?I and Q = ?Q, OF _ _ it start])
      show "?I t' \<and> dfs_grows t t' \<and> ?Q ch t'" if "ch \<in> set (rn_children node)" "?I t" "?f ch t = (t', Inr ())" for ch t t'
        using that Suc.IH [of "name # visiting" "rc_target ch" t t'] by (auto split: if_splits)
      show "?Q ch t'" if "?Q ch t" "dfs_grows t t'" for ch t t'
        using that dfs_grows_in by blast
    qed
    then have s1: "dfs_inv sha untar rs s1" "set (name # visiting) \<inter> fst ` set (gs_nodes s1) = {}"
      "dfs_grows s s1" "refs node \<subseteq> fst ` set (gs_nodes s1)"
      by (auto simp: dfs_grows_def refs_def)
    have put: "dput name node (gs_nodes s1) = gs_nodes s1 @ [(name, node)]"
      using s1(2) by (intro length_dput_new) auto
    have "refs n \<subseteq> fst ` set xs" if eq: "gs_nodes s1 @ [(name, node)] = xs @ (k, n) # ys" for xs k n ys
    proof (cases ys rule: rev_cases)
      case Nil
      then show ?thesis using eq s1(4) by simp
    next
      case (snoc zs z)
      then have "gs_nodes s1 = xs @ (k, n) # zs" using eq by simp
      then show ?thesis using s1(1) unfolding dfs_inv_def by blast
    qed
    then have "dfs_inv sha untar rs s'"
      using s1(1,2) nv by (auto simp: s' put dfs_inv_def)
    moreover have "dfs_grows s s'" using s1(3) by (auto simp: dfs_grows_def s' put)
    ultimately show ?thesis using s1(2) fresh by (auto simp: s' put)
  qed
qed simp

text \<open>The fuel: every name on the path is in the lock.\<close>

definition no_rec :: "dist_error \<Rightarrow> bool" where "no_rec e \<longleftrightarrow> e \<noteq> Recursion_Error"

lemma no_rec_simps [simp]: "no_rec e \<longleftrightarrow> e \<noteq> Recursion_Error"
  by (simp add: no_rec_def)

lemma no_rec_py [fails_intros]: "fails_only no_rec (liftR Py_Raise r)"
  by (cases r) auto

lemma no_rec_graph [fails_intros]: "fails_only no_rec r \<Longrightarrow> fails_only no_rec (as_graph_error f r)"
  by (cases r) (auto simp: as_graph_error_def)

lemma no_rec_field [fails_intros]: "fails_only no_rec (field v k)" "fails_only no_rec (field_or v k d)"
  "fails_only no_rec (iter_of v)" "fails_only no_rec (value_reject b)"
  by (auto simp: field_def field_or_def iter_of_def intro!: fails_intros split: option.splits)

lemma no_rec_opt [fails_intros]: "(\<And>v. fails_only no_rec (f v)) \<Longrightarrow> fails_only no_rec (opt_from f v)"
  by (auto simp: opt_from_def intro!: fails_intros)

lemma no_rec_manifest [fails_intros]: "fails_only no_rec (parse_manifest raw)"
proof -
  have parts: "fails_only no_rec (entry_from_dict v)" "fails_only no_rec (state_from_dict v)"
    "fails_only no_rec (child_from_dict v)" "fails_only no_rec (capability_from_dict v)"
    "fails_only no_rec (provenance_from_dict v)" "fails_only no_rec (mk_manifest m)" for v m
    unfolding entry_from_dict_def mk_entry_def state_from_dict_def mk_state_def child_from_dict_def mk_child_def
      capability_from_dict_def mk_capability_def provenance_from_dict_def mk_provenance_def mk_manifest_def
    by (intro fails_intros)+
  have ports: "fails_only no_rec (ports_from_dict v)" for v
    by (cases v) (auto simp: ports_from_dict_def intro!: fails_intros)
  have "fails_only no_rec (manifest_from_dict v)" for v
    unfolding manifest_from_dict_def by (intro fails_intros parts ports)
  then show ?thesis by (auto simp: parse_manifest_def split: option.splits)
qed

definition calm :: "untar \<Rightarrow> resolver \<Rightarrow> bool" where
  "calm untar rs \<longleftrightarrow> (\<forall>b. untar b \<noteq> Inl Recursion_Error) \<and> (\<forall>e. rs_source rs e \<noteq> Inl Recursion_Error) \<and>
     (\<forall>verify d s. rs_verifier rs = Some verify \<longrightarrow> verify d s \<noteq> Inl Recursion_Error)"

lemma resolve_node_calm:
  assumes "calm untar rs" "resolve_node sha untar rs name c = (c', Inl e)"
  shows "e \<noteq> Recursion_Error"
proof -
  have entry: "fails_only no_rec (entry_of l k)" for l k by (auto simp: entry_of_def split: option.splits)
  have tar: "fails_only no_rec (untar b)" for b using assms(1) by (auto simp: fails_only_def calm_def)
  have member: "fails_only no_rec (read_member untar b k)" for b k
    unfolding read_member_def check_name_def by (intro fails_intros tar) (auto split: list.splits)
  have child: "fails_only no_rec (resolve_child untar l b ch)" for l b ch
    unfolding resolve_child_def embedded_manifest_def list_members_def Let_def
    by (intro fails_intros entry tar member) auto
  have node: "fails_only no_rec (bindR (load_manifest untar b) (\<lambda>m. bindR (resolve_children untar l b m) (\<lambda>ch. Inr (f m ch))))"
    for l b and f :: "manifest \<Rightarrow> resolved_child list \<Rightarrow> resolved_node"
    unfolding load_manifest_def resolve_children_def by (intro fails_intros member child)
  have get: "fails_only no_rec (cache_get sha d c)" for d c
    unfolding cache_get_def cache_path_def by (auto intro!: fails_intros split: option.splits)
  have check: "fails_only no_rec (check_component sha rs name)"
    unfolding check_component_def
  proof (intro fails_intros entry)
    show "fails_only no_rec (rs_source rs e)" for e using assms(1) by (auto simp: fails_only_def calm_def)
    show "fails_only no_rec (case rs_verifier rs of None \<Rightarrow> Inl Resolve_Error | Some verify \<Rightarrow>
        thenR (liftR (\<lambda>e. if is_signature_error e then Resolve_Error else e) (verify d (utf8 (le_signature e)))) (Inr (e, d)))" for e d
    proof (cases "rs_verifier rs")
      case (Some verify)
      have "verify d (utf8 (le_signature e)) \<noteq> Inl Recursion_Error" using assms(1) Some by (auto simp: calm_def)
      then show ?thesis by (cases "verify d (utf8 (le_signature e))") (auto simp: Some)
    qed simp
  qed simp_all
  have "fails_only no_rec (snd (resolve sha rs name c))"
  proof (cases "check_component sha rs name")
    case (Inl e)
    then show ?thesis using fails_onlyD [OF check] by (simp add: resolve_def)
  next
    case (Inr r)
    obtain c1 p where p: "cache_put sha (snd r) c = (c1, p)" by force
    then show ?thesis using cache_put_fails [of sha "snd r" c c1] by (cases p) (auto simp: resolve_def Inr split_beta)
  qed
  then have "fails_only no_rec (snd (resolve_node sha untar rs name c))"
    using fails_onlyD [OF no_rec_graph [OF entry]]
    by (auto simp: resolve_node_def split_beta split: sum.splits intro!: fails_only_bindR get node split: option.splits)
  then show ?thesis using assms(2) by simp
qed

lemma iterS_fails:
  assumes "iterS f xs s = (s', Inl e)"
  shows "\<exists>x t. f x t = (s', Inl e)"
  using assms
proof (induction xs arbitrary: s)
  case (Cons x xs)
  obtain s1 r where r: "f x s = (s1, r)" by force
  show ?case
  proof (cases r)
    case (Inl e')
    then show ?thesis using Cons.prems r by auto
  next
    case (Inr u)
    then show ?thesis using Cons r by auto
  qed
qed simp

lemma visit_fuel:
  assumes calm: "calm untar rs"
  shows "visit_component fuel sha untar rs visiting name s = (s', Inl e) \<Longrightarrow>
     distinct visiting \<Longrightarrow> set visiting \<subseteq> set (map le_name (lk_entries (rs_lock rs))) \<Longrightarrow>
     Suc (Suc (length (lk_entries (rs_lock rs)))) \<le> fuel + length visiting \<Longrightarrow> e \<noteq> Recursion_Error"
proof (induction fuel arbitrary: visiting name s)
  case 0
  then have "length visiting \<le> length (lk_entries (rs_lock rs))"
    by (metis card_mono distinct_card finite_set card_length length_map order_trans)
  then show ?case using 0(4) by simp
next
  case (Suc fuel)
  show ?case
  proof (cases "name \<in> set visiting \<or> dget (gs_nodes s) name \<noteq> None")
    case True
    then show ?thesis using Suc.prems(1) by (auto split: if_splits)
  next
    case False
    let ?f = "\<lambda>child :: resolved_child. if rc_mode child = ''ref'' then visit_component fuel sha untar rs (name # visiting) (rc_target child)
                          else (\<lambda>s. (s, Inr ()))"
    show ?thesis
    proof (cases "snd (resolve_node sha untar rs name (gs_cache s))")
      case (Inl e')
      then obtain c where c: "resolve_node sha untar rs name (gs_cache s) = (c, Inl e')" by (metis prod.collapse)
      then show ?thesis using Suc.prems(1) False resolve_node_calm [OF calm c] by auto
    next
      case (Inr node)
      then obtain c where c: "resolve_node sha untar rs name (gs_cache s) = (c, Inr node)" by (metis prod.collapse)
      then have it: "iterS ?f (rn_children node) (s\<lparr>gs_cache := c\<rparr>) = (s', Inl e)"
        using Suc.prems(1) False by (auto split: prod.splits sum.splits)
      obtain ch t where ch: "?f ch t = (s', Inl e)" using iterS_fails [OF it] by (elim exE) (erule that)
      then have "visit_component fuel sha untar rs (name # visiting) (rc_target ch) t = (s', Inl e)"
        by (auto split: if_splits)
      moreover have "name \<in> set (map le_name (lk_entries (rs_lock rs)))"
        using resolve_node_verified [OF c] entry_of_name by (auto simp: node_verified_def)
      ultimately show ?thesis using Suc.IH [of "name # visiting" "rc_target ch" t] Suc.prems(2-4) False by simp
    qed
  qed
qed

section \<open>The graph\<close>

lemma resolve_graph_result:
  assumes "resolve_graph sha untar rs root c = (c', Inr nodes)"
  shows "distinct (map rn_name nodes) \<and> nodes \<noteq> [] \<and> rn_name (last nodes) = root \<and>
    (\<forall>n \<in> set nodes. node_verified sha untar rs n) \<and>
    (\<forall>xs n ys. nodes = xs @ n # ys \<longrightarrow> refs n \<subseteq> rn_name ` set xs)"
proof -
  let ?s0 = "\<lparr>gs_cache = c, gs_nodes = [], gs_order = []\<rparr>"
  obtain s where s: "visit_component (Suc (Suc (length (lk_entries (rs_lock rs))))) sha untar rs [] root ?s0 = (s, Inr ())"
    and m: "mapR (node_at (gs_nodes s)) (gs_order s) = Inr nodes"
    using assms by (auto simp: resolve_graph_def result_simps split: prod.splits)
  have "dfs_inv sha untar rs ?s0" by (simp add: dfs_inv_def)
  note v = visit_result [OF s this]
  have inv: "gs_order s = map fst (gs_nodes s)" "distinct (map fst (gs_nodes s))"
    "\<forall>(k, n) \<in> set (gs_nodes s). rn_name n = k \<and> node_verified sha untar rs n"
    "\<forall>xs k n ys. gs_nodes s = xs @ (k, n) # ys \<longrightarrow> refs n \<subseteq> fst ` set xs"
    and root: "root \<in> fst ` set (gs_nodes s)" "fst (last (gs_nodes s)) = root"
    using v unfolding dfs_inv_def by auto
  have "mapR (node_at (gs_nodes s)) (gs_order s) = Inr (map snd (gs_nodes s))"
  proof -
    have "node_at (gs_nodes s) (fst kn) = Inr (snd kn)" if "kn \<in> set (gs_nodes s)" for kn
      using dget_wf [of "gs_nodes s" "fst kn" "snd kn"] inv(2) that by (simp add: node_at_def wf_dict_def)
    then have "mapR (\<lambda>kn. node_at (gs_nodes s) (fst kn)) (gs_nodes s) = Inr (map snd (gs_nodes s))"
      by (rule mapR_map_Inr)
    moreover have "mapR h (map fst xs) = mapR (\<lambda>kn. h (fst kn)) xs"
      for h :: "string \<Rightarrow> dist_error + resolved_node" and xs :: "(string \<times> resolved_node) list"
      by (induction xs) auto
    ultimately show ?thesis unfolding inv(1) by simp
  qed
  then have nodes: "nodes = map snd (gs_nodes s)" using m by simp
  have names: "map rn_name nodes = map fst (gs_nodes s)" using inv(3) by (auto simp: nodes)
  have ne: "gs_nodes s \<noteq> []" using root(1) by auto
  have "refs n \<subseteq> rn_name ` set xs" if eq: "nodes = xs @ n # ys" for xs n ys
  proof -
    obtain as rest where rest: "gs_nodes s = as @ rest" "map snd as = xs" "map snd rest = n # ys"
      using eq unfolding nodes by (auto simp: map_eq_append_conv)
    then obtain k bs where "rest = (k, n) # bs" by (cases rest) auto
    then have as: "gs_nodes s = as @ (k, n) # bs" "map snd as = xs" using rest by simp_all
    have "\<forall>p \<in> set as. fst p = rn_name (snd p)" using inv(3) by (auto simp: as(1))
    then have "fst ` set as = rn_name ` set xs" by (simp add: as(2) [symmetric] image_image)
    moreover have "refs n \<subseteq> fst ` set as" by (rule inv(4) [rule_format, OF as(1)])
    ultimately show ?thesis by simp
  qed
  moreover have "rn_name (last nodes) = root"
    using bspec [OF inv(3) last_in_set [OF ne]] root(2) ne by (simp add: nodes last_map split_beta)
  ultimately show ?thesis using inv(2,3) ne by (auto simp: names) (auto simp: nodes)
qed

lemma resolve_graph_terminates:
  assumes "calm untar rs" "resolve_graph sha untar rs root c = (c', Inl e)"
  shows "e \<noteq> Recursion_Error"
proof -
  obtain s r where s: "visit_component (Suc (Suc (length (lk_entries (rs_lock rs))))) sha untar rs [] root
      \<lparr>gs_cache = c, gs_nodes = [], gs_order = []\<rparr> = (s, r)" by force
  have "fails_only no_rec (mapR (node_at (gs_nodes s)) (gs_order s))"
    by (auto simp: node_at_def intro!: fails_intros split: option.splits)
  then have nodes: "mapR (node_at (gs_nodes s)) (gs_order s) \<noteq> Inl Recursion_Error" by (auto dest: fails_onlyD)
  show ?thesis
  proof (cases r)
    case (Inl e')
    have "e' \<noteq> Recursion_Error" by (rule visit_fuel [OF assms(1) s [unfolded Inl]]) simp_all
    then show ?thesis using assms(2) unfolding resolve_graph_def s by (simp add: Inl)
  next
    case (Inr u)
    then show ?thesis using assms(2) nodes unfolding resolve_graph_def s by auto
  qed
qed

lemma refs_acyclic:
  assumes "distinct (map rn_name nodes)"
    and "\<And>xs n ys. nodes = xs @ n # ys \<Longrightarrow> refs n \<subseteq> rn_name ` set xs"
  shows "acyclic {(t, rn_name n) | t n. n \<in> set nodes \<and> t \<in> refs n}"
proof (rule topo_before_acyclic [OF _ assms(1)])
  show "topo_before {(t, rn_name n) | t n. n \<in> set nodes \<and> t \<in> refs n} (map rn_name nodes)"
    unfolding topo_before_def
  proof (clarify)
    fix t n xs ys assume n: "n \<in> set nodes" "t \<in> refs n" and split: "map rn_name nodes = xs @ rn_name n # ys"
    then obtain as m bs where as: "nodes = as @ m # bs" "map rn_name as = xs" "rn_name m = rn_name n"
      by (auto simp: map_eq_append_conv map_eq_Cons_conv)
    have "m = n" using n(1) as(1,3) assms(1) by (auto simp: distinct_map inj_on_def)
    then show "t \<in> set xs" using assms(2) [OF as(1)] n(2) as(2) by auto
  qed
qed auto

section \<open>Example resolver\<close>

definition ex_digest :: string where "ex_digest = replicate 64 CHR ''a''"

definition ex_hash :: "string \<Rightarrow> string" where "ex_hash s = ex_digest"

definition ex_entry :: lock_entry where
  "ex_entry = \<lparr>le_name = ''app'', le_repo_url = ''u'', le_commit_sha = replicate 40 CHR ''0'', le_tree_sha256 = ex_digest,
     le_implements = [''c.v1''], le_capabilities = [], le_signature = ''s'', le_envelope = []\<rparr>"

definition ex_lock :: lock where
  "ex_lock = \<lparr>lk_root = ''app'', lk_entries = [ex_entry], lk_contracts = [''c.v1''], lk_schema = LOCK_SCHEMA\<rparr>"

definition ex_manifest :: manifest where
  "ex_manifest = \<lparr>mf_version = COMPONENT_V1, mf_name = ''app'', mf_kind = ''atomic'',
     mf_entry = \<lparr>ed_runtime = ''python'', ed_entrypoint = ''m:f''\<rparr>, mf_implements = [''c.v1''], mf_state = None,
     mf_children = [], mf_directive = [], mf_capabilities = [], mf_provenance = None, mf_ports = []\<rparr>"

definition ex_untar :: untar where
  "ex_untar b = Inr [\<lparr>tm_name = BUNDLE_MANIFEST, tm_isfile = True, tm_data = utf8 (json_text (manifest_to_dict ex_manifest))\<rparr>]"

definition ex_resolver :: resolver where
  "ex_resolver = \<lparr>rs_lock = ex_lock, rs_source = (\<lambda>e. Inr ''tar''), rs_verifier = Some (\<lambda>p s. Inr ())\<rparr>"

lemma ex_digest_hex: "re_hex 64 ex_digest"
  by (simp add: re_hex_def ex_digest_def is_hexl_def hexl_chars_def list_all_iff)

lemma ex_checked: "check_component ex_hash ex_resolver ''app'' = Inr (ex_entry, ''tar'')"
  by (simp add: check_component_def ex_resolver_def ex_lock_def entry_of_def ex_entry_def ex_hash_def)

lemma ex_manifest_ok: "manifest_ok ex_manifest"
  by (simp add: manifest_ok_def ex_manifest_def mk_manifest_def mk_entry_def runtime_kinds_def component_kinds_def
      COMPONENT_V1_def)

lemma ex_manifest_loads: "load_manifest ex_untar b = Inr ex_manifest"
proof -
  have "wf_pyval (manifest_to_dict ex_manifest)"
    by (simp add: manifest_to_dict_def ex_manifest_def opt_dict_def entry_to_dict_def ports_to_dict_def)
  then have "parse_manifest (utf8 (json_text (manifest_to_dict ex_manifest))) = Inr ex_manifest"
    using manifest_round_trip [OF ex_manifest_ok] by (simp add: parse_manifest_def json_loads_text)
  moreover have "check_name BUNDLE_MANIFEST = Inr ()" "rstrip_slash BUNDLE_MANIFEST = BUNDLE_MANIFEST" by code_simp+
  ultimately show ?thesis by (simp add: load_manifest_def read_member_def ex_untar_def)
qed

lemma ex_node: "\<exists>c' n. resolve_node ex_hash ex_untar ex_resolver ''app'' [] = (c', Inr n) \<and> rn_children n = []"
proof -
  have "mf_children ex_manifest = []" "entry_of (rs_lock ex_resolver) ''app'' = Inr ex_entry"
    by (simp_all add: ex_manifest_def ex_resolver_def ex_lock_def entry_of_def ex_entry_def)
  then show ?thesis
    by (simp add: resolve_node_def as_graph_error_def resolve_def ex_checked cache_put_def ex_hash_def re_hex_path
        ex_digest_hex cache_get_def dict_simps ex_manifest_loads resolve_children_def)
qed

lemma ex_graph_resolves: "\<exists>c' nodes. resolve_graph ex_hash ex_untar ex_resolver ''app'' [] = (c', Inr nodes)"
proof -
  obtain c n where "resolve_node ex_hash ex_untar ex_resolver ''app'' [] = (c, Inr n)" "rn_children n = []"
    using ex_node by blast
  then show ?thesis by (simp add: resolve_graph_def node_at_def dict_simps)
qed

section \<open>Properties\<close>

text \<open>C22: Resolution is verified: \<open>resolve\<close> returns a component exactly when the lock names it, the
  fetched bytes have the pinned hash, every contract it implements is supported, the configured
  verifier accepts its signature over those bytes, and the digest is one the cache can address; the
  cache then serves bytes of that digest and keeps every other entry, and a failure changes nothing.\<close>

theorem resolve_verified:
  "(resolve sha rs name c = (c', Inr r) \<longrightarrow>
     (\<exists>e data. entry_of (rs_lock rs) name = Inr e \<and> verified sha rs e data \<and>
        r = \<lparr>rv_entry = e, rv_digest = sha data, rv_size = length data\<rparr> \<and>
        (\<exists>x. cache_get sha (sha data) c' = Inr (Some x) \<and> sha x = sha data) \<and>
        (\<forall>k. k \<noteq> sha data \<longrightarrow> dget c' k = dget c k))) \<and>
   (entry_of (rs_lock rs) name = Inr e \<and> verified sha rs e data \<and> re_hex 64 (sha data) \<longrightarrow>
     isOk (snd (resolve sha rs name c))) \<and>
   (resolve sha rs name c = (c', Inl err) \<longrightarrow> c' = c)"
proof (intro conjI impI)
  assume "resolve sha rs name c = (c', Inr r)"
  then obtain e data where e: "entry_of (rs_lock rs) name = Inr e" "verified sha rs e data"
    "cache_put sha data c = (c', Inr (sha data))" "r = \<lparr>rv_entry = e, rv_digest = sha data, rv_size = length data\<rparr>"
    by (auto simp: resolve_cases)
  then show "\<exists>e data. entry_of (rs_lock rs) name = Inr e \<and> verified sha rs e data \<and>
        r = \<lparr>rv_entry = e, rv_digest = sha data, rv_size = length data\<rparr> \<and>
        (\<exists>x. cache_get sha (sha data) c' = Inr (Some x) \<and> sha x = sha data) \<and>
        (\<forall>k. k \<noteq> sha data \<longrightarrow> dget c' k = dget c k)"
    using cache_put_get [OF e(3)] cache_put_parts(4) [OF e(3)] by blast
next
  assume a: "entry_of (rs_lock rs) name = Inr e \<and> verified sha rs e data \<and> re_hex 64 (sha data)"
  then obtain c1 where "cache_put sha data c = (c1, Inr (sha data))" using cache_put_ok by blast
  then have "resolve sha rs name c = (c1, Inr \<lparr>rv_entry = e, rv_digest = sha data, rv_size = length data\<rparr>)"
    using a by (auto simp: resolve_cases)
  then show "isOk (snd (resolve sha rs name c))" by simp
qed (rule resolve_fails)

lemma resolve_verified_witness: "isOk (snd (resolve ex_hash ex_resolver ''app'' []))"
  using resolve_verified [of ex_hash ex_resolver "''app''" "[]" _ _ ex_entry "''tar''"] ex_checked ex_digest_hex
  by (simp add: check_component_iff ex_hash_def)

text \<open>C5: A resolved graph is complete, verified and in dependency order: its components have distinct
  names and end with the root, each of them is verified against the lock and its manifest is the one
  of a bundle with the pinned hash, every reference is to a component that comes earlier, and the
  references have no cycle.\<close>

theorem resolve_graph_sound:
  assumes "resolve_graph sha untar rs root c = (c', Inr nodes)"
  shows "distinct (map rn_name nodes) \<and> nodes \<noteq> [] \<and> rn_name (last nodes) = root \<and>
    (\<forall>n \<in> set nodes. node_verified sha untar rs n) \<and>
    (\<forall>xs n ys. nodes = xs @ n # ys \<longrightarrow> refs n \<subseteq> rn_name ` set xs) \<and>
    acyclic {(t, rn_name n) | t n. n \<in> set nodes \<and> t \<in> refs n}"
  using resolve_graph_result [OF assms] refs_acyclic [of nodes] by simp

lemma resolve_graph_sound_witness:
  "\<exists>c' nodes. resolve_graph ex_hash ex_untar ex_resolver ''app'' [] = (c', Inr nodes) \<and> rn_name (last nodes) = ''app''"
proof -
  obtain c' nodes where r: "resolve_graph ex_hash ex_untar ex_resolver ''app'' [] = (c', Inr nodes)"
    using ex_graph_resolves by blast
  then show ?thesis using resolve_graph_sound [OF r] by blast
qed

text \<open>Resolution of a graph ends: the search needs no more nested calls than the lock has entries
  (plus two), whatever the bundles declare, as long as the source, the verifier and the tar reader
  return.\<close>

theorem resolve_graph_ends:
  assumes "calm untar rs" "resolve_graph sha untar rs root c = (c', r)"
  shows "r \<noteq> Inl Recursion_Error"
  using resolve_graph_terminates [OF assms(1)] assms(2) by blast

lemma resolve_graph_ends_witness:
  "snd (resolve_graph ex_hash ex_untar ex_resolver ''app'' []) \<noteq> Inl Recursion_Error"
proof -
  have "calm ex_untar ex_resolver" by (simp add: calm_def ex_untar_def ex_resolver_def)
  then show ?thesis using resolve_graph_ends [of ex_untar ex_resolver ex_hash "''app''" "[]"] by (metis prod.collapse)
qed

text \<open>The address of a lock pins its content: two well-formed locks have the same canonical bytes
  exactly when they agree up to the key order of their envelopes, and a stored lock parses back
  with the same address.\<close>

theorem lock_address:
  assumes "lock_ok l" "lock_ok m"
  shows "(lock_bytes l = lock_bytes m \<longleftrightarrow> norm_lock l = norm_lock m) \<and>
    (\<exists>doc. json_loads (lock_bytes l) = Some doc \<and> lock_from_dict doc = Inr (norm_lock l) \<and>
       lock_hash sha (norm_lock l) = lock_hash sha l)"
proof -
  have "json_loads (lock_bytes l) = Some (json_norm (lock_to_dict l))"
    unfolding lock_bytes_def by (rule canonical_loads [OF wf_lock_dict [OF assms(1)]])
  moreover have "lock_hash sha (norm_lock l) = lock_hash sha l"
    by (simp add: lock_hash_def lock_bytes_def canonical_bytes_def json_norm_lock)
  ultimately show ?thesis using lock_bytes_inj [OF assms] lock_parse_norm [OF assms(1)] by blast
qed

lemma lock_address_witness: "\<exists>doc. json_loads (lock_bytes ex_lock) = Some doc \<and> lock_from_dict doc = Inr (norm_lock ex_lock)"
proof -
  have "re_commit (replicate 40 CHR ''0'')" by (simp add: re_commit_def re_hex_def is_hexl_def hexl_chars_def list_all_iff)
  then have "lock_ok ex_lock" using ex_digest_hex by (simp add: lock_ok_def ex_lock_def ex_entry_def entry_ok_def)
  from lock_address [OF this this] show ?thesis by blast
qed

text \<open>The promise that every failure of a graph is a \<open>GraphError\<close> does not hold: a verified bundle
  without its manifest member is refused with \<open>BundleError\<close>.\<close>

lemma missing_manifest_error:
  "snd (resolve_graph ex_hash (\<lambda>b. Inr []) ex_resolver ''app'' c) = Inl Bundle_Error"
proof -
  have e: "entry_of (rs_lock ex_resolver) ''app'' = Inr ex_entry"
    by (simp add: ex_resolver_def ex_lock_def entry_of_def ex_entry_def)
  obtain c1 where put: "cache_put ex_hash ''tar'' c = (c1, Inr ex_digest)"
    using cache_put_ok [of ex_hash "''tar''" c] ex_digest_hex by (auto simp: ex_hash_def)
  then obtain x where "cache_get ex_hash ex_digest c1 = Inr (Some x)" using cache_put_get by blast
  moreover have "load_manifest (\<lambda>b. Inr []) x = Inl Bundle_Error"
    by (simp add: load_manifest_def read_member_def check_name_def rejectR_def)
  ultimately have "resolve_node ex_hash (\<lambda>b. Inr []) ex_resolver ''app'' c = (c1, Inl Bundle_Error)"
    using put e by (simp add: resolve_node_def as_graph_error_def resolve_def ex_checked ex_hash_def)
  then show ?thesis by (simp add: resolve_graph_def)
qed

end
