(* ===== verification/Trust.thy ===== *)
theory Trust
  imports Resolve
begin

text \<open>
  \<open>cbp/trust.py\<close>: the ring of rotating keys with overlapping trust windows, and the interfaces
  of \<open>cbp/signing.py\<close> and \<open>cbp/signing_service.py\<close> it rests on. A verifier returns or raises
  \<open>SignatureError\<close> and a signer signs a payload; the tools behind both are parameters.
\<close>

section \<open>Model\<close>

record signer =
  sg_key_id :: string
  sg_sign :: "string \<Rightarrow> dist_error + string"

record trust_window =
  tw_key_id :: string
  tw_verifier :: verifier
  tw_not_before :: int
  tw_not_after :: int
  tw_signer :: "signer option"

abbreviation trust_reject :: "bool \<Rightarrow> dist_error + unit" where
  "trust_reject b \<equiv> rejectR b Trust_Error"

definition mk_window :: "trust_window \<Rightarrow> dist_error + trust_window" where
  "mk_window w =
     thenR (trust_reject (tw_key_id w = []))
     (thenR (trust_reject (tw_not_after w \<le> tw_not_before w))
     (thenR (trust_reject (case tw_signer w of None \<Rightarrow> False | Some s \<Rightarrow> sg_key_id s \<noteq> tw_key_id w)) (Inr w)))"

definition covers :: "trust_window \<Rightarrow> int \<Rightarrow> bool" where
  "covers w t \<longleftrightarrow> tw_not_before w \<le> t \<and> t < tw_not_after w"

type_synonym trust_store = "trust_window list"

definition mk_store :: "trust_window list \<Rightarrow> dist_error + trust_store" where
  "mk_store windows =
     (let ordered = sort_key tw_key_id windows
      in thenR (trust_reject (ordered = []))
         (thenR (trust_reject (\<not> distinct (map tw_key_id ordered))) (Inr ordered)))"

definition key_ids :: "trust_store \<Rightarrow> string list" where
  "key_ids store = map tw_key_id store"

definition active_key_ids :: "trust_store \<Rightarrow> int \<Rightarrow> string list" where
  "active_key_ids store t = map tw_key_id (filter (\<lambda>w. covers w t) store)"

definition by_id :: "trust_store \<Rightarrow> trust_window dict" where
  "by_id store = map (\<lambda>w. (tw_key_id w, w)) store"

definition window :: "trust_store \<Rightarrow> string \<Rightarrow> dist_error + trust_window" where
  "window store key_id = (case dget (by_id store) key_id of None \<Rightarrow> Inl Trust_Error | Some w \<Rightarrow> Inr w)"

definition signer_at :: "trust_store \<Rightarrow> int \<Rightarrow> dist_error + signer" where
  "signer_at store t =
     (case filter (\<lambda>w. covers w t \<and> tw_signer w \<noteq> None) store of
        [] \<Rightarrow> Inl Trust_Error
      | [w] \<Rightarrow> Inr (the (tw_signer w))
      | _ \<Rightarrow> Inl Trust_Error)"

definition verifier_for :: "trust_store \<Rightarrow> string \<Rightarrow> dist_error + verifier" where
  "verifier_for store key_id = bindR (window store key_id) (\<lambda>w. Inr (tw_verifier w))"

definition log_verifiers :: "trust_store \<Rightarrow> verifier dict" where
  "log_verifiers store = map (\<lambda>w. (tw_key_id w, tw_verifier w)) store"

fun first_verified :: "trust_window list \<Rightarrow> string \<Rightarrow> string \<Rightarrow> dist_error + string" where
  "first_verified [] payload signature = Inl Signature_Error"
| "first_verified (w # ws) payload signature =
     (case tw_verifier w payload signature of
        Inr _ \<Rightarrow> Inr (tw_key_id w)
      | Inl e \<Rightarrow> if is_signature_error e then first_verified ws payload signature else Inl e)"

definition candidates :: "trust_store \<Rightarrow> int option \<Rightarrow> trust_window list" where
  "candidates store t = (case t of None \<Rightarrow> store | Some t \<Rightarrow> filter (\<lambda>w. covers w t) store)"

definition verified_key :: "trust_store \<Rightarrow> int option \<Rightarrow> string \<Rightarrow> string \<Rightarrow> dist_error + string" where
  "verified_key store t payload signature = first_verified (candidates store t) payload signature"

definition trust_verify :: "trust_store \<Rightarrow> verifier" where
  "trust_verify store payload signature = bindR (verified_key store None payload signature) (\<lambda>_. Inr ())"

section \<open>The contract of a verifier\<close>

text \<open>What the protocol \<open>SignatureVerifier\<close> promises: no other exception than \<open>SignatureError\<close>.\<close>

definition lawful :: "verifier \<Rightarrow> bool" where
  "lawful v \<longleftrightarrow> (\<forall>p s. fails_only is_signature_error (v p s))"

definition accepts_sig :: "verifier \<Rightarrow> string \<Rightarrow> string \<Rightarrow> bool" where
  "accepts_sig v p s \<longleftrightarrow> v p s = Inr ()"

lemma lawful_refuses: "lawful v \<Longrightarrow> \<not> accepts_sig v p s \<Longrightarrow> \<exists>e. v p s = Inl e \<and> is_signature_error e"
  unfolding lawful_def accepts_sig_def
  by (cases "v p s") (auto dest: fails_onlyD)

section \<open>Stores\<close>

lemma mk_store_iff: "mk_store ws = Inr store \<longleftrightarrow>
    ws \<noteq> [] \<and> distinct (map tw_key_id ws) \<and> store = sort_key tw_key_id ws"
proof -
  have "distinct (map tw_key_id (sort_key tw_key_id ws)) \<longleftrightarrow> distinct (map tw_key_id ws)"
    by (metis distinct_map distinct_sort set_sort)
  moreover have "sort_key tw_key_id ws = [] \<longleftrightarrow> ws = []" by (metis length_0_conv length_sort)
  ultimately show ?thesis by (auto simp: mk_store_def Let_def result_simps)
qed

lemma log_verifiers_get:
  assumes "distinct (map tw_key_id store)"
  shows "dget (log_verifiers store) k = Some v \<longleftrightarrow> (\<exists>w \<in> set store. tw_key_id w = k \<and> tw_verifier w = v)"
proof -
  have wf: "wf_dict (log_verifiers store)" using assms by (simp add: wf_dict_def log_verifiers_def comp_def)
  show ?thesis
  proof
    assume "dget (log_verifiers store) k = Some v"
    then have "(k, v) \<in> set (log_verifiers store)" by (rule dget_Some_in)
    then show "\<exists>w \<in> set store. tw_key_id w = k \<and> tw_verifier w = v" by (auto simp: log_verifiers_def)
  next
    assume "\<exists>w \<in> set store. tw_key_id w = k \<and> tw_verifier w = v"
    then have "(k, v) \<in> set (log_verifiers store)" by (auto simp: log_verifiers_def)
    then show "dget (log_verifiers store) k = Some v" by (rule dget_wf [OF wf])
  qed
qed

lemma first_verified_find:
  assumes "\<forall>w \<in> set ws. lawful (tw_verifier w)"
  shows "first_verified ws p s =
    (case find (\<lambda>w. accepts_sig (tw_verifier w) p s) ws of None \<Rightarrow> Inl Signature_Error | Some w \<Rightarrow> Inr (tw_key_id w))"
  using assms
proof (induction ws)
  case Nil
  then show ?case by simp
next
  case (Cons w ws)
  show ?case
  proof (cases "accepts_sig (tw_verifier w) p s")
    case True
    then have "tw_verifier w p s = Inr ()" by (simp add: accepts_sig_def)
    with True show ?thesis by simp
  next
    case False
    then obtain e where "tw_verifier w p s = Inl e" "is_signature_error e"
      using Cons.prems lawful_refuses [of "tw_verifier w" p s] by auto
    then show ?thesis using False Cons by simp
  qed
qed

lemma first_verified_refuses:
  assumes "\<forall>w \<in> set ws. lawful (tw_verifier w)" "first_verified ws p s = Inl e"
  shows "e = Signature_Error"
  using assms(2) by (simp add: first_verified_find [OF assms(1)] split: option.splits)

lemma lawful_trust_verify:
  assumes "\<forall>w \<in> set store. lawful (tw_verifier w)"
  shows "lawful (trust_verify store)"
  using first_verified_refuses [OF assms]
  by (auto simp: lawful_def trust_verify_def verified_key_def candidates_def is_signature_error_def
      fails_only_def result_simps)

lemma signer_at_iff:
  assumes "distinct (map tw_key_id store)"
  shows "signer_at store t = Inr s \<longleftrightarrow>
    (\<exists>w \<in> set store. covers w t \<and> tw_signer w = Some s \<and>
       (\<forall>u \<in> set store. covers u t \<and> tw_signer u \<noteq> None \<longrightarrow> u = w))"
proof -
  let ?P = "\<lambda>w. covers w t \<and> tw_signer w \<noteq> None"
  have d: "distinct (filter ?P store)" using assms by (simp add: distinct_map)
  show ?thesis
  proof (cases "filter ?P store")
    case Nil
    then have "\<forall>w \<in> set store. \<not> ?P w" by (simp add: filter_empty_conv)
    with Nil show ?thesis by (auto simp: signer_at_def)
  next
    case (Cons w rest)
    have members: "?P u \<and> u \<in> set store \<longleftrightarrow> u = w \<or> u \<in> set rest" for u
    proof -
      have "set (filter ?P store) = insert w (set rest)" using Cons by simp
      then show ?thesis by auto
    qed
    have sa: "signer_at store t = (if rest = [] then Inr (the (tw_signer w)) else Inl Trust_Error)"
      unfolding signer_at_def Cons by (simp split: list.split)
    have wP: "?P w" "w \<in> set store" using members [of w] by blast+
    have rhs: "(\<exists>x \<in> set store. covers x t \<and> tw_signer x = Some s \<and> (\<forall>u \<in> set store. ?P u \<longrightarrow> u = x)) \<longleftrightarrow>
        tw_signer w = Some s \<and> set rest \<subseteq> {w}" (is "?l \<longleftrightarrow> ?r")
    proof
      assume ?l
      then obtain x where x: "tw_signer x = Some s" "\<And>u. u \<in> set store \<Longrightarrow> ?P u \<Longrightarrow> u = x" by blast
      from x(2) wP have "w = x" by blast
      moreover have "u = x" if "u \<in> set rest" for u using x(2) [of u] members [of u] that by blast
      ultimately show ?r using x(1) by blast
    next
      assume r: ?r
      have "u = w" if "u \<in> set store" "?P u" for u using members [of u] that r by blast
      then show ?l using wP r by blast
    qed
    have "set rest \<subseteq> {w} \<longleftrightarrow> rest = []" using d Cons by (cases rest) auto
    then show ?thesis unfolding sa rhs using wP by auto
  qed
qed

end
