(* ===== verification/Threshold.thy ===== *)
theory Threshold
  imports Trust
begin

text \<open>
  \<open>cbp/threshold.py\<close>: k-of-n signatures. A policy names the eligible keys, a bundle of detached
  signatures is canonical JSON with Base64 parts, and the verifier of a policy is itself a
  verifier. Base64 is the standard encoding of the library (RFC 4648); its strict decoder
  takes whole groups of four with exact padding.
\<close>

section \<open>Base64\<close>

definition b64_alphabet :: string where
  "b64_alphabet = ''ABCDEFGHIJKLMNOPQRSTUVWXYZabcdefghijklmnopqrstuvwxyz0123456789+/''"

definition b64_char :: "nat \<Rightarrow> char" where
  "b64_char n = b64_alphabet ! n"

definition b64_value :: "char \<Rightarrow> nat option" where
  "b64_value c = (let k = length (takeWhile (\<lambda>x. x \<noteq> c) b64_alphabet) in if k < 64 then Some k else None)"

definition pad_c :: char where "pad_c = CHR ''=''"

fun b64encode :: "string \<Rightarrow> string" where
  "b64encode [] = []"
| "b64encode [x] = (let n = code x in [b64_char (n div 4), b64_char (n mod 4 * 16), pad_c, pad_c])"
| "b64encode [x, y] = (let n = code x * 256 + code y
     in [b64_char (n div 1024), b64_char (n div 16 mod 64), b64_char (n mod 16 * 4), pad_c])"
| "b64encode (x # y # z # r) = (let n = code x * 65536 + code y * 256 + code z
     in b64_char (n div 262144) # b64_char (n div 4096 mod 64) # b64_char (n div 64 mod 64) # b64_char (n mod 64)
        # b64encode r)"

fun b64decode :: "string \<Rightarrow> string option" where
  "b64decode [] = Some []"
| "b64decode (a # b # c # d # r) =
     (case (b64_value a, b64_value b) of
        (Some va, Some vb) \<Rightarrow>
          (if c = pad_c \<and> d = pad_c then (if r = [] then Some [char_of ((va * 64 + vb) div 16)] else None)
           else (case b64_value c of
                   None \<Rightarrow> None
                 | Some vc \<Rightarrow>
                     (if d = pad_c
                      then (if r = [] then Some [char_of ((va * 4096 + vb * 64 + vc) div 1024),
                              char_of ((va * 4096 + vb * 64 + vc) div 4)] else None)
                      else (case (b64_value d, b64decode r) of
                              (Some vd, Some s) \<Rightarrow>
                                (let n = va * 262144 + vb * 4096 + vc * 64 + vd
                                 in Some (char_of (n div 65536) # char_of (n div 256) # char_of n # s))
                            | _ \<Rightarrow> None))))
      | _ \<Rightarrow> None)"
| "b64decode _ = None"

lemma b64_values: "\<forall>k \<in> set [0..<64]. b64_value (b64_char k) = Some k \<and> b64_char k \<noteq> pad_c \<and> code (b64_char k) < 128"
  by code_simp

lemma b64_value_char [simp]: "k < 64 \<Longrightarrow> b64_value (b64_char k) = Some k" "k < 64 \<Longrightarrow> b64_char k \<noteq> pad_c"
  using b64_values by simp_all

lemma char_of_code: "n mod 256 = code c \<Longrightarrow> char_of n = c" for n :: nat
  by (metis char_of_mod_256 char_of_char code_def)

lemma b64decode_groups:
  assumes "i < 64" "j < 64"
  shows "b64decode [b64_char i, b64_char j, pad_c, pad_c] = Some [char_of ((i * 64 + j) div 16)]"
    and "k < 64 \<Longrightarrow> b64decode [b64_char i, b64_char j, b64_char k, pad_c] =
      Some [char_of ((i * 4096 + j * 64 + k) div 1024), char_of ((i * 4096 + j * 64 + k) div 4)]"
    and "k < 64 \<Longrightarrow> l < 64 \<Longrightarrow> b64decode r = Some s \<Longrightarrow>
      n = i * 262144 + j * 4096 + k * 64 + l \<Longrightarrow>
      b64decode (b64_char i # b64_char j # b64_char k # b64_char l # r) =
      Some (char_of (n div 65536) # char_of (n div 256) # char_of n # s)"
  using assms by (simp_all add: Let_def)

lemma digits:
  fixes q r m :: nat
  assumes "r < m" "n = q * m + r"
  shows "n div m = q" "n mod m = r"
  using assms by simp_all

lemma div_bound: "n < k * m \<Longrightarrow> n div m < k" for n k m :: nat
  by (rule less_mult_imp_div_less)

lemma byte_split2:
  fixes x y n :: nat
  assumes "x < 256" "y < 256" and n: "n = x * 256 + y"
  shows "n div 1024 < 64" "n div 16 mod 64 < 64" "n mod 16 * 4 < 64"
    "n div 1024 * 4096 + n div 16 mod 64 * 64 + n mod 16 * 4 = 4 * n"
    "4 * n div 1024 mod 256 = x" "4 * n div 4 mod 256 = y"
proof -
  have "n < 64 * 1024" using assms by simp
  then show "n div 1024 < 64" by (rule div_bound)
  show "n div 16 mod 64 < 64" "n mod 16 * 4 < 64" by simp_all
  have "n = n div 16 * 16 + n mod 16" by simp
  moreover have "n div 16 = n div 16 div 64 * 64 + n div 16 mod 64" by simp
  moreover have "n div 16 div 64 = n div 1024" by (simp add: div_mult2_eq [symmetric])
  ultimately have "n = (n div 1024 * 64 + n div 16 mod 64) * 16 + n mod 16" by metis
  moreover have "m = (a * 64 + b) * 16 + c \<Longrightarrow> a * 4096 + b * 64 + c * 4 = 4 * m" for m a b c :: nat by simp
  ultimately show "n div 1024 * 4096 + n div 16 mod 64 * 64 + n mod 16 * 4 = 4 * n" by blast
  have "4 * n div 1024 = n div 256" using div_mult_mult1 [of 4 n 256] by simp
  then show "4 * n div 1024 mod 256 = x" using digits(1) [OF assms(2) n] assms(1) by simp
  show "4 * n div 4 mod 256 = y" using digits(2) [OF assms(2) n] by simp
qed

lemma byte_split3:
  fixes x y z n :: nat
  assumes "x < 256" "y < 256" "z < 256" "n = x * 65536 + y * 256 + z"
  shows "n div 262144 < 64" "n div 4096 mod 64 < 64" "n div 64 mod 64 < 64" "n mod 64 < 64"
    "n div 65536 mod 256 = x" "n div 256 mod 256 = y" "n mod 256 = z"
proof -
  have "n < 64 * 262144" using assms by simp
  then show "n div 262144 < 64" by (rule div_bound)
  have yz: "y * 256 + z < 65536" using assms by simp
  have n: "n = x * 65536 + (y * 256 + z)" "n = (x * 256 + y) * 256 + z" using assms(4) by simp_all
  show "n div 65536 mod 256 = x" using digits(1) [OF yz n(1)] assms(1) by simp
  show "n mod 256 = z" using digits(2) [OF assms(3) n(2)] .
  show "n div 256 mod 256 = y" using digits(1) [OF assms(3) n(2)] digits(2) [OF assms(2) refl] by simp
qed simp_all

lemma sextets: "n = n div 262144 * 262144 + n div 4096 mod 64 * 4096 + n div 64 mod 64 * 64 + n mod 64" for n :: nat
proof -
  have "n = n div 64 * 64 + n mod 64" by simp
  moreover have "n div 64 = n div 64 div 64 * 64 + n div 64 mod 64" by simp
  moreover have "n div 4096 = n div 4096 div 64 * 64 + n div 4096 mod 64" by simp
  moreover have "n div 64 div 64 = n div 4096" "n div 4096 div 64 = n div 262144" by (simp_all add: div_mult2_eq [symmetric])
  ultimately have "n = ((n div 262144 * 64 + n div 4096 mod 64) * 64 + n div 64 mod 64) * 64 + n mod 64" by metis
  moreover have "m = ((a * 64 + b) * 64 + c) * 64 + d \<Longrightarrow> m = a * 262144 + b * 4096 + c * 64 + d" for m a b c d :: nat
    by simp
  ultimately show ?thesis by blast
qed

lemma b64_round: "b64decode (b64encode s) = Some s"
proof (induction s rule: b64encode.induct)
  case (2 x)
  have c: "code x < 256" by (rule code_less)
  have "code x = code x div 4 * 4 + code x mod 4" by simp
  moreover have "m = a * 4 + b \<Longrightarrow> a * 64 + b * 16 = 16 * m" for m a b :: nat by simp
  ultimately have "code x div 4 * 64 + code x mod 4 * 16 = 16 * code x" by blast
  then have eq: "(code x div 4 * 64 + code x mod 4 * 16) div 16 = code x" by simp
  have "code x div 4 < 64" using c by (intro div_bound) simp
  moreover have "code x mod 4 * 16 < 64" by simp
  ultimately have "code x div 4 < 64" "code x mod 4 * 16 < 64" .
  from b64decode_groups(1) [OF this] show ?case
    using c char_of_code [of "code x" x] by (simp only: b64encode.simps Let_def eq mod_less)
next
  case (3 x y)
  let ?n = "code x * 256 + code y"
  note n = byte_split2 [OF code_less code_less refl, of x y]
  show ?case
    using b64decode_groups(2) [OF n(1-3)] char_of_code [OF n(5)] char_of_code [OF n(6)]
    by (simp only: b64encode.simps Let_def n(4))
next
  case (4 x y z r)
  let ?n = "code x * 65536 + code y * 256 + code z"
  note n = byte_split3 [OF code_less code_less code_less refl, of x y z]
  show ?case
    using b64decode_groups(3) [OF n(1-4) 4 [OF refl] sextets] char_of_code [OF n(5)] char_of_code [OF n(6)] char_of_code [OF n(7)]
    by (simp only: b64encode.simps Let_def)
qed simp

section \<open>Policies\<close>

definition THRESHOLD_SCHEMA :: string where "THRESHOLD_SCHEMA = ''threshold.sig/v1''"

abbreviation threshold_reject :: "bool \<Rightarrow> dist_error + unit" where
  "threshold_reject b \<equiv> rejectR b Threshold_Error"

record policy =
  po_threshold :: int
  po_key_ids :: "string list"
  po_schema :: string

definition mk_policy :: "policy \<Rightarrow> dist_error + policy" where
  "mk_policy p =
     thenR (threshold_reject (po_schema p \<noteq> THRESHOLD_SCHEMA))
     (let ordered = sort (po_key_ids p)
      in thenR (threshold_reject (ordered = []))
         (thenR (threshold_reject (list_ex (\<lambda>k. k = []) ordered))
         (thenR (threshold_reject (card (set ordered) \<noteq> length ordered))
         (thenR (threshold_reject (po_threshold p < 1))
         (thenR (threshold_reject (int (length ordered) < po_threshold p))
           (Inr (p\<lparr>po_key_ids := ordered\<rparr>)))))))"

definition policy_accepts :: "policy \<Rightarrow> string list \<Rightarrow> bool" where
  "policy_accepts p verified \<longleftrightarrow>
     po_threshold p \<le> int (card (set (filter (\<lambda>k. k \<in> set (po_key_ids p)) verified)))"

definition policy_to_dict :: "policy \<Rightarrow> pyval" where
  "policy_to_dict p = PDict [(''schema'', PStr (po_schema p)), (''threshold'', PInt (po_threshold p)),
     (''key_ids'', PStrs (po_key_ids p))]"

definition policy_hash :: "(string \<Rightarrow> string) \<Rightarrow> policy \<Rightarrow> string" where
  "policy_hash sha p = sha (canonical_bytes (policy_to_dict p))"

definition policy_from_dict :: "pyval \<Rightarrow> dist_error + policy" where
  "policy_from_dict data =
     (case data of
        PDict kvs \<Rightarrow>
          (case dget_or kvs ''key_ids'' (PList []) of
             PList keys \<Rightarrow>
               bindR (field data ''threshold'') (\<lambda>v. bindR (liftR Py_Raise (py_int v)) (\<lambda>t.
                 mk_policy \<lparr>po_threshold = t, po_key_ids = map py_str keys,
                   po_schema = py_str (dget_or kvs ''schema'' (PStr THRESHOLD_SCHEMA))\<rparr>))
           | _ \<Rightarrow> Inl Threshold_Error)
      | _ \<Rightarrow> Inl Threshold_Error)"

section \<open>Bundles of signatures\<close>

record sig_part =
  sp_key_id :: string
  sp_signature :: string

definition mk_part :: "string \<Rightarrow> string \<Rightarrow> dist_error + sig_part" where
  "mk_part key_id signature =
     thenR (threshold_reject (key_id = [])) (thenR (threshold_reject (signature = []))
       (Inr \<lparr>sp_key_id = key_id, sp_signature = signature\<rparr>))"

definition part_to_dict :: "sig_part \<Rightarrow> pyval" where
  "part_to_dict p = PDict [(''key_id'', PStr (sp_key_id p)), (''signature'', PStr (b64encode (sp_signature p)))]"

definition part_from_dict :: "pyval \<Rightarrow> dist_error + sig_part" where
  "part_from_dict data =
     (case data of
        PDict kvs \<Rightarrow>
          (case dget_or kvs ''signature'' (PStr []) of
             PStr raw \<Rightarrow>
               (case b64decode raw of
                  None \<Rightarrow> Inl Threshold_Error
                | Some signature \<Rightarrow> bindR (field data ''key_id'') (\<lambda>k. mk_part (py_str k) signature))
           | _ \<Rightarrow> Inl Threshold_Error)
      | _ \<Rightarrow> Inl Threshold_Error)"

record sig_bundle =
  sb_parts :: "sig_part list"
  sb_schema :: string

definition mk_bundle :: "sig_bundle \<Rightarrow> dist_error + sig_bundle" where
  "mk_bundle b =
     thenR (threshold_reject (sb_schema b \<noteq> THRESHOLD_SCHEMA))
     (let ordered = sort_key sp_key_id (sb_parts b)
      in thenR (threshold_reject (ordered = []))
         (thenR (threshold_reject (card (set (map sp_key_id ordered)) \<noteq> length ordered))
           (Inr (b\<lparr>sb_parts := ordered\<rparr>))))"

definition bundle_key_ids :: "sig_bundle \<Rightarrow> string list" where
  "bundle_key_ids b = map sp_key_id (sb_parts b)"

definition bundle_to_dict :: "sig_bundle \<Rightarrow> pyval" where
  "bundle_to_dict b = PDict [(''schema'', PStr (sb_schema b)), (''signatures'', PList (map part_to_dict (sb_parts b)))]"

definition to_bytes :: "sig_bundle \<Rightarrow> string" where
  "to_bytes b = canonical_bytes (bundle_to_dict b)"

definition fingerprint :: "(string \<Rightarrow> string) \<Rightarrow> sig_bundle \<Rightarrow> string" where
  "fingerprint sha b = sha (to_bytes b)"

definition from_pairs :: "(string \<times> string) list \<Rightarrow> dist_error + sig_bundle" where
  "from_pairs pairs = bindR (mapR (\<lambda>(k, s). mk_part k s) pairs) (\<lambda>parts.
     mk_bundle \<lparr>sb_parts = parts, sb_schema = THRESHOLD_SCHEMA\<rparr>)"

text \<open>Canonical JSON is ASCII, so bytes outside it end in \<open>ThresholdError\<close> whether they fail to
  decode, to parse, or to be canonical.\<close>

definition from_binary :: "string \<Rightarrow> dist_error + sig_bundle" where
  "from_binary data =
     thenR (threshold_reject (list_ex (\<lambda>c. 128 \<le> code c) data))
     (case json_loads data of
        None \<Rightarrow> Inl Threshold_Error
      | Some parsed \<Rightarrow>
          thenR (threshold_reject (canonical_bytes parsed \<noteq> data))
          (case parsed of
             PDict kvs \<Rightarrow>
               (case dget_or kvs ''signatures'' (PList []) of
                  PList raw_parts \<Rightarrow>
                    bindR (mapR part_from_dict raw_parts) (\<lambda>parts.
                      mk_bundle \<lparr>sb_parts = parts, sb_schema = py_str (dget_or kvs ''schema'' (PStr THRESHOLD_SCHEMA))\<rparr>)
                | _ \<Rightarrow> Inl Threshold_Error)
           | _ \<Rightarrow> Inl Threshold_Error))"

section \<open>The verifier\<close>

record threshold_verifier =
  tv_policy :: policy
  tv_verifiers :: "verifier dict"

definition mk_threshold_verifier :: "policy \<Rightarrow> verifier dict \<Rightarrow> dist_error + threshold_verifier" where
  "mk_threshold_verifier p vs =
     thenR (threshold_reject (filter (\<lambda>k. dget vs k = None) (po_key_ids p) \<noteq> []))
       (Inr \<lparr>tv_policy = p, tv_verifiers = vs\<rparr>)"

definition verify_part ::
  "threshold_verifier \<Rightarrow> string \<Rightarrow> sig_part \<Rightarrow> string list \<Rightarrow> dist_error + string list" where
  "verify_part tv payload part verified =
     thenR (threshold_reject (sp_key_id part \<notin> set (po_key_ids (tv_policy tv))))
     (case dget (tv_verifiers tv) (sp_key_id part) of
        None \<Rightarrow> Inl (Py_Raise (Missing_Key (sp_key_id part)))
      | Some v \<Rightarrow>
          thenR (liftR (\<lambda>e. if is_signature_error e then Threshold_Error else e) (v payload (sp_signature part)))
            (Inr (List.insert (sp_key_id part) verified)))"

definition threshold_verify :: "threshold_verifier \<Rightarrow> verifier" where
  "threshold_verify tv payload signature =
     bindR (from_binary signature) (\<lambda>b.
     bindR (foldR (verify_part tv payload) (sb_parts b) []) (\<lambda>verified.
       threshold_reject (\<not> policy_accepts (tv_policy tv) verified)))"

definition from_trust_store :: "trust_store \<Rightarrow> policy \<Rightarrow> dist_error + threshold_verifier" where
  "from_trust_store store p = mk_threshold_verifier p (log_verifiers store)"

definition sign_threshold :: "string \<Rightarrow> signer list \<Rightarrow> dist_error + sig_bundle" where
  "sign_threshold payload signers =
     thenR (threshold_reject (signers = []))
     (bindR (mapR (\<lambda>s. bindR (sg_sign s payload) (mk_part (sg_key_id s))) signers) (\<lambda>parts.
        mk_bundle \<lparr>sb_parts = parts, sb_schema = THRESHOLD_SCHEMA\<rparr>))"

section \<open>Bundles read back\<close>

definition part_ok :: "sig_part \<Rightarrow> bool" where
  "part_ok p \<longleftrightarrow> sp_key_id p \<noteq> [] \<and> sp_signature p \<noteq> []"

definition bundle_ok :: "sig_bundle \<Rightarrow> bool" where
  "bundle_ok b \<longleftrightarrow> sb_schema b = THRESHOLD_SCHEMA \<and> sb_parts b \<noteq> [] \<and> sorted (map sp_key_id (sb_parts b)) \<and>
     distinct (map sp_key_id (sb_parts b)) \<and> list_all part_ok (sb_parts b)"

lemma mk_part_iff: "mk_part k s = Inr p \<longleftrightarrow> p = \<lparr>sp_key_id = k, sp_signature = s\<rparr> \<and> part_ok p"
  by (auto simp: mk_part_def part_ok_def result_simps)

lemma mk_bundle_iff: "mk_bundle b = Inr b' \<longleftrightarrow>
    sb_schema b = THRESHOLD_SCHEMA \<and> sb_parts b \<noteq> [] \<and> distinct (map sp_key_id (sb_parts b)) \<and>
    b' = b\<lparr>sb_parts := sort_key sp_key_id (sb_parts b)\<rparr>"
proof -
  have "sort_key sp_key_id (sb_parts b) = [] \<longleftrightarrow> sb_parts b = []" by (metis length_0_conv length_sort)
  moreover have "card (set (map sp_key_id (sort_key sp_key_id (sb_parts b)))) = length (sort_key sp_key_id (sb_parts b))
      \<longleftrightarrow> distinct (map sp_key_id (sb_parts b))"
    by (metis card_distinct distinct_card length_map length_sort list.set_map set_sort)
  ultimately show ?thesis by (auto simp: mk_bundle_def Let_def result_simps)
qed

lemma mk_bundle_ok: "bundle_ok b \<Longrightarrow> mk_bundle b = Inr b"
  by (simp add: mk_bundle_iff bundle_ok_def sort_key_id_if_sorted)

lemma mk_bundle_result: "mk_bundle b = Inr b' \<Longrightarrow> list_all part_ok (sb_parts b) \<Longrightarrow> bundle_ok b'"
  using length_sort [of sp_key_id "sb_parts b"]
  by (auto simp: mk_bundle_iff bundle_ok_def list_all_iff distinct_map simp del: length_sort)

lemma part_round: "part_ok p \<Longrightarrow> part_from_dict (part_to_dict p) = Inr p"
  by (cases p) (simp add: part_ok_def part_from_dict_def part_to_dict_def dget_or_def dget_Cons b64_round
      manifest_simps mk_part_def)

lemma json_norm_part [simp]: "json_norm (part_to_dict p) = part_to_dict p"
  by (simp add: part_to_dict_def sort_key_simps)

lemma json_norm_bundle [simp]: "json_norm (bundle_to_dict b) = bundle_to_dict b"
  by (simp add: bundle_to_dict_def sort_key_simps comp_def)

lemma wf_bundle [simp]: "wf_pyval (bundle_to_dict b)"
  by (simp add: bundle_to_dict_def list_all_iff part_to_dict_def)

lemma printable_ascii: "printable s \<Longrightarrow> \<not> list_ex (\<lambda>c. 128 \<le> code c) s"
  by (auto simp: printable_def list_all_iff list_ex_iff)

lemma from_binary_round:
  assumes "bundle_ok b"
  shows "from_binary (to_bytes b) = Inr b"
proof -
  have "mapR part_from_dict (map part_to_dict (sb_parts b)) = Inr (sb_parts b)"
    using assms part_round by (intro mapR_round) (auto simp: bundle_ok_def list_all_iff)
  moreover have "\<not> list_ex (\<lambda>c. 128 \<le> code c) (to_bytes b)"
    using printable_ascii [OF printable_canonical [OF wf_bundle]] by (simp add: to_bytes_def)
  moreover have "json_loads (to_bytes b) = Some (bundle_to_dict b)"
    using canonical_loads [OF wf_bundle [of b]] by (simp add: to_bytes_def)
  ultimately show ?thesis
    using mk_bundle_ok [OF assms]
    by (cases b) (simp add: from_binary_def to_bytes_def, simp add: bundle_to_dict_def dget_or_def dget_Cons)
qed

end
