(* ===== verification/Threshold_Props.thy ===== *)
theory Threshold_Props
  imports Threshold
begin

text \<open>
  What the trust store and the threshold verifier promise: which key a signature verifies
  under, when a bundle is accepted, that a bundle the signers made is accepted by the verifier
  of the store that holds their keys, and where the promises of the documentation fail.
\<close>

section \<open>The trust store\<close>

definition in_scope :: "int option \<Rightarrow> trust_window \<Rightarrow> bool" where
  "in_scope t w \<longleftrightarrow> (case t of None \<Rightarrow> True | Some t \<Rightarrow> covers w t)"

lemma find_sorted:
  fixes f :: "'a \<Rightarrow> 'k::linorder"
  assumes "sorted (map f xs)" "distinct (map f xs)"
  shows "find P xs = Some x \<longleftrightarrow> x \<in> set xs \<and> P x \<and> (\<forall>u \<in> set xs. P u \<longrightarrow> f x \<le> f u)"
  using assms
proof (induction xs)
  case Nil
  then show ?case by simp
next
  case (Cons y ys)
  have le: "f y < f u" if "u \<in> set ys" for u
    using Cons.prems that by (auto simp: order_less_le)
  show ?case
  proof (cases "P y")
    case True
    then show ?thesis using le by (auto simp: less_imp_le dest!: leD dest: le)
  next
    case False
    then show ?thesis using Cons by auto
  qed
qed

lemma candidates_scope: "candidates store t = filter (in_scope t) store"
  by (cases t) (simp_all add: candidates_def in_scope_def [abs_def])

lemma find_candidates: "find P (filter Q xs) = find (\<lambda>x. Q x \<and> P x) xs"
  by (induction xs) auto

lemma verified_key_find:
  assumes "mk_store ws = Inr store" "\<forall>w \<in> set ws. lawful (tw_verifier w)"
  shows "verified_key store t p s =
    (case find (\<lambda>w. in_scope t w \<and> accepts_sig (tw_verifier w) p s) store of
       None \<Rightarrow> Inl Signature_Error | Some w \<Rightarrow> Inr (tw_key_id w))"
proof -
  have "\<forall>w \<in> set (candidates store t). lawful (tw_verifier w)"
    using assms by (auto simp: mk_store_iff candidates_scope)
  from first_verified_find [OF this] show ?thesis
    by (simp add: verified_key_def candidates_scope find_candidates)
qed

section \<open>The threshold verifier\<close>

lemma part_verified_iff: "verify_part tv payload part vs = Inr vs' \<longleftrightarrow>
    sp_key_id part \<in> set (po_key_ids (tv_policy tv)) \<and>
    (\<exists>v. dget (tv_verifiers tv) (sp_key_id part) = Some v \<and> v payload (sp_signature part) = Inr ()) \<and>
    vs' = List.insert (sp_key_id part) vs"
  by (auto simp: verify_part_def result_simps split: option.splits)

lemma parts_verified_iff: "foldR (verify_part tv payload) parts vs = Inr vs' \<longleftrightarrow>
    (\<forall>part \<in> set parts. sp_key_id part \<in> set (po_key_ids (tv_policy tv)) \<and>
      (\<exists>v. dget (tv_verifiers tv) (sp_key_id part) = Some v \<and> v payload (sp_signature part) = Inr ())) \<and>
    vs' = foldl (\<lambda>vs part. List.insert (sp_key_id part) vs) vs parts"
  by (induction parts arbitrary: vs) (auto simp: result_simps part_verified_iff)

lemma set_verified: "set (foldl (\<lambda>vs part. List.insert (sp_key_id part) vs) vs parts) = set vs \<union> sp_key_id ` set parts"
  by (induction parts arbitrary: vs) auto

lemma from_binary_distinct: "from_binary data = Inr b \<Longrightarrow> distinct (bundle_key_ids b)"
proof -
  assume "from_binary data = Inr b"
  then obtain c where "mk_bundle c = Inr b"
    by (auto simp: from_binary_def result_simps split: option.splits pyval.splits)
  then show ?thesis by (auto simp: mk_bundle_iff bundle_key_ids_def distinct_map)
qed

lemma threshold_verify_ok:
  assumes "mk_threshold_verifier p vs = Inr tv"
  shows "threshold_verify tv payload signature = Inr () \<longleftrightarrow>
    (\<exists>b. from_binary signature = Inr b \<and> distinct (bundle_key_ids b) \<and>
       (\<forall>part \<in> set (sb_parts b). sp_key_id part \<in> set (po_key_ids p) \<and>
          (\<exists>v. dget vs (sp_key_id part) = Some v \<and> v payload (sp_signature part) = Inr ())) \<and>
       po_threshold p \<le> int (length (sb_parts b)))"
proof -
  have tv: "tv_policy tv = p" "tv_verifiers tv = vs" using assms by (auto simp: mk_threshold_verifier_def result_simps)
  have enough: "policy_accepts p (foldl (\<lambda>vs part. List.insert (sp_key_id part) vs) [] (sb_parts b)) \<longleftrightarrow>
      po_threshold p \<le> int (length (sb_parts b))"
    if "distinct (bundle_key_ids b)" "\<forall>part \<in> set (sb_parts b). sp_key_id part \<in> set (po_key_ids p)" for b
  proof -
    have "set (filter (\<lambda>k. k \<in> set (po_key_ids p)) (foldl (\<lambda>vs part. List.insert (sp_key_id part) vs) [] (sb_parts b))) =
        set (bundle_key_ids b)"
      using that(2) by (auto simp: set_verified bundle_key_ids_def)
    then show ?thesis
      using distinct_card [OF that(1)] by (simp add: policy_accepts_def bundle_key_ids_def)
  qed
  show ?thesis
    unfolding threshold_verify_def bindR_Inr_iff parts_verified_iff rejectR_Inr_iff tv
    using from_binary_distinct enough by (metis (lifting))
qed

section \<open>Signing\<close>

text \<open>\<open>to_text\<close> decodes the bytes of a bundle, which are ASCII; the resolver encodes it again.\<close>

definition to_text :: "sig_bundle \<Rightarrow> string" where
  "to_text b = to_bytes b"

lemma utf8_to_text: "utf8 (to_text b) = to_bytes b"
  by (simp add: to_text_def to_bytes_def utf8_printable printable_canonical)

lemma list_all2_source: "list_all2 R xs ys \<Longrightarrow> y \<in> set ys \<Longrightarrow> \<exists>x \<in> set xs. R x y"
  by (induction rule: list_all2_induct) auto

lemma sign_threshold_parts:
  assumes "sign_threshold payload signers = Inr b"
  shows "bundle_ok b" "length (sb_parts b) = length signers"
    "\<forall>part \<in> set (sb_parts b). \<exists>s \<in> set signers. sg_key_id s = sp_key_id part \<and> sg_sign s payload = Inr (sp_signature part)"
proof -
  obtain parts where parts: "list_all2 (\<lambda>s p. bindR (sg_sign s payload) (mk_part (sg_key_id s)) = Inr p) signers parts"
    "mk_bundle \<lparr>sb_parts = parts, sb_schema = THRESHOLD_SCHEMA\<rparr> = Inr b"
    using assms unfolding sign_threshold_def thenR_Inr_iff bindR_Inr_iff [of "mapR _ _"] mapR_Inr_iff by blast
  have each: "\<exists>s \<in> set signers. sg_key_id s = sp_key_id part \<and> sg_sign s payload = Inr (sp_signature part) \<and> part_ok part"
    if pin: "part \<in> set parts" for part
  proof -
    obtain s where s: "s \<in> set signers" "bindR (sg_sign s payload) (mk_part (sg_key_id s)) = Inr part"
      using list_all2_source [OF parts(1) pin] by blast
    then obtain sig where sig: "sg_sign s payload = Inr sig" "mk_part (sg_key_id s) sig = Inr part"
      by (auto simp: bindR_Inr_iff)
    then have "sp_key_id part = sg_key_id s" "sp_signature part = sig" "part_ok part"
      by (auto simp: mk_part_iff)
    with s(1) sig(1) show ?thesis by auto
  qed
  then have "list_all part_ok parts" unfolding list_all_iff by blast
  with mk_bundle_result [OF parts(2)] show "bundle_ok b" by simp
  have b: "sb_parts b = sort_key sp_key_id parts" using parts(2) by (auto simp: mk_bundle_iff)
  show "length (sb_parts b) = length signers" using list_all2_lengthD [OF parts(1)] by (simp add: b)
  show "\<forall>part \<in> set (sb_parts b). \<exists>s \<in> set signers. sg_key_id s = sp_key_id part \<and> sg_sign s payload = Inr (sp_signature part)"
    using each by (auto simp: b)
qed

lemma signed_verifies:
  assumes store: "mk_store ws = Inr store" and tv: "from_trust_store store p = Inr tv"
    and signed: "sign_threshold payload signers = Inr b"
    and eligible: "\<forall>s \<in> set signers. sg_key_id s \<in> set (po_key_ids p)"
    and enough: "po_threshold p \<le> int (length signers)"
    and keys: "\<And>s w sig. s \<in> set signers \<Longrightarrow> w \<in> set ws \<Longrightarrow> tw_key_id w = sg_key_id s \<Longrightarrow>
      sg_sign s payload = Inr sig \<Longrightarrow> tw_verifier w payload sig = Inr ()"
  shows "threshold_verify tv payload (to_bytes b) = Inr ()"
proof -
  have mk: "mk_threshold_verifier p (log_verifiers store) = Inr tv" using tv by (simp add: from_trust_store_def)
  have missing: "\<forall>k \<in> set (po_key_ids p). dget (log_verifiers store) k \<noteq> None"
    using mk by (auto simp: mk_threshold_verifier_def result_simps filter_empty_conv)
  have distinct: "distinct (map tw_key_id store)" and set: "set store = set ws"
    using store by (auto simp: mk_store_iff distinct_map)
  have "sp_key_id part \<in> set (po_key_ids p) \<and>
      (\<exists>v. dget (log_verifiers store) (sp_key_id part) = Some v \<and> v payload (sp_signature part) = Inr ())"
    if part: "part \<in> set (sb_parts b)" for part
  proof -
    obtain s where s: "s \<in> set signers" "sg_key_id s = sp_key_id part" "sg_sign s payload = Inr (sp_signature part)"
      using sign_threshold_parts(3) [OF signed] part by blast
    then have el: "sp_key_id part \<in> set (po_key_ids p)" using eligible by metis
    then obtain v where v: "dget (log_verifiers store) (sp_key_id part) = Some v" using missing by blast
    then obtain w where w: "w \<in> set ws" "tw_key_id w = sp_key_id part" "tw_verifier w = v"
      using log_verifiers_get [OF distinct] set by blast
    have "v payload (sp_signature part) = Inr ()" using keys [OF s(1) w(1) _ s(3)] w s(2) by simp
    then show ?thesis using el v by blast
  qed
  moreover have "from_binary (to_bytes b) = Inr b" by (rule from_binary_round [OF sign_threshold_parts(1) [OF signed]])
  moreover have "distinct (bundle_key_ids b)" by (rule from_binary_distinct) fact
  ultimately show ?thesis
    unfolding threshold_verify_ok [OF mk] using enough sign_threshold_parts(2) [OF signed] by auto
qed

section \<open>Where the promises fail\<close>

definition keyless_doc :: pyval where
  "keyless_doc = PDict [(''schema'', PStr THRESHOLD_SCHEMA),
     (''signatures'', PList [PDict [(''signature'', PStr ''AA=='')]])]"

lemma from_binary_canonical:
  assumes "wf_pyval v" "json_norm v = v"
  shows "from_binary (canonical_bytes v) =
    (case v of
       PDict kvs \<Rightarrow>
         (case dget_or kvs ''signatures'' (PList []) of
            PList raw \<Rightarrow> bindR (mapR part_from_dict raw) (\<lambda>parts.
              mk_bundle \<lparr>sb_parts = parts, sb_schema = py_str (dget_or kvs ''schema'' (PStr THRESHOLD_SCHEMA))\<rparr>)
          | _ \<Rightarrow> Inl Threshold_Error)
     | _ \<Rightarrow> Inl Threshold_Error)"
  using canonical_loads [OF assms(1)] printable_ascii [OF printable_canonical [OF assms(1)]] assms(2)
  by (simp add: from_binary_def)

lemma keyless_bundle: "from_binary (canonical_bytes keyless_doc) = Inl (Py_Raise (Missing_Key ''key_id''))"
proof -
  have "wf_pyval keyless_doc" "json_norm keyless_doc = keyless_doc"
    by (simp_all add: keyless_doc_def sort_key_simps)
  moreover have "b64decode ''AA=='' = Some [CHR 0x00]" by code_simp
  then have "part_from_dict (PDict [(''signature'', PStr ''AA=='')]) = Inl (Py_Raise (Missing_Key ''key_id''))"
    by (auto simp: part_from_dict_def field_def dget_or_def dget_Cons simp del: b64decode.simps)
  ultimately show ?thesis
    by (simp add: from_binary_canonical) (simp add: keyless_doc_def dget_or_def dget_Cons)
qed

definition padded_doc :: "sig_bundle \<Rightarrow> pyval" where
  "padded_doc b = PDict [(''extra'', PNone), (''schema'', PStr (sb_schema b)),
     (''signatures'', PList (map part_to_dict (sb_parts b)))]"

text \<open>Keys the format does not name are accepted: what \<open>from_binary\<close> reads is not what
  \<open>to_bytes\<close> of the result writes, so one set of signatures has many accepted texts.\<close>

lemma from_binary_accepts_extra_keys:
  assumes "bundle_ok b"
  shows "from_binary (canonical_bytes (padded_doc b)) = Inr b \<and> to_bytes b \<noteq> canonical_bytes (padded_doc b)"
proof -
  have wf: "wf_pyval (padded_doc b)" and norm: "json_norm (padded_doc b) = padded_doc b"
    using wf_bundle [of b] by (simp_all add: padded_doc_def bundle_to_dict_def sort_key_simps comp_def)
  have "mapR part_from_dict (map part_to_dict (sb_parts b)) = Inr (sb_parts b)"
    using assms part_round by (intro mapR_round) (auto simp: bundle_ok_def list_all_iff)
  then have "from_binary (canonical_bytes (padded_doc b)) = Inr b"
    using mk_bundle_ok [OF assms] from_binary_canonical [OF wf norm]
    by (cases b) (simp add: padded_doc_def dget_or_def dget_Cons)
  moreover have "to_bytes b \<noteq> canonical_bytes (padded_doc b)"
    unfolding to_bytes_def canonical_bytes_eq_iff [OF wf_bundle wf]
    by (simp add: norm) (simp add: padded_doc_def bundle_to_dict_def)
  ultimately show ?thesis by blast
qed

section \<open>An example: two of two keys\<close>

definition ex_signer :: "string \<Rightarrow> signer" where
  "ex_signer k = \<lparr>sg_key_id = k, sg_sign = (\<lambda>p. Inr (k @ p))\<rparr>"

definition ex_verifier :: "string \<Rightarrow> verifier" where
  "ex_verifier k p s = (if s = k @ p then Inr () else Inl Signature_Error)"

definition ex_window :: "string \<Rightarrow> trust_window" where
  "ex_window k = \<lparr>tw_key_id = k, tw_verifier = ex_verifier k, tw_not_before = 0, tw_not_after = 9,
     tw_signer = Some (ex_signer k)\<rparr>"

definition ex_windows :: "trust_window list" where
  "ex_windows = [ex_window ''b'', ex_window ''a'']"

definition ex_store :: trust_store where
  "ex_store = [ex_window ''a'', ex_window ''b'']"

definition ex_policy :: policy where
  "ex_policy = \<lparr>po_threshold = 2, po_key_ids = [''a'', ''b''], po_schema = THRESHOLD_SCHEMA\<rparr>"

definition ex_tv :: threshold_verifier where
  "ex_tv = \<lparr>tv_policy = ex_policy, tv_verifiers = log_verifiers ex_store\<rparr>"

definition ex_bundle :: sig_bundle where
  "ex_bundle = \<lparr>sb_parts = [\<lparr>sp_key_id = ''a'', sp_signature = ''ax''\<rparr>, \<lparr>sp_key_id = ''b'', sp_signature = ''bx''\<rparr>],
     sb_schema = THRESHOLD_SCHEMA\<rparr>"

lemma ex_store_made: "mk_store ex_windows = Inr ex_store"
  by (simp add: mk_store_def ex_windows_def ex_store_def ex_window_def)

lemma ex_tv_made: "from_trust_store ex_store ex_policy = Inr ex_tv"
  by (simp add: from_trust_store_def mk_threshold_verifier_def ex_tv_def ex_policy_def log_verifiers_def ex_store_def
      ex_window_def dget_Cons)

lemma ex_signed: "sign_threshold ''x'' [ex_signer ''b'', ex_signer ''a''] = Inr ex_bundle"
  by (simp add: sign_threshold_def ex_signer_def mk_part_def mk_bundle_def ex_bundle_def)

lemma ex_lawful: "lawful (ex_verifier k)"
  by (simp add: lawful_def ex_verifier_def is_signature_error_def)

section \<open>Properties\<close>

text \<open>The trust store of a rotation: a signature verifies under the least key, among the
  windows that cover the given instant (all of them when none is given), whose verifier accepts
  it, and it is refused with \<open>SignatureError\<close> exactly when no such window accepts it. So every
  key of an overlap verifies, a retired key verifies in its own era, and a key that was removed
  verifies nothing.\<close>

theorem verified_key_correct:
  assumes "mk_store ws = Inr store" "\<forall>w \<in> set ws. lawful (tw_verifier w)"
  shows "(verified_key store t payload signature = Inr k \<longleftrightarrow>
      (\<exists>w \<in> set ws. tw_key_id w = k \<and> in_scope t w \<and> accepts_sig (tw_verifier w) payload signature \<and>
        (\<forall>u \<in> set ws. in_scope t u \<and> accepts_sig (tw_verifier u) payload signature \<longrightarrow> k \<le> tw_key_id u))) \<and>
    (verified_key store t payload signature = Inl e \<longleftrightarrow>
      e = Signature_Error \<and> \<not> (\<exists>w \<in> set ws. in_scope t w \<and> accepts_sig (tw_verifier w) payload signature))"
proof -
  let ?P = "\<lambda>w. in_scope t w \<and> accepts_sig (tw_verifier w) payload signature"
  have sorted: "sorted (map tw_key_id store)" and distinct: "distinct (map tw_key_id store)" and set: "set store = set ws"
    using assms(1) by (auto simp: mk_store_iff distinct_map)
  note find = find_sorted [OF sorted distinct, of ?P]
  have none: "find ?P store = None \<longleftrightarrow> \<not> (\<exists>w \<in> set ws. ?P w)"
    using set by (auto simp: find_None_iff)
  show ?thesis
  proof (cases "find ?P store")
    case None
    then show ?thesis using none by (auto simp: verified_key_find [OF assms])
  next
    case (Some w)
    then have w: "w \<in> set ws" "?P w" "\<And>u. u \<in> set ws \<Longrightarrow> ?P u \<Longrightarrow> tw_key_id w \<le> tw_key_id u"
      using find set by auto
    have key: "verified_key store t payload signature = Inr (tw_key_id w)"
      using Some by (simp add: verified_key_find [OF assms])
    show ?thesis unfolding key using w by (auto intro: antisym)
  qed
qed

lemma verified_key_correct_witness: "verified_key ex_store (Some 3) ''x'' ''bx'' = Inr ''b''"
proof -
  have "\<forall>w \<in> set ex_windows. lawful (tw_verifier w)" by (simp add: ex_windows_def ex_window_def ex_lawful)
  from verified_key_correct [OF ex_store_made this, of "Some 3" "''x''" "''bx''" "''b''" Signature_Error]
  show ?thesis
    by (simp add: ex_windows_def ex_window_def in_scope_def covers_def accepts_sig_def ex_verifier_def)
qed

text \<open>C10: k of n: a threshold verifier accepts a signature over a payload exactly when it is a
  bundle of signatures of distinct keys, every one of them a key of the policy whose own
  verifier accepts the payload, and there are at least as many as the threshold. So fewer than
  \<open>k\<close> keys never pass, and a single invalid or foreign part refuses the bundle.\<close>

theorem threshold_verify_iff:
  assumes "mk_threshold_verifier p vs = Inr tv"
  shows "threshold_verify tv payload signature = Inr () \<longleftrightarrow>
    (\<exists>b. from_binary signature = Inr b \<and> distinct (bundle_key_ids b) \<and>
       (\<forall>part \<in> set (sb_parts b). sp_key_id part \<in> set (po_key_ids p) \<and>
          (\<exists>v. dget vs (sp_key_id part) = Some v \<and> v payload (sp_signature part) = Inr ())) \<and>
       po_threshold p \<le> int (length (sb_parts b)))"
  by (rule threshold_verify_ok [OF assms])

lemma threshold_verify_iff_witness: "threshold_verify ex_tv ''x'' (to_bytes ex_bundle) = Inr ()"
proof -
  have "bundle_ok ex_bundle" by (simp add: bundle_ok_def ex_bundle_def part_ok_def)
  then have "from_binary (to_bytes ex_bundle) = Inr ex_bundle" by (rule from_binary_round)
  then show ?thesis
    using threshold_verify_iff [OF ex_tv_made [unfolded from_trust_store_def], of "''x''" "to_bytes ex_bundle"]
    by (simp add: bundle_key_ids_def ex_bundle_def ex_policy_def log_verifiers_def ex_store_def ex_window_def
        dget_Cons ex_verifier_def)
qed

text \<open>C25: What the signers sign, the verifier accepts: when at least \<open>k\<close> eligible signers sign a
  payload with keys of the trust store, the text of their bundle, carried in a lock and encoded
  again by the resolver, passes the threshold verifier of the store. This composes the signers,
  the Base64 and JSON encodings, the canonical form, the store and the verifier.\<close>

theorem signed_bundle_verifies:
  assumes "mk_store ws = Inr store" "from_trust_store store p = Inr tv"
    and "sign_threshold payload signers = Inr b"
    and "\<forall>s \<in> set signers. sg_key_id s \<in> set (po_key_ids p)" "po_threshold p \<le> int (length signers)"
    and "\<And>s w sig. s \<in> set signers \<Longrightarrow> w \<in> set ws \<Longrightarrow> tw_key_id w = sg_key_id s \<Longrightarrow>
      sg_sign s payload = Inr sig \<Longrightarrow> tw_verifier w payload sig = Inr ()"
  shows "threshold_verify tv payload (utf8 (to_text b)) = Inr ()"
  unfolding utf8_to_text by (rule signed_verifies [OF assms])

lemma signed_bundle_verifies_witness: "threshold_verify ex_tv ''x'' (utf8 (to_text ex_bundle)) = Inr ()"
  by (rule signed_bundle_verifies [OF ex_store_made ex_tv_made ex_signed])
    (auto simp: ex_signer_def ex_policy_def ex_windows_def ex_window_def ex_verifier_def)

text \<open>The promise that a malformed bundle is a \<open>ThresholdError\<close> does not hold: a part without a
  key id raises \<open>KeyError\<close>, under every policy, and the resolver, which catches
  \<open>SignatureError\<close> only, lets it through.\<close>

theorem keyless_part_escapes:
  "threshold_verify tv payload (canonical_bytes keyless_doc) = Inl (Py_Raise (Missing_Key ''key_id''))"
  by (simp add: threshold_verify_def keyless_bundle)

end
