(* ===== verification/Lines.thy ===== *)
theory Lines
  imports Py_Values
begin

text \<open>
  Texts made of lines, as files and pipes carry them, and the two forms in which \<open>json.dumps\<close>
  writes a line: escaped to ASCII, or with \<open>ensure_ascii=False\<close>.
\<close>

section \<open>Lines\<close>

definition is_break :: "char \<Rightarrow> bool" where
  "is_break c \<longleftrightarrow> code c \<in> {10, 11, 12, 13, 28, 29, 30, 133}"

text \<open>\<open>read_text().splitlines()\<close>: a carriage return with its line feed is one break.\<close>

function splitlines :: "string \<Rightarrow> string list" where
  "splitlines s =
     (if s = [] then []
      else takeWhile (\<lambda>c. \<not> is_break c) s #
        (case dropWhile (\<lambda>c. \<not> is_break c) s of
           [] \<Rightarrow> []
         | c # r \<Rightarrow> splitlines (if code c = 13 \<and> r \<noteq> [] \<and> hd r = newline then tl r else r)))"
  by pat_completeness auto
termination
proof (relation "measure length")
  fix s c r
  assume "dropWhile (\<lambda>c. \<not> is_break c) s = c # r"
  moreover have "length (dropWhile (\<lambda>c. \<not> is_break c) s) \<le> length s" by (rule length_dropWhile_le)
  ultimately have "length r < length s" by simp
  then show "(if code c = 13 \<and> r \<noteq> [] \<and> hd r = newline then tl r else r, s) \<in> measure length"
    by (simp add: less_imp_diff_less)
qed simp

declare splitlines.simps [simp del]

section \<open>Lines of a text\<close>

definition closed_text :: "string \<Rightarrow> bool" where
  "closed_text t \<longleftrightarrow> t = [] \<or> last t = newline"

lemma code_newline [simp]: "code newline = 10"
  by code_simp

lemma break_newline [simp]: "is_break newline"
  by (simp add: is_break_def)

lemma splitlines_Nil [simp]: "splitlines [] = []"
  by (simp add: splitlines.simps)

lemma splitlines_append: "closed_text t \<Longrightarrow> splitlines (t @ u) = splitlines t @ splitlines u"
proof (induction t rule: splitlines.induct)
  case (1 t)
  show ?case
  proof (cases "t = []")
    case False
    then have "newline \<in> set t" using 1(2) last_in_set [of t] by (auto simp: closed_text_def)
    then have split: "takeWhile (\<lambda>c. \<not> is_break c) (t @ u) = takeWhile (\<lambda>c. \<not> is_break c) t"
      "dropWhile (\<lambda>c. \<not> is_break c) (t @ u) = dropWhile (\<lambda>c. \<not> is_break c) t @ u"
      using takeWhile_append1 [of newline t "\<lambda>c. \<not> is_break c" u] dropWhile_append1 [of newline t "\<lambda>c. \<not> is_break c" u]
      by auto
    have "dropWhile (\<lambda>c. \<not> is_break c) t \<noteq> []" unfolding dropWhile_eq_Nil_conv using \<open>newline \<in> set t\<close> break_newline by blast
    then obtain c r where cr: "dropWhile (\<lambda>c. \<not> is_break c) t = c # r" by (cases "dropWhile (\<lambda>c. \<not> is_break c) t") auto
    let ?next = "\<lambda>r. if code c = 13 \<and> r \<noteq> [] \<and> hd r = newline then tl r else r"
    have "t = takeWhile (\<lambda>c. \<not> is_break c) t @ c # r" using cr by (metis takeWhile_dropWhile_id)
    then have last: "last t = last (c # r)" by (metis last_appendR list.distinct(1))
    then have closed: "closed_text (?next r)" using 1(2) False by (cases r) (auto simp: closed_text_def split: if_splits)
    have "r = [] \<Longrightarrow> c = newline" using last 1(2) False by (simp add: closed_text_def)
    then have nxt: "?next (r @ u) = ?next r @ u" by (cases r) auto
    have "splitlines (?next r @ u) = splitlines (?next r) @ splitlines u"
      by (rule 1(1) [OF False cr closed])
    moreover have "splitlines (t @ u) = takeWhile (\<lambda>c. \<not> is_break c) t # splitlines (?next (r @ u))"
      unfolding splitlines.simps [of "t @ u"] split cr using False by simp
    moreover have "splitlines t = takeWhile (\<lambda>c. \<not> is_break c) t # splitlines (?next r)"
      unfolding splitlines.simps [of t] cr using False by simp
    ultimately show ?thesis by (simp only: nxt append_Cons)
  qed simp
qed

lemma printable_no_break: "printable l \<Longrightarrow> c \<in> set l \<Longrightarrow> \<not> is_break c"
  by (auto simp: printable_def list_all_iff is_break_def)

lemma splitlines_line: "printable l \<Longrightarrow> l \<noteq> [] \<Longrightarrow> splitlines l = [l]" "printable l \<Longrightarrow> splitlines (l @ [newline]) = [l]"
proof -
  assume l: "printable l"
  have tw: "takeWhile (\<lambda>c. \<not> is_break c) l = l" "dropWhile (\<lambda>c. \<not> is_break c) l = []"
    using printable_no_break [OF l] by (auto simp: dropWhile_eq_Nil_conv)
  then show "l \<noteq> [] \<Longrightarrow> splitlines l = [l]" unfolding splitlines.simps [of l] tw by simp
  have "takeWhile (\<lambda>c. \<not> is_break c) (l @ [newline]) = l" "dropWhile (\<lambda>c. \<not> is_break c) (l @ [newline]) = [newline]"
    using printable_no_break [OF l] by (simp_all add: takeWhile_append2 dropWhile_append2)
  then show "splitlines (l @ [newline]) = [l]" unfolding splitlines.simps [of "l @ [newline]"] by simp
qed

lemma strip_nonblank: "c \<in> set s \<Longrightarrow> \<not> py_space c \<Longrightarrow> py_strip s \<noteq> []"
  by (auto simp: py_strip_def dropWhile_eq_Nil_conv)
    (metis dropWhile_append2 takeWhile_dropWhile_id append.right_neutral set_dropWhileD Un_iff set_append set_takeWhileD)

section \<open>Without ASCII escapes\<close>

text \<open>\<open>ensure_ascii=False\<close> escapes quotes, backslashes and the control characters below a space only.\<close>

definition raw_char :: "char \<Rightarrow> string" where
  "raw_char c = (if c = quote_c \<or> c = bslash_c \<or> code c < 32 then esc_char c else [c])"

lemma read_str_raw: "read_str (raw_char c @ r) = map_option (\<lambda>(t, q). (c # t, q)) (read_str r)"
proof (cases "c = quote_c \<or> c = bslash_c \<or> code c < 32")
  case True
  then show ?thesis by (simp add: raw_char_def)
next
  case False
  then show ?thesis by (auto simp: raw_char_def split: option.splits)
qed

interpretation raw: json_encoder raw_char
  by unfold_locales (rule read_str_raw)

text \<open>\<open>json.dumps(v, ensure_ascii=False)\<close>\<close>

definition json_raw :: "pyval \<Rightarrow> string" where
  "json_raw v = json_print raw_char '' '' v"

lemma json_raw_loads: "wf_pyval v \<Longrightarrow> json_loads (json_raw v) = Some v"
  unfolding json_raw_def by (rule raw.loads_print [OF _ blank_ws])

lemma code_inj: "code c = code d \<longleftrightarrow> c = d"
  by (simp add: code_def)

text \<open>A raw text has no line feed; it breaks a line only at the one control character above 126
  that \<open>str.splitlines\<close> counts, the next-line character U+0085.\<close>

lemma raw_char_break: "d \<in> set (raw_char c) \<Longrightarrow> is_break d \<Longrightarrow> d = c \<and> code c = 133"
proof (cases "c = quote_c \<or> c = bslash_c \<or> code c < 32")
  case True
  then show "d \<in> set (raw_char c) \<Longrightarrow> is_break d \<Longrightarrow> d = c \<and> code c = 133"
    using printable_no_break [OF printable_esc] by (auto simp: raw_char_def)
next
  case False
  then show "d \<in> set (raw_char c) \<Longrightarrow> is_break d \<Longrightarrow> d = c \<and> code c = 133"
    by (auto simp: raw_char_def is_break_def)
qed

text \<open>A text without that character.\<close>

definition one_line :: "string \<Rightarrow> bool" where
  "one_line s \<longleftrightarrow> (\<forall>c \<in> set s. code c \<noteq> 133)"

lemma splitlines_unbroken:
  assumes "\<forall>c \<in> set l. \<not> is_break c"
  shows "splitlines (l @ [newline]) = [l]"
proof -
  have "takeWhile (\<lambda>c. \<not> is_break c) (l @ [newline]) = l" "dropWhile (\<lambda>c. \<not> is_break c) (l @ [newline]) = [newline]"
    using assms by (simp_all add: takeWhile_append2 dropWhile_append2)
  then show ?thesis unfolding splitlines.simps [of "l @ [newline]"] by simp
qed

lemma quote_no_break [simp]: "\<not> is_break quote_c"
  by code_simp

lemma quoted_raw_unbroken: "one_line s \<Longrightarrow> c \<in> set (quoted raw_char s) \<Longrightarrow> \<not> is_break c"
  using raw_char_break by (auto simp: quoted_def one_line_def)

end
