(* ===== verification/Transparency.thy ===== *)
theory Transparency
  imports Trust Lines
begin

text \<open>
  \<open>cbp/transparency.py\<close> and the release path of \<open>cbp/signing_service.py\<close>: the append-only,
  hash-chained log of signed releases. The log is the text of its file, absent at first; a
  record is one line of JSON. The file text is what its UTF-8 decodes to; a byte sequence that
  decodes to no text of the model counts as a decoding error (\<open>ValueError\<close>).
\<close>

section \<open>Records\<close>

definition LOG_SCHEMA :: string where "LOG_SCHEMA = ''transparency.log/v1''"

definition GENESIS :: string where "GENESIS = replicate 64 CHR ''0''"

abbreviation log_reject :: "bool \<Rightarrow> dist_error + unit" where
  "log_reject b \<equiv> rejectR b Transparency_Error"

record tl_entry =
  te_seq :: int
  te_prev :: string
  te_lock_hash :: string
  te_key_id :: string
  te_signature :: string

definition mk_tl_entry :: "tl_entry \<Rightarrow> dist_error + tl_entry" where
  "mk_tl_entry e =
     thenR (log_reject (te_seq e < 0))
     (thenR (log_reject (\<not> re_hex 64 (te_prev e)))
     (thenR (log_reject (\<not> re_hex 64 (te_lock_hash e)))
     (thenR (log_reject (te_key_id e = []))
     (thenR (log_reject (te_signature e = [])) (Inr e)))))"

definition entry_core :: "tl_entry \<Rightarrow> pyval dict" where
  "entry_core e = [(''seq'', PInt (te_seq e)), (''prev'', PStr (te_prev e)), (''lock_hash'', PStr (te_lock_hash e)),
     (''key_id'', PStr (te_key_id e)), (''signature'', PStr (te_signature e))]"

definition entry_bytes :: "tl_entry \<Rightarrow> string" where
  "entry_bytes e = canonical_bytes (PDict (entry_core e))"

definition entry_hash :: "(string \<Rightarrow> string) \<Rightarrow> tl_entry \<Rightarrow> string" where
  "entry_hash sha e = sha (entry_bytes e)"

definition to_line :: "tl_entry \<Rightarrow> string" where
  "to_line e = canonical_bytes (PDict ((''schema'', PStr LOG_SCHEMA) # entry_core e))"

text \<open>\<open>except (KeyError, TypeError, ValueError)\<close>; an \<open>OverflowError\<close> is not caught.\<close>

definition malformed_record :: "py_error \<Rightarrow> dist_error" where
  "malformed_record e = (case e of Missing_Key _ \<Rightarrow> Transparency_Error | Type_Error \<Rightarrow> Transparency_Error
     | Value_Error \<Rightarrow> Transparency_Error | _ \<Rightarrow> Py_Raise e)"

definition log_field :: "pyval dict \<Rightarrow> string \<Rightarrow> dist_error + pyval" where
  "log_field kvs key = liftR malformed_record (subscript (PDict kvs) key)"

definition from_line :: "string \<Rightarrow> int \<Rightarrow> string \<Rightarrow> dist_error + tl_entry" where
  "from_line line expected_seq expected_prev =
     (case json_loads line of
        Some (PDict kvs) \<Rightarrow>
          thenR (log_reject (dget kvs ''schema'' \<noteq> Some (PStr LOG_SCHEMA)))
          (bindR (log_field kvs ''seq'') (\<lambda>v. bindR (liftR malformed_record (py_int v)) (\<lambda>sq.
           bindR (log_field kvs ''prev'') (\<lambda>prev. bindR (log_field kvs ''lock_hash'') (\<lambda>lh.
           bindR (log_field kvs ''key_id'') (\<lambda>k. bindR (log_field kvs ''signature'') (\<lambda>sg.
           bindR (mk_tl_entry \<lparr>te_seq = sq, te_prev = py_str prev, te_lock_hash = py_str lh,
               te_key_id = py_str k, te_signature = py_str sg\<rparr>) (\<lambda>entry.
             thenR (log_reject (te_seq entry \<noteq> expected_seq))
               (thenR (log_reject (te_prev entry \<noteq> expected_prev)) (Inr entry))))))))))
      | _ \<Rightarrow> Inl Transparency_Error)"

section \<open>The log\<close>

type_synonym log_file = "string option"

fun read_lines :: "(string \<Rightarrow> string) \<Rightarrow> int \<Rightarrow> string \<Rightarrow> string list \<Rightarrow> dist_error + tl_entry list" where
  "read_lines sha index prev [] = Inr []"
| "read_lines sha index prev (raw # rest) =
     thenR (log_reject (py_strip raw = []))
     (bindR (from_line raw index prev) (\<lambda>entry.
      bindR (read_lines sha (index + 1) (entry_hash sha entry) rest) (\<lambda>entries. Inr (entry # entries))))"

definition read_log :: "(string \<Rightarrow> string) \<Rightarrow> log_file \<Rightarrow> dist_error + tl_entry list" where
  "read_log sha f = (case f of None \<Rightarrow> Inr [] | Some text \<Rightarrow> read_lines sha 0 GENESIS (splitlines text))"

definition head_of :: "(string \<Rightarrow> string) \<Rightarrow> tl_entry list \<Rightarrow> string" where
  "head_of sha entries = (if entries = [] then GENESIS else entry_hash sha (last entries))"

definition log_head :: "(string \<Rightarrow> string) \<Rightarrow> log_file \<Rightarrow> dist_error + string" where
  "log_head sha f = bindR (read_log sha f) (\<lambda>entries. Inr (head_of sha entries))"

definition is_head :: "tl_entry list \<Rightarrow> string \<Rightarrow> string \<Rightarrow> string \<Rightarrow> bool" where
  "is_head entries lh k sg \<longleftrightarrow> entries \<noteq> [] \<and>
     te_lock_hash (last entries) = lh \<and> te_key_id (last entries) = k \<and> te_signature (last entries) = sg"

definition log_append ::
  "(string \<Rightarrow> string) \<Rightarrow> log_file \<Rightarrow> string \<Rightarrow> string \<Rightarrow> string \<Rightarrow> log_file \<times> (dist_error + tl_entry)" where
  "log_append sha f lh k sg =
     (case read_log sha f of
        Inl e \<Rightarrow> (f, Inl e)
      | Inr entries \<Rightarrow>
          if is_head entries lh k sg then (f, Inr (last entries))
          else (case mk_tl_entry \<lparr>te_seq = int (length entries), te_prev = head_of sha entries, te_lock_hash = lh,
                    te_key_id = k, te_signature = sg\<rparr> of
                  Inl e \<Rightarrow> (f, Inl e)
                | Inr entry \<Rightarrow>
                    (Some ((case f of None \<Rightarrow> [] | Some text \<Rightarrow> text) @ to_line entry @ [newline]), Inr entry)))"

datatype log_verifier = One_Verifier verifier | Key_Verifiers "verifier dict"

definition select_verifier :: "log_verifier \<Rightarrow> string \<Rightarrow> dist_error + verifier" where
  "select_verifier lv k =
     (case lv of One_Verifier v \<Rightarrow> Inr v
      | Key_Verifiers m \<Rightarrow> (case dget m k of None \<Rightarrow> Inl Transparency_Error | Some v \<Rightarrow> Inr v))"

definition verify_entry :: "log_verifier \<Rightarrow> tl_entry \<Rightarrow> dist_error + unit" where
  "verify_entry lv e =
     bindR (select_verifier lv (te_key_id e)) (\<lambda>v.
       liftR (\<lambda>x. if is_signature_error x then Transparency_Error else x)
         (v (utf8 (te_lock_hash e)) (utf8 (te_signature e))))"

definition log_verify ::
  "(string \<Rightarrow> string) \<Rightarrow> log_file \<Rightarrow> log_verifier \<Rightarrow> string option \<Rightarrow> dist_error + tl_entry list" where
  "log_verify sha f lv expected_head =
     bindR (read_log sha f) (\<lambda>entries.
     thenR (iterR (verify_entry lv) entries)
     (thenR (case expected_head of None \<Rightarrow> Inr () | Some h \<Rightarrow> log_reject (head_of sha entries \<noteq> h))
       (Inr entries)))"

section \<open>Releases\<close>

record signed_lock =
  sl_lock_hash :: string
  sl_key_id :: string
  sl_signature :: string

definition sign_lock :: "(string \<Rightarrow> string) \<Rightarrow> lock \<Rightarrow> signer \<Rightarrow> dist_error + signed_lock" where
  "sign_lock sha l signer =
     bindR (sg_sign signer (utf8 (lock_hash sha l))) (\<lambda>raw.
       case utf8_decode raw of
         None \<Rightarrow> Inl (Py_Raise Value_Error)
       | Some sg \<Rightarrow> Inr \<lparr>sl_lock_hash = lock_hash sha l, sl_key_id = sg_key_id signer, sl_signature = sg\<rparr>)"

definition record_release ::
  "(string \<Rightarrow> string) \<Rightarrow> lock \<Rightarrow> signer \<Rightarrow> log_file \<Rightarrow> log_file \<times> (dist_error + signed_lock \<times> tl_entry)" where
  "record_release sha l signer f =
     (case sign_lock sha l signer of
        Inl e \<Rightarrow> (f, Inl e)
      | Inr sl \<Rightarrow> (case log_append sha f (sl_lock_hash sl) (sl_key_id sl) (sl_signature sl) of
            (f', r) \<Rightarrow> (f', bindR r (\<lambda>entry. Inr (sl, entry)))))"

section \<open>Records read back\<close>

lemma wf_core: "wf_pyval (PDict (entry_core e))"
  by (simp add: entry_core_def)

lemma wf_line: "wf_pyval (PDict ((''schema'', PStr LOG_SCHEMA) # entry_core e))"
  by (simp add: entry_core_def)

lemma printable_line: "printable (to_line e)"
  unfolding to_line_def by (rule printable_canonical [OF wf_line])

lemma line_head: "\<exists>r. to_line e = CHR ''{'' # r"
  by (simp add: to_line_def canonical_bytes_def)

lemma line_not_blank: "py_strip (to_line e) \<noteq> []"
proof -
  have "CHR ''{'' \<in> set (to_line e)" using line_head [of e] by auto
  moreover have "\<not> py_space CHR ''{''" by code_simp
  ultimately show ?thesis by (rule strip_nonblank)
qed

lemma from_to_line:
  assumes "mk_tl_entry e = Inr e"
  shows "from_line (to_line e) s p =
    thenR (log_reject (te_seq e \<noteq> s)) (thenR (log_reject (te_prev e \<noteq> p)) (Inr e))"
proof -
  have "json_loads (to_line e) = Some (json_norm (PDict ((''schema'', PStr LOG_SCHEMA) # entry_core e)))"
    unfolding to_line_def by (rule canonical_loads [OF wf_line])
  then show ?thesis
    using assms by (cases e) (simp add: from_line_def entry_core_def sort_key_simps log_field_def dget_Cons)
qed

lemma read_lines_snoc:
  "read_lines sha i p (ls @ [l]) =
    bindR (read_lines sha i p ls) (\<lambda>es.
      thenR (log_reject (py_strip l = []))
      (bindR (from_line l (i + int (length es)) (if es = [] then p else entry_hash sha (last es))) (\<lambda>e. Inr (es @ [e]))))"
proof (induction ls arbitrary: i p)
  case Nil
  then show ?case by (simp add: thenR_def bindR_def split: sum.split)
next
  case (Cons x xs)
  then show ?case by (auto simp: thenR_def bindR_def algebra_simps split: sum.split)
qed

end
