(* ===== verification/Transparency_Props.thy ===== *)
theory Transparency_Props
  imports Transparency
begin

text \<open>
  The log as an append-only history: every log that appends produced reads back as exactly the
  releases that were recorded, chained; a pinned head pins the whole log; and the two places
  where the code breaks its promises, a log whose last line was not ended and an infinite
  sequence number.
\<close>

section \<open>Reading a line that was appended\<close>

definition text_of :: "log_file \<Rightarrow> string" where
  "text_of f = (case f of None \<Rightarrow> [] | Some t \<Rightarrow> t)"

lemma read_log_text: "read_log sha f = read_lines sha 0 GENESIS (splitlines (text_of f))"
  by (cases f) (simp_all add: read_log_def text_of_def)

lemma read_log_snoc:
  assumes "read_log sha f = Inr es" "closed_text (text_of f)" "splitlines l = [line]" "py_strip line \<noteq> []"
  shows "read_log sha (Some (text_of f @ l)) =
    bindR (from_line line (int (length es)) (head_of sha es)) (\<lambda>e. Inr (es @ [e]))"
proof -
  have "splitlines (text_of f @ l) = splitlines (text_of f) @ [line]"
    using assms(2,3) by (simp add: splitlines_append)
  moreover have "text_of (Some (text_of f @ l)) = text_of f @ l" by (simp add: text_of_def [of "Some _"])
  ultimately show ?thesis
    using assms(1,4) by (simp add: read_log_text read_lines_snoc head_of_def)
qed

lemma read_log_appended:
  assumes "read_log sha f = Inr es" "closed_text (text_of f)" "mk_tl_entry e = Inr e"
    and "te_seq e = int (length es)" "te_prev e = head_of sha es"
  shows "read_log sha (Some (text_of f @ to_line e @ [newline])) = Inr (es @ [e])"
  using read_log_snoc [OF assms(1,2) splitlines_line(2) [OF printable_line] line_not_blank, of e] assms(3-5)
  by (simp add: from_to_line)

lemma mk_tl_entry_same: "mk_tl_entry e = Inr e' \<Longrightarrow> e' = e"
  by (auto simp: mk_tl_entry_def result_simps)

section \<open>The abstract history\<close>

type_synonym release = "string \<times> string \<times> string"

definition release_of :: "tl_entry \<Rightarrow> release" where
  "release_of e = (te_lock_hash e, te_key_id e, te_signature e)"

definition record_once :: "release list \<Rightarrow> release \<Rightarrow> release list" where
  "record_once rs r = (if rs \<noteq> [] \<and> last rs = r then rs else rs @ [r])"

text \<open>What any sequence of appends, successful or refused, makes of a log that starts absent.\<close>

inductive log_run :: "(string \<Rightarrow> string) \<Rightarrow> log_file \<Rightarrow> release list \<Rightarrow> bool" for sha where
  absent: "log_run sha None []"
| recorded: "log_run sha f rs \<Longrightarrow> log_append sha f lh k sg = (f', Inr e) \<Longrightarrow>
    log_run sha f' (record_once rs (lh, k, sg))"
| refused: "log_run sha f rs \<Longrightarrow> log_append sha f lh k sg = (f', Inl e) \<Longrightarrow> log_run sha f' rs"

fun chained :: "(string \<Rightarrow> string) \<Rightarrow> int \<Rightarrow> string \<Rightarrow> tl_entry list \<Rightarrow> bool" where
  "chained sha i p [] = True"
| "chained sha i p (e # es) \<longleftrightarrow> te_seq e = i \<and> te_prev e = p \<and> chained sha (i + 1) (entry_hash sha e) es"

lemma from_line_position: "from_line l s p = Inr e \<Longrightarrow> te_seq e = s \<and> te_prev e = p"
  by (auto simp: from_line_def result_simps split: option.splits pyval.splits)

lemma read_lines_chained: "read_lines sha i p ls = Inr es \<Longrightarrow> chained sha i p es"
  by (induction ls arbitrary: i p es) (auto simp: result_simps dest: from_line_position)

lemma read_log_chained: "read_log sha f = Inr es \<Longrightarrow> chained sha 0 GENESIS es"
  unfolding read_log_text by (rule read_lines_chained)

lemma is_head_release: "is_head es lh k sg \<longleftrightarrow> es \<noteq> [] \<and> release_of (last es) = (lh, k, sg)"
  by (auto simp: is_head_def release_of_def)

lemma append_cases:
  assumes "log_append sha f lh k sg = (f', r)" "read_log sha f = Inr es"
  obtains "is_head es lh k sg" "f' = f" "r = Inr (last es)"
  | e where "\<not> is_head es lh k sg" "r = Inl e" "f' = f"
  | e where "\<not> is_head es lh k sg" "r = Inr e" "f' = Some (text_of f @ to_line e @ [newline])"
      "mk_tl_entry e = Inr e" "te_seq e = int (length es)" "te_prev e = head_of sha es" "release_of e = (lh, k, sg)"
proof (cases "is_head es lh k sg")
  case True
  then show ?thesis using assms that(1) by (simp add: log_append_def)
next
  case False
  let ?e = "\<lparr>te_seq = int (length es), te_prev = head_of sha es, te_lock_hash = lh, te_key_id = k, te_signature = sg\<rparr>"
  show ?thesis
  proof (cases "mk_tl_entry ?e")
    case (Inl x)
    then show ?thesis using False assms that(2) [of x] by (simp add: log_append_def)
  next
    case (Inr e)
    then have "e = ?e" by (rule mk_tl_entry_same)
    then show ?thesis using False Inr assms that(3) [of ?e]
      by (simp add: log_append_def text_of_def release_of_def)
  qed
qed

lemma log_run_history:
  "log_run sha f rs \<Longrightarrow> closed_text (text_of f) \<and> (\<exists>es. read_log sha f = Inr es \<and> map release_of es = rs)"
proof (induction rule: log_run.induct)
  case absent
  then show ?case by (simp add: read_log_def text_of_def closed_text_def)
next
  case (recorded f rs lh k sg f' e)
  then obtain es where es: "read_log sha f = Inr es" "map release_of es = rs" "closed_text (text_of f)" by blast
  have once: "record_once rs (lh, k, sg) = (if is_head es lh k sg then rs else rs @ [(lh, k, sg)])"
    using es(2) by (auto simp: record_once_def is_head_release last_map)
  show ?case
  proof (rule append_cases [OF recorded.hyps(2) es(1)])
    assume "is_head es lh k sg" "f' = f"
    then show ?thesis using es once by auto
  next
    fix x assume x: "\<not> is_head es lh k sg" "f' = Some (text_of f @ to_line x @ [newline])" "mk_tl_entry x = Inr x"
      "te_seq x = int (length es)" "te_prev x = head_of sha es" "release_of x = (lh, k, sg)"
    have "read_log sha f' = Inr (es @ [x])" using read_log_appended [OF es(1,3) x(3-5)] x(2) by simp
    moreover have "closed_text (text_of f')" by (simp add: x(2) text_of_def closed_text_def)
    ultimately show ?thesis using x es(2) once by auto
  qed simp
next
  case (refused f rs lh k sg f' e)
  then obtain es where es: "read_log sha f = Inr es" by blast
  have "f' = f" by (rule append_cases [OF refused.hyps(2) es]) simp_all
  then show ?case using refused.IH by simp
qed

section \<open>A pinned head\<close>

lemma json_norm_core: "json_norm (PDict (entry_core e)) =
    PDict [(''key_id'', PStr (te_key_id e)), (''lock_hash'', PStr (te_lock_hash e)), (''prev'', PStr (te_prev e)),
      (''seq'', PInt (te_seq e)), (''signature'', PStr (te_signature e))]"
  by (simp add: entry_core_def sort_key_simps)

lemma entry_bytes_inj: "entry_bytes e = entry_bytes e' \<Longrightarrow> e = e'"
  unfolding entry_bytes_def canonical_bytes_eq_iff [OF wf_core wf_core] json_norm_core by simp

lemma chained_snoc: "chained sha i p (es @ [e]) \<longleftrightarrow> chained sha i p es \<and> te_seq e = i + int (length es) \<and>
    te_prev e = (if es = [] then p else entry_hash sha (last es))"
  by (induction es arbitrary: i p) (auto simp: algebra_simps)

lemma chain_pinned:
  assumes "chained sha 0 GENESIS es" "chained sha 0 GENESIS es'" "head_of sha es = head_of sha es'"
    and "inj_on sha (entry_bytes ` (set es \<union> set es'))" "GENESIS \<notin> sha ` entry_bytes ` (set es \<union> set es')"
  shows "es = es'"
  using assms
proof (induction es arbitrary: es' rule: rev_induct)
  case Nil
  then show ?case by (cases es' rule: rev_cases) (auto simp: head_of_def entry_hash_def)
next
  case (snoc e es)
  show ?case
  proof (cases es' rule: rev_cases)
    case Nil
    then show ?thesis using snoc.prems(3,5) by (auto simp: head_of_def entry_hash_def)
  next
    case (snoc fs f)
    have "sha (entry_bytes e) = sha (entry_bytes f)"
      using snoc.prems(3) snoc by (simp add: head_of_def entry_hash_def)
    then have "entry_bytes e = entry_bytes f"
      using inj_onD [OF snoc.prems(4), of "entry_bytes e" "entry_bytes f"] snoc by simp
    then have ef: "e = f" by (rule entry_bytes_inj)
    have chains: "chained sha 0 GENESIS es" "chained sha 0 GENESIS fs"
      using snoc.prems(1,2) snoc by (simp_all add: chained_snoc)
    have "head_of sha es = te_prev e" "head_of sha fs = te_prev f"
      using snoc.prems(1,2) snoc by (simp_all add: chained_snoc head_of_def)
    then have heads: "head_of sha es = head_of sha fs" using ef by simp
    have inj: "inj_on sha (entry_bytes ` (set es \<union> set fs))" "GENESIS \<notin> sha ` entry_bytes ` (set es \<union> set fs)"
      using snoc.prems(4,5) snoc by (auto intro: inj_on_subset)
    show ?thesis using snoc.IH [OF chains heads inj] ef snoc by simp
  qed
qed

lemma log_verify_iff: "log_verify sha f lv h = Inr es \<longleftrightarrow>
    read_log sha f = Inr es \<and> (\<forall>x. h = Some x \<longrightarrow> head_of sha es = x) \<and>
    (\<forall>e \<in> set es. \<exists>v. select_verifier lv (te_key_id e) = Inr v \<and>
       v (utf8 (te_lock_hash e)) (utf8 (te_signature e)) = Inr ())"
  by (cases h) (auto simp: log_verify_def verify_entry_def result_simps)

section \<open>Where the promises fail\<close>

lemma two_lines_unparsable: "json_loads (to_line e @ to_line e') = None"
proof -
  obtain kvs where norm: "json_norm (PDict ((''schema'', PStr LOG_SCHEMA) # entry_core e)) = PDict kvs" "kvs \<noteq> []"
    by (simp add: entry_core_def sort_key_simps)
  have "wf_pyval (PDict kvs)" using wf_pyval_norm [OF wf_line [of e]] norm by simp
  moreover have line: "to_line e = json_text (PDict kvs)" by (simp only: to_line_def canonical_bytes_def norm)
  ultimately have "read_val (Suc (length (to_line e @ to_line e'))) (to_line e @ to_line e') = Some (PDict kvs, to_line e')"
    using ascii.read_val_dict [of "[]" kvs "Suc (length (to_line e @ to_line e'))" "to_line e'"] ascii.read_val_text [of "[]"]
    by (simp add: list_all_iff Ball_def del: read_val.simps)
  moreover have "skip_ws (to_line e') \<noteq> []" using line_head [of e'] by auto
  ultimately show ?thesis by (simp add: json_loads_def del: read_val.simps)
qed

lemma open_line_lost:
  assumes "read_log sha (Some (t @ to_line e)) = Inr es" "closed_text t"
    and "log_append sha (Some (t @ to_line e)) lh k sg = (f', Inr e')" "\<not> is_head es lh k sg"
  shows "read_log sha f' = Inl Transparency_Error"
proof -
  have "splitlines (t @ to_line e) = splitlines t @ [to_line e]"
    using assms(2) line_head [of e] splitlines_line(1) [OF printable_line [of e]] by (auto simp: splitlines_append)
  then obtain es0 where es0: "read_log sha (Some t) = Inr es0"
    using assms(1) by (auto simp: read_log_def read_lines_snoc result_simps)
  have f': "f' = Some (t @ (to_line e @ to_line e') @ [newline])"
    using append_cases [OF assms(3,1)] assms(4) by (auto simp: text_of_def)
  have printable: "printable (to_line e @ to_line e')" by (simp add: printable_line)
  have "from_line (to_line e @ to_line e') s p = Inl Transparency_Error" for s p
    by (simp add: from_line_def two_lines_unparsable)
  moreover have "py_strip (to_line e @ to_line e') \<noteq> []"
  proof (rule strip_nonblank)
    show "CHR ''{'' \<in> set (to_line e @ to_line e')" using line_head [of e] by auto
    show "\<not> py_space CHR ''{''" by code_simp
  qed
  ultimately show ?thesis
    using read_log_snoc [OF es0 _ splitlines_line(2) [OF printable]] assms(2) f' by (simp add: text_of_def)
qed

text \<open>A sequence number of \<open>Infinity\<close>, which \<open>json.loads\<close> accepts, makes \<open>int\<close> raise
  \<open>OverflowError\<close>, which the reader does not catch.\<close>

definition endless_doc :: pyval where
  "endless_doc = PDict [(''schema'', PStr LOG_SCHEMA), (''seq'', PFloat ''Infinity'')]"

lemma infinite_seq_escapes: "read_log sha (Some (canonical_bytes endless_doc)) = Inl (Py_Raise Overflow_Error)"
proof -
  have wf: "wf_pyval endless_doc" by (simp add: endless_doc_def float_token_def)
  have norm: "json_norm endless_doc = endless_doc" by (simp add: endless_doc_def sort_key_simps)
  have brace: "canonical_bytes endless_doc = CHR ''{'' # tl (canonical_bytes endless_doc)"
    by (simp add: canonical_bytes_def norm) (simp add: endless_doc_def)
  have "splitlines (canonical_bytes endless_doc) = [canonical_bytes endless_doc]"
    using brace by (intro splitlines_line(1) printable_canonical wf) (metis list.distinct(1))
  moreover have "py_strip (canonical_bytes endless_doc) \<noteq> []"
  proof (rule strip_nonblank)
    show "CHR ''{'' \<in> set (canonical_bytes endless_doc)" using brace by (metis list.set_intros(1))
    show "\<not> py_space CHR ''{''" by code_simp
  qed
  moreover have "from_line (canonical_bytes endless_doc) 0 GENESIS = Inl (Py_Raise Overflow_Error)"
    unfolding from_line_def canonical_loads [OF wf] norm
    by (simp add: endless_doc_def log_field_def dget_Cons py_int_def malformed_record_def)
  ultimately show ?thesis by (simp add: read_log_def)
qed

section \<open>An example: one release\<close>

definition ex_sha :: "string \<Rightarrow> string" where
  "ex_sha x = replicate 64 CHR ''a''"

definition ex_entry :: tl_entry where
  "ex_entry = \<lparr>te_seq = 0, te_prev = GENESIS, te_lock_hash = GENESIS, te_key_id = ''k'', te_signature = ''s''\<rparr>"

definition ex_log :: log_file where
  "ex_log = Some (to_line ex_entry @ [newline])"

lemma genesis_hex: "re_hex 64 GENESIS"
  by code_simp

lemma ex_entry_ok: "mk_tl_entry ex_entry = Inr ex_entry"
  by (simp add: mk_tl_entry_def ex_entry_def genesis_hex)

lemma ex_appended: "log_append sha None GENESIS ''k'' ''s'' = (ex_log, Inr ex_entry)"
  using ex_entry_ok by (simp add: log_append_def read_log_def is_head_def head_of_def ex_log_def ex_entry_def)

lemma ex_log_reads: "read_log sha ex_log = Inr [ex_entry]"
  using read_log_appended [of sha None "[]" ex_entry] ex_entry_ok
  by (simp add: read_log_def text_of_def closed_text_def ex_log_def ex_entry_def head_of_def)

lemma ex_run: "log_run sha ex_log [(GENESIS, ''k'', ''s'')]"
  using log_run.recorded [OF log_run.absent ex_appended] by (simp add: record_once_def)

lemma ex_open_reads: "read_log sha (Some (to_line ex_entry)) = Inr [ex_entry]"
  using read_log_snoc [of sha None "[]" "to_line ex_entry"] line_head [of ex_entry]
    splitlines_line(1) [OF printable_line [of ex_entry]] line_not_blank [of ex_entry]
    from_to_line [OF ex_entry_ok, of 0 GENESIS]
  by (auto simp: read_log_def [of sha None] text_of_def closed_text_def ex_entry_def head_of_def)

section \<open>Properties\<close>

text \<open>C9: The log is an append-only history: after any sequence of appends, refused ones included,
  the file reads back without error as exactly the recorded releases in order (a release that is
  already the head is recorded once), numbered from zero and each chained to the hash of its
  predecessor.\<close>

theorem log_keeps_history:
  assumes "log_run sha f rs"
  shows "\<exists>es. read_log sha f = Inr es \<and> map release_of es = rs \<and> chained sha 0 GENESIS es"
  using log_run_history [OF assms] read_log_chained by blast

lemma log_keeps_history_witness:
  "\<exists>es. read_log ex_sha ex_log = Inr es \<and> map release_of es = [(GENESIS, ''k'', ''s'')]"
  using log_keeps_history [OF ex_run [of ex_sha]] by (elim exE conjE) (intro exI conjI)

text \<open>C24: A pinned head pins the log: two log files, however they were produced, that both verify
  against one expected head hold the same records, unless two different records have one hash or
  a record hashes to the genesis value; and every record of a verified log is signed by its key.
  So a rewrite, a reordering or a truncation of a log is detected.\<close>

theorem log_tamper_evident:
  assumes "log_verify sha f lv (Some h) = Inr es" "log_verify sha f' lv' (Some h) = Inr es'"
    and "inj_on sha (entry_bytes ` (set es \<union> set es'))" "GENESIS \<notin> sha ` entry_bytes ` (set es \<union> set es')"
  shows "es = es' \<and> (\<forall>e \<in> set es. \<exists>v. select_verifier lv (te_key_id e) = Inr v \<and>
    v (utf8 (te_lock_hash e)) (utf8 (te_signature e)) = Inr ())"
proof
  have "chained sha 0 GENESIS es" "chained sha 0 GENESIS es'"
    using assms(1,2) by (auto simp: log_verify_iff intro: read_log_chained)
  moreover have "head_of sha es = head_of sha es'" using assms(1,2) by (simp add: log_verify_iff)
  ultimately show "es = es'" using assms(3,4) by (rule chain_pinned)
  show "\<forall>e \<in> set es. \<exists>v. select_verifier lv (te_key_id e) = Inr v \<and>
      v (utf8 (te_lock_hash e)) (utf8 (te_signature e)) = Inr ()"
    using assms(1) by (simp add: log_verify_iff)
qed

lemma log_tamper_evident_witness:
  "\<exists>es. log_verify ex_sha ex_log (One_Verifier (\<lambda>_ _. Inr ())) (Some (ex_sha [])) = Inr es \<and> es = [ex_entry]"
proof -
  have verified: "log_verify ex_sha ex_log (One_Verifier (\<lambda>_ _. Inr ())) (Some (ex_sha [])) = Inr [ex_entry]"
    using ex_log_reads by (simp add: log_verify_iff select_verifier_def head_of_def entry_hash_def ex_sha_def)
  have "GENESIS \<noteq> ex_sha x" for x by (simp add: GENESIS_def ex_sha_def)
  then have "[ex_entry] = [ex_entry]" using log_tamper_evident [OF verified verified] by simp
  with verified show ?thesis by (intro exI conjI)
qed

text \<open>A log is extended that should not be: a log whose last line lost its line feed (a write
  that was cut short) still reads and verifies, so an append acknowledges the new release, but
  the two records share one line and the log can never be read again.\<close>

theorem open_line_destroys_log:
  assumes "read_log sha (Some (t @ to_line e)) = Inr es" "closed_text t"
    and "log_append sha (Some (t @ to_line e)) lh k sg = (f', Inr e')" "\<not> is_head es lh k sg"
  shows "read_log sha f' = Inl Transparency_Error"
  by (rule open_line_lost [OF assms])

lemma open_line_destroys_log_witness:
  "\<exists>f' e'. log_append ex_sha (Some (to_line ex_entry)) GENESIS ''k2'' ''s'' = (f', Inr e') \<and>
    read_log ex_sha f' = Inl Transparency_Error"
proof -
  have reads: "read_log ex_sha (Some ([] @ to_line ex_entry)) = Inr [ex_entry]" by (simp add: ex_open_reads)
  have new: "\<not> is_head [ex_entry] GENESIS ''k2'' ''s''" by (simp add: is_head_def ex_entry_def)
  have "re_hex 64 (ex_sha x)" for x unfolding ex_sha_def by code_simp
  then obtain f' e' where "log_append ex_sha (Some ([] @ to_line ex_entry)) GENESIS ''k2'' ''s'' = (f', Inr e')"
    using new reads by (simp add: log_append_def mk_tl_entry_def head_of_def entry_hash_def genesis_hex)
  with open_line_destroys_log [OF reads _ this new] show ?thesis by (simp add: closed_text_def)
qed

end
