(* ===== verification/Py_Effects.thy ===== *)
theory Py_Effects
  imports Py_Values Utf8
begin

text \<open>
  Exceptions with their texts, and the comparisons of Python numbers that guards of the agent
  protocol make on values read from JSON. A float is the text of its \<open>repr\<close>; a decimal and
  the double it denotes compare alike with a number that is itself a double, so the comparisons
  are those of the decimals. They are used with zero, with the pinned confidence 0.99 and with
  counters below \<open>2 ^ 53\<close>.
\<close>

section \<open>Exceptions\<close>

datatype exc_class =
    ProtocolError | ValueError | KeyError | UnicodeDecodeError | JSONDecodeError | TypeError
  | AttributeError | RuntimeError | StoreError | OverflowError | OSError | SqliteError | ZMQError
  | ModelRecordError | TransportSecurityError | TrajectoryStoreError | CorruptTrajectoryError
  | ToolExecutionError | AgentExecutionError | SubprocessTimeoutError | ModelProviderError | McpToolError | AssertionError | IndexError

text \<open>An exception carries \<open>str(exc)\<close>.\<close>

datatype exc = Exc (exc_class: exc_class) (exc_text: string)

text \<open>\<open>except ValueError\<close> catches its subclasses, the errors of the contracts and of decoding, as well.\<close>

definition is_value_error :: "exc_class \<Rightarrow> bool" where
  "is_value_error c \<longleftrightarrow> c \<in> {ProtocolError, ValueError, UnicodeDecodeError, JSONDecodeError, ModelRecordError, TransportSecurityError}"

definition key_error :: "pyval \<Rightarrow> exc" where
  "key_error v = Exc KeyError (py_repr v)"

abbreviation attribute_error :: exc where "attribute_error \<equiv> Exc AttributeError []"
abbreviation type_error :: exc where "type_error \<equiv> Exc TypeError []"

section \<open>Reading a payload\<close>

text \<open>\<open>payload.get(key, dflt)\<close> on a value that may not be a mapping.\<close>

definition pget :: "pyval \<Rightarrow> string \<Rightarrow> pyval \<Rightarrow> exc + pyval" where
  "pget v key dflt = (case v of PDict kvs \<Rightarrow> Inr (dget_or kvs key dflt) | _ \<Rightarrow> Inl attribute_error)"

lemma pget_PDict [simp]: "pget (PDict kvs) key dflt = Inr (dget_or kvs key dflt)"
  by (simp add: pget_def)

definition is_dict :: "pyval \<Rightarrow> bool" where
  "is_dict v = (case v of PDict _ \<Rightarrow> True | _ \<Rightarrow> False)"

lemma is_dictE: assumes "is_dict v" obtains kvs where "v = PDict kvs"
  using assms by (cases v) (auto simp: is_dict_def)

lemma is_dict_simps [simp]: "is_dict (PDict kvs)" by (simp add: is_dict_def)

definition hashable :: "pyval \<Rightarrow> bool" where
  "hashable v = (case v of PList _ \<Rightarrow> False | PDict _ \<Rightarrow> False | _ \<Rightarrow> True)"

text \<open>\<open>d.get(key)\<close> for a dictionary with string keys and any key value.\<close>

definition lookup :: "'v dict \<Rightarrow> pyval \<Rightarrow> exc + 'v option" where
  "lookup d key = (if hashable key then Inr (case key of PStr k \<Rightarrow> dget d k | _ \<Rightarrow> None) else Inl type_error)"

lemma lookup_PStr [simp]: "lookup d (PStr k) = Inr (dget d k)"
  by (simp add: lookup_def hashable_def)

lemma lookup_hashable: "hashable v \<Longrightarrow> \<exists>x. lookup d v = Inr x"
  by (simp add: lookup_def)

text \<open>\<open>isinstance(v, str) and v\<close>.\<close>

definition name_of :: "pyval \<Rightarrow> string option" where
  "name_of v = (case v of PStr s \<Rightarrow> if s = [] then None else Some s | _ \<Rightarrow> None)"

lemma name_of_simps [simp]: "name_of (PStr s) = (if s = [] then None else Some s)" "name_of PNone = None"
  by (simp_all add: name_of_def)

lemma name_of_Some_iff: "name_of v = Some s \<longleftrightarrow> v = PStr s \<and> s \<noteq> []"
  by (cases v) (auto simp: name_of_def)

definition py_tuple :: "pyval \<Rightarrow> exc + pyval list" where
  "py_tuple v = (case iter_values v of None \<Rightarrow> Inl type_error | Some vs \<Rightarrow> Inr vs)"

fun type_name :: "pyval \<Rightarrow> string" where
  "type_name PNone = ''NoneType''"
| "type_name (PBool _) = ''bool''"
| "type_name (PInt _) = ''int''"
| "type_name (PFloat _) = ''float''"
| "type_name (PStr _) = ''str''"
| "type_name (PList _) = ''list''"
| "type_name (PDict _) = ''dict''"

section \<open>Comparisons of numbers\<close>

definition is_number :: "pyval \<Rightarrow> bool" where
  "is_number v = (case v of PBool _ \<Rightarrow> True | PInt _ \<Rightarrow> True | PFloat _ \<Rightarrow> True | _ \<Rightarrow> False)"

definition signed :: "string \<Rightarrow> bool" where
  "signed t = (case t of c # _ \<Rightarrow> c = CHR ''-'' | [] \<Rightarrow> False)"

definition magnitude :: "string \<Rightarrow> nat \<times> int" where
  "magnitude t = decimal_parts (if signed t then tl t else t)"

text \<open>The decimal \<open>m * 10 ^ e\<close> is at most, or below, the fraction \<open>n / d\<close>.\<close>

definition dec_le :: "nat \<times> int \<Rightarrow> nat \<Rightarrow> nat \<Rightarrow> bool" where
  "dec_le p n d \<longleftrightarrow> d * fst p * 10 ^ nat (snd p) \<le> n * 10 ^ nat (- snd p)"

definition dec_less :: "nat \<times> int \<Rightarrow> nat \<Rightarrow> nat \<Rightarrow> bool" where
  "dec_less p n d \<longleftrightarrow> d * fst p * 10 ^ nat (snd p) < n * 10 ^ nat (- snd p)"

definition b2i :: "bool \<Rightarrow> int" where
  "b2i b = (if b then 1 else 0)"

text \<open>\<open>v < 0\<close>.\<close>

definition num_negative :: "pyval \<Rightarrow> bool" where
  "num_negative v =
     (case v of PInt i \<Rightarrow> i < 0
      | PFloat t \<Rightarrow> t = ''-Infinity'' \<or> (t \<noteq> ''NaN'' \<and> t \<noteq> ''Infinity'' \<and> signed t \<and> fst (magnitude t) \<noteq> 0)
      | _ \<Rightarrow> False)"

text \<open>\<open>n >= v\<close> and \<open>n > v\<close> for a counter \<open>n\<close>.\<close>

definition count_ge :: "nat \<Rightarrow> pyval \<Rightarrow> bool" where
  "count_ge n v =
     (case v of PBool b \<Rightarrow> b2i b \<le> int n | PInt i \<Rightarrow> i \<le> int n
      | PFloat t \<Rightarrow> if t = ''NaN'' \<or> t = ''Infinity'' then False else if t = ''-Infinity'' then True
          else signed t \<or> dec_le (magnitude t) n 1
      | _ \<Rightarrow> False)"

definition count_gt :: "nat \<Rightarrow> pyval \<Rightarrow> bool" where
  "count_gt n v =
     (case v of PBool b \<Rightarrow> b2i b < int n | PInt i \<Rightarrow> i < int n
      | PFloat t \<Rightarrow> if t = ''NaN'' \<or> t = ''Infinity'' then False else if t = ''-Infinity'' then True
          else (if signed t then 0 < n \<or> fst (magnitude t) \<noteq> 0 else dec_less (magnitude t) n 1)
      | _ \<Rightarrow> False)"

text \<open>\<open>float(i)\<close> of an integer raises \<open>OverflowError\<close> from half a unit above the largest double.\<close>

definition float_overflows :: "int \<Rightarrow> bool" where
  "float_overflows i \<longleftrightarrow> 2 ^ 1024 - 2 ^ 970 \<le> \<bar>i\<bar>"

text \<open>\<open>0.0 <= float(v) <= 0.99\<close>.\<close>

definition unit_range :: "pyval \<Rightarrow> exc + bool" where
  "unit_range v =
     (case v of
        PBool b \<Rightarrow> Inr (\<not> b)
      | PInt i \<Rightarrow> if float_overflows i then Inl (Exc OverflowError ''int too large to convert to float'') else Inr (i = 0)
      | PFloat t \<Rightarrow> if t \<in> {''NaN'', ''Infinity'', ''-Infinity''} then Inr False
          else Inr ((\<not> signed t \<or> fst (magnitude t) = 0) \<and> dec_le (magnitude t) 99 100)
      | _ \<Rightarrow> Inl type_error)"

lemma count_gt_ge: "count_ge n v \<or> count_gt n v \<Longrightarrow> is_number v"
  by (auto simp: count_ge_def count_gt_def is_number_def split: pyval.splits)

lemma count_ge_mono: "count_ge m v \<Longrightarrow> m \<le> n \<Longrightarrow> count_ge n v"
  by (auto simp: count_ge_def dec_le_def split: pyval.splits if_splits
        intro: order_trans [OF _ mult_le_mono1])

lemma count_ge_PInt [simp]: "count_ge n (PInt i) \<longleftrightarrow> i \<le> int n"
  by (simp add: count_ge_def)

lemma count_gt_PInt [simp]: "count_gt n (PInt i) \<longleftrightarrow> i < int n"
  by (simp add: count_gt_def)

lemma count_NaN [simp]: "\<not> count_ge n (PFloat ''NaN'')" "\<not> count_gt n (PFloat ''NaN'')" "\<not> num_negative (PFloat ''NaN'')"
  by (simp_all add: count_ge_def count_gt_def num_negative_def)

lemmas decimal_eval = magnitude_def signed_def decimal_parts_def read_nat_def read_int_def hexl_chars_def code_def Let_def

lemma unit_range_facts:
  "unit_range (PFloat ''0.5'') = Inr True" "unit_range (PFloat ''0.99'') = Inr True"
  "unit_range (PFloat ''0.991'') = Inr False" "unit_range (PFloat ''1.0'') = Inr False"
  "unit_range (PFloat ''1e-05'') = Inr True" "unit_range (PFloat ''-0.0'') = Inr True"
  "unit_range (PFloat ''-0.5'') = Inr False"
  by (simp_all add: unit_range_def dec_le_def decimal_eval)

lemma count_facts:
  "count_ge 3 (PFloat ''2.5'')" "\<not> count_ge 2 (PFloat ''2.5'')" "count_ge 2 (PFloat ''2.0'')"
  "\<not> count_gt 2 (PFloat ''2.0'')" "count_ge 0 (PFloat ''-0.0'')"
  by (simp_all add: count_ge_def count_gt_def dec_le_def dec_less_def decimal_eval)

end
