(* ===== verification/Message.thy ===== *)
theory Message
  imports Py_Effects
begin

text \<open>
  The message contract (\<open>cbp/message.py\<close>) and the model boundary it refers to
  (\<open>cbp/model_record.py\<close>). Fields that a peer may fill with any JSON value are values of
  \<open>pyval\<close>; correlation ids and kinds are read from frames and are texts.
\<close>

section \<open>Directives, acks and responses\<close>

definition PROTOCOL_VERSION :: string where "PROTOCOL_VERSION = ''directive-response/v1''"

definition DIRECTIVE_KINDS :: "string list" where
  "DIRECTIVE_KINDS = [''configure'', ''run'', ''spawn'', ''ping'', ''kill'', ''register'', ''resolve'',
     ''state_get'', ''state_set'', ''audit'']"

definition RESPONSE_KINDS :: "string list" where
  "RESPONSE_KINDS = [''ok'', ''result'', ''error'', ''telemetry'']"

record directive =
  d_cid :: string
  d_kind :: string
  d_payload :: pyval
  d_protocol :: string

record ack =
  a_cid :: string
  a_node :: string
  a_protocol :: string

record response =
  r_cid :: string
  r_kind :: string
  r_value :: pyval
  r_verified :: pyval
  r_node :: pyval
  r_error :: pyval
  r_source :: pyval
  r_sources :: pyval
  r_protocol :: string
  r_confidence :: pyval
  r_model_record :: pyval

text \<open>A response with the defaults of the data class.\<close>

definition mk_response :: "string \<Rightarrow> string \<Rightarrow> bool \<Rightarrow> string \<Rightarrow> response" where
  "mk_response cid kind verified node =
     \<lparr>r_cid = cid, r_kind = kind, r_value = PNone, r_verified = PBool verified, r_node = PStr node,
      r_error = PNone, r_source = PStr [], r_sources = PNone, r_protocol = PROTOCOL_VERSION,
      r_confidence = PNone, r_model_record = PNone\<rparr>"

lemma mk_response_simps [simp]:
  "r_cid (mk_response c k v n) = c" "r_kind (mk_response c k v n) = k" "r_value (mk_response c k v n) = PNone"
  "r_verified (mk_response c k v n) = PBool v" "r_node (mk_response c k v n) = PStr n"
  "r_error (mk_response c k v n) = PNone" "r_source (mk_response c k v n) = PStr []"
  "r_sources (mk_response c k v n) = PNone" "r_protocol (mk_response c k v n) = PROTOCOL_VERSION"
  "r_confidence (mk_response c k v n) = PNone" "r_model_record (mk_response c k v n) = PNone"
  by (simp_all add: mk_response_def)

section \<open>The validators\<close>

definition protocol_reject :: "bool \<Rightarrow> string \<Rightarrow> exc + unit" where
  "protocol_reject b text = rejectR b (Exc ProtocolError text)"

definition check_protocol :: "string \<Rightarrow> exc + unit" where
  "check_protocol p = protocol_reject (p \<noteq> PROTOCOL_VERSION)
     (''unsupported protocol '' @ repr_str p @ '' (expected '' @ repr_str PROTOCOL_VERSION @ '')'')"

definition validate_directive :: "directive \<Rightarrow> exc + unit" where
  "validate_directive m =
     thenR (check_protocol (d_protocol m))
    (thenR (protocol_reject (d_cid m = []) ''directive is missing a correlation id'')
           (protocol_reject (d_kind m \<notin> set DIRECTIVE_KINDS) (''unknown directive kind '' @ repr_str (d_kind m))))"

definition validate_ack :: "ack \<Rightarrow> exc + unit" where
  "validate_ack m =
     thenR (check_protocol (a_protocol m))
           (protocol_reject (a_cid m = []) ''ack is missing a correlation id'')"

definition is_str :: "pyval \<Rightarrow> bool" where
  "is_str v = (case v of PStr _ \<Rightarrow> True | _ \<Rightarrow> False)"

lemma is_str_PStr [simp]: "is_str (PStr s)" by (simp add: is_str_def)

definition is_content_hash :: "pyval \<Rightarrow> bool" where
  "is_content_hash v = (case v of PStr s \<Rightarrow> length s = 64 \<and> list_all is_hexl s | _ \<Rightarrow> False)"

definition numeric :: "pyval \<Rightarrow> bool" where
  "numeric v = (case v of PInt _ \<Rightarrow> True | PFloat _ \<Rightarrow> True | _ \<Rightarrow> False)"

definition check_confidence :: "pyval \<Rightarrow> exc + unit" where
  "check_confidence v =
     (if v = PNone then Inr ()
      else thenR (protocol_reject (\<not> numeric v) ''response confidence must be numeric'')
        (bindR (unit_range v) (\<lambda>ok. protocol_reject (\<not> ok) ''response confidence must be in [0.0, 0.99]'')))"

definition validate_response :: "response \<Rightarrow> exc + unit" where
  "validate_response m =
     thenR (check_protocol (r_protocol m))
    (thenR (protocol_reject (r_cid m = []) ''response is missing a correlation id'')
    (thenR (protocol_reject (r_kind m \<notin> set RESPONSE_KINDS) (''unknown response kind '' @ repr_str (r_kind m)))
    (thenR (protocol_reject (r_kind m = ''result'' \<and> \<not> truthy (r_verified m)) (''a '' @ repr_str ''result'' @ '' response must be verified''))
    (thenR (protocol_reject (r_kind m = ''error'' \<and> truthy (r_verified m)) (''an '' @ repr_str ''error'' @ '' response must not be verified''))
    (thenR (protocol_reject (\<not> is_str (r_source m)) ''response source must be a string'')
    (thenR (check_confidence (r_confidence m))
           (protocol_reject (r_model_record m \<noteq> PNone \<and> \<not> is_content_hash (r_model_record m))
              ''response model_record must be a 64-character lowercase hex digest'')))))))"

definition effective_confidence :: "(pyval \<Rightarrow> exc + pyval) \<Rightarrow> response \<Rightarrow> exc + pyval" where
  "effective_confidence py_float m =
     (if r_confidence m \<noteq> PNone then py_float (r_confidence m)
      else Inr (PFloat (if truthy (r_verified m) then ''1.0'' else ''0.0'')))"

definition stamp_confidence :: "(pyval \<Rightarrow> exc + pyval) \<Rightarrow> response \<Rightarrow> exc + response" where
  "stamp_confidence py_float m =
     (if r_confidence m \<noteq> PNone then Inr m
      else bindR (effective_confidence py_float m) (\<lambda>c. Inr (m\<lparr>r_confidence := c\<rparr>)))"

section \<open>The model boundary\<close>

definition MODEL_RECORD_SCHEMA :: string where "MODEL_RECORD_SCHEMA = ''cbp.model-record.v1''"

definition PROVIDER_KINDS :: "string list" where "PROVIDER_KINDS = [''stub'', ''external'']"

record model_confidence =
  mc_score :: pyval
  mc_reason :: string

definition model_reject :: "bool \<Rightarrow> string \<Rightarrow> exc + unit" where
  "model_reject b text = rejectR b (Exc ModelRecordError text)"

definition mk_confidence :: "pyval \<Rightarrow> string \<Rightarrow> exc + model_confidence" where
  "mk_confidence s why =
     thenR (model_reject (\<not> numeric s) (''confidence must be numeric, got '' @ py_repr s))
    (thenR (bindR (unit_range s) (\<lambda>ok. model_reject (\<not> ok) (''confidence must be in [0.0, 0.99], got '' @ py_repr s)))
    (thenR (model_reject (why = []) ''confidence reason must be non-empty'')
           (Inr \<lparr>mc_score = s, mc_reason = why\<rparr>)))"

definition blank :: "pyval \<Rightarrow> bool" where
  "blank v = (case v of PStr s \<Rightarrow> py_strip s = [] | _ \<Rightarrow> True)"

definition score_model_confidence :: "string \<Rightarrow> bool \<Rightarrow> pyval \<Rightarrow> pyval \<Rightarrow> exc + model_confidence" where
  "score_model_confidence provider_kind deterministic prompt out =
     thenR (model_reject (provider_kind \<notin> set PROVIDER_KINDS) (''unknown provider kind '' @ repr_str provider_kind))
       (if blank prompt then mk_confidence (PFloat ''0.0'') ''empty prompt; nothing to reproduce''
        else if blank out then mk_confidence (PFloat ''0.0'') ''empty output; nothing to reproduce''
        else if \<not> deterministic then
          mk_confidence (PFloat ''0.5'') ''external provider output; recorded and re-verified, not relied upon''
        else mk_confidence (PFloat ''0.9'') ''deterministic provider output; reproducible byte-for-byte'')"

record model_record =
  model_id :: string
  provider_kind :: string
  deterministic :: pyval
  prompt_sha256 :: pyval
  output_sha256 :: pyval
  confidence :: pyval
  confidence_reason :: string
  mr_schema :: string

definition mk_model_record :: "model_record \<Rightarrow> exc + model_record" where
  "mk_model_record r =
     thenR (model_reject (mr_schema r \<noteq> MODEL_RECORD_SCHEMA) (''unsupported model record schema: '' @ repr_str (mr_schema r)))
    (thenR (model_reject (model_id r = []) ''model_id must be non-empty'')
    (thenR (model_reject (provider_kind r \<notin> set PROVIDER_KINDS) (''unknown provider kind '' @ repr_str (provider_kind r)))
    (thenR (model_reject (\<not> (\<exists>b \<in> {True, False}. deterministic r = PBool b)) ''deterministic must be a bool'')
    (thenR (model_reject (\<not> is_content_hash (prompt_sha256 r)) ''prompt_sha256 must be a 64-character lowercase hex digest'')
    (thenR (model_reject (\<not> is_content_hash (output_sha256 r)) ''output_sha256 must be a 64-character lowercase hex digest'')
    (thenR (model_reject (\<not> numeric (confidence r)) (''confidence must be numeric, got '' @ py_repr (confidence r)))
    (thenR (bindR (unit_range (confidence r)) (\<lambda>ok. model_reject (\<not> ok) ''confidence must be in [0.0, 0.99]''))
    (thenR (model_reject (confidence_reason r = []) ''confidence_reason must be non-empty'')
           (Inr r)))))))))"

text \<open>\<open>float(confidence)\<close> of a record: its integers are zero.\<close>

definition model_record_to_dict :: "model_record \<Rightarrow> pyval dict" where
  "model_record_to_dict r =
     [(''schema'', PStr (mr_schema r)), (''model_id'', PStr (model_id r)), (''provider_kind'', PStr (provider_kind r)),
      (''deterministic'', deterministic r), (''prompt_sha256'', prompt_sha256 r), (''output_sha256'', output_sha256 r),
      (''confidence'', case confidence r of PInt _ \<Rightarrow> PFloat ''0.0'' | c \<Rightarrow> c), (''confidence_reason'', PStr (confidence_reason r))]"

definition record_hash :: "(string \<Rightarrow> string) \<Rightarrow> model_record \<Rightarrow> string" where
  "record_hash sha r = sha (canonical_bytes (PDict (model_record_to_dict r)))"

definition build_model_record ::
  "(string \<Rightarrow> string) \<Rightarrow> string \<Rightarrow> string \<Rightarrow> bool \<Rightarrow> pyval \<Rightarrow> pyval \<Rightarrow> exc + model_record" where
  "build_model_record sha mid kind det prompt out =
     bindR (score_model_confidence kind det prompt out) (\<lambda>c.
       case (prompt, out) of
         (PStr p, PStr q) \<Rightarrow> mk_model_record
           \<lparr>model_id = mid, provider_kind = kind, deterministic = PBool det,
            prompt_sha256 = PStr (sha (utf8 p)), output_sha256 = PStr (sha (utf8 q)),
            confidence = mc_score c, confidence_reason = mc_reason c, mr_schema = MODEL_RECORD_SCHEMA\<rparr>
       | _ \<Rightarrow> Inl attribute_error)"

type_synonym model_log = "model_record dict"

definition log_record :: "(string \<Rightarrow> string) \<Rightarrow> model_record \<Rightarrow> model_log \<Rightarrow> bool \<times> model_log" where
  "log_record sha r l =
     (let h = record_hash sha r in if dget l h \<noteq> None then (False, l) else (True, dput h r l))"

definition log_get :: "model_log \<Rightarrow> string \<Rightarrow> model_record option" where
  "log_get l h = dget l h"

definition log_entries :: "model_log \<Rightarrow> model_record list" where
  "log_entries l = map (\<lambda>h. the (dget l h)) (sort (dkeys l))"

definition log_to_list :: "(string \<Rightarrow> string) \<Rightarrow> model_log \<Rightarrow> pyval" where
  "log_to_list sha l =
     PList (map (\<lambda>r. PDict (dupdate (model_record_to_dict r) [(''record_hash'', PStr (record_hash sha r))])) (log_entries l))"

section \<open>What a valid response is\<close>

lemma protocol_reject_Inr [result_simps]: "protocol_reject b t = Inr u \<longleftrightarrow> \<not> b"
  by (simp add: protocol_reject_def result_simps)

lemma protocol_reject_simps [simp]: "protocol_reject False t = Inr ()" "protocol_reject True t = Inl (Exc ProtocolError t)"
  by (simp_all add: protocol_reject_def)

lemma check_protocol_Inr [result_simps]: "check_protocol p = Inr u \<longleftrightarrow> p = PROTOCOL_VERSION"
  by (simp add: check_protocol_def result_simps)

lemma check_protocol_simps [simp]: "check_protocol PROTOCOL_VERSION = Inr ()"
  by (simp add: check_protocol_def)

lemma check_confidence_None [simp]: "check_confidence PNone = Inr ()"
  by (simp add: check_confidence_def)

lemma check_confidence_Inr: "check_confidence v = Inr u \<longleftrightarrow> v = PNone \<or> (numeric v \<and> unit_range v = Inr True)"
  by (auto simp: check_confidence_def result_simps)

definition valid_response :: "response \<Rightarrow> bool" where
  "valid_response m \<longleftrightarrow> validate_response m = Inr ()"

lemma validate_response_iff:
  "valid_response m \<longleftrightarrow>
     r_protocol m = PROTOCOL_VERSION \<and> r_cid m \<noteq> [] \<and> r_kind m \<in> set RESPONSE_KINDS \<and>
     (r_kind m = ''result'' \<longrightarrow> truthy (r_verified m)) \<and> (r_kind m = ''error'' \<longrightarrow> \<not> truthy (r_verified m)) \<and>
     is_str (r_source m) \<and> (r_confidence m = PNone \<or> (numeric (r_confidence m) \<and> unit_range (r_confidence m) = Inr True)) \<and>
     (r_model_record m = PNone \<or> is_content_hash (r_model_record m))"
  unfolding valid_response_def validate_response_def
  by (auto simp: result_simps check_confidence_Inr)

lemma valid_directive_iff:
  "validate_directive m = Inr u \<longleftrightarrow>
     d_protocol m = PROTOCOL_VERSION \<and> d_cid m \<noteq> [] \<and> d_kind m \<in> set DIRECTIVE_KINDS"
  by (auto simp: validate_directive_def result_simps)

text \<open>The stamp gives a verified response the confidence 1.0, which the contract of responses
  does not allow.\<close>

lemma stamped_response_invalid:
  assumes "valid_response m" "r_confidence m = PNone" "truthy (r_verified m)"
    and "stamp_confidence f m = Inr m'"
  shows "\<not> valid_response m'"
  using assms unit_range_facts(4)
  by (auto simp: stamp_confidence_def effective_confidence_def validate_response_iff)

section \<open>Records of a model call\<close>

lemma model_reject_simps [simp]: "model_reject False t = Inr ()" "model_reject True t = Inl (Exc ModelRecordError t)"
  by (simp_all add: model_reject_def)

lemma unit_range_scores:
  "unit_range (PFloat ''0.0'') = Inr True" "unit_range (PFloat ''0.5'') = Inr True" "unit_range (PFloat ''0.9'') = Inr True"
  by (simp_all add: unit_range_def dec_le_def decimal_eval)

lemma mk_confidence_ok:
  assumes "unit_range (PFloat t) = Inr True" "why \<noteq> []"
  shows "mk_confidence (PFloat t) why = Inr \<lparr>mc_score = PFloat t, mc_reason = why\<rparr>"
  using assms by (simp add: mk_confidence_def numeric_def)

lemma score_model_confidence_ok:
  assumes "kind \<in> set PROVIDER_KINDS"
  shows "\<exists>c. score_model_confidence kind det p q = Inr c \<and> numeric (mc_score c) \<and> unit_range (mc_score c) = Inr True \<and> mc_reason c \<noteq> []"
proof -
  have ok: "\<exists>c. mk_confidence (PFloat t) why = Inr c \<and> numeric (mc_score c) \<and> unit_range (mc_score c) = Inr True \<and> mc_reason c \<noteq> []"
    if "unit_range (PFloat t) = Inr True" "why \<noteq> []" for t why
    using that by (simp add: mk_confidence_ok numeric_def)
  show ?thesis
    unfolding score_model_confidence_def using assms
    by (simp only: model_reject_simps thenR_simps not_True_eq_False if_False simp_thms split: if_splits)
      (intro conjI impI ok unit_range_scores list.distinct)
qed

lemma build_model_record_total:
  assumes "kind \<in> set PROVIDER_KINDS" "mid \<noteq> []" "\<And>x. length (sha x) = 64 \<and> list_all is_hexl (sha x)"
  obtains r where "build_model_record sha mid kind det (PStr p) (PStr q) = Inr r"
proof -
  obtain c where "score_model_confidence kind det (PStr p) (PStr q) = Inr c"
    "numeric (mc_score c)" "unit_range (mc_score c) = Inr True" "mc_reason c \<noteq> []"
    using score_model_confidence_ok [OF assms(1)] by metis
  then show thesis
    using assms that by (simp add: build_model_record_def mk_model_record_def is_content_hash_def)
qed

text \<open>The log is append-only and idempotent.\<close>

lemma log_record_get:
  "log_get (snd (log_record sha r l)) h =
     (case log_get l h of Some r' \<Rightarrow> Some r' | None \<Rightarrow> if h = record_hash sha r then Some r else None)"
  by (auto simp: log_record_def log_get_def Let_def dict_simps split: option.splits)

lemma log_record_idem: "log_record sha r (snd (log_record sha r l)) = (False, snd (log_record sha r l))"
  by (auto simp: log_record_def Let_def dict_simps)

end
