(* ===== verification/Transport.thy ===== *)
theory Transport
  imports Message
begin

text \<open>
  The trust boundary of the transport: integrity trailers, peer authorization and TLS profiles
  (\<open>cbp/security.py\<close>), binds and owner-only sockets (\<open>cbp/transport.py\<close>). The keyed digest is a
  parameter \<open>hmac\<close> from secret and message to hexadecimal text; the file system is seen through
  parameters too.
\<close>

section \<open>Traffic integrity\<close>

definition INTEGRITY_TAG :: string where "INTEGRITY_TAG = ''cbp-integrity-v1''"
definition INTEGRITY_KEY :: string where "INTEGRITY_KEY = ''_integrity''"
definition INTEGRITY_DIGEST_KEY :: string where "INTEGRITY_DIGEST_KEY = ''_digest''"

type_synonym mac = "string \<Rightarrow> string \<Rightarrow> string"

definition canonical_json :: "string \<Rightarrow> string \<Rightarrow> pyval \<Rightarrow> string" where
  "canonical_json cid kind payload =
     canonical_bytes (PDict [(''correlation_id'', PStr cid), (''directive_kind'', PStr kind), (''payload'', payload)])"

definition sign_payload :: "mac \<Rightarrow> string \<Rightarrow> string \<Rightarrow> string \<Rightarrow> pyval \<Rightarrow> string" where
  "sign_payload hmac secret cid kind payload = hmac secret (utf8 (canonical_json cid kind payload))"

definition ascii_part :: "string \<Rightarrow> string" where
  "ascii_part s = filter (\<lambda>c. code c < 128) s"

definition verify_payload :: "mac \<Rightarrow> string \<Rightarrow> string \<Rightarrow> string \<Rightarrow> string \<Rightarrow> pyval \<Rightarrow> bool" where
  "verify_payload hmac secret expected cid kind payload \<longleftrightarrow>
     expected \<noteq> [] \<and> ascii_part expected = ascii_part (sign_payload hmac secret cid kind payload)"

definition integrity_headers :: "mac \<Rightarrow> string \<Rightarrow> string \<Rightarrow> string \<Rightarrow> pyval \<Rightarrow> pyval dict" where
  "integrity_headers hmac secret cid kind payload =
     [(INTEGRITY_KEY, PStr INTEGRITY_TAG), (INTEGRITY_DIGEST_KEY, PStr (sign_payload hmac secret cid kind payload))]"

definition attach_integrity :: "mac \<Rightarrow> string option \<Rightarrow> string \<Rightarrow> string \<Rightarrow> pyval dict \<Rightarrow> pyval dict" where
  "attach_integrity hmac secret cid kind payload =
     (case secret of None \<Rightarrow> payload
      | Some k \<Rightarrow> dupdate payload (integrity_headers hmac k cid kind (PDict payload)))"

definition strip_trailer :: "'v dict \<Rightarrow> 'v dict" where
  "strip_trailer d = filter (\<lambda>kv. fst kv \<noteq> INTEGRITY_KEY \<and> fst kv \<noteq> INTEGRITY_DIGEST_KEY) d"

text \<open>With a secret, a payload that is no mapping raises \<open>AttributeError\<close>.\<close>

definition verify_and_strip :: "mac \<Rightarrow> string option \<Rightarrow> string \<Rightarrow> string \<Rightarrow> pyval \<Rightarrow> exc + pyval \<times> bool" where
  "verify_and_strip hmac secret cid kind payload =
     (case secret of None \<Rightarrow> Inr (payload, True)
      | Some k \<Rightarrow>
          (case payload of
             PDict kvs \<Rightarrow>
               (let clean = PDict (strip_trailer kvs) in
                case (dget kvs INTEGRITY_KEY, dget kvs INTEGRITY_DIGEST_KEY) of
                  (Some (PStr tag), Some (PStr digest)) \<Rightarrow>
                    Inr (clean, tag = INTEGRITY_TAG \<and> verify_payload hmac k digest cid kind clean)
                | _ \<Rightarrow> Inr (clean, False))
           | _ \<Rightarrow> Inl attribute_error))"

section \<open>Peer authorization\<close>

record peer_policy =
  peer :: string
  roles :: "string list"
  subgroup :: "string option"

definition authz_init :: "peer_policy dict option \<Rightarrow> peer_policy dict" where
  "authz_init policies = (case policies of None \<Rightarrow> [] | Some d \<Rightarrow> d)"

definition authz_add :: "peer_policy \<Rightarrow> peer_policy dict \<Rightarrow> peer_policy dict" where
  "authz_add p d = dput (peer p) p d"

definition authorize :: "peer_policy dict \<Rightarrow> string \<Rightarrow> string \<Rightarrow> string option \<Rightarrow> string option" where
  "authorize d who kind routed =
     (case dget d who of
        None \<Rightarrow> Some (''peer '' @ repr_str who @ '' is not authorised to drive the transport'')
      | Some p \<Rightarrow>
          if kind \<notin> set (roles p)
          then Some (''peer '' @ repr_str who @ '' is not authorised to issue directive '' @ repr_str kind @
                 '' (allowed: '' @ (if commas (roles p) = [] then ''none'' else commas (roles p)) @ '')'')
          else (case (subgroup p, routed) of
                  (Some g, Some r) \<Rightarrow>
                    if \<not> starts_with g r
                    then Some (''peer '' @ repr_str who @ '' may not route to '' @ repr_str r @ '' (subgroup '' @ repr_str g @ '')'')
                    else None
                | _ \<Rightarrow> None))"

section \<open>TLS profiles\<close>

record tls_creds =
  public_cert_path :: string
  private_key_path :: string
  ca_cert_path :: "string option"
  peer_verify :: bool

definition is_complete :: "(string \<Rightarrow> bool) \<Rightarrow> tls_creds \<Rightarrow> bool" where
  "is_complete isfile c \<longleftrightarrow>
     public_cert_path c \<noteq> [] \<and> private_key_path c \<noteq> [] \<and>
     list_all isfile [public_cert_path c, private_key_path c] \<and>
     (case ca_cert_path c of None \<Rightarrow> True | Some p \<Rightarrow> isfile p)"

definition opt_str :: "string option \<Rightarrow> pyval" where
  "opt_str s = (case s of None \<Rightarrow> PNone | Some t \<Rightarrow> PStr t)"

definition creds_to_dict :: "(string \<Rightarrow> bool) \<Rightarrow> tls_creds \<Rightarrow> pyval" where
  "creds_to_dict isfile c = PDict
     [(''public_cert_path'', PStr (public_cert_path c)), (''private_key_path'', PStr (private_key_path c)),
      (''ca_cert_path'', opt_str (ca_cert_path c)), (''peer_verify'', PBool (peer_verify c)),
      (''complete'', PBool (is_complete isfile c))]"

definition configure_tls :: "(string \<Rightarrow> bool) \<Rightarrow> tls_creds option \<Rightarrow> pyval" where
  "configure_tls isfile creds =
     (case creds of
        None \<Rightarrow> PDict [(''ready'', PBool False), (''reason'', PStr ''no TLS credentials provided'')]
      | Some c \<Rightarrow>
          if \<not> is_complete isfile c
          then PDict [(''ready'', PBool False), (''reason'', PStr (''TLS credentials incomplete: '' @ py_repr (creds_to_dict isfile c)))]
          else PDict [(''ready'', PBool True), (''reason'', PStr ''ok''), (''creds'', creds_to_dict isfile c),
                 (''integrity'', PStr INTEGRITY_TAG)])"

section \<open>Binds\<close>

definition SECURITY_PROFILES :: "string list" where
  "SECURITY_PROFILES = [''loopback'', ''local'', ''tls'']"

definition LOOPBACK_HOSTS :: "string list" where
  "LOOPBACK_HOSTS = [''127.0.0.1'', ''127.0.0.0'', ''::1'', ''localhost'', ''127.0.0.0.1'']"

text \<open>\<open>str.isdigit\<close> admits the superscripts.\<close>

definition isdigit :: "string \<Rightarrow> bool" where
  "isdigit s \<longleftrightarrow> s \<noteq> [] \<and> list_all (\<lambda>c. is_digit c \<or> code c \<in> {178, 179, 185}) s"

definition is_loopback_host :: "string \<Rightarrow> bool" where
  "is_loopback_host host \<longleftrightarrow>
     (if host \<in> set LOOPBACK_HOSTS then True
      else if starts_with ''127.'' host
      then (let parts = split_on (CHR ''.'') host in length parts = 4 \<and> list_all isdigit parts)
      else False)"

text \<open>The match of \<open>^(?P<host>[^:]+):(?P<port>[0-9]+)$\<close>.\<close>

definition tcp_host :: "string \<Rightarrow> string option" where
  "tcp_host endpoint =
     (let host = takeWhile (\<lambda>c. c \<noteq> CHR '':'') endpoint; rest = dropWhile (\<lambda>c. c \<noteq> CHR '':'') endpoint;
          port = chomp (tl rest)
      in if host \<noteq> [] \<and> rest \<noteq> [] \<and> port \<noteq> [] \<and> list_all is_digit port then Some host else None)"

definition is_loopback_tcp_endpoint :: "string \<Rightarrow> bool" where
  "is_loopback_tcp_endpoint endpoint = (case tcp_host endpoint of None \<Rightarrow> False | Some h \<Rightarrow> is_loopback_host h)"

definition check_tcp_bind :: "string \<Rightarrow> string \<Rightarrow> string option" where
  "check_tcp_bind endpoint security =
     (if security \<notin> set SECURITY_PROFILES
      then Some (''unknown security profile '' @ repr_str security @ '' (expected one of local, loopback, tls)'')
      else if is_loopback_tcp_endpoint endpoint then None
      else if security = ''loopback''
      then Some (''refusing non-loopback tcp bind '' @ repr_str endpoint @
             '': the CBP transport is trusted only on loopback; pass security='' @ repr_str ''local'' @
             '' (or '' @ repr_str ''tls'' @ '') to opt in explicitly'')
      else None)"

definition ipc_path :: "string \<Rightarrow> string option" where
  "ipc_path endpoint = (if starts_with ''ipc://'' endpoint then Some (drop 6 endpoint) else None)"

text \<open>\<open>chmod\<close> answers with the text of its error; \<open>stat\<close> with an error text or the mode bits.\<close>

definition set_ipc_socket_mode :: "(string \<Rightarrow> string option) \<Rightarrow> string \<Rightarrow> exc + unit" where
  "set_ipc_socket_mode chmod path =
     (case chmod path of None \<Rightarrow> Inr ()
      | Some e \<Rightarrow> Inl (Exc TransportSecurityError (''could not set owner-only mode on ipc socket '' @ repr_str path @ '': '' @ e)))"

definition enforce_ipc_socket_mode :: "(string \<Rightarrow> bool) \<Rightarrow> (string \<Rightarrow> string option) \<Rightarrow> string \<Rightarrow> string option" where
  "enforce_ipc_socket_mode exists chmod endpoint =
     (case ipc_path endpoint of
        None \<Rightarrow> Some (''not an ipc endpoint: '' @ repr_str endpoint)
      | Some path \<Rightarrow> if \<not> exists path then None
          else (case set_ipc_socket_mode chmod path of Inl e \<Rightarrow> Some (exc_text e) | Inr _ \<Rightarrow> None))"

fun show_oct_digits :: "nat \<Rightarrow> string" where
  "show_oct_digits n = (if n < 8 then [digit_char n] else show_oct_digits (n div 8) @ [digit_char (n mod 8)])"

declare show_oct_digits.simps [simp del]

definition validate_ipc_socket_mode :: "(string \<Rightarrow> bool) \<Rightarrow> (string \<Rightarrow> string + nat) \<Rightarrow> string \<Rightarrow> string option" where
  "validate_ipc_socket_mode exists stat endpoint =
     (case ipc_path endpoint of
        None \<Rightarrow> Some (''not an ipc endpoint: '' @ repr_str endpoint)
      | Some path \<Rightarrow> if \<not> exists path then None
          else (case stat path of
                  Inl e \<Rightarrow> Some (''cannot stat ipc socket '' @ repr_str path @ '': '' @ e)
                | Inr st \<Rightarrow> let mode = st mod 512 in
                    if mode mod 64 \<noteq> 0
                    then Some (''ipc socket '' @ repr_str path @ '' is not owner-only (mode 0o'' @ show_oct_digits mode @
                           ''); refusing to trust it'')
                    else None))"

definition contains :: "string \<Rightarrow> string \<Rightarrow> bool" where
  "contains s p \<longleftrightarrow> (\<exists>i \<in> set [0..<Suc (length s)]. starts_with p (drop i s))"

definition resolve_endpoint :: "string \<Rightarrow> string \<Rightarrow> string" where
  "resolve_endpoint endpoint transport = (if contains endpoint ''://'' then endpoint else transport @ ''://'' @ endpoint)"

section \<open>What a trailer is worth\<close>

lemma reserved_keys [simp]: "INTEGRITY_KEY \<noteq> INTEGRITY_DIGEST_KEY" "INTEGRITY_DIGEST_KEY \<noteq> INTEGRITY_KEY"
  by (simp_all add: INTEGRITY_KEY_def INTEGRITY_DIGEST_KEY_def)

definition unreserved :: "'v dict \<Rightarrow> bool" where
  "unreserved d \<longleftrightarrow> dget d INTEGRITY_KEY = None \<and> dget d INTEGRITY_DIGEST_KEY = None"

lemma unreserved_keys: "unreserved d \<longleftrightarrow> INTEGRITY_KEY \<notin> fst ` set d \<and> INTEGRITY_DIGEST_KEY \<notin> fst ` set d"
  by (simp add: unreserved_def dget_None_iff)

lemma unreserved_strip: "unreserved d \<Longrightarrow> strip_trailer d = d"
  unfolding unreserved_keys strip_trailer_def by (rule filter_True) force

lemma attach_fresh:
  assumes "unreserved d"
  shows "attach_integrity hmac (Some k) cid kind d = d @ integrity_headers hmac k cid kind (PDict d)"
  using assms unfolding unreserved_keys
  by (simp add: attach_integrity_def integrity_headers_def length_dput_new image_Un)

lemma dget_append: "dget (d @ e) k = (case dget d k of None \<Rightarrow> dget e k | Some v \<Rightarrow> Some v)"
  by (simp add: dget_def map_add_def split: option.splits)

text \<open>A trailer attached under a secret verifies under it and comes off again.\<close>

lemma verify_attached:
  assumes "unreserved d" and "\<And>m. hmac (the k) m \<noteq> []"
  shows "verify_and_strip hmac k cid kind (PDict (attach_integrity hmac k cid kind d)) = Inr (PDict d, True)"
proof (cases k)
  case None
  then show ?thesis by (simp add: verify_and_strip_def attach_integrity_def)
next
  case (Some s)
  let ?h = "integrity_headers hmac s cid kind (PDict d)"
  have "strip_trailer (d @ ?h) = d"
    using unreserved_strip [OF assms(1)] by (simp add: strip_trailer_def integrity_headers_def)
  moreover have "dget (d @ ?h) INTEGRITY_KEY = Some (PStr INTEGRITY_TAG)"
    "dget (d @ ?h) INTEGRITY_DIGEST_KEY = Some (PStr (sign_payload hmac s cid kind (PDict d)))"
    using assms(1) by (simp_all add: dget_append unreserved_def integrity_headers_def dget_Cons)
  moreover have "verify_payload hmac s (sign_payload hmac s cid kind (PDict d)) cid kind (PDict d)"
    using assms(2) Some by (simp add: verify_payload_def sign_payload_def)
  ultimately show ?thesis
    using Some by (simp add: verify_and_strip_def attach_fresh [OF assms(1)])
qed

lemma canonical_json_inj:
  assumes "canonical_json c k p = canonical_json c' k' p'" "wf_pyval p" "wf_pyval p'"
  shows "c = c' \<and> k = k' \<and> json_norm p = json_norm p'"
proof -
  let ?d = "\<lambda>c k p. PDict [(''correlation_id'', PStr c), (''directive_kind'', PStr k), (''payload'', p)]"
  have "json_norm (?d c k p) = json_norm (?d c' k' p')"
    using assms canonical_bytes_eq_iff [of "?d c k p" "?d c' k' p'"] by (simp add: canonical_json_def)
  then show ?thesis by (simp add: less_list_code)
qed

text \<open>What verifies was signed: absent collisions, a payload that verifies with the digest of
  some message has that message's correlation id, kind and canonical content.\<close>

lemma verified_as_signed:
  assumes "verify_payload hmac s (sign_payload hmac s c k p) c' k' p'"
    and "\<And>m. list_all (\<lambda>x. code x < 128) (hmac s m)" and "inj (hmac s)"
    and "wf_pyval p" "wf_pyval p'"
  shows "c' = c \<and> k' = k \<and> json_norm p' = json_norm p"
proof -
  have ascii: "ascii_part (hmac s m) = hmac s m" for m
    using assms(2) [of m] by (simp add: ascii_part_def list_all_iff)
  have "hmac s (utf8 (canonical_json c k p)) = hmac s (utf8 (canonical_json c' k' p'))"
    using assms(1) by (simp add: verify_payload_def sign_payload_def ascii)
  then have "canonical_json c k p = canonical_json c' k' p'"
    using assms(3) by (simp add: inj_eq utf8_inj)
  then show ?thesis using canonical_json_inj assms(4,5) by metis
qed

text \<open>The digest may carry any characters outside ASCII: they are dropped before the comparison.\<close>

lemma digest_malleable:
  assumes "verify_payload hmac s d cid kind p" "128 \<le> code x"
  shows "verify_payload hmac s (x # d) cid kind p"
  using assms by (simp add: verify_payload_def ascii_part_def)

text \<open>Under the fail-closed profile a permitted bind is a loopback bind; no IPv6 literal is one.\<close>

lemma loopback_bind: "check_tcp_bind e ''loopback'' = None \<longleftrightarrow> is_loopback_tcp_endpoint e"
  by (simp add: check_tcp_bind_def SECURITY_PROFILES_def)

lemma ipv6_never_loopback: "\<not> is_loopback_tcp_endpoint (CHR '':'' # e)"
  by (simp add: is_loopback_tcp_endpoint_def tcp_host_def)

end
