(* ===== verification/Envelope.thy ===== *)
theory Envelope
  imports Message
begin

text \<open>
  Resource envelopes (\<open>cbp/envelopes.py\<close>): the granted bounds and the guard that counts against
  them. The bounds come from JSON and keep their dynamic types. The clock is a parameter: \<open>late b\<close>
  says that the age of the guard exceeds the bound \<open>b\<close>.
\<close>

record envelope =
  step_limit :: pyval
  size_cap :: pyval
  latency_seconds :: pyval
  child_limit :: pyval
  extra :: "(pyval \<times> pyval) list"

definition bounds_of :: "envelope \<Rightarrow> (string \<times> pyval) list" where
  "bounds_of e = [(''step_limit'', step_limit e), (''size_cap'', size_cap e),
     (''latency_seconds'', latency_seconds e), (''child_limit'', child_limit e)]"

definition validate_bound :: "string \<times> pyval \<Rightarrow> exc + unit" where
  "validate_bound nv =
     (case nv of (name, v) \<Rightarrow>
        if v = PNone then Inr ()
        else if \<not> is_number v then Inl (Exc ValueError (name @ '' must be a number, got '' @ type_name v))
        else if num_negative v then Inl (Exc ValueError (name @ '' must be non-negative, got '' @ py_str v))
        else Inr ())"

definition validate_envelope :: "envelope \<Rightarrow> exc + unit" where
  "validate_envelope e = iterR validate_bound (bounds_of e)"

text \<open>The keys of a mapping as JSON writes them.\<close>

definition json_key :: "pyval \<Rightarrow> string" where
  "json_key v = (case v of PStr s \<Rightarrow> s | _ \<Rightarrow> json_text v)"

definition envelope_to_payload :: "envelope \<Rightarrow> pyval" where
  "envelope_to_payload e = PDict
     [(''step_limit'', step_limit e), (''size_cap'', size_cap e), (''latency_seconds'', latency_seconds e),
      (''child_limit'', child_limit e), (''extra'', PDict (map (\<lambda>kv. (json_key (fst kv), snd kv)) (extra e)))]"

text \<open>\<open>dict(v)\<close>: a mapping is copied, an iterable must yield pairs with hashable first parts;
  equal keys keep the place and the key of the first and the value of the last.\<close>

fun put_pair :: "pyval \<Rightarrow> pyval \<Rightarrow> (pyval \<times> pyval) list \<Rightarrow> (pyval \<times> pyval) list" where
  "put_pair k v [] = [(k, v)]"
| "put_pair k v ((a, b) # d) = (if py_eq a k then (a, v) # d else (a, b) # put_pair k v d)"

fun dict_pairs :: "nat \<Rightarrow> pyval list \<Rightarrow> (pyval \<times> pyval) list \<Rightarrow> exc + (pyval \<times> pyval) list" where
  "dict_pairs i [] d = Inr d"
| "dict_pairs i (v # vs) d =
     (case iter_values v of
        None \<Rightarrow> Inl type_error
      | Some [a, b] \<Rightarrow> if hashable a then dict_pairs (Suc i) vs (put_pair a b d) else Inl type_error
      | Some es \<Rightarrow> Inl (Exc ValueError (''dictionary update sequence element #'' @ show_nat i @ '' has length '' @
             show_nat (length es) @ ''; 2 is required'')))"

definition py_dict :: "pyval \<Rightarrow> exc + (pyval \<times> pyval) list" where
  "py_dict v =
     (case v of
        PDict kvs \<Rightarrow> Inr (map (\<lambda>kv. (PStr (fst kv), snd kv)) kvs)
      | _ \<Rightarrow> (case iter_values v of None \<Rightarrow> Inl type_error | Some vs \<Rightarrow> dict_pairs 0 vs []))"

definition envelope_from_payload :: "pyval dict \<Rightarrow> exc + envelope option" where
  "envelope_from_payload d =
     (if d = [] then Inr None
      else let ex = dget_or d ''extra'' PNone in
        bindR (if truthy ex then py_dict ex else Inr []) (\<lambda>x.
          let e = \<lparr>step_limit = dget_or d ''step_limit'' PNone, size_cap = dget_or d ''size_cap'' PNone,
                   latency_seconds = dget_or d ''latency_seconds'' PNone, child_limit = dget_or d ''child_limit'' PNone,
                   extra = x\<rparr>
          in thenR (validate_envelope e) (Inr (Some e))))"

section \<open>The guard\<close>

record guard =
  g_envelope :: "envelope option"
  g_steps :: nat
  g_children :: nat

definition mk_guard :: "envelope option \<Rightarrow> exc + guard" where
  "mk_guard e =
     thenR (case e of None \<Rightarrow> Inr () | Some v \<Rightarrow> validate_envelope v)
       (Inr \<lparr>g_envelope = e, g_steps = 0, g_children = 0\<rparr>)"

definition payload_byte_length :: "pyval \<Rightarrow> nat" where
  "payload_byte_length v = length (canonic v)"

definition check_directive :: "(pyval \<Rightarrow> bool) \<Rightarrow> string \<Rightarrow> pyval \<Rightarrow> guard \<Rightarrow> string option" where
  "check_directive late kind payload g =
     (case g_envelope g of
        None \<Rightarrow> None
      | Some e \<Rightarrow>
          if latency_seconds e \<noteq> PNone \<and> late (latency_seconds e)
          then Some (''resource envelope: agent latency exceeded '' @ py_str (latency_seconds e) @ ''s bound'')
          else if size_cap e \<noteq> PNone \<and> count_gt (payload_byte_length payload) (size_cap e)
          then Some (''resource envelope: directive payload exceeds '' @ py_str (size_cap e) @ '' byte cap'')
          else if kind \<in> {''run'', ''spawn''} \<and> step_limit e \<noteq> PNone \<and> count_ge (g_steps g) (step_limit e)
          then Some (''resource envelope: step limit '' @ py_str (step_limit e) @ '' exceeded'')
          else if kind = ''spawn'' \<and> child_limit e \<noteq> PNone \<and> count_ge (g_children g) (child_limit e)
          then Some (''resource envelope: child limit '' @ py_str (child_limit e) @ '' exceeded'')
          else None)"

definition record_step :: "bool \<Rightarrow> guard \<Rightarrow> guard" where
  "record_step is_spawn g =
     g\<lparr>g_steps := g_steps g + 1, g_children := (if is_spawn then g_children g + 1 else g_children g)\<rparr>"

section \<open>The guard keeps its bounds\<close>

definition valid_bound :: "pyval \<Rightarrow> bool" where
  "valid_bound v \<longleftrightarrow> v = PNone \<or> (is_number v \<and> \<not> num_negative v)"

lemma validate_bound_Inr: "validate_bound (n, v) = Inr u \<longleftrightarrow> valid_bound v"
  by (auto simp: validate_bound_def valid_bound_def)

lemma validate_envelope_iff:
  "validate_envelope e = Inr u \<longleftrightarrow>
     valid_bound (step_limit e) \<and> valid_bound (size_cap e) \<and> valid_bound (latency_seconds e) \<and> valid_bound (child_limit e)"
  by (simp add: validate_envelope_def bounds_of_def validate_bound_Inr result_simps)

text \<open>\<open>within n v\<close>: the bound \<open>v\<close>, if it is set, was not reached before the last of \<open>n\<close> counts.\<close>

definition within :: "nat \<Rightarrow> pyval \<Rightarrow> bool" where
  "within n v \<longleftrightarrow> v = PNone \<or> (\<forall>m<n. \<not> count_ge m v)"

lemma within_0 [simp]: "within 0 v" by (simp add: within_def)

lemma within_Suc: "within n v \<Longrightarrow> v = PNone \<or> \<not> count_ge n v \<Longrightarrow> within (Suc n) v"
  by (auto simp: within_def less_Suc_eq)

lemma within_PInt: "within n (PInt i) \<longleftrightarrow> n = 0 \<or> int n \<le> i"
  by (cases n) (auto simp: within_def less_Suc_eq_le)

definition guard_ok :: "guard \<Rightarrow> bool" where
  "guard_ok g \<longleftrightarrow>
     (case g_envelope g of None \<Rightarrow> True
      | Some e \<Rightarrow> validate_envelope e = Inr () \<and> within (g_steps g) (step_limit e) \<and> within (g_children g) (child_limit e))"

lemma mk_guard_ok: "mk_guard e = Inr g \<Longrightarrow> guard_ok g"
  by (cases e) (auto simp: mk_guard_def guard_ok_def result_simps)

lemma mk_guard_Inr: "mk_guard e = Inr g \<Longrightarrow> g = \<lparr>g_envelope = e, g_steps = 0, g_children = 0\<rparr>"
  by (cases e) (auto simp: mk_guard_def result_simps)

lemma mk_guard_some:
  assumes "envelope_from_payload d = Inr e"
  shows "mk_guard e = Inr \<lparr>g_envelope = e, g_steps = 0, g_children = 0\<rparr>"
  using assms by (auto simp: mk_guard_def envelope_from_payload_def Let_def result_simps split: if_splits)

lemma record_step_ok:
  assumes "guard_ok g" "check_directive late kind payload g = None"
    and "kind = ''run'' \<and> \<not> sp \<or> kind = ''spawn''"
  shows "guard_ok (record_step sp g)"
  using assms
  by (auto simp: guard_ok_def check_directive_def record_step_def intro!: within_Suc split: option.splits if_splits)

lemma record_step_simps [simp]:
  "g_envelope (record_step sp g) = g_envelope g" "g_steps (record_step sp g) = Suc (g_steps g)"
  "g_children (record_step sp g) = (if sp then Suc (g_children g) else g_children g)"
  by (simp_all add: record_step_def)

text \<open>A bound that is not a number of a decimal is no bound: NaN passes validation and is never reached.\<close>

lemma nan_limit_unbounded: "valid_bound (PFloat ''NaN'')" "within n (PFloat ''NaN'')"
  by (simp_all add: valid_bound_def is_number_def within_def)

end
