(* ===== verification/Registry.thy ===== *)
theory Registry
  imports Py_Effects
begin

text \<open>
  The passive catalogs: \<open>cbp/registry.py\<close> and \<open>cbp/component_catalog.py\<close>. A Python callable is
  known by a name of its own (a text); what it does, where it was defined and what an import
  finds are parameters. Source and kind of an entry may be any value a peer registered.
\<close>

record entry =
  e_name :: string
  e_source_url :: pyval
  e_kind :: pyval
  e_callable :: "string option"
  e_module :: string
  e_qualname :: string

definition mk_entry :: "string \<Rightarrow> pyval \<Rightarrow> pyval \<Rightarrow> string option \<Rightarrow> entry" where
  "mk_entry name url kind fn =
     \<lparr>e_name = name, e_source_url = url, e_kind = kind, e_callable = fn, e_module = [], e_qualname = []\<rparr>"

text \<open>\<open>fn.__module__\<close> and \<open>fn.__qualname__\<close> are given by \<open>module_of\<close> and \<open>qualname_of\<close>, empty
  where the attribute is missing.\<close>

definition from_callable :: "(string \<Rightarrow> string) \<Rightarrow> (string \<Rightarrow> string) \<Rightarrow> string \<Rightarrow> string \<Rightarrow> string \<Rightarrow> entry" where
  "from_callable module_of qualname_of name fn url =
     (let anonymous = (module_of fn = ''__main__'' \<or> module_of fn = []) in
      \<lparr>e_name = name, e_source_url = PStr url, e_kind = PStr ''python'', e_callable = Some fn,
       e_module = (if anonymous then [] else module_of fn),
       e_qualname = (if anonymous then [] else qualname_of fn)\<rparr>)"

type_synonym registry = "entry dict"

definition register :: "string \<Rightarrow> string \<Rightarrow> registry \<Rightarrow> registry" where
  "register name fn r = dput name (mk_entry name (PStr []) (PStr ''python'') (Some fn)) r"

definition register_entry :: "entry \<Rightarrow> registry \<Rightarrow> registry" where
  "register_entry e r = dput (e_name e) e r"

definition find_entry :: "registry \<Rightarrow> string \<Rightarrow> entry option" where
  "find_entry r name = dget r name"

definition find_source :: "registry \<Rightarrow> string \<Rightarrow> pyval option" where
  "find_source r name = map_option e_source_url (dget r name)"

definition names :: "registry \<Rightarrow> string list" where
  "names r = sort (dkeys r)"

text \<open>\<open>resolve\<close> is called with any value as name: only a text can be found, a list or a
  mapping cannot be hashed.\<close>

definition resolve_name :: "registry \<Rightarrow> pyval \<Rightarrow> exc + string option" where
  "resolve_name r name = bindR (lookup r name) (\<lambda>e. Inr (case e of None \<Rightarrow> None | Some x \<Rightarrow> e_callable x))"

text \<open>\<open>import_at module path\<close>: the callable that an import of the module and its attributes give.\<close>

definition callable_from_source :: "(string \<Rightarrow> string list \<Rightarrow> string option) \<Rightarrow> registry \<Rightarrow> string \<Rightarrow> string option" where
  "callable_from_source import_at r name =
     (case dget r name of
        None \<Rightarrow> None
      | Some e \<Rightarrow>
          (case e_callable e of
             Some fn \<Rightarrow> Some fn
           | None \<Rightarrow> if e_module e = [] \<or> e_qualname e = [] then None
               else import_at (e_module e) (split_on (CHR ''.'') (e_qualname e))))"

section \<open>The catalog a parent provides\<close>

type_synonym catalog = registry

definition catalog_register ::
  "(string \<Rightarrow> string) \<Rightarrow> (string \<Rightarrow> string) \<Rightarrow> string \<Rightarrow> string \<Rightarrow> string \<Rightarrow> catalog \<Rightarrow> catalog" where
  "catalog_register module_of qualname_of name fn url c =
     register_entry (from_callable module_of qualname_of name fn url) c"

definition entries :: "catalog \<Rightarrow> entry list" where
  "entries c = List.map_filter (find_entry c) (names c)"

definition from_entries :: "entry dict \<Rightarrow> catalog" where
  "from_entries d = foldl (\<lambda>c name. case dget d name of Some e \<Rightarrow> register_entry e c | None \<Rightarrow> c) [] (sort (dkeys d))"

definition catalog_payload :: "catalog \<Rightarrow> pyval" where
  "catalog_payload c = PDict [(''catalog'', PList (map (\<lambda>name.
     (let e = find_entry c name in PDict
       [(''name'', PStr name), (''source_url'', case e of Some x \<Rightarrow> e_source_url x | None \<Rightarrow> PStr []),
        (''kind'', case e of Some x \<Rightarrow> e_kind x | None \<Rightarrow> PStr ''python'')])) (names c)))]"

section \<open>Facts\<close>

lemma find_register_entry: "find_entry (register_entry e r) n = (if n = e_name e then Some e else find_entry r n)"
  by (simp add: find_entry_def register_entry_def dict_simps)

lemma wf_register_entry: "wf_dict r \<Longrightarrow> wf_dict (register_entry e r)"
  by (simp add: register_entry_def dict_simps)

lemma resolve_name_PStr [simp]:
  "resolve_name r (PStr n) = Inr (case dget r n of None \<Rightarrow> None | Some e \<Rightarrow> e_callable e)"
  by (simp add: resolve_name_def)

lemma resolve_name_hashable: "hashable v \<Longrightarrow> \<exists>x. resolve_name r v = Inr x"
  using lookup_hashable [of v r] by (auto simp: resolve_name_def)

text \<open>The names of a catalog determine the order of everything that is derived from it.\<close>

lemma catalog_payload_cong:
  assumes "wf_dict c" "wf_dict c'" "\<And>n. find_entry c n = find_entry c' n"
  shows "catalog_payload c = catalog_payload c'" "entries c = entries c'"
proof -
  have "fst ` set c = fst ` set c'"
    using assms(3) by (auto simp: find_entry_def) (metis dget_None_iff fst_conv image_eqI option.distinct(1))+
  then have "names c = names c'"
    using assms(1,2) unfolding names_def dkeys_def wf_dict_def
    by (intro sorted_distinct_set_unique) simp_all
  moreover have "find_entry c = find_entry c'" using assms(3) by auto
  ultimately show "catalog_payload c = catalog_payload c'" "entries c = entries c'"
    by (simp_all add: catalog_payload_def entries_def)
qed

end
