(* ===== verification/Write_Once.thy ===== *)
theory Write_Once
  imports Prelude
begin

text \<open>
  The contract of the write-once stores (audit trails, record logs, ledgers): a key that is bound
  stays bound to its first value. A client knows the store through \<open>look\<close> and \<open>put\<close> only.
\<close>

locale write_once =
  fixes look :: "'s \<Rightarrow> 'k \<Rightarrow> 'v option"
    and put :: "'k \<Rightarrow> 'v \<Rightarrow> 's \<Rightarrow> 's"
    and inv :: "'s \<Rightarrow> bool"
  assumes look_new: "inv s \<Longrightarrow> look s k = None \<Longrightarrow> look (put k v s) k' = (if k' = k then Some v else look s k')"
    and look_old: "inv s \<Longrightarrow> look s k \<noteq> None \<Longrightarrow> put k v s = s"
    and put_inv: "inv s \<Longrightarrow> inv (put k v s)"
begin

lemma put_keeps: "inv s \<Longrightarrow> look s k = Some v \<Longrightarrow> look (put k' v' s) k = Some v"
  by (cases "look s k'") (auto simp: look_new look_old)

definition puts :: "('k \<times> 'v) list \<Rightarrow> 's \<Rightarrow> 's" where
  "puts kvs s = fold (\<lambda>kv. put (fst kv) (snd kv)) kvs s"

lemma puts_inv: "inv s \<Longrightarrow> inv (puts kvs s)"
  unfolding puts_def by (induction kvs arbitrary: s) (simp_all add: put_inv)

text \<open>After any writes a key has the value it had, or else the first one written.\<close>

lemma look_puts:
  "inv s \<Longrightarrow> look (puts kvs s) k = (case look s k of Some v \<Rightarrow> Some v | None \<Rightarrow> map_of kvs k)"
proof (induction kvs arbitrary: s)
  case Nil
  then show ?case by (simp add: puts_def split: option.splits)
next
  case (Cons kv kvs)
  have step: "look (puts (kv # kvs) s) k = (case look (put (fst kv) (snd kv) s) k of Some v \<Rightarrow> Some v | None \<Rightarrow> map_of kvs k)"
    using Cons.IH [OF put_inv [OF Cons.prems]] by (simp add: puts_def)
  have at: "map_of (kv # kvs) k = (if k = fst kv then Some (snd kv) else map_of kvs k)" by (cases kv) simp
  show ?case
  proof (cases "look s (fst kv)")
    case None
    then show ?thesis unfolding step at using look_new [OF Cons.prems None] by (auto split: option.splits)
  next
    case (Some w)
    then have "put (fst kv) (snd kv) s = s" using look_old [OF Cons.prems] by simp
    then show ?thesis unfolding step at using Some by (auto split: option.splits)
  qed
qed

lemma puts_keep: "inv s \<Longrightarrow> look s k = Some v \<Longrightarrow> look (puts kvs s) k = Some v"
  by (simp add: look_puts)

lemma put_idem: "inv s \<Longrightarrow> put k v (put k v s) = put k v s"
  by (cases "look s k") (simp_all add: look_new look_old put_inv)

end

text \<open>A dictionary written only at fresh keys is such a store.\<close>

definition put_fresh :: "string \<Rightarrow> 'v \<Rightarrow> 'v dict \<Rightarrow> 'v dict" where
  "put_fresh k v d = (if dget d k = None then dput k v d else d)"

interpretation fresh: write_once dget put_fresh wf_dict
  by unfold_locales (auto simp: put_fresh_def dict_simps)

end
