(* ===== verification/Agent_Store.thy ===== *)
theory Agent_Store
  imports Py_Effects Write_Once
begin

text \<open>
  The durable stores of an agent (\<open>cbp/store.py\<close>): key/value state and the append-only
  trajectory. A database file is its two tables, each absent until created; the disk maps paths
  to files. Parameters: \<open>openable\<close> (the exception with which creating the directories or
  connecting fails, if it does) and \<open>real_text\<close> (the text SQLite stores for a real number in
  a text column). Values are stored as the text of their JSON.
\<close>

section \<open>Files\<close>

type_synonym state_table = "(string \<times> string) dict"

record event =
  ev_kind :: string
  ev_node :: string
  ev_verified :: bool
  ev_value :: "string option"
  ev_error :: pyval
  ev_source :: pyval
  ev_sources :: "string option"
  ev_fingerprint :: string
  ev_parent :: string

record db =
  state_tab :: "state_table option"
  events_tab :: "event dict option"

type_synonym disk = "db dict"

definition empty_db :: db where
  "empty_db = \<lparr>state_tab = None, events_tab = None\<rparr>"

definition file_at :: "disk \<Rightarrow> string \<Rightarrow> db" where
  "file_at dk path = (case dget dk path of None \<Rightarrow> empty_db | Some f \<Rightarrow> f)"

record store =
  st_path :: string
  st_open :: bool
  st_read_only :: bool

definition mk_store :: "string \<Rightarrow> store" where
  "mk_store path = \<lparr>st_path = path, st_open = False, st_read_only = False\<rparr>"

section \<open>Opening and closing\<close>

definition create_state :: "db \<Rightarrow> db" where
  "create_state f = (if state_tab f = None then f\<lparr>state_tab := Some []\<rparr> else f)"

definition create_events :: "db \<Rightarrow> db" where
  "create_events f = (if events_tab f = None then f\<lparr>events_tab := Some []\<rparr> else f)"

definition open_base ::
  "(string \<Rightarrow> exc option) \<Rightarrow> (db \<Rightarrow> db) \<Rightarrow> bool \<Rightarrow> store \<Rightarrow> disk \<Rightarrow> (exc + store) \<times> disk" where
  "open_base openable schema read_only s dk =
     (if read_only
      then (if dget dk (st_path s) = None
            then (Inl (Exc StoreError (''read-only store '' @ st_path s @ '' does not exist'')), dk)
            else (Inr (s\<lparr>st_open := True\<rparr>), dk))
      else (case openable (st_path s) of
              Some e \<Rightarrow> (Inl e, dk)
            | None \<Rightarrow> (Inr (s\<lparr>st_open := True\<rparr>), dput (st_path s) (schema (file_at dk (st_path s))) dk)))"

definition open_state :: "(string \<Rightarrow> exc option) \<Rightarrow> string \<Rightarrow> bool \<Rightarrow> disk \<Rightarrow> (exc + store) \<times> disk" where
  "open_state openable path read_only dk =
     open_base openable create_state read_only ((mk_store path)\<lparr>st_read_only := read_only\<rparr>) dk"

definition open_trajectory :: "(string \<Rightarrow> exc option) \<Rightarrow> string \<Rightarrow> disk \<Rightarrow> (exc + store) \<times> disk" where
  "open_trajectory openable path dk = open_base openable create_events False (mk_store path) dk"

definition close_store :: "store \<Rightarrow> store" where
  "close_store s = s\<lparr>st_open := False\<rparr>"

definition require :: "store \<Rightarrow> exc + unit" where
  "require s = rejectR (\<not> st_open s) (Exc StoreError ''store is not open'')"

definition no_table :: "string \<Rightarrow> exc" where
  "no_table t = Exc SqliteError (''no such table: '' @ t)"

definition state_rows :: "store \<Rightarrow> disk \<Rightarrow> exc + state_table" where
  "state_rows s dk = (case state_tab (file_at dk (st_path s)) of None \<Rightarrow> Inl (no_table ''state'') | Some t \<Rightarrow> Inr t)"

definition event_rows :: "store \<Rightarrow> disk \<Rightarrow> exc + event dict" where
  "event_rows s dk = (case events_tab (file_at dk (st_path s)) of None \<Rightarrow> Inl (no_table ''events'') | Some t \<Rightarrow> Inr t)"

section \<open>State\<close>

text \<open>One write: insert a new row, update a row of another fingerprint, or leave it.\<close>

definition upsert :: "string \<Rightarrow> string \<Rightarrow> string \<Rightarrow> state_table \<Rightarrow> state_table" where
  "upsert key encoded fp t =
     (case dget t key of
        None \<Rightarrow> dput key (encoded, fp) t
      | Some row \<Rightarrow> if snd row \<noteq> fp then dput key (encoded, fp) t else t)"

definition state_set :: "store \<Rightarrow> string \<Rightarrow> pyval \<Rightarrow> string \<Rightarrow> disk \<Rightarrow> (exc + unit) \<times> disk" where
  "state_set s key v fp dk =
     (if st_read_only s then (Inl (Exc StoreError ''state store is read-only (cannot write)''), dk)
      else (case thenR (require s) (state_rows s dk) of
              Inl e \<Rightarrow> (Inl e, dk)
            | Inr t \<Rightarrow> (Inr (), dput (st_path s) ((file_at dk (st_path s))\<lparr>state_tab := Some (upsert key (canonic v) fp t)\<rparr>) dk)))"

definition loads :: "string \<Rightarrow> exc + pyval" where
  "loads s = (case json_loads s of None \<Rightarrow> Inl (Exc JSONDecodeError []) | Some v \<Rightarrow> Inr v)"

definition state_get :: "store \<Rightarrow> string \<Rightarrow> disk \<Rightarrow> exc + pyval" where
  "state_get s key dk =
     thenR (require s) (bindR (state_rows s dk) (\<lambda>t.
       case dget t key of None \<Rightarrow> Inr PNone | Some row \<Rightarrow> loads (fst row)))"

definition state_keys :: "store \<Rightarrow> disk \<Rightarrow> exc + string list" where
  "state_keys s dk = thenR (require s) (bindR (state_rows s dk) (\<lambda>t. Inr (sort (dkeys t))))"

definition state_count :: "store \<Rightarrow> disk \<Rightarrow> exc + nat" where
  "state_count s dk = thenR (require s) (bindR (state_rows s dk) (\<lambda>t. Inr (length t)))"

section \<open>Trajectory\<close>

text \<open>What SQLite binds, and what a text column makes of it: booleans and integers as their
  digits, NaN as NULL.\<close>

definition bind_ok :: "pyval \<Rightarrow> exc + unit" where
  "bind_ok v =
     (case v of
        PInt i \<Rightarrow> rejectR (\<not> (- (2 ^ 63) \<le> i \<and> i < 2 ^ 63)) (Exc OverflowError ''Python int too large to convert to SQLite INTEGER'')
      | PList _ \<Rightarrow> Inl (Exc SqliteError []) | PDict _ \<Rightarrow> Inl (Exc SqliteError []) | _ \<Rightarrow> Inr ())"

definition column_text :: "(string \<Rightarrow> string) \<Rightarrow> pyval \<Rightarrow> pyval" where
  "column_text real_text v =
     (case v of PBool b \<Rightarrow> PStr (if b then ''1'' else ''0'') | PInt i \<Rightarrow> PStr (show_int i)
      | PFloat t \<Rightarrow> if t = ''NaN'' then PNone else PStr (real_text t) | _ \<Rightarrow> v)"

record audit_event =
  ae_cid :: string
  ae_kind :: string
  ae_node :: string
  ae_verified :: pyval
  ae_value :: pyval
  ae_error :: pyval
  ae_source :: pyval
  ae_sources :: pyval
  ae_fingerprint :: string
  ae_parent :: string

definition opt_canonic :: "pyval \<Rightarrow> string option" where
  "opt_canonic v = (if v = PNone then None else Some (canonic v))"

definition event_of :: "(string \<Rightarrow> string) \<Rightarrow> audit_event \<Rightarrow> event" where
  "event_of real_text a =
     \<lparr>ev_kind = ae_kind a, ev_node = ae_node a, ev_verified = truthy (ae_verified a),
      ev_value = opt_canonic (ae_value a), ev_error = column_text real_text (ae_error a),
      ev_source = column_text real_text (ae_source a), ev_sources = opt_canonic (ae_sources a),
      ev_fingerprint = ae_fingerprint a, ev_parent = ae_parent a\<rparr>"

definition bind_event :: "(string \<Rightarrow> string) \<Rightarrow> audit_event \<Rightarrow> exc + event" where
  "bind_event real_text a =
     thenR (bind_ok (ae_error a))
    (thenR (bind_ok (ae_source a))
    (thenR (rejectR (ev_source (event_of real_text a) = PNone) (Exc SqliteError ''NOT NULL constraint failed: events.source''))
           (Inr (event_of real_text a))))"

definition record_event ::
  "(string \<Rightarrow> string) \<Rightarrow> store \<Rightarrow> audit_event \<Rightarrow> disk \<Rightarrow> (exc + unit) \<times> disk" where
  "record_event real_text s a dk =
     (case thenR (require s) (event_rows s dk) of
        Inl e \<Rightarrow> (Inl e, dk)
      | Inr t \<Rightarrow>
          if dget t (ae_cid a) \<noteq> None
          then (Inl (Exc StoreError (''correlation id '' @ repr_str (ae_cid a) @ '' already recorded (trajectory is write-once)'')), dk)
          else (case bind_event real_text a of
                  Inl e \<Rightarrow> (Inl e, dk)
                | Inr ev \<Rightarrow> (Inr (), dput (st_path s) ((file_at dk (st_path s))\<lparr>events_tab := Some (dput (ae_cid a) ev t)\<rparr>) dk)))"

definition opt_loads :: "string option \<Rightarrow> exc + pyval" where
  "opt_loads s = (case s of None \<Rightarrow> Inr PNone | Some t \<Rightarrow> loads t)"

definition event_to_dict :: "string \<Rightarrow> event \<Rightarrow> exc + pyval" where
  "event_to_dict cid ev =
     bindR (opt_loads (ev_value ev)) (\<lambda>v.
     bindR (opt_loads (ev_sources ev)) (\<lambda>srcs.
       Inr (PDict [(''correlation_id'', PStr cid), (''kind'', PStr (ev_kind ev)), (''node'', PStr (ev_node ev)),
          (''verified'', PBool (ev_verified ev)), (''value'', v), (''error'', ev_error ev), (''source'', ev_source ev),
          (''sources'', srcs), (''fingerprint'', PStr (ev_fingerprint ev)), (''parent'', PStr (ev_parent ev))])))"

definition all_events :: "store \<Rightarrow> disk \<Rightarrow> exc + pyval list" where
  "all_events s dk =
     thenR (require s) (bindR (event_rows s dk) (\<lambda>t.
       mapR (\<lambda>kv. event_to_dict (fst kv) (snd kv)) (sort_key fst t)))"

definition event_count :: "store \<Rightarrow> disk \<Rightarrow> exc + nat" where
  "event_count s dk = thenR (require s) (bindR (event_rows s dk) (\<lambda>t. Inr (length t)))"

section \<open>Facts about files\<close>

lemma file_at_dput [simp]: "file_at (dput p f dk) q = (if q = p then f else file_at dk q)"
  by (simp add: file_at_def dict_simps)

lemma state_tab_create [simp]: "state_tab (create_state f) \<noteq> None" "events_tab (create_state f) = events_tab f"
  by (auto simp: create_state_def)

lemma events_tab_create [simp]: "events_tab (create_events f) \<noteq> None" "state_tab (create_events f) = state_tab f"
  by (auto simp: create_events_def)

lemma loads_canonic [simp]: "wf_pyval v \<Longrightarrow> loads (canonic v) = Inr (json_norm v)"
  by (simp add: loads_def canonic_loads)

lemma dget_upsert:
  "dget (upsert key enc fp t) k =
     (if k = key then (case dget t key of Some row \<Rightarrow> if snd row = fp then Some row else Some (enc, fp)
                       | None \<Rightarrow> Some (enc, fp))
      else dget t k)"
  by (auto simp: upsert_def dict_simps split: option.splits)

text \<open>A write is read back as its JSON value; writing a directive again changes nothing.\<close>

lemma state_set_get:
  assumes "state_set s key v fp dk = (Inr (), dk')" "wf_pyval v"
    and "\<And>t row. state_rows s dk = Inr t \<Longrightarrow> dget t key = Some row \<Longrightarrow> snd row \<noteq> fp"
  shows "state_get s key dk' = Inr (json_norm v)"
proof -
  obtain t where t: "require s = Inr ()" "state_rows s dk = Inr t"
    and dk': "dk' = dput (st_path s) ((file_at dk (st_path s))\<lparr>state_tab := Some (upsert key (canonic v) fp t)\<rparr>) dk"
    using assms(1) by (auto simp: state_set_def result_simps split: if_splits sum.splits)
  have "dget (upsert key (canonic v) fp t) key = Some (canonic v, fp)"
    using assms(3) [OF t(2)] by (auto simp: dget_upsert split: option.splits)
  moreover have "state_rows s dk' = Inr (upsert key (canonic v) fp t)"
    by (simp add: dk' state_rows_def)
  ultimately show ?thesis using t(1) assms(2) by (simp add: state_get_def)
qed

lemma upsert_replay: "upsert key enc fp (upsert key enc fp t) = upsert key enc fp t"
  by (simp add: upsert_def dict_simps split: option.splits)

text \<open>Only the last fingerprint of a key is remembered: a replay of an older write after a newer
  one puts the older value back.\<close>

lemma upsert_older_replay:
  assumes "f1 \<noteq> f2" and "\<And>row. dget t key = Some row \<Longrightarrow> snd row \<noteq> f1"
  shows "dget (upsert key e1 f1 (upsert key e2 f2 (upsert key e1 f1 t))) key = Some (e1, f1)"
  using assms by (auto simp: dget_upsert split: option.splits)

text \<open>A stored null cannot be told from an absent key.\<close>

lemma null_reads_absent:
  assumes "state_set s key PNone fp dk = (Inr (), dk')"
    and "\<And>t row. state_rows s dk = Inr t \<Longrightarrow> dget t key = Some row \<Longrightarrow> snd row \<noteq> fp"
  shows "state_get s key dk' = Inr PNone"
  using state_set_get [OF assms(1)] assms(2) by simp

section \<open>The trajectory is write-once\<close>

text \<open>Recording an event is such a write, or it leaves the disk alone.\<close>

lemma record_event_cases:
  obtains (stored) t ev where "event_rows s dk = Inr t" "dget t (ae_cid a) = None" "bind_event rt a = Inr ev"
      "record_event rt s a dk =
         (Inr (), dput (st_path s) ((file_at dk (st_path s))\<lparr>events_tab := Some (put_fresh (ae_cid a) ev t)\<rparr>) dk)"
  | (refused) e where "record_event rt s a dk = (Inl e, dk)"
proof (cases "thenR (require s) (event_rows s dk)")
  case (Inl e)
  then show thesis using refused by (simp add: record_event_def)
next
  case (Inr t)
  then have t: "event_rows s dk = Inr t" by (simp add: result_simps)
  show thesis
  proof (cases "dget t (ae_cid a) = None")
    case True
    show thesis
    proof (cases "bind_event rt a")
      case (Inl e)
      then show thesis using refused [of e] Inr True by (simp add: record_event_def)
    next
      case (Inr ev)
      then show thesis
        using stored [OF t True Inr] \<open>thenR (require s) (event_rows s dk) = Inr t\<close> True
        by (simp add: record_event_def put_fresh_def)
    qed
  next
    case False
    then show thesis using refused Inr by (auto simp: record_event_def)
  qed
qed

lemma record_event_keeps:
  assumes "events_tab (file_at dk p) = Some t" "dget t cid = Some ev" "wf_dict t"
  shows "\<exists>t'. events_tab (file_at (snd (record_event rt s a dk)) p) = Some t' \<and> dget t' cid = Some ev \<and> wf_dict t'"
proof (cases rule: record_event_cases [of s dk a rt])
  case (stored t' ev')
  show ?thesis
  proof (cases "p = st_path s")
    case True
    then have "t' = t" using stored(1) assms(1) by (simp add: event_rows_def)
    then show ?thesis using stored(4) True assms fresh.put_keeps [OF assms(3,2)] fresh.put_inv [OF assms(3)] by simp
  next
    case False
    then show ?thesis using stored(4) assms by simp
  qed
next
  case (refused e)
  then show ?thesis using assms by simp
qed

end
