(* ===== verification/Agent_State.thy ===== *)
theory Agent_State
  imports Transport Envelope Registry Agent_Store
begin

text \<open>
  The agent of the protocol tree (\<open>cbp/agent.py\<close>): a worker to its parent and a manager to its
  children. Every method is a function from the state of the agent to the outcome of the call,
  a value or an exception, and the state it leaves, also when it raises. A message is the list
  of its frames, byte strings; what an agent sends is appended to the logs \<open>ag_outbox\<close> (to the
  parent) and \<open>ag_child_out\<close> (to a child). \<open>ag_bound\<close> lists the endpoints
  that were bound for children, \<open>ag_calls\<close> the fingerprints of the run directives whose task was
  called, and \<open>ag_granted\<close> and \<open>ag_granted_bound\<close> say how many of these calls and of these binds
  precede the current envelope; the code has no such fields, and nothing reads them.

  The environment of a poll is a parameter: what the registered callables do, the keyed
  digest, the clock, ZeroMQ, the file system and the texts of decoding errors.
\<close>

section \<open>Environment, configuration, state\<close>

record env =
  w_task :: "string \<Rightarrow> pyval dict \<Rightarrow> string + pyval"
  w_bad_call :: "string \<Rightarrow> pyval \<Rightarrow> string"
  w_verifier :: "string \<Rightarrow> pyval \<Rightarrow> exc + bool"
  w_hmac :: mac
  w_late :: "pyval \<Rightarrow> bool"
  w_decode_error :: "string \<Rightarrow> string"
  w_json_error :: "string \<Rightarrow> string"
  w_openable :: "string \<Rightarrow> exc option"
  w_real_text :: "string \<Rightarrow> string"
  w_bind :: "string \<Rightarrow> exc option"
  w_connect :: "string \<Rightarrow> string \<Rightarrow> exc option"
  w_exists :: "string \<Rightarrow> bool"
  w_chmod :: "string \<Rightarrow> string option"

record config =
  cf_identity :: string
  cf_parent_endpoint :: string
  cf_transport :: string
  cf_shared_context :: bool
  cf_security :: string
  cf_secret :: "string option"
  cf_catalog :: "catalog option"

type_synonym frames = "string list"
type_synonym fingerprint = "string \<times> string \<times> string"

record agent =
  ag_config :: config
  ag_context :: bool
  ag_parent :: bool
  ag_children :: "string dict"
  ag_child_agents :: "config dict"
  ag_registry :: registry
  ag_child_kinds :: "string dict"
  ag_rules :: "pyval list"
  ag_verifier :: "string option"
  ag_guard :: "guard option"
  ag_alive :: bool
  ag_results :: "(fingerprint \<times> response) list"
  ag_used_keys :: "(string \<times> string) list"
  ag_delegated :: "string dict"
  ag_state_path :: "string option"
  ag_trajectory_path :: "string option"
  ag_state_store :: "store option"
  ag_trajectory_store :: "store option"
  ag_disk :: disk
  ag_outbox :: "frames list"
  ag_child_out :: "(string \<times> frames) list"
  ag_bound :: "string list"
  ag_calls :: "fingerprint list"
  ag_granted :: nat
  ag_granted_bound :: nat

type_synonym 'a act = "agent \<Rightarrow> (exc + 'a) \<times> agent"

abbreviation identity :: "agent \<Rightarrow> string" where
  "identity a \<equiv> cf_identity (ag_config a)"

definition retA :: "'a \<Rightarrow> 'a act" where
  "retA x a = (Inr x, a)"

definition bindA :: "'a act \<Rightarrow> ('a \<Rightarrow> 'b act) \<Rightarrow> 'b act" where
  "bindA m f a = (case m a of (Inl e, a') \<Rightarrow> (Inl e, a') | (Inr x, a') \<Rightarrow> f x a')"

definition thenA :: "unit act \<Rightarrow> 'b act \<Rightarrow> 'b act" where
  "thenA m n = bindA m (\<lambda>_. n)"

fun iterA :: "('a \<Rightarrow> unit act) \<Rightarrow> 'a list \<Rightarrow> unit act" where
  "iterA f [] a = (Inr (), a)"
| "iterA f (x # xs) a = thenA (f x) (iterA f xs) a"

definition initial_agent :: "config \<Rightarrow> disk \<Rightarrow> agent" where
  "initial_agent c dk =
     \<lparr>ag_config = c, ag_context = False, ag_parent = False, ag_children = [], ag_child_agents = [], ag_registry = [],
      ag_child_kinds = [], ag_rules = [], ag_verifier = None, ag_guard = None, ag_alive = False, ag_results = [],
      ag_used_keys = [], ag_delegated = [], ag_state_path = None, ag_trajectory_path = None, ag_state_store = None,
      ag_trajectory_store = None, ag_disk = dk, ag_outbox = [], ag_child_out = [], ag_bound = [], ag_calls = [], ag_granted = 0,
      ag_granted_bound = 0\<rparr>"

section \<open>Endpoints, bootstrap and teardown\<close>

definition endpoint :: "config \<Rightarrow> string \<Rightarrow> string" where
  "endpoint c ep = (if contains ep ''://'' then ep else cf_transport c @ ''://'' @ ep)"

definition tcp_port_for :: "string \<Rightarrow> nat" where
  "tcp_port_for ident = 5800 + sum_list (map code ident) mod 800"

definition child_endpoint :: "config \<Rightarrow> string \<Rightarrow> string" where
  "child_endpoint c ident =
     (if cf_transport c = ''tcp'' then ''tcp://127.0.0.1:'' @ show_nat (tcp_port_for ident)
      else cf_transport c @ ''://'' @ ident)"

definition declare_child_kind :: "string \<Rightarrow> string \<Rightarrow> unit act" where
  "declare_child_kind kind cls a =
     (if kind = [] then (Inl (Exc ValueError ''child kind must be non-empty''), a)
      else (Inr (), a\<lparr>ag_child_kinds := dput kind cls (ag_child_kinds a)\<rparr>))"

text \<open>\<open>init\<close>: the connection is made last; a failure leaves the agent without life.\<close>

definition init :: "env \<Rightarrow> unit act" where
  "init w a =
     (let a' = a\<lparr>ag_context := True, ag_parent := True\<rparr> in
      case w_connect w (identity a) (endpoint (ag_config a) (cf_parent_endpoint (ag_config a))) of
        Some e \<Rightarrow> (Inl e, a') | None \<Rightarrow> (Inr (), a'\<lparr>ag_alive := True\<rparr>))"

definition kill :: "agent \<Rightarrow> agent" where
  "kill a = a\<lparr>ag_alive := False, ag_child_agents := [], ag_children := [], ag_state_store := None,
     ag_trajectory_store := None, ag_parent := False, ag_context := (ag_context a \<and> cf_shared_context (ag_config a))\<rparr>"

section \<open>The wire\<close>

definition response_payload :: "response \<Rightarrow> pyval dict" where
  "response_payload m =
     [(''value'', r_value m), (''verified'', r_verified m), (''node'', r_node m), (''error'', r_error m),
      (''source'', r_source m), (''sources'', r_sources m), (''protocol'', PStr (r_protocol m)),
      (''confidence'', r_confidence m), (''model_record'', r_model_record m)]"

definition response_frames :: "mac \<Rightarrow> string option \<Rightarrow> response \<Rightarrow> frames" where
  "response_frames hmac secret m =
     [utf8 (r_cid m), utf8 ''response'', utf8 (r_kind m),
      utf8 (json_dumps (PDict (attach_integrity hmac secret (r_cid m) (r_kind m) (response_payload m))))]"

definition not_initialised :: "agent \<Rightarrow> exc" where
  "not_initialised a = Exc RuntimeError (''Agent '' @ repr_str (identity a) @ '' is not initialised.'')"

definition send :: "env \<Rightarrow> response \<Rightarrow> unit act" where
  "send w m a =
     (if \<not> ag_parent a then (Inl (not_initialised a), a)
      else case validate_response m of
             Inl e \<Rightarrow> (Inl e, a)
           | Inr _ \<Rightarrow> (Inr (), a\<lparr>ag_outbox := ag_outbox a @ [response_frames (w_hmac w) (cf_secret (ag_config a)) m]\<rparr>))"

definition ack_frames :: "ack \<Rightarrow> frames" where
  "ack_frames k = [utf8 (a_cid k), utf8 ''ack'', []]"

definition send_ack :: "string \<Rightarrow> unit act" where
  "send_ack cid a =
     (if \<not> ag_parent a then (Inl (not_initialised a), a)
      else let k = \<lparr>a_cid = cid, a_node = identity a, a_protocol = PROTOCOL_VERSION\<rparr> in
           case validate_ack k of
             Inl e \<Rightarrow> (Inl e, a)
           | Inr _ \<Rightarrow> (Inr (), a\<lparr>ag_outbox := ag_outbox a @ [ack_frames k]\<rparr>))"

definition decode :: "env \<Rightarrow> string \<Rightarrow> exc + string" where
  "decode w b = (case utf8_decode b of None \<Rightarrow> Inl (Exc UnicodeDecodeError (w_decode_error w b)) | Some s \<Rightarrow> Inr s)"

definition parse :: "env \<Rightarrow> string \<Rightarrow> exc + pyval" where
  "parse w s = (case json_loads s of None \<Rightarrow> Inl (Exc JSONDecodeError (w_json_error w s)) | Some v \<Rightarrow> Inr v)"

definition recv :: "env \<Rightarrow> config \<Rightarrow> frames \<Rightarrow> exc + directive" where
  "recv w c fs =
     (case fs of
        [f0, f1, f2, f3] \<Rightarrow>
          bindR (decode w f0) (\<lambda>cid.
          bindR (decode w f1) (\<lambda>message_kind.
          bindR (decode w f2) (\<lambda>kind.
          bindR (bindR (decode w f3) (parse w)) (\<lambda>payload.
          thenR (protocol_reject (message_kind \<noteq> ''directive'')
                   (''expected a directive, got message kind '' @ repr_str message_kind))
          (bindR (verify_and_strip (w_hmac w) (cf_secret c) cid kind payload) (\<lambda>(clean, ok).
           thenR (protocol_reject (\<not> ok) (''directive '' @ repr_str cid @ '' failed traffic-integrity verification''))
             (let d = \<lparr>d_cid = cid, d_kind = kind, d_payload = clean, d_protocol = PROTOCOL_VERSION\<rparr>
              in thenR (validate_directive d) (Inr d))))))))
      | _ \<Rightarrow> Inl (Exc ProtocolError (''malformed directive: '' @ show_nat (length fs) @ '' frames'')))"

section \<open>Responses of the agent itself\<close>

definition error_response :: "agent \<Rightarrow> string \<Rightarrow> string \<Rightarrow> response" where
  "error_response a cid text = (mk_response cid ''error'' False (identity a))\<lparr>r_error := PStr text\<rparr>"

definition ok_response :: "agent \<Rightarrow> directive \<Rightarrow> response" where
  "ok_response a d = mk_response (d_cid d) ''ok'' True (identity a)"

definition fail :: "directive \<Rightarrow> string \<Rightarrow> response act" where
  "fail d text a = (Inr (error_response a (d_cid d) text), a)"

definition ok :: "directive \<Rightarrow> response act" where
  "ok d a = (Inr (ok_response a d), a)"

definition fingerprint :: "directive \<Rightarrow> fingerprint" where
  "fingerprint d = (d_cid d, d_kind d, canonic (d_payload d))"

definition fingerprint_text :: "directive \<Rightarrow> string" where
  "fingerprint_text d = d_cid d @ ''|'' @ d_kind d @ ''|'' @ canonic (d_payload d)"

end
