(* ===== verification/Agent_Handlers.thy ===== *)
theory Agent_Handlers
  imports Agent_State
begin

text \<open>
  The handlers of an agent (\<open>cbp/agent.py\<close>): what it does for each kind of directive that it
  does not delegate, in the order of the code's tests.
\<close>

section \<open>configure\<close>

definition catalog_entry :: "agent \<Rightarrow> pyval \<Rightarrow> exc + entry" where
  "catalog_entry a name =
     (case cf_catalog (ag_config a) of
        None \<Rightarrow> Inl (key_error name)
      | Some c \<Rightarrow> bindR (lookup c name) (\<lambda>e. case e of None \<Rightarrow> Inl (key_error name) | Some x \<Rightarrow> Inr x))"

definition set_rules :: "pyval dict \<Rightarrow> unit act" where
  "set_rules p a =
     (case py_tuple (dget_or p ''rules'' (PList [])) of
        Inl e \<Rightarrow> (Inl e, a) | Inr rs \<Rightarrow> (Inr (), a\<lparr>ag_rules := rs\<rparr>))"

definition grant_envelope :: "pyval dict \<Rightarrow> unit act" where
  "grant_envelope p a =
     (case dget_or p ''_envelope'' PNone of
        PDict e \<Rightarrow>
          (case bindR (envelope_from_payload e) mk_guard of
             Inl x \<Rightarrow> (Inl x, a)
           | Inr g \<Rightarrow> (Inr (), a\<lparr>ag_guard := Some g, ag_granted := length (ag_calls a), ag_granted_bound := length (ag_bound a)\<rparr>))
      | _ \<Rightarrow> (Inr (), a))"

definition set_verifier :: "pyval dict \<Rightarrow> unit act" where
  "set_verifier p a =
     (if truthy (dget_or p ''_clear_verifier'' PNone) then (Inr (), a\<lparr>ag_verifier := None\<rparr>)
      else case dget_or p ''verifier'' PNone of
             PStr v \<Rightarrow> (Inr (), a\<lparr>ag_verifier := Some v\<rparr>) | _ \<Rightarrow> (Inr (), a))"

definition register_granted :: "pyval \<Rightarrow> unit act" where
  "register_granted name a =
     (case catalog_entry a name of
        Inl e \<Rightarrow> (Inl e, a) | Inr x \<Rightarrow> (Inr (), a\<lparr>ag_registry := register_entry x (ag_registry a)\<rparr>))"

definition register_names :: "string \<Rightarrow> pyval dict \<Rightarrow> unit act" where
  "register_names key p a =
     (case py_tuple (dget_or p key (PList [])) of
        Inl e \<Rightarrow> (Inl e, a) | Inr ns \<Rightarrow> iterA register_granted ns a)"

definition grant_state :: "env \<Rightarrow> pyval dict \<Rightarrow> unit act" where
  "grant_state w p a =
     (case name_of (dget_or p ''state'' PNone) of
        None \<Rightarrow> (Inr (), a)
      | Some path \<Rightarrow>
          (case open_state (w_openable w) path (truthy (dget_or p ''state_read_only'' (PBool False))) (ag_disk a) of
             (Inl e, dk) \<Rightarrow> (Inl e, a\<lparr>ag_state_path := Some path, ag_disk := dk\<rparr>)
           | (Inr s, dk) \<Rightarrow> (Inr (), a\<lparr>ag_state_path := Some path, ag_state_store := Some s, ag_disk := dk\<rparr>)))"

definition grant_trajectory :: "env \<Rightarrow> pyval dict \<Rightarrow> unit act" where
  "grant_trajectory w p a =
     (case name_of (dget_or p ''trajectory'' PNone) of
        None \<Rightarrow> (Inr (), a)
      | Some path \<Rightarrow>
          (case open_trajectory (w_openable w) path (ag_disk a) of
             (Inl e, dk) \<Rightarrow> (Inl e, a\<lparr>ag_trajectory_path := Some path, ag_disk := dk\<rparr>)
           | (Inr s, dk) \<Rightarrow> (Inr (), a\<lparr>ag_trajectory_path := Some path, ag_trajectory_store := Some s, ag_disk := dk\<rparr>)))"

definition configure :: "env \<Rightarrow> directive \<Rightarrow> response act" where
  "configure w d a =
     (case d_payload d of
        PDict p \<Rightarrow>
          bindA (thenA (set_rules p) (thenA (grant_envelope p) (thenA (set_verifier p)
            (thenA (register_names ''tasks'' p) (thenA (register_names ''verifiers'' p)
            (thenA (grant_state w p) (grant_trajectory w p))))))) (\<lambda>_. ok d) a
      | _ \<Rightarrow> (Inl attribute_error, a))"

section \<open>register and resolve\<close>

definition py_or :: "pyval \<Rightarrow> pyval \<Rightarrow> pyval" where
  "py_or v w = (if truthy v then v else w)"

definition register_capability :: "directive \<Rightarrow> response act" where
  "register_capability d a =
     (case d_payload d of
        PDict p \<Rightarrow>
          (case name_of (dget_or p ''name'' PNone) of
             None \<Rightarrow> fail d (''register requires a '' @ repr_str ''name'') a
           | Some name \<Rightarrow>
               (Inr (ok_response a d),
                a\<lparr>ag_registry := register_entry (mk_entry name (py_or (dget_or p ''source_url'' PNone) (PStr []))
                     (py_or (dget_or p ''kind'' PNone) (PStr ''python'')) None) (ag_registry a)\<rparr>))
      | _ \<Rightarrow> (Inl attribute_error, a))"

definition resolve_capability :: "directive \<Rightarrow> response act" where
  "resolve_capability d a =
     (case d_payload d of
        PDict p \<Rightarrow>
          (case name_of (dget_or p ''name'' PNone) of
             None \<Rightarrow> fail d (''resolve requires a '' @ repr_str ''name'') a
           | Some name \<Rightarrow>
               (case find_entry (ag_registry a) name of
                  None \<Rightarrow> fail d (''unknown capability '' @ repr_str name) a
                | Some e \<Rightarrow>
                    (let verified = truthy (e_source_url e) in
                     (Inr ((mk_response (d_cid d) (if verified then ''result'' else ''error'') verified (identity a))
                        \<lparr>r_value := PDict [(''name'', PStr (e_name e)), (''kind'', e_kind e), (''source_url'', e_source_url e)],
                         r_error := (if verified then PNone
                           else PStr (''capability '' @ repr_str name @ '' has no source location''))\<rparr>), a))))
      | _ \<Rightarrow> (Inl attribute_error, a))"

section \<open>run\<close>

definition call_task :: "env \<Rightarrow> string \<Rightarrow> pyval \<Rightarrow> string + pyval" where
  "call_task w fn args = (case args of PDict kvs \<Rightarrow> w_task w fn kvs | _ \<Rightarrow> Inl (w_bad_call w fn args))"

definition verify :: "env \<Rightarrow> agent \<Rightarrow> pyval \<Rightarrow> pyval option \<Rightarrow> exc + bool" where
  "verify w a v name =
     (case name of
        None \<Rightarrow> Inr True
      | Some n \<Rightarrow> bindR (resolve_name (ag_registry a) n) (\<lambda>fn.
          case fn of None \<Rightarrow> Inr False | Some f \<Rightarrow> w_verifier w f v))"

text \<open>The verifier that applies to a run: the one the directive names, or the configured one.\<close>

definition verifier_name :: "agent \<Rightarrow> pyval dict \<Rightarrow> pyval option" where
  "verifier_name a p =
     (let v = dget_or p ''verifier'' PNone in if truthy v then Some v else map_option PStr (ag_verifier a))"

definition list_or_None :: "pyval \<Rightarrow> pyval" where
  "list_or_None v = (case v of PList _ \<Rightarrow> v | _ \<Rightarrow> PNone)"

definition count_step :: "bool \<Rightarrow> agent \<Rightarrow> agent" where
  "count_step is_spawn a =
     (case ag_guard a of None \<Rightarrow> a | Some g \<Rightarrow> a\<lparr>ag_guard := Some (record_step is_spawn g)\<rparr>)"

definition violation :: "env \<Rightarrow> string \<Rightarrow> pyval \<Rightarrow> agent \<Rightarrow> string option" where
  "violation w kind payload a =
     (case ag_guard a of None \<Rightarrow> None | Some g \<Rightarrow> check_directive (w_late w) kind payload g)"

text \<open>The outcome of a verified or refuted value, with its entry in the cache.\<close>

definition conclude :: "directive \<Rightarrow> string \<Rightarrow> pyval dict \<Rightarrow> pyval \<Rightarrow> bool \<Rightarrow> response act" where
  "conclude d task p v verified a =
     (let src = (case find_source (ag_registry a) task of None \<Rightarrow> PStr [] | Some s \<Rightarrow> py_or s (PStr []));
          r = (mk_response (d_cid d) (if verified then ''result'' else ''error'') verified (identity a))
                \<lparr>r_value := (if verified then v else PNone),
                 r_error := (if verified then PNone else PStr (''verification failed for task '' @ repr_str task)),
                 r_source := src, r_sources := list_or_None (dget_or p ''sources'' PNone)\<rparr>
      in (Inr r, a\<lparr>ag_results := (fingerprint d, r) # ag_results a,
                   ag_used_keys := (d_cid d, d_kind d) # ag_used_keys a\<rparr>))"

definition execute :: "env \<Rightarrow> directive \<Rightarrow> string \<Rightarrow> string \<Rightarrow> pyval dict \<Rightarrow> response act" where
  "execute w d task fn p a =
     (let a' = (count_step False a)\<lparr>ag_calls := ag_calls a @ [fingerprint d]\<rparr> in
      case call_task w fn (dget_or p ''args'' (PDict [])) of
        Inl text \<Rightarrow> fail d (''task '' @ repr_str task @ '' raised: '' @ text) a'
      | Inr v \<Rightarrow>
          (case verify w a' v (verifier_name a' p) of
             Inl e \<Rightarrow> (Inl e, a')
           | Inr verified \<Rightarrow> conclude d task p v verified a'))"

definition run_task :: "env \<Rightarrow> directive \<Rightarrow> response act" where
  "run_task w d a =
     (case map_of (ag_results a) (fingerprint d) of
        Some r \<Rightarrow> (Inr r, a)
      | None \<Rightarrow>
          if (d_cid d, d_kind d) \<in> set (ag_used_keys a)
          then fail d ''correlation id reused for different directive'' a
          else (case d_payload d of
                  PDict p \<Rightarrow>
                    (case dget_or p ''task'' PNone of
                       PStr task \<Rightarrow>
                         (case violation w ''run'' (d_payload d) a of
                            Some text \<Rightarrow> fail d text a
                          | None \<Rightarrow>
                              (case resolve_name (ag_registry a) (PStr task) of
                                 Inl e \<Rightarrow> (Inl e, a)
                               | Inr None \<Rightarrow> fail d (''unknown task '' @ repr_str task) a
                               | Inr (Some fn) \<Rightarrow> execute w d task fn p a))
                     | _ \<Rightarrow> fail d (''run directive requires a '' @ repr_str ''task'' @ '' name'') a)
                | _ \<Rightarrow> (Inl attribute_error, a)))"

section \<open>state and audit\<close>

definition do_state_get :: "directive \<Rightarrow> response act" where
  "do_state_get d a =
     (case ag_state_store a of
        None \<Rightarrow> fail d ''no durable state store configured'' a
      | Some s \<Rightarrow>
          (case pget (d_payload d) ''key'' PNone of
             Inl e \<Rightarrow> (Inl e, a)
           | Inr k \<Rightarrow>
               (case name_of k of
                  None \<Rightarrow> fail d (''state_get requires a '' @ repr_str ''key'') a
                | Some key \<Rightarrow>
                    (case state_get s key (ag_disk a) of
                       Inl e \<Rightarrow> if exc_class e = StoreError then fail d (''state read failed: '' @ exc_text e) a else (Inl e, a)
                     | Inr v \<Rightarrow>
                         if v = PNone then fail d (''state key '' @ repr_str key @ '' not found'') a
                         else (Inr ((mk_response (d_cid d) ''result'' True (identity a))\<lparr>r_value := v\<rparr>), a)))))"

definition do_state_set :: "directive \<Rightarrow> response act" where
  "do_state_set d a =
     (case ag_state_store a of
        None \<Rightarrow> fail d ''no durable state store configured'' a
      | Some s \<Rightarrow>
          (case d_payload d of
             PDict p \<Rightarrow>
               (case name_of (dget_or p ''key'' PNone) of
                  None \<Rightarrow> fail d (''state_set requires a '' @ repr_str ''key'') a
                | Some key \<Rightarrow>
                    if map_of (ag_results a) (fingerprint d) \<noteq> None then ok d a
                    else (case state_set s key (dget_or p ''value'' PNone) (fingerprint_text d) (ag_disk a) of
                            (Inl e, dk) \<Rightarrow>
                              if exc_class e = StoreError then fail d (''state write failed: '' @ exc_text e) (a\<lparr>ag_disk := dk\<rparr>)
                              else (Inl e, a\<lparr>ag_disk := dk\<rparr>)
                          | (Inr _, dk) \<Rightarrow> ok d (a\<lparr>ag_disk := dk\<rparr>)))
           | _ \<Rightarrow> (Inl attribute_error, a)))"

definition audit :: "directive \<Rightarrow> response act" where
  "audit d a =
     (case ag_trajectory_store a of
        None \<Rightarrow> fail d ''no durable trajectory store configured'' a
      | Some s \<Rightarrow>
          (case all_events s (ag_disk a) of
             Inl e \<Rightarrow> (Inl e, a)
           | Inr evs \<Rightarrow> (Inr ((mk_response (d_cid d) ''result'' True (identity a))\<lparr>r_value := PList evs\<rparr>), a)))"

section \<open>spawn\<close>

text \<open>\<open>_endpoint\<close> of a payload value: a list that has the text as an element is returned as it is
  and has no \<open>startswith\<close>.\<close>

definition endpoint_of :: "config \<Rightarrow> pyval \<Rightarrow> exc + string" where
  "endpoint_of c v =
     (case py_in ''://'' v of
        Inl _ \<Rightarrow> Inl type_error
      | Inr True \<Rightarrow> (case v of PStr s \<Rightarrow> Inr s | _ \<Rightarrow> Inl attribute_error)
      | Inr False \<Rightarrow> Inr (cf_transport c @ ''://'' @ py_str v))"

definition child_class :: "agent \<Rightarrow> pyval \<Rightarrow> string option" where
  "child_class a kind =
     (case kind of PNone \<Rightarrow> Some ''Agent'' | PStr k \<Rightarrow> dget (ag_child_kinds a) k | _ \<Rightarrow> None)"

definition child_config :: "agent \<Rightarrow> string \<Rightarrow> string \<Rightarrow> config" where
  "child_config a ident ep =
     \<lparr>cf_identity = ident, cf_parent_endpoint = ep, cf_transport = cf_transport (ag_config a), cf_shared_context = True,
      cf_security = cf_security (ag_config a), cf_secret = cf_secret (ag_config a), cf_catalog = cf_catalog (ag_config a)\<rparr>"

text \<open>The socket is bound; then the child is created, connected and stored. An identity that is no
  text, or an endpoint that is none, raises while the child connects.\<close>

definition provision :: "env \<Rightarrow> directive \<Rightarrow> pyval \<Rightarrow> pyval \<Rightarrow> string \<Rightarrow> response act" where
  "provision w d ident ep resolved a =
     (case w_bind w resolved of
        Some e \<Rightarrow> (Inl e, a)
      | None \<Rightarrow>
          (let a' = a\<lparr>ag_bound := ag_bound a @ [resolved]\<rparr>;
               refusal = (if starts_with ''ipc://'' resolved
                 then enforce_ipc_socket_mode (w_exists w) (w_chmod w) resolved else None)
           in case refusal of
                Some reason \<Rightarrow> fail d reason a
              | None \<Rightarrow>
                  (case ident of
                     PStr i \<Rightarrow>
                       (case w_connect w i resolved of
                          Some e \<Rightarrow> (Inl e, a')
                        | None \<Rightarrow>
                            (Inr (ok_response a d),
                             a'\<lparr>ag_children := dput i resolved (ag_children a'),
                                ag_child_agents := dput i (child_config a i (py_str ep)) (ag_child_agents a')\<rparr>))
                   | _ \<Rightarrow> (Inl attribute_error, a'))))"

definition spawn_fresh :: "env \<Rightarrow> directive \<Rightarrow> pyval dict \<Rightarrow> pyval \<Rightarrow> pyval \<Rightarrow> response act" where
  "spawn_fresh w d p ident ep a =
     (case child_class a (dget_or p ''kind'' PNone) of
        None \<Rightarrow> fail d (''undeclared child kind '' @ py_repr (dget_or p ''kind'' PNone)) a
      | Some _ \<Rightarrow>
          (case endpoint_of (ag_config a) ep of
             Inl e \<Rightarrow> (Inl e, a)
           | Inr resolved \<Rightarrow>
               (let refusal = (if starts_with ''tcp://'' resolved
                  then check_tcp_bind (drop 6 resolved) (cf_security (ag_config a)) else None)
                in case refusal of Some reason \<Rightarrow> fail d reason a | None \<Rightarrow> provision w d ident ep resolved a)))"

definition spawn :: "env \<Rightarrow> directive \<Rightarrow> response act" where
  "spawn w d a =
     (case d_payload d of
        PDict p \<Rightarrow>
          (let ident = dget_or p ''identity'' PNone; ep = dget_or p ''endpoint'' PNone in
           if \<not> truthy ident \<or> \<not> truthy ep
           then fail d (''spawn requires '' @ repr_str ''identity'' @ '' and '' @ repr_str ''endpoint'') a
           else case violation w ''spawn'' (d_payload d) a of
                  Some text \<Rightarrow> fail d text a
                | None \<Rightarrow>
                    if \<not> ag_context a then fail d ''agent not initialised'' a
                    else (case lookup (ag_child_agents a) ident of
                            Inl e \<Rightarrow> (Inl e, a)
                          | Inr (Some _) \<Rightarrow> ok d a
                          | Inr None \<Rightarrow> spawn_fresh w d p ident ep (count_step True a)))
      | _ \<Rightarrow> (Inl attribute_error, a))"

section \<open>The handler of a kind\<close>

definition handle :: "env \<Rightarrow> directive \<Rightarrow> response act" where
  "handle w d a =
     (let k = d_kind d in
      if k = ''configure'' then configure w d a
      else if k = ''run'' then run_task w d a
      else if k = ''spawn'' then spawn w d a
      else if k = ''register'' then register_capability d a
      else if k = ''resolve'' then resolve_capability d a
      else if k = ''state_set'' then do_state_set d a
      else if k = ''state_get'' then do_state_get d a
      else if k = ''audit'' then audit d a
      else if k = ''ping'' then ok d a
      else if k = ''kill'' then ok d (kill a)
      else fail d (''unknown directive kind '' @ repr_str k) a)"

end
