(* ===== verification/Agent.thy ===== *)
theory Agent
  imports Agent_Handlers
begin

text \<open>
  The poll loop of an agent (\<open>cbp/agent.py\<close>): receive, acknowledge, dispatch or delegate, relay
  what the children answer after verifying it again.
\<close>

section \<open>The audit trail\<close>

text \<open>A write-once conflict is suppressed, any other exception of the store is not.\<close>

definition record_audit :: "env \<Rightarrow> audit_event \<Rightarrow> unit act" where
  "record_audit w ev a =
     (case ag_trajectory_store a of
        None \<Rightarrow> (Inr (), a)
      | Some s \<Rightarrow>
          (case record_event (w_real_text w) s ev (ag_disk a) of
             (Inl e, dk) \<Rightarrow> (if exc_class e = StoreError then Inr () else Inl e, a\<lparr>ag_disk := dk\<rparr>)
           | (Inr _, dk) \<Rightarrow> (Inr (), a\<lparr>ag_disk := dk\<rparr>)))"

definition audit_of :: "agent \<Rightarrow> string \<Rightarrow> string \<Rightarrow> string \<Rightarrow> string \<Rightarrow> response \<Rightarrow> audit_event" where
  "audit_of a cid kind fp parent r =
     \<lparr>ae_cid = cid, ae_kind = kind, ae_node = identity a, ae_verified = r_verified r, ae_value = r_value r,
      ae_error = r_error r, ae_source = r_source r, ae_sources = r_sources r, ae_fingerprint = fp, ae_parent = parent\<rparr>"

definition record_local :: "env \<Rightarrow> directive \<Rightarrow> response \<Rightarrow> unit act" where
  "record_local w d r a =
     record_audit w (audit_of a (d_cid d) (r_kind r) (fingerprint_text d) (cf_parent_endpoint (ag_config a)) r) a"

definition record_relay :: "env \<Rightarrow> response \<Rightarrow> string \<Rightarrow> unit act" where
  "record_relay w r child a =
     record_audit w (audit_of a (r_cid r) ''relay'' (''relay|'' @ identity a @ ''|'' @ child) child r) a"

section \<open>Directives from the parent\<close>

definition maybe_delegate :: "directive \<Rightarrow> exc + string option" where
  "maybe_delegate d =
     (if d_kind d \<noteq> ''run'' then Inr None
      else bindR (pget (d_payload d) ''child'' PNone) (\<lambda>v. Inr (name_of v)))"

definition delegated_payload :: "pyval \<Rightarrow> pyval dict" where
  "delegated_payload v = (case v of PDict p \<Rightarrow> filter (\<lambda>kv. fst kv \<noteq> ''child'') p | _ \<Rightarrow> [])"

definition directive_frames :: "mac \<Rightarrow> string option \<Rightarrow> string \<Rightarrow> string \<Rightarrow> pyval dict \<Rightarrow> frames" where
  "directive_frames hmac secret cid kind p =
     [utf8 cid, utf8 ''directive'', utf8 kind, utf8 (json_dumps (PDict (attach_integrity hmac secret cid kind p)))]"

definition delegate :: "env \<Rightarrow> string \<Rightarrow> directive \<Rightarrow> unit act" where
  "delegate w child d a =
     (if dget (ag_children a) child = None then (Inl (Exc KeyError (repr_str (''no spawned child '' @ repr_str child))), a)
      else (Inr (), a\<lparr>ag_child_out := ag_child_out a @
             [(child, utf8 child # directive_frames (w_hmac w) (cf_secret (ag_config a)) (d_cid d) (d_kind d)
                 (delegated_payload (d_payload d)))]\<rparr>))"

definition respond :: "env \<Rightarrow> directive \<Rightarrow> response \<Rightarrow> response option act" where
  "respond w d r = thenA (send w r) (thenA (record_local w d r) (retA (Some r)))"

definition dispatch_inner :: "env \<Rightarrow> directive \<Rightarrow> response option act" where
  "dispatch_inner w d a =
     (case maybe_delegate d of
        Inl e \<Rightarrow> (Inl e, a)
      | Inr (Some child) \<Rightarrow>
          if dget (ag_children a) child \<noteq> None
          then thenA (delegate w child d) (\<lambda>a'. (Inr None, a'\<lparr>ag_delegated := dput (d_cid d) child (ag_delegated a')\<rparr>)) a
          else respond w d (error_response a (d_cid d) (''delegation target '' @ repr_str child @ '' is not a spawned child'')) a
      | Inr None \<Rightarrow> bindA (handle w d) (respond w d) a)"

definition dispatch :: "env \<Rightarrow> directive \<Rightarrow> response option act" where
  "dispatch w d a =
     (case dispatch_inner w d a of
        (Inr r, a') \<Rightarrow> (Inr r, a')
      | (Inl e, a') \<Rightarrow>
          if is_value_error (exc_class e) \<or> exc_class e = KeyError
          then let r = error_response a' (d_cid d) (''directive rejected: '' @ exc_text e)
               in thenA (send w r) (retA (Some r)) a'
          else (Inl e, a'))"

definition handle_parent_message :: "env \<Rightarrow> frames \<Rightarrow> response option act" where
  "handle_parent_message w fs a =
     (if \<not> ag_parent a then (Inl (not_initialised a), a)
      else case recv w (ag_config a) fs of
             Inl e \<Rightarrow>
               if is_value_error (exc_class e)
               then let r = error_response a ''malformed'' (''malformed directive rejected: '' @ exc_text e)
                    in thenA (send w r) (retA (Some r)) a
               else (Inl e, a)
           | Inr d \<Rightarrow> thenA (send_ack (d_cid d)) (dispatch w d) a)"

section \<open>Responses from the children\<close>

definition child_response_of :: "string \<Rightarrow> string \<Rightarrow> string \<Rightarrow> pyval dict \<Rightarrow> response" where
  "child_response_of ident cid kind p =
     \<lparr>r_cid = cid, r_kind = kind, r_value = dget_or p ''value'' PNone, r_verified = dget_or p ''verified'' (PBool False),
      r_node = dget_or p ''node'' (PStr ident), r_error = dget_or p ''error'' PNone, r_source = dget_or p ''source'' (PStr []),
      r_sources = dget_or p ''sources'' PNone, r_protocol = PROTOCOL_VERSION,
      r_confidence = dget_or p ''confidence'' PNone, r_model_record = dget_or p ''model_record'' PNone\<rparr>"

text \<open>The response that the payload describes, or an error about it.\<close>

definition admit_response :: "agent \<Rightarrow> string \<Rightarrow> string \<Rightarrow> string \<Rightarrow> pyval \<Rightarrow> exc + response" where
  "admit_response a ident cid kind payload =
     (case payload of
        PDict p \<Rightarrow>
          (let m = child_response_of ident cid kind p in
           case validate_response m of
             Inr _ \<Rightarrow> Inr m
           | Inl e \<Rightarrow>
               if exc_class e = ProtocolError
               then Inr (error_response a cid (''child '' @ repr_str ident @ '' sent invalid response: '' @ exc_text e))
               else Inl e)
      | _ \<Rightarrow> Inl attribute_error)"

definition handle_child :: "env \<Rightarrow> agent \<Rightarrow> frames \<Rightarrow> exc + response option" where
  "handle_child w a fs =
     (case fs of
        [f0, f1, f2, f3] \<Rightarrow>
          bindR (decode w f2) (\<lambda>k. Inr (if k = ''ack'' then None else Some (error_response a [] ''malformed child message'')))
      | [f0, f1, f2, f3, f4] \<Rightarrow>
          bindR (decode w f0) (\<lambda>ident.
          bindR (decode w f1) (\<lambda>cid.
          bindR (decode w f2) (\<lambda>message_kind.
          bindR (decode w f3) (\<lambda>kind.
          bindR (bindR (decode w f4) (parse w)) (\<lambda>payload.
            if message_kind \<noteq> ''response''
            then Inr (Some (error_response a cid (''child '' @ repr_str ident @ '' sent message kind '' @
                   repr_str message_kind @ '', expected response'')))
            else bindR (verify_and_strip (w_hmac w) (cf_secret (ag_config a)) cid kind payload) (\<lambda>(clean, ok).
              if \<not> ok then Inr (Some (error_response a cid (''child '' @ repr_str ident @ '' failed traffic-integrity verification'')))
              else bindR (admit_response a ident cid kind clean) (\<lambda>m. Inr (Some m))))))))
      | _ \<Rightarrow> Inr (Some (error_response a [] ''malformed child response'')))"

text \<open>The correctness spine: a verified value is verified again, and demoted when it fails.\<close>

definition reverify :: "env \<Rightarrow> agent \<Rightarrow> response \<Rightarrow> string \<Rightarrow> exc + response" where
  "reverify w a r child =
     (case (truthy (r_verified r), ag_verifier a) of
        (True, Some v) \<Rightarrow>
          bindR (verify w a (r_value r) (Some (PStr v))) (\<lambda>ok.
            Inr (if ok then r
                 else (error_response a (r_cid r) (''child '' @ repr_str child @ '' returned a value that failed the parent'' @
                         squote_c # ''s verifier''))\<lparr>r_sources := r_sources r\<rparr>))
      | _ \<Rightarrow> Inr r)"

definition relay_verified :: "env \<Rightarrow> response \<Rightarrow> string \<Rightarrow> response act" where
  "relay_verified w r child a =
     (case reverify w a r child of
        Inl e \<Rightarrow> (Inl e, a)
      | Inr m \<Rightarrow> thenA (record_relay w m child) (thenA (send w m) (retA m)) a)"

definition child_message :: "env \<Rightarrow> string \<Rightarrow> frames \<Rightarrow> response list act" where
  "child_message w child fs a =
     (case handle_child w a fs of
        Inl e \<Rightarrow> (Inl e, a)
      | Inr None \<Rightarrow> (Inr [], a)
      | Inr (Some m) \<Rightarrow>
          if dget (ag_delegated a) (r_cid m) \<noteq> None
          then bindA (relay_verified w m child) (\<lambda>r. retA [r])
                 (a\<lparr>ag_delegated := filter (\<lambda>kv. fst kv \<noteq> r_cid m) (ag_delegated a)\<rparr>)
          else (Inr [m], a))"

fun drain_child :: "env \<Rightarrow> string \<Rightarrow> frames list \<Rightarrow> response list act" where
  "drain_child w child [] = retA []"
| "drain_child w child (fs # rest) =
     bindA (child_message w child fs) (\<lambda>rs. bindA (drain_child w child rest) (\<lambda>rs'. retA (rs @ rs')))"

section \<open>The poll loop\<close>

text \<open>What one poll finds: a message of the parent, and the messages waiting from each child.\<close>

record inputs =
  in_parent :: "frames option"
  in_children :: "string \<Rightarrow> frames list"

fun drain_children :: "env \<Rightarrow> (string \<Rightarrow> frames list) \<Rightarrow> string list \<Rightarrow> response list act" where
  "drain_children w msgs [] = retA []"
| "drain_children w msgs (c # cs) =
     bindA (drain_child w c (msgs c)) (\<lambda>rs. bindA (drain_children w msgs cs) (\<lambda>rs'. retA (rs @ rs')))"

definition opt_list :: "'a option \<Rightarrow> 'a list" where
  "opt_list x = (case x of None \<Rightarrow> [] | Some v \<Rightarrow> [v])"

text \<open>A child that the message of the parent has just created is not among the polled sockets.\<close>

definition poll :: "env \<Rightarrow> inputs \<Rightarrow> response list act" where
  "poll w i a =
     (if \<not> ag_parent a then (Inl (not_initialised a), a)
      else bindA (case in_parent i of None \<Rightarrow> retA None | Some fs \<Rightarrow> handle_parent_message w fs)
             (\<lambda>r a'. bindA (drain_children w (in_children i)
                       (filter (\<lambda>c. dget (ag_children a) c \<noteq> None) (dkeys (ag_children a'))))
                     (\<lambda>rs. retA (opt_list r @ rs)) a') a)"

text \<open>\<open>run\<close> polls until the agent is not alive or a poll raises; here over the given inputs.\<close>

fun run_loop :: "(env \<times> inputs) list \<Rightarrow> agent \<Rightarrow> (exc + unit) \<times> agent" where
  "run_loop [] a = (Inr (), a)"
| "run_loop (wi # rest) a =
     (if \<not> ag_alive a then (Inr (), a)
      else case poll (fst wi) (snd wi) a of (Inl e, a') \<Rightarrow> (Inl e, a') | (Inr _, a') \<Rightarrow> run_loop rest a')"

section \<open>The parent configures a child\<close>

datatype envelope_arg = No_Envelope | Envelope_Arg envelope | Guard_Arg guard | Payload_Arg "pyval dict" | Other_Arg

definition as_envelope :: "envelope_arg \<Rightarrow> exc + envelope option" where
  "as_envelope x =
     (case x of No_Envelope \<Rightarrow> Inr None | Envelope_Arg e \<Rightarrow> Inr (Some e) | Guard_Arg g \<Rightarrow> Inr (g_envelope g)
      | Payload_Arg d \<Rightarrow> envelope_from_payload d | Other_Arg \<Rightarrow> Inl type_error)"

record child_grant =
  gr_tasks :: "string list"
  gr_verifiers :: "string list"
  gr_rules :: "string list"
  gr_verifier :: "string option"
  gr_state :: "string option"
  gr_state_read_only :: bool
  gr_trajectory :: "string option"
  gr_store_keys :: "string list"

definition opt_item :: "string \<Rightarrow> string option \<Rightarrow> pyval dict" where
  "opt_item key v = (case v of None \<Rightarrow> [] | Some s \<Rightarrow> [(key, PStr s)])"

definition grant_payload :: "child_grant \<Rightarrow> envelope option \<Rightarrow> pyval dict" where
  "grant_payload g env =
     [(''tasks'', PStrs (gr_tasks g)), (''verifiers'', PStrs (gr_verifiers g)), (''rules'', PStrs (gr_rules g))] @
     (case env of None \<Rightarrow> [] | Some e \<Rightarrow> [(''_envelope'', envelope_to_payload e)]) @
     opt_item ''verifier'' (gr_verifier g) @
     (case gr_state g of None \<Rightarrow> [] | Some p \<Rightarrow> [(''state'', PStr p), (''state_read_only'', PBool (gr_state_read_only g))]) @
     opt_item ''trajectory'' (gr_trajectory g) @
     (if gr_store_keys g = [] then [] else [(''store_keys'', PStrs (gr_store_keys g))])"

text \<open>The child is the agent that the parent holds under the identity, if it holds one.\<close>

definition configure_child ::
  "env \<Rightarrow> agent \<Rightarrow> string \<Rightarrow> agent option \<Rightarrow> child_grant \<Rightarrow> envelope_arg \<Rightarrow> (exc + response) \<times> agent option" where
  "configure_child w parent ident child g x =
     (case child of
        None \<Rightarrow> (Inr (error_response parent ''configure-child'' (''no spawned child '' @ repr_str ident)), None)
      | Some c \<Rightarrow>
          (case as_envelope x of
             Inl e \<Rightarrow> (Inl e, Some c)
           | Inr env \<Rightarrow>
               (case configure w \<lparr>d_cid = ''configure-child'', d_kind = ''configure'',
                       d_payload = PDict (grant_payload g env), d_protocol = PROTOCOL_VERSION\<rparr> c of
                  (r, c') \<Rightarrow> (r, Some c'))))"

end
