(* ===== verification/Agent_Loop.thy ===== *)
theory Agent_Loop
  imports Agent
begin

text \<open>
  What every poll keeps, once the handlers and the primitive effects keep it: the poll loop
  as the client of a contract. \<open>I\<close> is an invariant of the agent, \<open>R\<close> relates the states before
  and after a call, whether it returns or raises.
\<close>

definition kept :: "(agent \<Rightarrow> bool) \<Rightarrow> (agent \<Rightarrow> agent \<Rightarrow> bool) \<Rightarrow> agent \<Rightarrow> agent \<Rightarrow> bool" where
  "kept I R a b \<longleftrightarrow> I b \<and> R a b"

locale agent_relation =
  fixes I :: "agent \<Rightarrow> bool" and R :: "agent \<Rightarrow> agent \<Rightarrow> bool"
  assumes R_refl: "R a a" and R_trans: "R a b \<Longrightarrow> R b c \<Longrightarrow> R a c"
begin

definition safe :: "'a act \<Rightarrow> bool" where
  "safe m \<longleftrightarrow> (\<forall>a. I a \<longrightarrow> kept I R a (snd (m a)))"

lemma safeI: "(\<And>a. I a \<Longrightarrow> kept I R a (snd (m a))) \<Longrightarrow> safe m"
  by (simp add: safe_def)

lemma safeD: "safe m \<Longrightarrow> I a \<Longrightarrow> kept I R a (snd (m a))"
  by (simp add: safe_def)

lemma kept_refl: "I a \<Longrightarrow> kept I R a a"
  by (simp add: kept_def R_refl)

lemma kept_trans: "kept I R a b \<Longrightarrow> kept I R b c \<Longrightarrow> kept I R a c"
  unfolding kept_def using R_trans by blast

lemma safe_retA: "safe (retA x)"
  by (simp add: safe_def retA_def kept_refl)

lemma safe_after: "kept I R a b \<Longrightarrow> safe m \<Longrightarrow> kept I R a (snd (m b))"
  using kept_trans safeD unfolding kept_def by blast

lemma safe_bindA:
  assumes "safe m" "\<And>x. safe (f x)"
  shows "safe (bindA m f)"
proof (rule safeI)
  fix a assume a: "I a"
  obtain r b where m: "m a = (r, b)" by force
  have "kept I R a b" using safeD [OF assms(1) a] by (simp add: m)
  then show "kept I R a (snd (bindA m f a))"
    by (auto simp: bindA_def m intro: safe_after assms(2) split: sum.splits)
qed

lemma safe_thenA: "safe m \<Longrightarrow> safe n \<Longrightarrow> safe (thenA m n)"
  by (simp add: thenA_def safe_bindA)

lemma safe_iterA: "(\<And>x. safe (f x)) \<Longrightarrow> safe (iterA f xs)"
proof (induction xs)
  case Nil
  then show ?case by (simp add: safe_def kept_refl)
next
  case (Cons x xs)
  have "safe (thenA (f x) (iterA f xs))" using Cons by (simp add: safe_thenA)
  then show ?case by (simp add: safe_def)
qed

lemmas safe_intros = safe_retA safe_bindA safe_thenA safe_iterA

text \<open>A call that leaves the state alone is safe, and so is one that is safe state by state.\<close>

lemma safe_reads: "(\<And>a. snd (m a) = a) \<Longrightarrow> safe m"
  by (simp add: safe_def kept_refl)

lemma kept_fail: "I a \<Longrightarrow> kept I R a (snd (fail d t a))"
  by (simp add: fail_def kept_refl)

lemma kept_ok: "I a \<Longrightarrow> kept I R a (snd (ok d a))"
  by (simp add: ok_def kept_refl)

lemma kept_fail_after: "kept I R a b \<Longrightarrow> kept I R a (snd (fail d t b))"
  by (simp add: fail_def)

lemma kept_ok_after: "kept I R a b \<Longrightarrow> kept I R a (snd (ok d b))"
  by (simp add: ok_def)

lemmas kept_intros = kept_refl kept_fail kept_ok kept_fail_after kept_ok_after

lemma register_capability_safe:
  assumes "\<And>a e. I a \<Longrightarrow> kept I R a (a\<lparr>ag_registry := register_entry e (ag_registry a)\<rparr>)"
  shows "safe (register_capability d)"
  using assms by (intro safeI) (auto simp: register_capability_def intro!: kept_intros split: pyval.splits option.splits)

lemma resolve_capability_safe: "safe (resolve_capability d)"
  by (rule safe_reads) (auto simp: resolve_capability_def fail_def Let_def split: pyval.splits option.splits)

lemma do_state_get_safe: "safe (do_state_get d)"
  by (rule safe_reads) (auto simp: do_state_get_def fail_def Let_def split: option.splits sum.splits)

lemma audit_directive_safe: "safe (audit d)"
  by (rule safe_reads) (auto simp: audit_def fail_def split: option.splits sum.splits)

text \<open>\<open>configure\<close> is safe when each of its grants is.\<close>

lemma configure_safe:
  assumes "\<And>a rs. I a \<Longrightarrow> kept I R a (a\<lparr>ag_rules := rs\<rparr>)"
    and "\<And>p. safe (grant_envelope p)"
    and "\<And>a v. I a \<Longrightarrow> kept I R a (a\<lparr>ag_verifier := v\<rparr>)"
    and "\<And>a e. I a \<Longrightarrow> kept I R a (a\<lparr>ag_registry := register_entry e (ag_registry a)\<rparr>)"
    and "\<And>p. safe (grant_state w p)" and "\<And>p. safe (grant_trajectory w p)"
  shows "safe (configure w d)"
proof (rule safeI)
  fix a assume a: "I a"
  have rules: "safe (set_rules p)" for p
    using assms(1) by (intro safeI) (auto simp: set_rules_def intro: kept_refl split: sum.splits)
  have verifier: "safe (set_verifier p)" for p
    using assms(3) by (intro safeI) (auto simp: set_verifier_def intro: kept_refl split: pyval.splits)
  have granted: "safe (register_granted n)" for n
    using assms(4) by (intro safeI) (auto simp: register_granted_def intro: kept_refl split: sum.splits)
  have names: "safe (register_names key p)" for key p
  proof (rule safeI)
    fix b assume b: "I b"
    have "safe (iterA register_granted ns)" for ns by (rule safe_iterA) (rule granted)
    then show "kept I R b (snd (register_names key p b))"
      using b by (auto simp: register_names_def intro: kept_refl safeD split: sum.splits)
  qed
  have "safe (ok d)" by (rule safe_reads) (simp add: ok_def)
  then have "safe (bindA (thenA (set_rules p) (thenA (grant_envelope p) (thenA (set_verifier p)
            (thenA (register_names ''tasks'' p) (thenA (register_names ''verifiers'' p)
            (thenA (grant_state w p) (grant_trajectory w p))))))) (\<lambda>_. ok d))" for p
    by (intro safe_intros rules verifier names assms)
  then show "kept I R a (snd (configure w d a))"
    using a by (auto simp: configure_def intro: kept_refl safeD split: pyval.splits)
qed


end

locale agent_loop = agent_relation +
  assumes send_safe: "safe (send w m)"
    and ack_safe: "safe (send_ack cid)"
    and audit_safe: "safe (record_audit w ev)"
    and handle_safe: "safe (handle w d)"
    and route_safe: "I a \<Longrightarrow> kept I R a (a\<lparr>ag_child_out := ag_child_out a @ [out]\<rparr>)"
    and delegated_safe: "I a \<Longrightarrow> kept I R a (a\<lparr>ag_delegated := dput c k (ag_delegated a)\<rparr>)"
    and undelegated_safe: "I a \<Longrightarrow> kept I R a (a\<lparr>ag_delegated := filter P (ag_delegated a)\<rparr>)"
begin

lemma delegate_safe: "safe (delegate w c d)"
  by (rule safeI) (simp add: delegate_def kept_refl route_safe)

lemma record_local_safe: "safe (record_local w d r)"
  using safeD [OF audit_safe] by (intro safeI) (simp add: record_local_def)

lemma record_relay_safe: "safe (record_relay w r c)"
  using safeD [OF audit_safe] by (intro safeI) (simp add: record_relay_def)

lemma respond_safe: "safe (respond w d r)"
  unfolding respond_def by (intro safe_intros send_safe record_local_safe)

lemma delegated_act_safe: "safe (\<lambda>a. (Inr x, a\<lparr>ag_delegated := dput c k (ag_delegated a)\<rparr>))"
  by (rule safeI) (simp add: delegated_safe)

lemma dispatch_inner_safe: "safe (dispatch_inner w d)"
proof (rule safeI)
  fix a assume a: "I a"
  have "safe (bindA (handle w d) (respond w d))" by (intro safe_intros handle_safe respond_safe)
  moreover have "safe (thenA (delegate w c d) (\<lambda>a'. (Inr x, a'\<lparr>ag_delegated := dput (d_cid d) c (ag_delegated a')\<rparr>)))" for c and x :: "response option"
    by (intro safe_intros delegate_safe delegated_act_safe)
  ultimately show "kept I R a (snd (dispatch_inner w d a))"
    using a by (auto simp: dispatch_inner_def kept_refl intro: safeD respond_safe split: sum.splits option.splits)
qed

lemma answer_safe: "safe (thenA (send w r) (retA x))"
  by (intro safe_intros send_safe)

lemma dispatch_safe: "safe (dispatch w d)"
proof (rule safeI)
  fix a assume a: "I a"
  obtain r b where d: "dispatch_inner w d a = (r, b)" by force
  have "kept I R a b" using safeD [OF dispatch_inner_safe a, of w d] by (simp add: d)
  then show "kept I R a (snd (dispatch w d a))"
    by (auto simp: dispatch_def d Let_def intro: safe_after answer_safe split: sum.splits)
qed

lemma parent_safe: "safe (handle_parent_message w fs)"
proof (rule safeI)
  fix a assume a: "I a"
  have "safe (thenA (send_ack (d_cid d)) (dispatch w d))" for d
    by (intro safe_intros ack_safe dispatch_safe)
  then show "kept I R a (snd (handle_parent_message w fs a))"
    using a by (auto simp: handle_parent_message_def kept_refl Let_def intro: safeD answer_safe split: sum.splits)
qed

lemma relay_safe: "safe (relay_verified w r c)"
proof (rule safeI)
  fix a assume a: "I a"
  have "safe (thenA (record_relay w m c) (thenA (send w m) (retA m)))" for m
    by (intro safe_intros record_relay_safe send_safe)
  then show "kept I R a (snd (relay_verified w r c a))"
    using a by (auto simp: relay_verified_def kept_refl intro: safeD split: sum.splits)
qed

lemma child_message_safe: "safe (child_message w c fs)"
proof (rule safeI)
  fix a assume a: "I a"
  have "safe (bindA (relay_verified w m c) (\<lambda>r. retA [r]))" for m
    by (intro safe_intros relay_safe)
  then show "kept I R a (snd (child_message w c fs a))"
    using a by (auto simp: child_message_def kept_refl intro: safe_after undelegated_safe split: sum.splits option.splits)
qed

lemma drain_child_safe: "safe (drain_child w c ms)"
  by (induction ms) (auto intro!: safe_intros child_message_safe)

lemma drain_children_safe: "safe (drain_children w ms cs)"
  by (induction cs) (auto intro!: safe_intros drain_child_safe)

theorem poll_safe: "safe (poll w i)"
proof (rule safeI)
  fix a assume a: "I a"
  have "safe (case in_parent i of None \<Rightarrow> retA None | Some fs \<Rightarrow> handle_parent_message w fs)"
    by (simp add: safe_retA parent_safe split: option.splits)
  moreover have "safe (\<lambda>a'. bindA (drain_children w (in_children i) (f a')) (\<lambda>rs. retA (g rs)) a')" for f and g :: "response list \<Rightarrow> response list"
  proof (rule safeI)
    fix b assume b: "I b"
    have "safe (bindA (drain_children w (in_children i) (f b)) (\<lambda>rs. retA (g rs)))"
      by (intro safe_intros drain_children_safe)
    then show "kept I R b (snd (bindA (drain_children w (in_children i) (f b)) (\<lambda>rs. retA (g rs)) b))"
      by (rule safeD [OF _ b])
  qed
  ultimately have "safe (bindA (case in_parent i of None \<Rightarrow> retA None | Some fs \<Rightarrow> handle_parent_message w fs)
       (\<lambda>r a'. bindA (drain_children w (in_children i) (filter (\<lambda>c. dget (ag_children a) c \<noteq> None) (dkeys (ag_children a'))))
         (\<lambda>rs. retA (opt_list r @ rs)) a'))"
    by (intro safe_bindA) auto
  then show "kept I R a (snd (poll w i a))"
    using a by (auto simp: poll_def kept_refl intro: safeD)
qed

theorem run_loop_safe: "I a \<Longrightarrow> kept I R a (snd (run_loop wis a))"
proof (induction wis arbitrary: a)
  case Nil
  then show ?case by (simp add: kept_refl)
next
  case (Cons wi wis)
  obtain r b where p: "poll (fst wi) (snd wi) a = (r, b)" by force
  have b: "kept I R a b" using safeD [OF poll_safe Cons.prems] p by (metis snd_conv)
  have "kept I R b (snd (run_loop wis b))" using Cons.IH b by (simp add: kept_def)
  then have "kept I R a (snd (run_loop wis b))" using kept_trans b by blast
  then show ?case using b Cons.prems by (simp add: p kept_refl split: sum.splits)
qed

end

end
