(* ===== verification/Agent_Inv.thy ===== *)
theory Agent_Inv
  imports Agent_Loop
begin

text \<open>
  The invariants of an agent: what its cache of results, its envelope, its trail and its
  sockets satisfy after any sequence of polls, in any environment.
\<close>

section \<open>Cached results, counted steps, valid messages\<close>

definition key_of :: "fingerprint \<Rightarrow> string \<times> string" where
  "key_of f = (fst f, fst (snd f))"

text \<open>A cached response is a verified result or an error without a value.\<close>

definition settled :: "response \<Rightarrow> bool" where
  "settled r \<longleftrightarrow>
     ((r_kind r = ''result'' \<and> r_verified r = PBool True) \<or>
      (r_kind r = ''error'' \<and> r_verified r = PBool False \<and> r_value r = PNone)) \<and>
     r_confidence r = PNone \<and> (r_error r = PNone \<or> is_str (r_error r))"

definition cached_ok :: "agent \<Rightarrow> fingerprint \<times> response \<Rightarrow> bool" where
  "cached_ok a e \<longleftrightarrow>
     key_of (fst e) \<in> set (ag_used_keys a) \<and> fst e \<in> set (ag_calls a) \<and>
     r_cid (snd e) = fst (fst e) \<and> r_node (snd e) = PStr (identity a) \<and> settled (snd e)"

definition cache_inv :: "agent \<Rightarrow> bool" where
  "cache_inv a \<longleftrightarrow>
     (\<forall>e \<in> set (ag_results a). cached_ok a e) \<and>
     set (ag_used_keys a) \<subseteq> (key_of \<circ> fst) ` set (ag_results a) \<and>
     distinct (map (key_of \<circ> fst) (ag_results a))"

text \<open>The guard has counted every call and every endpoint bound for a child since its envelope was granted.\<close>

definition counted :: "agent \<Rightarrow> guard \<Rightarrow> bool" where
  "counted a g \<longleftrightarrow>
     length (ag_calls a) + length (ag_bound a) \<le> ag_granted a + ag_granted_bound a + g_steps g \<and>
     length (ag_bound a) \<le> ag_granted_bound a + g_children g \<and>
     ag_granted a \<le> length (ag_calls a) \<and> ag_granted_bound a \<le> length (ag_bound a)"

definition envelope_inv :: "agent \<Rightarrow> bool" where
  "envelope_inv a \<longleftrightarrow> (\<forall>g. ag_guard a = Some g \<longrightarrow> guard_ok g \<and> counted a g)"

definition sent_ok :: "frames \<Rightarrow> bool" where
  "sent_ok fs \<longleftrightarrow>
     (\<exists>k. validate_ack k = Inr () \<and> fs = ack_frames k) \<or>
     (\<exists>hmac secret m. valid_response m \<and> fs = response_frames hmac secret m)"

definition agent_inv :: "agent \<Rightarrow> bool" where
  "agent_inv a \<longleftrightarrow> cache_inv a \<and> envelope_inv a \<and> (\<forall>fs \<in> set (ag_outbox a). sent_ok fs)"

text \<open>How an agent evolves: its cache and its outbox only grow, and a task is not called again
  under a correlation id that has been served.\<close>

definition calls_under :: "string \<times> string \<Rightarrow> agent \<Rightarrow> fingerprint list" where
  "calls_under k a = filter (\<lambda>f. key_of f = k) (ag_calls a)"

definition evolves :: "agent \<Rightarrow> agent \<Rightarrow> bool" where
  "evolves a b \<longleftrightarrow>
     ag_config b = ag_config a \<and> (\<exists>new. ag_results b = new @ ag_results a) \<and>
     set (ag_used_keys a) \<subseteq> set (ag_used_keys b) \<and>
     (\<forall>k \<in> set (ag_used_keys a). calls_under k b = calls_under k a) \<and>
     (\<exists>sent. ag_outbox b = ag_outbox a @ sent)"

lemma evolves_refl: "evolves a a"
  by (simp add: evolves_def)

lemma evolves_trans: "evolves a b \<Longrightarrow> evolves b c \<Longrightarrow> evolves a c"
  unfolding evolves_def by (metis (no_types, lifting) append.assoc subset_iff)

interpretation ag: agent_relation agent_inv evolves
  by unfold_locales (auto intro: evolves_refl evolves_trans)

text \<open>The fields the invariant looks at; a call that changes none of them is safe.\<close>

definition view where
  "view a = (ag_config a, ag_results a, ag_used_keys a, ag_guard a, ag_calls a, ag_granted a, ag_bound a,
     ag_granted_bound a, ag_outbox a)"

lemma view_eq:
  "view b = view a \<longleftrightarrow>
     ag_config b = ag_config a \<and> ag_results b = ag_results a \<and> ag_used_keys b = ag_used_keys a \<and> ag_guard b = ag_guard a \<and>
     ag_calls b = ag_calls a \<and> ag_granted b = ag_granted a \<and> ag_bound b = ag_bound a \<and>
     ag_granted_bound b = ag_granted_bound a \<and> ag_outbox b = ag_outbox a"
  by (auto simp: view_def)

lemma view_kept: "agent_inv a \<Longrightarrow> view b = view a \<Longrightarrow> kept agent_inv evolves a b"
  unfolding view_eq kept_def agent_inv_def cache_inv_def cached_ok_def envelope_inv_def counted_def evolves_def calls_under_def by auto

lemma outbox_kept: "agent_inv a \<Longrightarrow> sent_ok fs \<Longrightarrow> kept agent_inv evolves a (a\<lparr>ag_outbox := ag_outbox a @ [fs]\<rparr>)"
  by (auto simp: kept_def agent_inv_def cache_inv_def cached_ok_def envelope_inv_def counted_def evolves_def calls_under_def)

lemma send_safe: "ag.safe (send w m)"
proof (rule ag.safeI)
  fix a assume "agent_inv a"
  moreover have "sent_ok (response_frames (w_hmac w) (cf_secret (ag_config a)) m)" if "validate_response m = Inr ()"
    using that by (auto simp: sent_ok_def valid_response_def)
  ultimately show "kept agent_inv evolves a (snd (send w m a))"
    by (auto simp: send_def intro: ag.kept_refl outbox_kept split: sum.splits)
qed

lemma ack_safe: "ag.safe (send_ack cid)"
  by (rule ag.safeI)
    (auto simp: send_ack_def Let_def sent_ok_def intro!: ag.kept_refl outbox_kept split: sum.splits)

lemma record_audit_view: "view (snd (record_audit w ev a)) = view a"
proof (cases "ag_trajectory_store a")
  case None
  then show ?thesis by (simp add: record_audit_def)
next
  case (Some s)
  obtain r dk where "record_event (w_real_text w) s ev (ag_disk a) = (r, dk)" by force
  then show ?thesis using Some by (cases r) (simp_all add: record_audit_def view_eq)
qed

lemma audit_trail_safe: "ag.safe (record_audit w ev)"
  by (rule ag.safeI) (rule view_kept [OF _ record_audit_view])

lemma kill_view: "view (kill a) = view a"
  by (simp add: view_eq kill_def)

section \<open>The handlers\<close>

lemma granted_kept:
  assumes "agent_inv a" "guard_ok g"
  shows "kept agent_inv evolves a (a\<lparr>ag_guard := Some g, ag_granted := length (ag_calls a), ag_granted_bound := length (ag_bound a)\<rparr>)"
  using assms by (simp add: kept_def agent_inv_def cache_inv_def cached_ok_def envelope_inv_def counted_def evolves_def calls_under_def)

lemma grant_envelope_safe: "ag.safe (grant_envelope p)"
  by (rule ag.safeI)
    (auto simp: grant_envelope_def result_simps intro!: ag.kept_refl granted_kept mk_guard_ok split: pyval.splits sum.splits)

lemma view_update_kept:
  "agent_inv a \<Longrightarrow> kept agent_inv evolves a (a\<lparr>ag_rules := rs\<rparr>)"
  "agent_inv a \<Longrightarrow> kept agent_inv evolves a (a\<lparr>ag_verifier := v\<rparr>)"
  "agent_inv a \<Longrightarrow> kept agent_inv evolves a (a\<lparr>ag_registry := rg\<rparr>)"
  "agent_inv a \<Longrightarrow> kept agent_inv evolves a (a\<lparr>ag_disk := dk\<rparr>)"
  "agent_inv a \<Longrightarrow> kept agent_inv evolves a (a\<lparr>ag_delegated := ds\<rparr>)"
  "agent_inv a \<Longrightarrow> kept agent_inv evolves a (a\<lparr>ag_child_out := out\<rparr>)"
  by (rule view_kept, assumption, simp add: view_eq)+

lemma grants_safe: "ag.safe (grant_state w p)" "ag.safe (grant_trajectory w p)"
  by (rule ag.safeI, rule view_kept, assumption,
      auto simp: view_eq grant_state_def grant_trajectory_def split: option.splits prod.splits sum.splits)+

lemma configure_agent_safe: "ag.safe (configure w d)"
  by (intro ag.configure_safe view_update_kept grant_envelope_safe grants_safe)

lemma do_state_set_safe: "ag.safe (do_state_set d)"
  by (rule ag.safeI, rule view_kept, assumption,
      auto simp: view_eq do_state_set_def fail_def ok_def split: option.splits pyval.splits prod.splits sum.splits)

lemma violation_None: "violation w k p a = None \<longleftrightarrow> (\<forall>g. ag_guard a = Some g \<longrightarrow> check_directive (w_late w) k p g = None)"
  by (simp add: violation_def split: option.splits)

lemma count_step_fields [simp]:
  "ag_config (count_step s a) = ag_config a" "ag_results (count_step s a) = ag_results a"
  "ag_used_keys (count_step s a) = ag_used_keys a" "ag_calls (count_step s a) = ag_calls a"
  "ag_granted (count_step s a) = ag_granted a" "ag_bound (count_step s a) = ag_bound a"
  "ag_granted_bound (count_step s a) = ag_granted_bound a" "ag_outbox (count_step s a) = ag_outbox a"
  "ag_registry (count_step s a) = ag_registry a" "ag_verifier (count_step s a) = ag_verifier a"
  "ag_parent (count_step s a) = ag_parent a" "ag_guard (count_step s a) = map_option (record_step s) (ag_guard a)"
  by (simp_all add: count_step_def split: option.splits)

text \<open>A counted spawn binds at most one endpoint.\<close>

lemma spawned_kept:
  assumes inv: "agent_inv a" and v: "violation w ''spawn'' p a = None" and bs: "length bs \<le> 1"
  shows "kept agent_inv evolves a ((count_step True a)\<lparr>ag_bound := ag_bound a @ bs\<rparr>)" (is "kept _ _ a ?b")
proof -
  have "envelope_inv ?b"
    using inv v bs record_step_ok [of _ _ "''spawn''" p True]
    by (auto simp: agent_inv_def envelope_inv_def counted_def violation_None split: option.splits)
  then show ?thesis
    using inv by (simp add: kept_def agent_inv_def cache_inv_def cached_ok_def evolves_def calls_under_def)
qed

text \<open>A call under a key that is not in use, together with its step.\<close>

lemma call_kept:
  assumes inv: "agent_inv a" and v: "violation w ''run'' p a = None"
    and fresh: "(d_cid d, d_kind d) \<notin> set (ag_used_keys a)"
  shows "kept agent_inv evolves a ((count_step False a)\<lparr>ag_calls := ag_calls a @ [fingerprint d]\<rparr>)" (is "kept _ _ a ?b")
proof -
  have "cache_inv ?b"
    using inv by (auto simp: agent_inv_def cache_inv_def cached_ok_def)
  moreover have "envelope_inv ?b"
    using inv v record_step_ok [of _ _ "''run''" p False]
    by (auto simp: agent_inv_def envelope_inv_def counted_def violation_None split: option.splits)
  moreover have "calls_under k ?b = calls_under k a" if "k \<in> set (ag_used_keys a)" for k
    using that fresh by (auto simp: calls_under_def key_of_def fingerprint_def)
  ultimately show ?thesis
    using inv by (simp add: kept_def agent_inv_def evolves_def)
qed

lemma conclude_kept:
  assumes inv: "agent_inv a" and fresh: "(d_cid d, d_kind d) \<notin> set (ag_used_keys a)"
    and "fingerprint d \<in> set (ag_calls a)"
  shows "kept agent_inv evolves a (snd (conclude d task p v verified a))" (is "kept _ _ a ?b")
proof -
  define r where "r = (case fst (conclude d task p v verified a) of Inr r \<Rightarrow> r | Inl _ \<Rightarrow> undefined)"
  have b: "?b = a\<lparr>ag_results := (fingerprint d, r) # ag_results a, ag_used_keys := (d_cid d, d_kind d) # ag_used_keys a\<rparr>"
    and r: "r_cid r = d_cid d" "r_node r = PStr (identity a)" "r_kind r = (if verified then ''result'' else ''error'')"
      "r_verified r = PBool verified" "r_value r = (if verified then v else PNone)"
      "r_confidence r = PNone" "r_error r = PNone \<or> is_str (r_error r)"
    by (simp_all add: r_def conclude_def Let_def)
  have "settled r" using r by (simp add: settled_def)
  then have "cached_ok ?b (fingerprint d, r)"
    using assms(3) r by (simp add: b cached_ok_def key_of_def fingerprint_def)
  moreover have "(d_cid d, d_kind d) \<notin> (key_of \<circ> fst) ` set (ag_results a)"
    using inv fresh by (auto simp: agent_inv_def cache_inv_def cached_ok_def)
  ultimately have "cache_inv ?b"
    using inv by (auto simp: b agent_inv_def cache_inv_def cached_ok_def key_of_def fingerprint_def)
  then show ?thesis
    using inv by (auto simp: b kept_def agent_inv_def envelope_inv_def counted_def evolves_def calls_under_def)
qed

lemma execute_kept:
  assumes inv: "agent_inv a" and v: "violation w ''run'' (d_payload d) a = None"
    and fresh: "(d_cid d, d_kind d) \<notin> set (ag_used_keys a)"
  shows "kept agent_inv evolves a (snd (execute w d task fn p a))"
proof -
  define b where "b = (count_step False a)\<lparr>ag_calls := ag_calls a @ [fingerprint d]\<rparr>"
  have k: "kept agent_inv evolves a b"
    unfolding b_def by (rule call_kept [OF inv v fresh])
  then have b: "agent_inv b" by (simp add: kept_def)
  have "(d_cid d, d_kind d) \<notin> set (ag_used_keys b)" "fingerprint d \<in> set (ag_calls b)"
    using fresh by (simp_all add: b_def)
  then have "kept agent_inv evolves b (snd (conclude d task p v ok b))" for v ok
    using conclude_kept [OF b] by blast
  then have "kept agent_inv evolves a (snd (conclude d task p v ok b))" for v ok
    using ag.kept_trans k by blast
  then show ?thesis
    unfolding execute_def Let_def b_def [symmetric]
    using k ag.kept_fail_after [OF k] by (simp split: sum.splits)
qed

lemma run_task_safe: "ag.safe (run_task w d)"
  by (rule ag.safeI)
    (auto simp: run_task_def intro!: ag.kept_intros intro: execute_kept
      split: option.splits pyval.splits sum.splits)

definition binds :: "agent \<Rightarrow> agent \<Rightarrow> bool" where
  "binds a b \<longleftrightarrow> (\<exists>bs. length bs \<le> 1 \<and> view b = view (a\<lparr>ag_bound := ag_bound a @ bs\<rparr>))"

lemma binds_none: "binds a a" "binds a (snd (fail d t a))"
  by (auto simp: binds_def fail_def intro!: exI [of _ "[]"])

lemma binds_one: "view b = view (a\<lparr>ag_bound := ag_bound a @ [r]\<rparr>) \<Longrightarrow> binds a b"
  by (auto simp: binds_def intro!: exI [of _ "[r]"])

lemma provision_binds: "binds a (snd (provision w d i ep r a))"
proof -
  have one: "binds a (a\<lparr>ag_bound := ag_bound a @ [r]\<rparr>)" by (rule binds_one) simp
  have child: "binds a (a\<lparr>ag_bound := ag_bound a @ [r], ag_children := cs, ag_child_agents := as\<rparr>)" for cs as
    by (rule binds_one) (simp add: view_eq)
  show ?thesis
    using one child binds_none by (simp add: provision_def Let_def fail_def split: option.split pyval.split)
qed

lemma spawn_fresh_binds: "binds a (snd (spawn_fresh w d p i ep a))"
  by (auto simp: spawn_fresh_def Let_def intro: provision_binds binds_none split: option.splits sum.splits if_splits)

lemma spawn_safe: "ag.safe (spawn w d)"
proof (rule ag.safeI)
  fix a assume a: "agent_inv a"
  have step: "kept agent_inv evolves a (snd (spawn_fresh w d p i ep (count_step True a)))"
    if "violation w ''spawn'' (d_payload d) a = None" for p i ep
  proof -
    obtain bs where bs: "length bs \<le> 1" and
      v: "view (snd (spawn_fresh w d p i ep (count_step True a))) = view ((count_step True a)\<lparr>ag_bound := ag_bound a @ bs\<rparr>)"
      using spawn_fresh_binds [of "count_step True a" w d p i ep] unfolding binds_def by auto
    have k: "kept agent_inv evolves a ((count_step True a)\<lparr>ag_bound := ag_bound a @ bs\<rparr>)"
      by (rule spawned_kept [OF a that bs])
    then have "agent_inv ((count_step True a)\<lparr>ag_bound := ag_bound a @ bs\<rparr>)" by (simp add: kept_def)
    from ag.kept_trans [OF k view_kept [OF this v]] show ?thesis .
  qed
  show "kept agent_inv evolves a (snd (spawn w d a))"
    using a by (auto simp: spawn_def Let_def intro!: ag.kept_intros intro: step split: pyval.splits option.splits sum.splits)
qed

lemma handle_safe: "ag.safe (handle w d)"
proof (rule ag.safeI)
  fix a assume a: "agent_inv a"
  have kill: "kept agent_inv evolves a (kill a)" by (rule view_kept [OF a kill_view])
  have register: "ag.safe (register_capability d)"
    by (intro ag.register_capability_safe view_update_kept)
  note parts = configure_agent_safe run_task_safe spawn_safe register ag.resolve_capability_safe do_state_set_safe
    ag.do_state_get_safe ag.audit_directive_safe
  show "kept agent_inv evolves a (snd (handle w d a))"
    unfolding handle_def Let_def
    using parts [THEN ag.safeD, OF a] ag.kept_ok [OF a] ag.kept_fail [OF a] ag.kept_ok_after [OF kill] by simp
qed

interpretation ag: agent_loop agent_inv evolves
  by unfold_locales (intro send_safe ack_safe audit_trail_safe handle_safe view_update_kept; assumption)+

section \<open>Reachable agents\<close>

text \<open>An agent is born, connects, is configured by its parent object, told the kinds of children it
  may spawn, handed directives directly, polled and killed, each in any environment, in any order, and whether or not the
  call raises; other agents write its files.\<close>

inductive reach :: "agent \<Rightarrow> bool" where
  born: "reach (initial_agent c dk)"
| connected: "reach a \<Longrightarrow> reach (snd (init w a))"
| configured: "reach a \<Longrightarrow> reach (snd (configure w d a))"
| declared: "reach a \<Longrightarrow> reach (snd (declare_child_kind k cls a))"
| handled: "reach a \<Longrightarrow> reach (snd (handle w d a))"
| polled: "reach a \<Longrightarrow> reach (snd (poll w i a))"
| killed: "reach a \<Longrightarrow> reach (kill a)"
| foreign: "reach a \<Longrightarrow> reach (a\<lparr>ag_disk := dk\<rparr>)"

lemma init_view: "view (snd (init w a)) = view a"
  by (auto simp: init_def Let_def view_eq split: option.splits)

lemma declare_view: "view (snd (declare_child_kind k c a)) = view a"
  by (auto simp: declare_child_kind_def view_eq)

lemma initial_inv: "agent_inv (initial_agent c dk)"
  by (simp add: agent_inv_def cache_inv_def envelope_inv_def initial_agent_def)

lemma reach_agent_inv: "reach a \<Longrightarrow> agent_inv a"
proof (induction rule: reach.induct)
  case (configured a w d)
  then show ?case using ag.safeD [OF configure_agent_safe] by (simp add: kept_def)
next
  case (polled a w i)
  then show ?case using ag.safeD [OF ag.poll_safe] by (simp add: kept_def)
next
  case (handled a w d)
  then show ?case using ag.safeD [OF handle_safe] by (simp add: kept_def)
next
  case (connected a w)
  then show ?case using view_kept [OF _ init_view] by (simp add: kept_def)
next
  case (declared a k c)
  then show ?case using view_kept [OF _ declare_view] by (simp add: kept_def)
next
  case (killed a)
  then show ?case using view_kept [OF _ kill_view] by (simp add: kept_def)
next
  case (foreign a dk)
  then show ?case using view_update_kept(4) by (simp add: kept_def)
qed (rule initial_inv)

end
