(* ===== verification/Agent_Spawn.thy ===== *)
theory Agent_Spawn
  imports Agent_Inv
begin

text \<open>
  What an agent binds and whom it governs: every endpoint it has bound obeys the trust boundary
  of its configuration, and every child it holds has a socket and inherits the security profile, the
  integrity secret and the catalog of its parent.
\<close>

definition permitted :: "config \<Rightarrow> string \<Rightarrow> bool" where
  "permitted c e \<longleftrightarrow> (starts_with ''tcp://'' e \<longrightarrow> check_tcp_bind (drop 6 e) (cf_security c) = None)"

definition inherits :: "config \<Rightarrow> config \<Rightarrow> bool" where
  "inherits c k \<longleftrightarrow> cf_security k = cf_security c \<and> cf_secret k = cf_secret c \<and> cf_catalog k = cf_catalog c \<and>
     cf_transport k = cf_transport c \<and> cf_shared_context k"

definition spawn_inv :: "agent \<Rightarrow> bool" where
  "spawn_inv a \<longleftrightarrow>
     (\<forall>e \<in> set (ag_bound a). permitted (ag_config a) e) \<and>
     (\<forall>kv \<in> set (ag_children a). snd kv \<in> set (ag_bound a)) \<and>
     dkeys (ag_children a) = dkeys (ag_child_agents a) \<and> distinct (dkeys (ag_child_agents a)) \<and>
     (\<forall>kv \<in> set (ag_child_agents a). cf_identity (snd kv) = fst kv \<and> inherits (ag_config a) (snd kv))"

definition same_config :: "agent \<Rightarrow> agent \<Rightarrow> bool" where
  "same_config a b \<longleftrightarrow> ag_config b = ag_config a"

interpretation sp: agent_relation spawn_inv same_config
  by unfold_locales (simp_all add: same_config_def)

definition socket_view where
  "socket_view a = (ag_config a, ag_bound a, ag_children a, ag_child_agents a)"

lemma socket_view_eq:
  "socket_view b = socket_view a \<longleftrightarrow> ag_config b = ag_config a \<and> ag_bound b = ag_bound a \<and>
     ag_children b = ag_children a \<and> ag_child_agents b = ag_child_agents a"
  by (auto simp: socket_view_def)

lemma socket_view_kept: "spawn_inv a \<Longrightarrow> socket_view b = socket_view a \<Longrightarrow> kept spawn_inv same_config a b"
  by (simp add: socket_view_eq kept_def spawn_inv_def same_config_def)

lemma socket_updates_kept:
  "spawn_inv a \<Longrightarrow> kept spawn_inv same_config a (a\<lparr>ag_rules := rs\<rparr>)"
  "spawn_inv a \<Longrightarrow> kept spawn_inv same_config a (a\<lparr>ag_verifier := v\<rparr>)"
  "spawn_inv a \<Longrightarrow> kept spawn_inv same_config a (a\<lparr>ag_registry := rg\<rparr>)"
  "spawn_inv a \<Longrightarrow> kept spawn_inv same_config a (a\<lparr>ag_delegated := ds\<rparr>)"
  "spawn_inv a \<Longrightarrow> kept spawn_inv same_config a (a\<lparr>ag_child_out := out\<rparr>)"
  by (rule socket_view_kept, assumption, simp add: socket_view_eq)+

lemma count_step_sockets [simp]: "socket_view (count_step s a) = socket_view a"
  by (simp add: count_step_def socket_view_def split: option.splits)

lemma dkeys_dput: "dkeys (dput k v d) = (if k \<in> set (dkeys d) then dkeys d else dkeys d @ [k])"
  by (induction d) (auto simp: dkeys_def dput_def)

lemma set_dput: "set (dput k v d) \<subseteq> insert (k, v) (set d)"
  by (induction d) (auto simp: dput_def)

lemma provision_kept:
  assumes inv: "spawn_inv a" and ok: "permitted (ag_config a) resolved"
  shows "kept spawn_inv same_config a (snd (provision w d ident ep resolved a))"
proof -
  have bound: "kept spawn_inv same_config a (a\<lparr>ag_bound := ag_bound a @ [resolved]\<rparr>)"
    using inv ok by (auto simp: kept_def spawn_inv_def same_config_def)
  have child: "kept spawn_inv same_config a (a\<lparr>ag_bound := ag_bound a @ [resolved], ag_children := dput i resolved (ag_children a),
       ag_child_agents := dput i (child_config a i ep') (ag_child_agents a)\<rparr>)" for i ep'
  proof -
    have "snd kv \<in> insert resolved (set (ag_bound a))" if "kv \<in> set (dput i resolved (ag_children a))" for kv
      using that inv set_dput [of i resolved "ag_children a"] by (auto simp: spawn_inv_def)
    moreover have "cf_identity (snd kv) = fst kv \<and> inherits (ag_config a) (snd kv)"
      if "kv \<in> set (dput i (child_config a i ep') (ag_child_agents a))" for kv
      using that inv set_dput [of i "child_config a i ep'" "ag_child_agents a"]
      by (auto simp: spawn_inv_def child_config_def inherits_def)
    ultimately show ?thesis
      using inv ok by (auto simp: kept_def spawn_inv_def same_config_def dkeys_dput)
  qed
  show ?thesis
    using inv bound child by (auto simp: provision_def fail_def Let_def intro: sp.kept_refl split: option.splits pyval.splits)
qed

lemma spawn_fresh_kept:
  assumes inv: "spawn_inv a"
  shows "kept spawn_inv same_config a (snd (spawn_fresh w d p ident ep a))"
proof -
  have "permitted (ag_config a) r" if "starts_with ''tcp://'' r \<Longrightarrow> check_tcp_bind (drop 6 r) (cf_security (ag_config a)) = None" for r
    using that by (simp add: permitted_def)
  then have "kept spawn_inv same_config a (snd (provision w d ident ep r a))"
    if "starts_with ''tcp://'' r \<Longrightarrow> check_tcp_bind (drop 6 r) (cf_security (ag_config a)) = None" for r
    using provision_kept [OF inv] that by blast
  then show ?thesis
    using inv by (auto simp: spawn_fresh_def Let_def intro!: sp.kept_intros split: option.splits sum.splits)
qed

lemma spawn_socket_safe: "sp.safe (spawn w d)"
proof (rule sp.safeI)
  fix a assume a: "spawn_inv a"
  have k: "kept spawn_inv same_config a (count_step True a)" by (rule socket_view_kept [OF a]) simp
  then have step: "kept spawn_inv same_config a (snd (spawn_fresh w d p i ep (count_step True a)))" for p i ep
    using sp.kept_trans spawn_fresh_kept unfolding kept_def by blast
  show "kept spawn_inv same_config a (snd (spawn w d a))"
    using a by (auto simp: spawn_def Let_def intro!: sp.kept_intros intro: step split: pyval.splits option.splits sum.splits)
qed

lemma grant_envelope_sockets: "socket_view (snd (grant_envelope p a)) = socket_view a"
  by (auto simp: grant_envelope_def socket_view_def split: pyval.splits sum.splits)

lemma run_task_sockets: "socket_view (snd (run_task w d a)) = socket_view a"
proof -
  have "socket_view (snd (execute w d t f p a)) = socket_view a" for t f p
    by (auto simp: execute_def conclude_def fail_def Let_def socket_view_def count_step_def split: sum.splits option.splits)
  then show ?thesis
    by (auto simp: run_task_def fail_def split: option.splits pyval.splits sum.splits)
qed

lemma record_audit_sockets: "socket_view (snd (record_audit w ev a)) = socket_view a"
proof (cases "ag_trajectory_store a")
  case None
  then show ?thesis by (simp add: record_audit_def)
next
  case (Some s)
  obtain r dk where "record_event (w_real_text w) s ev (ag_disk a) = (r, dk)" by force
  then show ?thesis using Some by (cases r) (simp_all add: record_audit_def socket_view_def)
qed

lemma configure_socket_safe: "sp.safe (configure w d)"
proof (rule sp.configure_safe)
  show "sp.safe (grant_envelope p)" for p
    by (rule sp.safeI) (rule socket_view_kept [OF _ grant_envelope_sockets])
  show "sp.safe (grant_state w p)" "sp.safe (grant_trajectory w p)" for p
    by (rule sp.safeI, rule socket_view_kept, assumption,
        auto simp: socket_view_eq grant_state_def grant_trajectory_def split: option.splits prod.splits sum.splits)+
qed (simp_all add: socket_updates_kept)

lemma do_state_set_sockets: "socket_view (snd (do_state_set d a)) = socket_view a"
  by (auto simp: socket_view_eq do_state_set_def fail_def ok_def split: option.splits pyval.splits prod.splits sum.splits)

lemma kill_spawn_inv: "spawn_inv a \<Longrightarrow> kept spawn_inv same_config a (kill a)"
  by (simp add: spawn_inv_def kept_def kill_def dkeys_def same_config_def)

lemma handle_socket_safe: "sp.safe (handle w d)"
proof (rule sp.safeI)
  fix a assume a: "spawn_inv a"
  have register: "sp.safe (register_capability d)"
    by (intro sp.register_capability_safe socket_updates_kept)
  have "kept spawn_inv same_config a (snd (run_task w d a))" "kept spawn_inv same_config a (snd (do_state_set d a))"
    using socket_view_kept [OF a] run_task_sockets do_state_set_sockets by blast+
  moreover note parts = configure_socket_safe spawn_socket_safe register sp.resolve_capability_safe
    sp.do_state_get_safe sp.audit_directive_safe
  ultimately show "kept spawn_inv same_config a (snd (handle w d a))"
    unfolding handle_def Let_def
    using parts [THEN sp.safeD, OF a] sp.kept_ok [OF a] sp.kept_fail [OF a] sp.kept_ok_after [OF kill_spawn_inv [OF a]] by simp
qed

interpretation sp: agent_loop spawn_inv same_config
proof unfold_locales
  show "sp.safe (send w m)" for w m
    by (rule sp.safeI, rule socket_view_kept, assumption) (auto simp: send_def socket_view_def split: sum.splits)
  show "sp.safe (send_ack c)" for c
    by (rule sp.safeI, rule socket_view_kept, assumption) (auto simp: send_ack_def Let_def socket_view_def split: sum.splits)
  show "sp.safe (record_audit w ev)" for w ev
    by (rule sp.safeI) (rule socket_view_kept [OF _ record_audit_sockets])
qed (simp_all add: handle_socket_safe socket_updates_kept)

lemma reach_spawn_inv: "reach a \<Longrightarrow> spawn_inv a"
proof (induction rule: reach.induct)
  case (born c dk)
  show ?case by (simp add: spawn_inv_def initial_agent_def dkeys_def)
next
  case (connected a w)
  have "socket_view (snd (init w a)) = socket_view a"
    by (auto simp: init_def Let_def socket_view_def split: option.splits)
  then show ?case using connected socket_view_kept by (simp add: kept_def)
next
  case (configured a w d)
  then show ?case using sp.safeD [OF configure_socket_safe] by (simp add: kept_def)
next
  case (handled a w d)
  then show ?case using sp.safeD [OF handle_socket_safe] by (simp add: kept_def)
next
  case (declared a k cls)
  have "socket_view (snd (declare_child_kind k cls a)) = socket_view a"
    by (simp add: declare_child_kind_def socket_view_def)
  then show ?case using declared socket_view_kept by (simp add: kept_def)
next
  case (polled a w i)
  then show ?case using sp.safeD [OF sp.poll_safe] by (simp add: kept_def)
next
  case (killed a)
  then show ?case using kill_spawn_inv by (simp add: kept_def)
next
  case (foreign a dk)
  have "socket_view (a\<lparr>ag_disk := dk\<rparr>) = socket_view a" by (simp add: socket_view_def)
  then show ?case using foreign socket_view_kept by (simp add: kept_def)
qed

end
