(* ===== verification/Agent_Trail.thy ===== *)
theory Agent_Trail
  imports Agent_Inv
begin

text \<open>
  The audit trail of an agent is append-only: whatever an agent is told, and whether or not a
  poll raises, an event that a trajectory file holds stays as it is.
\<close>

definition event_at :: "disk \<Rightarrow> string \<Rightarrow> string \<Rightarrow> event option" where
  "event_at dk path cid = (case events_tab (file_at dk path) of None \<Rightarrow> None | Some t \<Rightarrow> dget t cid)"

definition trail_grows :: "disk \<Rightarrow> disk \<Rightarrow> bool" where
  "trail_grows dk dk' \<longleftrightarrow> (\<forall>path cid ev. event_at dk path cid = Some ev \<longrightarrow> event_at dk' path cid = Some ev)"

abbreviation agent_trail :: "agent \<Rightarrow> agent \<Rightarrow> bool" where
  "agent_trail a b \<equiv> trail_grows (ag_disk a) (ag_disk b)"

abbreviation always :: "agent \<Rightarrow> bool" where "always \<equiv> (\<lambda>_. True)"

lemma trail_refl: "trail_grows dk dk"
  by (simp add: trail_grows_def)

interpretation tr: agent_relation always agent_trail
  by unfold_locales (auto simp: trail_grows_def)

lemma kept_same_disk: "ag_disk b = ag_disk a \<Longrightarrow> kept always agent_trail a b"
  by (simp add: kept_def trail_refl)

section \<open>Effects on the disk\<close>

lemma trail_write:
  assumes "\<And>t cid ev. events_tab (file_at dk p) = Some t \<Longrightarrow> dget t cid = Some ev \<Longrightarrow>
      \<exists>t'. events_tab f = Some t' \<and> dget t' cid = Some ev"
  shows "trail_grows dk (dput p f dk)"
  using assms by (fastforce simp: trail_grows_def event_at_def split: option.splits)

lemma trail_create_events: "trail_grows dk (dput p (create_events (file_at dk p)) dk)"
  by (rule trail_write) (simp add: create_events_def)

lemma trail_create_state: "trail_grows dk (dput p (create_state (file_at dk p)) dk)"
  by (rule trail_write) simp

lemma open_state_trail: "trail_grows dk (snd (open_state opn p ro dk))"
  by (auto simp: open_state_def open_base_def mk_store_def trail_refl trail_create_state split: option.splits)

lemma open_trajectory_trail: "trail_grows dk (snd (open_trajectory opn p dk))"
  by (auto simp: open_trajectory_def open_base_def mk_store_def trail_refl trail_create_events split: option.splits)

lemma state_set_trail: "trail_grows dk (snd (state_set s k v fp dk))"
  by (auto simp: state_set_def trail_refl intro: trail_write split: sum.splits)

lemma put_fresh_keeps: "dget t cid = Some ev \<Longrightarrow> dget (put_fresh k v t) cid = Some ev"
  by (auto simp: put_fresh_def dict_simps)

lemma record_event_trail: "trail_grows dk (snd (record_event rt s e dk))"
proof (cases rule: record_event_cases [of s dk e rt])
  case (stored t ev)
  show ?thesis unfolding stored(4) snd_conv
  proof (rule trail_write)
    fix t' cid ev' assume "events_tab (file_at dk (st_path s)) = Some t'" "dget t' cid = Some ev'"
    then have "t' = t" "dget t cid = Some ev'" using stored(1) by (auto simp: event_rows_def)
    then show "\<exists>t'. events_tab (file_at dk (st_path s)\<lparr>events_tab := Some (put_fresh (ae_cid e) ev t)\<rparr>) = Some t' \<and> dget t' cid = Some ev'"
      by (simp add: put_fresh_keeps)
  qed
next
  case (refused x)
  then show ?thesis by (simp add: trail_refl)
qed

section \<open>Every poll\<close>

lemma record_audit_kept: "kept always agent_trail a (snd (record_audit w ev a))"
proof (cases "ag_trajectory_store a")
  case None
  then show ?thesis by (simp add: record_audit_def kept_same_disk)
next
  case (Some s)
  obtain r dk where "record_event (w_real_text w) s ev (ag_disk a) = (r, dk)" by force
  then show ?thesis
    using Some record_event_trail [of "ag_disk a" "w_real_text w" s ev]
    by (cases r) (simp_all add: record_audit_def kept_def)
qed

lemma grant_state_kept: "kept always agent_trail a (snd (grant_state w p a))"
proof (cases "name_of (dget_or p ''state'' PNone)")
  case None
  then show ?thesis by (simp add: grant_state_def kept_same_disk)
next
  case (Some path)
  obtain r dk where "open_state (w_openable w) path (truthy (dget_or p ''state_read_only'' (PBool False))) (ag_disk a) = (r, dk)"
    by force
  then show ?thesis
    using Some open_state_trail [of "ag_disk a" "w_openable w" path "truthy (dget_or p ''state_read_only'' (PBool False))"]
    by (cases r) (simp_all add: grant_state_def kept_def)
qed

lemma grant_trajectory_kept: "kept always agent_trail a (snd (grant_trajectory w p a))"
proof (cases "name_of (dget_or p ''trajectory'' PNone)")
  case None
  then show ?thesis by (simp add: grant_trajectory_def kept_same_disk)
next
  case (Some path)
  obtain r dk where "open_trajectory (w_openable w) path (ag_disk a) = (r, dk)" by force
  then show ?thesis
    using Some open_trajectory_trail [of "ag_disk a" "w_openable w" path]
    by (cases r) (simp_all add: grant_trajectory_def kept_def)
qed

lemma do_state_set_kept: "kept always agent_trail a (snd (do_state_set d a))"
proof -
  have "trail_grows (ag_disk a) dk" if "state_set s k v fp (ag_disk a) = (r, dk)" for s k v fp r dk
    using state_set_trail [of "ag_disk a" s k v fp] that by simp
  then show ?thesis
    by (auto simp: do_state_set_def fail_def ok_def kept_def trail_refl split: option.splits pyval.splits prod.splits sum.splits)
qed

lemma disk_frame:
  "ag_disk (snd (grant_envelope p a)) = ag_disk a" "ag_disk (snd (run_task w d a)) = ag_disk a"
  "ag_disk (snd (spawn w d a)) = ag_disk a" "ag_disk (kill a) = ag_disk a"
  by (auto simp: grant_envelope_def run_task_def execute_def conclude_def spawn_def spawn_fresh_def provision_def
      fail_def ok_def kill_def count_step_def Let_def split: pyval.splits sum.splits option.splits)

lemma configure_kept: "kept always agent_trail a (snd (configure w d a))"
proof -
  have "tr.safe (configure w d)"
    by (rule tr.configure_safe)
      (auto intro!: tr.safeI kept_same_disk grant_state_kept grant_trajectory_kept simp: disk_frame)
  then show ?thesis by (rule tr.safeD) simp
qed

lemma handle_trail_safe: "tr.safe (handle w d)"
proof (rule tr.safeI)
  fix a
  have "tr.safe (register_capability d)"
    by (intro tr.register_capability_safe kept_same_disk) simp
  note parts = this tr.resolve_capability_safe tr.do_state_get_safe tr.audit_directive_safe
  have "kept always agent_trail a (snd (run_task w d a))" "kept always agent_trail a (snd (spawn w d a))"
    by (simp_all add: kept_same_disk disk_frame)
  then show "kept always agent_trail a (snd (handle w d a))"
    unfolding handle_def Let_def
    using parts [THEN tr.safeD, OF TrueI] configure_kept do_state_set_kept
      tr.kept_ok tr.kept_fail tr.kept_ok_after [OF kept_same_disk [OF disk_frame(4)]] by simp
qed

interpretation tr: agent_loop always agent_trail
proof unfold_locales
  show "tr.safe (send w m)" for w m
    by (intro tr.safeI kept_same_disk) (auto simp: send_def split: sum.splits)
  show "tr.safe (send_ack c)" for c
    by (intro tr.safeI kept_same_disk) (auto simp: send_ack_def Let_def split: sum.splits)
  show "tr.safe (record_audit w ev)" for w ev
    by (intro tr.safeI record_audit_kept)
qed (simp_all add: handle_trail_safe kept_same_disk)

end
