(* ===== verification/Agent_Wire.thy ===== *)
theory Agent_Wire
  imports Agent_Inv
begin

text \<open>
  The two ends of a link agree: what a parent puts on the socket of a child is the directive that
  the child receives, and what a child answers is the response that the parent reads.
\<close>

lemma decode_utf8 [simp]: "decode w (utf8 s) = Inr s"
  by (simp add: decode_def)

lemma parse_dumps [simp]: "wf_pyval v \<Longrightarrow> parse w (json_dumps v) = Inr v"
  by (simp add: parse_def json_dumps_loads)

lemma wf_attached:
  assumes "wf_pyval (PDict p)" "unreserved p"
  shows "wf_pyval (PDict (attach_integrity hmac secret cid kind p))"
proof (cases secret)
  case None
  then show ?thesis using assms by (simp add: attach_integrity_def)
next
  case (Some k)
  show ?thesis
    using assms unfolding Some attach_fresh [OF assms(2)] unreserved_keys
    by (auto simp: integrity_headers_def)
qed

text \<open>The digest of the environment is never empty: a hexadecimal text of 64 characters.\<close>

definition mac_ok :: "mac \<Rightarrow> bool" where
  "mac_ok hmac \<longleftrightarrow> (\<forall>k m. hmac k m \<noteq> [])"

section \<open>Downwards\<close>

lemma recv_directive_frames:
  assumes "wf_pyval (PDict p)" "unreserved p" "cid \<noteq> []" "kind \<in> set DIRECTIVE_KINDS" "mac_ok (w_hmac w)"
  shows "recv w c (directive_frames (w_hmac w) (cf_secret c) cid kind p) =
     Inr \<lparr>d_cid = cid, d_kind = kind, d_payload = PDict p, d_protocol = PROTOCOL_VERSION\<rparr>"
proof -
  have "verify_and_strip (w_hmac w) (cf_secret c) cid kind (PDict (attach_integrity (w_hmac w) (cf_secret c) cid kind p)) = Inr (PDict p, True)"
    using verify_attached [OF assms(2)] assms(5) by (simp add: mac_ok_def)
  moreover have "validate_directive \<lparr>d_cid = cid, d_kind = kind, d_payload = PDict p, d_protocol = PROTOCOL_VERSION\<rparr> = Inr ()"
    using assms(3,4) by (simp add: valid_directive_iff)
  ultimately show ?thesis
    using wf_attached [OF assms(1,2)] by (simp add: recv_def directive_frames_def Let_def)
qed

lemma wf_delegated:
  assumes "wf_pyval v" shows "wf_pyval (PDict (delegated_payload v))"
  using assms by (cases v) (auto simp: delegated_payload_def list_all_iff distinct_map_filter)

lemma unreserved_filter: "unreserved p \<Longrightarrow> unreserved (filter P p)"
  by (auto simp: unreserved_keys)

section \<open>Upwards\<close>

definition wf_response :: "response \<Rightarrow> bool" where
  "wf_response m \<longleftrightarrow> list_all wf_pyval [r_value m, r_verified m, r_node m, r_error m, r_source m, r_sources m,
     r_confidence m, r_model_record m]"

lemma response_payload_unreserved: "unreserved (response_payload m)"
  by (simp add: unreserved_def response_payload_def INTEGRITY_KEY_def INTEGRITY_DIGEST_KEY_def dget_Cons)

lemma wf_response_payload: "wf_response m \<Longrightarrow> wf_pyval (PDict (response_payload m))"
  by (simp add: wf_response_def response_payload_def)

lemma child_response_of_payload: "valid_response m \<Longrightarrow> child_response_of ident (r_cid m) (r_kind m) (response_payload m) = m"
  by (cases m) (simp add: child_response_of_def response_payload_def dget_or_def dget_Cons validate_response_iff)

lemma handle_child_response:
  assumes "valid_response m" "wf_response m" "mac_ok (w_hmac w)"
  shows "handle_child w a (utf8 ident # response_frames (w_hmac w) (cf_secret (ag_config a)) m) = Inr (Some m)"
proof -
  have "verify_and_strip (w_hmac w) (cf_secret (ag_config a)) (r_cid m) (r_kind m)
      (PDict (attach_integrity (w_hmac w) (cf_secret (ag_config a)) (r_cid m) (r_kind m) (response_payload m))) = Inr (PDict (response_payload m), True)"
    using verify_attached [OF response_payload_unreserved] assms(3) by (simp add: mac_ok_def)
  moreover have "admit_response a ident (r_cid m) (r_kind m) (PDict (response_payload m)) = Inr m"
    using assms(1) child_response_of_payload [OF assms(1)] by (simp add: admit_response_def valid_response_def Let_def)
  ultimately show ?thesis
    using wf_attached [OF wf_response_payload [OF assms(2)] response_payload_unreserved]
    by (simp add: handle_child_def response_frames_def)
qed

lemma handle_child_ack: "handle_child w a (utf8 ident # ack_frames k) = Inr None"
  by (simp add: handle_child_def ack_frames_def)

section \<open>What a link accepts was signed\<close>

text \<open>With a secret, a directive that is received carries the digest of a message that the holder of the
  secret signed; when digests do not collide, it is that message.\<close>

lemma recv_signed:
  assumes "recv w c fs = Inr d" "cf_secret c = Some k"
  shows "\<exists>p digest. dget p INTEGRITY_DIGEST_KEY = Some (PStr digest) \<and> utf8_decode (fs ! 3) \<noteq> None \<and>
     json_loads (the (utf8_decode (fs ! 3))) = Some (PDict p) \<and> d_payload d = PDict (strip_trailer p) \<and>
     verify_payload (w_hmac w) k digest (d_cid d) (d_kind d) (d_payload d)"
proof -
  obtain f0 f1 f2 f3 where fs: "fs = [f0, f1, f2, f3]"
    using assms(1) by (auto simp: recv_def split: list.splits)
  obtain payload clean where got: "bindR (decode w f3) (parse w) = Inr payload"
      "verify_and_strip (w_hmac w) (Some k) (d_cid d) (d_kind d) payload = Inr (clean, True)" "d_payload d = clean"
    using assms(1) unfolding fs assms(2) by (auto simp: recv_def result_simps Let_def assms(2))
  have decoded: "utf8_decode f3 \<noteq> None" "json_loads (the (utf8_decode f3)) = Some payload"
    using got(1) by (auto simp: result_simps decode_def parse_def split: option.splits)
  obtain p where p: "payload = PDict p"
    using got(2) by (auto simp: verify_and_strip_def split: pyval.splits)
  obtain tag digest where "dget p INTEGRITY_DIGEST_KEY = Some (PStr digest)" "clean = PDict (strip_trailer p)"
      "verify_payload (w_hmac w) k digest (d_cid d) (d_kind d) clean"
    using got(2) unfolding p by (auto simp: verify_and_strip_def Let_def split: option.splits pyval.splits)
  then show ?thesis using decoded got(3) unfolding fs p by auto
qed

end
