(* ===== verification/Agent_Props.thy ===== *)
theory Agent_Props
  imports Agent_Spawn Agent_Trail Agent_Wire
begin

text \<open>
  The properties of the agent protocol: idempotent runs, verified results, enforced envelopes, an
  append-only trail, links whose ends agree, signed directives, answered directives.
\<close>

section \<open>Examples\<close>

definition ex_config :: config where
  "ex_config = \<lparr>cf_identity = ''root'', cf_parent_endpoint = ''driver'', cf_transport = ''inproc'', cf_shared_context = True,
     cf_security = ''loopback'', cf_secret = None, cf_catalog = Some [(''t'', mk_entry ''t'' (PStr ''u'') (PStr ''python'') (Some ''f''))]\<rparr>"

definition ex_env :: env where
  "ex_env = \<lparr>w_task = (\<lambda>f p. Inr (PInt 7)), w_bad_call = (\<lambda>f v. ''bad''), w_verifier = (\<lambda>f v. Inr (v = PInt 7)),
     w_hmac = (\<lambda>k m. k @ m), w_late = (\<lambda>b. False), w_decode_error = (\<lambda>s. ''decode''), w_json_error = (\<lambda>s. ''json''),
     w_openable = (\<lambda>p. None), w_real_text = (\<lambda>t. t), w_bind = (\<lambda>e. None), w_connect = (\<lambda>i e. None),
     w_exists = (\<lambda>p. False), w_chmod = (\<lambda>p. None)\<rparr>"

definition ex_run :: directive where
  "ex_run = \<lparr>d_cid = ''c1'', d_kind = ''run'', d_payload = PDict [(''task'', PStr ''t'')], d_protocol = PROTOCOL_VERSION\<rparr>"

definition ex_configure :: directive where
  "ex_configure = \<lparr>d_cid = ''c0'', d_kind = ''configure'',
     d_payload = PDict [(''tasks'', PStrs [''t'']), (''_envelope'', PDict [(''step_limit'', PInt 2)])], d_protocol = PROTOCOL_VERSION\<rparr>"

definition ex_agent :: agent where
  "ex_agent = snd (configure ex_env ex_configure (snd (init ex_env (initial_agent ex_config []))))"

lemma ex_agent_reach: "reach ex_agent"
  unfolding ex_agent_def by (intro reach.intros)

lemma ex_agent_eq:
  "ex_agent = (initial_agent ex_config [])\<lparr>ag_context := True, ag_parent := True, ag_alive := True,
     ag_registry := [(''t'', mk_entry ''t'' (PStr ''u'') (PStr ''python'') (Some ''f''))],
     ag_guard := Some \<lparr>g_envelope = Some \<lparr>step_limit = PInt 2, size_cap = PNone, latency_seconds = PNone, child_limit = PNone, extra = []\<rparr>,
       g_steps = 0, g_children = 0\<rparr>\<rparr>"
  by code_simp

section \<open>Runs\<close>

lemma run_task_cached: "map_of (ag_results a) (fingerprint d) = Some r \<Longrightarrow> run_task w d a = (Inr r, a)"
  by (simp add: run_task_def)

lemma run_task_reused:
  "map_of (ag_results a) (fingerprint d) = None \<Longrightarrow> (d_cid d, d_kind d) \<in> set (ag_used_keys a) \<Longrightarrow>
     run_task w d a = (Inr (error_response a (d_cid d) ''correlation id reused for different directive''), a)"
  by (simp add: run_task_def fail_def)

lemma results_persist:
  assumes "agent_inv a" "agent_inv b" "evolves a b" "map_of (ag_results a) f = Some r"
  shows "map_of (ag_results b) f = Some r"
proof -
  obtain new where new: "ag_results b = new @ ag_results a" using assms(3) by (auto simp: evolves_def)
  have "distinct (map (key_of \<circ> fst) (ag_results b))" using assms(2) by (simp add: agent_inv_def cache_inv_def)
  moreover have "(f, r) \<in> set (ag_results a)" using assms(4) by (rule map_of_SomeD)
  ultimately have "f \<notin> fst ` set new" unfolding new by force
  then show ?thesis using assms(4) by (simp add: new map_add_dom_app_simps dom_map_of_conv_image_fst)
qed

lemma same_key_other_content:
  assumes "agent_inv a" "map_of (ag_results a) (fingerprint d) = Some r"
    and "d_cid d' = d_cid d" "d_kind d' = d_kind d" "canonic (d_payload d') \<noteq> canonic (d_payload d)"
  shows "map_of (ag_results a) (fingerprint d') = None" "(d_cid d', d_kind d') \<in> set (ag_used_keys a)"
proof -
  have mem: "(fingerprint d, r) \<in> set (ag_results a)" using assms(2) by (rule map_of_SomeD)
  have dist: "distinct (map (key_of \<circ> fst) (ag_results a))" using assms(1) by (simp add: agent_inv_def cache_inv_def)
  have "key_of (fingerprint d') = key_of (fingerprint d)" "fingerprint d' \<noteq> fingerprint d"
    using assms(3-5) by (simp_all add: key_of_def fingerprint_def)
  then have "(fingerprint d', r') \<notin> set (ag_results a)" for r'
    using inj_onD [of "key_of \<circ> fst" "set (ag_results a)" "(fingerprint d', r')" "(fingerprint d, r)"] dist mem
    by (auto simp: distinct_map)
  then show "map_of (ag_results a) (fingerprint d') = None" by (metis map_of_SomeD not_None_eq)
  show "(d_cid d', d_kind d') \<in> set (ag_used_keys a)"
    using assms(1,3,4) mem by (auto simp: agent_inv_def cache_inv_def cached_ok_def key_of_def fingerprint_def)
qed

text \<open>C7: Runs are idempotent: once a run directive has been served, the same directive gets the
  same response after any further polls, in any environment, and its task is not called again;
  another payload under its correlation id is refused, also without a call.\<close>

theorem runs_idempotent:
  assumes "reach a" and "map_of (ag_results a) (fingerprint d) = Some r" and "run_loop wis a = (x, b)"
    and "d_cid d' = d_cid d" "d_kind d' = d_kind d" "canonic (d_payload d') \<noteq> canonic (d_payload d)"
  shows "run_task w d b = (Inr r, b) \<and> calls_under (d_cid d, d_kind d) b = calls_under (d_cid d, d_kind d) a \<and>
     run_task w d' b = (Inr (error_response b (d_cid d) ''correlation id reused for different directive''), b)"
proof -
  have a: "agent_inv a" using reach_agent_inv [OF assms(1)] .
  have b: "agent_inv b" "evolves a b"
    using ag.run_loop_safe [OF a, of wis] assms(3) by (simp_all add: kept_def)
  have key: "(d_cid d, d_kind d) \<in> set (ag_used_keys a)"
    using a map_of_SomeD [OF assms(2)] by (auto simp: agent_inv_def cache_inv_def cached_ok_def key_of_def fingerprint_def)
  have cached: "map_of (ag_results b) (fingerprint d) = Some r"
    by (rule results_persist [OF a b assms(2)])
  have "calls_under (d_cid d, d_kind d) b = calls_under (d_cid d, d_kind d) a"
    using b(2) key by (auto simp: evolves_def)
  then show ?thesis
    using run_task_cached [OF cached] run_task_reused [OF same_key_other_content [OF b(1) cached assms(4-6)]] assms(4) by simp
qed

definition ex_served :: agent where
  "ex_served = snd (handle ex_env ex_run ex_agent)"

lemma ex_served_reach: "reach ex_served"
  unfolding ex_served_def by (intro reach.handled ex_agent_reach)

lemma ex_served_result: "map_of (ag_results ex_served) (fingerprint ex_run) =
    Some ((mk_response ''c1'' ''result'' True ''root'')\<lparr>r_value := PInt 7, r_source := PStr ''u''\<rparr>)"
  by code_simp

lemma runs_idempotent_witness:
  "fst (run_task ex_env ex_run (snd (run_loop [] ex_served))) =
     Inr ((mk_response ''c1'' ''result'' True ''root'')\<lparr>r_value := PInt 7, r_source := PStr ''u''\<rparr>)"
proof -
  have "canonic (d_payload (ex_run\<lparr>d_payload := PDict []\<rparr>)) \<noteq> canonic (d_payload ex_run)" by code_simp
  then show ?thesis
    using runs_idempotent [OF ex_served_reach ex_served_result, of "[]" "Inr ()" ex_served "ex_run\<lparr>d_payload := PDict []\<rparr>" ex_env]
    by simp
qed

end
