(* ===== verification/Agent_Protocol.thy ===== *)
theory Agent_Protocol
  imports Agent_Props
begin

text \<open>
  Properties of single exchanges: what a verified result rests on, what is relayed, what a link
  delivers, and that directives are answered.
\<close>

section \<open>The correctness spine\<close>

lemma send_Inr:
  "send w m a = (Inr u, b) \<longleftrightarrow> ag_parent a \<and> valid_response m \<and>
     b = a\<lparr>ag_outbox := ag_outbox a @ [response_frames (w_hmac w) (cf_secret (ag_config a)) m]\<rparr>"
  by (auto simp: send_def valid_response_def split: sum.splits)

lemma record_audit_outbox: "ag_outbox (snd (record_audit w ev a)) = ag_outbox a"
  using record_audit_view [of w ev a] by (simp add: view_eq)

lemma thenA_Inr: "thenA m n a = (Inr x, c) \<longleftrightarrow> (\<exists>u b. m a = (Inr u, b) \<and> n b = (Inr x, c))"
  by (auto simp: thenA_def bindA_def split: prod.splits sum.splits)

lemma bindA_Inr: "bindA m f a = (Inr x, c) \<longleftrightarrow> (\<exists>y b. m a = (Inr y, b) \<and> f y b = (Inr x, c))"
  by (auto simp: bindA_def split: prod.splits sum.splits)

lemma retA_Inr: "retA x a = (Inr y, b) \<longleftrightarrow> y = x \<and> b = a"
  by (auto simp: retA_def)

lemma respond_Inr:
  assumes "respond w d r a = (Inr x, b)"
  shows "x = Some r \<and> valid_response r \<and> ag_outbox b = ag_outbox a @ [response_frames (w_hmac w) (cf_secret (ag_config a)) r]"
proof -
  obtain c u where c: "send w r a = (Inr (), c)" "record_local w d r c = (Inr u, b)" "x = Some r"
    using assms by (auto simp: respond_def thenA_Inr retA_Inr)
  have "ag_outbox b = ag_outbox c" using record_audit_outbox c(2) unfolding record_local_def by (metis snd_conv)
  then show ?thesis using c by (simp add: send_Inr)
qed

lemma fail_Inr: "fail d t a = (Inr r, b) \<longleftrightarrow> r = error_response a (d_cid d) t \<and> b = a"
  by (auto simp: fail_def)

lemma error_response_simps [simp]:
  "r_verified (error_response a c t) = PBool False" "r_kind (error_response a c t) = ''error''" "r_cid (error_response a c t) = c"
  by (simp_all add: error_response_def)

lemma truthy_PBool [simp]: "truthy (PBool b) = b"
  by (simp add: truthy_def)

lemma verify_cong: "ag_registry b = ag_registry a \<Longrightarrow> verify w b v n = verify w a v n"
  by (cases n) (simp_all add: verify_def)

lemma verify_count [simp]: "verify w (count_step s a\<lparr>ag_calls := cs\<rparr>) v n = verify w a v n"
  by (rule verify_cong) simp

lemma verifier_name_count [simp]: "verifier_name (count_step s a\<lparr>ag_calls := cs\<rparr>) p = verifier_name a p"
  by (simp add: verifier_name_def Let_def)

lemma run_task_verified:
  assumes "run_task w d a = (Inr r, b)" "map_of (ag_results a) (fingerprint d) = None" "truthy (r_verified r)"
  shows "\<exists>p task fn. d_payload d = PDict p \<and> dget_or p ''task'' PNone = PStr task \<and>
      resolve_name (ag_registry a) (PStr task) = Inr (Some fn) \<and>
      call_task w fn (dget_or p ''args'' (PDict [])) = Inr (r_value r) \<and>
      verify w a (r_value r) (verifier_name a p) = Inr True \<and> r_kind r = ''result'' \<and> ag_outbox b = ag_outbox a \<and>
      ag_config b = ag_config a"
proof -
  have ex: "call_task w fn (dget_or p ''args'' (PDict [])) = Inr (r_value r) \<and>
      verify w a (r_value r) (verifier_name a p) = Inr True \<and> r_kind r = ''result'' \<and> ag_outbox b = ag_outbox a \<and> ag_config b = ag_config a"
    if "execute w d task fn p a = (Inr r, b)" for task fn p
    using that assms(3) by (auto simp: execute_def Let_def fail_Inr conclude_def split: sum.splits if_splits)
  show ?thesis
    using assms by (auto simp: run_task_def fail_Inr split: if_splits pyval.splits option.splits sum.splits dest!: ex)
qed

text \<open>C8: The correctness spine of a local run: a verified answer to a run directive that was not
  served before carries the very value that the registered task returned for the given
  arguments, and the verifier that applied has accepted this value; it is sent as it is.\<close>

theorem run_result_verified:
  assumes "dispatch_inner w d a = (Inr (Some r), b)" "d_kind d = ''run''" "truthy (r_verified r)"
    and "map_of (ag_results a) (fingerprint d) = None"
  shows "\<exists>p task fn. d_payload d = PDict p \<and> dget_or p ''task'' PNone = PStr task \<and>
      resolve_name (ag_registry a) (PStr task) = Inr (Some fn) \<and>
      call_task w fn (dget_or p ''args'' (PDict [])) = Inr (r_value r) \<and>
      verify w a (r_value r) (verifier_name a p) = Inr True \<and>
      ag_outbox b = ag_outbox a @ [response_frames (w_hmac w) (cf_secret (ag_config a)) r]"
proof -
  have not_error: "\<not> (respond w d (error_response a (d_cid d) t) a = (Inr (Some r), b))" for t
    using respond_Inr [of w d "error_response a (d_cid d) t" a "Some r" b] assms(3) by auto
  have "\<not> thenA (delegate w c d) (\<lambda>a'. (Inr None, a'\<lparr>ag_delegated := dput (d_cid d) c (ag_delegated a')\<rparr>)) a = (Inr (Some r), b)" for c
    by (simp add: thenA_Inr)
  with not_error have "bindA (handle w d) (respond w d) a = (Inr (Some r), b)"
    using assms(1) by (auto simp: dispatch_inner_def split: sum.splits option.splits if_splits)
  then obtain r' c where c: "handle w d a = (Inr r', c)" "respond w d r' c = (Inr (Some r), b)"
    by (auto simp: bindA_Inr)
  have r: "r' = r" "ag_outbox b = ag_outbox c @ [response_frames (w_hmac w) (cf_secret (ag_config c)) r]"
    using respond_Inr [OF c(2)] by auto
  have "run_task w d a = (Inr r, c)" using c(1) assms(2) r by (simp add: handle_def)
  from run_task_verified [OF this assms(4,3)] show ?thesis unfolding r(2) by auto
qed

lemma ex_run_dispatch:
  "fst (dispatch_inner ex_env ex_run ex_agent) = Inr (Some ((mk_response ''c1'' ''result'' True ''root'')\<lparr>r_value := PInt 7, r_source := PStr ''u''\<rparr>))"
  "map_of (ag_results ex_agent) (fingerprint ex_run) = None"
  by code_simp+

lemma run_result_verified_witness:
  "\<exists>p task fn. d_payload ex_run = PDict p \<and> dget_or p ''task'' PNone = PStr task \<and>
     call_task ex_env fn (dget_or p ''args'' (PDict [])) = Inr (PInt 7)"
  using run_result_verified [of ex_env ex_run ex_agent "(mk_response ''c1'' ''result'' True ''root'')\<lparr>r_value := PInt 7, r_source := PStr ''u''\<rparr>"
      "snd (dispatch_inner ex_env ex_run ex_agent)"] ex_run_dispatch
  by (simp add: prod_eq_iff) (auto simp: ex_run_def)

text \<open>C26: The spine on the upward path: what an agent relays for a child is the child's response;
  when it is verified and the agent has a verifier, this verifier has accepted the value; a value that
  fails is relayed as an unverified error instead. The delegation is then settled.\<close>

theorem relay_reverified:
  assumes "child_message w child fs a = (Inr rs, b)" "handle_child w a fs = Inr (Some m)"
    and "dget (ag_delegated a) (r_cid m) \<noteq> None"
  shows "\<exists>r. rs = [r] \<and> ag_outbox b = ag_outbox a @ [response_frames (w_hmac w) (cf_secret (ag_config a)) r] \<and>
      dget (ag_delegated b) (r_cid m) = None \<and>
      (case (truthy (r_verified m), ag_verifier a) of
         (True, Some v) \<Rightarrow>
           (verify w a (r_value m) (Some (PStr v)) = Inr True \<and> r = m) \<or>
           (verify w a (r_value m) (Some (PStr v)) = Inr False \<and> r_cid r = r_cid m \<and> r_kind r = ''error'' \<and> r_verified r = PBool False)
       | _ \<Rightarrow> r = m)"
proof -
  define a1 where "a1 = a\<lparr>ag_delegated := filter (\<lambda>kv. fst kv \<noteq> r_cid m) (ag_delegated a)\<rparr>"
  have verify: "verify w a1 v n = verify w a v n" for v n by (rule verify_cong) (simp add: a1_def)
  obtain r where rs: "rs = [r]" and relay: "relay_verified w m child a1 = (Inr r, b)"
    using assms by (auto simp: child_message_def bindA_Inr retA_Inr a1_def)
  obtain r' where r': "reverify w a1 m child = Inr r'"
    and sent: "thenA (record_relay w r' child) (thenA (send w r') (retA r')) a1 = (Inr r, b)"
    using relay by (auto simp: relay_verified_def split: sum.splits)
  obtain c where c: "record_relay w r' child a1 = (Inr (), c)" "send w r' c = (Inr (), b)" "r = r'"
    using sent by (auto simp: thenA_Inr retA_Inr)
  have view: "ag_outbox c = ag_outbox a1" "ag_config c = ag_config a1" "ag_delegated c = ag_delegated a1"
  proof -
    have c_eq: "c = snd (record_audit w (audit_of a1 (r_cid r') ''relay'' (''relay|'' @ identity a1 @ ''|'' @ child) child r') a1)"
      using c(1) by (metis record_relay_def snd_conv)
    show "ag_outbox c = ag_outbox a1" "ag_config c = ag_config a1"
      unfolding c_eq using record_audit_view by (simp_all add: view_eq)
    show "ag_delegated c = ag_delegated a1"
      unfolding c_eq by (auto simp: record_audit_def split: option.splits prod.splits sum.splits)
  qed
  have "ag_outbox b = ag_outbox a @ [response_frames (w_hmac w) (cf_secret (ag_config a)) r]"
    using c(2,3) view by (simp add: send_Inr a1_def)
  moreover have "dget (ag_delegated b) (r_cid m) = None"
    using c(2) view by (auto simp: send_Inr a1_def dget_None_iff)
  moreover have "case (truthy (r_verified m), ag_verifier a) of
         (True, Some v) \<Rightarrow>
           (verify w a (r_value m) (Some (PStr v)) = Inr True \<and> r = m) \<or>
           (verify w a (r_value m) (Some (PStr v)) = Inr False \<and> r_cid r = r_cid m \<and> r_kind r = ''error'' \<and> r_verified r = PBool False)
       | _ \<Rightarrow> r = m"
    using r' c(3) by (auto simp: reverify_def verify result_simps split: bool.splits option.splits if_splits, auto simp: a1_def)
  ultimately show ?thesis using rs by blast
qed

definition ex_answer :: response where
  "ex_answer = (mk_response ''c9'' ''result'' True ''k'')\<lparr>r_value := PInt 8\<rparr>"

definition ex_waiting :: agent where
  "ex_waiting = ex_agent\<lparr>ag_delegated := [(''c9'', ''k'')], ag_verifier := Some ''v''\<rparr>"

definition ex_env2 :: env where "ex_env2 = ex_env\<lparr>w_hmac := (\<lambda>k m. ''ab'')\<rparr>"

lemma ex_mac: "mac_ok (w_hmac ex_env2)"
  by (simp add: mac_ok_def ex_env2_def)

lemma ex_answer_ok: "valid_response ex_answer" "wf_response ex_answer"
  by (simp_all add: ex_answer_def validate_response_iff wf_response_def RESPONSE_KINDS_def)

lemma ex_waiting_fields: "cf_secret (ag_config ex_waiting) = None" "ag_verifier ex_waiting = Some ''v''" "ag_registry ex_waiting = ag_registry ex_agent"
    "ag_delegated ex_waiting = [(''c9'', ''k'')]" "ag_parent ex_waiting" "ag_trajectory_store ex_waiting = None"
  by (simp_all add: ex_waiting_def ex_agent_eq initial_agent_def ex_config_def)

definition ex_answer_frames :: frames where
  "ex_answer_frames = utf8 ''k'' # response_frames (w_hmac ex_env2) None ex_answer"

lemma ex_answer_read: "handle_child ex_env2 ex_waiting ex_answer_frames = Inr (Some ex_answer)"
  using handle_child_response [OF ex_answer_ok ex_mac, of ex_waiting] by (simp add: ex_answer_frames_def ex_waiting_fields)

lemma ex_demoted: "fst (child_message ex_env2 ''k'' ex_answer_frames ex_waiting) =
    Inr [(error_response ex_waiting ''c9'' (''child '' @ repr_str ''k'' @ '' returned a value that failed the parent'' @ squote_c # ''s verifier''))]"
proof -
  have "reverify ex_env2 (ex_waiting\<lparr>ag_delegated := []\<rparr>) ex_answer ''k'' =
      Inr (error_response ex_waiting ''c9'' (''child '' @ repr_str ''k'' @ '' returned a value that failed the parent'' @ squote_c # ''s verifier''))"
    by code_simp
  moreover have "valid_response (error_response ex_waiting ''c9'' t)" for t
    by (simp add: validate_response_iff RESPONSE_KINDS_def error_response_def)
  ultimately show ?thesis
    by (simp add: child_message_def ex_answer_read ex_waiting_fields ex_answer_def dget_Cons relay_verified_def bindA_def thenA_def
        record_relay_def record_audit_def send_def valid_response_def retA_def)
qed

lemma relay_reverified_witness:
  "\<exists>b. fst (child_message ex_env2 ''k'' ex_answer_frames ex_waiting) =
      Inr [error_response ex_waiting ''c9'' (''child '' @ repr_str ''k'' @ '' returned a value that failed the parent'' @ squote_c # ''s verifier'')] \<and>
    dget (ag_delegated (b :: agent)) ''c9'' = None"
proof -
  obtain rs b where "child_message ex_env2 ''k'' ex_answer_frames ex_waiting = (Inr rs, b)"
    using ex_demoted by (metis prod.collapse)
  from relay_reverified [OF this ex_answer_read] show ?thesis
    using ex_demoted by (auto simp: ex_waiting_fields ex_answer_def dget_Cons)
qed

section \<open>Envelopes\<close>

text \<open>C27: A granted envelope is respected, in every reachable state of the agent and whether it sets one
  limit or both: with an integer step limit, the tasks called and the endpoints bound for children since
  the envelope was granted are together no more than the limit; with an integer child limit, no more
  endpoints were bound for children since then than the limit. Calls and binds are what happened, not
  what the guard has counted.\<close>

theorem envelope_respected:
  assumes "reach a" "ag_guard a = Some g" "g_envelope g = Some e"
  shows "(\<forall>n. step_limit e = PInt n \<longrightarrow>
       (int (length (ag_calls a)) - int (ag_granted a)) + (int (length (ag_bound a)) - int (ag_granted_bound a)) \<le> n) \<and>
    (\<forall>c. child_limit e = PInt c \<longrightarrow> int (length (ag_bound a)) - int (ag_granted_bound a) \<le> c) \<and>
    ag_granted a \<le> length (ag_calls a) \<and> ag_granted_bound a \<le> length (ag_bound a)"
proof -
  have "envelope_inv a" using reach_agent_inv [OF assms(1)] by (simp add: agent_inv_def)
  then have g: "guard_ok g" "counted a g" using assms(2) by (auto simp: envelope_inv_def)
  have e: "validate_envelope e = Inr ()" "within (g_steps g) (step_limit e)" "within (g_children g) (child_limit e)"
    using g(1) assms(3) by (auto simp: guard_ok_def)
  have limit: "int k \<le> n" if "valid_bound (PInt n)" "within k (PInt n)" for k n
    using that by (auto simp: within_PInt valid_bound_def num_negative_def)
  have "int (g_steps g) \<le> n" if "step_limit e = PInt n" for n
    using limit [of n "g_steps g"] e that by (simp add: validate_envelope_iff)
  moreover have "int (g_children g) \<le> c" if "child_limit e = PInt c" for c
    using limit [of c "g_children g"] e that by (simp add: validate_envelope_iff)
  ultimately show ?thesis using g(2) unfolding counted_def by force
qed

definition ex_bounded :: agent where
  "ex_bounded = snd (configure ex_env (ex_configure\<lparr>d_payload := PDict [(''_envelope'', PDict [(''step_limit'', PInt 1), (''child_limit'', PInt 0)])]\<rparr>) ex_agent)"

lemma ex_bounded_guard:
  "ag_guard ex_bounded = Some \<lparr>g_envelope = Some \<lparr>step_limit = PInt 1, size_cap = PNone, latency_seconds = PNone, child_limit = PInt 0, extra = []\<rparr>,
     g_steps = 0, g_children = 0\<rparr>"
  by code_simp

lemma envelope_respected_witness: "int (length (ag_bound ex_bounded)) - int (ag_granted_bound ex_bounded) \<le> 0"
proof -
  have "reach ex_bounded" unfolding ex_bounded_def by (intro reach.configured ex_agent_reach)
  from envelope_respected [OF this ex_bounded_guard] show ?thesis by simp
qed

section \<open>Links\<close>

text \<open>C28: A delegated directive arrives: when an agent delegates a run, it puts one message on the
  socket of the named child, and that child, configured as the agent has configured it, receives
  from it the very directive without the routing field, with its integrity trailer verified
  and stripped.\<close>

theorem delegated_directive_arrives:
  assumes "reach a" "dispatch_inner w d a = (Inr None, b)" "dget (ag_child_agents a) child = Some c"
    and "maybe_delegate d = Inr (Some child)" "validate_directive d = Inr ()"
    and "wf_pyval (d_payload d)" "unreserved (delegated_payload (d_payload d))" "mac_ok (w_hmac w)"
  shows "\<exists>fs. ag_child_out b = ag_child_out a @ [(child, utf8 child # fs)] \<and> dget (ag_delegated b) (d_cid d) = Some child \<and>
     recv w c fs = Inr (d\<lparr>d_payload := PDict (delegated_payload (d_payload d))\<rparr>)"
proof -
  let ?fs = "directive_frames (w_hmac w) (cf_secret (ag_config a)) (d_cid d) (d_kind d) (delegated_payload (d_payload d))"
  have inv: "spawn_inv a" by (rule reach_spawn_inv [OF assms(1)])
  have "(child, c) \<in> set (ag_child_agents a)" using assms(3) by (rule dget_Some_in)
  then have secret: "cf_secret c = cf_secret (ag_config a)" using inv by (auto simp: spawn_inv_def inherits_def)
  have valid: "d_cid d \<noteq> []" "d_kind d \<in> set DIRECTIVE_KINDS" "d_protocol d = PROTOCOL_VERSION"
    using assms(5) by (auto simp: valid_directive_iff)
  have "child \<in> set (dkeys (ag_children a))" using inv dget_Some_in [OF assms(3)] by (force simp: spawn_inv_def dkeys_def)
  then have "dget (ag_children a) child \<noteq> None" by (simp add: dget_None_iff dkeys_def)
  then have b: "ag_child_out b = ag_child_out a @ [(child, utf8 child # ?fs)]" "dget (ag_delegated b) (d_cid d) = Some child"
    using assms(2,4) by (auto simp: dispatch_inner_def thenA_Inr delegate_def dict_simps)
  have "recv w c ?fs = Inr (d\<lparr>d_payload := PDict (delegated_payload (d_payload d))\<rparr>)"
    using recv_directive_frames [OF wf_delegated [OF assms(6)] assms(7) valid(1,2) assms(8), of c] secret valid(3)
    by (cases d) simp
  with b show ?thesis by blast
qed

text \<open>An answer arrives: the message by which a child sends a response is read by its parent
  as that response, under the secret the child has inherited; the acknowledgment before it is skipped.\<close>

theorem child_answer_arrives:
  assumes "reach a" "dget (ag_child_agents a) child = Some (ag_config k)"
    and "send w m k = (Inr (), k')" "wf_response m" "mac_ok (w_hmac w)"
  shows "\<exists>fs. ag_outbox k' = ag_outbox k @ [fs] \<and> handle_child w a (utf8 child # fs) = Inr (Some m) \<and>
     handle_child w a (utf8 child # ack_frames y) = Inr None"
proof -
  have "(child, ag_config k) \<in> set (ag_child_agents a)" using assms(2) by (rule dget_Some_in)
  then have "cf_secret (ag_config k) = cf_secret (ag_config a)"
    using reach_spawn_inv [OF assms(1)] by (auto simp: spawn_inv_def inherits_def)
  then show ?thesis
    using assms(3) handle_child_response [OF _ assms(4,5), of a child] handle_child_ack by (simp add: send_Inr)
qed

definition ex_spawn :: directive where
  "ex_spawn = \<lparr>d_cid = ''c2'', d_kind = ''spawn'', d_payload = PDict [(''identity'', PStr ''k''), (''endpoint'', PStr ''k'')], d_protocol = PROTOCOL_VERSION\<rparr>"

definition ex_parent :: agent where
  "ex_parent = snd (handle ex_env2 ex_spawn ex_agent)"

definition ex_child_config :: config where "ex_child_config = child_config ex_agent ''k'' ''k''"

lemma ex_parent_reach: "reach ex_parent"
  unfolding ex_parent_def by (intro reach.handled ex_agent_reach)

lemma ex_parent_child: "dget (ag_child_agents ex_parent) ''k'' = Some ex_child_config"
  by code_simp

definition ex_delegated :: directive where
  "ex_delegated = ex_run\<lparr>d_payload := PDict [(''task'', PStr ''t''), (''child'', PStr ''k'')]\<rparr>"

lemma ex_delegated_dispatch: "fst (dispatch_inner ex_env2 ex_delegated ex_parent) = Inr None"
  by code_simp

lemma delegated_directive_arrives_witness:
  "\<exists>fs. recv ex_env2 ex_child_config fs = Inr (ex_delegated\<lparr>d_payload := PDict [(''task'', PStr ''t'')]\<rparr>)"
proof -
  obtain b where b: "dispatch_inner ex_env2 ex_delegated ex_parent = (Inr None, b)"
    using ex_delegated_dispatch by (metis prod.collapse)
  have "delegated_payload (d_payload ex_delegated) = [(''task'', PStr ''t'')]" by code_simp
  moreover have "maybe_delegate ex_delegated = Inr (Some ''k'')" "validate_directive ex_delegated = Inr ()" by code_simp+
  moreover have "wf_pyval (d_payload ex_delegated)" "unreserved [(''task'', PStr ''t'')]" by code_simp+
  ultimately show ?thesis
    using delegated_directive_arrives [OF ex_parent_reach b ex_parent_child] ex_mac by metis
qed

lemma child_answer_arrives_witness:
  "\<exists>fs. handle_child ex_env2 ex_parent (utf8 ''k'' # fs) = Inr (Some (mk_response ''c1'' ''ok'' True ''k''))"
proof -
  let ?k = "snd (init ex_env2 (initial_agent ex_child_config []))" and ?m = "mk_response ''c1'' ''ok'' True ''k''"
  have "dget (ag_child_agents ex_parent) ''k'' = Some (ag_config ?k)" using ex_parent_child by (simp add: init_def ex_env2_def ex_env_def initial_agent_def)
  moreover have "fst (send ex_env2 ?m ?k) = Inr ()" by code_simp
  then obtain k' where "send ex_env2 ?m ?k = (Inr (), k')" by (metis prod.collapse)
  moreover have "wf_response ?m" by code_simp
  ultimately show ?thesis using child_answer_arrives [OF ex_parent_reach] ex_mac by blast
qed

end
