(* ===== verification/Agent_Answers.thy ===== *)
theory Agent_Answers
  imports Agent_Protocol
begin

text \<open>
  What an agent answers, what it refuses, and what it leaves behind: signed directives, answered
  runs, the unanswered kill, governed children, the append-only trail.
\<close>

section \<open>Signed directives\<close>

text \<open>C29: A tampered directive is refused: on a link with a secret, a message that carries the digest
  its holder computed for some directive is received only as that directive, with the same
  correlation id, kind and canonical payload, when the digest has no collisions.\<close>

theorem tampered_directive_refused:
  assumes "cf_secret c = Some k" "recv w c fs = Inr d"
    and "utf8_decode (fs ! 3) = Some s" "json_loads s = Some (PDict q)" "wf_pyval (PDict q)"
    and "dget q INTEGRITY_DIGEST_KEY = Some (PStr (sign_payload (w_hmac w) k c0 k0 p0))" "wf_pyval p0"
    and "inj (w_hmac w k)" "\<And>m. list_all (\<lambda>x. code x < 128) (w_hmac w k m)"
  shows "d_cid d = c0 \<and> d_kind d = k0 \<and> json_norm (d_payload d) = json_norm p0"
proof -
  obtain p digest where p: "dget p INTEGRITY_DIGEST_KEY = Some (PStr digest)" "json_loads s = Some (PDict p)"
      "d_payload d = PDict (strip_trailer p)" "verify_payload (w_hmac w) k digest (d_cid d) (d_kind d) (d_payload d)"
    using recv_signed [OF assms(2,1)] assms(3) by auto
  have "p = q" using p(2) assms(4) by simp
  then have digest: "digest = sign_payload (w_hmac w) k c0 k0 p0" using p(1) assms(6) by simp
  have "wf_pyval (d_payload d)"
    using assms(5) \<open>p = q\<close> p(3) by (auto simp: strip_trailer_def list_all_iff distinct_map_filter)
  then show ?thesis
    using verified_as_signed [OF p(4) [unfolded digest] assms(9,8,7)] by simp
qed

definition ex_secret_env :: env where
  "ex_secret_env = ex_env\<lparr>w_hmac := (\<lambda>k m. ''h'' @ concat (map (\<lambda>c. [digit_char (code c div 16), digit_char (code c mod 16)]) m))\<rparr>"

lemma digit_pair_inj:
  assumes "digit_char (code c div 16) = digit_char (code d div 16)" "digit_char (code c mod 16) = digit_char (code d mod 16)"
  shows "c = d"
proof -
  have "code c < 256" "code d < 256" by (simp_all add: code_less)
  then have "code c div 16 < 16" "code d div 16 < 16" by (simp_all add: less_mult_imp_div_less)
  then have "code c div 16 = code d div 16" "code c mod 16 = code d mod 16"
    using assms hex_value_digit_char by (metis option.inject, metis hex_value_digit_char mod_less_divisor option.inject zero_less_numeral)
  then show ?thesis using code_split by metis
qed

lemma ex_secret_inj: "inj (w_hmac ex_secret_env k)"
proof (rule injI)
  fix x y :: string
  let ?g = "\<lambda>m. concat (map (\<lambda>c. [digit_char (code c div 16), digit_char (code c mod 16)]) m)"
  assume "w_hmac ex_secret_env k x = w_hmac ex_secret_env k y"
  then have "?g x = ?g y" by (simp add: ex_secret_env_def)
  then show "x = y"
  proof (induction x arbitrary: y)
    case Nil
    then show ?case by (cases y) auto
  next
    case (Cons c x)
    show ?case
    proof (cases y)
      case Nil
      then show ?thesis using Cons.prems by simp
    next
      case (Cons d z)
      then have "digit_char (code c div 16) = digit_char (code d div 16)" "digit_char (code c mod 16) = digit_char (code d mod 16)"
        "?g x = ?g z" using Cons.prems by simp_all
      then show ?thesis using digit_pair_inj Cons.IH \<open>y = d # z\<close> by blast
    qed
  qed
qed

lemma ex_secret_ascii: "list_all (\<lambda>x. code x < 128) (w_hmac ex_secret_env k m)"
proof -
  have "code (digit_char i) < 128" if "i < 16" for i
  proof -
    have "i \<in> set [0..<16]" using that by simp
    then have "code (digit_char i) \<le> 126" using hexl_printable by blast
    then show ?thesis by simp
  qed
  then have "list_all (\<lambda>x. code x < 128) [digit_char (code c div 16), digit_char (code c mod 16)]" for c
    by (simp add: code_less less_mult_imp_div_less)
  moreover have "code CHR ''h'' < 128" by code_simp
  ultimately show ?thesis by (induction m) (auto simp: ex_secret_env_def)
qed

lemma tampered_directive_refused_witness:
  "json_norm (PDict [(''b'', PInt 1), (''a'', PInt 2)]) = json_norm (PDict [(''a'', PInt 2), (''b'', PInt 1)])"
proof -
  define c where "c = ex_config\<lparr>cf_secret := Some ''s''\<rparr>"
  define p where "p = [(''b'', PInt 1), (''a'', PInt 2)]"
  define q where "q = attach_integrity (w_hmac ex_secret_env) (Some ''s'') ''c1'' ''ping'' p"
  have mac: "mac_ok (w_hmac ex_secret_env)" by (simp add: mac_ok_def ex_secret_env_def)
  have wf: "wf_pyval (PDict p)" "unreserved p" unfolding p_def by code_simp+
  have secret: "cf_secret c = Some ''s''" by (simp add: c_def)
  have kind: "''ping'' \<in> set DIRECTIVE_KINDS" by (simp add: DIRECTIVE_KINDS_def)
  let ?fs = "directive_frames (w_hmac ex_secret_env) (cf_secret c) ''c1'' ''ping'' p"
  have "recv ex_secret_env c ?fs = Inr \<lparr>d_cid = ''c1'', d_kind = ''ping'', d_payload = PDict p, d_protocol = PROTOCOL_VERSION\<rparr>"
    by (rule recv_directive_frames [OF wf _ kind mac]) simp
  moreover have "wf_pyval (PDict q)" using wf_attached [OF wf] by (simp add: q_def)
  moreover have "utf8_decode (?fs ! 3) = Some (json_dumps (PDict q))"
    unfolding secret by (simp add: directive_frames_def q_def)
  moreover have "dget q INTEGRITY_DIGEST_KEY = Some (PStr (sign_payload (w_hmac ex_secret_env) ''s'' ''c1'' ''ping'' (PDict [(''a'', PInt 2), (''b'', PInt 1)])))"
  proof -
    have "canonical_json ''c1'' ''ping'' (PDict p) = canonical_json ''c1'' ''ping'' (PDict [(''a'', PInt 2), (''b'', PInt 1)])"
      unfolding p_def by code_simp
    then show ?thesis
      using wf(2) by (simp add: q_def attach_fresh integrity_headers_def dget_append unreserved_def dget_Cons sign_payload_def)
  qed
  moreover have "wf_pyval (PDict [(''a'', PInt 2), (''b'', PInt 1)])" by code_simp
  ultimately show ?thesis
    using tampered_directive_refused [OF secret _ _ json_dumps_loads _ _ _ ex_secret_inj ex_secret_ascii] p_def
    by (metis directive.select_convs(3))
qed

section \<open>Answered directives\<close>

text \<open>The exceptions that a dispatch turns into an answer.\<close>

definition caught :: "exc \<Rightarrow> bool" where
  "caught e \<longleftrightarrow> is_value_error (exc_class e) \<or> exc_class e = KeyError"

text \<open>The trail, if there is one, takes the event of a response without raising.\<close>

definition trail_ready :: "agent \<Rightarrow> bool" where
  "trail_ready a \<longleftrightarrow>
     (\<forall>s. ag_trajectory_store a = Some s \<longrightarrow> st_open s \<and> events_tab (file_at (ag_disk a) (st_path s)) \<noteq> None)"

definition plain_error :: "response \<Rightarrow> bool" where
  "plain_error r \<longleftrightarrow> r_error r = PNone \<or> is_str (r_error r)"

lemma is_strE: assumes "is_str v" obtains s where "v = PStr s"
  using assms by (cases v) (auto simp: is_str_def)

lemma record_audit_ok:
  assumes "trail_ready a" "ae_error ev = PNone \<or> is_str (ae_error ev)" "is_str (ae_source ev)"
  shows "\<exists>b. record_audit w ev a = (Inr (), b)"
proof (cases "ag_trajectory_store a")
  case None
  then show ?thesis by (simp add: record_audit_def)
next
  case (Some s)
  obtain t where t: "event_rows s (ag_disk a) = Inr t" "require s = Inr ()"
    using assms(1) Some by (auto simp: trail_ready_def event_rows_def require_def)
  obtain u where "ae_source ev = PStr u" using assms(3) by (rule is_strE)
  then have "\<exists>x. bind_event (w_real_text w) ev = Inr x"
    using assms(2) by (auto simp: bind_event_def bind_ok_def event_of_def column_text_def is_str_def split: pyval.splits)
  then obtain x where "bind_event (w_real_text w) ev = Inr x" by blast
  then show ?thesis
    using Some t by (auto simp: record_audit_def record_event_def split: sum.splits prod.splits)
qed

lemma respond_ok:
  assumes "ag_parent a" "valid_response r" "trail_ready a" "plain_error r"
  shows "\<exists>b. respond w d r a = (Inr (Some r), b)"
proof -
  let ?b = "a\<lparr>ag_outbox := ag_outbox a @ [response_frames (w_hmac w) (cf_secret (ag_config a)) r]\<rparr>"
  have send: "send w r a = (Inr (), ?b)" using assms(1,2) by (simp add: send_Inr)
  have "trail_ready ?b" using assms(3) by (simp add: trail_ready_def)
  then obtain b where "record_local w d r ?b = (Inr (), b)"
    using record_audit_ok [of ?b _ w] assms(2,4)
    by (fastforce simp: record_local_def audit_of_def plain_error_def validate_response_iff)
  then show ?thesis by (simp add: respond_def thenA_def bindA_def send retA_def)
qed

lemma send_error:
  assumes "ag_parent a" "cid \<noteq> []"
  shows "send w (error_response a cid t) a =
     (Inr (), a\<lparr>ag_outbox := ag_outbox a @ [response_frames (w_hmac w) (cf_secret (ag_config a)) (error_response a cid t)]\<rparr>)"
  using assms by (simp add: send_Inr validate_response_iff error_response_def RESPONSE_KINDS_def)

text \<open>A response that is no valid message fails with a protocol error, unless its confidence overflows.\<close>

lemma send_invalid:
  assumes "ag_parent a" "\<not> valid_response r" "r_confidence r = PNone"
  shows "\<exists>e. send w r a = (Inl e, a) \<and> exc_class e = ProtocolError"
  using assms
  by (auto simp: send_def valid_response_def validate_response_def check_protocol_def protocol_reject_def thenR_def bindR_def
      rejectR_def split: sum.splits if_splits)

text \<open>So a handler that returns, or raises what a dispatch catches, is answered.\<close>

lemma dispatch_answers:
  assumes "maybe_delegate d = Inr None" "d_cid d \<noteq> []"
    and h: "handle w d a = (x, b)" "ag_parent b" "ag_outbox b = ag_outbox a" "ag_config b = ag_config a" "trail_ready b"
    and returns: "\<And>r. x = Inr r \<Longrightarrow> r_cid r = d_cid d \<and> r_confidence r = PNone \<and> plain_error r"
    and raises: "\<And>e. x = Inl e \<Longrightarrow> caught e"
  shows "\<exists>r c. dispatch w d a = (Inr (Some r), c) \<and> r_cid r = d_cid d \<and>
     ag_outbox c = ag_outbox a @ [response_frames (w_hmac w) (cf_secret (ag_config a)) r]"
proof -
  have error: "\<exists>r c. dispatch w d a = (Inr (Some r), c) \<and> r_cid r = d_cid d \<and>
     ag_outbox c = ag_outbox a @ [response_frames (w_hmac w) (cf_secret (ag_config a)) r]"
    if "dispatch_inner w d a = (Inl e, b)" "caught e" for e
    using that send_error [OF h(2) assms(2), of w] h(3,4)
    by (simp add: dispatch_def caught_def Let_def thenA_def bindA_def retA_def)
  show ?thesis
  proof (cases x)
    case (Inl e)
    then have "dispatch_inner w d a = (Inl e, b)" by (simp add: dispatch_inner_def assms(1) bindA_def h(1))
    then show ?thesis using error raises [OF Inl] by blast
  next
    case (Inr r)
    show ?thesis
    proof (cases "valid_response r")
      case True
      then obtain c where c: "respond w d r b = (Inr (Some r), c)"
        using respond_ok [OF h(2) _ h(5)] returns [OF Inr] by blast
      then have "dispatch w d a = (Inr (Some r), c)"
        by (simp add: dispatch_def dispatch_inner_def assms(1) bindA_def h(1) Inr)
      then show ?thesis using respond_Inr [OF c] returns [OF Inr] h(3,4) by simp
    next
      case False
      then obtain e where e: "send w r b = (Inl e, b)" "exc_class e = ProtocolError"
        using send_invalid [OF h(2)] returns [OF Inr] by blast
      then have "dispatch_inner w d a = (Inl e, b)"
        by (simp add: dispatch_inner_def assms(1) bindA_def h(1) Inr respond_def thenA_def)
      then show ?thesis using error e(2) by (simp add: caught_def is_value_error_def)
    qed
  qed
qed

lemma recv_valid: "recv w c fs = Inr d \<Longrightarrow> validate_directive d = Inr ()"
  by (auto simp: recv_def result_simps Let_def split: list.splits)

lemma ack_sent:
  assumes "ag_parent a" "cid \<noteq> []"
  shows "send_ack cid a = (Inr (), a\<lparr>ag_outbox := ag_outbox a @
     [ack_frames \<lparr>a_cid = cid, a_node = identity a, a_protocol = PROTOCOL_VERSION\<rparr>]\<rparr>)"
  using assms by (simp add: send_ack_def validate_ack_def Let_def)

lemma run_task_frame:
  assumes "run_task w d a = (x, b)"
  shows "ag_parent b = ag_parent a \<and> ag_outbox b = ag_outbox a \<and> ag_config b = ag_config a \<and>
     ag_trajectory_store b = ag_trajectory_store a \<and> ag_disk b = ag_disk a"
proof -
  have "ag_parent b = ag_parent a \<and> ag_outbox b = ag_outbox a \<and> ag_config b = ag_config a \<and>
     ag_trajectory_store b = ag_trajectory_store a \<and> ag_disk b = ag_disk a"
    if "execute w d t f p a = (x, b)" for t f p
    using that by (auto simp: execute_def conclude_def fail_def Let_def count_step_def split: sum.splits option.splits)
  then show ?thesis
    using assms by (auto simp: run_task_def fail_def split: option.splits pyval.splits sum.splits if_splits)
qed

lemma verify_caught:
  assumes "verify w a v (verifier_name a p) = Inl e" "hashable (dget_or p ''verifier'' PNone)"
    and "\<And>f v e. w_verifier w f v = Inl e \<Longrightarrow> caught e"
  shows "caught e"
proof -
  have "hashable n" if "verifier_name a p = Some n" for n
    using that assms(2) by (auto simp: verifier_name_def Let_def hashable_def split: if_splits)
  then show ?thesis
    using assms(1,3) resolve_name_hashable [of _ "ag_registry a"]
    by (fastforce simp: verify_def result_simps split: option.splits)
qed

lemma run_task_outcome:
  assumes inv: "agent_inv a" and p: "d_payload d = PDict p" and h: "hashable (dget_or p ''verifier'' PNone)"
    and v: "\<And>f v e. w_verifier w f v = Inl e \<Longrightarrow> caught e" and run: "run_task w d a = (x, b)"
  shows "(\<exists>r. x = Inr r \<and> r_cid r = d_cid d \<and> r_confidence r = PNone \<and> plain_error r) \<or> (\<exists>e. x = Inl e \<and> caught e)"
proof -
  have error: "\<exists>r. x = Inr r \<and> r_cid r = d_cid d \<and> r_confidence r = PNone \<and> plain_error r" if "fail d t c = (x, b)" for t c
    using that by (auto simp: fail_def error_response_def plain_error_def)
  show ?thesis
  proof (cases "map_of (ag_results a) (fingerprint d)")
    case (Some r)
    then have "cached_ok a (fingerprint d, r)" using inv map_of_SomeD by (fastforce simp: agent_inv_def cache_inv_def)
    then show ?thesis
      using run Some by (auto simp: run_task_def cached_ok_def settled_def fingerprint_def plain_error_def)
  next
    case None
    have exec: "?thesis" if "execute w d t f p a = (x, b)" for t f
      using that error verify_caught [OF _ h v]
      by (auto simp: execute_def Let_def conclude_def plain_error_def split: sum.splits if_splits)
    show ?thesis
      using run None error exec by (auto simp: run_task_def p split: if_splits pyval.splits option.splits sum.splits)
  qed
qed

text \<open>C30: A run directive whose payload is a mapping that routes it to no child is answered: whatever it asks
  for (an unknown task, a task that raises, a spent envelope, a reused correlation id, a refuted value),
  the agent sends an acknowledgment and then exactly one response with the correlation id of the
  directive. A payload that is no mapping is not answered (\<open>non_mapping_escapes\<close>). Only a verifier that is named by a list or a mapping, or that raises anything but a value or key
  error, and a trail that cannot be written, are excepted.\<close>

theorem run_directive_answered:
  assumes "reach a" "ag_parent a" "recv w (ag_config a) fs = Inr d" "d_kind d = ''run''" "d_payload d = PDict p"
    and "name_of (dget_or p ''child'' PNone) = None" "hashable (dget_or p ''verifier'' PNone)"
    and "\<And>f v e. w_verifier w f v = Inl e \<Longrightarrow> caught e" "trail_ready a"
  shows "\<exists>r b k. handle_parent_message w fs a = (Inr (Some r), b) \<and> r_cid r = d_cid d \<and> a_cid k = d_cid d \<and>
     ag_outbox b = ag_outbox a @ [ack_frames k, response_frames (w_hmac w) (cf_secret (ag_config a)) r]"
proof -
  define k where "k = \<lparr>a_cid = d_cid d, a_node = identity a, a_protocol = PROTOCOL_VERSION\<rparr>"
  define a1 where "a1 = a\<lparr>ag_outbox := ag_outbox a @ [ack_frames k]\<rparr>"
  have cid: "d_cid d \<noteq> []" using recv_valid [OF assms(3)] by (simp add: valid_directive_iff)
  have ack: "send_ack (d_cid d) a = (Inr (), a1)"
    using ack_sent [OF assms(2) cid] by (simp add: a1_def k_def)
  have "agent_inv a1"
    using ag.safeD [OF ack_safe reach_agent_inv [OF assms(1)], of "d_cid d"] ack by (simp add: kept_def)
  obtain x b where run: "run_task w d a1 = (x, b)" by force
  note frame = run_task_frame [OF run]
  have handle: "handle w d a1 = (x, b)" by (simp add: handle_def assms(4) run)
  have "maybe_delegate d = Inr None" by (simp add: maybe_delegate_def assms(4-6))
  moreover have "ag_parent b" "ag_outbox b = ag_outbox a1" "ag_config b = ag_config a1" "trail_ready b"
    using frame assms(2,9) by (auto simp: a1_def trail_ready_def)
  moreover have "(\<exists>r. x = Inr r \<and> r_cid r = d_cid d \<and> r_confidence r = PNone \<and> plain_error r) \<or> (\<exists>e. x = Inl e \<and> caught e)"
    by (rule run_task_outcome [OF \<open>agent_inv a1\<close> assms(5,7) _ run]) (rule assms(8))
  ultimately obtain r c where "dispatch w d a1 = (Inr (Some r), c)" "r_cid r = d_cid d"
      "ag_outbox c = ag_outbox a1 @ [response_frames (w_hmac w) (cf_secret (ag_config a1)) r]"
    using dispatch_answers [OF _ cid handle] by blast
  moreover from this(1) have "handle_parent_message w fs a = (Inr (Some r), c)"
    by (simp add: handle_parent_message_def assms(2,3) thenA_def bindA_def ack)
  ultimately show ?thesis
    by (intro exI [of _ r] exI [of _ c] exI [of _ k]) (simp add: a1_def k_def)
qed

lemma run_directive_answered_witness:
  "\<exists>r b. handle_parent_message ex_env2 (directive_frames (w_hmac ex_env2) None ''c1'' ''run'' [(''task'', PInt 5)]) ex_agent = (Inr (Some r), b) \<and> r_cid r = ''c1''"
proof -
  let ?p = "[(''task'', PInt 5)]"
  have secret: "cf_secret (ag_config ex_agent) = None" by (simp add: ex_agent_eq initial_agent_def ex_config_def)
  have "wf_pyval (PDict ?p)" "unreserved ?p" by code_simp+
  then have recv: "recv ex_env2 (ag_config ex_agent) (directive_frames (w_hmac ex_env2) None ''c1'' ''run'' ?p) =
      Inr \<lparr>d_cid = ''c1'', d_kind = ''run'', d_payload = PDict ?p, d_protocol = PROTOCOL_VERSION\<rparr>"
    using recv_directive_frames [of ?p "''c1''" "''run''" ex_env2 "ag_config ex_agent"] ex_mac
    by (simp add: secret DIRECTIVE_KINDS_def)
  have "ag_parent ex_agent" "trail_ready ex_agent" by (simp_all add: ex_agent_eq initial_agent_def trail_ready_def)
  moreover have "caught e" if "w_verifier ex_env2 f v = Inl e" for f v e using that by (simp add: ex_env2_def ex_env_def)
  moreover have "name_of (dget_or ?p ''child'' PNone) = None" "hashable (dget_or ?p ''verifier'' PNone)"
    by (simp_all add: dget_or_def dget_Cons hashable_def)
  ultimately show ?thesis
    using run_directive_answered [OF ex_agent_reach _ recv] by fastforce
qed

text \<open>The kill directive is never answered: the agent acknowledges it and is torn down, and
  then sending the response raises, because the socket to the parent is closed.\<close>

theorem kill_directive_unanswered:
  assumes "ag_parent a" "recv w (ag_config a) fs = Inr d" "d_kind d = ''kill''"
  shows "\<exists>b k. handle_parent_message w fs a = (Inl (not_initialised a), b) \<and> ag_outbox b = ag_outbox a @ [ack_frames k] \<and>
     \<not> ag_alive b \<and> \<not> ag_parent b"
proof -
  define k where "k = \<lparr>a_cid = d_cid d, a_node = identity a, a_protocol = PROTOCOL_VERSION\<rparr>"
  define a1 where "a1 = a\<lparr>ag_outbox := ag_outbox a @ [ack_frames k]\<rparr>"
  have cid: "d_cid d \<noteq> []" using recv_valid [OF assms(2)] by (simp add: valid_directive_iff)
  have ack: "send_ack (d_cid d) a = (Inr (), a1)"
    using ack_sent [OF assms(1) cid] by (simp add: a1_def k_def)
  have "dispatch_inner w d a1 = (Inl (not_initialised a), kill a1)"
    by (simp add: dispatch_inner_def maybe_delegate_def assms(3) bindA_def handle_def ok_def respond_def thenA_def
        send_def kill_def a1_def not_initialised_def)
  then have "dispatch w d a1 = (Inl (not_initialised a), kill a1)"
    by (simp add: dispatch_def not_initialised_def is_value_error_def)
  then have "handle_parent_message w fs a = (Inl (not_initialised a), kill a1)"
    by (simp add: handle_parent_message_def assms(1,2) thenA_def bindA_def ack)
  then show ?thesis by (intro exI [of _ "kill a1"] exI [of _ k]) (simp add: kill_def a1_def)
qed

lemma kill_directive_unanswered_witness:
  "\<exists>b. handle_parent_message ex_env2 (directive_frames (w_hmac ex_env2) None ''c1'' ''kill'' []) ex_agent = (Inl (not_initialised ex_agent), b)"
proof -
  have secret: "cf_secret (ag_config ex_agent) = None" by (simp add: ex_agent_eq initial_agent_def ex_config_def)
  have "recv ex_env2 (ag_config ex_agent) (directive_frames (w_hmac ex_env2) None ''c1'' ''kill'' []) =
      Inr \<lparr>d_cid = ''c1'', d_kind = ''kill'', d_payload = PDict [], d_protocol = PROTOCOL_VERSION\<rparr>"
    using recv_directive_frames [of "[]" "''c1''" "''kill''" ex_env2 "ag_config ex_agent"] ex_mac
    by (simp add: secret DIRECTIVE_KINDS_def unreserved_def)
  moreover have "ag_parent ex_agent" by (simp add: ex_agent_eq initial_agent_def)
  ultimately show ?thesis using kill_directive_unanswered by fastforce
qed

section \<open>Governed children, valid messages, the trail\<close>

text \<open>C31: Every child is governed: an agent holds a bound socket for each child, under the child's
  identity, the child has inherited secret, security profile and catalog, and under the loopback
  profile an agent has bound no TCP endpoint but loopback ones, in every reachable state.\<close>

theorem children_governed:
  assumes "reach a" "dget (ag_child_agents a) child = Some c" "cf_security (ag_config a) = ''loopback''"
  shows "cf_identity c = child \<and> inherits (ag_config a) c \<and> (\<exists>e \<in> set (ag_bound a). dget (ag_children a) child = Some e) \<and>
     list_all (\<lambda>e. starts_with ''tcp://'' e \<longrightarrow> is_loopback_tcp_endpoint (drop 6 e)) (ag_bound a)"
proof -
  have inv: "spawn_inv a" by (rule reach_spawn_inv [OF assms(1)])
  have "cf_identity c = child \<and> inherits (ag_config a) c"
    using inv dget_Some_in [OF assms(2)] by (auto simp: spawn_inv_def)
  moreover have "\<exists>e \<in> set (ag_bound a). dget (ag_children a) child = Some e"
  proof -
    have "child \<in> set (dkeys (ag_child_agents a))"
      using imageI [OF dget_Some_in [OF assms(2)], of fst] by (simp add: dkeys_def)
    moreover have "dkeys (ag_children a) = dkeys (ag_child_agents a)" using inv by (simp add: spawn_inv_def)
    ultimately have "child \<in> fst ` set (ag_children a)" by (simp only: dkeys_def flip: set_map)
    then obtain e where e: "dget (ag_children a) child = Some e" by (metis dget_None_iff not_None_eq)
    moreover have "e \<in> set (ag_bound a)"
      using inv dget_Some_in [OF e] unfolding spawn_inv_def by (metis snd_conv)
    ultimately show ?thesis by blast
  qed
  moreover have "list_all (\<lambda>e. starts_with ''tcp://'' e \<longrightarrow> is_loopback_tcp_endpoint (drop 6 e)) (ag_bound a)"
    using inv assms(3) by (simp add: spawn_inv_def permitted_def loopback_bind list_all_iff)
  ultimately show ?thesis by blast
qed

lemma children_governed_witness: "cf_identity ex_child_config = ''k''"
proof -
  have config: "ag_config ex_agent = ex_config" by (simp add: ex_agent_eq initial_agent_def)
  have "cf_security (ag_config ex_parent) = ''loopback''"
    using sp.safeD [OF handle_socket_safe reach_spawn_inv [OF ex_agent_reach]]
    by (simp add: ex_parent_def kept_def same_config_def config ex_config_def)
  then show ?thesis using children_governed [OF ex_parent_reach ex_parent_child] by simp
qed

text \<open>C32: Every message an agent has sent to its parent is an acknowledgment or a response that the
  contract of messages accepts, in every reachable state.\<close>

theorem sent_messages_valid:
  assumes "reach a" "fs \<in> set (ag_outbox a)"
  shows "(\<exists>k. validate_ack k = Inr () \<and> fs = ack_frames k) \<or>
     (\<exists>hmac secret m. validate_response m = Inr () \<and> fs = response_frames hmac secret m)"
  using reach_agent_inv [OF assms(1)] assms(2) by (auto simp: agent_inv_def sent_ok_def valid_response_def)

definition ex_refused :: agent where
  "ex_refused = snd (poll ex_env \<lparr>in_parent = Some [], in_children = (\<lambda>c. [])\<rparr> ex_agent)"

lemma ex_refused_reach: "reach ex_refused"
  unfolding ex_refused_def by (intro reach.polled ex_agent_reach)

lemma ex_refused_sent: "ag_outbox ex_refused \<noteq> []"
proof -
  define r where "r = error_response ex_agent ''malformed'' (''malformed directive rejected: '' @ ''malformed directive: '' @ show_nat 0 @ '' frames'')"
  define b where "b = ex_agent\<lparr>ag_outbox := ag_outbox ex_agent @ [response_frames (w_hmac ex_env) (cf_secret (ag_config ex_agent)) r]\<rparr>"
  have agent: "ag_parent ex_agent" "ag_children ex_agent = []" by (simp_all add: ex_agent_eq initial_agent_def)
  have "recv ex_env (ag_config ex_agent) [] = Inl (Exc ProtocolError (''malformed directive: '' @ show_nat 0 @ '' frames''))"
    unfolding recv_def by simp
  moreover have "send ex_env r ex_agent = (Inr (), b)"
    unfolding r_def b_def by (rule send_error [OF agent(1)]) simp
  ultimately have "handle_parent_message ex_env [] ex_agent = (Inr (Some r), b)"
    unfolding handle_parent_message_def
    by (simp add: agent(1) is_value_error_def Let_def thenA_def bindA_def retA_def r_def [symmetric] del: append_Cons append_Nil)
  moreover have "ag_children b = []" by (simp add: b_def agent(2))
  ultimately have "snd (poll ex_env \<lparr>in_parent = Some [], in_children = (\<lambda>c. [])\<rparr> ex_agent) = b"
    by (simp add: poll_def agent(1) bindA_def dkeys_def retA_def)
  then show ?thesis by (simp add: ex_refused_def b_def)
qed

lemma sent_messages_valid_witness:
  "(\<exists>k. validate_ack k = Inr () \<and> hd (ag_outbox ex_refused) = ack_frames k) \<or>
     (\<exists>hmac secret m. validate_response m = Inr () \<and> hd (ag_outbox ex_refused) = response_frames hmac secret m)"
  using sent_messages_valid [OF ex_refused_reach] ex_refused_sent by simp

text \<open>C33: The trail is append-only: an event that a trajectory file holds stays as it is, whatever
  the agent is told and whether or not its polls raise.\<close>

theorem trail_append_only:
  assumes "run_loop wis a = (x, b)" "event_at (ag_disk a) path cid = Some ev"
  shows "event_at (ag_disk b) path cid = Some ev"
  using tr.run_loop_safe [of a wis] assms by (simp add: kept_def trail_grows_def)

definition ex_event :: event where
  "ex_event = \<lparr>ev_kind = ''ok'', ev_node = ''n'', ev_verified = True, ev_value = None, ev_error = PNone, ev_source = PStr [],
     ev_sources = None, ev_fingerprint = [], ev_parent = []\<rparr>"

lemma trail_append_only_witness:
  "event_at (ag_disk (snd (run_loop [(ex_env, \<lparr>in_parent = Some [], in_children = (\<lambda>c. [])\<rparr>)]
     (ex_agent\<lparr>ag_disk := [(''p'', \<lparr>state_tab = None, events_tab = Some [(''c'', ex_event)]\<rparr>)]\<rparr>)))) ''p'' ''c'' = Some ex_event"
  by (rule trail_append_only [OF prod.collapse [symmetric]]) (simp add: event_at_def file_at_def dget_Cons)

section \<open>Where the code and its documentation part\<close>

text \<open>A task that raises is not cached: the directive, sent again, calls it again.\<close>

lemma raised_task_not_cached:
  assumes "call_task w fn (dget_or p ''args'' (PDict [])) = Inl t"
  shows "ag_results (snd (execute w d task fn p a)) = ag_results a \<and> ag_used_keys (snd (execute w d task fn p a)) = ag_used_keys a"
  using assms by (simp add: execute_def Let_def fail_def)

text \<open>A payload that is no mapping escapes the fail-closed dispatch: the poll raises.\<close>

lemma non_mapping_escapes:
  assumes "\<not> is_dict (d_payload d)" "d_kind d = ''run''"
  shows "dispatch w d a = (Inl attribute_error, a)"
  using assms by (cases "d_payload d")
    (simp_all add: dispatch_def dispatch_inner_def maybe_delegate_def pget_def is_dict_def is_value_error_def)

text \<open>A spawn that is refused for its kind has spent a child of the envelope.\<close>

lemma refused_spawn_counts:
  assumes "d_payload d = PDict p" "truthy (dget_or p ''identity'' PNone)" "truthy (dget_or p ''endpoint'' PNone)"
    and "violation w ''spawn'' (d_payload d) a = None" "ag_context a" "ag_guard a = Some g"
    and "lookup (ag_child_agents a) (dget_or p ''identity'' PNone) = Inr None" "child_class a (dget_or p ''kind'' PNone) = None"
  shows "ag_guard (snd (spawn w d a)) = Some (record_step True g)"
proof -
  have "child_class (count_step True a) k = child_class a k" for k
    using assms(6) by (simp add: child_class_def count_step_def split: pyval.splits)
  then show ?thesis
    using assms by (simp add: spawn_def spawn_fresh_def Let_def fail_def)
qed

end
