(* ===== verification/Threads.thy ===== *)
theory Threads
  imports Py_Effects
begin

text \<open>
  Threads over a shared state. A thread has returned, or its next atomic action reads and changes
  the state and says how the thread goes on. Run alone it is a function of the state; run with
  others, a schedule names the thread that acts next. What every atomic action keeps holds
  under every schedule.
\<close>

datatype ('s, 'a) proc = Ret 'a | Act "'s \<Rightarrow> ('s, 'a) proc \<times> 's"

text \<open>A thread of Python returns a value or raises.\<close>

type_synonym ('s, 'a) thread = "('s, exc + 'a) proc"

section \<open>Sequencing\<close>

primrec bindP :: "('s, 'a) proc \<Rightarrow> ('a \<Rightarrow> ('s, 'b) proc) \<Rightarrow> ('s, 'b) proc" where
  "bindP (Ret a) f = f a"
| "bindP (Act g) f = Act (map_prod (\<lambda>p. bindP p f) id \<circ> g)"

primrec run_proc :: "('s, 'a) proc \<Rightarrow> 's \<Rightarrow> 'a \<times> 's" where
  "run_proc (Ret a) = (\<lambda>s. (a, s))"
| "run_proc (Act g) = (\<lambda>s. (\<lambda>(f, s'). f s') ((map_prod run_proc id \<circ> g) s))"

lemma run_Ret [simp]: "run_proc (Ret a) s = (a, s)"
  by simp

lemma run_Act [simp]: "run_proc (Act g) s = run_proc (fst (g s)) (snd (g s))"
  by (simp add: case_prod_beta)

declare run_proc.simps [simp del]

lemma run_bindP [simp]: "run_proc (bindP p f) s = run_proc (f (fst (run_proc p s))) (snd (run_proc p s))"
proof (induction p arbitrary: s)
  case (Ret a)
  then show ?case by simp
next
  case (Act g)
  have "fst (g s) \<in> Basic_BNFs.fsts (g s)" by (metis fsts.simps prod.collapse)
  moreover have "g s \<in> range g" by simp
  ultimately show ?case using Act [of "g s" "fst (g s)"] by simp
qed

definition retT :: "'a \<Rightarrow> ('s, 'a) thread" where
  "retT x = Ret (Inr x)"

definition raiseT :: "exc \<Rightarrow> ('s, 'a) thread" where
  "raiseT e = Ret (Inl e)"

definition bindT :: "('s, 'a) thread \<Rightarrow> ('a \<Rightarrow> ('s, 'b) thread) \<Rightarrow> ('s, 'b) thread" where
  "bindT m f = bindP m (\<lambda>r. case r of Inl e \<Rightarrow> Ret (Inl e) | Inr x \<Rightarrow> f x)"

definition thenT :: "('s, unit) thread \<Rightarrow> ('s, 'b) thread \<Rightarrow> ('s, 'b) thread" where
  "thenT m n = bindT m (\<lambda>_. n)"

text \<open>\<open>try: m except Exception as e: h e\<close>\<close>

definition tryT :: "('s, 'a) thread \<Rightarrow> (exc \<Rightarrow> ('s, 'a) thread) \<Rightarrow> ('s, 'a) thread" where
  "tryT m h = bindP m (\<lambda>r. case r of Inl e \<Rightarrow> h e | Inr x \<Rightarrow> retT x)"

text \<open>One atomic action that may raise, one that cannot, and a pure check.\<close>

definition actT :: "('s \<Rightarrow> (exc + 'a) \<times> 's) \<Rightarrow> ('s, 'a) thread" where
  "actT f = Act (\<lambda>s. (Ret (fst (f s)), snd (f s)))"

definition updT :: "('s \<Rightarrow> 'a \<times> 's) \<Rightarrow> ('s, 'a) thread" where
  "updT f = Act (\<lambda>s. (retT (fst (f s)), snd (f s)))"

definition liftT :: "exc + 'a \<Rightarrow> ('s, 'a) thread" where
  "liftT r = Ret r"

fun mapT :: "('a \<Rightarrow> ('s, 'b) thread) \<Rightarrow> 'a list \<Rightarrow> ('s, 'b list) thread" where
  "mapT f [] = retT []"
| "mapT f (x # xs) = bindT (f x) (\<lambda>y. bindT (mapT f xs) (\<lambda>ys. retT (y # ys)))"

lemma run_retT [simp]: "run_proc (retT x) s = (Inr x, s)"
  by (simp add: retT_def)

lemma run_raiseT [simp]: "run_proc (raiseT e) s = (Inl e, s)"
  by (simp add: raiseT_def)

lemma run_liftT [simp]: "run_proc (liftT r) s = (r, s)"
  by (simp add: liftT_def)

lemma run_actT [simp]: "run_proc (actT f) s = f s"
  by (simp add: actT_def)

lemma run_updT [simp]: "run_proc (updT f) s = (Inr (fst (f s)), snd (f s))"
  by (simp add: updT_def)

lemma run_bindT:
  "run_proc (bindT m f) s =
     (case run_proc m s of (Inl e, t) \<Rightarrow> (Inl e, t) | (Inr x, t) \<Rightarrow> run_proc (f x) t)"
  by (cases "run_proc m s") (auto simp: bindT_def split: sum.splits)

lemma run_thenT:
  "run_proc (thenT m n) s =
     (case run_proc m s of (Inl e, t) \<Rightarrow> (Inl e, t) | (Inr x, t) \<Rightarrow> run_proc n t)"
  by (simp add: thenT_def run_bindT)

lemma run_tryT:
  "run_proc (tryT m h) s =
     (case run_proc m s of (Inl e, t) \<Rightarrow> run_proc (h e) t | (Inr x, t) \<Rightarrow> (Inr x, t))"
  by (cases "run_proc m s") (auto simp: tryT_def split: sum.splits)

section \<open>Interleaving\<close>

text \<open>The next action of one thread; a thread that has returned stays.\<close>

definition step_proc :: "('s, 'a) proc \<Rightarrow> 's \<Rightarrow> ('s, 'a) proc \<times> 's" where
  "step_proc p s = (case p of Ret a \<Rightarrow> (Ret a, s) | Act g \<Rightarrow> g s)"

text \<open>Beside the threads there is the one that joins them: it takes their results in the order of the
  list, and \<open>f\<close> is what it does with a result. In a schedule a number below the number of threads
  names a thread, any other the joiner, which waits while the next thread is not done.\<close>

fun interleave :: "('a \<Rightarrow> 's \<Rightarrow> 's) \<Rightarrow> nat list \<Rightarrow> nat \<Rightarrow> ('s, 'a) proc list \<Rightarrow> 's \<Rightarrow> nat \<times> ('s, 'a) proc list \<times> 's" where
  "interleave f [] j ps s = (j, ps, s)"
| "interleave f (i # is) j ps s =
     (if i < length ps then (let (p, t) = step_proc (ps ! i) s in interleave f is j (ps[i := p]) t)
      else if j < length ps then
        (case ps ! j of Ret a \<Rightarrow> interleave f is (Suc j) ps (f a s) | Act _ \<Rightarrow> interleave f is j ps s)
      else interleave f is j ps s)"

text \<open>What the schedule leaves unfinished runs to its end, in the order of the list; the first \<open>j\<close>
  results are joined already.\<close>

fun finish :: "('a \<Rightarrow> 's \<Rightarrow> 's) \<Rightarrow> nat \<Rightarrow> ('s, 'a) proc list \<Rightarrow> 's \<Rightarrow> 'a list \<times> 's" where
  "finish f j [] s = ([], s)"
| "finish f j (p # ps) s =
     (let (a, t) = run_proc p s; (as, u) = finish f (j - 1) ps (if j = 0 then f a t else t) in (a # as, u))"

definition run_threads :: "('a \<Rightarrow> 's \<Rightarrow> 's) \<Rightarrow> nat list \<Rightarrow> ('s, 'a) proc list \<Rightarrow> 's \<Rightarrow> 'a list \<times> 's" where
  "run_threads f sched ps s = (let (j, qs, t) = interleave f sched 0 ps s in finish f j qs t)"

lemma finish_length: "length (fst (finish f j ps s)) = length ps"
  by (induction ps arbitrary: j s) (auto simp: case_prod_beta Let_def)

lemma interleave_length: "length (fst (snd (interleave f sched j ps s))) = length ps"
proof (induction sched arbitrary: j ps s)
  case Nil
  then show ?case by simp
next
  case (Cons i sched)
  then show ?case by (auto simp: case_prod_beta Let_def split: proc.split)
qed

lemma run_threads_length [simp]: "length (fst (run_threads f sched ps s)) = length ps"
  by (simp add: run_threads_def case_prod_beta Let_def finish_length interleave_length)

section \<open>What every action keeps\<close>

text \<open>\<open>guarded I R Q p\<close>: from any state of \<open>I\<close>, the next action stays in \<open>I\<close> and in the relation
  \<open>R\<close>, whoever acted before, and a value that \<open>p\<close> returns satisfies \<open>Q\<close>.\<close>

inductive guarded :: "('s \<Rightarrow> bool) \<Rightarrow> ('s \<Rightarrow> 's \<Rightarrow> bool) \<Rightarrow> ('a \<Rightarrow> bool) \<Rightarrow> ('s, 'a) proc \<Rightarrow> bool"
  for I :: "'s \<Rightarrow> bool" and R :: "'s \<Rightarrow> 's \<Rightarrow> bool" and Q :: "'a \<Rightarrow> bool" where
  guarded_Ret: "Q a \<Longrightarrow> guarded I R Q (Ret a)"
| guarded_Act: "(\<And>s. I s \<Longrightarrow> I (snd (g s)) \<and> R s (snd (g s)) \<and> guarded I R Q (fst (g s))) \<Longrightarrow> guarded I R Q (Act g)"

inductive_simps guarded_Ret_iff [simp]: "guarded I R Q (Ret a)"
inductive_simps guarded_Act_iff: "guarded I R Q (Act g)"

lemma guarded_weaken:
  assumes "guarded I R P p" "\<And>a. P a \<Longrightarrow> Q a"
  shows "guarded I R Q p"
  using assms(1)
proof (induction rule: guarded.induct)
  case (guarded_Ret a)
  then show ?case by (simp add: assms(2))
next
  case (guarded_Act g)
  then show ?case by (blast intro: guarded.guarded_Act)
qed

lemma guarded_bindP:
  assumes "guarded I R P p" "\<And>a. P a \<Longrightarrow> guarded I R Q (f a)"
  shows "guarded I R Q (bindP p f)"
  using assms(1)
proof (induction rule: guarded.induct)
  case (guarded_Ret a)
  then show ?case by (simp add: assms(2))
next
  case (guarded_Act g)
  then show ?case by (auto simp: guarded_Act_iff)
qed

text \<open>A result is in \<open>okT X Q\<close> when it is an exception of \<open>X\<close> or a value of \<open>Q\<close>.\<close>

definition okT :: "(exc \<Rightarrow> bool) \<Rightarrow> ('a \<Rightarrow> bool) \<Rightarrow> exc + 'a \<Rightarrow> bool" where
  "okT X Q r = (case r of Inl e \<Rightarrow> X e | Inr x \<Rightarrow> Q x)"

lemma okT_simps [simp]: "okT X Q (Inl e) = X e" "okT X Q (Inr x) = Q x"
  by (simp_all add: okT_def)

lemma okT_mono: "okT X P r \<Longrightarrow> (\<And>e. X e \<Longrightarrow> Y e) \<Longrightarrow> (\<And>x. P x \<Longrightarrow> Q x) \<Longrightarrow> okT Y Q r"
  by (cases r) simp_all

lemma guarded_retT: "Q x \<Longrightarrow> guarded I R (okT X Q) (retT x)"
  by (simp add: retT_def)

lemma guarded_raiseT: "X e \<Longrightarrow> guarded I R (okT X Q) (raiseT e)"
  by (simp add: raiseT_def)

lemma guarded_liftT: "okT X Q r \<Longrightarrow> guarded I R (okT X Q) (liftT r)"
  by (simp add: liftT_def)

lemma guarded_bindT:
  assumes "guarded I R (okT X P) m" "\<And>x. P x \<Longrightarrow> guarded I R (okT X Q) (f x)"
  shows "guarded I R (okT X Q) (bindT m f)"
  unfolding bindT_def by (rule guarded_bindP [OF assms(1)]) (auto split: sum.splits intro: assms(2))

lemma guarded_thenT:
  "guarded I R (okT X P) m \<Longrightarrow> guarded I R (okT X Q) n \<Longrightarrow> guarded I R (okT X Q) (thenT m n)"
  unfolding thenT_def by (rule guarded_bindT)

lemma guarded_tryT:
  assumes "guarded I R (okT Y Q) m" "\<And>e. Y e \<Longrightarrow> guarded I R (okT X Q) (h e)"
  shows "guarded I R (okT X Q) (tryT m h)"
  unfolding tryT_def
  by (rule guarded_bindP [OF assms(1)]) (auto split: sum.splits intro: assms(2) guarded_retT)

lemma guarded_if: "(b \<Longrightarrow> guarded I R Q m) \<Longrightarrow> (\<not> b \<Longrightarrow> guarded I R Q n) \<Longrightarrow> guarded I R Q (if b then m else n)"
  by simp

lemma guarded_actT:
  "(\<And>s. I s \<Longrightarrow> I (snd (f s)) \<and> R s (snd (f s)) \<and> okT X Q (fst (f s))) \<Longrightarrow> guarded I R (okT X Q) (actT f)"
  by (simp add: actT_def guarded_Act_iff)

lemma guarded_updT:
  "(\<And>s. I s \<Longrightarrow> I (snd (f s)) \<and> R s (snd (f s)) \<and> Q (fst (f s))) \<Longrightarrow> guarded I R (okT X Q) (updT f)"
  by (simp add: updT_def guarded_Act_iff retT_def)

lemma guarded_okT_mono:
  "guarded I R (okT X P) m \<Longrightarrow> (\<And>e. X e \<Longrightarrow> Y e) \<Longrightarrow> (\<And>x. P x \<Longrightarrow> Q x) \<Longrightarrow> guarded I R (okT Y Q) m"
  by (erule guarded_weaken) (erule okT_mono)

text \<open>A schedule in a reflexive and transitive relation: every thread keeps it, so all together do.\<close>

locale kept_relation =
  fixes I :: "'s \<Rightarrow> bool" and R :: "'s \<Rightarrow> 's \<Rightarrow> bool"
  assumes kept_refl: "R s s" and kept_trans: "R s t \<Longrightarrow> R t u \<Longrightarrow> R s u"
begin

lemma run_guarded:
  "guarded I R Q p \<Longrightarrow> I s \<Longrightarrow> I (snd (run_proc p s)) \<and> R s (snd (run_proc p s)) \<and> Q (fst (run_proc p s))"
proof (induction arbitrary: s rule: guarded.induct)
  case (guarded_Ret a)
  then show ?case by (simp add: kept_refl)
next
  case (guarded_Act g)
  then have "I (snd (g s))" "R s (snd (g s))" by simp_all
  moreover have "\<And>t. I t \<Longrightarrow> I (snd (run_proc (fst (g s)) t)) \<and> R t (snd (run_proc (fst (g s)) t)) \<and> Q (fst (run_proc (fst (g s)) t))"
    using guarded_Act by blast
  ultimately show ?case using kept_trans by (auto simp: run_Act)
qed

lemma step_guarded:
  "guarded I R Q p \<Longrightarrow> I s \<Longrightarrow>
     I (snd (step_proc p s)) \<and> R s (snd (step_proc p s)) \<and> guarded I R Q (fst (step_proc p s))"
  by (cases p) (auto simp: step_proc_def guarded_Act_iff kept_refl)

definition joins :: "('a \<Rightarrow> 's \<Rightarrow> 's) \<Rightarrow> bool" where
  "joins f \<longleftrightarrow> (\<forall>a s. I s \<longrightarrow> I (f a s) \<and> R s (f a s))"

lemma interleave_guarded:
  assumes "joins f" "\<forall>i < length ps. guarded I R (Q i) (ps ! i)" "I s" "interleave f sched j ps s = (k, qs, t)"
  shows "I t \<and> R s t \<and> (\<forall>i < length ps. guarded I R (Q i) (qs ! i))"
  using assms(2-)
proof (induction sched arbitrary: j ps s)
  case Nil
  then show ?case by (auto simp: kept_refl)
next
  case (Cons i sched)
  consider (thread) "i < length ps" | (join) a where "\<not> i < length ps" "j < length ps" "ps ! j = Ret a"
    | (wait) "interleave f (i # sched) j ps s = interleave f sched j ps s"
    by (cases "i < length ps"; cases "j < length ps"; cases "ps ! j") auto
  then show ?case
  proof cases
    case thread
    obtain p u where pu: "step_proc (ps ! i) s = (p, u)" by force
    have st: "I u \<and> R s u \<and> guarded I R (Q i) p"
      using step_guarded [of "Q i" "ps ! i" s] Cons.prems thread by (simp add: pu)
    have "\<forall>j < length (ps[i := p]). guarded I R (Q j) (ps[i := p] ! j)"
      using Cons.prems st thread by (auto simp: nth_list_update)
    from Cons.IH [OF this, of u j] st show ?thesis using thread Cons.prems kept_trans by (auto simp: pu)
  next
    case join
    have "I (f a s) \<and> R s (f a s)" using assms(1) Cons.prems(2) by (simp add: joins_def)
    with Cons.IH [OF Cons.prems(1), of "f a s" "Suc j"] show ?thesis using join Cons.prems kept_trans by auto
  next
    case wait
    then show ?thesis using Cons.IH [OF Cons.prems(1,2), of j] Cons.prems(3) by simp
  qed
qed

lemma finish_guarded:
  assumes "joins f" "\<forall>i < length ps. guarded I R (Q i) (ps ! i)" "I s"
  shows "I (snd (finish f j ps s)) \<and> R s (snd (finish f j ps s)) \<and> (\<forall>i < length ps. Q i (fst (finish f j ps s) ! i))"
  using assms(2-)
proof (induction ps arbitrary: s j Q)
  case Nil
  then show ?case by (simp add: kept_refl)
next
  case (Cons p ps)
  obtain a t where at: "run_proc p s = (a, t)" by force
  have st: "I t \<and> R s t \<and> Q 0 a" using run_guarded [of "Q 0" p s] Cons.prems by (auto simp: at)
  define u where "u = (if j = 0 then f a t else t)"
  have u: "I u \<and> R s u" using st assms(1) kept_trans by (auto simp: u_def joins_def)
  have "\<forall>i < length ps. guarded I R (Q (Suc i)) (ps ! i)" using Cons.prems(1) by auto
  note IH = Cons.IH [OF this, of u "j - 1"]
  obtain as v where fin: "finish f (j - 1) ps u = (as, v)" by force
  have all: "finish f j (p # ps) s = (a # as, v)" using fin by (simp add: at u_def)
  have "I v \<and> R u v \<and> (\<forall>i < length ps. Q (Suc i) (as ! i))" using IH u unfolding fin by simp
  moreover from this have "R s v" using u st kept_trans by blast
  moreover have "Q i ((a # as) ! i)" if "i < length (p # ps)" for i
    using that st calculation(1) by (cases i) auto
  ultimately show ?case unfolding all by simp
qed

lemma threads_guarded:
  assumes "joins f" "\<forall>i < length ps. guarded I R (Q i) (ps ! i)" "I s"
  shows "I (snd (run_threads f sched ps s)) \<and> R s (snd (run_threads f sched ps s)) \<and>
    (\<forall>i < length ps. Q i (fst (run_threads f sched ps s) ! i))"
proof -
  obtain j qs t where qt: "interleave f sched 0 ps s = (j, qs, t)" by (metis prod_cases3)
  have q: "I t \<and> R s t \<and> (\<forall>i < length ps. guarded I R (Q i) (qs ! i))" and l: "length qs = length ps"
    using interleave_guarded [OF assms qt] interleave_length [of f sched 0 ps s] by (simp_all add: qt)
  have "I (snd (finish f j qs t)) \<and> R t (snd (finish f j qs t)) \<and> (\<forall>i < length qs. Q i (fst (finish f j qs t) ! i))"
    by (rule finish_guarded [OF assms(1)]) (use q l in auto)
  with q l show ?thesis using kept_trans by (auto simp: run_threads_def qt)
qed

end

section \<open>Threads that stop at the first failure\<close>

text \<open>\<open>failstop I B p\<close>: as long as \<open>I\<close> holds, the next action of \<open>p\<close> keeps it, or \<open>p\<close> is bound to
  return a failure (a value of \<open>B\<close>), whatever the others do. If no thread failed, \<open>I\<close> was
  never left.\<close>

abbreviation doomed :: "('a \<Rightarrow> bool) \<Rightarrow> ('s, 'a) proc \<Rightarrow> bool" where
  "doomed B p \<equiv> guarded (\<lambda>_. True) (\<lambda>_ _. True) B p"

inductive failstop :: "('s \<Rightarrow> bool) \<Rightarrow> ('a \<Rightarrow> bool) \<Rightarrow> ('s, 'a) proc \<Rightarrow> bool"
  for I :: "'s \<Rightarrow> bool" and B :: "'a \<Rightarrow> bool" where
  failstop_Ret: "failstop I B (Ret a)"
| failstop_Act: "(\<And>s. I s \<Longrightarrow> I (snd (g s)) \<and> failstop I B (fst (g s)) \<or> doomed B (fst (g s))) \<Longrightarrow> failstop I B (Act g)"

inductive_simps failstop_Act_iff: "failstop I B (Act g)"

lemma failstop_bindP:
  assumes "failstop I C p" "\<And>a. C a \<Longrightarrow> doomed B (f a)" "\<And>a. failstop I B (f a)"
  shows "failstop I B (bindP p f)"
  using assms(1)
proof (induction rule: failstop.induct)
  case (failstop_Ret a)
  then show ?case by (simp add: assms(3))
next
  case (failstop_Act g)
  have "doomed C q \<Longrightarrow> doomed B (bindP q f)" for q
    by (rule guarded_bindP [where P = C]) (use assms(2) in auto)
  then show ?case using failstop_Act by (auto simp: failstop_Act_iff)
qed

lemma doomed_failstop: "doomed B p \<Longrightarrow> failstop I B p"
proof (induction rule: guarded.induct)
  case (guarded_Ret a)
  show ?case by (rule failstop_Ret)
next
  case (guarded_Act g)
  then show ?case by (simp add: failstop_Act_iff)
qed

lemma failstop_mono: "failstop I B p \<Longrightarrow> (\<And>a. B a \<Longrightarrow> C a) \<Longrightarrow> failstop I C p"
proof (induction rule: failstop.induct)
  case (failstop_Ret a)
  show ?case by (rule failstop.failstop_Ret)
next
  case (failstop_Act g)
  have "doomed B q \<Longrightarrow> doomed C q" for q
    by (rule guarded_weaken [where P = B]) (use failstop_Act(2) in auto)
  then show ?case using failstop_Act by (auto simp: failstop_Act_iff)
qed

abbreviation fatal :: "('a \<Rightarrow> bool) \<Rightarrow> exc + 'a \<Rightarrow> bool" where
  "fatal \<equiv> okT (\<lambda>_. True)"

lemma failstop_retT: "failstop I B (retT x)" "failstop I B (raiseT e)" "failstop I B (liftT r)"
  by (simp_all add: retT_def raiseT_def liftT_def failstop_Ret)

lemma failstop_bindT:
  assumes "failstop I (fatal C) m" "\<And>x. C x \<Longrightarrow> doomed (fatal B) (f x)" "\<And>x. failstop I (fatal B) (f x)"
  shows "failstop I (fatal B) (bindT m f)"
  unfolding bindT_def
  by (rule failstop_bindP [OF assms(1)]) (auto split: sum.splits intro: assms(2,3) failstop_Ret simp: okT_def)

text \<open>An action that keeps \<open>I\<close> in any case, and one that keeps it unless its value says otherwise.\<close>

lemma failstop_keep:
  assumes "\<And>s. I s \<Longrightarrow> I (snd (f s))" "\<And>x. failstop I (fatal B) (k x)"
  shows "failstop I (fatal B) (bindT (updT f) k)"
  by (rule failstop_bindT [where C = "\<lambda>_. False"]) (simp_all add: updT_def failstop_Act_iff failstop_retT assms)

lemma failstop_thenT:
  "failstop I (fatal (\<lambda>_. False)) m \<Longrightarrow> failstop I (fatal B) n \<Longrightarrow> failstop I (fatal B) (thenT m n)"
  unfolding thenT_def by (rule failstop_bindT [where C = "\<lambda>_. False"]) simp_all

lemma failstop_updT: "(\<And>s. I s \<Longrightarrow> I (snd (f s)) \<or> B (fst (f s))) \<Longrightarrow> failstop I (fatal B) (updT f)"
  by (auto simp: updT_def retT_def failstop_Act_iff failstop_Ret)

lemma failstop_actT: "(\<And>s. I s \<Longrightarrow> I (snd (f s)) \<or> fatal B (fst (f s))) \<Longrightarrow> failstop I (fatal B) (actT f)"
  by (auto simp: actT_def failstop_Act_iff failstop_Ret)

lemma failstop_tryT:
  assumes "failstop I (fatal B) m" "\<And>e. doomed (fatal B) (h e)"
  shows "failstop I (fatal B) (tryT m h)"
  unfolding tryT_def
proof (rule failstop_bindP [OF assms(1)])
  fix r :: "exc + 'b"
  show "fatal B r \<Longrightarrow> doomed (fatal B) (case r of Inl e \<Rightarrow> h e | Inr x \<Rightarrow> retT x)"
    by (cases r) (simp_all add: assms(2) guarded_retT)
  show "failstop I (fatal B) (case r of Inl e \<Rightarrow> h e | Inr x \<Rightarrow> retT x)"
    by (cases r) (simp_all add: failstop_retT doomed_failstop assms(2))
qed

lemma run_doomed: "doomed B p \<Longrightarrow> B (fst (run_proc p s))"
  using kept_relation.run_guarded [of "\<lambda>_ _. True" "\<lambda>_. True" B p s] by (simp add: kept_relation_def)

lemma run_failstop: "failstop I B p \<Longrightarrow> I s \<Longrightarrow> I (snd (run_proc p s)) \<or> B (fst (run_proc p s))"
proof (induction arbitrary: s rule: failstop.induct)
  case (failstop_Ret a)
  then show ?case by simp
next
  case (failstop_Act g)
  from failstop_Act(1) [OF failstop_Act(2)] show ?case
  proof (elim disjE conjE)
    assume "doomed B (fst (g s))"
    then show ?thesis using run_doomed [of B "fst (g s)" "snd (g s)"] by simp
  qed simp
qed

text \<open>Threads together: a schedule leaves \<open>I\<close> only if some thread returns a failure.\<close>

definition undamaged :: "('s \<Rightarrow> bool) \<Rightarrow> ('a \<Rightarrow> bool) \<Rightarrow> ('s, 'a) proc list \<Rightarrow> 's \<Rightarrow> bool" where
  "undamaged I B ps s \<longleftrightarrow> I s \<and> (\<forall>p \<in> set ps. failstop I B p) \<or> (\<exists>p \<in> set ps. doomed B p)"

lemma step_doomed: "doomed B p \<Longrightarrow> doomed B (fst (step_proc p s))"
  by (cases p) (auto simp: step_proc_def guarded_Act_iff)

lemma step_failstop: "failstop I B p \<Longrightarrow> I s \<Longrightarrow>
    I (snd (step_proc p s)) \<and> failstop I B (fst (step_proc p s)) \<or> doomed B (fst (step_proc p s))"
  by (cases p) (auto simp: step_proc_def failstop_Act_iff)

lemma undamaged_step:
  assumes "undamaged I B ps s" "i < length ps" "step_proc (ps ! i) s = (p, t)"
  shows "undamaged I B (ps[i := p]) t"
proof -
  have p: "p \<in> set (ps[i := p])" using assms(2) by (simp add: set_update_memI)
  from assms(1) consider (good) "I s" "\<forall>q \<in> set ps. failstop I B q" | (bad) q where "q \<in> set ps" "doomed B q"
    by (auto simp: undamaged_def)
  then show ?thesis
  proof cases
    case good
    then have "failstop I B (ps ! i)" using assms(2) by simp
    from step_failstop [OF this good(1)] show ?thesis
    proof (elim disjE conjE)
      assume "I (snd (step_proc (ps ! i) s))" "failstop I B (fst (step_proc (ps ! i) s))"
      moreover have "set (ps[i := p]) \<subseteq> insert p (set ps)" by (rule set_update_subset_insert)
      ultimately show ?thesis using good(2) assms(3) by (auto simp: undamaged_def)
    qed (use p assms(3) in \<open>auto simp: undamaged_def\<close>)
  next
    case bad
    from bad(1) obtain j where j: "j < length ps" "q = ps ! j" by (auto simp: in_set_conv_nth)
    have "doomed B (ps[i := p] ! j)"
      using bad(2) j assms step_doomed [of B "ps ! i" s] by (cases "i = j") auto
    moreover have "ps[i := p] ! j \<in> set (ps[i := p])" using j(1) by simp
    ultimately show ?thesis by (auto simp: undamaged_def)
  qed
qed

lemma undamaged_join: "undamaged I B ps s \<Longrightarrow> (I s \<Longrightarrow> I t) \<Longrightarrow> undamaged I B ps t"
  by (auto simp: undamaged_def)

lemma interleave_undamaged:
  assumes "\<And>a s. I s \<Longrightarrow> I (f a s)" "undamaged I B ps s" "interleave f sched j ps s = (k, qs, t)"
  shows "undamaged I B qs t"
  using assms(2,3)
proof (induction sched arbitrary: j ps s)
  case Nil
  then show ?case by simp
next
  case (Cons i sched)
  consider (thread) "i < length ps" | (join) a where "\<not> i < length ps" "j < length ps" "ps ! j = Ret a"
    | (wait) "interleave f (i # sched) j ps s = interleave f sched j ps s"
    by (cases "i < length ps"; cases "j < length ps"; cases "ps ! j") auto
  then show ?case
  proof cases
    case thread
    obtain p u where pu: "step_proc (ps ! i) s = (p, u)" by force
    show ?thesis using Cons.IH [OF undamaged_step [OF Cons.prems(1) thread pu]] Cons.prems(2) thread by (simp add: pu)
  next
    case join
    then show ?thesis using Cons.IH [OF undamaged_join [OF Cons.prems(1)]] Cons.prems(2) assms(1) by auto
  next
    case wait
    then show ?thesis using Cons by simp
  qed
qed

lemma finish_doomed: "p \<in> set ps \<Longrightarrow> doomed B p \<Longrightarrow> \<exists>a \<in> set (fst (finish f j ps s)). B a"
proof (induction ps arbitrary: j s)
  case Nil
  then show ?case by simp
next
  case (Cons q ps)
  obtain a t where at: "run_proc q s = (a, t)" by force
  obtain as u where fin: "finish f (j - 1) ps (if j = 0 then f a t else t) = (as, u)" by force
  have all: "fst (finish f j (q # ps) s) = a # as" using fin by (simp add: at)
  show ?case
  proof (cases "p = q")
    case True
    then show ?thesis using run_doomed [OF Cons.prems(2), of s] unfolding all by (simp add: at)
  next
    case False
    then show ?thesis using Cons.IH [of "j - 1" "if j = 0 then f a t else t"] Cons.prems unfolding all fin by simp
  qed
qed

lemma finish_undamaged:
  assumes "\<And>a s. I s \<Longrightarrow> I (f a s)" "undamaged I B ps s"
  shows "I (snd (finish f j ps s)) \<or> (\<exists>a \<in> set (fst (finish f j ps s)). B a)"
  using assms(2)
proof (induction ps arbitrary: j s)
  case Nil
  then show ?case by (simp add: undamaged_def)
next
  case (Cons q ps)
  show ?case
  proof (cases "\<exists>p \<in> set (q # ps). doomed B p")
    case True
    then obtain p where "p \<in> set (q # ps)" "doomed B p" by blast
    from finish_doomed [OF this] show ?thesis by (rule disjI2)
  next
    case False
    then have good: "I s" "failstop I B q" "\<forall>p \<in> set ps. failstop I B p" using Cons.prems by (auto simp: undamaged_def)
    obtain a t where at: "run_proc q s = (a, t)" by force
    define v where "v = (if j = 0 then f a t else t)"
    obtain as u where fin: "finish f (j - 1) ps v = (as, u)" by force
    have all: "finish f j (q # ps) s = (a # as, u)" using fin by (simp add: at v_def)
    from run_failstop [OF good(2,1)] show ?thesis
    proof
      assume "I (snd (run_proc q s))"
      then have "undamaged I B ps v" using good(3) assms(1) by (auto simp: undamaged_def at v_def)
      from Cons.IH [OF this, of "j - 1"] show ?thesis unfolding all fin by auto
    next
      assume "B (fst (run_proc q s))"
      then show ?thesis unfolding all by (simp add: at)
    qed
  qed
qed

lemma threads_failstop:
  assumes "\<And>a s. I s \<Longrightarrow> I (f a s)" "\<forall>p \<in> set ps. failstop I B p" "I s"
  shows "I (snd (run_threads f sched ps s)) \<or> (\<exists>a \<in> set (fst (run_threads f sched ps s)). B a)"
proof -
  obtain j qs t where qt: "interleave f sched 0 ps s = (j, qs, t)" by (metis prod_cases3)
  have "undamaged I B qs t"
    by (rule interleave_undamaged [of I f, OF assms(1) _ qt]) (use assms(2,3) in \<open>simp_all add: undamaged_def\<close>)
  from finish_undamaged [of I f, OF assms(1) this, of j] show ?thesis by (simp add: run_threads_def qt)
qed

section \<open>Threads alone\<close>

text \<open>What a thread that runs alone makes of a state.\<close>

definition holds :: "('s \<Rightarrow> bool) \<Rightarrow> ('s, 'a) thread \<Rightarrow> (exc + 'a \<Rightarrow> 's \<Rightarrow> bool) \<Rightarrow> bool" where
  "holds P m Q \<longleftrightarrow> (\<forall>s. P s \<longrightarrow> Q (fst (run_proc m s)) (snd (run_proc m s)))"

lemma holdsD: "holds P m Q \<Longrightarrow> P s \<Longrightarrow> run_proc m s = (r, t) \<Longrightarrow> Q r t"
  by (force simp: holds_def)

lemma holds_bindT:
  assumes "holds P m M" "\<And>x. holds (\<lambda>s. M (Inr x) s) (f x) Q" "\<And>e s. M (Inl e) s \<Longrightarrow> Q (Inl e) s"
  shows "holds P (bindT m f) Q"
  unfolding holds_def
proof (intro allI impI)
  fix s assume "P s"
  obtain r t where m: "run_proc m s = (r, t)" by force
  have M: "M r t" by (rule holdsD [OF assms(1) \<open>P s\<close> m])
  show "Q (fst (run_proc (bindT m f) s)) (snd (run_proc (bindT m f) s))"
  proof (cases r)
    case (Inl e)
    then have "run_proc (bindT m f) s = (Inl e, t)" by (simp add: run_bindT m)
    then show ?thesis using M assms(3) Inl by simp
  next
    case (Inr x)
    then have "run_proc (bindT m f) s = run_proc (f x) t" by (simp add: run_bindT m)
    then show ?thesis using assms(2) [of x] M Inr by (simp add: holds_def)
  qed
qed

lemma holds_thenT:
  assumes "holds P m M" "holds (\<lambda>s. M (Inr ()) s) n Q" "\<And>e s. M (Inl e) s \<Longrightarrow> Q (Inl e) s"
  shows "holds P (thenT m n) Q"
  unfolding thenT_def by (rule holds_bindT [OF assms(1)]) (use assms(2,3) in auto)

lemma holds_tryT:
  assumes "holds P m M" "\<And>e. holds (\<lambda>s. M (Inl e) s) (h e) Q" "\<And>x s. M (Inr x) s \<Longrightarrow> Q (Inr x) s"
  shows "holds P (tryT m h) Q"
  unfolding holds_def
proof (intro allI impI)
  fix s assume "P s"
  obtain r t where m: "run_proc m s = (r, t)" by force
  have M: "M r t" by (rule holdsD [OF assms(1) \<open>P s\<close> m])
  show "Q (fst (run_proc (tryT m h) s)) (snd (run_proc (tryT m h) s))"
  proof (cases r)
    case (Inl e)
    then have "run_proc (tryT m h) s = run_proc (h e) t" by (simp add: run_tryT m)
    then show ?thesis using assms(2) [of e] M Inl by (simp add: holds_def)
  next
    case (Inr x)
    then have "run_proc (tryT m h) s = (Inr x, t)" by (simp add: run_tryT m)
    then show ?thesis using M assms(3) Inr by simp
  qed
qed

lemma holds_retT [simp]: "holds P (retT x) Q \<longleftrightarrow> (\<forall>s. P s \<longrightarrow> Q (Inr x) s)"
  "holds P (raiseT e) Q \<longleftrightarrow> (\<forall>s. P s \<longrightarrow> Q (Inl e) s)"
  "holds P (liftT r) Q \<longleftrightarrow> (\<forall>s. P s \<longrightarrow> Q r s)"
  by (simp_all add: holds_def)

lemma holds_updT [simp]: "holds P (updT f) Q \<longleftrightarrow> (\<forall>s. P s \<longrightarrow> Q (Inr (fst (f s))) (snd (f s)))"
  by (simp add: holds_def)

lemma holds_actT [simp]: "holds P (actT f) Q \<longleftrightarrow> (\<forall>s. P s \<longrightarrow> Q (fst (f s)) (snd (f s)))"
  by (simp add: holds_def)

lemma holds_post: "holds P m M \<Longrightarrow> (\<And>r s. M r s \<Longrightarrow> Q r s) \<Longrightarrow> holds P m Q"
  by (simp add: holds_def)

lemma holds_pre: "holds P m Q \<Longrightarrow> (\<And>s. P' s \<Longrightarrow> P s) \<Longrightarrow> holds P' m Q"
  by (simp add: holds_def)

end
