(* ===== verification/Policy.thy ===== *)
theory Policy
  imports Py_Effects Manifest
begin

text \<open>
  \<open>contracts/policy.py\<close>: the governance rule a task may carry. A frozen set is the list of its
  members; only membership and emptiness are read. A check answers with a decision whose reason is
  set when the item is denied.
\<close>

definition value_error_if :: "bool \<Rightarrow> string \<Rightarrow> exc + unit" where
  "value_error_if b msg = rejectR b (Exc ValueError msg)"

datatype policy_version = Policy_V1

record policy_decision =
  pd_allowed :: bool
  pd_reason :: "string option"

record policy =
  po_version :: policy_version
  po_allow_agents :: "string list"
  po_deny_agents :: "string list"
  po_allow_capabilities :: "capability list"
  po_deny_capabilities :: "capability list"
  po_allow_tools :: "string list"
  po_deny_tools :: "string list"

definition policy_init :: "policy \<Rightarrow> exc + policy" where
  "policy_init p =
     thenR (value_error_if (list_ex (\<lambda>n. n = []) (po_allow_agents p @ po_deny_agents p)) ''Agent names must be non-empty.'')
    (thenR (value_error_if (list_ex (\<lambda>n. n = []) (po_allow_tools p @ po_deny_tools p)) ''Tool names must be non-empty.'')
    (Inr p))"

definition allow_decision :: policy_decision where
  "allow_decision = \<lparr>pd_allowed = True, pd_reason = None\<rparr>"

definition deny_decision :: "string \<Rightarrow> policy_decision" where
  "deny_decision msg = \<lparr>pd_allowed = False, pd_reason = Some msg\<rparr>"

definition check_agent :: "policy \<Rightarrow> string \<Rightarrow> policy_decision" where
  "check_agent p name =
     (if name \<in> set (po_deny_agents p) then deny_decision (''agent '' @ repr_str name @ '' denied by policy'')
      else if po_allow_agents p \<noteq> [] \<and> name \<notin> set (po_allow_agents p)
        then deny_decision (''agent '' @ repr_str name @ '' not allowed by policy'')
      else allow_decision)"

definition check_capability :: "policy \<Rightarrow> capability \<Rightarrow> policy_decision" where
  "check_capability p c =
     (let label = ''capability '' @ repr_str (ca_name c) @ '' (v'' @ ca_version c @ '')'' in
      if c \<in> set (po_deny_capabilities p) then deny_decision (label @ '' denied by policy'')
      else if po_allow_capabilities p \<noteq> [] \<and> c \<notin> set (po_allow_capabilities p)
        then deny_decision (label @ '' not allowed by policy'')
      else allow_decision)"

definition check_tool :: "policy \<Rightarrow> string \<Rightarrow> policy_decision" where
  "check_tool p name =
     (if name \<in> set (po_deny_tools p) then deny_decision (''tool '' @ repr_str name @ '' denied by policy'')
      else if po_allow_tools p \<noteq> [] \<and> name \<notin> set (po_allow_tools p)
        then deny_decision (''tool '' @ repr_str name @ '' not allowed by policy'')
      else allow_decision)"

section \<open>Deny overrides allow\<close>

text \<open>What the three checks decide, over the sets of the rule.\<close>

definition permits :: "'a list \<Rightarrow> 'a list \<Rightarrow> 'a \<Rightarrow> bool" where
  "permits allow deny x \<longleftrightarrow> x \<notin> set deny \<and> (allow = [] \<or> x \<in> set allow)"

lemma check_agent_allowed: "pd_allowed (check_agent p n) \<longleftrightarrow> permits (po_allow_agents p) (po_deny_agents p) n"
  by (auto simp: check_agent_def permits_def allow_decision_def deny_decision_def)

lemma check_capability_allowed:
  "pd_allowed (check_capability p c) \<longleftrightarrow> permits (po_allow_capabilities p) (po_deny_capabilities p) c"
  by (auto simp: check_capability_def permits_def allow_decision_def deny_decision_def Let_def)

lemma check_tool_allowed: "pd_allowed (check_tool p n) \<longleftrightarrow> permits (po_allow_tools p) (po_deny_tools p) n"
  by (auto simp: check_tool_def permits_def allow_decision_def deny_decision_def)

lemma permits_deny_mono: "permits allow deny x \<Longrightarrow> set deny' \<subseteq> set deny \<Longrightarrow> permits allow deny' x"
  by (auto simp: permits_def)

lemmas checks_allowed = check_agent_allowed check_capability_allowed check_tool_allowed

end
