(* ===== verification/Task_Spec.thy ===== *)
theory Task_Spec
  imports Policy Handoff
begin

text \<open>
  The versioned contracts of the control plane: tasks and their envelopes (\<open>contracts/task.py\<close>),
  sequential and parallel compositions (\<open>contracts/pipeline.py\<close>, \<open>contracts/parallel.py\<close>),
  tools (\<open>contracts/tool.py\<close>), agent manifests (\<open>contracts/manifest.py\<close>), trajectories
  (\<open>contracts/trajectory.py\<close>) and results (\<open>contracts/result.py\<close>). A frozen dataclass is a record
  and its \<open>__post_init__\<close> a function that returns the record or raises. Durations are integers
  of the clock's resolution.
\<close>

type_synonym duration = int

section \<open>Envelopes and stages\<close>

record task_envelope =
  te_timeout :: duration
  te_max_steps :: int
  te_step :: "duration option"

definition envelope_init :: "task_envelope \<Rightarrow> exc + task_envelope" where
  "envelope_init e =
     thenR (value_error_if (te_timeout e \<le> 0) ''timeout_seconds must be positive.'')
    (thenR (value_error_if (te_max_steps e \<le> 0) ''max_steps must be positive.'')
    (thenR (value_error_if (case te_step e of None \<Rightarrow> False | Some d \<Rightarrow> d \<le> 0) ''max_step_seconds must be positive when set.'')
    (Inr e)))"

record stage_spec =
  sg_agent :: "string option"
  sg_capability :: "capability option"
  sg_tools :: "string list"
  sg_envelope :: "task_envelope option"
  sg_output :: "handoff_schema option"
  sg_input :: "handoff_schema option"

text \<open>A schema as the value it is: a type name or a mapping of field names to type names.\<close>

definition schema_value :: "handoff_schema \<Rightarrow> pyval" where
  "schema_value s = (case s of Scalar t \<Rightarrow> PStr t | Object fs \<Rightarrow> PDict (map (\<lambda>ft. (fst ft, PStr (snd ft))) fs))"

definition schema_init :: "string \<Rightarrow> handoff_schema option \<Rightarrow> exc + unit" where
  "schema_init what s =
     (case s of None \<Rightarrow> Inr ()
      | Some sc \<Rightarrow> value_error_if (\<not> is_valid_schema (schema_value sc)) (''Invalid '' @ what @ '': '' @ py_repr (schema_value sc)))"

definition stage_init :: "stage_spec \<Rightarrow> exc + stage_spec" where
  "stage_init s =
     thenR (value_error_if ((sg_agent s = None) = (sg_capability s = None))
       ''Exactly one of agent_name or capability must be provided per stage.'')
    (thenR (value_error_if (sg_agent s = Some []) ''agent_name must be non-empty when provided.'')
    (thenR (value_error_if (list_ex (\<lambda>n. n = []) (sg_tools s)) ''granted_tools names must be non-empty.'')
    (thenR (schema_init ''output_schema'' (sg_output s))
    (thenR (schema_init ''input_schema'' (sg_input s))
    (Inr s)))))"

section \<open>Compositions\<close>

datatype parallel_version = Parallel_V1

record parallel =
  pl_version :: parallel_version
  pl_stages :: "stage_spec list"

definition parallel_init :: "parallel \<Rightarrow> exc + parallel" where
  "parallel_init p =
     thenR (value_error_if (pl_stages p = []) ''A parallel composition must have at least one stage.'') (Inr p)"

datatype pipeline_version = Pipeline_V1 | Pipeline_V2 | Pipeline_V3 | Pipeline_V4

datatype stage = Agent_Stage stage_spec | Group parallel

record pipeline =
  pp_version :: pipeline_version
  pp_stages :: "stage list"

definition is_group :: "stage \<Rightarrow> bool" where
  "is_group s = (case s of Group _ \<Rightarrow> True | Agent_Stage _ \<Rightarrow> False)"

definition stage_has_envelope :: "stage \<Rightarrow> bool" where
  "stage_has_envelope s = (case s of Agent_Stage a \<Rightarrow> sg_envelope a \<noteq> None | Group _ \<Rightarrow> False)"

definition stage_has_schema :: "stage \<Rightarrow> bool" where
  "stage_has_schema s = (case s of Agent_Stage a \<Rightarrow> sg_output a \<noteq> None \<or> sg_input a \<noteq> None | Group _ \<Rightarrow> False)"

definition pipeline_init :: "pipeline \<Rightarrow> exc + pipeline" where
  "pipeline_init p =
     thenR (value_error_if (pp_stages p = []) ''A sequential composition must have at least one stage.'')
    (thenR (value_error_if (pp_version p \<noteq> Pipeline_V4 \<and> list_ex is_group (pp_stages p)) ''Nested parallel groups require pipeline.v4.'')
    (thenR (value_error_if (pp_version p = Pipeline_V1 \<and> list_ex stage_has_envelope (pp_stages p))
       ''pipeline.v1 does not support stage_envelope; use pipeline.v2.'')
    (thenR (value_error_if (pp_version p \<in> {Pipeline_V1, Pipeline_V2} \<and> list_ex stage_has_schema (pp_stages p))
       ''pipeline.v1/v2 do not support hand-off schemas; use pipeline.v3.'')
    (Inr p))))"

section \<open>Tasks\<close>

datatype task_version = Task_V1 | Task_V2 | Task_V3 | Task_V4 | Task_V5 | Task_V6

definition task_version_repr :: "task_version \<Rightarrow> string" where
  "task_version_repr v =
     (case v of Task_V1 \<Rightarrow> ''<TaskSpecVersion.V1: 'task.v1'>'' | Task_V2 \<Rightarrow> ''<TaskSpecVersion.V2: 'task.v2'>''
      | Task_V3 \<Rightarrow> ''<TaskSpecVersion.V3: 'task.v3'>'' | Task_V4 \<Rightarrow> ''<TaskSpecVersion.V4: 'task.v4'>''
      | Task_V5 \<Rightarrow> ''<TaskSpecVersion.V5: 'task.v5'>'' | Task_V6 \<Rightarrow> ''<TaskSpecVersion.V6: 'task.v6'>'')"

record task =
  tk_version :: task_version
  tk_id :: string
  tk_agent :: "string option"
  tk_capability :: "capability option"
  tk_payload :: pyval
  tk_envelope :: task_envelope
  tk_tools :: "string list"
  tk_pipeline :: "pipeline option"
  tk_parallel :: "parallel option"
  tk_policy :: "policy option"

definition task_init :: "task \<Rightarrow> exc + task" where
  "task_init t =
     thenR (value_error_if (tk_version t \<notin> {Task_V2, Task_V3, Task_V4, Task_V5, Task_V6})
       (''Unsupported task spec version: '' @ task_version_repr (tk_version t)))
    (thenR (value_error_if (tk_id t = []) ''task_id must be non-empty.'')
    (thenR
      (if tk_pipeline t \<noteq> None \<or> tk_parallel t \<noteq> None then
         thenR (value_error_if (tk_agent t \<noteq> None \<or> tk_capability t \<noteq> None)
           ''A composition task must not also set agent_name or capability.'')
          (value_error_if (tk_pipeline t \<noteq> None \<and> tk_parallel t \<noteq> None)
           ''A task must not set both pipeline and parallel compositions.'')
       else
         thenR (value_error_if ((tk_agent t = None) = (tk_capability t = None))
           ''Exactly one of agent_name or capability must be provided to select an agent.'')
          (value_error_if (tk_agent t = Some []) ''agent_name must be non-empty when provided.''))
    (thenR (value_error_if (list_ex (\<lambda>n. n = []) (tk_tools t)) ''granted_tools names must be non-empty.'')
    (Inr t))))"

section \<open>Tools and manifests\<close>

datatype tool_version = Tool_V1

record tool_descriptor =
  td_version :: tool_version
  td_name :: string
  td_description :: string
  td_input :: "string dict"
  td_output :: string
  td_semantics :: string

definition descriptor_init :: "tool_descriptor \<Rightarrow> exc + tool_descriptor" where
  "descriptor_init d =
     thenR (value_error_if (td_name d = []) ''Tool name must be non-empty.'')
    (thenR (value_error_if (td_description d = []) ''Tool description must be non-empty.'')
    (Inr d))"

datatype manifest_version = Manifest_V1 | Manifest_V2

record agent_manifest =
  am_version :: manifest_version
  am_name :: string
  am_entry_point :: string
  am_description :: string
  am_capabilities :: "capability list"

definition manifest_init :: "agent_manifest \<Rightarrow> exc + agent_manifest" where
  "manifest_init m =
     thenR (value_error_if (am_version m \<noteq> Manifest_V2)
       (''Unsupported manifest version: '' @ ''<AgentManifestVersion.V1: 'manifest.v1'>''))
    (thenR (value_error_if (am_name m = []) ''Agent manifest name must be non-empty.'')
    (thenR (value_error_if (am_entry_point m = []) ''Agent manifest entry_point must be non-empty.'')
    (Inr m)))"

section \<open>Trajectories and results\<close>

datatype step_status = Started | Completed | Failed | Timed_Out | Rejected | Was_Cancelled

definition status_value :: "step_status \<Rightarrow> string" where
  "status_value s =
     (case s of Started \<Rightarrow> ''started'' | Completed \<Rightarrow> ''completed'' | Failed \<Rightarrow> ''failed''
      | Timed_Out \<Rightarrow> ''timeout'' | Rejected \<Rightarrow> ''rejected'' | Was_Cancelled \<Rightarrow> ''cancelled'')"

text \<open>An elapsed time is kept as the text of its float; an error is \<open>None\<close> or a text.\<close>

record step_record =
  sr_index :: int
  sr_status :: step_status
  sr_description :: string
  sr_input :: pyval
  sr_output :: pyval
  sr_error :: pyval
  sr_elapsed :: string

datatype trajectory_version = Trajectory_V1

record trajectory =
  tj_version :: trajectory_version
  tj_task_id :: string
  tj_agent_name :: string
  tj_steps :: "step_record list"

fun check_indices :: "nat \<Rightarrow> step_record list \<Rightarrow> exc + unit" where
  "check_indices i [] = Inr ()"
| "check_indices i (s # ss) =
     thenR (value_error_if (sr_index s \<noteq> int i)
       (''Trajectory step index out of order: expected '' @ show_nat i @ '', got '' @ show_int (sr_index s) @ ''.''))
       (check_indices (Suc i) ss)"

definition trajectory_init :: "trajectory \<Rightarrow> exc + trajectory" where
  "trajectory_init t = thenR (check_indices 0 (tj_steps t)) (Inr t)"

datatype failure_reason =
    AGENT_ERROR | TIMEOUT | STEP_LIMIT | VERIFICATION_FAILED | UNKNOWN_AGENT | HANDOFF_FAILED
  | POLICY_VIOLATION | CANCELLED | INTERNAL

definition reason_value :: "failure_reason \<Rightarrow> string" where
  "reason_value r =
     (case r of AGENT_ERROR \<Rightarrow> ''agent_error'' | TIMEOUT \<Rightarrow> ''timeout'' | STEP_LIMIT \<Rightarrow> ''step_limit''
      | VERIFICATION_FAILED \<Rightarrow> ''verification_failed'' | UNKNOWN_AGENT \<Rightarrow> ''unknown_agent''
      | HANDOFF_FAILED \<Rightarrow> ''handoff_failed'' | POLICY_VIOLATION \<Rightarrow> ''policy_violation''
      | CANCELLED \<Rightarrow> ''cancelled'' | INTERNAL \<Rightarrow> ''internal'')"

lemma reason_value_inj: "reason_value r = reason_value r' \<longleftrightarrow> r = r'"
  by (cases r; cases r') (simp_all add: reason_value_def)

datatype result_version = Result_V1

record verified_result =
  vr_version :: result_version
  vr_task_id :: string
  vr_output :: pyval
  vr_trajectory :: trajectory

record failure =
  fl_task_id :: string
  fl_reason :: failure_reason
  fl_message :: string
  fl_trajectory :: trajectory

section \<open>Well-formed steps\<close>

definition indexed :: "step_record list \<Rightarrow> bool" where
  "indexed ss \<longleftrightarrow> (\<forall>i < length ss. sr_index (ss ! i) = int i)"

lemma check_indices_iff: "check_indices k ss = Inr () \<longleftrightarrow> (\<forall>i < length ss. sr_index (ss ! i) = int (k + i))"
proof (induction ss arbitrary: k)
  case Nil
  then show ?case by simp
next
  case (Cons s ss)
  have "(\<forall>i < length (s # ss). sr_index ((s # ss) ! i) = int (k + i)) \<longleftrightarrow>
      sr_index s = int k \<and> (\<forall>i < length ss. sr_index (ss ! i) = int (Suc k + i))"
    by (auto simp: nth_Cons split: nat.splits)
  then show ?case by (simp add: result_simps value_error_if_def Cons.IH)
qed

lemma trajectory_init_iff: "trajectory_init t = Inr t' \<longleftrightarrow> t' = t \<and> indexed (tj_steps t)"
  by (auto simp: trajectory_init_def result_simps check_indices_iff indexed_def)

lemma indexed_Nil [simp]: "indexed []"
  by (simp add: indexed_def)

lemma indexed_snoc: "indexed ss \<Longrightarrow> sr_index s = int (length ss) \<Longrightarrow> indexed (ss @ [s])"
  by (auto simp: indexed_def nth_append less_Suc_eq)

end
