(* ===== verification/Traj_Store.thy ===== *)
theory Traj_Store
  imports Task_Spec Lines Utf8
begin

text \<open>
  \<open>control_plane/trajectory_store.py\<close>: the append-only store of audit records, in memory and in
  files. The file store is the map from file names to texts; \<open>io\<close> says with which \<open>OSError\<close> opening
  a file fails, and \<open>conv\<close> is \<open>float()\<close> on what is not a float. What a stored record holds may be
  any JSON value. The texts of corruption errors leave out the exception they quote.
\<close>

section \<open>Stored records\<close>

datatype outcome_kind = Verified_Kind | Failure_Kind | Interrupted_Kind

record stored_outcome =
  so_kind :: outcome_kind
  so_output :: pyval
  so_reason :: pyval
  so_message :: pyval

definition stored_verified :: "pyval \<Rightarrow> stored_outcome" where
  "stored_verified output = \<lparr>so_kind = Verified_Kind, so_output = output, so_reason = PNone, so_message = PStr []\<rparr>"

definition stored_failure :: "failure_reason \<Rightarrow> string \<Rightarrow> stored_outcome" where
  "stored_failure reason message =
     \<lparr>so_kind = Failure_Kind, so_output = PNone, so_reason = PStr (reason_value reason), so_message = PStr message\<rparr>"

definition stored_interrupted :: stored_outcome where
  "stored_interrupted = \<lparr>so_kind = Interrupted_Kind, so_output = PNone, so_reason = PNone, so_message = PStr []\<rparr>"

record stored =
  sd_id :: string
  sd_task_id :: pyval
  sd_agent_name :: pyval
  sd_steps :: "step_record list"
  sd_outcome :: stored_outcome

definition to_trajectory :: "stored \<Rightarrow> exc + trajectory" where
  "to_trajectory t = trajectory_init \<lparr>tj_version = Trajectory_V1, tj_task_id = py_str (sd_task_id t),
     tj_agent_name = py_str (sd_agent_name t), tj_steps = sd_steps t\<rparr>"

text \<open>The interface the control plane uses.\<close>

record 'st tstore =
  ts_begin :: "string \<Rightarrow> string \<Rightarrow> string \<Rightarrow> 'st \<Rightarrow> (exc + unit) \<times> 'st"
  ts_append :: "string \<Rightarrow> step_record \<Rightarrow> 'st \<Rightarrow> (exc + unit) \<times> 'st"
  ts_outcome :: "string \<Rightarrow> stored_outcome \<Rightarrow> 'st \<Rightarrow> (exc + unit) \<times> 'st"
  ts_load :: "string \<Rightarrow> 'st \<Rightarrow> exc + stored option"
  ts_contains :: "string \<Rightarrow> 'st \<Rightarrow> bool"

definition is_store_error :: "exc \<Rightarrow> bool" where
  "is_store_error e \<longleftrightarrow> exc_class e \<in> {TrajectoryStoreError, CorruptTrajectoryError}"

definition validate_trajectory_id :: "string \<Rightarrow> exc + unit" where
  "validate_trajectory_id i = value_error_if (i = []) ''trajectory_id must be non-empty.''"

definition already_exists :: "string \<Rightarrow> exc" where
  "already_exists i = Exc TrajectoryStoreError (''Trajectory '' @ repr_str i @ '' already exists.'')"

definition already_recorded :: "string \<Rightarrow> exc" where
  "already_recorded i = Exc TrajectoryStoreError (''Outcome for trajectory '' @ repr_str i @ '' already recorded.'')"

section \<open>In memory\<close>

record mem_entry =
  me_task_id :: string
  me_agent_name :: string
  me_steps :: "step_record list"
  me_outcome :: "stored_outcome option"

type_synonym mem = "mem_entry dict"

definition mem_require :: "string \<Rightarrow> mem \<Rightarrow> exc + mem_entry" where
  "mem_require i st =
     (case dget st i of None \<Rightarrow> Inl (Exc TrajectoryStoreError (''Trajectory '' @ repr_str i @ '' has not been begun.''))
      | Some m \<Rightarrow> Inr m)"

definition mem_begin :: "string \<Rightarrow> string \<Rightarrow> string \<Rightarrow> mem \<Rightarrow> (exc + unit) \<times> mem" where
  "mem_begin i task_id agent_name st =
     (case validate_trajectory_id i of Inl e \<Rightarrow> (Inl e, st)
      | Inr _ \<Rightarrow>
        (if dget st i \<noteq> None then (Inl (already_exists i), st)
         else (Inr (), dput i \<lparr>me_task_id = task_id, me_agent_name = agent_name, me_steps = [], me_outcome = None\<rparr> st)))"

definition mem_append :: "string \<Rightarrow> step_record \<Rightarrow> mem \<Rightarrow> (exc + unit) \<times> mem" where
  "mem_append i step st =
     (case mem_require i st of Inl e \<Rightarrow> (Inl e, st)
      | Inr m \<Rightarrow> (Inr (), dput i (m\<lparr>me_steps := me_steps m @ [step]\<rparr>) st))"

definition mem_outcome :: "string \<Rightarrow> stored_outcome \<Rightarrow> mem \<Rightarrow> (exc + unit) \<times> mem" where
  "mem_outcome i oc st =
     (case mem_require i st of Inl e \<Rightarrow> (Inl e, st)
      | Inr m \<Rightarrow> if me_outcome m \<noteq> None then (Inl (already_recorded i), st)
          else (Inr (), dput i (m\<lparr>me_outcome := Some oc\<rparr>) st))"

definition mem_load :: "string \<Rightarrow> mem \<Rightarrow> exc + stored option" where
  "mem_load i st = Inr (map_option (\<lambda>m. \<lparr>sd_id = i, sd_task_id = PStr (me_task_id m), sd_agent_name = PStr (me_agent_name m),
     sd_steps = me_steps m, sd_outcome = (case me_outcome m of None \<Rightarrow> stored_interrupted | Some oc \<Rightarrow> oc)\<rparr>) (dget st i))"

definition mem_contains :: "string \<Rightarrow> mem \<Rightarrow> bool" where
  "mem_contains i st \<longleftrightarrow> dget st i \<noteq> None"

definition memory :: "mem tstore" where
  "memory = \<lparr>ts_begin = mem_begin, ts_append = mem_append, ts_outcome = mem_outcome, ts_load = mem_load, ts_contains = mem_contains\<rparr>"

section \<open>The lines of a file\<close>

definition step_to_record :: "step_record \<Rightarrow> pyval" where
  "step_to_record s = PDict [(''kind'', PStr ''step''), (''step_index'', PInt (sr_index s)), (''status'', PStr (status_value (sr_status s))),
     (''description'', PStr (sr_description s)), (''input'', sr_input s), (''output'', sr_output s), (''error'', sr_error s),
     (''elapsed_seconds'', PFloat (sr_elapsed s))]"

definition read_status :: "pyval \<Rightarrow> py_error + step_status" where
  "read_status v =
     (case find (\<lambda>s. v = PStr (status_value s)) [Started, Completed, Failed, Timed_Out, Rejected, Was_Cancelled] of
        None \<Rightarrow> Inl Value_Error | Some s \<Rightarrow> Inr s)"

definition py_float :: "(pyval \<Rightarrow> py_error + string) \<Rightarrow> pyval \<Rightarrow> py_error + string" where
  "py_float conv v = (case v of PFloat t \<Rightarrow> Inr t | _ \<Rightarrow> conv v)"

definition corrupt :: "string \<Rightarrow> exc" where
  "corrupt msg = Exc CorruptTrajectoryError msg"

text \<open>\<open>except (KeyError, ValueError, TypeError)\<close>; an \<open>OverflowError\<close> escapes.\<close>

definition malformed_step :: "py_error \<Rightarrow> exc" where
  "malformed_step e = (case e of Overflow_Error \<Rightarrow> Exc OverflowError [] | _ \<Rightarrow> corrupt ''Malformed step record: '')"

definition record_to_step :: "(pyval \<Rightarrow> py_error + string) \<Rightarrow> pyval dict \<Rightarrow> exc + step_record" where
  "record_to_step conv kvs =
     liftR malformed_step
      (bindR (subscript (PDict kvs) ''step_index'') (\<lambda>i. bindR (py_int i) (\<lambda>index.
       bindR (subscript (PDict kvs) ''status'') (\<lambda>s. bindR (read_status s) (\<lambda>status.
       bindR (subscript (PDict kvs) ''description'') (\<lambda>d.
       bindR (py_float conv (dget_or kvs ''elapsed_seconds'' (PFloat ''0.0''))) (\<lambda>elapsed.
         Inr \<lparr>sr_index = index, sr_status = status, sr_description = py_str d, sr_input = dget_or kvs ''input'' PNone,
           sr_output = dget_or kvs ''output'' PNone, sr_error = dget_or kvs ''error'' PNone, sr_elapsed = elapsed\<rparr>)))))))"

definition outcome_record :: "stored_outcome \<Rightarrow> pyval" where
  "outcome_record oc =
     PDict ([(''kind'', PStr ''outcome''),
        (''outcome_kind'', PStr (case so_kind oc of Verified_Kind \<Rightarrow> ''verified'' | Failure_Kind \<Rightarrow> ''failure'' | Interrupted_Kind \<Rightarrow> ''interrupted''))]
      @ (case so_kind oc of Verified_Kind \<Rightarrow> [(''output'', so_output oc)]
         | Failure_Kind \<Rightarrow> [(''reason'', so_reason oc), (''message'', so_message oc)] | Interrupted_Kind \<Rightarrow> []))"

definition decode_outcome :: "pyval dict \<Rightarrow> exc + stored_outcome" where
  "decode_outcome kvs =
     (let kind = dget_or kvs ''outcome_kind'' PNone in
      if kind = PStr ''verified'' then Inr (stored_verified (dget_or kvs ''output'' PNone))
      else if kind = PStr ''failure'' then Inr \<lparr>so_kind = Failure_Kind, so_output = PNone,
        so_reason = dget_or kvs ''reason'' PNone, so_message = dget_or kvs ''message'' (PStr [])\<rparr>
      else if kind = PStr ''interrupted'' then Inr stored_interrupted
      else Inl (corrupt (''Unknown outcome kind: '' @ py_repr (PDict kvs))))"

definition meta_line :: "string \<Rightarrow> string \<Rightarrow> string \<Rightarrow> string" where
  "meta_line i task_id agent_name =
     json_raw (json_norm (PDict [(''kind'', PStr ''meta''), (''trajectory_id'', PStr i), (''task_id'', PStr task_id),
       (''agent_name'', PStr agent_name)])) @ [newline]"

definition step_line :: "step_record \<Rightarrow> string" where
  "step_line s = canonic (step_to_record s) @ [newline]"

definition outcome_line :: "stored_outcome \<Rightarrow> string" where
  "outcome_line oc = canonic (outcome_record oc) @ [newline]"

section \<open>In files\<close>

definition file_name :: "string \<Rightarrow> string" where
  "file_name i = concat (map (\<lambda>c. [digit_char (code c div 16), digit_char (code c mod 16)]) (utf8 i)) @ ''.jsonl''"

text \<open>\<open>path.open("a")\<close> creates the file that is not there.\<close>

definition write_line :: "(string \<Rightarrow> exc option) \<Rightarrow> string \<Rightarrow> string \<Rightarrow> string dict \<Rightarrow> (exc + unit) \<times> string dict" where
  "write_line io name line files =
     (case io name of Some e \<Rightarrow> (Inl e, files) | None \<Rightarrow> (Inr (), dput name (dget_or files name [] @ line) files))"

definition file_begin :: "(string \<Rightarrow> exc option) \<Rightarrow> string \<Rightarrow> string \<Rightarrow> string \<Rightarrow> string dict \<Rightarrow> (exc + unit) \<times> string dict" where
  "file_begin io i task_id agent_name files =
     (case validate_trajectory_id i of Inl e \<Rightarrow> (Inl e, files)
      | Inr _ \<Rightarrow>
        (if dget files (file_name i) \<noteq> None then (Inl (already_exists i), files)
         else write_line io (file_name i) (meta_line i task_id agent_name) files))"

definition file_append :: "(string \<Rightarrow> exc option) \<Rightarrow> string \<Rightarrow> step_record \<Rightarrow> string dict \<Rightarrow> (exc + unit) \<times> string dict" where
  "file_append io i step files = write_line io (file_name i) (step_line step) files"

definition blank_line :: "string \<Rightarrow> bool" where
  "blank_line line \<longleftrightarrow> py_strip line = []"

fun find_outcome :: "string list \<Rightarrow> exc + bool" where
  "find_outcome [] = Inr False"
| "find_outcome (line # lines) =
     (if blank_line line then find_outcome lines
      else case json_loads line of
        None \<Rightarrow> find_outcome lines
      | Some (PDict kvs) \<Rightarrow> if dget kvs ''kind'' = Some (PStr ''outcome'') then Inr True else find_outcome lines
      | Some _ \<Rightarrow> Inl attribute_error)"

definition has_outcome :: "string \<Rightarrow> string dict \<Rightarrow> exc + bool" where
  "has_outcome i files = (case dget files (file_name i) of None \<Rightarrow> Inr False | Some txt \<Rightarrow> find_outcome (splitlines txt))"

definition file_outcome :: "(string \<Rightarrow> exc option) \<Rightarrow> string \<Rightarrow> stored_outcome \<Rightarrow> string dict \<Rightarrow> (exc + unit) \<times> string dict" where
  "file_outcome io i oc files =
     (case has_outcome i files of
        Inl e \<Rightarrow> (Inl e, files)
      | Inr True \<Rightarrow> (Inl (already_recorded i), files)
      | Inr False \<Rightarrow> write_line io (file_name i) (outcome_line oc) files)"

fun read_records :: "nat \<Rightarrow> string \<Rightarrow> string list \<Rightarrow> exc + pyval list" where
  "read_records n name [] = Inr []"
| "read_records n name (line # lines) =
     (if blank_line line then read_records (Suc n) name lines
      else case json_loads line of
        None \<Rightarrow> Inl (corrupt (''Corrupt record on line '' @ show_nat n @ '' of '' @ name @ '': ''))
      | Some v \<Rightarrow> bindR (read_records (Suc n) name lines) (\<lambda>vs. Inr (v # vs)))"

text \<open>The meta record, the steps and the outcome seen so far.\<close>

type_synonym file_view = "pyval dict option \<times> step_record list \<times> stored_outcome option"

definition read_record :: "(pyval \<Rightarrow> py_error + string) \<Rightarrow> pyval \<Rightarrow> file_view \<Rightarrow> exc + file_view" where
  "read_record conv v view =
     (case (v, view) of
        (PDict kvs, (meta, steps, oc)) \<Rightarrow>
          (let kind = dget_or kvs ''kind'' PNone in
           if kind = PStr ''meta'' then Inr (Some kvs, steps, oc)
           else if kind = PStr ''step'' then bindR (record_to_step conv kvs) (\<lambda>s. Inr (meta, steps @ [s], oc))
           else if kind = PStr ''outcome'' then bindR (decode_outcome kvs) (\<lambda>oc'. Inr (meta, steps, Some oc'))
           else Inl (corrupt (''Unknown record kind: '' @ py_repr v)))
      | _ \<Rightarrow> Inl attribute_error)"

definition meta_field :: "pyval dict \<Rightarrow> string \<Rightarrow> exc + pyval" where
  "meta_field kvs key = (case dget kvs key of None \<Rightarrow> Inl (key_error (PStr key)) | Some v \<Rightarrow> Inr v)"

definition file_load :: "(pyval \<Rightarrow> py_error + string) \<Rightarrow> string \<Rightarrow> string dict \<Rightarrow> exc + stored option" where
  "file_load conv i files =
     (case dget files (file_name i) of
        None \<Rightarrow> Inr None
      | Some txt \<Rightarrow>
          bindR (read_records 1 (file_name i) (splitlines txt)) (\<lambda>vs.
          bindR (foldR (read_record conv) vs (None, [], None)) (\<lambda>view.
            case view of
              (None, _, _) \<Rightarrow> Inl (corrupt (''Trajectory '' @ file_name i @ '' is missing a meta record.''))
            | (Some meta, steps, oc) \<Rightarrow>
                bindR (meta_field meta ''task_id'') (\<lambda>task_id. bindR (meta_field meta ''agent_name'') (\<lambda>agent_name.
                  Inr (Some \<lparr>sd_id = i, sd_task_id = task_id, sd_agent_name = agent_name, sd_steps = steps,
                    sd_outcome = (case oc of None \<Rightarrow> stored_interrupted | Some oc \<Rightarrow> oc)\<rparr>))))))"

definition file_contains :: "string \<Rightarrow> string dict \<Rightarrow> bool" where
  "file_contains i files \<longleftrightarrow> dget files (file_name i) \<noteq> None"

definition file_store :: "(string \<Rightarrow> exc option) \<Rightarrow> (pyval \<Rightarrow> py_error + string) \<Rightarrow> string dict tstore" where
  "file_store io conv = \<lparr>ts_begin = file_begin io, ts_append = file_append io, ts_outcome = file_outcome io,
     ts_load = file_load conv, ts_contains = file_contains\<rparr>"

end
