(* ===== verification/Control_Registry.thy ===== *)
theory Control_Registry
  imports Task_Spec
begin

text \<open>
  The two registries of the control plane: agents by name and by capability
  (\<open>control_plane/registry.py\<close>) and the tools the manager executes (\<open>control_plane/tools.py\<close>).
  What a tool does is a parameter: a function from the calls made so far and the arguments to a
  value or an exception, so a tool may have effects that later calls see.
\<close>

section \<open>Agents\<close>

record agents =
  rg_by_name :: "agent_manifest dict"
  rg_by_capability :: "(capability \<times> agent_manifest) list"

definition no_agents :: agents where
  "no_agents = \<lparr>rg_by_name = [], rg_by_capability = []\<rparr>"

definition get_by_name :: "agents \<Rightarrow> string \<Rightarrow> agent_manifest option" where
  "get_by_name rg name = dget (rg_by_name rg) name"

definition get_by_capability :: "agents \<Rightarrow> capability \<Rightarrow> agent_manifest option" where
  "get_by_capability rg c = map_of (rg_by_capability rg) c"

definition agent_names :: "agents \<Rightarrow> string list" where
  "agent_names rg = dkeys (rg_by_name rg)"

definition owner_conflict :: "agents \<Rightarrow> agent_manifest \<Rightarrow> capability \<Rightarrow> exc + unit" where
  "owner_conflict rg m c =
     (case get_by_capability rg c of None \<Rightarrow> Inr ()
      | Some owner \<Rightarrow> Inl (Exc ValueError (''Capability '' @ repr_str (ca_name c) @ '' (v'' @ ca_version c @ '') is already declared by agent ''
          @ repr_str (am_name owner) @ ''; cannot register '' @ repr_str (am_name m) @ ''.'')))"

definition register_agent :: "agent_manifest \<Rightarrow> agents \<Rightarrow> exc + agents" where
  "register_agent m rg =
     thenR (value_error_if (get_by_name rg (am_name m) \<noteq> None) (''Agent '' @ repr_str (am_name m) @ '' is already registered.''))
    (thenR (iterR (owner_conflict rg m) (am_capabilities m))
    (Inr \<lparr>rg_by_name = dput (am_name m) m (rg_by_name rg),
          rg_by_capability = foldl (\<lambda>d c. AList.update c m d) (rg_by_capability rg) (am_capabilities m)\<rparr>))"

section \<open>Tools\<close>

type_synonym call = "string \<times> pyval dict"
type_synonym tool_impl = "call list \<Rightarrow> pyval dict \<Rightarrow> exc + pyval"

record tools =
  tl_impls :: "tool_impl dict"
  tl_descriptors :: "tool_descriptor dict"

definition register_impl :: "tool_descriptor \<Rightarrow> tool_impl \<Rightarrow> tools \<Rightarrow> tools" where
  "register_impl d impl ts = \<lparr>tl_impls = dput (td_name d) impl (tl_impls ts), tl_descriptors = dput (td_name d) d (tl_descriptors ts)\<rparr>"

definition LLM_COMPLETE_DESCRIPTOR :: tool_descriptor where
  "LLM_COMPLETE_DESCRIPTOR = \<lparr>td_version = Tool_V1, td_name = ''llm_complete'',
     td_description = ''Complete a prompt via a language model, mediated by the Manager.'',
     td_input = [(''prompt'', ''str'')], td_output = ''str'',
     td_semantics = ''mediated, bounded, recorded model call (stochastic backend)''\<rparr>"

text \<open>A provider answers a prompt or raises; only its own error becomes a tool error.\<close>

definition execute_llm :: "(call list \<Rightarrow> pyval \<Rightarrow> exc + string) \<Rightarrow> tool_impl" where
  "execute_llm provider calls args =
     (if dkeys args \<noteq> [''prompt''] then Inl type_error
      else case provider calls (dget_or args ''prompt'' PNone) of
        Inr t \<Rightarrow> Inr (PStr t)
      | Inl e \<Rightarrow> if exc_class e = ModelProviderError then Inl (Exc ToolExecutionError (''Model provider failed: '' @ exc_text e)) else Inl e)"

definition register_llm_tool :: "(call list \<Rightarrow> pyval \<Rightarrow> exc + string) \<Rightarrow> tools \<Rightarrow> tools" where
  "register_llm_tool provider = register_impl LLM_COMPLETE_DESCRIPTOR (execute_llm provider)"

definition mcp_impl :: "(string \<Rightarrow> tool_impl) \<Rightarrow> string \<Rightarrow> tool_impl" where
  "mcp_impl adapter name calls args =
     (case adapter name calls args of
        Inr v \<Rightarrow> Inr v
      | Inl e \<Rightarrow> if exc_class e = McpToolError
          then Inl (Exc ToolExecutionError (''MCP tool '' @ repr_str name @ '' failed: '' @ exc_text e)) else Inl e)"

definition register_mcp :: "(string \<Rightarrow> tool_impl) \<Rightarrow> tool_descriptor list \<Rightarrow> tools \<Rightarrow> string list \<times> tools" where
  "register_mcp adapter ds ts = (map td_name ds, foldl (\<lambda>t d. register_impl d (mcp_impl adapter (td_name d)) t) ts ds)"

definition tool_descriptor_of :: "tools \<Rightarrow> string \<Rightarrow> tool_descriptor option" where
  "tool_descriptor_of ts name = dget (tl_descriptors ts) name"

definition execute_tool :: "tools \<Rightarrow> call list \<Rightarrow> string \<Rightarrow> pyval dict \<Rightarrow> exc + pyval" where
  "execute_tool ts calls name args =
     (case dget (tl_impls ts) name of
        None \<Rightarrow> Inl (Exc ToolExecutionError (''Unknown tool '' @ repr_str name @ ''.''))
      | Some impl \<Rightarrow> impl calls args)"

text \<open>The tool \<open>add\<close> of the default registry, on the integers its descriptor asks for.\<close>

definition ADD_DESCRIPTOR :: tool_descriptor where
  "ADD_DESCRIPTOR = \<lparr>td_version = Tool_V1, td_name = ''add'', td_description = ''Return the sum of two integers.'',
     td_input = [(''a'', ''int''), (''b'', ''int'')], td_output = ''int'', td_semantics = ''pure, deterministic, side-effect free''\<rparr>"

definition add_tool :: tool_impl where
  "add_tool calls args =
     (case (dget args ''a'', dget args ''b'', length args) of
        (Some (PInt a), Some (PInt b), Suc (Suc 0)) \<Rightarrow> Inr (PInt (a + b))
      | _ \<Rightarrow> Inl type_error)"

section \<open>The tool context of an agent\<close>

text \<open>\<open>ToolContext\<close> of \<open>agents/interface.py\<close>: the descriptors of the granted tools that exist.\<close>

type_synonym tool_context = "tool_descriptor list"

definition build_tool_context :: "tools \<Rightarrow> string list \<Rightarrow> tool_context" where
  "build_tool_context ts granted = List.map_filter (tool_descriptor_of ts) granted"

definition available :: "tool_context \<Rightarrow> string \<Rightarrow> bool" where
  "available ctx name \<longleftrightarrow> list_ex (\<lambda>d. td_name d = name) ctx"

definition context_names :: "tool_context \<Rightarrow> string list" where
  "context_names ctx = map td_name ctx"

section \<open>What registration keeps\<close>

text \<open>Every descriptor and every manifest is filed under its own name.\<close>

definition tools_named :: "tools \<Rightarrow> bool" where
  "tools_named ts \<longleftrightarrow> (\<forall>n d. dget (tl_descriptors ts) n = Some d \<longrightarrow> td_name d = n)"

definition agents_ok :: "agents \<Rightarrow> bool" where
  "agents_ok rg \<longleftrightarrow> (\<forall>n m. get_by_name rg n = Some m \<longrightarrow> am_name m = n) \<and>
     (\<forall>c m. get_by_capability rg c = Some m \<longleftrightarrow> (\<exists>n. get_by_name rg n = Some m) \<and> c \<in> set (am_capabilities m))"

lemma tools_named_register: "tools_named ts \<Longrightarrow> tools_named (register_impl d impl ts)"
  by (auto simp: tools_named_def register_impl_def dict_simps)

lemma register_mcp_named: "tools_named ts \<Longrightarrow> tools_named (snd (register_mcp adapter ds ts))"
  unfolding register_mcp_def snd_conv by (induction ds arbitrary: ts) (simp_all add: tools_named_register)

lemma available_granted: "tools_named ts \<Longrightarrow> available (build_tool_context ts granted) name \<Longrightarrow> name \<in> set granted"
  by (auto simp: available_def build_tool_context_def list_ex_iff map_filter_def tools_named_def tool_descriptor_of_def)

lemma available_iff: "tools_named ts \<Longrightarrow>
    available (build_tool_context ts granted) name \<longleftrightarrow> name \<in> set granted \<and> tool_descriptor_of ts name \<noteq> None"
  by (force simp: available_def build_tool_context_def list_ex_iff map_filter_def tools_named_def tool_descriptor_of_def)

lemma map_of_foldl_update:
  "map_of (foldl (\<lambda>d c. AList.update c m d) al cs) k = (if k \<in> set cs then Some m else map_of al k)"
  by (induction cs arbitrary: al) (auto simp: update_conv')

lemma register_agent_ok_iff: "register_agent m rg = Inr rg' \<longleftrightarrow>
    get_by_name rg (am_name m) = None \<and> (\<forall>c \<in> set (am_capabilities m). get_by_capability rg c = None) \<and>
    rg' = \<lparr>rg_by_name = dput (am_name m) m (rg_by_name rg),
          rg_by_capability = foldl (\<lambda>d c. AList.update c m d) (rg_by_capability rg) (am_capabilities m)\<rparr>"
proof -
  have "owner_conflict rg m c = Inr () \<longleftrightarrow> get_by_capability rg c = None" for c
    by (simp add: owner_conflict_def split: option.split)
  then show ?thesis by (auto simp: register_agent_def result_simps value_error_if_def)
qed

text \<open>A capability has one owner, and the two indices agree.\<close>

lemma agents_ok_empty [simp]: "agents_ok no_agents"
  by (simp add: agents_ok_def no_agents_def get_by_name_def get_by_capability_def)

lemma agents_ok_register:
  assumes "agents_ok rg" "register_agent m rg = Inr rg'"
  shows "agents_ok rg'"
proof -
  from assms(2) have new: "get_by_name rg (am_name m) = None" "\<forall>c \<in> set (am_capabilities m). get_by_capability rg c = None"
    and by_name: "\<And>n. get_by_name rg' n = (if n = am_name m then Some m else get_by_name rg n)"
    and by_cap: "\<And>c. get_by_capability rg' c = (if c \<in> set (am_capabilities m) then Some m else get_by_capability rg c)"
    by (auto simp: register_agent_ok_iff get_by_name_def get_by_capability_def dict_simps map_of_foldl_update)
  have names: "get_by_name rg n = Some k \<Longrightarrow> am_name k = n" for n k using assms(1) by (simp add: agents_ok_def)
  have caps: "get_by_capability rg c = Some k \<longleftrightarrow> (\<exists>n. get_by_name rg n = Some k) \<and> c \<in> set (am_capabilities k)" for c k
    using assms(1) by (simp add: agents_ok_def)
  have fresh: "get_by_name rg n = Some k \<Longrightarrow> n \<noteq> am_name m \<and> k \<noteq> m" for n k using names new(1) by auto
  have "get_by_capability rg' c = Some k \<longleftrightarrow> (\<exists>n. get_by_name rg' n = Some k) \<and> c \<in> set (am_capabilities k)" for c k
  proof (cases "k = m")
    case True
    then show ?thesis using fresh caps by (auto simp: by_name by_cap)
  next
    case False
    then have "(\<exists>n. get_by_name rg' n = Some k) \<longleftrightarrow> (\<exists>n. get_by_name rg n = Some k)"
      using fresh by (metis by_name option.inject)
    moreover have "c \<in> set (am_capabilities m) \<Longrightarrow> get_by_capability rg c \<noteq> Some k" using new(2) by simp
    ultimately show ?thesis using caps False by (metis by_cap option.inject)
  qed
  then show ?thesis using names by (simp add: agents_ok_def by_name)
qed

end
