(* ===== verification/Sessions.thy ===== *)
theory Sessions
  imports Control_Registry
begin

text \<open>
  Agents and the sessions that drive them: \<open>agents/interface.py\<close> and the in-process backend of
  \<open>control_plane/execution.py\<close>. An agent is a generator; a generator is what \<open>send\<close> makes of
  it: the next yielded item with its continuation, a returned value, or an exception. A generator
  may yield for ever, so generators are a codatatype. A session is known to the manager through the
  operations of a backend.
\<close>

section \<open>What passes between an agent and the manager\<close>

record tool_result =
  tr_success :: bool
  tr_output :: pyval
  tr_error :: pyval

datatype sent = No_Value | Tool_Value tool_result | Cancel_Value string

text \<open>A yielded value of no known class is kept as its \<open>repr\<close>.\<close>

datatype item =
    Agent_Step string pyval
  | Tool_Request string "pyval dict"
  | Agent_Result pyval
  | Unsupported string

datatype reply = Item item | Execution_Error string | Execution_Timeout string

record 's backend =
  bk_session :: "agent_manifest \<Rightarrow> pyval \<Rightarrow> int \<Rightarrow> tool_context \<Rightarrow> duration \<Rightarrow> exc + 's"
  bk_next :: "sent \<Rightarrow> 's \<Rightarrow> reply \<times> 's"
  bk_cancel :: "string \<Rightarrow> 's \<Rightarrow> 's"
  bk_close :: "'s \<Rightarrow> 's"
  bk_forced :: "'s \<Rightarrow> bool"

section \<open>Generators\<close>

text \<open>A generator returns an \<open>AgentResult\<close> (\<open>Some\<close> of its output) or something else (\<open>None\<close>), and raises an
  exception with the name of its class and its text.\<close>

codatatype gen = Yields item "sent \<Rightarrow> gen" | Returns "pyval option" | Raises string string

type_synonym generator = "sent \<Rightarrow> gen"

text \<open>A generator that has ended raises \<open>StopIteration\<close> without a value on every further \<open>send\<close>.\<close>

definition ended :: generator where
  "ended s = Returns None"

type_synonym agent_fn = "pyval \<Rightarrow> int \<Rightarrow> tool_context \<Rightarrow> exc + generator"

text \<open>\<open>s.rpartition(":")\<close>: what stands before and after the last colon.\<close>

definition entry_parts :: "string \<Rightarrow> string \<times> string" where
  "entry_parts s =
     (if CHR '':'' \<in> set s then
        (rev (tl (dropWhile (\<lambda>c. c \<noteq> CHR '':'') (rev s))), rev (takeWhile (\<lambda>c. c \<noteq> CHR '':'') (rev s)))
      else ([], s))"

text \<open>Import, attribute and factory are a parameter of the module path and the attribute.\<close>

definition instantiate_agent :: "(string \<Rightarrow> string \<Rightarrow> exc + agent_fn) \<Rightarrow> string \<Rightarrow> exc + agent_fn" where
  "instantiate_agent factory entry_point =
     (case entry_parts entry_point of (module_path, attr) \<Rightarrow>
       (if module_path = [] \<or> attr = [] then Inl (Exc ValueError (''Malformed entry point: '' @ repr_str entry_point))
        else factory module_path attr))"

section \<open>In the manager's process\<close>

record in_process =
  ip_gen :: generator
  ip_closed :: bool

definition ip_session :: "(string \<Rightarrow> string \<Rightarrow> exc + agent_fn) \<Rightarrow> agent_manifest \<Rightarrow> pyval \<Rightarrow> int \<Rightarrow> tool_context \<Rightarrow> duration \<Rightarrow> exc + in_process" where
  "ip_session factory m payload budget ctx timeout =
     bindR (instantiate_agent factory (am_entry_point m)) (\<lambda>agent.
     bindR (agent payload budget ctx) (\<lambda>g. Inr \<lparr>ip_gen = g, ip_closed = False\<rparr>))"

definition ip_next :: "sent \<Rightarrow> in_process \<Rightarrow> reply \<times> in_process" where
  "ip_next s st =
     (if ip_closed st then (Execution_Error ''Agent session is closed.'', st)
      else case ip_gen st s of
        Yields it k \<Rightarrow> (Item it, st\<lparr>ip_gen := k\<rparr>)
      | Returns (Some output) \<Rightarrow> (Item (Agent_Result output), st\<lparr>ip_gen := ended\<rparr>)
      | Returns None \<Rightarrow> (Execution_Error ''Agent returned a non-AgentResult value.'', st\<lparr>ip_gen := ended\<rparr>)
      | Raises cls msg \<Rightarrow> (Execution_Error (''Agent raised an exception: '' @ msg), st\<lparr>ip_gen := ended\<rparr>))"

definition ip_cancel :: "string \<Rightarrow> in_process \<Rightarrow> in_process" where
  "ip_cancel reason st =
     (if ip_closed st then st
      else case ip_gen st (Cancel_Value reason) of
        Yields it k \<Rightarrow> st\<lparr>ip_gen := k\<rparr>
      | _ \<Rightarrow> st\<lparr>ip_gen := ended\<rparr>)"

definition ip_close :: "in_process \<Rightarrow> in_process" where
  "ip_close st = st\<lparr>ip_closed := True\<rparr>"

text \<open>An in-process session has no \<open>termination\<close>.\<close>

definition in_process_backend :: "(string \<Rightarrow> string \<Rightarrow> exc + agent_fn) \<Rightarrow> in_process backend" where
  "in_process_backend factory = \<lparr>bk_session = ip_session factory, bk_next = ip_next, bk_cancel = ip_cancel,
     bk_close = ip_close, bk_forced = (\<lambda>_. False)\<rparr>"

lemma ip_closed_error: "ip_closed st \<Longrightarrow> ip_next s st = (Execution_Error ''Agent session is closed.'', st)"
  by (simp add: ip_next_def)

lemma ip_close_idem [simp]: "ip_close (ip_close st) = ip_close st"
  by (simp add: ip_close_def)

end
