(* ===== verification/Manager_State.thy ===== *)
theory Manager_State
  imports Threads Traj_Store Sessions
begin

text \<open>
  The state of a run of the manager (\<open>control_plane/manager.py\<close>) and the actions its methods are
  made of. A run changes the durable store, its list of steps, the event that cancels a parallel
  group, and, through the tools, whatever the tools change: the list of the calls made so far. The
  clock is a parameter: its readings in the order in which they are taken. The sessions that are
  open are recorded as numbers; the code has no such list, and nothing reads it.
\<close>

section \<open>Environment and state\<close>

record verification =
  vf_passed :: bool
  vf_message :: string

type_synonym verifier = "task \<Rightarrow> pyval \<Rightarrow> exc + verification"

record ('s, 'st) menv =
  me_store :: "'st tstore"
  me_backend :: "'s backend"
  me_agents :: agents
  me_tools :: tools
  me_verifiers :: "verifier dict"
  me_clock :: "nat \<Rightarrow> duration"
  me_seconds :: "duration \<Rightarrow> string"
  me_schedule :: "nat \<Rightarrow> nat list"

record 'st rstate =
  rs_store :: 'st
  rs_steps :: "step_record list"
  rs_ticks :: nat
  rs_calls :: "call list"
  rs_cancel :: bool
  rs_sessions :: nat
  rs_open :: "nat list"

type_synonym ('st, 'a) rthread = "('st rstate, 'a) thread"

text \<open>The verifier registry: an agent without a verifier is refused.\<close>

definition run_verifier :: "verifier dict \<Rightarrow> string \<Rightarrow> task \<Rightarrow> pyval \<Rightarrow> exc + verification" where
  "run_verifier vs agent_name task output =
     (case dget vs agent_name of
        None \<Rightarrow> Inr \<lparr>vf_passed = False, vf_message = ''No verifier registered for agent '' @ repr_str agent_name @ ''.''\<rparr>
      | Some v \<Rightarrow> v task output)"

section \<open>Outcomes\<close>

record outcome =
  oc_result :: "verified_result option"
  oc_failure :: "failure option"
  oc_trajectory_id :: "string option"

definition mk_outcome :: "verified_result option \<Rightarrow> failure option \<Rightarrow> string option \<Rightarrow> exc + outcome" where
  "mk_outcome r f i =
     thenR (value_error_if ((r = None) = (f = None)) ''Outcome must have exactly one of result or failure set.'')
      (Inr \<lparr>oc_result = r, oc_failure = f, oc_trajectory_id = i\<rparr>)"

text \<open>What stops an agent: an outcome that is recorded already, or, in a worker of a parallel group, a
  failure that the joiner will record.\<close>

record stage_failure =
  sf_reason :: failure_reason
  sf_message :: string

datatype halt = Recorded outcome | Deferred stage_failure

section \<open>Actions\<close>

definition now :: "('s, 'st) menv \<Rightarrow> ('st, duration) rthread" where
  "now E = updT (\<lambda>s. (me_clock E (rs_ticks s), s\<lparr>rs_ticks := Suc (rs_ticks s)\<rparr>))"

definition step_count :: "('st, nat) rthread" where
  "step_count = updT (\<lambda>s. (length (rs_steps s), s))"

definition cancel_set :: "('st, bool) rthread" where
  "cancel_set = updT (\<lambda>s. (rs_cancel s, s))"

definition set_cancel :: "('st, unit) rthread" where
  "set_cancel = updT (\<lambda>s. ((), s\<lparr>rs_cancel := True\<rparr>))"

text \<open>A step is given its place, appended to the list and to the store as one action. A store error
  is the value \<open>False\<close>; any other exception of the store is raised.\<close>

definition append_locked :: "('s, 'st) menv \<Rightarrow> string \<Rightarrow> step_record \<Rightarrow> ('st, bool) rthread" where
  "append_locked E tid r = actT (\<lambda>s.
     (let r' = r\<lparr>sr_index := int (length (rs_steps s))\<rparr>; s' = s\<lparr>rs_steps := rs_steps s @ [r']\<rparr> in
      case ts_append (me_store E) tid r' (rs_store s) of
        (Inr u, st) \<Rightarrow> (Inr True, s'\<lparr>rs_store := st\<rparr>)
      | (Inl e, st) \<Rightarrow> (if is_store_error e then Inr False else Inl e, s'\<lparr>rs_store := st\<rparr>)))"

definition store_begin :: "('s, 'st) menv \<Rightarrow> string \<Rightarrow> string \<Rightarrow> string \<Rightarrow> ('st, unit) rthread" where
  "store_begin E tid task_id agent_name = actT (\<lambda>s.
     (case ts_begin (me_store E) tid task_id agent_name (rs_store s) of (r, st) \<Rightarrow> (r, s\<lparr>rs_store := st\<rparr>)))"

definition store_outcome :: "('s, 'st) menv \<Rightarrow> string \<Rightarrow> stored_outcome \<Rightarrow> ('st, unit) rthread" where
  "store_outcome E tid oc = actT (\<lambda>s.
     (case ts_outcome (me_store E) tid oc (rs_store s) of (r, st) \<Rightarrow> (r, s\<lparr>rs_store := st\<rparr>)))"

definition call_tool :: "('s, 'st) menv \<Rightarrow> string \<Rightarrow> pyval dict \<Rightarrow> ('st, pyval) rthread" where
  "call_tool E name args = actT (\<lambda>s.
     (execute_tool (me_tools E) (rs_calls s) name args, s\<lparr>rs_calls := rs_calls s @ [(name, args)]\<rparr>))"

definition open_session :: "('st, nat) rthread" where
  "open_session = updT (\<lambda>s. (rs_sessions s, s\<lparr>rs_sessions := Suc (rs_sessions s), rs_open := rs_sessions s # rs_open s\<rparr>))"

definition close_session :: "nat \<Rightarrow> ('st, unit) rthread" where
  "close_session n = updT (\<lambda>s. ((), s\<lparr>rs_open := removeAll n (rs_open s)\<rparr>))"

text \<open>\<open>try: m except TrajectoryStoreError as e: h e\<close>\<close>

definition on_store_error :: "('st, 'a) rthread \<Rightarrow> (exc \<Rightarrow> ('st, 'a) rthread) \<Rightarrow> ('st, 'a) rthread" where
  "on_store_error m h = tryT m (\<lambda>e. if is_store_error e then h e else raiseT e)"

section \<open>Recording outcomes\<close>

definition steps_so_far :: "('st, step_record list) rthread" where
  "steps_so_far = updT (\<lambda>s. (rs_steps s, s))"

definition build_internal_failure :: "task \<Rightarrow> string \<Rightarrow> string \<Rightarrow> exc + outcome" where
  "build_internal_failure t agent_name message =
     mk_outcome None (Some \<lparr>fl_task_id = tk_id t, fl_reason = INTERNAL, fl_message = message,
       fl_trajectory = \<lparr>tj_version = Trajectory_V1, tj_task_id = tk_id t, tj_agent_name = agent_name, tj_steps = []\<rparr>\<rparr>) None"

definition build_trajectory :: "task \<Rightarrow> string \<Rightarrow> ('st, trajectory) rthread" where
  "build_trajectory t agent_name = bindT steps_so_far (\<lambda>steps.
     liftT (trajectory_init \<lparr>tj_version = Trajectory_V1, tj_task_id = tk_id t, tj_agent_name = agent_name, tj_steps = steps\<rparr>))"

definition record_failure ::
  "('s, 'st) menv \<Rightarrow> task \<Rightarrow> string \<Rightarrow> string \<Rightarrow> failure_reason \<Rightarrow> string \<Rightarrow> ('st, outcome) rthread" where
  "record_failure E t agent_name tid reason message =
     bindT (on_store_error (bindT (store_outcome E tid (stored_failure reason message)) (\<lambda>_. retT None))
             (\<lambda>e. retT (Some (''Failed to persist failure outcome ('' @ reason_value reason @ ''): '' @ exc_text e))))
       (\<lambda>refused. case refused of
          Some msg \<Rightarrow> liftT (build_internal_failure t agent_name msg)
        | None \<Rightarrow> bindT (build_trajectory t agent_name) (\<lambda>tj.
            liftT (mk_outcome None (Some \<lparr>fl_task_id = tk_id t, fl_reason = reason, fl_message = message, fl_trajectory = tj\<rparr>) (Some tid))))"

definition record_success ::
  "('s, 'st) menv \<Rightarrow> task \<Rightarrow> string \<Rightarrow> string \<Rightarrow> pyval \<Rightarrow> ('st, outcome) rthread" where
  "record_success E t agent_name tid output =
     bindT (on_store_error (bindT (store_outcome E tid (stored_verified output)) (\<lambda>_. retT None))
             (\<lambda>e. retT (Some (''Failed to persist verified outcome: '' @ exc_text e))))
       (\<lambda>refused. case refused of
          Some msg \<Rightarrow> record_failure E t agent_name tid INTERNAL msg
        | None \<Rightarrow> bindT (build_trajectory t agent_name) (\<lambda>tj.
            liftT (mk_outcome (Some \<lparr>vr_version = Result_V1, vr_task_id = tk_id t, vr_output = output, vr_trajectory = tj\<rparr>) None (Some tid))))"

definition deferred_or_recorded ::
  "('s, 'st) menv \<Rightarrow> task \<Rightarrow> string \<Rightarrow> string \<Rightarrow> failure_reason \<Rightarrow> string \<Rightarrow> bool \<Rightarrow> ('st, halt + 'a) rthread" where
  "deferred_or_recorded E t agent_name tid reason message stage_worker =
     (if \<not> stage_worker then bindT (record_failure E t agent_name tid reason message) (\<lambda>oc. retT (Inl (Recorded oc)))
      else retT (Inl (Deferred \<lparr>sf_reason = reason, sf_message = message\<rparr>)))"

text \<open>A step record whose place \<open>append_locked\<close> fills in, and the markers the manager appends itself.\<close>

definition step_of :: "step_status \<Rightarrow> string \<Rightarrow> pyval \<Rightarrow> pyval \<Rightarrow> pyval \<Rightarrow> string \<Rightarrow> step_record" where
  "step_of status description inp out err elapsed =
     \<lparr>sr_index = 0, sr_status = status, sr_description = description, sr_input = inp, sr_output = out, sr_error = err, sr_elapsed = elapsed\<rparr>"

end
