(* ===== verification/Manager_Exec.thy ===== *)
theory Manager_Exec
  imports Manager_State
begin

text \<open>
  The execution core of the manager (\<open>AgentManager._execute_agent\<close> and its helpers): one agent is
  driven step by step under its envelope, its steps are recorded, its tool requests are mediated, and
  its output passes the verification gate. The loop is a recursion on the steps that are left in the
  agent's budget; every turn that goes on uses up at least one.
\<close>

section \<open>What a run of an agent knows\<close>

record comp_limit =
  cl_envelope :: task_envelope
  cl_start :: duration
  cl_base :: nat

record exec =
  ex_task :: task
  ex_agent :: string
  ex_tid :: string
  ex_envelope :: task_envelope
  ex_tools :: tool_context
  ex_start :: duration
  ex_comp :: "comp_limit option"
  ex_worker :: bool
  ex_group :: bool

section \<open>Failing and cancelling\<close>

definition halt_with :: "('s, 'st) menv \<Rightarrow> exec \<Rightarrow> failure_reason \<Rightarrow> string \<Rightarrow> ('st, halt + 'a) rthread" where
  "halt_with E X reason message = deferred_or_recorded E (ex_task X) (ex_agent X) (ex_tid X) reason message (ex_worker X)"

definition fail_run :: "('s, 'st) menv \<Rightarrow> exec \<Rightarrow> nat \<Rightarrow> failure_reason \<Rightarrow> string \<Rightarrow> ('st, halt + 'a) rthread" where
  "fail_run E X n reason message = thenT (close_session n) (halt_with E X reason message)"

definition cancel_run :: "('s, 'st) menv \<Rightarrow> exec \<Rightarrow> nat \<Rightarrow> 's \<Rightarrow> failure_reason \<Rightarrow> string \<Rightarrow> ('st, halt + 'a) rthread" where
  "cancel_run E X n se reason message =
     bindT (append_locked E (ex_tid X) (step_of Was_Cancelled ''agent cancelled'' PNone PNone (PStr message) ''0.0'')) (\<lambda>kept.
       if \<not> kept then halt_with E X INTERNAL ''Failed to persist agent cancellation step.''
       else thenT (close_session n)
         (if bk_forced (me_backend E) (bk_close (me_backend E) (bk_cancel (me_backend E) message se)) then
            bindT (append_locked E (ex_tid X) (step_of Was_Cancelled ''agent forcibly terminated'' PNone PNone
                (PStr ''child ignored cooperative cancellation; killed as last resort'') ''0.0'')) (\<lambda>kept.
              if \<not> kept then halt_with E X INTERNAL ''Failed to persist forced-termination step.''
              else fail_run E X n reason message)
          else fail_run E X n reason message))"

section \<open>Steps and tools\<close>

definition persist_step :: "('s, 'st) menv \<Rightarrow> exec \<Rightarrow> string \<Rightarrow> pyval \<Rightarrow> duration \<Rightarrow> ('st, outcome option) rthread" where
  "persist_step E X description detail elapsed =
     bindT step_count (\<lambda>index.
     bindT (append_locked E (ex_tid X) (step_of Completed description PNone detail PNone (me_seconds E elapsed))) (\<lambda>kept.
       if kept then retT None
       else bindT (record_failure E (ex_task X) (ex_agent X) (ex_tid X) INTERNAL (''Failed to persist step '' @ show_nat index @ ''.''))
         (\<lambda>oc. retT (Some oc))))"

record tool_delivery =
  dv_result :: tool_result
  dv_consumed :: nat

definition not_granted :: string where
  "not_granted = ''tool not granted to this agent''"

definition request_input :: "string \<Rightarrow> pyval dict \<Rightarrow> pyval" where
  "request_input name args = PDict [(''tool'', PStr name), (''args'', PDict args)]"

definition run_tool :: "('s, 'st) menv \<Rightarrow> string \<Rightarrow> pyval dict \<Rightarrow> ('st, string + pyval) rthread" where
  "run_tool E name args =
     tryT (bindT (call_tool E name args) (\<lambda>v. retT (Inr v)))
       (\<lambda>e. if exc_class e = ToolExecutionError then retT (Inl (exc_text e)) else raiseT e)"

definition mediate_tool :: "('s, 'st) menv \<Rightarrow> exec \<Rightarrow> string \<Rightarrow> pyval dict \<Rightarrow> ('st, tool_delivery option) rthread" where
  "mediate_tool E X name args =
     (if \<not> available (ex_tools X) name then
        bindT (append_locked E (ex_tid X) (step_of Rejected (''tool '' @ repr_str name @ '' request rejected'')
            (request_input name args) PNone (PStr not_granted) ''0.0'')) (\<lambda>kept.
          retT (if kept then Some \<lparr>dv_result = \<lparr>tr_success = False, tr_output = PNone, tr_error = PStr not_granted\<rparr>, dv_consumed = 1\<rparr>
                else None))
      else
        bindT (append_locked E (ex_tid X) (step_of Completed (''tool '' @ repr_str name @ '' request'')
            (request_input name args) PNone PNone ''0.0'')) (\<lambda>kept.
          if \<not> kept then retT None
          else bindT (run_tool E name args) (\<lambda>r. case r of
            Inl msg \<Rightarrow>
              bindT (append_locked E (ex_tid X) (step_of Failed (''tool '' @ repr_str name @ '' execution failed'') PNone PNone (PStr msg) ''0.0''))
                (\<lambda>kept. retT (if kept then Some \<lparr>dv_result = \<lparr>tr_success = False, tr_output = PNone, tr_error = PStr msg\<rparr>, dv_consumed = 2\<rparr> else None))
          | Inr v \<Rightarrow>
              bindT (append_locked E (ex_tid X) (step_of Completed (''tool '' @ repr_str name @ '' result'') PNone v PNone ''0.0''))
                (\<lambda>kept. retT (if kept then Some \<lparr>dv_result = \<lparr>tr_success = True, tr_output = v, tr_error = PNone\<rparr>, dv_consumed = 2\<rparr> else None)))))"

section \<open>The envelope\<close>

text \<open>The tests at the head of a turn, in their order; the last one, the agent's own step budget, is the
  base case of the loop. Each test reads the clock or the state by an action of its own.\<close>

definition check_cancel :: "exec \<Rightarrow> ('st, (failure_reason \<times> string) option) rthread" where
  "check_cancel X =
     (if ex_group X then bindT cancel_set (\<lambda>b. retT (if b then
        Some (CANCELLED, ''Parallel composition aborted because a sibling stage failed.'') else None))
      else retT None)"

definition check_comp_time :: "('s, 'st) menv \<Rightarrow> exec \<Rightarrow> ('st, (failure_reason \<times> string) option) rthread" where
  "check_comp_time E X =
     (case ex_comp X of None \<Rightarrow> retT None
      | Some c \<Rightarrow> bindT (now E) (\<lambda>t. retT (if te_timeout (cl_envelope c) < t - cl_start c then
          Some (TIMEOUT, ''Composition exceeded overall timeout of '' @ me_seconds E (te_timeout (cl_envelope c)) @ ''s.'') else None)))"

definition check_time :: "('s, 'st) menv \<Rightarrow> exec \<Rightarrow> ('st, (failure_reason \<times> string) option) rthread" where
  "check_time E X = bindT (now E) (\<lambda>t. retT (if te_timeout (ex_envelope X) < t - ex_start X then
     Some (TIMEOUT, ''Agent exceeded overall timeout of '' @ me_seconds E (te_timeout (ex_envelope X)) @ ''s.'') else None))"

definition check_comp_steps :: "exec \<Rightarrow> ('st, (failure_reason \<times> string) option) rthread" where
  "check_comp_steps X =
     (case ex_comp X of None \<Rightarrow> retT None
      | Some c \<Rightarrow> bindT step_count (\<lambda>n. retT (if te_max_steps (cl_envelope c) \<le> int n - int (cl_base c) then
          Some (STEP_LIMIT, ''Composition exceeded step limit of '' @ show_int (te_max_steps (cl_envelope c)) @ ''.'') else None)))"

fun first_of :: "('st, 'a option) rthread list \<Rightarrow> ('st, 'a option) rthread" where
  "first_of [] = retT None"
| "first_of (m # ms) = bindT m (\<lambda>r. case r of None \<Rightarrow> first_of ms | Some x \<Rightarrow> retT (Some x))"

definition turn_guard :: "('s, 'st) menv \<Rightarrow> exec \<Rightarrow> ('st, (failure_reason \<times> string) option) rthread" where
  "turn_guard E X = first_of [check_cancel X, check_comp_time E X, check_time E X, check_comp_steps X]"

section \<open>The loop\<close>

text \<open>The steps an agent has taken when \<open>left\<close> are left.\<close>

definition stage_step :: "exec \<Rightarrow> nat \<Rightarrow> string" where
  "stage_step X left = show_nat (nat (te_max_steps (ex_envelope X)) - left)"

definition over_step_budget :: "exec \<Rightarrow> duration \<Rightarrow> bool" where
  "over_step_budget X elapsed \<longleftrightarrow> (case te_step (ex_envelope X) of None \<Rightarrow> False | Some d \<Rightarrow> d < elapsed)"

fun agent_loop :: "('s, 'st) menv \<Rightarrow> exec \<Rightarrow> nat \<Rightarrow> nat \<Rightarrow> 's \<Rightarrow> sent \<Rightarrow> ('st, halt + pyval) rthread" where
  "agent_loop E X n 0 se s =
     bindT (turn_guard E X) (\<lambda>g. case g of
       Some (reason, msg) \<Rightarrow> cancel_run E X n se reason msg
     | None \<Rightarrow> cancel_run E X n se STEP_LIMIT (''Agent exceeded step limit of '' @ show_int (te_max_steps (ex_envelope X)) @ ''.''))"
| "agent_loop E X n (Suc left) se s =
     bindT (turn_guard E X) (\<lambda>g. case g of
       Some (reason, msg) \<Rightarrow> cancel_run E X n se reason msg
     | None \<Rightarrow> bindT (now E) (\<lambda>t0. case bk_next (me_backend E) s se of
         (Execution_Timeout e, se') \<Rightarrow> cancel_run E X n se' TIMEOUT (''Agent subprocess did not respond within the envelope timeout: '' @ e)
       | (Execution_Error e, se') \<Rightarrow> fail_run E X n AGENT_ERROR (''Agent execution failed: '' @ e)
       | (Item (Agent_Result v), se') \<Rightarrow> retT (Inr v)
       | (Item it, se') \<Rightarrow> bindT (now E) (\<lambda>t1.
           if over_step_budget X (t1 - t0) then
             cancel_run E X n se' TIMEOUT (''Step '' @ stage_step X (Suc left) @ '' exceeded per-step budget of ''
               @ (case te_step (ex_envelope X) of None \<Rightarrow> ''None'' | Some d \<Rightarrow> me_seconds E d) @ ''s.'')
           else case it of
             Agent_Step description detail \<Rightarrow> bindT (persist_step E X description detail (t1 - t0)) (\<lambda>lost. case lost of
                 None \<Rightarrow> agent_loop E X n left se' No_Value
               | Some oc \<Rightarrow> if ex_worker X then halt_with E X INTERNAL
                     (case oc_failure oc of Some f \<Rightarrow> fl_message f | None \<Rightarrow> ''Failed to persist step.'')
                   else retT (Inl (Recorded oc)))
           | Tool_Request name args \<Rightarrow> bindT (mediate_tool E X name args) (\<lambda>d. case d of
                 None \<Rightarrow> fail_run E X n INTERNAL ''Tool mediation could not be durably recorded.''
               | Some dv \<Rightarrow> agent_loop E X n (left - (dv_consumed dv - 1)) se' (Tool_Value (dv_result dv)))
           | _ \<Rightarrow> fail_run E X n AGENT_ERROR (''Agent yielded an unsupported value at step '' @ stage_step X (Suc left) @ ''.''))))"

text \<open>The first \<open>try\<close> of the method: the manifest and the session.\<close>

definition start_agent :: "('s, 'st) menv \<Rightarrow> exec \<Rightarrow> ('st, halt + 's) rthread" where
  "start_agent E X =
     tryT (case get_by_name (me_agents E) (ex_agent X) of
         None \<Rightarrow> halt_with E X UNKNOWN_AGENT (''No agent registered with name '' @ repr_str (ex_agent X) @ ''.'')
       | Some m \<Rightarrow> bindT (liftT (bk_session (me_backend E) m (tk_payload (ex_task X)) (te_max_steps (ex_envelope X))
             (ex_tools X) (te_timeout (ex_envelope X)))) (\<lambda>se. retT (Inr se)))
       (\<lambda>e. halt_with E X INTERNAL (''Failed to start agent: '' @ exc_text e))"

text \<open>The verification gate; the session is closed on success.\<close>

definition verify_output :: "('s, 'st) menv \<Rightarrow> exec \<Rightarrow> nat \<Rightarrow> pyval \<Rightarrow> ('st, halt + pyval) rthread" where
  "verify_output E X n output =
     bindT (liftT (run_verifier (me_verifiers E) (ex_agent X) (ex_task X) output)) (\<lambda>v.
       if \<not> vf_passed v then fail_run E X n VERIFICATION_FAILED (vf_message v)
       else thenT (close_session n) (retT (Inr output)))"

definition drive_agent :: "('s, 'st) menv \<Rightarrow> exec \<Rightarrow> 's \<Rightarrow> ('st, halt + pyval) rthread" where
  "drive_agent E X se =
     bindT open_session (\<lambda>n.
     bindT (tryT (agent_loop E X n (nat (te_max_steps (ex_envelope X))) se No_Value)
             (\<lambda>e. fail_run E X n AGENT_ERROR (''Agent raised an exception: '' @ exc_text e))) (\<lambda>r. case r of
       Inl h \<Rightarrow> retT (Inl h)
     | Inr output \<Rightarrow> verify_output E X n output))"

definition execute_agent :: "('s, 'st) menv \<Rightarrow> exec \<Rightarrow> ('st, halt + pyval) rthread" where
  "execute_agent E X =
     bindT (start_agent E X) (\<lambda>r. case r of Inl h \<Rightarrow> retT (Inl h) | Inr se \<Rightarrow> drive_agent E X se)"

end
