(* ===== verification/Manager.thy ===== *)
theory Manager
  imports Manager_Exec
begin

text \<open>
  The manager (\<open>control_plane/manager.py\<close>): the policy gate, single agents, sequential and parallel
  compositions, and \<open>run\<close>. The manager appends its own markers only while no worker thread runs, so
  they are the same action as a step appended under the lock. A tuple in a recorded value is a list.
\<close>

section \<open>Labels and summaries\<close>

definition capability_repr :: "capability \<Rightarrow> string" where
  "capability_repr c = ''Capability(name='' @ repr_str (ca_name c) @ '', version='' @ repr_str (ca_version c) @ '')''"

text \<open>A stage names an agent or, if it does not, a capability.\<close>

definition stage_label :: "stage_spec \<Rightarrow> string" where
  "stage_label s = (case (sg_agent s, sg_capability s) of (Some a, _) \<Rightarrow> a | (None, Some c) \<Rightarrow> ''capability:'' @ ca_name c | (None, None) \<Rightarrow> [])"

definition resolve :: "agents \<Rightarrow> string option \<Rightarrow> capability option \<Rightarrow> agent_manifest option" where
  "resolve rg name cap = (case (name, cap) of (Some a, _) \<Rightarrow> get_by_name rg a | (None, Some c) \<Rightarrow> get_by_capability rg c | (None, None) \<Rightarrow> None)"

definition resolve_stage :: "('s, 'st) menv \<Rightarrow> stage_spec \<Rightarrow> agent_manifest option" where
  "resolve_stage E s = resolve (me_agents E) (sg_agent s) (sg_capability s)"

definition summarise_envelope :: "('s, 'st) menv \<Rightarrow> task_envelope \<Rightarrow> pyval" where
  "summarise_envelope E e = PDict [(''max_steps'', PInt (te_max_steps e)), (''timeout_seconds'', PFloat (me_seconds E (te_timeout e))),
     (''max_step_seconds'', (case te_step e of None \<Rightarrow> PNone | Some d \<Rightarrow> PFloat (me_seconds E d)))]"

definition summarise_payload :: "pyval \<Rightarrow> pyval" where
  "summarise_payload v =
     (case v of PDict kvs \<Rightarrow> PDict [(''kind'', PStr ''object''), (''fields'', PDict (map (\<lambda>kv. (fst kv, PStr (type_name (snd kv)))) kvs))]
      | _ \<Rightarrow> PDict [(''kind'', PStr (type_name v))])"

definition envelope_of :: "task \<Rightarrow> stage_spec \<Rightarrow> task_envelope" where
  "envelope_of t s = (case sg_envelope s of None \<Rightarrow> tk_envelope t | Some e \<Rightarrow> e)"

definition stage_task :: "task \<Rightarrow> pyval \<Rightarrow> task" where
  "stage_task t payload = \<lparr>tk_version = Task_V6, tk_id = tk_id t, tk_agent = Some ''placeholder'', tk_capability = None, tk_payload = payload,
     tk_envelope = tk_envelope t, tk_tools = [], tk_pipeline = None, tk_parallel = None, tk_policy = None\<rparr>"

section \<open>The policy gate\<close>

text \<open>The decisions in the order in which they are taken, each with the reason used when it gives none
  and with the constraint recorded when it allows.\<close>

type_synonym policy_check = "policy_decision \<times> string \<times> string \<times> string"

definition selector_checks :: "policy \<Rightarrow> string \<Rightarrow> string option \<Rightarrow> capability option \<Rightarrow> policy_check list" where
  "selector_checks p pre name cap =
     (case (name, cap) of
        (Some a, _) \<Rightarrow> [(check_agent p a, pre @ ''agent denied'', pre @ ''agent'', a)]
      | (None, Some c) \<Rightarrow> [(check_capability p c, pre @ ''capability denied'', pre @ ''capability'', ca_name c)]
      | (None, None) \<Rightarrow> [])"

definition tool_checks :: "policy \<Rightarrow> string \<Rightarrow> string list \<Rightarrow> policy_check list" where
  "tool_checks p pre granted = map (\<lambda>n. (check_tool p n, pre @ ''tool denied'', pre @ ''tool'', n)) granted"

definition stage_checks :: "policy \<Rightarrow> stage_spec \<Rightarrow> policy_check list" where
  "stage_checks p s = selector_checks p ''stage '' (sg_agent s) (sg_capability s) @ tool_checks p ''stage '' (sg_tools s)"

definition stages_of :: "stage \<Rightarrow> stage_spec list" where
  "stages_of s = (case s of Agent_Stage a \<Rightarrow> [a] | Group g \<Rightarrow> pl_stages g)"

definition all_stages :: "task \<Rightarrow> stage_spec list" where
  "all_stages t =
     (case tk_pipeline t of None \<Rightarrow> [] | Some p \<Rightarrow> concat (map stages_of (pp_stages p))) @
     (case tk_parallel t of None \<Rightarrow> [] | Some p \<Rightarrow> pl_stages p)"

definition task_checks :: "policy \<Rightarrow> task \<Rightarrow> policy_check list" where
  "task_checks p t = selector_checks p [] (tk_agent t) (tk_capability t) @ tool_checks p [] (tk_tools t)
     @ concat (map (stage_checks p) (all_stages t))"

definition denial :: "policy_check \<Rightarrow> string" where
  "denial c = (case c of (d, dflt, _) \<Rightarrow> (case pd_reason d of None \<Rightarrow> dflt | Some r \<Rightarrow> if r = [] then dflt else r))"

definition constraint :: "policy_check \<Rightarrow> pyval" where
  "constraint c = (case c of (_, _, kind, label) \<Rightarrow> PList [PStr kind, PStr label])"

definition policy_violation :: "('s, 'st) menv \<Rightarrow> task \<Rightarrow> string \<Rightarrow> string \<Rightarrow> string \<Rightarrow> ('st, outcome) rthread" where
  "policy_violation E t agent_name tid message =
     bindT (append_locked E tid (step_of Rejected ''policy rejected'' PNone PNone (PStr message) ''0.0'')) (\<lambda>kept.
       if kept then record_failure E t agent_name tid POLICY_VIOLATION message
       else record_failure E t agent_name tid INTERNAL ''Failed to persist policy rejection step.'')"

definition evaluate_task_policy :: "('s, 'st) menv \<Rightarrow> task \<Rightarrow> string \<Rightarrow> string \<Rightarrow> policy \<Rightarrow> ('st, outcome option) rthread" where
  "evaluate_task_policy E t agent_name tid p =
     (case find (\<lambda>c. \<not> pd_allowed (fst c)) (task_checks p t) of
        Some c \<Rightarrow> bindT (policy_violation E t agent_name tid (denial c)) (\<lambda>oc. retT (Some oc))
      | None \<Rightarrow>
          bindT (append_locked E tid (step_of Completed ''policy accepted''
              (PDict [(''constraints'', PList (map constraint (task_checks p t)))]) PNone PNone ''0.0'')) (\<lambda>kept.
            if kept then retT None
            else bindT (record_failure E t agent_name tid INTERNAL ''Failed to persist policy acceptance step.'') (\<lambda>oc. retT (Some oc))))"

definition policy_gate :: "('s, 'st) menv \<Rightarrow> task \<Rightarrow> string \<Rightarrow> string \<Rightarrow> ('st, outcome option) rthread" where
  "policy_gate E t agent_name tid = (case tk_policy t of None \<Rightarrow> retT None | Some p \<Rightarrow> evaluate_task_policy E t agent_name tid p)"

section \<open>One agent\<close>

definition selector_repr :: "task \<Rightarrow> string" where
  "selector_repr t = (case (tk_agent t, tk_capability t) of
     (Some a, _) \<Rightarrow> repr_str a | (None, Some c) \<Rightarrow> capability_repr c | (None, None) \<Rightarrow> ''None'')"

definition run_unknown_agent :: "('s, 'st) menv \<Rightarrow> task \<Rightarrow> string \<Rightarrow> ('st, outcome) rthread" where
  "run_unknown_agent E t tid =
     (let agent_name = (case tk_agent t of None \<Rightarrow> [] | Some a \<Rightarrow> a);
          message = ''No agent registered for selector '' @ selector_repr t @ ''.'' in
      bindT (on_store_error
          (thenT (store_begin E tid (tk_id t) agent_name)
            (bindT (store_outcome E tid (stored_failure UNKNOWN_AGENT message)) (\<lambda>_. retT None)))
          (\<lambda>e. retT (Some (''Could not persist unknown-agent failure: '' @ exc_text e)))) (\<lambda>refused. case refused of
        Some msg \<Rightarrow> liftT (build_internal_failure t agent_name msg)
      | None \<Rightarrow> liftT (mk_outcome None (Some \<lparr>fl_task_id = tk_id t, fl_reason = UNKNOWN_AGENT, fl_message = message,
          fl_trajectory = \<lparr>tj_version = Trajectory_V1, tj_task_id = tk_id t, tj_agent_name = agent_name, tj_steps = []\<rparr>\<rparr>) (Some tid))))"

text \<open>A run begins with the durable trajectory and passes the policy gate; \<open>body\<close> is what follows.\<close>

definition begin_run :: "('s, 'st) menv \<Rightarrow> task \<Rightarrow> string \<Rightarrow> string \<Rightarrow> ('st, outcome) rthread \<Rightarrow> ('st, outcome) rthread" where
  "begin_run E t agent_name tid body =
     bindT (on_store_error (bindT (store_begin E tid (tk_id t) agent_name) (\<lambda>_. retT None)) (\<lambda>e. retT (Some (exc_text e)))) (\<lambda>refused. case refused of
       Some msg \<Rightarrow> liftT (build_internal_failure t agent_name (''Could not begin durable trajectory: '' @ msg))
     | None \<Rightarrow> bindT (policy_gate E t agent_name tid) (\<lambda>denied. case denied of Some oc \<Rightarrow> retT oc | None \<Rightarrow> body))"

definition outcome_of_halt :: "('s, 'st) menv \<Rightarrow> task \<Rightarrow> string \<Rightarrow> string \<Rightarrow> halt \<Rightarrow> ('st, outcome) rthread" where
  "outcome_of_halt E t agent_name tid h =
     (case h of Recorded oc \<Rightarrow> retT oc | Deferred f \<Rightarrow> record_failure E t agent_name tid (sf_reason f) (sf_message f))"

definition single_exec :: "('s, 'st) menv \<Rightarrow> task \<Rightarrow> string \<Rightarrow> string \<Rightarrow> duration \<Rightarrow> exec" where
  "single_exec E t agent_name tid start = \<lparr>ex_task = t, ex_agent = agent_name, ex_tid = tid, ex_envelope = tk_envelope t,
     ex_tools = build_tool_context (me_tools E) (tk_tools t), ex_start = start, ex_comp = None, ex_worker = False, ex_group = False\<rparr>"

definition run_single :: "('s, 'st) menv \<Rightarrow> task \<Rightarrow> string \<Rightarrow> ('st, outcome) rthread" where
  "run_single E t tid =
     (case resolve (me_agents E) (tk_agent t) (tk_capability t) of
        None \<Rightarrow> run_unknown_agent E t tid
      | Some m \<Rightarrow> bindT (now E) (\<lambda>start. begin_run E t (am_name m) tid
          (bindT (execute_agent E (single_exec E t (am_name m) tid start)) (\<lambda>r. case r of
             Inl h \<Rightarrow> outcome_of_halt E t (am_name m) tid h
           | Inr output \<Rightarrow> record_success E t (am_name m) tid output))))"

section \<open>A parallel group\<close>

definition group_exec :: "('s, 'st) menv \<Rightarrow> task \<Rightarrow> string \<Rightarrow> comp_limit \<Rightarrow> pyval \<Rightarrow> stage_spec \<times> string \<times> duration \<Rightarrow> exec" where
  "group_exec E t tid cl payload r =
     (case r of (s, agent_name, start) \<Rightarrow>
       \<lparr>ex_task = stage_task t payload, ex_agent = agent_name, ex_tid = tid, ex_envelope = envelope_of t s,
        ex_tools = build_tool_context (me_tools E) (sg_tools s), ex_start = start, ex_comp = Some cl, ex_worker = True, ex_group = True\<rparr>)"

text \<open>The begin markers: every stage is resolved before any thread runs.\<close>

fun begin_stages :: "('s, 'st) menv \<Rightarrow> task \<Rightarrow> string \<Rightarrow> nat \<Rightarrow> stage_spec list \<Rightarrow> ('st, stage_failure + (stage_spec \<times> string \<times> duration) list) rthread" where
  "begin_stages E t tid k [] = retT (Inr [])"
| "begin_stages E t tid k (s # ss) =
     (case resolve_stage E s of
        None \<Rightarrow> retT (Inl \<lparr>sf_reason = UNKNOWN_AGENT,
          sf_message = ''Parallel stage '' @ show_nat k @ '' references an unknown agent ('' @ stage_label s @ '').''\<rparr>)
      | Some m \<Rightarrow>
          bindT (append_locked E tid (step_of Started (''parallel stage '' @ show_nat k @ '' begin'')
              (PDict [(''stage'', PInt (int k)), (''agent'', PStr (stage_label s)), (''envelope'', summarise_envelope E (envelope_of t s))]) PNone PNone ''0.0'')) (\<lambda>kept.
            if \<not> kept then retT (Inl \<lparr>sf_reason = INTERNAL, sf_message = ''Failed to persist parallel stage '' @ show_nat k @ '' begin step.''\<rparr>)
            else bindT (now E) (\<lambda>start. bindT (begin_stages E t tid (Suc k) ss) (\<lambda>r. case r of
              Inl f \<Rightarrow> retT (Inl f) | Inr rs \<Rightarrow> retT (Inr ((s, am_name m, start) # rs))))))"

text \<open>The joiner sets the event when a worker raised; what a worker returned otherwise it only takes.\<close>

definition joiner :: "exc + 'a \<Rightarrow> 'st rstate \<Rightarrow> 'st rstate" where
  "joiner r s = (case r of Inl _ \<Rightarrow> s\<lparr>rs_cancel := True\<rparr> | Inr _ \<Rightarrow> s)"

definition raised_failure :: "exc + (halt + pyval) \<Rightarrow> halt + pyval" where
  "raised_failure r = (case r of Inl e \<Rightarrow> Inl (Deferred \<lparr>sf_reason = INTERNAL, sf_message = ''Parallel worker raised: '' @ exc_text e\<rparr>) | Inr x \<Rightarrow> x)"

definition dispatch_stages :: "('s, 'st) menv \<Rightarrow> exec list \<Rightarrow> ('st, (halt + pyval) list) rthread" where
  "dispatch_stages E Xs = updT (\<lambda>s.
     (case run_threads joiner (me_schedule E (length (rs_steps s))) (map (execute_agent E) Xs) s of
        (rs, s') \<Rightarrow> (map raised_failure rs, s')))"

text \<open>The results in declared order: the join, the first failure, the accounts.\<close>

fun join_results :: "('s, 'st) menv \<Rightarrow> nat \<Rightarrow> (stage_spec \<times> string \<times> duration) list \<Rightarrow> (halt + pyval) list \<Rightarrow> bool
    \<Rightarrow> ('st, pyval list \<times> halt option \<times> pyval list) rthread" where
  "join_results E k ((s, agent_name, start) # rs) (x # xs) failed =
     bindT (now E) (\<lambda>t.
       let elapsed = [(''elapsed_seconds'', PFloat (me_seconds E (t - start)))]; account = [(''agent'', PStr agent_name), (''stage'', PInt (int k))] in
       case x of
         Inr v \<Rightarrow> bindT (join_results E (Suc k) rs xs failed) (\<lambda>(joined, f, accounts).
           retT (PList [PInt (int k), PStr agent_name, v] # joined, f, PDict (account @ elapsed) # accounts))
       | Inl h \<Rightarrow> bindT (join_results E (Suc k) rs xs True) (\<lambda>(joined, f, accounts).
           retT (joined, if failed then f else Some h, PDict (if failed then account else account @ elapsed) # accounts)))"
| "join_results E k _ _ failed = retT ([], None, [])"

definition halt_failure :: "halt \<Rightarrow> stage_failure" where
  "halt_failure h = (case h of Deferred f \<Rightarrow> f | Recorded oc \<Rightarrow>
     (case oc_failure oc of Some f \<Rightarrow> \<lparr>sf_reason = fl_reason f, sf_message = fl_message f\<rparr> | None \<Rightarrow> \<lparr>sf_reason = INTERNAL, sf_message = []\<rparr>))"

text \<open>The threads of the group, the join, and the end marker.\<close>

definition run_resolved ::
  "('s, 'st) menv \<Rightarrow> task \<Rightarrow> string \<Rightarrow> comp_limit \<Rightarrow> duration \<Rightarrow> pyval \<Rightarrow> (stage_spec \<times> string \<times> duration) list \<Rightarrow> ('st, stage_failure + pyval list) rthread" where
  "run_resolved E t tid cl group_start payload resolved =
     bindT (dispatch_stages E (map (group_exec E t tid cl payload) resolved)) (\<lambda>results.
     bindT (join_results E 0 resolved results False) (\<lambda>(joined, failure, accounts).
     bindT (now E) (\<lambda>end.
     bindT (append_locked E tid (step_of Completed ''parallel group end'' PNone (PDict [(''stages'', PList accounts)]) PNone
         (me_seconds E (end - group_start)))) (\<lambda>kept.
       if \<not> kept then retT (Inl \<lparr>sf_reason = INTERNAL, sf_message = ''Failed to persist parallel group end step.''\<rparr>)
       else case failure of Some h \<Rightarrow> retT (Inl (halt_failure h)) | None \<Rightarrow> retT (Inr joined)))))"

definition run_parallel_group ::
  "('s, 'st) menv \<Rightarrow> task \<Rightarrow> parallel \<Rightarrow> string \<Rightarrow> comp_limit \<Rightarrow> duration \<Rightarrow> pyval \<Rightarrow> ('st, stage_failure + pyval list) rthread" where
  "run_parallel_group E t p tid cl group_start payload0 =
     (let payload = (if payload0 = PNone then tk_payload t else payload0) in
      bindT (append_locked E tid (step_of Started ''parallel group begin''
          (PDict [(''stages'', PList (map (\<lambda>s. PStr (stage_label s)) (pl_stages p))), (''envelope'', summarise_envelope E (tk_envelope t))]) PNone PNone ''0.0'')) (\<lambda>kept.
      if \<not> kept then retT (Inl \<lparr>sf_reason = INTERNAL, sf_message = ''Failed to persist parallel group begin step.''\<rparr>)
      else bindT (begin_stages E t tid 0 (pl_stages p)) (\<lambda>r. case r of
        Inl f \<Rightarrow> retT (Inl f)
      | Inr resolved \<Rightarrow> run_resolved E t tid cl group_start payload resolved)))"

definition stages_value :: "pyval list \<Rightarrow> pyval" where
  "stages_value joined = PDict [(''stages'', PList joined)]"

definition first_agent :: "('s, 'st) menv \<Rightarrow> stage_spec list \<Rightarrow> agent_manifest option" where
  "first_agent E ss = (case ss of [] \<Rightarrow> None | s # _ \<Rightarrow> resolve_stage E s)"

definition run_parallel :: "('s, 'st) menv \<Rightarrow> task \<Rightarrow> parallel \<Rightarrow> string \<Rightarrow> ('st, outcome) rthread" where
  "run_parallel E t p tid =
     (case first_agent E (pl_stages p) of
        None \<Rightarrow> run_unknown_agent E t tid
      | Some m \<Rightarrow> bindT (now E) (\<lambda>start. begin_run E t (am_name m) tid
          (bindT (run_parallel_group E t p tid \<lparr>cl_envelope = tk_envelope t, cl_start = start, cl_base = 0\<rparr> start PNone) (\<lambda>r. case r of
             Inl f \<Rightarrow> record_failure E t (am_name m) tid (sf_reason f) (sf_message f)
           | Inr joined \<Rightarrow> record_success E t (am_name m) tid (stages_value joined)))))"

end
