(* ===== verification/Manager_Run.thy ===== *)
theory Manager_Run
  imports Manager
begin

text \<open>
  Sequential compositions and \<open>run\<close> (\<open>control_plane/manager.py\<close>). The stages of a pipeline share one
  trajectory; the verified output of a stage is validated and handed to the next; the task's envelope
  bounds the whole.
\<close>

section \<open>Accounting\<close>

definition stage_account :: "('s, 'st) menv \<Rightarrow> nat \<Rightarrow> string \<Rightarrow> duration \<Rightarrow> nat \<Rightarrow> pyval" where
  "stage_account E k name elapsed steps = PDict [(''stage'', PInt (int k)), (''agent'', PStr name),
     (''elapsed_seconds'', PFloat (me_seconds E elapsed)), (''steps'', PInt (int steps))]"

definition persist_stage_summary :: "('s, 'st) menv \<Rightarrow> string \<Rightarrow> pyval list \<Rightarrow> ('st, bool) rthread" where
  "persist_stage_summary E tid accounts =
     bindT step_count (\<lambda>n. append_locked E tid (step_of Completed ''pipeline resource accounting'' PNone
       (PDict [(''stages'', PList accounts), (''total_steps'', PInt (int n + 1))]) PNone ''0.0''))"

text \<open>The accounts are persisted, then \<open>m\<close> ends the run; a run whose accounts are lost fails.\<close>

definition after_summary :: "('s, 'st) menv \<Rightarrow> task \<Rightarrow> string \<Rightarrow> string \<Rightarrow> pyval list \<Rightarrow> ('st, outcome) rthread \<Rightarrow> ('st, outcome) rthread" where
  "after_summary E t agent_name tid accounts m =
     bindT (persist_stage_summary E tid accounts) (\<lambda>kept.
       if kept then m else record_failure E t agent_name tid INTERNAL ''Failed to persist pipeline resource accounting.'')"

definition stage_failure_to_outcome ::
  "('s, 'st) menv \<Rightarrow> task \<Rightarrow> string \<Rightarrow> string \<Rightarrow> pyval list \<Rightarrow> stage_failure \<Rightarrow> ('st, outcome) rthread" where
  "stage_failure_to_outcome E t agent_name tid accounts f =
     after_summary E t agent_name tid accounts (record_failure E t agent_name tid (sf_reason f) (sf_message f))"

section \<open>Hand-off\<close>

definition handoff_message :: "handoff_error \<Rightarrow> string" where
  "handoff_message e =
     (case e of
        Unknown_Schema_Type t \<Rightarrow> ''Unknown schema type '' @ repr_str t @ ''.''
      | Not_Of_Type t \<Rightarrow> ''Payload is not of expected type '' @ repr_str t @ ''.''
      | Not_A_Mapping \<Rightarrow> ''Payload is not a mapping; expected an object schema.''
      | Missing_Field f \<Rightarrow> ''Missing required field '' @ repr_str f @ ''.''
      | Unknown_Field_Type t f \<Rightarrow> ''Unknown schema type '' @ repr_str t @ '' for field '' @ repr_str f @ ''.''
      | Field_Not_Of_Type f t \<Rightarrow> ''Field '' @ repr_str f @ '' is not of expected type '' @ repr_str t @ ''.'')"

definition output_schema :: "stage \<Rightarrow> handoff_schema option" where
  "output_schema s = (case s of Agent_Stage a \<Rightarrow> sg_output a | Group _ \<Rightarrow> None)"

definition input_schema :: "stage \<Rightarrow> handoff_schema option" where
  "input_schema s = (case s of Agent_Stage a \<Rightarrow> sg_input a | Group _ \<Rightarrow> None)"

definition default_schema :: "stage \<Rightarrow> handoff_schema" where
  "default_schema s = (if is_group s then Object [(''stages'', ''list'')] else Object [(''text'', ''any'')])"

definition handoff_checks :: "nat \<Rightarrow> stage \<Rightarrow> stage \<Rightarrow> (string \<times> handoff_schema) list" where
  "handoff_checks k producing consuming =
     (let checks = (case output_schema producing of None \<Rightarrow> [] | Some sc \<Rightarrow> [(''stage '' @ show_nat k @ '' output_schema'', sc)]) @
          (case input_schema consuming of None \<Rightarrow> [] | Some sc \<Rightarrow> [(''stage '' @ show_nat (Suc k) @ '' input_schema'', sc)])
      in if checks = [] then [(''default object shape'', default_schema producing)] else checks)"

fun first_rejection :: "pyval \<Rightarrow> (string \<times> handoff_schema) list \<Rightarrow> (string \<times> handoff_error) option" where
  "first_rejection v [] = None"
| "first_rejection v ((label, sc) # cs) =
     (case Handoff.validate_handoff v sc of Inl e \<Rightarrow> Some (label, e) | Inr _ \<Rightarrow> first_rejection v cs)"

text \<open>What is not a mapping is handed off as the field \<open>text\<close> of one.\<close>

definition handed_off :: "pyval \<Rightarrow> pyval" where
  "handed_off v = (if is_dict v then v else PDict [(''text'', v)])"

definition validate_stage_handoff ::
  "('s, 'st) menv \<Rightarrow> task \<Rightarrow> string \<Rightarrow> string \<Rightarrow> stage \<Rightarrow> stage \<Rightarrow> pyval \<Rightarrow> nat \<Rightarrow> ('st, outcome option) rthread" where
  "validate_stage_handoff E t agent_name tid producing consuming payload k =
     (case first_rejection payload (handoff_checks k producing consuming) of
        Some (label, e) \<Rightarrow> bindT (record_failure E t agent_name tid HANDOFF_FAILED
          (''Hand-off from stage '' @ show_nat k @ '' rejected by '' @ label @ '': '' @ handoff_message e)) (\<lambda>oc. retT (Some oc))
      | None \<Rightarrow>
          bindT (append_locked E tid (step_of Completed (''stage '' @ show_nat k @ '' hand-off validated'')
              (PDict [(''from_stage'', PInt (int k)), (''to_stage'', PInt (int k + 1)), (''shape'', summarise_payload payload)]) PNone PNone ''0.0'')) (\<lambda>kept.
            if kept then retT None
            else bindT (record_failure E t agent_name tid INTERNAL ''Failed to persist stage hand-off validation step.'') (\<lambda>oc. retT (Some oc))))"

section \<open>A stage\<close>

text \<open>The name of a stage in the accounts and its label, or the message for an agent that is not known.\<close>

definition stage_names :: "('s, 'st) menv \<Rightarrow> nat \<Rightarrow> stage \<Rightarrow> string + string \<times> string" where
  "stage_names E k stage =
     (case stage of
        Agent_Stage s \<Rightarrow>
          (case resolve_stage E s of
             None \<Rightarrow> Inl (''Stage '' @ show_nat k @ '' references an unknown agent ('' @ stage_label s @ '').'')
           | Some m \<Rightarrow> Inr (stage_label s, am_name m))
      | Group p \<Rightarrow>
          (case find (\<lambda>s. resolve_stage E s = None) (pl_stages p) of
             Some s \<Rightarrow> Inl (''Stage '' @ show_nat k @ '' (parallel group) references an unknown agent ('' @ stage_label s @ '').'')
           | None \<Rightarrow> (case pl_stages p of [] \<Rightarrow> Inr ([], []) | s # _ \<Rightarrow> Inr (stage_label s, stage_label s))))"

definition stage_envelope :: "task \<Rightarrow> stage \<Rightarrow> task_envelope" where
  "stage_envelope t stage = (case stage of Agent_Stage s \<Rightarrow> envelope_of t s | Group _ \<Rightarrow> tk_envelope t)"

definition stage_exec :: "('s, 'st) menv \<Rightarrow> task \<Rightarrow> string \<Rightarrow> comp_limit \<Rightarrow> pyval \<Rightarrow> stage_spec \<Rightarrow> string \<Rightarrow> duration \<Rightarrow> exec" where
  "stage_exec E t tid cl payload s name start =
     \<lparr>ex_task = stage_task t payload, ex_agent = name, ex_tid = tid, ex_envelope = envelope_of t s,
      ex_tools = build_tool_context (me_tools E) (sg_tools s), ex_start = start, ex_comp = Some cl, ex_worker = False, ex_group = False\<rparr>"

text \<open>The work of a stage: a group that fails ends the run with the accounts of the stages before it.\<close>

definition stage_work ::
  "('s, 'st) menv \<Rightarrow> task \<Rightarrow> string \<Rightarrow> string \<Rightarrow> comp_limit \<Rightarrow> stage \<Rightarrow> string \<Rightarrow> duration \<Rightarrow> pyval \<Rightarrow> pyval list \<Rightarrow> ('st, outcome + (halt + pyval)) rthread" where
  "stage_work E t agent_name tid cl stage name start payload accounts =
     (case stage of
        Group p \<Rightarrow> bindT (run_parallel_group E t p tid cl start payload) (\<lambda>r. case r of
            Inl f \<Rightarrow> bindT (stage_failure_to_outcome E t agent_name tid accounts f) (\<lambda>oc. retT (Inl oc))
          | Inr joined \<Rightarrow> retT (Inr (Inr (stages_value joined))))
      | Agent_Stage s \<Rightarrow> bindT (execute_agent E (stage_exec E t tid cl payload s name start)) (\<lambda>r. retT (Inr r)))"

text \<open>A stage with its boundary marker and its account. A failed agent has recorded its outcome before
  the accounts are appended.\<close>

definition run_stage ::
  "('s, 'st) menv \<Rightarrow> task \<Rightarrow> string \<Rightarrow> string \<Rightarrow> comp_limit \<Rightarrow> nat \<Rightarrow> stage \<Rightarrow> pyval \<Rightarrow> pyval list \<Rightarrow> ('st, outcome + pyval \<times> pyval list) rthread" where
  "run_stage E t agent_name tid cl k stage payload accounts =
     bindT (now E) (\<lambda>start. bindT step_count (\<lambda>started.
     case stage_names E k stage of
       Inl msg \<Rightarrow> bindT (record_failure E t agent_name tid UNKNOWN_AGENT msg) (\<lambda>oc. retT (Inl oc))
     | Inr (label, name) \<Rightarrow>
         bindT (append_locked E tid (step_of Started (''pipeline stage '' @ show_nat k @ '' begin'')
             (PDict [(''stage'', PInt (int k)), (''agent'', PStr label), (''kind'', PStr (if is_group stage then ''parallel'' else ''agent'')),
               (''envelope'', summarise_envelope E (stage_envelope t stage))]) PNone PNone ''0.0'')) (\<lambda>kept.
         if \<not> kept then bindT (record_failure E t agent_name tid INTERNAL (''Failed to persist stage-boundary step for stage '' @ show_nat k @ ''.''))
           (\<lambda>oc. retT (Inl oc))
         else bindT (stage_work E t agent_name tid cl stage name start payload accounts) (\<lambda>w. case w of
             Inl oc \<Rightarrow> retT (Inl oc)
           | Inr r \<Rightarrow> bindT (now E) (\<lambda>end. bindT step_count (\<lambda>n.
               let accounts' = accounts @ [stage_account E k name (end - start) (n - started)] in
               case r of
                 Inl h \<Rightarrow> bindT (after_summary E t agent_name tid accounts' (outcome_of_halt E t agent_name tid h)) (\<lambda>oc. retT (Inl oc))
               | Inr v \<Rightarrow> retT (Inr (v, accounts'))))))))"

section \<open>A pipeline\<close>

fun pipeline_loop ::
  "('s, 'st) menv \<Rightarrow> task \<Rightarrow> string \<Rightarrow> string \<Rightarrow> comp_limit \<Rightarrow> nat \<Rightarrow> stage list \<Rightarrow> pyval \<Rightarrow> pyval list \<Rightarrow> ('st, outcome) rthread" where
  "pipeline_loop E t agent_name tid cl k [] payload accounts =
     after_summary E t agent_name tid accounts (record_success E t agent_name tid payload)"
| "pipeline_loop E t agent_name tid cl k (stage # rest) payload accounts =
     bindT (run_stage E t agent_name tid cl k stage payload accounts) (\<lambda>r. case r of
       Inl oc \<Rightarrow> retT oc
     | Inr (v, accounts') \<Rightarrow>
         (case rest of
            [] \<Rightarrow> pipeline_loop E t agent_name tid cl (Suc k) rest v accounts'
          | consuming # _ \<Rightarrow>
              bindT (validate_stage_handoff E t agent_name tid stage consuming (handed_off v) k) (\<lambda>rejected. case rejected of
                Some oc \<Rightarrow> retT oc
              | None \<Rightarrow> pipeline_loop E t agent_name tid cl (Suc k) rest (handed_off v) accounts')))"

definition run_pipeline :: "('s, 'st) menv \<Rightarrow> task \<Rightarrow> pipeline \<Rightarrow> string \<Rightarrow> ('st, outcome) rthread" where
  "run_pipeline E t p tid =
     (case first_agent E (concat (map stages_of (take 1 (pp_stages p)))) of
        None \<Rightarrow> run_unknown_agent E t tid
      | Some m \<Rightarrow> bindT (now E) (\<lambda>start. begin_run E t (am_name m) tid
          (pipeline_loop E t (am_name m) tid \<lparr>cl_envelope = tk_envelope t, cl_start = start, cl_base = 0\<rparr> 0 (pp_stages p) (tk_payload t) [])))"

section \<open>run\<close>

definition run_task :: "('s, 'st) menv \<Rightarrow> task \<Rightarrow> string \<Rightarrow> ('st, outcome) rthread" where
  "run_task E t tid =
     (case (tk_pipeline t, tk_parallel t) of
        (Some p, _) \<Rightarrow> run_pipeline E t p tid
      | (None, Some p) \<Rightarrow> run_parallel E t p tid
      | (None, None) \<Rightarrow> run_single E t tid)"

record 'st manager =
  mg_seq :: nat
  mg_state :: "'st rstate"

definition trajectory_id :: "task \<Rightarrow> nat \<Rightarrow> string" where
  "trajectory_id t n = tk_id t @ ''#'' @ show_nat n"

definition fresh_run :: "'st rstate \<Rightarrow> 'st rstate" where
  "fresh_run s = s\<lparr>rs_steps := [], rs_cancel := False\<rparr>"

definition new_manager :: "'st \<Rightarrow> 'st manager" where
  "new_manager st = \<lparr>mg_seq = 0, mg_state = \<lparr>rs_store = st, rs_steps = [], rs_ticks = 0, rs_calls = [], rs_cancel = False,
     rs_sessions = 0, rs_open = []\<rparr>\<rparr>"

definition run :: "('s, 'st) menv \<Rightarrow> task \<Rightarrow> 'st manager \<Rightarrow> (exc + outcome) \<times> 'st manager" where
  "run E t mg =
     (case run_proc (run_task E t (trajectory_id t (mg_seq mg))) (fresh_run (mg_state mg)) of
        (r, s) \<Rightarrow> (r, \<lparr>mg_seq = Suc (mg_seq mg), mg_state = s\<rparr>))"

definition load :: "('s, 'st) menv \<Rightarrow> string \<Rightarrow> 'st manager \<Rightarrow> exc + stored option" where
  "load E i mg = ts_load (me_store E) i (rs_store (mg_state mg))"

definition contains_trajectory :: "('s, 'st) menv \<Rightarrow> string \<Rightarrow> 'st manager \<Rightarrow> bool" where
  "contains_trajectory E i mg = ts_contains (me_store E) i (rs_store (mg_state mg))"

end
