(* ===== verification/Manager_Rules.thy ===== *)
theory Manager_Rules
  imports Manager_Run
begin

text \<open>
  What every method of the manager keeps, once its atomic actions keep it: an invariant \<open>I\<close> of the
  state of a run, a relation \<open>R\<close> between the states before and after an action, the exceptions \<open>X\<close> that
  may escape, and the tools \<open>G\<close> that may be called. The rules also say what a method may return: a
  result only if the verifiers accepted it.
\<close>

section \<open>What a result rests on\<close>

definition accepted :: "('s, 'st) menv \<Rightarrow> string \<Rightarrow> task \<Rightarrow> pyval \<Rightarrow> bool" where
  "accepted E agent_name t v \<longleftrightarrow> (\<exists>vf. run_verifier (me_verifiers E) agent_name t v = Inr vf \<and> vf_passed vf)"

text \<open>The join of a group: the position, the agent and the accepted output of every stage, in the order
  in which the stages are declared.\<close>

fun group_result :: "('s, 'st) menv \<Rightarrow> task \<Rightarrow> nat \<Rightarrow> stage_spec list \<Rightarrow> pyval list \<Rightarrow> bool" where
  "group_result E t k [] joined \<longleftrightarrow> joined = []"
| "group_result E t k (s # ss) joined \<longleftrightarrow>
     (\<exists>m v rest. resolve_stage E s = Some m \<and> accepted E (am_name m) t v \<and>
       joined = PList [PInt (int k), PStr (am_name m), v] # rest \<and> group_result E t (Suc k) ss rest)"

definition group_payload :: "task \<Rightarrow> pyval \<Rightarrow> pyval" where
  "group_payload t payload = (if payload = PNone then tk_payload t else payload)"

definition stage_result :: "('s, 'st) menv \<Rightarrow> task \<Rightarrow> stage \<Rightarrow> pyval \<Rightarrow> pyval \<Rightarrow> bool" where
  "stage_result E t stage payload v \<longleftrightarrow>
     (case stage of
        Agent_Stage s \<Rightarrow> (\<exists>m. resolve_stage E s = Some m \<and> accepted E (am_name m) (stage_task t payload) v)
      | Group p \<Rightarrow> (\<exists>joined. v = stages_value joined \<and> group_result E (stage_task t (group_payload t payload)) 0 (pl_stages p) joined))"

text \<open>A hand-off satisfies the schemas that its two stages declare, or the default shape.\<close>

definition handoff_valid :: "stage \<Rightarrow> stage \<Rightarrow> pyval \<Rightarrow> bool" where
  "handoff_valid producing consuming v \<longleftrightarrow>
     (\<forall>sc. output_schema producing = Some sc \<or> input_schema consuming = Some sc \<or>
        output_schema producing = None \<and> input_schema consuming = None \<and> sc = default_schema producing
        \<longrightarrow> Handoff.validate_handoff v sc = Inr ())"

fun pipeline_result :: "('s, 'st) menv \<Rightarrow> task \<Rightarrow> stage list \<Rightarrow> pyval \<Rightarrow> pyval \<Rightarrow> bool" where
  "pipeline_result E t [] payload v \<longleftrightarrow> v = payload"
| "pipeline_result E t [s] payload v \<longleftrightarrow> stage_result E t s payload v"
| "pipeline_result E t (s # s' # ss) payload v \<longleftrightarrow>
     (\<exists>w. stage_result E t s payload w \<and> handoff_valid s s' (handed_off w) \<and> pipeline_result E t (s' # ss) (handed_off w) v)"

definition task_result :: "('s, 'st) menv \<Rightarrow> task \<Rightarrow> pyval \<Rightarrow> bool" where
  "task_result E t v \<longleftrightarrow>
     (case (tk_pipeline t, tk_parallel t) of
        (Some p, _) \<Rightarrow> pipeline_result E t (pp_stages p) (tk_payload t) v
      | (None, Some p) \<Rightarrow> (\<exists>joined. v = stages_value joined \<and> group_result E (stage_task t (tk_payload t)) 0 (pl_stages p) joined)
      | (None, None) \<Rightarrow> (\<exists>m. resolve (me_agents E) (tk_agent t) (tk_capability t) = Some m \<and> accepted E (am_name m) t v))"

lemma first_rejection_None: "first_rejection v cs = None \<longleftrightarrow> (\<forall>c \<in> set cs. Handoff.validate_handoff v (snd c) = Inr ())"
  by (induction v cs rule: first_rejection.induct) (auto split: sum.splits)

lemma handoff_valid_iff: "first_rejection v (handoff_checks k producing consuming) = None \<longleftrightarrow> handoff_valid producing consuming v"
  by (auto simp: first_rejection_None handoff_checks_def handoff_valid_def Let_def split: option.splits)

section \<open>Granted tools\<close>

definition granted :: "task \<Rightarrow> string \<Rightarrow> bool" where
  "granted t name \<longleftrightarrow>
     (if tk_pipeline t = None \<and> tk_parallel t = None then name \<in> set (tk_tools t)
      else (\<exists>s \<in> set (all_stages t). name \<in> set (sg_tools s)))"

section \<open>What a policy denies\<close>

definition denied_selector :: "policy \<Rightarrow> string option \<Rightarrow> capability option \<Rightarrow> bool" where
  "denied_selector p name cap \<longleftrightarrow>
     (case (name, cap) of
        (Some a, _) \<Rightarrow> \<not> permits (po_allow_agents p) (po_deny_agents p) a
      | (None, Some c) \<Rightarrow> \<not> permits (po_allow_capabilities p) (po_deny_capabilities p) c
      | (None, None) \<Rightarrow> False)"

definition denied_tools :: "policy \<Rightarrow> string list \<Rightarrow> bool" where
  "denied_tools p names \<longleftrightarrow> (\<exists>n \<in> set names. \<not> permits (po_allow_tools p) (po_deny_tools p) n)"

text \<open>A task is denied when its policy denies an agent, a capability or a tool that the task or one of
  its stages names.\<close>

definition denied :: "task \<Rightarrow> bool" where
  "denied t \<longleftrightarrow>
     (case tk_policy t of None \<Rightarrow> False
      | Some p \<Rightarrow> denied_selector p (tk_agent t) (tk_capability t) \<or> denied_tools p (tk_tools t) \<or>
          (\<exists>s \<in> set (all_stages t). denied_selector p (sg_agent s) (sg_capability s) \<or> denied_tools p (sg_tools s)))"

lemma selector_checks_denied: "(\<exists>c \<in> set (selector_checks p pre name cap). \<not> pd_allowed (fst c)) \<longleftrightarrow> denied_selector p name cap"
  by (auto simp: selector_checks_def denied_selector_def checks_allowed split: option.split)

lemma tool_checks_denied: "(\<exists>c \<in> set (tool_checks p pre names). \<not> pd_allowed (fst c)) \<longleftrightarrow> denied_tools p names"
  by (auto simp: tool_checks_def denied_tools_def checks_allowed)

lemma stage_checks_denied: "(\<exists>c \<in> set (stage_checks p s). \<not> pd_allowed (fst c)) \<longleftrightarrow>
    denied_selector p (sg_agent s) (sg_capability s) \<or> denied_tools p (sg_tools s)"
  by (simp only: stage_checks_def set_append bex_Un selector_checks_denied tool_checks_denied)

lemma task_checks_denied: "(\<exists>c \<in> set (task_checks p t). \<not> pd_allowed (fst c)) \<longleftrightarrow>
    denied_selector p (tk_agent t) (tk_capability t) \<or> denied_tools p (tk_tools t) \<or>
    (\<exists>s \<in> set (all_stages t). denied_selector p (sg_agent s) (sg_capability s) \<or> denied_tools p (sg_tools s))"
proof -
  have "(\<exists>c \<in> set (concat (map (stage_checks p) ss)). \<not> pd_allowed (fst c)) \<longleftrightarrow>
      (\<exists>s \<in> set ss. \<exists>c \<in> set (stage_checks p s). \<not> pd_allowed (fst c))" for ss by (induction ss) auto
  then show ?thesis
    by (simp only: task_checks_def set_append bex_Un selector_checks_denied tool_checks_denied stage_checks_denied disj_assoc)
qed

lemma denied_found:
  assumes "denied t"
  shows "\<exists>p c. tk_policy t = Some p \<and> find (\<lambda>c. \<not> pd_allowed (fst c)) (task_checks p t) = Some c"
proof -
  obtain p where p: "tk_policy t = Some p" "\<exists>c \<in> set (task_checks p t). \<not> pd_allowed (fst c)"
    using assms unfolding task_checks_denied by (auto simp: denied_def split: option.splits)
  then show ?thesis by (metis (no_types, lifting) find_None_iff not_None_eq)
qed

text \<open>A tool that a task grants and its policy denies makes the task a denied one.\<close>

lemma granted_permitted: "\<not> denied t \<Longrightarrow> granted t n \<Longrightarrow> tk_policy t = Some p \<Longrightarrow> permits (po_allow_tools p) (po_deny_tools p) n"
  by (auto simp: denied_def granted_def denied_tools_def split: if_splits)

section \<open>The rules\<close>

definition same_record :: "'st rstate \<Rightarrow> 'st rstate \<Rightarrow> bool" where
  "same_record s t \<longleftrightarrow> rs_store t = rs_store s \<and> rs_steps t = rs_steps s \<and> rs_calls t = rs_calls s"

text \<open>An outcome has a failure only, or a result only, whose value satisfies \<open>V\<close>.\<close>

definition failed :: "outcome \<Rightarrow> bool" where
  "failed oc \<longleftrightarrow> oc_result oc = None \<and> oc_failure oc \<noteq> None"

definition sealed :: "(pyval \<Rightarrow> bool) \<Rightarrow> outcome \<Rightarrow> bool" where
  "sealed V oc \<longleftrightarrow> failed oc \<or> oc_failure oc = None \<and> (\<exists>vr. oc_result oc = Some vr \<and> V (vr_output vr))"

definition failed_opt :: "outcome option \<Rightarrow> bool" where
  "failed_opt r \<longleftrightarrow> (\<forall>oc. r = Some oc \<longrightarrow> failed oc)"

definition failed_halt :: "halt \<Rightarrow> bool" where
  "failed_halt h \<longleftrightarrow> (\<forall>oc. h = Recorded oc \<longrightarrow> failed oc)"

definition halts_or :: "('b \<Rightarrow> bool) \<Rightarrow> halt + 'b \<Rightarrow> bool" where
  "halts_or V r \<longleftrightarrow> (case r of Inl h \<Rightarrow> failed_halt h | Inr v \<Rightarrow> V v)"

lemma outcome_preds [simp]:
  "failed_opt None" "failed_opt (Some oc) = failed oc" "failed_halt (Recorded oc) = failed oc" "failed_halt (Deferred f)"
  "halts_or V (Inl h) = failed_halt h" "halts_or V (Inr v) = V v" "failed oc \<Longrightarrow> sealed W oc"
  by (simp_all add: failed_opt_def failed_halt_def halts_or_def sealed_def)

locale run_rules = kept_relation I R for I :: "'st rstate \<Rightarrow> bool" and R :: "'st rstate \<Rightarrow> 'st rstate \<Rightarrow> bool" +
  fixes E :: "('s, 'st) menv" and X :: "exc \<Rightarrow> bool" and G :: "string \<Rightarrow> bool"
  assumes other_acts: "I s \<Longrightarrow> same_record s t \<Longrightarrow> I t \<and> R s t"
    and append_acts: "I s \<Longrightarrow> sr_index r = int (length (rs_steps s)) \<Longrightarrow> ts_append (me_store E) tid r (rs_store s) = (res, st) \<Longrightarrow>
      I (s\<lparr>rs_steps := rs_steps s @ [r], rs_store := st\<rparr>) \<and> R s (s\<lparr>rs_steps := rs_steps s @ [r], rs_store := st\<rparr>) \<and>
      (\<forall>e. res = Inl e \<longrightarrow> is_store_error e \<or> X e)"
    and outcome_acts: "I s \<Longrightarrow> ts_outcome (me_store E) tid oc (rs_store s) = (res, st) \<Longrightarrow>
      I (s\<lparr>rs_store := st\<rparr>) \<and> R s (s\<lparr>rs_store := st\<rparr>) \<and> (\<forall>e. res = Inl e \<longrightarrow> is_store_error e \<or> X e)"
    and begin_acts: "I s \<Longrightarrow> tid \<noteq> [] \<Longrightarrow> ts_begin (me_store E) tid i a (rs_store s) = (res, st) \<Longrightarrow>
      I (s\<lparr>rs_store := st\<rparr>) \<and> R s (s\<lparr>rs_store := st\<rparr>) \<and> (\<forall>e. res = Inl e \<longrightarrow> is_store_error e \<or> X e)"
    and tool_acts: "I s \<Longrightarrow> G name \<Longrightarrow> I (s\<lparr>rs_calls := rs_calls s @ [(name, args)]\<rparr>) \<and> R s (s\<lparr>rs_calls := rs_calls s @ [(name, args)]\<rparr>)"
    and indexed_steps: "I s \<Longrightarrow> indexed (rs_steps s) \<or> (\<forall>e. X e)"
    and verifiers_raise: "run_verifier (me_verifiers E) a tk v = Inl e \<Longrightarrow> X e"
    and tools_known: "tools_named (me_tools E) \<or> (\<forall>n. G n)"
begin

abbreviation ok :: "('a \<Rightarrow> bool) \<Rightarrow> ('st, 'a) rthread \<Rightarrow> bool" where
  "ok Q m \<equiv> guarded I R (okT X Q) m"

text \<open>Inside a \<open>try\<close> any exception may be raised.\<close>

abbreviation ok_try :: "('a \<Rightarrow> bool) \<Rightarrow> ('st, 'a) rthread \<Rightarrow> bool" where
  "ok_try Q m \<equiv> guarded I R (okT (\<lambda>_. True) Q) m"

lemma ok_weaken: "ok P m \<Longrightarrow> (\<And>x. P x \<Longrightarrow> Q x) \<Longrightarrow> ok Q m"
  by (erule guarded_okT_mono) auto

lemma ok_inner: "ok Q m \<Longrightarrow> ok_try Q m"
  by (erule guarded_okT_mono) auto

lemma ok_other: "(\<And>s. same_record s (snd (f s))) \<Longrightarrow> guarded I R (okT Y (\<lambda>_. True)) (updT f)"
  by (rule guarded_updT) (use other_acts in blast)

lemma ok_simple [simp]:
  "guarded I R (okT Y (\<lambda>_. True)) (now E)" "guarded I R (okT Y (\<lambda>_. True)) step_count"
  "guarded I R (okT Y (\<lambda>_. True)) cancel_set" "guarded I R (okT Y (\<lambda>_. True)) open_session"
  "guarded I R (okT Y (\<lambda>_. True)) (close_session n)"
  by (auto simp: now_def step_count_def cancel_set_def open_session_def close_session_def same_record_def intro!: ok_other)

text \<open>A simple action and what follows it.\<close>

lemma ok_now: "(\<And>t. guarded I R (okT Y Q) (f t)) \<Longrightarrow> guarded I R (okT Y Q) (bindT (now E) f)"
  by (rule guarded_bindT [where P = "\<lambda>_. True"]) simp_all

lemma ok_count: "(\<And>n. guarded I R (okT Y Q) (f n)) \<Longrightarrow> guarded I R (okT Y Q) (bindT step_count f)"
  by (rule guarded_bindT [where P = "\<lambda>_. True"]) simp_all

lemma ok_append: "ok (\<lambda>_. True) (append_locked E tid r)"
  unfolding append_locked_def
proof (rule guarded_actT)
  fix s assume s: "I s"
  obtain res st where app: "ts_append (me_store E) tid (r\<lparr>sr_index := int (length (rs_steps s))\<rparr>) (rs_store s) = (res, st)" by force
  show "I (snd (let r' = r\<lparr>sr_index := int (length (rs_steps s))\<rparr>; s' = s\<lparr>rs_steps := rs_steps s @ [r']\<rparr> in
      case ts_append (me_store E) tid r' (rs_store s) of (Inr u, st) \<Rightarrow> (Inr True, s'\<lparr>rs_store := st\<rparr>)
      | (Inl e, st) \<Rightarrow> (if is_store_error e then Inr False else Inl e, s'\<lparr>rs_store := st\<rparr>))) \<and>
    R s (snd (let r' = r\<lparr>sr_index := int (length (rs_steps s))\<rparr>; s' = s\<lparr>rs_steps := rs_steps s @ [r']\<rparr> in
      case ts_append (me_store E) tid r' (rs_store s) of (Inr u, st) \<Rightarrow> (Inr True, s'\<lparr>rs_store := st\<rparr>)
      | (Inl e, st) \<Rightarrow> (if is_store_error e then Inr False else Inl e, s'\<lparr>rs_store := st\<rparr>))) \<and>
    okT X (\<lambda>_. True) (fst (let r' = r\<lparr>sr_index := int (length (rs_steps s))\<rparr>; s' = s\<lparr>rs_steps := rs_steps s @ [r']\<rparr> in
      case ts_append (me_store E) tid r' (rs_store s) of (Inr u, st) \<Rightarrow> (Inr True, s'\<lparr>rs_store := st\<rparr>)
      | (Inl e, st) \<Rightarrow> (if is_store_error e then Inr False else Inl e, s'\<lparr>rs_store := st\<rparr>)))"
    using append_acts [OF s _ app] by (cases res) (auto simp: app Let_def)
qed

lemma ok_appended: "(\<And>b. ok Q (f b)) \<Longrightarrow> ok Q (bindT (append_locked E tid r) f)"
  by (rule guarded_bindT [OF ok_append])

lemma ok_store_error:
  assumes "guarded I R (okT (\<lambda>e. is_store_error e \<or> X e) Q) m" "\<And>e. ok Q (h e)"
  shows "ok Q (on_store_error m h)"
  unfolding on_store_error_def
  by (rule guarded_tryT [OF assms(1)]) (auto intro: assms(2) guarded_raiseT)

lemma ok_store_outcome: "guarded I R (okT (\<lambda>e. is_store_error e \<or> X e) (\<lambda>_. True)) (store_outcome E tid oc)"
  unfolding store_outcome_def
proof (rule guarded_actT)
  fix s assume s: "I s"
  obtain res st where op: "ts_outcome (me_store E) tid oc (rs_store s) = (res, st)" by force
  show "I (snd (case ts_outcome (me_store E) tid oc (rs_store s) of (r, st) \<Rightarrow> (r, s\<lparr>rs_store := st\<rparr>))) \<and>
    R s (snd (case ts_outcome (me_store E) tid oc (rs_store s) of (r, st) \<Rightarrow> (r, s\<lparr>rs_store := st\<rparr>))) \<and>
    okT (\<lambda>e. is_store_error e \<or> X e) (\<lambda>_. True) (fst (case ts_outcome (me_store E) tid oc (rs_store s) of (r, st) \<Rightarrow> (r, s\<lparr>rs_store := st\<rparr>)))"
    using outcome_acts [OF s op] by (cases res) (simp_all add: op)
qed

lemma ok_store_begin: "tid \<noteq> [] \<Longrightarrow> guarded I R (okT (\<lambda>e. is_store_error e \<or> X e) (\<lambda>_. True)) (store_begin E tid i a)"
  unfolding store_begin_def
proof (rule guarded_actT)
  fix s assume tid: "tid \<noteq> []" and s: "I s"
  obtain res st where op: "ts_begin (me_store E) tid i a (rs_store s) = (res, st)" by force
  show "I (snd (case ts_begin (me_store E) tid i a (rs_store s) of (r, st) \<Rightarrow> (r, s\<lparr>rs_store := st\<rparr>))) \<and>
    R s (snd (case ts_begin (me_store E) tid i a (rs_store s) of (r, st) \<Rightarrow> (r, s\<lparr>rs_store := st\<rparr>))) \<and>
    okT (\<lambda>e. is_store_error e \<or> X e) (\<lambda>_. True) (fst (case ts_begin (me_store E) tid i a (rs_store s) of (r, st) \<Rightarrow> (r, s\<lparr>rs_store := st\<rparr>)))"
    using begin_acts [OF s tid op] by (cases res) (simp_all add: op)
qed

lemma ok_trajectory: "ok (\<lambda>_. True) (build_trajectory t a)"
  unfolding build_trajectory_def
proof (rule guarded_bindT [where P = "\<lambda>ss. indexed ss \<or> (\<forall>e. X e)"])
  show "ok (\<lambda>ss. indexed ss \<or> (\<forall>e. X e)) steps_so_far"
    unfolding steps_so_far_def by (rule guarded_updT) (use other_acts indexed_steps in \<open>auto simp: same_record_def\<close>)
  fix steps assume "indexed steps \<or> (\<forall>e. X e)"
  then show "ok (\<lambda>_. True) (liftT (trajectory_init \<lparr>tj_version = Trajectory_V1, tj_task_id = tk_id t, tj_agent_name = a, tj_steps = steps\<rparr>))"
    by (intro guarded_liftT) (metis okT_def sum.case_eq_if trajectory.select_convs(4) trajectory_init_iff sum.collapse(2) okT_simps(2))
qed

lemma ok_internal: "ok failed (liftT (build_internal_failure t a msg))"
  by (rule guarded_liftT) (simp add: build_internal_failure_def mk_outcome_def value_error_if_def failed_def)

lemma ok_record_failure: "ok failed (record_failure E t a tid reason msg)"
  unfolding record_failure_def
proof (rule guarded_bindT [where P = "\<lambda>_. True"])
  show "ok (\<lambda>_. True) (on_store_error (bindT (store_outcome E tid (stored_failure reason msg)) (\<lambda>_. retT None))
             (\<lambda>e. retT (Some (''Failed to persist failure outcome ('' @ reason_value reason @ ''): '' @ exc_text e))))"
    by (rule ok_store_error [OF guarded_bindT [OF ok_store_outcome]]) (simp_all add: guarded_retT)
  fix refused :: "string option"
  show "ok failed (case refused of Some msg \<Rightarrow> liftT (build_internal_failure t a msg)
        | None \<Rightarrow> bindT (build_trajectory t a) (\<lambda>tj.
            liftT (mk_outcome None (Some \<lparr>fl_task_id = tk_id t, fl_reason = reason, fl_message = msg, fl_trajectory = tj\<rparr>) (Some tid))))"
    by (cases refused) (auto intro!: ok_internal guarded_bindT [OF ok_trajectory] guarded_liftT
        simp: mk_outcome_def value_error_if_def failed_def)
qed

lemma ok_record_success:
  assumes "V v"
  shows "ok (sealed V) (record_success E t a tid v)"
  unfolding record_success_def
proof (rule guarded_bindT [where P = "\<lambda>_. True"])
  show "ok (\<lambda>_. True) (on_store_error (bindT (store_outcome E tid (stored_verified v)) (\<lambda>_. retT None))
             (\<lambda>e. retT (Some (''Failed to persist verified outcome: '' @ exc_text e))))"
    by (rule ok_store_error [OF guarded_bindT [OF ok_store_outcome]]) (simp_all add: guarded_retT)
  fix refused :: "string option"
  show "ok (sealed V) (case refused of Some msg \<Rightarrow> record_failure E t a tid INTERNAL msg
        | None \<Rightarrow> bindT (build_trajectory t a) (\<lambda>tj.
            liftT (mk_outcome (Some \<lparr>vr_version = Result_V1, vr_task_id = tk_id t, vr_output = v, vr_trajectory = tj\<rparr>) None (Some tid))))"
    using assms by (cases refused) (auto intro!: ok_weaken [OF ok_record_failure] guarded_bindT [OF ok_trajectory] guarded_liftT
        simp: mk_outcome_def value_error_if_def sealed_def)
qed

section \<open>One agent\<close>

lemma ok_halt: "ok (halts_or V) (halt_with E Y reason msg)"
  unfolding halt_with_def deferred_or_recorded_def
  by (auto intro!: guarded_if guarded_retT guarded_bindT [OF ok_record_failure])

lemma ok_fail: "ok (halts_or V) (fail_run E Y n reason msg)"
  unfolding fail_run_def by (rule guarded_thenT [where P = "\<lambda>_. True"]) (simp_all add: ok_halt)

lemma ok_cancel: "ok (halts_or V) (cancel_run E Y n se reason msg)"
  unfolding cancel_run_def
  by (intro ok_appended guarded_if guarded_thenT [where P = "\<lambda>_. True"] ok_halt ok_fail) simp

lemma ok_persist: "ok failed_opt (persist_step E Y d detail elapsed)"
  unfolding persist_step_def
  by (intro ok_count ok_appended guarded_if guarded_retT guarded_bindT [OF ok_record_failure]) simp_all

lemma ok_run_tool:
  assumes "G name"
  shows "ok_try (\<lambda>_. True) (run_tool E name args)"
proof -
  have "ok_try (\<lambda>_. True) (call_tool E name args)"
    unfolding call_tool_def by (rule guarded_actT) (use tool_acts assms in \<open>auto simp: okT_def split: sum.splits\<close>)
  then show ?thesis unfolding run_tool_def
    by (intro guarded_tryT [where Y = "\<lambda>_. True"] guarded_bindT [where P = "\<lambda>_. True"] guarded_retT guarded_if guarded_raiseT) simp_all
qed

lemma ok_mediate:
  assumes "\<And>name. available (ex_tools Y) name \<Longrightarrow> G name"
  shows "ok_try (\<lambda>_. True) (mediate_tool E Y name args)"
proof -
  have app: "ok_try (\<lambda>_. True) (bindT (append_locked E tid r) f)" if "\<And>b. ok_try (\<lambda>_. True) (f b)" for tid r and f :: "bool \<Rightarrow> ('st, 'b) rthread"
    by (rule guarded_bindT [OF ok_inner [OF ok_append]]) (rule that)
  have tool: "available (ex_tools Y) name \<Longrightarrow> ok_try (\<lambda>_. True) (run_tool E name args)"
    by (rule ok_run_tool) (rule assms)
  show ?thesis unfolding mediate_tool_def
    by (auto intro!: app guarded_if guarded_retT guarded_bindT [OF tool] split: sum.split)
qed

lemma ok_try_now: "(\<And>t. ok_try Q (f t)) \<Longrightarrow> ok_try Q (bindT (now E) f)"
  by (rule ok_now)

lemma ok_first_of: "(\<And>m. m \<in> set ms \<Longrightarrow> ok (\<lambda>_. True) m) \<Longrightarrow> ok (\<lambda>_. True) (first_of ms)"
  by (induction ms) (auto intro!: guarded_retT guarded_bindT [where P = "\<lambda>_. True"] split: option.split)

lemma ok_guard: "ok (\<lambda>_. True) (turn_guard E Y)"
proof -
  have "ok (\<lambda>_. True) (check_cancel Y)"
    unfolding check_cancel_def by (intro guarded_if guarded_retT guarded_bindT [where P = "\<lambda>_. True"]) simp_all
  moreover have "ok (\<lambda>_. True) (check_comp_time E Y)" "ok (\<lambda>_. True) (check_time E Y)" "ok (\<lambda>_. True) (check_comp_steps Y)"
    unfolding check_comp_time_def check_time_def check_comp_steps_def
    by (auto intro!: ok_now ok_count guarded_retT split: option.split)
  ultimately show ?thesis unfolding turn_guard_def by (intro ok_first_of) auto
qed

lemma ok_loop:
  assumes "\<And>name. available (ex_tools Y) name \<Longrightarrow> G name"
  shows "ok_try (halts_or (\<lambda>_. True)) (agent_loop E Y n left se s)"
proof (induction left arbitrary: se s rule: less_induct)
  case (less left)
  let ?Q = "halts_or (\<lambda>_. True)"
  have cancel: "ok_try ?Q (cancel_run E Y n se' reason msg)" for se' reason msg by (rule ok_inner [OF ok_cancel])
  have fail: "ok_try ?Q (fail_run E Y n reason msg)" for reason msg by (rule ok_inner [OF ok_fail])
  note guard = guarded_bindT [OF ok_inner [OF ok_guard [of Y]]]
  show ?case
  proof (cases left)
    case 0
    then show ?thesis by (auto intro!: guard cancel split: option.split)
  next
    case (Suc l)
    have loop: "ok_try ?Q (agent_loop E Y n l' se' s')" if "l' \<le> l" for l' se' s'
      using less.IH that Suc by simp
    have stepped: "ok_try ?Q (bindT (persist_step E Y d detail elapsed) (\<lambda>lost. case lost of
        None \<Rightarrow> agent_loop E Y n l se' No_Value
      | Some oc \<Rightarrow> if ex_worker Y then halt_with E Y INTERNAL
            (case oc_failure oc of Some f \<Rightarrow> fl_message f | None \<Rightarrow> ''Failed to persist step.'')
          else retT (Inl (Recorded oc))))" for d detail elapsed se'
      by (rule guarded_bindT [OF ok_inner [OF ok_persist]])
        (auto intro!: loop guarded_if guarded_retT ok_inner [OF ok_halt] split: option.split)
    have tool: "ok_try ?Q (bindT (mediate_tool E Y name args) (\<lambda>d. case d of
        None \<Rightarrow> fail_run E Y n INTERNAL ''Tool mediation could not be durably recorded.''
      | Some dv \<Rightarrow> agent_loop E Y n (l - (dv_consumed dv - Suc 0)) se' (Tool_Value (dv_result dv))))" for name args se'
      by (rule guarded_bindT [OF ok_mediate [OF assms]]) (auto intro!: loop fail split: option.split)
    show ?thesis unfolding Suc agent_loop.simps
      by (auto intro!: guard cancel fail ok_try_now guarded_if guarded_retT stepped tool
          split: option.split prod.split reply.split item.split)
  qed
qed

lemma ok_start: "ok (halts_or (\<lambda>_. True)) (start_agent E Y)"
  unfolding start_agent_def
proof (rule guarded_tryT [where Y = "\<lambda>_. True"])
  show "ok_try (halts_or (\<lambda>_. True)) (case get_by_name (me_agents E) (ex_agent Y) of
         None \<Rightarrow> halt_with E Y UNKNOWN_AGENT (''No agent registered with name '' @ repr_str (ex_agent Y) @ ''.'')
       | Some m \<Rightarrow> bindT (liftT (bk_session (me_backend E) m (tk_payload (ex_task Y)) (te_max_steps (ex_envelope Y))
             (ex_tools Y) (te_timeout (ex_envelope Y)))) (\<lambda>se. retT (Inr se)))"
    by (auto intro!: ok_inner [OF ok_halt] guarded_bindT [where P = "\<lambda>_. True"] guarded_liftT guarded_retT
        simp: okT_def split: option.split sum.split)
qed (rule ok_halt)

lemma ok_verify: "ok (halts_or (accepted E (ex_agent Y) (ex_task Y))) (verify_output E Y n v)"
  unfolding verify_output_def
proof (rule guarded_bindT [where P = "\<lambda>vf. run_verifier (me_verifiers E) (ex_agent Y) (ex_task Y) v = Inr vf"])
  show "ok (\<lambda>vf. run_verifier (me_verifiers E) (ex_agent Y) (ex_task Y) v = Inr vf)
      (liftT (run_verifier (me_verifiers E) (ex_agent Y) (ex_task Y) v))"
    by (rule guarded_liftT) (use verifiers_raise in \<open>auto simp: okT_def split: sum.split\<close>)
qed (auto intro!: guarded_if ok_fail guarded_thenT [where P = "\<lambda>_. True"] guarded_retT simp: accepted_def)

lemma ok_drive:
  assumes "\<And>name. available (ex_tools Y) name \<Longrightarrow> G name"
  shows "ok (halts_or (accepted E (ex_agent Y) (ex_task Y))) (drive_agent E Y se)"
proof -
  have loop: "ok (halts_or (\<lambda>_. True)) (tryT (agent_loop E Y n l se s) (\<lambda>e. fail_run E Y n AGENT_ERROR (''Agent raised an exception: '' @ exc_text e)))"
    for n l s by (rule guarded_tryT [OF ok_loop [OF assms] ok_fail])
  show ?thesis unfolding drive_agent_def
    by (rule guarded_bindT [where P = "\<lambda>_. True"], simp)
      (rule guarded_bindT [OF loop], auto intro!: ok_verify guarded_retT split: sum.split)
qed

lemma ok_execute:
  "(\<And>name. available (ex_tools Y) name \<Longrightarrow> G name) \<Longrightarrow>
    ok (halts_or (accepted E (ex_agent Y) (ex_task Y))) (execute_agent E Y)"
  unfolding execute_agent_def
  by (rule guarded_bindT [OF ok_start]) (auto intro!: ok_drive guarded_retT split: sum.split)

section \<open>Runs\<close>

lemma known_granted: "\<forall>n \<in> set names. G n \<Longrightarrow> available (build_tool_context (me_tools E) names) name \<Longrightarrow> G name"
  using available_granted tools_known by blast

lemma ok_violation: "ok failed (policy_violation E t a tid msg)"
  unfolding policy_violation_def by (intro ok_appended guarded_if ok_record_failure)

lemma ok_gate: "ok failed_opt (policy_gate E t a tid)"
proof -
  have "ok failed_opt (evaluate_task_policy E t a tid p)" for p
    unfolding evaluate_task_policy_def
    by (auto intro!: ok_appended guarded_if guarded_retT guarded_bindT [OF ok_violation] guarded_bindT [OF ok_record_failure] split: option.split)
  then show ?thesis unfolding policy_gate_def by (auto intro: guarded_retT split: option.split)
qed

lemma ok_unknown: "tid \<noteq> [] \<Longrightarrow> ok failed (run_unknown_agent E t tid)"
  unfolding run_unknown_agent_def Let_def
proof (rule guarded_bindT [where P = "\<lambda>_. True"])
  assume "tid \<noteq> []"
  then show "ok (\<lambda>_. True) (on_store_error
          (thenT (store_begin E tid (tk_id t) (case tk_agent t of None \<Rightarrow> [] | Some a \<Rightarrow> a))
            (bindT (store_outcome E tid (stored_failure UNKNOWN_AGENT (''No agent registered for selector '' @ selector_repr t @ ''.''))) (\<lambda>_. retT None)))
          (\<lambda>e. retT (Some (''Could not persist unknown-agent failure: '' @ exc_text e))))"
    by (rule ok_store_error [OF guarded_thenT [OF ok_store_begin guarded_bindT [OF ok_store_outcome]]]) (simp_all add: guarded_retT)
qed (auto intro!: ok_internal guarded_liftT simp: mk_outcome_def value_error_if_def failed_def split: option.split)

lemma ok_begin:
  assumes "ok (sealed V) body" "tid \<noteq> []"
  shows "ok (sealed V) (begin_run E t a tid body)"
  unfolding begin_run_def
proof (rule guarded_bindT [where P = "\<lambda>_. True"])
  show "ok (\<lambda>_. True) (on_store_error (bindT (store_begin E tid (tk_id t) a) (\<lambda>_. retT None)) (\<lambda>e. retT (Some (exc_text e))))"
    by (rule ok_store_error [OF guarded_bindT [OF ok_store_begin]]) (simp_all add: guarded_retT assms(2))
qed (auto intro!: ok_weaken [OF ok_internal] guarded_bindT [OF ok_gate] guarded_retT assms(1) split: option.split)

lemma ok_halt_outcome: "failed_halt h \<Longrightarrow> ok failed (outcome_of_halt E t a tid h)"
  by (cases h) (simp_all add: outcome_of_halt_def guarded_retT ok_record_failure)

lemma ok_single:
  assumes "\<forall>n \<in> set (tk_tools t). G n" and tid: "tid \<noteq> []"
  shows "ok (sealed (\<lambda>v. \<exists>m. resolve (me_agents E) (tk_agent t) (tk_capability t) = Some m \<and> accepted E (am_name m) t v)) (run_single E t tid)"
proof (cases "resolve (me_agents E) (tk_agent t) (tk_capability t)")
  case None
  then show ?thesis by (simp add: run_single_def ok_weaken [OF ok_unknown [OF tid]])
next
  case (Some m)
  have "ok (halts_or (accepted E (am_name m) t)) (execute_agent E (single_exec E t (am_name m) tid start))" for start
    using ok_execute [of "single_exec E t (am_name m) tid start"] known_granted [OF assms(1)] by (simp add: single_exec_def)
  note run = guarded_bindT [OF this]
  show ?thesis unfolding run_single_def Some option.case
    by (intro ok_now ok_begin run tid) (auto intro!: ok_weaken [OF ok_halt_outcome] ok_record_success split: sum.splits simp: halts_or_def)
qed

text \<open>A group.\<close>

definition resolved_as :: "stage_spec \<Rightarrow> stage_spec \<times> string \<times> duration \<Rightarrow> bool" where
  "resolved_as s r \<longleftrightarrow> fst r = s \<and> (\<exists>m. resolve_stage E s = Some m \<and> fst (snd r) = am_name m)"

lemma ok_begin_stages: "ok (\<lambda>r. \<forall>rs. r = Inr rs \<longrightarrow> list_all2 resolved_as ss rs) (begin_stages E t tid k ss)"
proof (induction ss arbitrary: k)
  case Nil
  then show ?case by (simp add: guarded_retT)
next
  case (Cons s ss)
  show ?case
  proof (cases "resolve_stage E s")
    case None
    then show ?thesis by (simp add: guarded_retT)
  next
    case (Some m)
    show ?thesis unfolding begin_stages.simps Some option.case
      by (intro ok_appended guarded_if ok_now guarded_bindT [OF Cons])
        (auto intro!: guarded_retT simp: resolved_as_def Some split: sum.split)
  qed
qed

lemma joins_joiner: "joins joiner"
  using other_acts by (auto simp: joins_def joiner_def same_record_def split: sum.split)

lemma ok_dispatch:
  assumes "\<And>Y name. Y \<in> set Ys \<Longrightarrow> available (ex_tools Y) name \<Longrightarrow> G name"
  shows "ok (\<lambda>xs. list_all2 (\<lambda>Y x. halts_or (accepted E (ex_agent Y) (ex_task Y)) x) Ys xs) (dispatch_stages E Ys)"
  unfolding dispatch_stages_def
proof (rule guarded_updT)
  fix s assume s: "I s"
  define sched where "sched = me_schedule E (length (rs_steps s))"
  define ps where "ps = map (execute_agent E) Ys"
  define Q where "Q = (\<lambda>i. okT X (halts_or (accepted E (ex_agent (Ys ! i)) (ex_task (Ys ! i)))))"
  obtain rs s' where run: "run_threads joiner sched ps s = (rs, s')" by force
  have "\<forall>i < length ps. guarded I R (Q i) (ps ! i)"
    unfolding ps_def Q_def using assms by (auto intro!: ok_execute) (metis nth_mem)
  from threads_guarded [OF joins_joiner this s, of sched]
  have kept: "I s' \<and> R s s'" and each: "\<forall>i < length ps. Q i (rs ! i)" by (simp_all add: run)
  have len: "length rs = length Ys" by (metis run run_threads_length fst_conv ps_def length_map)
  have "list_all2 (\<lambda>Y x. halts_or (accepted E (ex_agent Y) (ex_task Y)) x) Ys (map raised_failure rs)"
    using each len unfolding list_all2_conv_all_nth
    by (auto simp: ps_def Q_def raised_failure_def okT_def split: sum.splits)
  then show "I (snd (case run_threads joiner (me_schedule E (length (rs_steps s))) (map (execute_agent E) Ys) s of (rs, s') \<Rightarrow> (map raised_failure rs, s'))) \<and>
      R s (snd (case run_threads joiner (me_schedule E (length (rs_steps s))) (map (execute_agent E) Ys) s of (rs, s') \<Rightarrow> (map raised_failure rs, s'))) \<and>
      list_all2 (\<lambda>Y x. halts_or (accepted E (ex_agent Y) (ex_task Y)) x) Ys
        (fst (case run_threads joiner (me_schedule E (length (rs_steps s))) (map (execute_agent E) Ys) s of (rs, s') \<Rightarrow> (map raised_failure rs, s')))"
    using kept by (simp add: run [unfolded sched_def ps_def])
qed

definition join_spec :: "task \<Rightarrow> nat \<Rightarrow> stage_spec list \<Rightarrow> bool \<Rightarrow> pyval list \<times> halt option \<times> pyval list \<Rightarrow> bool" where
  "join_spec T k ss broken r \<longleftrightarrow> (case r of (joined, f, _) \<Rightarrow>
     (f = None \<and> \<not> broken \<longrightarrow> group_result E T k ss joined) \<and> (\<forall>h. f = Some h \<longrightarrow> failed_halt h))"

lemma ok_join:
  assumes "list_all2 resolved_as ss rs" "list_all2 (\<lambda>r x. halts_or (accepted E (fst (snd r)) T) x) rs xs"
  shows "ok (join_spec T k ss broken) (join_results E k rs xs broken)"
  using assms
proof (induction ss arbitrary: k rs xs broken)
  case Nil
  then show ?case by (simp add: guarded_retT join_spec_def)
next
  case (Cons s ss)
  obtain r rs' where rs: "rs = r # rs'" "resolved_as s r" "list_all2 resolved_as ss rs'"
    using Cons.prems(1) by (auto simp: list_all2_Cons1)
  obtain x xs' where xs: "xs = x # xs'" "halts_or (accepted E (fst (snd r)) T) x"
    "list_all2 (\<lambda>r x. halts_or (accepted E (fst (snd r)) T) x) rs' xs'"
    using Cons.prems(2) by (auto simp: rs(1) list_all2_Cons1)
  obtain a start where r: "r = (s, a, start)" using rs(2) by (cases r) (auto simp: resolved_as_def)
  note IH = guarded_bindT [OF Cons.IH [OF rs(3) xs(3)]]
  show ?case unfolding rs(1) xs(1) r join_results.simps
    by (rule ok_now, cases x)
      (auto intro!: IH guarded_retT simp: join_spec_def Let_def xs(2) r split: prod.splits,
       use rs(2) xs(2) in \<open>auto simp: resolved_as_def r\<close>)
qed

lemma ok_group:
  assumes "\<forall>s \<in> set (pl_stages p). \<forall>n \<in> set (sg_tools s). G n"
  shows "ok (\<lambda>r. \<forall>joined. r = Inr joined \<longrightarrow> group_result E (stage_task t (group_payload t payload)) 0 (pl_stages p) joined)
    (run_parallel_group E t p tid cl start payload)"
proof -
  let ?T = "stage_task t (group_payload t payload)"
  have dispatch: "ok (\<lambda>xs. list_all2 (\<lambda>r x. halts_or (accepted E (fst (snd r)) ?T) x) rs xs)
      (dispatch_stages E (map (group_exec E t tid cl (group_payload t payload)) rs))"
    if rs: "list_all2 resolved_as (pl_stages p) rs" for rs
  proof (rule ok_weaken [OF ok_dispatch])
    fix Y name assume "Y \<in> set (map (group_exec E t tid cl (group_payload t payload)) rs)" "available (ex_tools Y) name"
    then obtain r where r: "r \<in> set rs" "available (build_tool_context (me_tools E) (sg_tools (fst r))) name"
      by (auto simp: group_exec_def)
    have "fst r \<in> set (pl_stages p)" using rs r(1) by (auto simp: list_all2_conv_all_nth in_set_conv_nth resolved_as_def)
    then show "G name" using known_granted [OF _ r(2)] assms by blast
  next
    fix xs assume "list_all2 (\<lambda>Y x. halts_or (accepted E (ex_agent Y) (ex_task Y)) x) (map (group_exec E t tid cl (group_payload t payload)) rs) xs"
    then show "list_all2 (\<lambda>r x. halts_or (accepted E (fst (snd r)) ?T) x) rs xs"
      by (auto simp: list_all2_map1 group_exec_def elim!: list_all2_mono split: prod.splits)
  qed
  have resolved: "ok (\<lambda>r. \<forall>joined. r = Inr joined \<longrightarrow> group_result E ?T 0 (pl_stages p) joined)
      (run_resolved E t tid cl start (group_payload t payload) rs)"
    if "list_all2 resolved_as (pl_stages p) rs" for rs
    unfolding run_resolved_def
    by (rule guarded_bindT [OF dispatch [OF that]], rule guarded_bindT [OF ok_join [OF that]])
      (auto intro!: ok_now ok_appended simp: join_spec_def guarded_retT split: option.splits)
  show ?thesis unfolding run_parallel_group_def Let_def group_payload_def [symmetric]
    by (intro ok_appended guarded_if guarded_bindT [OF ok_begin_stages])
      (auto intro!: guarded_retT resolved split: sum.split)
qed

lemma ok_parallel:
  assumes "\<forall>s \<in> set (pl_stages p). \<forall>n \<in> set (sg_tools s). G n" and tid: "tid \<noteq> []"
  shows "ok (sealed (\<lambda>v. \<exists>joined. v = stages_value joined \<and> group_result E (stage_task t (tk_payload t)) 0 (pl_stages p) joined))
    (run_parallel E t p tid)"
proof (cases "first_agent E (pl_stages p)")
  case None
  then show ?thesis by (simp add: run_parallel_def ok_weaken [OF ok_unknown [OF tid]])
next
  case (Some m)
  have payload: "group_payload t PNone = tk_payload t" by (simp add: group_payload_def)
  note group = guarded_bindT [OF ok_group [OF assms(1), of t PNone, unfolded payload]]
  show ?thesis unfolding run_parallel_def Some option.case
    by (intro ok_now ok_begin group tid)
      (auto intro!: ok_weaken [OF ok_record_failure] ok_record_success split: sum.split)
qed

section \<open>Pipelines\<close>

lemma ok_after_summary: "ok (sealed V) m \<Longrightarrow> ok (sealed V) (after_summary E t a tid accounts m)"
  unfolding after_summary_def persist_stage_summary_def
  by (rule guarded_bindT [where P = "\<lambda>_. True"])
    (auto intro!: ok_count ok_append guarded_if ok_weaken [OF ok_record_failure])

lemma ok_after_failure: "ok failed m \<Longrightarrow> ok failed (after_summary E t a tid accounts m)"
  unfolding after_summary_def persist_stage_summary_def
  by (rule guarded_bindT [where P = "\<lambda>_. True"])
    (auto intro!: ok_count ok_append guarded_if ok_record_failure)

lemma ok_handoff:
  "ok (\<lambda>r. failed_opt r \<and> (r = None \<longrightarrow> handoff_valid producing consuming v))
     (validate_stage_handoff E t a tid producing consuming v k)"
proof (cases "first_rejection v (handoff_checks k producing consuming)")
  case None
  then have "handoff_valid producing consuming v" by (simp add: handoff_valid_iff)
  then show ?thesis unfolding validate_stage_handoff_def None option.case
    by (intro ok_appended guarded_if guarded_retT guarded_bindT [OF ok_record_failure]) simp_all
next
  case (Some r)
  then show ?thesis unfolding validate_stage_handoff_def Some option.case
    by (cases r) (auto intro!: guarded_retT guarded_bindT [OF ok_record_failure])
qed

text \<open>What a stage may use.\<close>

definition stage_granted :: "stage \<Rightarrow> bool" where
  "stage_granted stage \<longleftrightarrow> (\<forall>s \<in> set (stages_of stage). \<forall>n \<in> set (sg_tools s). G n)"

text \<open>The work of a stage: it has failed, or its value is a result of the stage.\<close>

definition work_spec :: "task \<Rightarrow> stage \<Rightarrow> pyval \<Rightarrow> outcome + (halt + pyval) \<Rightarrow> bool" where
  "work_spec t stage payload w \<longleftrightarrow>
     (case w of Inl oc \<Rightarrow> failed oc | Inr r \<Rightarrow> halts_or (stage_result E t stage payload) r)"

lemma ok_stage_work:
  assumes "stage_granted stage" "stage_names E k stage = Inr (label, name)"
  shows "ok (work_spec t stage payload) (stage_work E t a tid cl stage name start payload accounts)"
proof (cases stage)
  case (Group p)
  have "\<forall>s \<in> set (pl_stages p). \<forall>n \<in> set (sg_tools s). G n"
    using assms(1) by (simp add: Group stage_granted_def stages_of_def)
  note group = guarded_bindT [OF ok_group [OF this, of t payload]]
  show ?thesis unfolding stage_work_def Group stage.case stage_failure_to_outcome_def
    by (rule group)
      (auto intro!: guarded_bindT [OF ok_after_failure [OF ok_record_failure]] guarded_retT
        simp: work_spec_def stage_result_def split: sum.split)
next
  case (Agent_Stage s)
  have G: "\<forall>n \<in> set (sg_tools s). G n"
    using assms(1) by (simp add: Agent_Stage stage_granted_def stages_of_def)
  obtain m where m: "resolve_stage E s = Some m" "name = am_name m"
    using assms(2) by (auto simp: stage_names_def Agent_Stage split: option.splits)
  have "ok (halts_or (accepted E name (stage_task t payload))) (execute_agent E (stage_exec E t tid cl payload s name start))"
    using ok_execute [of "stage_exec E t tid cl payload s name start"] known_granted [OF G] by (simp add: stage_exec_def)
  note run = guarded_bindT [OF this]
  show ?thesis unfolding stage_work_def Agent_Stage stage.case
    by (rule run) (use m in \<open>auto intro!: guarded_retT simp: work_spec_def stage_result_def halts_or_def split: sum.splits\<close>)
qed

lemma ok_run_stage:
  assumes "stage_granted stage"
  shows "ok (\<lambda>r. case r of Inl oc \<Rightarrow> failed oc | Inr (v, _) \<Rightarrow> stage_result E t stage payload v)
    (run_stage E t a tid cl k stage payload accounts)"
proof (cases "stage_names E k stage")
  case (Inl msg)
  then show ?thesis unfolding run_stage_def Inl sum.case
    by (intro ok_now ok_count guarded_bindT [OF ok_record_failure] guarded_retT) simp
next
  case (Inr ln)
  obtain label name where ln: "ln = (label, name)" by force
  note work = guarded_bindT [OF ok_stage_work [OF assms Inr [unfolded ln]]]
  show ?thesis unfolding run_stage_def Inr sum.case ln prod.case
    by (intro ok_now ok_count ok_appended guarded_if guarded_bindT [OF ok_record_failure] work guarded_retT)
      (auto intro!: guarded_retT ok_now ok_count guarded_bindT [OF ok_after_failure [OF ok_halt_outcome]]
        simp: work_spec_def halts_or_def Let_def split: sum.splits)
qed

lemma ok_pipeline_loop:
  assumes "\<forall>s \<in> set ss. stage_granted s"
  shows "ok (sealed (pipeline_result E t ss payload)) (pipeline_loop E t a tid cl k ss payload accounts)"
  using assms
proof (induction ss arbitrary: k payload accounts)
  case Nil
  then show ?case by (auto intro!: ok_after_summary ok_record_success)
next
  case (Cons s ss)
  have weak: "ok (sealed (pipeline_result E t (s # ss) payload)) m"
    if "ok (sealed (pipeline_result E t ss w)) m" "stage_result E t s payload v"
      "case ss of [] \<Rightarrow> w = v | s' # _ \<Rightarrow> w = handed_off v \<and> handoff_valid s s' (handed_off v)" for m v w
  proof -
    have "pipeline_result E t ss w x \<Longrightarrow> pipeline_result E t (s # ss) payload x" for x
      using that(2,3) by (cases ss) auto
    then show ?thesis using that(1) by (elim ok_weaken) (auto simp: sealed_def)
  qed
  show ?case unfolding pipeline_loop.simps
  proof (rule guarded_bindT [OF ok_run_stage])
    fix r :: "outcome + pyval \<times> pyval list" assume r: "case r of Inl oc \<Rightarrow> failed oc | Inr (v, _) \<Rightarrow> stage_result E t s payload v"
    show "ok (sealed (pipeline_result E t (s # ss) payload)) (case r of Inl oc \<Rightarrow> retT oc
       | Inr (v, accounts') \<Rightarrow> (case ss of
            [] \<Rightarrow> pipeline_loop E t a tid cl (Suc k) ss v accounts'
          | consuming # _ \<Rightarrow>
              bindT (validate_stage_handoff E t a tid s consuming (handed_off v) k) (\<lambda>rejected. case rejected of
                Some oc \<Rightarrow> retT oc
              | None \<Rightarrow> pipeline_loop E t a tid cl (Suc k) ss (handed_off v) accounts')))"
    proof (cases r)
      case (Inl oc)
      then show ?thesis using r by (simp add: guarded_retT)
    next
      case (Inr va)
      obtain v accounts' where va: "va = (v, accounts')" by force
      have v: "stage_result E t s payload v" using r by (simp add: Inr va)
      have go: "ok (sealed (pipeline_result E t (s # ss) payload)) (pipeline_loop E t a tid cl (Suc k) ss w accounts')"
        if "case ss of [] \<Rightarrow> w = v | s' # _ \<Rightarrow> w = handed_off v \<and> handoff_valid s s' (handed_off v)" for w
        by (rule weak [OF Cons.IH v that]) (use Cons.prems in simp)
      show ?thesis
      proof (cases ss)
        case Nil
        then show ?thesis using go [of v] by (simp add: Inr va)
      next
        case ss: (Cons s' ss')
        have "ok (sealed (pipeline_result E t (s # ss) payload)) (bindT (validate_stage_handoff E t a tid s s' (handed_off v) k) (\<lambda>rejected.
            case rejected of Some oc \<Rightarrow> retT oc | None \<Rightarrow> pipeline_loop E t a tid cl (Suc k) ss (handed_off v) accounts'))"
          by (rule guarded_bindT [OF ok_handoff])
            (auto intro!: guarded_retT go [unfolded ss] simp: ss simp del: pipeline_loop.simps split: option.split)
        then show ?thesis by (simp only: Inr va ss sum.case prod.case list.case)
      qed
    qed
  qed (use Cons.prems in simp)
qed

lemma ok_pipeline:
  assumes "\<forall>s \<in> set (pp_stages p). stage_granted s" and tid: "tid \<noteq> []"
  shows "ok (sealed (pipeline_result E t (pp_stages p) (tk_payload t))) (run_pipeline E t p tid)"
proof (cases "first_agent E (concat (map stages_of (take 1 (pp_stages p))))")
  case None
  then show ?thesis by (simp add: run_pipeline_def ok_weaken [OF ok_unknown [OF tid]])
next
  case (Some m)
  then show ?thesis unfolding run_pipeline_def Some option.case
    by (intro ok_now ok_begin ok_pipeline_loop assms(1) tid)
qed

text \<open>A run of a task may call the tools that the task grants, and a result is a result of the task.\<close>

theorem ok_run_task:
  assumes "\<forall>n. granted t n \<longrightarrow> G n" and tid: "tid \<noteq> []"
  shows "ok (sealed (task_result E t)) (run_task E t tid)"
proof (cases "tk_pipeline t")
  case (Some p)
  have "\<forall>s \<in> set (pp_stages p). stage_granted s"
    using assms(1) by (auto simp: granted_def stage_granted_def all_stages_def Some)
  from ok_pipeline [OF this tid, of t] show ?thesis by (simp add: run_task_def task_result_def [abs_def] Some)
next
  case None
  show ?thesis
  proof (cases "tk_parallel t")
    case (Some p)
    have "\<forall>s \<in> set (pl_stages p). \<forall>n \<in> set (sg_tools s). G n"
      using assms(1) by (auto simp: granted_def all_stages_def None Some)
    from ok_parallel [OF this tid, of t] show ?thesis by (simp add: run_task_def task_result_def [abs_def] None Some)
  next
    case No: None
    have "\<forall>n \<in> set (tk_tools t). G n" using assms(1) by (simp add: granted_def None No)
    from ok_single [OF this tid] show ?thesis by (simp add: run_task_def task_result_def [abs_def] None No)
  qed
qed

corollary run_task_rules:
  assumes "\<forall>n. granted t n \<longrightarrow> G n" "tid \<noteq> []" "I s" "run_proc (run_task E t tid) s = (r, s')"
  shows "I s'" "R s s'" "okT X (sealed (task_result E t)) r"
  using run_guarded [OF ok_run_task [OF assms(1,2)] assms(3)] by (simp_all add: assms(4))

section \<open>A task its policy denies\<close>

lemma ok_gate_denied:
  assumes "denied t"
  shows "ok (\<lambda>r. \<exists>oc. r = Some oc \<and> failed oc) (policy_gate E t a tid)"
proof -
  obtain p c where "tk_policy t = Some p" "find (\<lambda>c. \<not> pd_allowed (fst c)) (task_checks p t) = Some c"
    using denied_found [OF assms] by blast
  then show ?thesis
    by (auto simp: policy_gate_def evaluate_task_policy_def intro!: guarded_bindT [OF ok_violation] guarded_retT)
qed

lemma ok_begin_denied:
  assumes "denied t" "tid \<noteq> []"
  shows "ok failed (begin_run E t a tid body)"
  unfolding begin_run_def
proof (rule guarded_bindT [where P = "\<lambda>_. True"])
  show "ok (\<lambda>_. True) (on_store_error (bindT (store_begin E tid (tk_id t) a) (\<lambda>_. retT None)) (\<lambda>e. retT (Some (exc_text e))))"
    by (rule ok_store_error [OF guarded_bindT [OF ok_store_begin]]) (simp_all add: guarded_retT assms(2))
qed (auto intro!: ok_internal guarded_bindT [OF ok_gate_denied] guarded_retT assms(1) split: option.split)

lemma ok_run_denied: "denied t \<Longrightarrow> tid \<noteq> [] \<Longrightarrow> ok failed (run_task E t tid)"
  by (auto simp: run_task_def run_single_def run_parallel_def run_pipeline_def
      intro!: ok_unknown ok_now ok_begin_denied split: option.split)

corollary run_denied_rules:
  assumes "denied t" "tid \<noteq> []" "I s" "run_proc (run_task E t tid) s = (r, s')"
  shows "I s'" "R s s'" "okT X failed r"
  using run_guarded [OF ok_run_denied [OF assms(1,2)] assms(3)] by (simp_all add: assms(4))

end

end
