(* ===== verification/Store_Contract.thy ===== *)
theory Store_Contract
  imports Traj_Store
begin

text \<open>
  What the control plane relies on in a trajectory store, as a locale, and both stores of
  \<open>control_plane/trajectory_store.py\<close> as its instances. A write that is accepted is what a later
  load returns, in the normal form \<open>nstep\<close> and \<open>nout\<close> in which the store keeps values; a write that
  is refused leaves the store as it was; an outcome is recorded once.
\<close>

locale trajectory_store =
  fixes S :: "'st tstore" and inv :: "'st \<Rightarrow> bool"
    and nstep :: "step_record \<Rightarrow> step_record" and nout :: "stored_outcome \<Rightarrow> stored_outcome"
    and fits_name :: "string \<Rightarrow> bool" and fits_step :: "step_record \<Rightarrow> bool" and fits_out :: "stored_outcome \<Rightarrow> bool"
  assumes begin_ok: "inv st \<Longrightarrow> fits_name i \<Longrightarrow> fits_name t \<Longrightarrow> fits_name a \<Longrightarrow> ts_begin S i t a st = (Inr (), st') \<Longrightarrow>
      inv st' \<and> ts_load S i st = Inr None \<and>
      ts_load S i st' = Inr (Some \<lparr>sd_id = i, sd_task_id = PStr t, sd_agent_name = PStr a, sd_steps = [], sd_outcome = stored_interrupted\<rparr>) \<and>
      (\<forall>j. j \<noteq> i \<longrightarrow> ts_load S j st' = ts_load S j st)"
    and append_ok: "inv st \<Longrightarrow> fits_step s \<Longrightarrow> ts_load S i st = Inr (Some tr) \<Longrightarrow> ts_append S i s st = (Inr (), st') \<Longrightarrow>
      inv st' \<and> ts_load S i st' = Inr (Some (tr\<lparr>sd_steps := sd_steps tr @ [nstep s]\<rparr>)) \<and>
      (\<forall>j. j \<noteq> i \<longrightarrow> ts_load S j st' = ts_load S j st)"
    and outcome_ok: "inv st \<Longrightarrow> fits_out oc \<Longrightarrow> ts_load S i st = Inr (Some tr) \<Longrightarrow> ts_outcome S i oc st = (Inr (), st') \<Longrightarrow>
      inv st' \<and> sd_outcome tr = stored_interrupted \<and> ts_load S i st' = Inr (Some (tr\<lparr>sd_outcome := nout oc\<rparr>)) \<and>
      (\<forall>j. j \<noteq> i \<longrightarrow> ts_load S j st' = ts_load S j st)"
    and outcome_once: "ts_load S i st = Inr (Some tr) \<Longrightarrow> so_kind (sd_outcome tr) \<noteq> Interrupted_Kind \<Longrightarrow>
      ts_outcome S i oc st = (Inl (already_recorded i), st)"
    and begin_fails: "ts_begin S i t a st = (Inl e, st') \<Longrightarrow> st' = st"
    and append_fails: "ts_append S i s st = (Inl e, st') \<Longrightarrow> st' = st"
    and outcome_fails: "ts_outcome S i oc st = (Inl e, st') \<Longrightarrow> st' = st"

section \<open>The store in memory\<close>

lemma mem_load_Some: "mem_load i st = Inr (Some tr) \<longleftrightarrow>
    (\<exists>m. dget st i = Some m \<and> tr = \<lparr>sd_id = i, sd_task_id = PStr (me_task_id m), sd_agent_name = PStr (me_agent_name m),
     sd_steps = me_steps m, sd_outcome = (case me_outcome m of None \<Rightarrow> stored_interrupted | Some oc \<Rightarrow> oc)\<rparr>)"
  by (auto simp: mem_load_def)

lemmas mem_defs = memory_def mem_begin_def mem_append_def mem_outcome_def mem_require_def
  validate_trajectory_id_def value_error_if_def

interpretation mem: trajectory_store memory "\<lambda>_. True" id id "\<lambda>_. True" "\<lambda>_. True" "\<lambda>_. True"
proof unfold_locales
  fix st st' :: mem and i t a
  assume "ts_begin memory i t a st = (Inr (), st')"
  then show "True \<and> ts_load memory i st = Inr None \<and>
      ts_load memory i st' = Inr (Some \<lparr>sd_id = i, sd_task_id = PStr t, sd_agent_name = PStr a, sd_steps = [], sd_outcome = stored_interrupted\<rparr>) \<and>
      (\<forall>j. j \<noteq> i \<longrightarrow> ts_load memory j st' = ts_load memory j st)"
    by (auto simp: mem_defs mem_load_def dict_simps rejectR_def split: if_splits)
next
  fix st st' :: mem and i s tr
  assume "ts_load memory i st = Inr (Some tr)" "ts_append memory i s st = (Inr (), st')"
  then show "True \<and> ts_load memory i st' = Inr (Some (tr\<lparr>sd_steps := sd_steps tr @ [id s]\<rparr>)) \<and>
      (\<forall>j. j \<noteq> i \<longrightarrow> ts_load memory j st' = ts_load memory j st)"
    by (auto simp: mem_defs mem_load_def dict_simps)
next
  fix st st' :: mem and i oc tr
  assume "ts_load memory i st = Inr (Some tr)" "ts_outcome memory i oc st = (Inr (), st')"
  then show "True \<and> sd_outcome tr = stored_interrupted \<and> ts_load memory i st' = Inr (Some (tr\<lparr>sd_outcome := id oc\<rparr>)) \<and>
      (\<forall>j. j \<noteq> i \<longrightarrow> ts_load memory j st' = ts_load memory j st)"
    by (auto simp: mem_defs mem_load_def dict_simps split: if_splits)
next
  fix st :: mem and i oc tr
  assume "ts_load memory i st = Inr (Some tr)" "so_kind (sd_outcome tr) \<noteq> Interrupted_Kind"
  then show "ts_outcome memory i oc st = (Inl (already_recorded i), st)"
    by (auto simp: mem_defs mem_load_def stored_interrupted_def split: option.splits)
qed (auto simp: mem_defs rejectR_def split: if_splits option.splits)

section \<open>The records of a file\<close>

lemma dget_sort_key: "distinct (map fst kvs) \<Longrightarrow> dget (sort_key fst kvs) k = dget kvs k"
proof (cases "dget kvs k")
  case None
  then have "k \<notin> fst ` set (sort_key fst kvs)" unfolding dget_None_iff by simp
  then show ?thesis using None by (metis dget_None_iff)
next
  case (Some v)
  assume "distinct (map fst kvs)"
  moreover have "mset (map fst (sort_key fst kvs)) = mset (map fst kvs)" by simp
  ultimately have "wf_dict (sort_key fst kvs)" unfolding wf_dict_def by (metis mset_eq_imp_distinct_iff)
  then show ?thesis using Some dget_Some_in [OF Some] by (simp add: dget_wf)
qed

lemma dget_norm: "distinct (map fst kvs) \<Longrightarrow>
    dget (sort_key fst (map (\<lambda>kv. (fst kv, json_norm (snd kv))) kvs)) k = map_option json_norm (dget kvs k)"
proof -
  have "dget (map (\<lambda>kv. (fst kv, json_norm (snd kv))) kvs) k = map_option json_norm (dget kvs k)"
    by (induction kvs) (auto simp: dget_Cons)
  then show "distinct (map fst kvs) \<Longrightarrow> ?thesis" by (simp add: dget_sort_key comp_def)
qed

definition norm_step :: "step_record \<Rightarrow> step_record" where
  "norm_step s = s\<lparr>sr_input := json_norm (sr_input s), sr_output := json_norm (sr_output s), sr_error := json_norm (sr_error s)\<rparr>"

definition norm_outcome :: "stored_outcome \<Rightarrow> stored_outcome" where
  "norm_outcome oc =
     (case so_kind oc of
        Verified_Kind \<Rightarrow> stored_verified (json_norm (so_output oc))
      | Failure_Kind \<Rightarrow> \<lparr>so_kind = Failure_Kind, so_output = PNone, so_reason = json_norm (so_reason oc), so_message = json_norm (so_message oc)\<rparr>
      | Interrupted_Kind \<Rightarrow> stored_interrupted)"

definition json_step :: "step_record \<Rightarrow> bool" where
  "json_step s \<longleftrightarrow> wf_pyval (sr_input s) \<and> wf_pyval (sr_output s) \<and> wf_pyval (sr_error s) \<and> float_token (sr_elapsed s)"

definition json_outcome :: "stored_outcome \<Rightarrow> bool" where
  "json_outcome oc \<longleftrightarrow> wf_pyval (so_output oc) \<and> wf_pyval (so_reason oc) \<and> wf_pyval (so_message oc)"

lemma read_status_value [simp]: "read_status (PStr (status_value s)) = Inr s"
  by (cases s) (simp_all add: read_status_def status_value_def)

text \<open>The record a line holds, for a step, an outcome and the head of the file.\<close>

definition record_of :: "pyval \<Rightarrow> pyval dict" where
  "record_of v = (case json_norm v of PDict kvs \<Rightarrow> kvs | _ \<Rightarrow> [])"

lemma dget_record_of:
  "distinct (map fst kvs) \<Longrightarrow> dget (record_of (PDict kvs)) k = map_option json_norm (dget kvs k)"
  by (simp add: record_of_def dget_norm)

lemma norm_record: "json_norm (PDict kvs) = PDict (record_of (PDict kvs))"
  by (simp add: record_of_def)

lemma step_record_back: "record_to_step conv (record_of (step_to_record s)) = Inr (norm_step s)"
  by (simp add: record_to_step_def step_to_record_def dget_record_of dget_or_def dget_Cons py_float_def norm_step_def)

lemma outcome_record_back: "decode_outcome (record_of (outcome_record oc)) = Inr (norm_outcome oc)"
  by (simp add: decode_outcome_def outcome_record_def dget_record_of dget_or_def dget_Cons norm_outcome_def Let_def
      split: outcome_kind.split)

lemma record_kind:
  "dget (record_of (step_to_record s)) ''kind'' = Some (PStr ''step'')"
  "dget (record_of (outcome_record oc)) ''kind'' = Some (PStr ''outcome'')"
  by (simp_all add: step_to_record_def outcome_record_def dget_record_of dget_Cons split: outcome_kind.split)

section \<open>The lines of a file\<close>

lemma canonic_line:
  assumes "wf_pyval (PDict kvs)"
  shows "\<not> blank_line (canonic (PDict kvs))" "json_loads (canonic (PDict kvs)) = Some (PDict (record_of (PDict kvs)))"
    "splitlines (canonic (PDict kvs) @ [newline]) = [canonic (PDict kvs)]"
proof -
  have "CHR ''{'' \<in> set (canonic (PDict kvs))" by (simp add: canonic_def)
  moreover have "\<not> py_space CHR ''{''" by code_simp
  ultimately show "\<not> blank_line (canonic (PDict kvs))" unfolding blank_line_def by (rule strip_nonblank)
  show "json_loads (canonic (PDict kvs)) = Some (PDict (record_of (PDict kvs)))"
    using canonic_loads [OF assms] by (simp only: norm_record)
  have "printable (canonic (PDict kvs))"
    unfolding canonic_def by (rule printable_json_write [OF _ wf_pyval_norm [OF assms]]) code_simp
  then show "splitlines (canonic (PDict kvs) @ [newline]) = [canonic (PDict kvs)]" by (rule splitlines_line(2))
qed

definition meta_fields :: "string \<Rightarrow> string \<Rightarrow> string \<Rightarrow> pyval dict" where
  "meta_fields i t a = [(''agent_name'', PStr a), (''kind'', PStr ''meta''), (''task_id'', PStr t), (''trajectory_id'', PStr i)]"

lemma meta_norm: "json_norm (PDict [(''kind'', PStr ''meta''), (''trajectory_id'', PStr i), (''task_id'', PStr t),
       (''agent_name'', PStr a)]) = PDict (meta_fields i t a)"
  by (simp add: meta_fields_def)

lemma meta_unbroken:
  assumes "one_line i" "one_line t" "one_line a"
  shows "\<forall>c \<in> set (json_raw (PDict (meta_fields i t a))). \<not> is_break c"
proof -
  have names: "one_line ''agent_name''" "one_line ''kind''" "one_line ''meta''" "one_line ''task_id''" "one_line ''trajectory_id''"
    by code_simp+
  have marks: "\<forall>c \<in> set ''{}:, ''. \<not> is_break c" by code_simp
  show ?thesis
    using assms names marks quoted_raw_unbroken unfolding json_raw_def meta_fields_def by auto
qed

lemma meta_loads: "json_loads (json_raw (PDict (meta_fields i t a))) = Some (PDict (meta_fields i t a))"
  by (rule json_raw_loads) (simp add: meta_fields_def)

lemma meta_not_blank: "\<not> blank_line (json_raw (PDict (meta_fields i t a)))"
proof -
  have "CHR ''{'' \<in> set (json_raw (PDict (meta_fields i t a)))" by (simp add: json_raw_def)
  moreover have "\<not> py_space CHR ''{''" by code_simp
  ultimately show ?thesis unfolding blank_line_def by (rule strip_nonblank)
qed

section \<open>Reading a file\<close>

lemma read_records_append:
  "read_records n name (ls @ ms) =
     bindR (read_records n name ls) (\<lambda>vs. bindR (read_records (n + length ls) name ms) (\<lambda>ws. Inr (vs @ ws)))"
proof (induction ls arbitrary: n)
  case Nil
  show ?case by (cases "read_records n name ms") simp_all
next
  case (Cons l ls)
  show ?case by (cases "read_records (Suc n) name ls"; cases "read_records (n + length (l # ls)) name ms")
      (auto simp: Cons.IH split: option.splits)
qed

text \<open>What a text holds: the meta record, the steps and the outcome.\<close>

definition file_view :: "(pyval \<Rightarrow> py_error + string) \<Rightarrow> string \<Rightarrow> string \<Rightarrow> exc + file_view" where
  "file_view conv name content =
     bindR (read_records 1 name (splitlines content)) (\<lambda>vs. foldR (read_record conv) vs (None, [], None))"

lemma file_view_snoc:
  assumes "closed_text content" "file_view conv name content = Inr view"
    and "splitlines (l @ [newline]) = [l]" "\<not> blank_line l" "json_loads l = Some v"
  shows "file_view conv name (content @ l @ [newline]) = read_record conv v view"
proof -
  obtain vs where vs: "read_records 1 name (splitlines content) = Inr vs" "foldR (read_record conv) vs (None, [], None) = Inr view"
    using assms(2) by (auto simp: file_view_def result_simps)
  have "splitlines (content @ l @ [newline]) = splitlines content @ [l]"
    using splitlines_append [OF assms(1), of "l @ [newline]"] assms(3) by simp
  then show ?thesis
    by (simp add: file_view_def read_records_append vs(1) [simplified] assms(4,5) foldR_append vs(2))
      (cases "read_record conv v view"; simp)
qed

lemma file_load_view:
  "dget files (file_name i) = Some content \<Longrightarrow> file_load conv i files =
     bindR (file_view conv (file_name i) content) (\<lambda>view.
            case view of
              (None, _, _) \<Rightarrow> Inl (corrupt (''Trajectory '' @ file_name i @ '' is missing a meta record.''))
            | (Some meta, steps, oc) \<Rightarrow>
                bindR (meta_field meta ''task_id'') (\<lambda>task_id. bindR (meta_field meta ''agent_name'') (\<lambda>agent_name.
                  Inr (Some \<lparr>sd_id = i, sd_task_id = task_id, sd_agent_name = agent_name, sd_steps = steps,
                    sd_outcome = (case oc of None \<Rightarrow> stored_interrupted | Some oc \<Rightarrow> oc)\<rparr>))))"
  by (cases "read_records 1 (file_name i) (splitlines content)") (simp_all add: file_load_def file_view_def)

section \<open>The store in files\<close>

definition files_closed :: "string dict \<Rightarrow> bool" where
  "files_closed files \<longleftrightarrow> (\<forall>n t. dget files n = Some t \<longrightarrow> closed_text t)"

lemma files_closed_dput: "files_closed files \<Longrightarrow> closed_text t \<Longrightarrow> files_closed (dput n t files)"
  by (simp add: files_closed_def dict_simps)

lemma closed_snoc [simp]: "closed_text (t @ l @ [newline])" "closed_text (l @ [newline])"
  by (simp_all add: closed_text_def)

lemma write_line_ok: "write_line io n l files = (Inr (), files') \<longleftrightarrow> io n = None \<and> files' = dput n (dget_or files n [] @ l) files"
  by (auto simp: write_line_def split: option.splits)

lemma write_line_fails: "write_line io n l files = (Inl e, files') \<Longrightarrow> files' = files"
  by (auto simp: write_line_def split: option.splits)

text \<open>The hexadecimal form of the bytes of an identifier determines the identifier.\<close>

lemma digit_char_inj: "m < 16 \<Longrightarrow> n < 16 \<Longrightarrow> digit_char m = digit_char n \<longleftrightarrow> m = n"
  by (metis hex_value_digit_char option.inject)

lemma hex_inj: "concat (map (\<lambda>c. [digit_char (code c div 16), digit_char (code c mod 16)]) s) @ ''.jsonl'' =
    concat (map (\<lambda>c. [digit_char (code c div 16), digit_char (code c mod 16)]) t) @ ''.jsonl'' \<Longrightarrow> s = t"
proof (induction s arbitrary: t)
  case Nil
  then show ?case by (cases t) (auto dest: arg_cong [of _ _ length])
next
  case (Cons c s)
  then obtain d u where t: "t = d # u" by (cases t) (auto dest: arg_cong [of _ _ length])
  have lt: "code x div 16 < 16" "code x mod 16 < 16" for x using code_less [of x] by linarith+
  have "code c div 16 = code d div 16" "code c mod 16 = code d mod 16" using Cons.prems lt by (auto simp: t digit_char_inj)
  then have "code c = code d" by (metis div_mult_mod_eq)
  then show ?case using Cons by (auto simp: t code_inj)
qed

lemma file_name_inj [simp]: "file_name i = file_name j \<longleftrightarrow> i = j"
  unfolding file_name_def using hex_inj utf8_inj by blast

lemma file_load_other: "j \<noteq> i \<Longrightarrow> file_load conv j (dput (file_name i) t files) = file_load conv j files"
  by (simp add: file_load_def dict_simps)

text \<open>A text that loads, and what one more line makes of it.\<close>

definition stored_view :: "string \<Rightarrow> pyval dict \<Rightarrow> step_record list \<Rightarrow> stored_outcome option \<Rightarrow> exc + stored option" where
  "stored_view i meta steps oc =
     bindR (meta_field meta ''task_id'') (\<lambda>task_id. bindR (meta_field meta ''agent_name'') (\<lambda>agent_name.
       Inr (Some \<lparr>sd_id = i, sd_task_id = task_id, sd_agent_name = agent_name, sd_steps = steps,
         sd_outcome = (case oc of None \<Rightarrow> stored_interrupted | Some oc \<Rightarrow> oc)\<rparr>)))"

lemma file_loadE:
  assumes "file_load conv i files = Inr (Some tr)"
  obtains content meta steps oc where "dget files (file_name i) = Some content"
    "file_view conv (file_name i) content = Inr (Some meta, steps, oc)" "stored_view i meta steps oc = Inr (Some tr)"
proof -
  obtain content where content: "dget files (file_name i) = Some content" using assms by (auto simp: file_load_def split: option.splits)
  then show thesis using assms that by (auto simp: file_load_view stored_view_def result_simps split: option.splits prod.splits)
qed

lemma file_load_eq:
  "dget files (file_name i) = Some content \<Longrightarrow> file_view conv (file_name i) content = Inr (Some meta, steps, oc) \<Longrightarrow>
    file_load conv i files = stored_view i meta steps oc"
  by (simp add: file_load_view stored_view_def)

lemma stored_view_Some: "stored_view i meta steps oc = Inr (Some tr) \<longleftrightarrow>
    (\<exists>t a. dget meta ''task_id'' = Some t \<and> dget meta ''agent_name'' = Some a \<and>
      tr = \<lparr>sd_id = i, sd_task_id = t, sd_agent_name = a, sd_steps = steps,
         sd_outcome = (case oc of None \<Rightarrow> stored_interrupted | Some oc \<Rightarrow> oc)\<rparr>)"
  by (auto simp: stored_view_def meta_field_def result_simps split: option.splits)

lemma json_step_wf: "json_step s \<Longrightarrow> wf_pyval (step_to_record s)"
  by (simp add: json_step_def step_to_record_def)

lemma json_outcome_wf: "json_outcome oc \<Longrightarrow> wf_pyval (outcome_record oc)"
  by (simp add: json_outcome_def outcome_record_def split: outcome_kind.split)

lemma view_append_step:
  assumes "closed_text content" "file_view conv n content = Inr (meta, steps, oc)" "json_step s"
  shows "file_view conv n (content @ step_line s) = Inr (meta, steps @ [norm_step s], oc)"
proof -
  obtain kvs where kvs: "step_to_record s = PDict kvs" by (simp add: step_to_record_def)
  note line = canonic_line [OF json_step_wf [OF assms(3), unfolded kvs]]
  show ?thesis unfolding step_line_def kvs
    using file_view_snoc [OF assms(1,2) line(3,1,2)] record_kind(1) [of s] step_record_back [of conv s]
    by (simp add: kvs read_record_def dget_or_def)
qed

lemma view_append_outcome:
  assumes "closed_text content" "file_view conv n content = Inr (meta, steps, oc)" "json_outcome o'"
  shows "file_view conv n (content @ outcome_line o') = Inr (meta, steps, Some (norm_outcome o'))"
proof -
  obtain kvs where kvs: "outcome_record o' = PDict kvs" by (simp add: outcome_record_def)
  note line = canonic_line [OF json_outcome_wf [OF assms(3), unfolded kvs]]
  show ?thesis unfolding outcome_line_def kvs
    using file_view_snoc [OF assms(1,2) line(3,1,2)] record_kind(2) [of o'] outcome_record_back [of o']
    by (simp add: kvs read_record_def dget_or_def)
qed

lemma view_begin:
  assumes "one_line i" "one_line t" "one_line a"
  shows "file_view conv n (meta_line i t a) = Inr (Some (meta_fields i t a), [], None)"
proof -
  have "file_view conv n [] = Inr (None, [], None)" by (simp add: file_view_def)
  moreover have "splitlines (json_raw (PDict (meta_fields i t a)) @ [newline]) = [json_raw (PDict (meta_fields i t a))]"
    by (rule splitlines_unbroken [OF meta_unbroken [OF assms]])
  ultimately show ?thesis
    using file_view_snoc [of "[]" conv n "(None, [], None)", OF _ _ _ meta_not_blank meta_loads]
    by (simp add: meta_line_def meta_norm closed_text_def read_record_def meta_fields_def dget_or_def dget_Cons)
qed

text \<open>The search for an outcome sees what the reader sees.\<close>

lemma find_outcome_view:
  assumes "read_records k n ls = Inr vs" "foldR (read_record conv) vs (meta, steps, oc) = Inr (meta', steps', oc')"
  shows "find_outcome ls = Inr False \<and> oc' = oc \<or> find_outcome ls = Inr True \<and> oc' \<noteq> None"
  using assms
proof (induction ls arbitrary: k vs meta steps oc)
  case Nil
  then show ?case by simp
next
  case (Cons l ls)
  show ?case
  proof (cases "blank_line l")
    case True
    then show ?thesis using Cons by simp
  next
    case False
    then obtain v ws where v: "json_loads l = Some v" "read_records (Suc k) n ls = Inr ws" "vs = v # ws"
      using Cons.prems(1) by (auto simp: result_simps split: option.splits)
    obtain m1 s1 o1 where r: "read_record conv v (meta, steps, oc) = Inr (m1, s1, o1)"
      "foldR (read_record conv) ws (m1, s1, o1) = Inr (meta', steps', oc')"
      using Cons.prems(2) by (auto simp: v(3) result_simps)
    obtain kvs where kvs: "v = PDict kvs" using r(1) by (cases v) (auto simp: read_record_def)
    note IH = Cons.IH [OF v(2) r(2)]
    show ?thesis
    proof (cases "dget kvs ''kind'' = Some (PStr ''outcome'')")
      case True
      then have "o1 \<noteq> None" using r(1) by (auto simp: kvs read_record_def dget_or_def result_simps)
      then have "oc' \<noteq> None" using IH by auto
      then show ?thesis using False True by (simp add: v(1) kvs)
    next
      case other: False
      then have "o1 = oc" using r(1) by (auto simp: kvs read_record_def dget_or_def result_simps Let_def split: if_splits option.splits)
      then show ?thesis using IH False other by (simp add: v(1) kvs)
    qed
  qed
qed

lemma has_outcome_view:
  assumes "dget files (file_name i) = Some content" "file_view conv (file_name i) content = Inr (meta, steps, oc)"
  shows "has_outcome i files = Inr (oc \<noteq> None)"
  using assms find_outcome_view [of 1 "file_name i" "splitlines content" _ conv None "[]" None meta steps oc]
  by (auto simp: has_outcome_def file_view_def result_simps)

lemma file_begin_ok:
  assumes "files_closed files" "one_line i" "one_line t" "one_line a" "file_begin io i t a files = (Inr (), files')"
  shows "files_closed files' \<and> file_load conv i files = Inr None \<and>
      file_load conv i files' = Inr (Some \<lparr>sd_id = i, sd_task_id = PStr t, sd_agent_name = PStr a, sd_steps = [], sd_outcome = stored_interrupted\<rparr>) \<and>
      (\<forall>j. j \<noteq> i \<longrightarrow> file_load conv j files' = file_load conv j files)"
proof -
  have new: "dget files (file_name i) = None" and files': "files' = dput (file_name i) (meta_line i t a) files"
    using assms(5) by (auto simp: file_begin_def write_line_ok dget_or_def split: sum.splits if_splits)
  have "file_load conv i files' = stored_view i (meta_fields i t a) [] None"
    by (rule file_load_eq [OF _ view_begin [OF assms(2-4)]]) (simp add: files' dict_simps)
  then show ?thesis using new assms(1)
    by (auto simp: files' file_load_other file_load_def [of conv i files] files_closed_dput meta_line_def
        stored_view_def meta_field_def meta_fields_def dget_Cons)
qed

lemma file_append_ok:
  assumes "files_closed files" "json_step s" "file_load conv i files = Inr (Some tr)" "file_append io i s files = (Inr (), files')"
  shows "files_closed files' \<and> file_load conv i files' = Inr (Some (tr\<lparr>sd_steps := sd_steps tr @ [norm_step s]\<rparr>)) \<and>
      (\<forall>j. j \<noteq> i \<longrightarrow> file_load conv j files' = file_load conv j files)"
proof -
  obtain content meta steps oc where view: "dget files (file_name i) = Some content"
    "file_view conv (file_name i) content = Inr (Some meta, steps, oc)" "stored_view i meta steps oc = Inr (Some tr)"
    by (rule file_loadE [OF assms(3)])
  have files': "files' = dput (file_name i) (content @ step_line s) files"
    using assms(4) by (simp add: file_append_def write_line_ok view(1) dget_or_def)
  have closed: "closed_text content" using assms(1) view(1) by (auto simp: files_closed_def)
  have "file_load conv i files' = stored_view i meta (steps @ [norm_step s]) oc"
    by (rule file_load_eq [OF _ view_append_step [OF closed view(2) assms(2)]]) (simp add: files' dict_simps)
  then show ?thesis using view(3) assms(1)
    by (auto simp: files' file_load_other files_closed_dput step_line_def stored_view_Some)
qed

lemma file_outcome_ok:
  assumes "files_closed files" "json_outcome o'" "file_load conv i files = Inr (Some tr)" "file_outcome io i o' files = (Inr (), files')"
  shows "files_closed files' \<and> sd_outcome tr = stored_interrupted \<and>
      file_load conv i files' = Inr (Some (tr\<lparr>sd_outcome := norm_outcome o'\<rparr>)) \<and>
      (\<forall>j. j \<noteq> i \<longrightarrow> file_load conv j files' = file_load conv j files)"
proof -
  obtain content meta steps oc where view: "dget files (file_name i) = Some content"
    "file_view conv (file_name i) content = Inr (Some meta, steps, oc)" "stored_view i meta steps oc = Inr (Some tr)"
    by (rule file_loadE [OF assms(3)])
  have none: "oc = None" and files': "files' = dput (file_name i) (content @ outcome_line o') files"
    using assms(4) by (auto simp: file_outcome_def has_outcome_view [OF view(1,2)] write_line_ok view(1) dget_or_def split: bool.splits)
  have closed: "closed_text content" using assms(1) view(1) by (auto simp: files_closed_def)
  have "file_load conv i files' = stored_view i meta steps (Some (norm_outcome o'))"
    by (rule file_load_eq [OF _ view_append_outcome [OF closed view(2) assms(2)]]) (simp add: files' dict_simps)
  then show ?thesis using view(3) assms(1) none
    by (auto simp: files' file_load_other files_closed_dput outcome_line_def stored_view_Some)
qed

lemma file_outcome_once:
  assumes "file_load conv i files = Inr (Some tr)" "so_kind (sd_outcome tr) \<noteq> Interrupted_Kind"
  shows "file_outcome io i o' files = (Inl (already_recorded i), files)"
proof -
  obtain content meta steps oc where view: "dget files (file_name i) = Some content"
    "file_view conv (file_name i) content = Inr (Some meta, steps, oc)" "stored_view i meta steps oc = Inr (Some tr)"
    by (rule file_loadE [OF assms(1)])
  have "oc \<noteq> None" using view(3) assms(2) by (cases oc) (auto simp: stored_view_Some stored_interrupted_def)
  then show ?thesis by (simp add: file_outcome_def has_outcome_view [OF view(1,2)])
qed

lemma file_fails:
  "file_begin io i t a files = (Inl e, files') \<Longrightarrow> files' = files"
  "file_append io i s files = (Inl e, files') \<Longrightarrow> files' = files"
  "file_outcome io i o' files = (Inl e, files') \<Longrightarrow> files' = files"
  by (auto simp: file_begin_def file_append_def file_outcome_def dest: write_line_fails split: sum.splits if_splits bool.splits)

interpretation disk: trajectory_store "file_store io conv" files_closed norm_step norm_outcome one_line json_step json_outcome
  for io conv
  unfolding file_store_def
proof (unfold_locales, unfold tstore.simps)
qed (fact file_begin_ok file_append_ok file_outcome_ok file_outcome_once file_fails)+

end
