(* ===== verification/Manager_Props.thy ===== *)
theory Manager_Props
  imports Manager_Rules Store_Contract
begin

text \<open>
  What a run of the manager promises, under every schedule of its worker threads: it returns an
  outcome and does not raise, it calls only tools that the task grants, a result rests on accepted
  outputs, and a denied task starts nothing. Each is the manager's rules with a relation of its own.
\<close>

section \<open>The rules for every environment\<close>

interpretation any_run: run_rules "\<lambda>_. True" "\<lambda>_ _. True" E "\<lambda>_. True" "\<lambda>_. True" for E
  by unfold_locales auto

lemma trajectory_id_nonempty [simp]: "trajectory_id t n \<noteq> []"
  by (simp add: trajectory_id_def)

lemma runE: obtains r s where "run_proc (run_task E t (trajectory_id t (mg_seq mg))) (fresh_run (mg_state mg)) = (r, s)"
    "run E t mg = (r, \<lparr>mg_seq = Suc (mg_seq mg), mg_state = s\<rparr>)"
  by (cases "run_proc (run_task E t (trajectory_id t (mg_seq mg))) (fresh_run (mg_state mg))") (simp add: run_def)

section \<open>A concrete environment\<close>

text \<open>An agent that asks for the sum of two numbers and returns it, with the store in memory.\<close>

definition adder :: agent_fn where
  "adder payload budget ctx = Inr (\<lambda>_. Yields (Tool_Request ''add'' [(''a'', PInt 2), (''b'', PInt 3)])
     (\<lambda>s. case s of Tool_Value r \<Rightarrow> Returns (Some (tr_output r)) | _ \<Rightarrow> Returns None))"

definition desk_manifest :: agent_manifest where
  "desk_manifest = \<lparr>am_version = Manifest_V2, am_name = ''adder'', am_entry_point = ''m:make'', am_description = [], am_capabilities = []\<rparr>"

definition desk :: "(in_process, mem) menv" where
  "desk = \<lparr>me_store = memory, me_backend = in_process_backend (\<lambda>_ _. Inr adder),
     me_agents = \<lparr>rg_by_name = [(''adder'', desk_manifest)], rg_by_capability = []\<rparr>,
     me_tools = register_impl ADD_DESCRIPTOR add_tool \<lparr>tl_impls = [], tl_descriptors = []\<rparr>,
     me_verifiers = [(''adder'', \<lambda>t v. Inr \<lparr>vf_passed = v = PInt 5, vf_message = []\<rparr>)],
     me_clock = int, me_seconds = (\<lambda>d. show_int d @ ''.0''), me_schedule = (\<lambda>_. [])\<rparr>"

definition desk_task :: "string list \<Rightarrow> policy option \<Rightarrow> task" where
  "desk_task names p = \<lparr>tk_version = Task_V6, tk_id = ''t'', tk_agent = Some ''adder'', tk_capability = None, tk_payload = PNone,
     tk_envelope = \<lparr>te_timeout = 100, te_max_steps = 5, te_step = None\<rparr>, tk_tools = names, tk_pipeline = None, tk_parallel = None, tk_policy = p\<rparr>"

lemma tools_named_desk: "tools_named (me_tools desk)"
  by (simp add: desk_def, rule tools_named_register, simp add: tools_named_def)

definition desk_run :: "(exc + outcome) \<times> mem manager" where
  "desk_run = run desk (desk_task [''add''] None) (new_manager [])"

lemma desk_result: "case fst desk_run of Inr oc \<Rightarrow> map_option vr_output (oc_result oc) = Some (PInt 5) | Inl e \<Rightarrow> False"
  unfolding desk_run_def desk_def desk_task_def by code_simp

lemma desk_calls: "map fst (rs_calls (mg_state (snd desk_run))) = [''add'']"
  unfolding desk_run_def desk_def desk_task_def by code_simp

text \<open>The same without the grant, and under a policy that denies the tool.\<close>

lemma desk_ungranted: "rs_calls (mg_state (snd (run desk (desk_task [] None) (new_manager [])))) = []"
  unfolding desk_def desk_task_def by code_simp

definition no_adding :: policy where
  "no_adding = \<lparr>po_version = Policy_V1, po_allow_agents = [], po_deny_agents = [], po_allow_capabilities = [],
     po_deny_capabilities = [], po_allow_tools = [], po_deny_tools = [''add'']\<rparr>"

section \<open>A run does not raise\<close>

text \<open>A store whose exceptions are store errors, for the names the manager uses.\<close>

definition store_calm :: "'st tstore \<Rightarrow> bool" where
  "store_calm S \<longleftrightarrow>
     (\<forall>i r st e st'. ts_append S i r st = (Inl e, st') \<longrightarrow> is_store_error e) \<and>
     (\<forall>i oc st e st'. ts_outcome S i oc st = (Inl e, st') \<longrightarrow> is_store_error e) \<and>
     (\<forall>i t a st e st'. i \<noteq> [] \<longrightarrow> ts_begin S i t a st = (Inl e, st') \<longrightarrow> is_store_error e)"

definition verifiers_calm :: "verifier dict \<Rightarrow> bool" where
  "verifiers_calm vs \<longleftrightarrow> (\<forall>a v t out. dget vs a = Some v \<longrightarrow> (\<exists>vf. v t out = Inr vf))"

lemma store_calm_memory: "store_calm memory"
  by (auto simp: store_calm_def mem_defs rejectR_def already_exists_def already_recorded_def is_store_error_def
      split: if_splits option.splits)

lemma store_calmD:
  "store_calm S \<Longrightarrow> ts_append S i r st = (Inl e, st') \<Longrightarrow> is_store_error e"
  "store_calm S \<Longrightarrow> ts_outcome S i oc st = (Inl e, st') \<Longrightarrow> is_store_error e"
  "store_calm S \<Longrightarrow> i \<noteq> [] \<Longrightarrow> ts_begin S i t a st = (Inl e, st') \<Longrightarrow> is_store_error e"
  unfolding store_calm_def by blast+

lemma verifiers_calmD:
  assumes "verifiers_calm vs"
  shows "run_verifier vs a t out \<noteq> Inl e"
proof (cases "dget vs a")
  case (Some v)
  then obtain vf where "v t out = Inr vf" using assms unfolding verifiers_calm_def by blast
  then show ?thesis by (simp add: run_verifier_def Some)
qed (simp add: run_verifier_def)

lemma calm_rules:
  assumes "store_calm (me_store E)" "verifiers_calm (me_verifiers E)"
  shows "run_rules (\<lambda>s. indexed (rs_steps s)) (\<lambda>_ _. True) E (\<lambda>_. False) (\<lambda>_. True)"
  by unfold_locales (auto simp: same_record_def indexed_snoc verifiers_calmD [OF assms(2)] dest: store_calmD [OF assms(1)])

lemma desk_calm: "store_calm (me_store desk)" "verifiers_calm (me_verifiers desk)"
  by (simp_all add: desk_def store_calm_memory verifiers_calm_def dget_Cons split: if_splits)

text \<open>C12: \<open>run\<close> never raises, whatever the agents, the tools, the clock and the schedule do, as long as
  the store raises only its own errors and no verifier raises: it returns an outcome that holds a
  result or a failure, not both, and the steps it recorded are numbered from zero without a gap.\<close>

theorem run_never_raises:
  assumes "store_calm (me_store E)" "verifiers_calm (me_verifiers E)"
  shows "\<exists>oc. fst (run E t mg) = Inr oc \<and> (oc_result oc = None) \<noteq> (oc_failure oc = None) \<and>
    indexed (rs_steps (mg_state (snd (run E t mg))))"
proof -
  obtain r s where rs: "run_proc (run_task E t (trajectory_id t (mg_seq mg))) (fresh_run (mg_state mg)) = (r, s)"
    "run E t mg = (r, \<lparr>mg_seq = Suc (mg_seq mg), mg_state = s\<rparr>)" by (rule runE)
  have "indexed (rs_steps (fresh_run (mg_state mg)))" by (simp add: fresh_run_def)
  from run_rules.run_task_rules [OF calm_rules [OF assms] _ trajectory_id_nonempty this rs(1)]
  have "okT (\<lambda>_. False) (sealed (task_result E t)) r" "indexed (rs_steps s)" by simp_all
  then show ?thesis by (cases r) (auto simp: rs(2) sealed_def failed_def)
qed

theorem run_never_raises_witness:
  "\<exists>oc. fst desk_run = Inr oc \<and> (oc_result oc = None) \<noteq> (oc_failure oc = None)"
  using run_never_raises [OF desk_calm, of "desk_task [''add''] None" "new_manager []"] by (auto simp: desk_run_def)

section \<open>Only granted tools\<close>

lemma granted_rules:
  assumes "tools_named (me_tools E)"
  shows "run_rules (\<lambda>_. True) (\<lambda>s s'. \<exists>cs. rs_calls s' = rs_calls s @ cs \<and> (\<forall>c \<in> set cs. granted t (fst c))) E (\<lambda>_. True) (granted t)"
  by unfold_locales (use assms in \<open>auto simp: same_record_def\<close>)

lemma silent_rules:
  "tools_named (me_tools E) \<Longrightarrow> run_rules (\<lambda>_. True) (\<lambda>s s'. rs_calls s' = rs_calls s) E (\<lambda>_. True) (\<lambda>_. False)"
  by unfold_locales (auto simp: same_record_def)

lemma denied_silent:
  assumes "denied t" "tools_named (me_tools E)"
  shows "rs_calls (mg_state (snd (run E t mg))) = rs_calls (mg_state mg) \<and> okT (\<lambda>_. True) failed (fst (run E t mg))"
proof -
  obtain r s where rs: "run_proc (run_task E t (trajectory_id t (mg_seq mg))) (fresh_run (mg_state mg)) = (r, s)"
    "run E t mg = (r, \<lparr>mg_seq = Suc (mg_seq mg), mg_state = s\<rparr>)" by (rule runE)
  show ?thesis
    using run_rules.run_denied_rules [OF silent_rules [OF assms(2)] assms(1) trajectory_id_nonempty TrueI rs(1)]
    by (simp add: rs(2) fresh_run_def)
qed

text \<open>C6: Every tool that a run executes is one that the task grants, to itself or, in a composition, to
  one of its stages, and that its policy permits, whatever the agents request and however the worker
  threads are scheduled.\<close>

theorem only_granted_tools_run:
  assumes "tools_named (me_tools E)"
  shows "\<exists>cs. rs_calls (mg_state (snd (run E t mg))) = rs_calls (mg_state mg) @ cs \<and>
    (\<forall>c \<in> set cs. granted t (fst c) \<and> (\<forall>p. tk_policy t = Some p \<longrightarrow> permits (po_allow_tools p) (po_deny_tools p) (fst c)))"
proof (cases "denied t")
  case True
  then show ?thesis using denied_silent [OF True assms] by simp
next
  case False
  obtain r s where rs: "run_proc (run_task E t (trajectory_id t (mg_seq mg))) (fresh_run (mg_state mg)) = (r, s)"
    "run E t mg = (r, \<lparr>mg_seq = Suc (mg_seq mg), mg_state = s\<rparr>)" by (rule runE)
  have "\<exists>cs. rs_calls s = rs_calls (mg_state mg) @ cs \<and> (\<forall>c \<in> set cs. granted t (fst c))"
    using run_rules.run_task_rules(2) [OF granted_rules [OF assms] _ trajectory_id_nonempty TrueI rs(1)] by (simp add: fresh_run_def)
  then show ?thesis using granted_permitted [OF False] by (auto simp: rs(2))
qed

theorem only_granted_tools_run_witness:
  "map fst (rs_calls (mg_state (snd desk_run))) = [''add''] \<and> granted (desk_task [''add''] None) ''add''"
proof -
  obtain cs where cs: "rs_calls (mg_state (snd desk_run)) = cs" "\<forall>c \<in> set cs. granted (desk_task [''add''] None) (fst c)"
    using only_granted_tools_run [OF tools_named_desk, of "desk_task [''add''] None" "new_manager []"]
    by (auto simp: desk_run_def new_manager_def)
  then obtain c where "c \<in> set cs" "fst c = ''add''" using desk_calls by auto
  then show ?thesis using cs desk_calls by auto
qed

section \<open>A denied task\<close>

text \<open>What follows the policy gate does not matter to a denied task, so neither do the agents' code,
  the tools and the verifiers.\<close>

abbreviation refitted :: "('s, 'st) menv \<Rightarrow> 's backend \<Rightarrow> tools \<Rightarrow> verifier dict \<Rightarrow> ('s, 'st) menv" where
  "refitted E b ts vs \<equiv> E\<lparr>me_backend := b, me_tools := ts, me_verifiers := vs\<rparr>"

lemma refitted_actions:
  "append_locked (refitted E b ts vs) = append_locked E" "store_begin (refitted E b ts vs) = store_begin E"
  "store_outcome (refitted E b ts vs) = store_outcome E" "now (refitted E b ts vs) = now E"
  "record_failure (refitted E b ts vs) = record_failure E" "resolve_stage (refitted E b ts vs) = resolve_stage E"
  by (simp_all add: append_locked_def store_begin_def store_outcome_def now_def record_failure_def resolve_stage_def fun_eq_iff)

lemma refitted_gate:
  "policy_gate (refitted E b ts vs) = policy_gate E" "run_unknown_agent (refitted E b ts vs) = run_unknown_agent E"
  "first_agent (refitted E b ts vs) = first_agent E"
  by (simp_all add: policy_gate_def evaluate_task_policy_def policy_violation_def run_unknown_agent_def first_agent_def
      refitted_actions fun_eq_iff cong: if_cong split: option.split list.split)

lemma begin_run_denied:
  assumes "denied t"
  shows "run_proc (begin_run (refitted E b ts vs) t a tid body) s = run_proc (begin_run E t a tid body') s"
proof -
  obtain p c where pc: "tk_policy t = Some p" "find (\<lambda>c. \<not> pd_allowed (fst c)) (task_checks p t) = Some c"
    using denied_found [OF assms] by blast
  have "run_proc (bindT (policy_gate E t a tid) (\<lambda>denied. case denied of Some oc \<Rightarrow> retT oc | None \<Rightarrow> m)) s'
      = run_proc (policy_violation E t a tid (denial c)) s'" for m s'
    by (auto simp: policy_gate_def evaluate_task_policy_def pc run_bindT split: prod.split sum.split)
  then show ?thesis
    by (auto simp: begin_run_def refitted_actions refitted_gate run_bindT on_store_error_def split: prod.split sum.split option.split)
qed

lemma run_bindT_cong: "(\<And>x t. run_proc (f x) t = run_proc (g x) t) \<Longrightarrow> run_proc (bindT m f) s = run_proc (bindT m g) s"
  by (simp add: run_bindT split: prod.split sum.split)

lemma run_denied_eq:
  assumes "denied t"
  shows "run (refitted E b ts vs) t mg = run E t mg"
proof -
  have "run_proc (run_task (refitted E b ts vs) t tid) s = run_proc (run_task E t tid) s" for tid s
    by (auto simp: run_task_def run_single_def run_parallel_def run_pipeline_def refitted_actions refitted_gate
      intro!: run_bindT_cong begin_run_denied [OF assms] split: option.split)
  then show ?thesis by (simp add: run_def)
qed

text \<open>C15: A task that its policy denies, in itself or in one of its stages, starts nothing: the outcome,
  the store and every other effect are the same for any agents, tools and verifiers, no tool is
  called, and no result is returned.\<close>

theorem denied_task_starts_nothing:
  assumes "denied t"
  shows "run (E\<lparr>me_backend := b, me_tools := ts, me_verifiers := vs\<rparr>) t mg = run E t mg \<and>
    rs_calls (mg_state (snd (run E t mg))) = rs_calls (mg_state mg) \<and>
    (\<forall>oc. fst (run E t mg) = Inr oc \<longrightarrow> oc_result oc = None)"
proof -
  let ?E = "refitted E (me_backend E) \<lparr>tl_impls = [], tl_descriptors = []\<rparr> (me_verifiers E)"
  have "tools_named (me_tools ?E)" by (simp add: tools_named_def)
  from denied_silent [OF assms this, of mg] show ?thesis
    unfolding run_denied_eq [OF assms] by (auto simp: okT_def failed_def split: sum.splits)
qed

theorem denied_task_starts_nothing_witness:
  "denied (desk_task [''add''] (Some no_adding)) \<and>
    rs_calls (mg_state (snd (run desk (desk_task [''add''] (Some no_adding)) (new_manager [])))) = []"
proof -
  have d: "denied (desk_task [''add''] (Some no_adding))"
    by (simp add: denied_def denied_tools_def desk_task_def no_adding_def permits_def)
  show ?thesis using d denied_task_starts_nothing [OF d, where E = desk and mg = "new_manager []"] by (simp add: new_manager_def)
qed

section \<open>What a result rests on\<close>

text \<open>C2: A result is returned only for accepted outputs, whatever the agents, tools, store, clock and
  schedule do. For one agent the verifier registered for it accepted the value. For a parallel
  composition it is the join of the accepted outputs in the order in which the stages are declared.
  For a sequential composition every stage produced a result on what the stage before it handed
  off, and every hand-off satisfies the schemas that its two stages declare.\<close>

theorem result_rests_on_accepted_outputs:
  assumes "fst (run E t mg) = Inr oc" "oc_result oc = Some vr"
  shows "task_result E t (vr_output vr)"
proof -
  obtain r s where rs: "run_proc (run_task E t (trajectory_id t (mg_seq mg))) (fresh_run (mg_state mg)) = (r, s)"
    "run E t mg = (r, \<lparr>mg_seq = Suc (mg_seq mg), mg_state = s\<rparr>)" by (rule runE)
  have "okT (\<lambda>_. True) (sealed (task_result E t)) r" using any_run.run_task_rules(3) [OF _ _ _ rs(1)] by simp
  then show ?thesis using assms by (simp add: rs(2) sealed_def failed_def)
qed

theorem result_rests_on_accepted_outputs_witness:
  "\<exists>oc vr. fst desk_run = Inr oc \<and> oc_result oc = Some vr \<and> vr_output vr = PInt 5 \<and> task_result desk (desk_task [''add''] None) (PInt 5)"
proof -
  obtain oc vr where oc: "fst desk_run = Inr oc" "oc_result oc = Some vr" "vr_output vr = PInt 5"
    using desk_result by (auto split: sum.splits)
  then show ?thesis using result_rests_on_accepted_outputs [OF oc(1) [unfolded desk_run_def] oc(2)] by auto
qed

end
