(* ===== verification/Manager_Durable.thy ===== *)
theory Manager_Durable
  imports Manager_Props
begin

text \<open>
  A result is durable. The methods of the manager are followed on any store that satisfies the contract
  of \<open>Store_Contract\<close>: as long as every append was accepted, the store holds the recorded steps
  (\<open>faithful\<close>); a method whose append was refused returns a failure, whatever other threads do
  (\<open>failstop\<close>); so a run that returns a result has written all of its steps and the outcome.
\<close>

section \<open>Threads that stop, and the others\<close>

lemma failstop_handled:
  "failstop I (\<lambda>_. False) m \<Longrightarrow> (\<And>e. failstop I B (h e)) \<Longrightarrow> failstop I B (tryT m h)"
  unfolding tryT_def by (erule failstop_bindP) (auto intro: failstop_retT split: sum.split)

lemma failstop_kept_bind:
  "failstop I (\<lambda>_. False) m \<Longrightarrow> (\<And>x. failstop I (\<lambda>_. False) (f x)) \<Longrightarrow> failstop I (\<lambda>_. False) (bindT m f)"
  unfolding bindT_def by (erule failstop_bindP) (auto intro: failstop_Ret split: sum.split)

lemma failstop_kept: "failstop I (\<lambda>_. False) m \<Longrightarrow> failstop I B m"
  by (erule failstop_mono) simp

lemma failstop_if: "(b \<Longrightarrow> failstop I B m) \<Longrightarrow> (\<not> b \<Longrightarrow> failstop I B n) \<Longrightarrow> failstop I B (if b then m else n)"
  by simp

text \<open>What is known of every value that a thread returns may be used after it.\<close>

lemma doomed_True: "doomed (fatal (\<lambda>_. True)) p"
proof (induction p)
  case (Ret a)
  then show ?case by (simp add: okT_def split: sum.split)
next
  case (Act g)
  have "doomed (fatal (\<lambda>_. True)) (fst (g s))" for s
    by (rule Act [of "g s"]) (metis fsts.simps prod.collapse rangeI)+
  then show ?case by (simp add: guarded_Act_iff)
qed

lemma failstop_bindP_value:
  assumes "failstop I C p" "doomed V p" "\<And>a. C a \<Longrightarrow> V a \<Longrightarrow> doomed B (f a)" "\<And>a. V a \<Longrightarrow> failstop I B (f a)"
  shows "failstop I B (bindP p f)"
  using assms(1,2)
proof (induction rule: failstop.induct)
  case (failstop_Ret a)
  then show ?case by (simp add: assms(4))
next
  case (failstop_Act g)
  have V: "doomed V (fst (g s))" for s using failstop_Act(2) by (simp add: guarded_Act_iff)
  have "doomed B (bindP q f)" if "doomed C q" "doomed V q" for q
    using that
  proof (induction rule: guarded.induct)
    case (guarded_Ret a)
    then show ?case by (simp add: assms(3))
  next
    case (guarded_Act g)
    then show ?case by (auto simp: guarded_Act_iff)
  qed
  then show ?case using failstop_Act V by (auto simp: failstop_Act_iff)
qed

lemma failstop_bindT_value:
  assumes "failstop I (fatal C) m" "doomed (fatal V) m"
    "\<And>x. C x \<Longrightarrow> V x \<Longrightarrow> doomed (fatal B) (f x)" "\<And>x. V x \<Longrightarrow> failstop I (fatal B) (f x)"
  shows "failstop I (fatal B) (bindT m f)"
  unfolding bindT_def
  by (rule failstop_bindP_value [OF assms(1,2)]) (auto split: sum.splits intro: assms(3,4) failstop_Ret simp: okT_def)

text \<open>A halt in place of a value.\<close>

abbreviation halts :: "halt + 'b \<Rightarrow> bool" where
  "halts \<equiv> halts_or (\<lambda>_. False)"

lemma halts_cases [simp]: "halts (Inr v) = False"
  by simp

locale durable_run = trajectory_store S inv nstep nout fits_name fits_step fits_out
  for S :: "'st tstore" and inv nstep nout fits_name fits_step fits_out +
  fixes E :: "('s, 'st) menv" and tid :: string
  assumes store_used: "me_store E = S"
begin

definition faithful :: "'st rstate \<Rightarrow> bool" where
  "faithful s \<longleftrightarrow> ((\<forall>r \<in> set (rs_steps s). fits_step r) \<longrightarrow> inv (rs_store s) \<and>
     (\<exists>tr. ts_load S tid (rs_store s) = Inr (Some tr) \<and> sd_steps tr = map nstep (rs_steps s) \<and> sd_outcome tr = stored_interrupted))"

lemma faithful_same: "faithful s \<Longrightarrow> rs_store s' = rs_store s \<Longrightarrow> rs_steps s' = rs_steps s \<Longrightarrow> faithful s'"
  by (simp add: faithful_def)

abbreviation stops :: "('b \<Rightarrow> bool) \<Rightarrow> ('st, 'b) rthread \<Rightarrow> bool" where
  "stops B m \<equiv> failstop faithful (fatal B) m"

section \<open>Actions\<close>

lemma stops_simple:
  "stops A (now E)" "stops B step_count" "stops C cancel_set" "stops B open_session" "stops D (close_session n)"
  by (auto simp: now_def step_count_def cancel_set_def open_session_def close_session_def
      intro!: failstop_updT elim: faithful_same)

lemma stops_after:
  "(\<And>x. stops B (f x)) \<Longrightarrow> stops B (bindT (now E) f)" "(\<And>n. stops B (g n)) \<Longrightarrow> stops B (bindT step_count g)"
  by (rule failstop_bindT [where C = "\<lambda>_. False"], simp_all add: stops_simple)+

lemma stops_append: "stops Not (append_locked E tid r)"
  unfolding append_locked_def
proof (rule failstop_actT)
  fix s assume s: "faithful s"
  define r' where "r' = r\<lparr>sr_index := int (length (rs_steps s))\<rparr>"
  obtain res st where app: "ts_append S tid r' (rs_store s) = (res, st)" by force
  have "faithful (s\<lparr>rs_steps := rs_steps s @ [r'], rs_store := st\<rparr>)" if "res = Inr ()"
    unfolding faithful_def
  proof
    assume fits: "\<forall>q \<in> set (rs_steps (s\<lparr>rs_steps := rs_steps s @ [r'], rs_store := st\<rparr>)). fits_step q"
    then obtain tr where tr: "inv (rs_store s)" "ts_load S tid (rs_store s) = Inr (Some tr)"
      "sd_steps tr = map nstep (rs_steps s)" "sd_outcome tr = stored_interrupted"
      using s by (auto simp: faithful_def)
    have "fits_step r'" using fits by simp
    from append_ok [OF tr(1) this tr(2) app [unfolded that]] tr
    show "inv (rs_store (s\<lparr>rs_steps := rs_steps s @ [r'], rs_store := st\<rparr>)) \<and>
      (\<exists>tr. ts_load S tid (rs_store (s\<lparr>rs_steps := rs_steps s @ [r'], rs_store := st\<rparr>)) = Inr (Some tr) \<and>
        sd_steps tr = map nstep (rs_steps (s\<lparr>rs_steps := rs_steps s @ [r'], rs_store := st\<rparr>)) \<and> sd_outcome tr = stored_interrupted)"
      by simp
  qed
  then show "faithful (snd (let r' = r\<lparr>sr_index := int (length (rs_steps s))\<rparr>; s' = s\<lparr>rs_steps := rs_steps s @ [r']\<rparr> in
      case ts_append (me_store E) tid r' (rs_store s) of (Inr u, st) \<Rightarrow> (Inr True, s'\<lparr>rs_store := st\<rparr>)
      | (Inl e, st) \<Rightarrow> (if is_store_error e then Inr False else Inl e, s'\<lparr>rs_store := st\<rparr>))) \<or>
    fatal Not (fst (let r' = r\<lparr>sr_index := int (length (rs_steps s))\<rparr>; s' = s\<lparr>rs_steps := rs_steps s @ [r']\<rparr> in
      case ts_append (me_store E) tid r' (rs_store s) of (Inr u, st) \<Rightarrow> (Inr True, s'\<lparr>rs_store := st\<rparr>)
      | (Inl e, st) \<Rightarrow> (if is_store_error e then Inr False else Inl e, s'\<lparr>rs_store := st\<rparr>)))"
    by (cases res) (simp_all add: store_used Let_def app [unfolded r'_def] r'_def)
qed

lemma stops_appended:
  "doomed (fatal B) (f False) \<Longrightarrow> stops B (f True) \<Longrightarrow> stops B (bindT (append_locked E tid r) f)"
  by (rule failstop_bindT [OF stops_append]) (auto intro: doomed_failstop split: bool.split, metis (full_types) doomed_failstop)

lemma stops_run_tool: "stops B (run_tool E name args)"
proof -
  have "failstop faithful (\<lambda>_. False) (call_tool E name args)"
    unfolding call_tool_def actT_def by (auto simp: failstop_Act_iff intro: failstop_Ret elim: faithful_same)
  then show ?thesis unfolding run_tool_def
    by (intro failstop_handled failstop_kept_bind) (auto intro: failstop_retT split: if_splits)
qed

lemma doomed_ret: "Q x \<Longrightarrow> doomed (fatal Q) (retT x)"
  by (rule guarded_retT)

lemma stops_mediate:
  assumes "ex_tid Y = tid"
  shows "stops (\<lambda>d. d = None) (mediate_tool E Y name args)"
  unfolding mediate_tool_def assms
  by (intro failstop_if stops_appended failstop_bindT [OF stops_run_tool [of "\<lambda>_. False"]])
    (auto intro!: stops_appended doomed_ret failstop_retT split: sum.split)

lemma stops_persist:
  assumes "ex_tid Y = tid"
  shows "stops (\<lambda>r. \<exists>oc. r = Some oc \<and> failed oc) (persist_step E Y d detail elapsed)"
  unfolding persist_step_def assms
  by (intro stops_after stops_appended) (auto intro!: failstop_retT guarded_bindT [OF any_run.ok_record_failure] doomed_ret)

section \<open>One agent\<close>

lemma doomed_halt: "doomed (fatal halts) (halt_with E Y reason msg)" "doomed (fatal halts) (fail_run E Y n reason msg)"
  "doomed (fatal halts) (cancel_run E Y n se reason msg)"
  by (rule any_run.ok_halt any_run.ok_fail any_run.ok_cancel)+

lemmas stops_halt = doomed_halt [THEN doomed_failstop]

lemma stops_first_of: "(\<And>m. m \<in> set ms \<Longrightarrow> stops (\<lambda>_. False) m) \<Longrightarrow> stops (\<lambda>_. False) (first_of ms)"
  by (induction ms) (auto intro!: failstop_retT failstop_bindT [where C = "\<lambda>_. False"] split: option.split)

lemma stops_guard: "stops (\<lambda>_. False) (turn_guard E Y)"
proof -
  have "stops (\<lambda>_. False) (check_cancel Y)"
    unfolding check_cancel_def
    by (intro failstop_if failstop_retT failstop_bindT [where C = "\<lambda>_. False"] stops_simple) simp_all
  moreover have "stops (\<lambda>_. False) (check_comp_time E Y)" "stops (\<lambda>_. False) (check_time E Y)" "stops (\<lambda>_. False) (check_comp_steps Y)"
    unfolding check_comp_time_def check_time_def check_comp_steps_def
    by (auto intro!: stops_after failstop_retT split: option.split)
  ultimately show ?thesis unfolding turn_guard_def by (intro stops_first_of) auto
qed

lemma stops_loop:
  assumes Y: "ex_tid Y = tid"
  shows "stops halts (agent_loop E Y n left se s)"
proof (induction left arbitrary: se s rule: less_induct)
  case (less left)
  note guard = failstop_bindT [OF stops_guard [of Y], where B = halts]
  show ?case
  proof (cases left)
    case 0
    then show ?thesis by (auto intro!: guard stops_halt split: option.split)
  next
    case (Suc l)
    have loop: "stops halts (agent_loop E Y n l' se' s')" if "l' \<le> l" for l' se' s'
      using less.IH that Suc by simp
    have stepped: "stops halts (bindT (persist_step E Y d detail elapsed) (\<lambda>lost. case lost of
        None \<Rightarrow> agent_loop E Y n l se' No_Value
      | Some oc \<Rightarrow> if ex_worker Y then halt_with E Y INTERNAL
            (case oc_failure oc of Some f \<Rightarrow> fl_message f | None \<Rightarrow> ''Failed to persist step.'')
          else retT (Inl (Recorded oc))))" for d detail elapsed se'
      by (rule failstop_bindT [OF stops_persist [OF Y]])
        (auto intro!: loop stops_halt doomed_halt doomed_ret failstop_retT split: option.split)
    have tool: "stops halts (bindT (mediate_tool E Y name args) (\<lambda>d. case d of
        None \<Rightarrow> fail_run E Y n INTERNAL ''Tool mediation could not be durably recorded.''
      | Some dv \<Rightarrow> agent_loop E Y n (l - (dv_consumed dv - Suc 0)) se' (Tool_Value (dv_result dv))))" for name args se'
      by (rule failstop_bindT [OF stops_mediate [OF Y]]) (auto intro!: loop stops_halt doomed_halt split: option.split)
    show ?thesis unfolding Suc agent_loop.simps
      by (auto intro!: guard stops_halt failstop_retT stepped tool stops_after split: option.split prod.split reply.split item.split)
  qed
qed

lemma stops_start: "stops halts (start_agent E Y)"
  unfolding start_agent_def
  by (rule failstop_tryT)
    (auto intro!: stops_halt doomed_halt failstop_retT failstop_bindT [where C = "\<lambda>_. False"] split: option.split)

lemma stops_verify: "stops halts (verify_output E Y n v)"
  unfolding verify_output_def
  by (rule failstop_bindT [where C = "\<lambda>_. False"])
    (auto intro!: stops_halt failstop_retT failstop_thenT stops_simple)

lemma stops_execute:
  assumes Y: "ex_tid Y = tid"
  shows "stops halts (execute_agent E Y)"
proof -
  have "stops halts (tryT (agent_loop E Y n l se s) (\<lambda>e. fail_run E Y n AGENT_ERROR (''Agent raised an exception: '' @ exc_text e)))"
    for n l se s by (rule failstop_tryT [OF stops_loop [OF Y] doomed_halt(2)])
  note loop = failstop_bindT [OF this]
  have "stops halts (drive_agent E Y se)" for se
    unfolding drive_agent_def
    by (rule failstop_bindT [where C = "\<lambda>_. False", OF stops_simple(4)], simp)
      (rule loop, auto intro!: stops_verify failstop_retT doomed_ret split: sum.split)
  then show ?thesis unfolding execute_agent_def
    by (intro failstop_bindT [OF stops_start]) (auto intro!: failstop_retT doomed_ret split: sum.split)
qed

section \<open>A group\<close>

lemma stops_begin_stages: "stops isl (begin_stages E t tid k ss)"
proof (induction ss arbitrary: k)
  case (Cons s ss)
  show ?case
    by (auto intro!: failstop_retT doomed_ret stops_appended stops_after failstop_bindT [OF Cons.IH] split: option.split sum.split)
qed (simp add: failstop_retT)

lemma stops_dispatch:
  assumes "\<forall>Y \<in> set Ys. ex_tid Y = tid"
  shows "stops (\<lambda>xs. length xs = length Ys \<and> (\<exists>x \<in> set xs. isl x)) (dispatch_stages E Ys)"
  unfolding dispatch_stages_def
proof (rule failstop_updT)
  fix s assume s: "faithful s"
  define sched where "sched = me_schedule E (length (rs_steps s))"
  obtain rs s' where run: "run_threads joiner sched (map (execute_agent E) Ys) s = (rs, s')" by force
  have "\<forall>p \<in> set (map (execute_agent E) Ys). failstop faithful (fatal halts) p" using assms stops_execute by auto
  moreover have "faithful s \<Longrightarrow> faithful (joiner a s)" for a :: "exc + (halt + pyval)" and s
    by (auto simp: joiner_def elim: faithful_same split: sum.split)
  ultimately have "faithful s' \<or> (\<exists>a \<in> set rs. fatal halts a)"
    using threads_failstop [of faithful joiner _ "fatal halts" s sched] s by (metis run fst_conv snd_conv)
  moreover have "fatal halts a \<Longrightarrow> isl (raised_failure a)" for a :: "exc + (halt + pyval)"
    by (auto simp: raised_failure_def okT_def halts_or_def split: sum.splits)
  moreover have "length rs = length Ys" by (metis run run_threads_length fst_conv length_map)
  ultimately show "faithful (snd (case run_threads joiner (me_schedule E (length (rs_steps s))) (map (execute_agent E) Ys) s of (rs, s') \<Rightarrow> (map raised_failure rs, s'))) \<or>
     length (fst (case run_threads joiner (me_schedule E (length (rs_steps s))) (map (execute_agent E) Ys) s of (rs, s') \<Rightarrow> (map raised_failure rs, s'))) = length Ys \<and>
     (\<exists>x \<in> set (fst (case run_threads joiner (me_schedule E (length (rs_steps s))) (map (execute_agent E) Ys) s of (rs, s') \<Rightarrow> (map raised_failure rs, s'))). isl x)"
    by (auto simp: run [unfolded sched_def])
qed

lemma doomed_join:
  "length xs = length rs \<Longrightarrow>
    doomed (fatal (\<lambda>(joined, f, accounts). \<not> b \<and> (\<exists>x \<in> set xs. isl x) \<longrightarrow> f \<noteq> None)) (join_results E k rs xs b)"
proof (induction xs arbitrary: rs k b)
  case Nil
  then show ?case by (simp add: doomed_ret)
next
  case (Cons x xs)
  then obtain s a start rs' where rs: "rs = (s, a, start) # rs'" "length xs = length rs'"
    by (cases rs) auto
  note IH = guarded_bindT [OF Cons.IH [OF rs(2)]]
  show ?case unfolding rs(1) join_results.simps Let_def
    by (rule any_run.ok_now, cases x) (auto intro!: IH doomed_ret split: prod.split)
qed

lemma stops_join: "stops (\<lambda>_. False) (join_results E k rs xs b)"
proof (induction xs arbitrary: rs k b)
  case Nil
  show ?case by (cases rs) (auto intro: failstop_retT)
next
  case (Cons x xs)
  show ?case
  proof (cases rs)
    case (Cons r rs')
    obtain s a start where r: "r = (s, a, start)" by (cases r) auto
    note IH = failstop_bindT [OF Cons.IH]
    show ?thesis unfolding Cons r join_results.simps Let_def
      by (rule stops_after, cases x) (auto intro!: IH failstop_retT split: prod.split)
  qed (simp add: failstop_retT)
qed

lemma stops_resolved: "stops isl (run_resolved E t tid cl start payload rs)"
proof -
  have "ex_tid (group_exec E t tid cl payload r) = tid" for r by (cases r) (simp add: group_exec_def)
  then have dispatch: "stops (\<lambda>xs. length xs = length (map (group_exec E t tid cl payload) rs) \<and> (\<exists>x \<in> set xs. isl x))
      (dispatch_stages E (map (group_exec E t tid cl payload) rs))" by (intro stops_dispatch) auto
  show ?thesis unfolding run_resolved_def
  proof (rule failstop_bindT [OF dispatch])
    fix xs :: "(halt + pyval) list"
    assume xs: "length xs = length (map (group_exec E t tid cl payload) rs) \<and> (\<exists>x \<in> set xs. isl x)"
    then have "length xs = length rs" by simp
    note join = guarded_bindT [OF doomed_join [OF this]]
    show "doomed (fatal isl) (bindT (join_results E 0 rs xs False) (\<lambda>(joined, failure, accounts).
     bindT (now E) (\<lambda>end.
     bindT (append_locked E tid (step_of Completed ''parallel group end'' PNone (PDict [(''stages'', PList accounts)]) PNone
         (me_seconds E (end - start)))) (\<lambda>kept.
       if \<not> kept then retT (Inl \<lparr>sf_reason = INTERNAL, sf_message = ''Failed to persist parallel group end step.''\<rparr>)
       else case failure of Some h \<Rightarrow> retT (Inl (halt_failure h)) | None \<Rightarrow> retT (Inr joined)))))"
      by (rule join) (use xs in \<open>auto intro!: any_run.ok_now any_run.ok_appended doomed_ret split: option.split\<close>)
  next
    fix xs :: "(halt + pyval) list"
    show "stops isl (bindT (join_results E 0 rs xs False) (\<lambda>(joined, failure, accounts).
     bindT (now E) (\<lambda>end.
     bindT (append_locked E tid (step_of Completed ''parallel group end'' PNone (PDict [(''stages'', PList accounts)]) PNone
         (me_seconds E (end - start)))) (\<lambda>kept.
       if \<not> kept then retT (Inl \<lparr>sf_reason = INTERNAL, sf_message = ''Failed to persist parallel group end step.''\<rparr>)
       else case failure of Some h \<Rightarrow> retT (Inl (halt_failure h)) | None \<Rightarrow> retT (Inr joined)))))"
      by (rule failstop_bindT [OF stops_join])
        (auto intro!: stops_after stops_appended doomed_ret failstop_retT split: option.split)
  qed
qed

lemma stops_group: "stops isl (run_parallel_group E t p tid cl start payload)"
  unfolding run_parallel_group_def Let_def
  by (intro stops_appended) (auto intro!: doomed_ret failstop_retT failstop_bindT [OF stops_begin_stages] stops_resolved split: sum.split)

section \<open>A stage of a pipeline\<close>

definition work_fails :: "outcome + (halt + pyval) \<Rightarrow> bool" where
  "work_fails w \<longleftrightarrow> (case w of Inl oc \<Rightarrow> failed oc | Inr r \<Rightarrow> halts r)"

definition stage_fails :: "outcome + 'x \<Rightarrow> bool" where
  "stage_fails r \<longleftrightarrow> (case r of Inl oc \<Rightarrow> failed oc | Inr _ \<Rightarrow> False)"

lemma work_fails_simps [simp]:
  "work_fails (Inl oc) = failed oc" "work_fails (Inr (Inl h)) = failed_halt h" "\<not> work_fails (Inr (Inr v))"
  "stage_fails (Inl oc) = failed oc" "\<not> stage_fails (Inr x)"
  by (simp_all add: work_fails_def stage_fails_def)

lemma stops_work: "stops work_fails (stage_work E t a tid cl stage name start payload accounts)"
proof (cases stage)
  case (Group p)
  have sad: "doomed (fatal work_fails) (bindT (stage_failure_to_outcome E t a tid accounts f) (\<lambda>oc. retT (Inl oc)))" for f
    unfolding stage_failure_to_outcome_def
    by (rule guarded_bindT [OF any_run.ok_after_failure [OF any_run.ok_record_failure]]) (simp add: doomed_ret)
  show ?thesis unfolding stage_work_def Group stage.case
    by (rule failstop_bindT [OF stops_group]) (auto intro!: sad doomed_failstop [OF sad] failstop_retT split: sum.split)
next
  case (Agent_Stage s)
  have "ex_tid (stage_exec E t tid cl payload s name start) = tid" by (simp add: stage_exec_def)
  note run = failstop_bindT [OF stops_execute [OF this]]
  show ?thesis unfolding stage_work_def Agent_Stage stage.case
    by (rule run) (auto intro!: doomed_ret failstop_retT simp: work_fails_def)
qed

lemma stops_stage: "stops stage_fails (run_stage E t a tid cl k stage payload accounts)"
proof (cases "stage_names E k stage")
  case (Inl msg)
  have "doomed (fatal stage_fails) (bindT (record_failure E t a tid UNKNOWN_AGENT msg) (\<lambda>oc. retT (Inl oc :: outcome + pyval \<times> pyval list)))"
    by (rule guarded_bindT [OF any_run.ok_record_failure]) (simp add: doomed_ret)
  then show ?thesis unfolding run_stage_def Inl sum.case by (intro stops_after doomed_failstop)
next
  case (Inr ln)
  obtain label name where ln: "ln = (label, name)" by force
  have lost: "doomed (fatal stage_fails) (bindT (record_failure E t a tid reason msg) (\<lambda>oc. retT (Inl oc :: outcome + pyval \<times> pyval list)))" for reason msg
    by (rule guarded_bindT [OF any_run.ok_record_failure]) (simp add: doomed_ret)
  have halted: "doomed (fatal stage_fails) (bindT (after_summary E t a tid acc (outcome_of_halt E t a tid h)) (\<lambda>oc. retT (Inl oc :: outcome + pyval \<times> pyval list)))"
    if "failed_halt h" for acc h
    by (rule guarded_bindT [OF any_run.ok_after_failure [OF any_run.ok_halt_outcome [OF that]]]) (simp add: doomed_ret)
  have known: "doomed (fatal (\<lambda>w. case w of Inr (Inl h) \<Rightarrow> failed_halt h | _ \<Rightarrow> True)) (stage_work E t a tid cl stage name start payload accounts)" for start
    by (rule any_run.ok_weaken [OF any_run.ok_stage_work [OF _ Inr [unfolded ln], of t]])
      (auto simp: any_run.stage_granted_def any_run.work_spec_def halts_or_def split: sum.splits)
  show ?thesis unfolding run_stage_def Inr sum.case ln prod.case
    by (intro stops_after stops_appended failstop_if failstop_bindT_value [OF stops_work known])
      (auto intro!: lost doomed_ret failstop_retT any_run.ok_now any_run.ok_count stops_after halted doomed_failstop [OF halted]
        simp: Let_def split: sum.splits)
qed

section \<open>Delivery\<close>

text \<open>An outcome with a result is durable when the store holds its steps and its value.\<close>

definition durable :: "outcome \<Rightarrow> 'st rstate \<Rightarrow> bool" where
  "durable oc s \<longleftrightarrow> (\<forall>vr. oc_result oc = Some vr \<longrightarrow> oc_trajectory_id oc = Some tid \<and>
     ((\<forall>r \<in> set (tj_steps (vr_trajectory vr)). fits_step r) \<longrightarrow> fits_out (stored_verified (vr_output vr)) \<longrightarrow>
       (\<exists>tr. ts_load S tid (rs_store s) = Inr (Some tr) \<and> sd_steps tr = map nstep (tj_steps (vr_trajectory vr)) \<and>
          sd_outcome tr = nout (stored_verified (vr_output vr)))))"

lemma durable_failed: "failed oc \<Longrightarrow> durable oc s"
  by (simp add: durable_def failed_def)

definition delivers :: "('st, outcome) rthread \<Rightarrow> bool" where
  "delivers m \<longleftrightarrow> holds faithful m (\<lambda>r s. \<forall>oc. r = Inr oc \<longrightarrow> durable oc s)"

lemma delivers_doomed: "doomed (fatal failed) m \<Longrightarrow> delivers m"
  unfolding delivers_def holds_def
  by (metis durable_failed okT_simps(2) run_doomed)

lemma delivers_bindT_value:
  assumes "stops C m" "doomed (fatal V) m" "\<And>x. C x \<Longrightarrow> V x \<Longrightarrow> doomed (fatal failed) (f x)" "\<And>x. V x \<Longrightarrow> delivers (f x)"
  shows "delivers (bindT m f)"
  unfolding delivers_def holds_def
proof (intro allI impI)
  fix s oc assume s: "faithful s" and oc: "fst (run_proc (bindT m f) s) = Inr oc"
  obtain r s' where m: "run_proc m s = (r, s')" by force
  obtain x where x: "r = Inr x" using oc by (cases r) (auto simp: run_bindT m)
  then have run: "run_proc (bindT m f) s = run_proc (f x) s'" by (simp add: run_bindT m)
  have V: "V x" using run_doomed [OF assms(2), of s] by (simp add: m x)
  have "faithful s' \<or> C x" using run_failstop [OF assms(1) s] by (simp add: m x)
  then show "durable oc (snd (run_proc (bindT m f) s))"
  proof
    assume "faithful s'"
    then show ?thesis using assms(4) [OF V] oc by (auto simp: delivers_def holds_def run)
  next
    assume "C x"
    from run_doomed [OF assms(3) [OF this V]] show ?thesis using oc durable_failed by (metis run okT_simps(2))
  qed
qed

lemma delivers_bindT:
  "stops C m \<Longrightarrow> (\<And>x. C x \<Longrightarrow> doomed (fatal failed) (f x)) \<Longrightarrow> (\<And>x. delivers (f x)) \<Longrightarrow> delivers (bindT m f)"
  by (rule delivers_bindT_value [where C = C and V = "\<lambda>_. True"]) (auto intro: doomed_True)

lemma delivers_after:
  "(\<And>t. delivers (f t)) \<Longrightarrow> delivers (bindT (now E) f)" "(\<And>n. delivers (g n)) \<Longrightarrow> delivers (bindT step_count g)"
  by (rule delivers_bindT [where C = "\<lambda>_. False"], simp_all add: stops_simple)+

lemma delivers_appended:
  "doomed (fatal failed) (f False) \<Longrightarrow> delivers (f True) \<Longrightarrow> delivers (bindT (append_locked E tid r) f)"
  by (rule delivers_bindT [OF stops_append], simp, metis (full_types) delivers_doomed)

lemma delivers_failure: "delivers (record_failure E t a tid reason msg)"
  by (rule delivers_doomed, rule any_run.ok_record_failure)

lemma delivers_success: "delivers (record_success E t a tid v)"
  unfolding delivers_def holds_def
proof (intro allI impI)
  fix s oc assume s: "faithful s" and oc: "fst (run_proc (record_success E t a tid v) s) = Inr oc"
  obtain res st where op: "ts_outcome S tid (stored_verified v) (rs_store s) = (res, st)" by force
  show "durable oc (snd (run_proc (record_success E t a tid v) s))"
  proof (cases res)
    case (Inr u)
    have run: "run_proc (record_success E t a tid v) s =
      (bindR (trajectory_init \<lparr>tj_version = Trajectory_V1, tj_task_id = tk_id t, tj_agent_name = a, tj_steps = rs_steps s\<rparr>) (\<lambda>tj.
         mk_outcome (Some \<lparr>vr_version = Result_V1, vr_task_id = tk_id t, vr_output = v, vr_trajectory = tj\<rparr>) None (Some tid)),
       s\<lparr>rs_store := st\<rparr>)"
      by (simp add: record_success_def on_store_error_def store_outcome_def store_used op Inr run_bindT run_tryT
          build_trajectory_def steps_so_far_def split: sum.split)
    define tj where "tj = \<lparr>tj_version = Trajectory_V1, tj_task_id = tk_id t, tj_agent_name = a, tj_steps = rs_steps s\<rparr>"
    have tj: "tj_steps tj = rs_steps s" "oc_trajectory_id oc = Some tid"
      "oc_result oc = Some \<lparr>vr_version = Result_V1, vr_task_id = tk_id t, vr_output = v, vr_trajectory = tj\<rparr>"
      using oc by (auto simp: run result_simps trajectory_init_iff mk_outcome_def value_error_if_def tj_def)
    have "\<exists>tr. ts_load S tid st = Inr (Some tr) \<and> sd_steps tr = map nstep (rs_steps s) \<and> sd_outcome tr = nout (stored_verified v)"
      if fits: "\<forall>r \<in> set (rs_steps s). fits_step r" "fits_out (stored_verified v)"
    proof -
      obtain tr where tr: "inv (rs_store s)" "ts_load S tid (rs_store s) = Inr (Some tr)" "sd_steps tr = map nstep (rs_steps s)"
        using s fits(1) by (auto simp: faithful_def)
      have "ts_outcome S tid (stored_verified v) (rs_store s) = (Inr (), st)" using op by (simp add: Inr)
      from outcome_ok [OF tr(1) fits(2) tr(2) this] tr(3) show ?thesis by auto
    qed
    then show ?thesis by (simp add: run durable_def tj)
  next
    case (Inl e)
    have "fatal failed (fst (run_proc (record_success E t a tid v) s))"
      using run_doomed [OF any_run.ok_record_failure [of E t a tid INTERNAL "''Failed to persist verified outcome: '' @ exc_text e"]]
      by (simp add: record_success_def on_store_error_def store_outcome_def store_used op Inl run_bindT run_tryT)
    then show ?thesis using oc durable_failed by simp
  qed
qed

section \<open>Runs\<close>

lemma delivers_summary: "delivers m \<Longrightarrow> delivers (after_summary E t a tid accounts m)"
  unfolding after_summary_def persist_stage_summary_def
  by (rule delivers_bindT [where C = Not])
    (auto intro!: stops_after stops_append any_run.ok_record_failure delivers_failure)

lemma stops_handoff:
  "stops (\<lambda>r. \<exists>oc. r = Some oc \<and> failed oc) (validate_stage_handoff E t a tid producing consuming v k)"
proof -
  have lost: "doomed (fatal (\<lambda>r. \<exists>oc. r = Some oc \<and> failed oc)) (bindT (record_failure E t a tid reason msg) (\<lambda>oc. retT (Some oc)))" for reason msg
    by (rule guarded_bindT [OF any_run.ok_record_failure]) (simp add: doomed_ret)
  show ?thesis
  proof (cases "first_rejection v (handoff_checks k producing consuming)")
    case None
    show ?thesis unfolding validate_stage_handoff_def None option.case
      by (intro stops_appended) (simp_all add: lost failstop_retT)
  next
    case (Some le)
    then show ?thesis unfolding validate_stage_handoff_def Some option.case
      by (cases le) (simp add: doomed_failstop [OF lost])
  qed
qed

lemma delivers_loop: "delivers (pipeline_loop E t a tid cl k ss payload accounts)"
proof (induction ss arbitrary: k payload accounts)
  case Nil
  show ?case by (simp add: delivers_summary delivers_success)
next
  case (Cons s ss)
  have given: "delivers (retT oc)" if "failed oc" for oc using that by (intro delivers_doomed doomed_ret)
  have stage: "doomed (fatal (\<lambda>r. case r of Inl oc \<Rightarrow> failed oc | Inr _ \<Rightarrow> True)) (run_stage E t a tid cl k s payload accounts)"
    by (rule any_run.ok_weaken [OF any_run.ok_run_stage]) (auto simp: any_run.stage_granted_def split: sum.splits)
  have handoff: "doomed (fatal failed_opt) (validate_stage_handoff E t a tid s s' v k)" for s' v
    by (rule any_run.ok_weaken [OF any_run.ok_handoff]) simp
  show ?case unfolding pipeline_loop.simps
  proof (rule delivers_bindT_value [OF stops_stage stage])
    fix r :: "outcome + pyval \<times> pyval list" assume r: "case r of Inl oc \<Rightarrow> failed oc | Inr _ \<Rightarrow> True"
    show "delivers (case r of Inl oc \<Rightarrow> retT oc
     | Inr (v, accounts') \<Rightarrow> (case ss of [] \<Rightarrow> pipeline_loop E t a tid cl (Suc k) ss v accounts'
          | consuming # _ \<Rightarrow> bindT (validate_stage_handoff E t a tid s consuming (handed_off v) k) (\<lambda>rejected. case rejected of
                Some oc \<Rightarrow> retT oc
              | None \<Rightarrow> pipeline_loop E t a tid cl (Suc k) ss (handed_off v) accounts')))"
      using r Cons.IH by (auto intro!: given delivers_bindT_value [OF stops_handoff handoff] doomed_ret
          simp del: pipeline_loop.simps split: sum.splits list.split option.split)
  qed (auto intro: doomed_ret simp: stage_fails_def split: sum.splits)
qed

text \<open>A run begins on any store that satisfies the contract, with no steps recorded.\<close>

definition ready :: "string \<Rightarrow> string \<Rightarrow> 'st rstate \<Rightarrow> bool" where
  "ready task_id a s \<longleftrightarrow> inv (rs_store s) \<and> rs_steps s = [] \<and> fits_name tid \<and> fits_name task_id \<and> fits_name a"

lemma delivers_gate: "stops (\<lambda>r. \<exists>oc. r = Some oc \<and> failed oc) (policy_gate E t a tid)"
proof -
  have lost: "doomed (fatal (\<lambda>r. \<exists>oc. r = Some oc \<and> failed oc)) (bindT (record_failure E t a tid reason msg) (\<lambda>oc. retT (Some oc)))" for reason msg
    by (rule guarded_bindT [OF any_run.ok_record_failure]) (simp add: doomed_ret)
  have violated: "doomed (fatal (\<lambda>r. \<exists>oc. r = Some oc \<and> failed oc)) (bindT (policy_violation E t a tid msg) (\<lambda>oc. retT (Some oc)))" for msg
    by (rule guarded_bindT [OF any_run.ok_violation]) (simp add: doomed_ret)
  show ?thesis unfolding policy_gate_def evaluate_task_policy_def
    by (auto intro!: failstop_retT stops_appended lost doomed_failstop [OF violated] split: option.split)
qed

lemma begin_run_delivers:
  assumes "delivers body"
  shows "holds (ready (tk_id t) a) (begin_run E t a tid body) (\<lambda>r s. \<forall>oc. r = Inr oc \<longrightarrow> durable oc s)"
  unfolding holds_def
proof (intro allI impI)
  fix s oc assume s: "ready (tk_id t) a s" and oc: "fst (run_proc (begin_run E t a tid body) s) = Inr oc"
  obtain res st where op: "ts_begin S tid (tk_id t) a (rs_store s) = (res, st)" by force
  show "durable oc (snd (run_proc (begin_run E t a tid body) s))"
  proof (cases res)
    case (Inl e)
    then show ?thesis using oc
      by (auto simp: begin_run_def on_store_error_def store_begin_def store_used op run_bindT run_tryT build_internal_failure_def
          mk_outcome_def value_error_if_def durable_def split: if_splits)
  next
    case (Inr u)
    have "faithful (s\<lparr>rs_store := st\<rparr>)"
      using begin_ok [of "rs_store s" tid "tk_id t" a st] s op by (simp add: ready_def faithful_def Inr)
    moreover have "delivers (bindT (policy_gate E t a tid) (\<lambda>denied. case denied of Some oc \<Rightarrow> retT oc | None \<Rightarrow> body))"
    proof (rule delivers_bindT_value [OF delivers_gate any_run.ok_gate])
      show "failed_opt x \<Longrightarrow> delivers (case x of Some oc \<Rightarrow> retT oc | None \<Rightarrow> body)" for x
        using assms by (cases x) (auto intro!: delivers_doomed [OF doomed_ret])
    qed (auto intro: doomed_ret)
    moreover have "run_proc (begin_run E t a tid body) s =
      run_proc (bindT (policy_gate E t a tid) (\<lambda>denied. case denied of Some oc \<Rightarrow> retT oc | None \<Rightarrow> body)) (s\<lparr>rs_store := st\<rparr>)"
      by (simp add: begin_run_def on_store_error_def store_begin_def store_used op Inr run_bindT run_tryT)
    ultimately show ?thesis using oc by (simp add: delivers_def holds_def)
  qed
qed

definition names_fit :: "task \<Rightarrow> bool" where
  "names_fit t \<longleftrightarrow> fits_name tid \<and> fits_name (tk_id t) \<and>
     (\<forall>name cap m. resolve (me_agents E) name cap = Some m \<longrightarrow> fits_name (am_name m))"

lemma run_task_durable:
  assumes "inv (rs_store s)" "rs_steps s = []" "names_fit t" "tid \<noteq> []" "fst (run_proc (run_task E t tid) s) = Inr oc"
  shows "durable oc (snd (run_proc (run_task E t tid) s))"
proof -
  let ?D = "\<lambda>m. holds (\<lambda>s. inv (rs_store s) \<and> rs_steps s = []) m (\<lambda>r s. \<forall>oc. r = Inr oc \<longrightarrow> durable oc s)"
  have start: "?D (bindT (now E) (\<lambda>start. begin_run E t a tid (body start)))" if "fits_name a" "\<And>start. delivers (body start)" for a body
  proof (rule holds_bindT [where M = "\<lambda>r s. inv (rs_store s) \<and> rs_steps s = []"])
    fix start
    show "holds (\<lambda>s. inv (rs_store s) \<and> rs_steps s = []) (begin_run E t a tid (body start)) (\<lambda>r s. \<forall>oc. r = Inr oc \<longrightarrow> durable oc s)"
      by (rule holds_pre [OF begin_run_delivers [OF that(2)]]) (use assms(3) that(1) in \<open>simp add: ready_def names_fit_def\<close>)
  qed (simp_all add: now_def)
  have unknown: "?D (run_unknown_agent E t tid)"
    using run_doomed [OF any_run.ok_unknown [OF assms(4)], of E t] durable_failed by (simp add: holds_def) (metis okT_simps(2))
  have halted: "delivers (outcome_of_halt E t a tid h)" if "failed_halt h" for a h
    by (rule delivers_doomed [OF any_run.ok_halt_outcome [OF that]])
  have executed: "doomed (fatal (halts_or (\<lambda>_. True))) (execute_agent E Y)" for Y
    by (rule any_run.ok_weaken [OF any_run.ok_execute]) (auto simp: halts_or_def split: sum.splits)
  have "?D (run_task E t tid)"
  proof (cases "tk_pipeline t")
    case (Some p)
    show ?thesis using assms(3)
      by (auto simp: run_task_def Some run_pipeline_def first_agent_def resolve_stage_def names_fit_def
          intro!: unknown start delivers_loop split: option.split list.splits)
  next
    case None
    show ?thesis
    proof (cases "tk_parallel t")
      case (Some p)
      have "delivers (bindT (run_parallel_group E t p tid cl start PNone) (\<lambda>r. case r of
             Inl f \<Rightarrow> record_failure E t a tid (sf_reason f) (sf_message f)
           | Inr joined \<Rightarrow> record_success E t a tid (stages_value joined)))" for cl start a
        by (rule delivers_bindT [OF stops_group]) (auto intro: any_run.ok_record_failure delivers_failure delivers_success split: sum.splits)
      then show ?thesis using assms(3)
        by (auto simp: run_task_def None Some run_parallel_def first_agent_def resolve_stage_def names_fit_def
            intro!: unknown start split: option.split list.splits)
    next
      case No: None
      have "delivers (bindT (execute_agent E (single_exec E t a tid start)) (\<lambda>r. case r of
             Inl h \<Rightarrow> outcome_of_halt E t a tid h | Inr output \<Rightarrow> record_success E t a tid output))" for a start
        by (rule delivers_bindT_value [OF stops_execute executed])
          (auto simp: single_exec_def halts_or_def intro: halted delivers_success any_run.ok_halt_outcome split: sum.splits)
      then show ?thesis using assms(3)
        by (auto simp: run_task_def None No run_single_def names_fit_def intro!: unknown start split: option.split)
    qed
  qed
  then show ?thesis using assms(1,2,5) by (simp add: holds_def)
qed

end

section \<open>Both stores\<close>

interpretation mem_run: durable_run memory "\<lambda>_. True" id id "\<lambda>_. True" "\<lambda>_. True" "\<lambda>_. True" "E\<lparr>me_store := memory\<rparr>" tid for E tid
  by unfold_locales simp

interpretation disk_run: durable_run "file_store io conv" files_closed norm_step norm_outcome one_line json_step json_outcome
    "E\<lparr>me_store := file_store io conv\<rparr>" tid for io conv E tid
  by unfold_locales simp

lemma fresh_run_simps [simp]: "rs_steps (fresh_run s) = []" "rs_store (fresh_run s) = rs_store s"
  by (simp_all add: fresh_run_def)

lemma trajectory_id_one_line:
  assumes "one_line (tk_id t)"
  shows "one_line (trajectory_id t n)"
proof -
  have "\<forall>c \<in> set ''0123456789''. code c \<noteq> 133" by code_simp
  then have digit: "is_digit c \<Longrightarrow> code c \<noteq> 133" for c unfolding is_digit_def by blast
  have "\<forall>c \<in> set (show_nat n). is_digit c" using show_nat_facts(2) [of n] by (simp add: list_all_iff)
  moreover have "code CHR ''#'' \<noteq> 133" by code_simp
  ultimately show ?thesis using assms digit by (auto simp: one_line_def trajectory_id_def)
qed

text \<open>C3: A result that a run returns is durable. With the store in memory: the trajectory of the run
  is loaded back with exactly the steps of the result and a verified outcome with its output,
  under every schedule of the worker threads; a refused write ends in a failure instead.\<close>

theorem verified_result_is_durable:
  assumes "me_store E = memory" "fst (run E t mg) = Inr oc" "oc_result oc = Some vr"
  shows "oc_trajectory_id oc = Some (trajectory_id t (mg_seq mg)) \<and>
    (\<exists>tr. load E (trajectory_id t (mg_seq mg)) (snd (run E t mg)) = Inr (Some tr) \<and>
      sd_steps tr = tj_steps (vr_trajectory vr) \<and> sd_outcome tr = stored_verified (vr_output vr))"
proof -
  obtain r s where rs: "run_proc (run_task E t (trajectory_id t (mg_seq mg))) (fresh_run (mg_state mg)) = (r, s)"
    "run E t mg = (r, \<lparr>mg_seq = Suc (mg_seq mg), mg_state = s\<rparr>)" by (rule runE)
  have E: "E\<lparr>me_store := memory\<rparr> = E" using assms(1) by simp
  have fit: "durable_run.names_fit (\<lambda>_. True) E i t" for i
    using mem_run.names_fit_def [of E i t] by (simp add: E)
  have "fst (run_proc (run_task E t (trajectory_id t (mg_seq mg))) (fresh_run (mg_state mg))) = Inr oc"
    using assms(2) by (simp add: rs)
  from mem_run.run_task_durable [where E = E and t = t, unfolded E mem_run.durable_def, OF _ _ fit _ this] show ?thesis
    using assms(1,3) by (simp add: rs load_def)
qed

text \<open>C34: The same for the store in files, when the trajectory and agent names have no line break that the
  writer leaves in and the recorded values are JSON: what is loaded back from the file is the steps
  and the output of the result in the normal form of JSON values.\<close>

theorem file_result_is_durable:
  assumes "me_store E = file_store io conv" "files_closed (rs_store (mg_state mg))"
    "one_line (tk_id t)" "\<forall>name cap m. resolve (me_agents E) name cap = Some m \<longrightarrow> one_line (am_name m)"
    "fst (run E t mg) = Inr oc" "oc_result oc = Some vr"
    "\<forall>r \<in> set (tj_steps (vr_trajectory vr)). json_step r" "wf_pyval (vr_output vr)"
  shows "\<exists>tr. load E (trajectory_id t (mg_seq mg)) (snd (run E t mg)) = Inr (Some tr) \<and>
      sd_steps tr = map norm_step (tj_steps (vr_trajectory vr)) \<and> sd_outcome tr = stored_verified (json_norm (vr_output vr))"
proof -
  obtain r s where rs: "run_proc (run_task E t (trajectory_id t (mg_seq mg))) (fresh_run (mg_state mg)) = (r, s)"
    "run E t mg = (r, \<lparr>mg_seq = Suc (mg_seq mg), mg_state = s\<rparr>)" by (rule runE)
  have E: "E\<lparr>me_store := file_store io conv\<rparr> = E" using assms(1) by simp
  have "one_line (trajectory_id t (mg_seq mg))" using assms(3) by (simp add: trajectory_id_one_line)
  then have fit: "durable_run.names_fit one_line E (trajectory_id t (mg_seq mg)) t"
    using disk_run.names_fit_def [where E = E and io = io and conv = conv] assms(3,4) by (auto simp: E)
  have "fst (run_proc (run_task E t (trajectory_id t (mg_seq mg))) (fresh_run (mg_state mg))) = Inr oc"
    using assms(5) by (simp add: rs)
  from disk_run.run_task_durable [where E = E and t = t and io = io and conv = conv, unfolded E disk_run.durable_def, OF _ _ fit _ this] show ?thesis
    using assms by (auto simp: rs load_def json_outcome_def norm_outcome_def stored_verified_def)
qed

lemma desk_store: "me_store desk = memory"
  by (simp add: desk_def)

theorem verified_result_is_durable_witness:
  "\<exists>oc vr tr. fst desk_run = Inr oc \<and> oc_result oc = Some vr \<and> load desk ''t#0'' (snd desk_run) = Inr (Some tr) \<and>
    sd_outcome tr = stored_verified (vr_output vr)"
proof -
  obtain oc vr where oc: "fst desk_run = Inr oc" "oc_result oc = Some vr" using desk_result by (auto split: sum.splits)
  have "trajectory_id (desk_task [''add''] None) (mg_seq (new_manager [])) = ''t#0''" by code_simp
  with verified_result_is_durable [OF desk_store oc(1) [unfolded desk_run_def] oc(2)] oc show ?thesis
    unfolding desk_run_def by metis
qed

text \<open>A desk with its trajectories in files; its agent reports one step and answers.\<close>

definition answerer :: agent_fn where
  "answerer payload budget ctx = Inr (\<lambda>_. Yields (Agent_Step ''s'' PNone) (\<lambda>_. Returns (Some (PInt 5))))"

abbreviation desk_files :: "string dict tstore" where
  "desk_files \<equiv> file_store (\<lambda>_. None) (\<lambda>_. Inl Value_Error)"

definition filing_desk :: "(in_process, string dict) menv" where
  "filing_desk = \<lparr>me_store = desk_files, me_backend = in_process_backend (\<lambda>_ _. Inr answerer),
     me_agents = me_agents desk, me_tools = me_tools desk, me_verifiers = me_verifiers desk,
     me_clock = int, me_seconds = me_seconds desk, me_schedule = (\<lambda>_. [])\<rparr>"

definition filing_run :: "(exc + outcome) \<times> string dict manager" where
  "filing_run = run filing_desk (desk_task [''add''] None) (new_manager [])"

lemma filing_result: "case fst filing_run of Inr oc \<Rightarrow>
    (case oc_result oc of Some vr \<Rightarrow> vr_output vr = PInt 5 \<and> list_all json_step (tj_steps (vr_trajectory vr)) | None \<Rightarrow> False) | Inl e \<Rightarrow> False"
  unfolding filing_run_def filing_desk_def desk_def desk_task_def by code_simp

theorem file_result_is_durable_witness:
  "\<exists>tr. load filing_desk ''t#0'' (snd filing_run) = Inr (Some tr) \<and> sd_outcome tr = stored_verified (PInt 5)"
proof -
  obtain oc vr where oc: "fst filing_run = Inr oc" "oc_result oc = Some vr" "vr_output vr = PInt 5"
    "\<forall>r \<in> set (tj_steps (vr_trajectory vr)). json_step r"
    using filing_result by (auto simp: list_all_iff split: sum.splits option.splits)
  have store: "me_store filing_desk = desk_files" by (simp add: filing_desk_def)
  have closed: "files_closed (rs_store (mg_state (new_manager [])))" by (simp add: new_manager_def files_closed_def)
  have line: "one_line (tk_id (desk_task [''add''] None))" unfolding desk_task_def by code_simp
  have "one_line ''adder''" by code_simp
  then have names: "\<forall>name cap m. resolve (me_agents filing_desk) name cap = Some m \<longrightarrow> one_line (am_name m)"
    by (auto simp: filing_desk_def desk_def resolve_def get_by_name_def get_by_capability_def desk_manifest_def dget_Cons split: option.splits if_splits)
  have tid: "trajectory_id (desk_task [''add''] None) (mg_seq (new_manager [])) = ''t#0''" by code_simp
  have out: "wf_pyval (vr_output vr)" "json_norm (PInt 5) = PInt 5" by (simp_all add: oc(3))
  show ?thesis
    using file_result_is_durable [OF store closed line names oc(1) [unfolded filing_run_def] oc(2,4) out(1)]
    by (auto simp: tid oc(3) out(2) filing_run_def)
qed

end
