(* ===== verification/Replay.thy ===== *)
theory Replay
  imports Manager_Run
begin

text \<open>
  Replay verification (\<open>control_plane/replay.py\<close>, \<open>contracts/replay.py\<close>, \<open>AgentManager.replay\<close>): a task is
  run again and its trajectory compared with the stored one. A comparison raises when a description
  of an agent reads like a tool request without being one; \<open>str.index\<close> then finds no quote.
\<close>

section \<open>Counters by key\<close>

text \<open>
  A dictionary of counters that a loop fills (\<open>defaultdict\<close>): an item names the counter it changes, or
  none, or raises. Each counter is the fold over the items of its key.
\<close>

fun keyed_fold :: "('a \<Rightarrow> 'e + string option) \<Rightarrow> ('a \<Rightarrow> string \<Rightarrow> 'c \<Rightarrow> 'c) \<Rightarrow> 'c \<Rightarrow> 'a list \<Rightarrow> 'c dict \<Rightarrow> 'e + 'c dict" where
  "keyed_fold key upd zero [] d = Inr d"
| "keyed_fold key upd zero (x # xs) d =
     bindR (key x) (\<lambda>k. case k of
       None \<Rightarrow> keyed_fold key upd zero xs d
     | Some n \<Rightarrow> keyed_fold key upd zero xs (dput n (upd x n (dget_or d n zero)) d))"

definition items_of :: "('a \<Rightarrow> 'e + string option) \<Rightarrow> string \<Rightarrow> 'a list \<Rightarrow> 'a list" where
  "items_of key n xs = filter (\<lambda>x. key x = Inr (Some n)) xs"

lemma items_of_simps [simp]:
  "items_of key n [] = []"
  "items_of key n (x # xs) = (if key x = Inr (Some n) then x # items_of key n xs else items_of key n xs)"
  by (simp_all add: items_of_def)

lemma keyed_fold_get:
  assumes "keyed_fold key upd zero xs d = Inr d'"
  shows "dget d' n = (if items_of key n xs = [] then dget d n
      else Some (foldl (\<lambda>c x. upd x n c) (dget_or d n zero) (items_of key n xs)))"
  using assms
proof (induction xs arbitrary: d)
  case Nil
  then show ?case by simp
next
  case (Cons x xs)
  then obtain k where k: "key x = Inr k" by (auto simp: result_simps)
  show ?case
  proof (cases k)
    case None
    then show ?thesis using Cons k by simp
  next
    case (Some m)
    let ?d = "dput m (upd x m (dget_or d m zero)) d"
    have IH: "dget d' n = (if items_of key n xs = [] then dget ?d n
        else Some (foldl (\<lambda>c x. upd x n c) (dget_or ?d n zero) (items_of key n xs)))"
      using Cons k Some by simp
    show ?thesis
    proof (cases "m = n")
      case True
      then show ?thesis using IH k Some by (simp add: dget_or_def dict_simps)
    next
      case False
      then show ?thesis using IH k Some by (simp add: dget_or_def dict_simps)
    qed
  qed
qed

lemma keyed_fold_wf:
  assumes "keyed_fold key upd zero xs d = Inr d'" "wf_dict d"
  shows "wf_dict d'"
  using assms
proof (induction xs arbitrary: d)
  case Nil
  then show ?case by simp
next
  case (Cons x xs)
  then obtain k where "key x = Inr k" by (auto simp: result_simps)
  then show ?case using Cons by (cases k) (auto simp: dict_simps)
qed

lemma keyed_fold_raises:
  assumes "x \<in> set xs" "key x = Inl e"
  shows "\<exists>e. keyed_fold key upd zero xs d = Inl e"
  using assms(1)
proof (induction xs arbitrary: d)
  case Nil
  then show ?case by simp
next
  case (Cons y xs)
  show ?case
  proof (cases "key y")
    case (Inl e')
    then show ?thesis by simp
  next
    case (Inr k)
    then have "x \<in> set xs" using Cons.prems assms(2) by auto
    then show ?thesis using Cons.IH Inr by (cases k) auto
  qed
qed

text \<open>Two dictionaries with distinct keys, sorted by key, are equal exactly when they hold the same.\<close>

lemma sort_key_eq_iff:
  fixes c d :: "'v dict"
  assumes "wf_dict c" "wf_dict d"
  shows "sort_key fst c = sort_key fst d \<longleftrightarrow> (\<forall>n. dget c n = dget d n)"
proof
  assume same: "\<forall>n. dget c n = dget d n"
  have "x \<in> set c \<longleftrightarrow> x \<in> set d" for x
    by (cases x) (metis same dget_wf dget_Some_in assms)
  then show "sort_key fst c = sort_key fst d" using assms by (intro sort_key_unique) (auto simp: wf_dict_def)
next
  assume "sort_key fst c = sort_key fst d"
  then have "set c = set d" by (metis set_sort)
  then show "\<forall>n. dget c n = dget d n"
    using assms by (metis dget_Some_in dget_wf not_None_eq)
qed

section \<open>Results\<close>

datatype replay_version = Replay_V1

record replay_diff =
  rd_field :: string
  rd_original :: pyval
  rd_replayed :: pyval

record replay_result =
  rr_version :: replay_version
  rr_passed :: bool
  rr_original :: string
  rr_replayed :: "string option"
  rr_diffs :: "replay_diff list"
  rr_message :: string

definition replay_result_init :: "replay_result \<Rightarrow> exc + replay_result" where
  "replay_result_init r =
     thenR (value_error_if (rr_passed r \<and> rr_diffs r \<noteq> []) ''A passing replay must not carry diffs.'') (Inr r)"

section \<open>Steps\<close>

fun infix_of :: "string \<Rightarrow> string \<Rightarrow> bool" where
  "infix_of p [] = (p = [])"
| "infix_of p (c # s) = (starts_with p (c # s) \<or> infix_of p s)"

definition is_parallel :: "step_record list \<Rightarrow> bool" where
  "is_parallel ss = list_ex (\<lambda>s. starts_with ''parallel stage '' (sr_description s) \<or> sr_description s = ''parallel group begin'') ss"

definition step_signature :: "step_record \<Rightarrow> string \<times> string" where
  "step_signature s = (status_value (sr_status s), sr_description s)"

definition boundary_prefixes :: "string list" where
  "boundary_prefixes = [''pipeline stage '', ''parallel group begin'', ''parallel stage '', ''parallel group end'']"

definition is_boundary :: "step_record \<Rightarrow> bool" where
  "is_boundary s = list_ex (\<lambda>p. starts_with p (sr_description s)) boundary_prefixes"

text \<open>\<open>Counter(xs) == Counter(ys)\<close>\<close>

definition same_counts :: "'a list \<Rightarrow> 'a list \<Rightarrow> bool" where
  "same_counts xs ys = list_all (\<lambda>x. count_list xs x = count_list ys x) (xs @ ys)"

definition steps_equivalent :: "step_record list \<Rightarrow> step_record list \<Rightarrow> bool" where
  "steps_equivalent os rs =
     (if is_parallel os \<or> is_parallel rs then
        map step_signature (filter is_boundary os) = map step_signature (filter is_boundary rs) \<and>
        same_counts (map step_signature (filter (Not \<circ> is_boundary) os)) (map step_signature (filter (Not \<circ> is_boundary) rs))
      else map step_signature os = map step_signature rs)"

section \<open>Agents\<close>

definition add_label :: "string list \<Rightarrow> pyval \<Rightarrow> string list" where
  "add_label labels v = (case v of PStr a \<Rightarrow> if a \<in> set labels then labels else labels @ [a] | _ \<Rightarrow> labels)"

definition step_labels :: "step_record \<Rightarrow> pyval list" where
  "step_labels s =
     (if starts_with ''pipeline stage '' (sr_description s) \<or> starts_with ''parallel stage '' (sr_description s) then
        (case sr_input s of PDict d \<Rightarrow> [dget_or d ''agent'' PNone] | _ \<Rightarrow> [])
      else if sr_description s = ''parallel group begin'' then
        (case sr_input s of PDict d \<Rightarrow> (case dget_or d ''stages'' PNone of PList vs \<Rightarrow> vs | _ \<Rightarrow> []) | _ \<Rightarrow> [])
      else [])"

definition compose_agents :: "trajectory \<Rightarrow> string list" where
  "compose_agents t =
     (let labels = foldl (\<lambda>ls s. foldl add_label ls (step_labels s)) [] (tj_steps t)
      in if labels \<noteq> [] then labels else [tj_agent_name t])"

section \<open>Tools\<close>

definition tool_prefix :: string where
  "tool_prefix = ''tool '' @ [squote_c]"

definition is_tool_request :: "string \<Rightarrow> bool" where
  "is_tool_request desc \<longleftrightarrow> starts_with tool_prefix desc \<and> infix_of '' request'' desc"

text \<open>The text between the first two quotes.\<close>

definition tool_name :: "string \<Rightarrow> exc + string" where
  "tool_name desc =
     (case dropWhile (\<lambda>c. c \<noteq> squote_c) desc of
        [] \<Rightarrow> Inl (Exc ValueError ''substring not found'')
      | _ # rest \<Rightarrow> if squote_c \<in> set rest then Inr (takeWhile (\<lambda>c. c \<noteq> squote_c) rest)
          else Inl (Exc ValueError ''substring not found''))"

definition result_prefix :: "string \<Rightarrow> string" where
  "result_prefix tool = tool_prefix @ tool @ [squote_c] @ '' result''"

definition paired_result :: "step_record list \<Rightarrow> step_record \<Rightarrow> string \<Rightarrow> step_record option" where
  "paired_result ss request tool =
     find (\<lambda>s. sr_index request < sr_index s \<and>
       (starts_with (result_prefix tool) (sr_description s) \<or> sr_description s = ''model call failed'')) ss"

record tool_count =
  tc_requests :: nat
  tc_succeeded :: nat
  tc_failed :: nat
  tc_rejected :: nat

definition no_count :: tool_count where
  "no_count = \<lparr>tc_requests = 0, tc_succeeded = 0, tc_failed = 0, tc_rejected = 0\<rparr>"

definition count_request :: "step_record list \<Rightarrow> step_record \<Rightarrow> string \<Rightarrow> tool_count \<Rightarrow> tool_count" where
  "count_request ss s tool c =
     (let c' = c\<lparr>tc_requests := Suc (tc_requests c)\<rparr> in
      if sr_status s = Rejected then c'\<lparr>tc_rejected := Suc (tc_rejected c')\<rparr>
      else case paired_result ss s tool of
        None \<Rightarrow> c'
      | Some p \<Rightarrow> if sr_status p = Failed then c'\<lparr>tc_failed := Suc (tc_failed c')\<rparr> else c'\<lparr>tc_succeeded := Suc (tc_succeeded c')\<rparr>)"

text \<open>The tool that a step requests, if it is a request.\<close>

definition requested :: "step_record \<Rightarrow> exc + string option" where
  "requested s = (if is_tool_request (sr_description s) then bindR (tool_name (sr_description s)) (\<lambda>n. Inr (Some n)) else Inr None)"

definition tool_pattern :: "trajectory \<Rightarrow> exc + (string \<times> tool_count) list" where
  "tool_pattern t = bindR (keyed_fold requested (count_request (tj_steps t)) no_count (tj_steps t) []) (\<lambda>counts. Inr (sort_key fst counts))"

definition pattern_value :: "(string \<times> tool_count) list \<Rightarrow> pyval" where
  "pattern_value ps = PList (map (\<lambda>(n, c). PList (PStr n # map (\<lambda>k. PInt (int k)) [tc_requests c, tc_succeeded c, tc_failed c, tc_rejected c])) ps)"

section \<open>The comparison\<close>

definition kind_value :: "stored_outcome \<Rightarrow> string" where
  "kind_value oc = (case so_kind oc of Verified_Kind \<Rightarrow> ''verified'' | Failure_Kind \<Rightarrow> ''failure'' | Interrupted_Kind \<Rightarrow> ''interrupted'')"

definition diff_if :: "bool \<Rightarrow> string \<Rightarrow> pyval \<Rightarrow> pyval \<Rightarrow> replay_diff list" where
  "diff_if b f v w = (if b then [\<lparr>rd_field = f, rd_original = v, rd_replayed = w\<rparr>] else [])"

definition outcome_diffs :: "stored_outcome \<Rightarrow> stored_outcome \<Rightarrow> replay_diff list" where
  "outcome_diffs o' r =
     diff_if (so_kind o' \<noteq> so_kind r) ''outcome'' (PStr (kind_value o')) (PStr (kind_value r)) @
     diff_if (so_kind o' = Failure_Kind \<and> \<not> py_eq (so_reason o') (so_reason r)) ''failure_reason'' (so_reason o') (so_reason r) @
     diff_if (so_kind o' = Verified_Kind \<and> \<not> py_eq (so_output o') (so_output r)) ''output'' (so_output o') (so_output r)"

definition replay_result_of :: "stored \<Rightarrow> stored \<Rightarrow> bool \<Rightarrow> replay_diff list \<Rightarrow> string \<Rightarrow> exc + replay_result" where
  "replay_result_of o' r passed diffs msg = replay_result_init
     \<lparr>rr_version = Replay_V1, rr_passed = passed, rr_original = sd_id o', rr_replayed = Some (sd_id r), rr_diffs = diffs, rr_message = msg\<rparr>"

definition trajectory_diffs :: "trajectory \<Rightarrow> trajectory \<Rightarrow> exc + replay_diff list" where
  "trajectory_diffs ot rt =
     bindR (tool_pattern ot) (\<lambda>op. bindR (tool_pattern rt) (\<lambda>rp. Inr (
       diff_if (\<not> steps_equivalent (tj_steps ot) (tj_steps rt)) ''steps'' (PInt (int (length (tj_steps ot)))) (PInt (int (length (tj_steps rt)))) @
       diff_if (compose_agents ot \<noteq> compose_agents rt) ''agents'' (PStrs (compose_agents ot)) (PStrs (compose_agents rt)) @
       diff_if (op \<noteq> rp) ''tools'' (pattern_value op) (pattern_value rp))))"

definition verify_replay :: "stored \<Rightarrow> stored \<Rightarrow> exc + replay_result" where
  "verify_replay o' r =
     (if so_kind (sd_outcome o') = Interrupted_Kind then
        replay_result_of o' r False [\<lparr>rd_field = ''outcome'', rd_original = PStr ''interrupted'', rd_replayed = PStr (kind_value (sd_outcome r))\<rparr>]
          ''The stored trajectory is interrupted and cannot be replayed as equivalent; replay requires a deterministic configuration.''
      else bindR (to_trajectory o') (\<lambda>ot. bindR (to_trajectory r) (\<lambda>rt. bindR (trajectory_diffs ot rt) (\<lambda>ds.
        let diffs = outcome_diffs (sd_outcome o') (sd_outcome r) @ ds in
        replay_result_of o' r (diffs = []) diffs
          (if diffs = [] then ''Replay is equivalent to the stored trajectory.''
           else ''Replay diverged in '' @ show_nat (length diffs) @ '' correctness-relevant aspect(s).'')))))"

section \<open>The manager's replay\<close>

definition not_recorded :: "string \<Rightarrow> exc + replay_result" where
  "not_recorded i = replay_result_init \<lparr>rr_version = Replay_V1, rr_passed = False, rr_original = i, rr_replayed = None,
     rr_diffs = [\<lparr>rd_field = ''replay'', rd_original = PNone, rd_replayed = PStr ''replayed run was not durably recorded''\<rparr>],
     rr_message = ''The replayed run could not be durably recorded.''\<rparr>"

definition replay :: "('s, 'st) menv \<Rightarrow> task \<Rightarrow> string \<Rightarrow> 'st manager \<Rightarrow> (exc + replay_result) \<times> 'st manager" where
  "replay E t i mg =
     (case load E i mg of
        Inl e \<Rightarrow> (Inl e, mg)
      | Inr None \<Rightarrow> (Inl (Exc ValueError (''No stored trajectory with id '' @ repr_str i @ ''.'')), mg)
      | Inr (Some original) \<Rightarrow>
          (case run E t mg of
             (Inl e, mg') \<Rightarrow> (Inl e, mg')
           | (Inr oc, mg') \<Rightarrow>
               (case oc_trajectory_id oc of
                  None \<Rightarrow> (not_recorded i, mg')
                | Some j \<Rightarrow>
                    (case load E j mg' of
                       Inl e \<Rightarrow> (Inl e, mg')
                     | Inr None \<Rightarrow> (Inl (Exc AssertionError []), mg')
                     | Inr (Some replayed) \<Rightarrow> (verify_replay original replayed, mg')))))"

end
