(* ===== verification/Demo_Agents.thy ===== *)
theory Demo_Agents
  imports Sessions Manager_State
begin

text \<open>
  The deterministic agents (\<open>agents/counter.py\<close>, \<open>agents/reverse.py\<close>), the ones that ask for a tool
  (\<open>agents/case_tool.py\<close>, \<open>agents/model_agent.py\<close>) and the verifiers of \<open>control_plane/verifier.py\<close>
  that derive the expected output again from the payload. An agent's body starts at the first \<open>send\<close>,
  so a refused payload is an exception of the generator.
\<close>

section \<open>Generators that ignore what they are sent\<close>

fun play :: "item list \<Rightarrow> pyval option \<Rightarrow> gen" where
  "play [] v = Returns v"
| "play (it # its) v = Yields it (\<lambda>_. play its v)"

text \<open>An agent that reports steps, each a description and its detail, and returns a result.\<close>

type_synonym script = "(string \<times> pyval) list \<times> pyval"

definition report :: "string \<times> pyval \<Rightarrow> item" where
  "report d = Agent_Step (fst d) (snd d)"

definition reports :: "script \<Rightarrow> gen" where
  "reports p = play (map report (fst p)) (Some (snd p))"

definition int_field :: "string \<Rightarrow> nat \<Rightarrow> pyval" where
  "int_field k n = PDict [(k, PInt (int n))]"

section \<open>The counter\<close>

fun count_steps :: "int \<Rightarrow> char \<Rightarrow> nat \<Rightarrow> nat \<Rightarrow> string \<Rightarrow> (string \<times> pyval) list \<times> nat" where
  "count_steps budget target i n [] = ([], n)"
| "count_steps budget target i n (c # cs) =
     (if budget \<le> int i then ([(''step budget reached; stopping early'', int_field ''steps_consumed'' i)], n)
      else
        let n' = (if c = target then Suc n else n); rest = count_steps budget target (Suc i) n' cs in
        (if Suc i mod 1000 = 0 then
           ((''processed '' @ show_nat (Suc i) @ '' characters'', int_field ''count_so_far'' n') # fst rest, snd rest)
         else rest))"

definition counter_script :: "string \<Rightarrow> char \<Rightarrow> int \<Rightarrow> script" where
  "counter_script text target budget =
     (case count_steps budget target 0 0 text of (its, n) \<Rightarrow>
       ((''validated payload'', int_field ''text_len'' (length text)) # its @ [(''computed final count'', int_field ''count'' n)],
        PInt (int n)))"

definition raises_type :: "string \<Rightarrow> gen" where
  "raises_type msg = Raises ''TypeError'' msg"

definition counter_agent :: agent_fn where
  "counter_agent payload budget ctx = Inr (\<lambda>_.
     (case payload of
        PDict d \<Rightarrow>
          (case (dget_or d ''text'' PNone, dget_or d ''target'' PNone) of
             (PStr text, PStr [target]) \<Rightarrow> reports (counter_script text target budget)
           | (PStr text, _) \<Rightarrow> raises_type (''CounterAgent payload['' @ squote_c # ''target'' @ squote_c # ''] must be a single character.'')
           | _ \<Rightarrow> raises_type (''CounterAgent payload['' @ squote_c # ''text'' @ squote_c # ''] must be a string.''))
      | _ \<Rightarrow> raises_type ''CounterAgent payload must be a mapping.''))"

section \<open>The reverser\<close>

text \<open>Chunks of 100 characters, each reversed and put before the result.\<close>

function reverse_steps :: "int \<Rightarrow> nat \<Rightarrow> string \<Rightarrow> string \<Rightarrow> (string \<times> pyval) list \<times> string" where
  "reverse_steps budget k text result =
     (if text = [] then ([], result)
      else if budget \<le> int k then ([(''step budget reached; stopping early'', int_field ''steps_consumed'' k)], result)
      else
        let chunk = take 100 text; rest = reverse_steps budget (Suc k) (drop 100 text) (rev chunk @ result) in
        ((''reversed chunk starting at '' @ show_nat (100 * k), int_field ''chunk_len'' (length chunk)) # fst rest, snd rest))"
  by pat_completeness auto
termination by (relation "measure (\<lambda>(_, _, text, _). length text)") auto

declare reverse_steps.simps [simp del]

definition reverse_script :: "string \<Rightarrow> int \<Rightarrow> script" where
  "reverse_script text budget =
     (case reverse_steps budget 0 text [] of (its, r) \<Rightarrow>
       ((''validated payload'', int_field ''text_len'' (length text)) # its @
          [(''computed final reversed string'', int_field ''len'' (length r))], PStr r))"

definition reverse_agent :: agent_fn where
  "reverse_agent payload budget ctx = Inr (\<lambda>_.
     (case payload of
        PDict d \<Rightarrow>
          (case dget_or d ''text'' PNone of
             PStr text \<Rightarrow> reports (reverse_script text budget)
           | _ \<Rightarrow> raises_type (''ReverseAgent payload['' @ squote_c # ''text'' @ squote_c # ''] must be a string.''))
      | _ \<Rightarrow> raises_type ''ReverseAgent payload must be a mapping.''))"

section \<open>Agents that use a tool\<close>

text \<open>Without the grant, or when the call fails, the agent returns \<open>fallback\<close>.\<close>

definition ask_tool :: "string \<Rightarrow> string \<Rightarrow> pyval dict \<Rightarrow> pyval \<Rightarrow> gen" where
  "ask_tool tool call args fallback = Yields (Tool_Request tool args) (\<lambda>s.
     (case s of
        Tool_Value r \<Rightarrow>
          (if \<not> tr_success r then reports ([(call @ '' failed: '' @ py_str (tr_error r), PNone)], fallback)
           else reports ([(''received '' @ tool @ '' tool result'', PDict [(''result_is_str'', PBool (type_name (tr_output r) = ''str''))])], tr_output r))
      | _ \<Rightarrow> raises_type (''Manager did not deliver a ToolResult for '' @ tool @ ''.'')))"

definition ask_if_granted :: "tool_context \<Rightarrow> string \<Rightarrow> string \<Rightarrow> pyval dict \<Rightarrow> pyval \<Rightarrow> gen" where
  "ask_if_granted ctx tool call args fallback =
     (if available ctx tool then ask_tool tool call args fallback
      else reports ([(''tool '' @ tool @ '' not granted'', PNone)], fallback))"

definition case_tool_agent :: agent_fn where
  "case_tool_agent payload budget ctx = Inr (\<lambda>_.
     (case payload of
        PDict d \<Rightarrow>
          (case dget_or d ''text'' PNone of
             PStr text \<Rightarrow> Yields (Agent_Step ''validated payload'' (int_field ''text_len'' (length text)))
               (\<lambda>_. ask_if_granted ctx ''to_upper'' ''tool call'' [(''text'', PStr text)] (PStr text))
           | _ \<Rightarrow> raises_type (''CaseToolAgent payload['' @ squote_c # ''text'' @ squote_c # ''] must be a string.''))
      | _ \<Rightarrow> raises_type ''CaseToolAgent payload must be a mapping.''))"

definition model_agent :: agent_fn where
  "model_agent payload budget ctx = Inr (\<lambda>_.
     (case payload of
        PDict d \<Rightarrow>
          (case name_of (dget_or d ''prompt'' PNone) of
             Some prompt \<Rightarrow> Yields (Agent_Step ''validated payload'' (int_field ''prompt_len'' (length prompt)))
               (\<lambda>_. ask_if_granted ctx ''llm_complete'' ''model call'' [(''prompt'', PStr prompt)] (PStr ''UNVERIFIED''))
           | None \<Rightarrow> raises_type (''ModelAgent payload['' @ squote_c # ''prompt'' @ squote_c # ''] must be a non-empty string.''))
      | _ \<Rightarrow> raises_type ''ModelAgent payload must be a mapping.''))"

section \<open>Verifiers\<close>

definition verdict :: "bool \<Rightarrow> string \<Rightarrow> exc + verification" where
  "verdict b msg = Inr \<lparr>vf_passed = b, vf_message = msg\<rparr>"

definition verify_counter_output :: verifier where
  "verify_counter_output t output =
     (case tk_payload t of
        PDict d \<Rightarrow>
          (case (dget_or d ''text'' PNone, dget_or d ''target'' PNone) of
             (PStr text, PStr [target]) \<Rightarrow>
               (let expected = count_list text target in
                if py_eq output (PInt (int expected))
                then verdict True (''Output '' @ py_str output @ '' matches expected count '' @ show_nat expected @ ''.'')
                else verdict False (''Output '' @ py_str output @ '' does not match expected count '' @ show_nat expected @ ''.''))
           | _ \<Rightarrow> verdict False ''Payload is malformed for counter verification.'')
      | _ \<Rightarrow> verdict False ''Payload is not a mapping.'')"

definition verify_reverse_output :: verifier where
  "verify_reverse_output t output =
     (case tk_payload t of
        PDict d \<Rightarrow>
          (case dget_or d ''text'' PNone of
             PStr text \<Rightarrow>
               (if py_eq output (PStr (rev text)) then verdict True ''Output matches the expected reversed string.''
                else verdict False ''Output does not match the expected reversed string.'')
           | _ \<Rightarrow> verdict False ''Payload is malformed for reverse verification.'')
      | _ \<Rightarrow> verdict False ''Payload is not a mapping.'')"

definition verify_model_output :: verifier where
  "verify_model_output t output =
     (case tk_payload t of
        PDict d \<Rightarrow>
          (case dget_or d ''expected'' PNone of
             PStr e \<Rightarrow>
               (if py_eq output (PStr e) then verdict True ''Output matches the expected model response.''
                else verdict False ''Output does not match the expected model response.'')
           | _ \<Rightarrow> verdict False ''Payload is malformed for model verification.'')
      | _ \<Rightarrow> verdict False ''Payload is not a mapping.'')"

text \<open>\<open>verify_unguarded_model_output\<close> and \<open>verify_unguarded_tool_output\<close> have the same body.\<close>

definition verify_passthrough :: verifier where
  "verify_passthrough t output =
     (case tk_payload t of
        PStr p \<Rightarrow>
          (if py_eq output (PStr p) then verdict True ''Output matches the passthrough input.''
           else verdict False ''Output does not match the input.'')
      | _ \<Rightarrow> verdict False ''Payload must be a string.'')"

text \<open>The third part of every branch of a join; anything shorter, or of another type, raises.\<close>

fun branch_output :: "pyval \<Rightarrow> exc + pyval" where
  "branch_output (PList (a # b # c # _)) = Inr c"
| "branch_output (PList _) = Inl (Exc IndexError ''list index out of range'')"
| "branch_output (PStr (a # b # c # _)) = Inr (PStr [c])"
| "branch_output (PStr _) = Inl (Exc IndexError ''string index out of range'')"
| "branch_output (PDict d) = Inl (Exc KeyError ''2'')"
| "branch_output _ = Inl type_error"

fun join_with :: "string \<Rightarrow> string list \<Rightarrow> string" where
  "join_with sep [] = []"
| "join_with sep [s] = s"
| "join_with sep (s # s' # ss) = s @ sep @ join_with sep (s' # ss)"

definition verify_join_consumer_output :: verifier where
  "verify_join_consumer_output t output =
     (case tk_payload t of
        PDict d \<Rightarrow>
          (case dget d ''stages'' of
             None \<Rightarrow> verdict False ''Payload is not a join mapping.''
           | Some (PList vs) \<Rightarrow> bindR (mapR branch_output vs) (\<lambda>outs.
               if py_eq output (PStr (join_with ''|'' (map py_str outs))) then verdict True ''Output matches the expected join summary.''
               else verdict False ''Output does not match the expected join summary.'')
           | Some _ \<Rightarrow> verdict False (''Payload['' @ squote_c # ''stages'' @ squote_c # ''] is not a list.''))
      | _ \<Rightarrow> verdict False ''Payload is not a join mapping.'')"

section \<open>The scripts are right\<close>

lemma count_steps_count: "int (i + length cs) \<le> budget \<Longrightarrow> snd (count_steps budget target i n cs) = n + count_list cs target"
  by (induction cs arbitrary: i n) (auto simp: Let_def)

lemma count_steps_length:
  "int (i + length cs) \<le> budget \<Longrightarrow> i div 1000 + length (fst (count_steps budget target i n cs)) = (i + length cs) div 1000"
proof (induction cs arbitrary: i n)
  case (Cons c cs)
  have "Suc i div 1000 + length (fst (count_steps budget target (Suc i) m cs)) = (i + length (c # cs)) div 1000" for m
    using Cons by simp
  moreover have "\<not> budget \<le> int i" using Cons(2) by simp
  ultimately show ?case by (auto simp: Let_def div_Suc)
qed simp

lemma reverse_steps_rev: "int k + int (length cs) \<le> budget \<Longrightarrow> snd (reverse_steps budget k cs result) = rev cs @ result"
proof (induction budget k cs result rule: reverse_steps.induct)
  case (1 budget k cs result)
  show ?case
  proof (cases "cs = []")
    case True
    then show ?thesis by (simp add: reverse_steps.simps)
  next
    case False
    then have "int (Suc k) + int (length (drop 100 cs)) \<le> budget" using 1(2) by (cases cs) auto
    moreover have "rev (drop 100 cs) @ rev (take 100 cs) = rev cs" by (metis append_take_drop_id rev_append)
    moreover have "\<not> budget \<le> int k" using 1(2) False by (cases cs) auto
    ultimately show ?thesis using 1(1) False by (simp add: reverse_steps.simps [of budget k] Let_def)
  qed
qed

lemma py_eq_same [simp]: "py_eq (PInt i) (PInt i)" "py_eq (PStr s) (PStr s)"
  by (simp_all add: scalar_eq_def)

text \<open>With enough budget the counter counts every occurrence, and the verifier accepts exactly that.\<close>

lemma counter_script_result:
  "int (length cs) \<le> budget \<Longrightarrow> snd (counter_script cs target budget) = PInt (int (count_list cs target)) \<and>
     length (fst (counter_script cs target budget)) = 2 + length cs div 1000"
  using count_steps_count [of 0 cs budget target 0] count_steps_length [of 0 cs budget target 0]
  by (simp add: counter_script_def case_prod_beta)

lemma counter_accepts:
  assumes "tk_payload t = PDict d" "dget d ''text'' = Some (PStr cs)" "dget d ''target'' = Some (PStr [c])"
  shows "\<exists>vf. verify_counter_output t v = Inr vf \<and> (vf_passed vf \<longleftrightarrow> py_eq v (PInt (int (count_list cs c))))"
  using assms by (simp add: verify_counter_output_def dget_or_def verdict_def Let_def)

lemma reverse_script_result:
  "int (length cs) \<le> budget \<Longrightarrow> snd (reverse_script cs budget) = PStr (rev cs)"
  using reverse_steps_rev [of 0 cs budget "[]"] by (simp add: reverse_script_def case_prod_beta)

end
