(* ===== verification/Manager_Live.thy ===== *)
theory Manager_Live
  imports Manager_Props Demo_Agents
begin

text \<open>
  A run that has enough of everything returns its result. \<open>leads\<close> describes the conversation of an agent
  that reports steps, asks for tools it was granted and that succeed, and returns; every branch of the
  manager that could end such a run early is excluded by a condition on the task or the clock, and the
  outcome is the agent's output with the records of the conversation.
\<close>

section \<open>Conditions\<close>

text \<open>The readings of the clock in a run that starts at reading \<open>k\<close> and takes \<open>n\<close> turns before the result:
  one for the envelope at the head of every turn, two around the agent's answer.\<close>

definition in_step :: "task_envelope \<Rightarrow> duration \<Rightarrow> bool" where
  "in_step e d \<longleftrightarrow> (case te_step e of None \<Rightarrow> True | Some m \<Rightarrow> d \<le> m)"

fun unhurried :: "(nat \<Rightarrow> duration) \<Rightarrow> task_envelope \<Rightarrow> duration \<Rightarrow> nat \<Rightarrow> nat \<Rightarrow> bool" where
  "unhurried clock e start k 0 \<longleftrightarrow> clock k - start \<le> te_timeout e"
| "unhurried clock e start k (Suc n) \<longleftrightarrow> clock k - start \<le> te_timeout e \<and>
     in_step e (clock (Suc (Suc k)) - clock (Suc k)) \<and> unhurried clock e start (Suc (Suc (Suc k))) n"

text \<open>From the generator \<open>g\<close>, which is sent \<open>x\<close> next, the agent comes to the output \<open>v\<close> in \<open>n\<close> turns and
  with the records \<open>ds\<close>; a tool takes two records, and two steps of the budget.\<close>

inductive leads :: "tools \<Rightarrow> tool_context \<Rightarrow> call list \<Rightarrow> generator \<Rightarrow> sent \<Rightarrow> nat \<Rightarrow> string list \<Rightarrow> pyval \<Rightarrow> bool"
  for ts :: tools and ctx :: tool_context where
  leads_return: "g x = Returns (Some v) \<Longrightarrow> leads ts ctx calls g x 0 [] v"
| leads_step: "g x = Yields (Agent_Step d detail) k \<Longrightarrow> leads ts ctx calls k No_Value n ds v \<Longrightarrow> leads ts ctx calls g x (Suc n) (d # ds) v"
| leads_tool: "g x = Yields (Tool_Request name args) k \<Longrightarrow> available ctx name \<Longrightarrow> execute_tool ts calls name args = Inr r \<Longrightarrow>
     leads ts ctx (calls @ [(name, args)]) k (Tool_Value \<lparr>tr_success = True, tr_output = r, tr_error = PNone\<rparr>) n ds v \<Longrightarrow>
     leads ts ctx calls g x (Suc n) ((''tool '' @ repr_str name @ '' request'') # (''tool '' @ repr_str name @ '' result'') # ds) v"

lemma leads_play: "g x = play (map report ds) (Some v) \<Longrightarrow> leads ts ctx calls g x (length ds) (map fst ds) v"
proof (induction ds arbitrary: g x)
  case Nil
  then show ?case by (auto intro: leads_return)
next
  case (Cons d ds)
  have "g x = Yields (Agent_Step (fst d) (snd d)) (\<lambda>_. play (map report ds) (Some v))" using Cons.prems by (simp add: report_def [of d])
  then show ?case using Cons.IH [of "\<lambda>_. play (map report ds) (Some v)" No_Value] by (auto intro: leads_step)
qed

lemma leads_reports: "g x = reports p \<Longrightarrow> leads ts ctx calls g x (length (fst p)) (map fst (fst p)) (snd p)"
  by (rule leads_play) (simp add: reports_def)

section \<open>The loop\<close>

text \<open>The trajectory is open in memory and holds the steps of the run.\<close>

definition open_at :: "string \<Rightarrow> string \<Rightarrow> mem rstate \<Rightarrow> bool" where
  "open_at a tid s \<longleftrightarrow> indexed (rs_steps s) \<and>
     (\<exists>m. dget (rs_store s) tid = Some m \<and> me_agent_name m = a \<and> me_steps m = rs_steps s \<and> me_outcome m = None)"

text \<open>The records added between two states: completed, and with an input only where a tool is asked for.\<close>

definition plain_record :: "step_record \<Rightarrow> bool" where
  "plain_record r \<longleftrightarrow> sr_status r = Completed \<and> (sr_input r = PNone \<or> (\<exists>n. sr_description r = ''tool '' @ n))"

definition adds :: "string list \<Rightarrow> mem rstate \<Rightarrow> mem rstate \<Rightarrow> bool" where
  "adds ds s s' \<longleftrightarrow> (\<exists>new. rs_steps s' = rs_steps s @ new \<and> map sr_description new = ds \<and> (\<forall>r \<in> set new. plain_record r))"

lemma adds_refl: "rs_steps s' = rs_steps s \<Longrightarrow> adds [] s s'"
  by (simp add: adds_def)

lemma adds_trans: "adds ds s s' \<Longrightarrow> rs_steps t = rs_steps s' \<Longrightarrow> adds es t s'' \<Longrightarrow> adds (ds @ es) s s''"
  by (force simp: adds_def)

lemma adds_from: "adds ds s s' \<Longrightarrow> rs_steps t = rs_steps s \<Longrightarrow> adds ds t s'"
  by (simp add: adds_def)

lemma append_open:
  assumes "me_store E = memory" "open_at a tid s" "plain_record r"
  shows "\<exists>s'. run_proc (append_locked E tid r) s = (Inr True, s') \<and> open_at a tid s' \<and> rs_ticks s' = rs_ticks s \<and> rs_calls s' = rs_calls s \<and>
    adds [sr_description r] s s'"
proof -
  from assms(2) obtain m where "dget (rs_store s) tid = Some m" "me_agent_name m = a" "me_steps m = rs_steps s" "me_outcome m = None"
    "indexed (rs_steps s)"
    by (auto simp: open_at_def)
  then show ?thesis
    using assms(3) by (simp add: adds_def plain_record_def append_locked_def assms(1) memory_def mem_append_def mem_require_def open_at_def indexed_snoc Let_def dict_simps)
qed

lemma turn_guard_alone:
  assumes "ex_comp X = None" "\<not> ex_group X" "me_clock E (rs_ticks s) - ex_start X \<le> te_timeout (ex_envelope X)"
  shows "run_proc (turn_guard E X) s = (Inr None, s\<lparr>rs_ticks := Suc (rs_ticks s)\<rparr>)"
  using assms by (simp add: turn_guard_def check_cancel_def check_comp_time_def check_time_def check_comp_steps_def now_def run_bindT)

lemma mediate_open:
  assumes "me_store E = memory" "open_at a (ex_tid X) s" "available (ex_tools X) name" "execute_tool (me_tools E) (rs_calls s) name args = Inr r"
  shows "\<exists>s'. run_proc (mediate_tool E X name args) s =
      (Inr (Some \<lparr>dv_result = \<lparr>tr_success = True, tr_output = r, tr_error = PNone\<rparr>, dv_consumed = 2\<rparr>), s') \<and>
    open_at a (ex_tid X) s' \<and> rs_ticks s' = rs_ticks s \<and> rs_calls s' = rs_calls s @ [(name, args)] \<and>
    adds [''tool '' @ repr_str name @ '' request'', ''tool '' @ repr_str name @ '' result''] s s'"
proof -
  let ?req = "step_of Completed (''tool '' @ repr_str name @ '' request'') (request_input name args) PNone PNone ''0.0''"
  let ?res = "step_of Completed (''tool '' @ repr_str name @ '' result'') PNone r PNone ''0.0''"
  have plain: "plain_record ?req" "plain_record ?res" by (simp_all add: plain_record_def step_of_def)
  from append_open [OF assms(1,2) plain(1)] obtain s1 where s1: "run_proc (append_locked E (ex_tid X) ?req) s = (Inr True, s1)"
    "open_at a (ex_tid X) s1" "rs_ticks s1 = rs_ticks s" "rs_calls s1 = rs_calls s" "adds [sr_description ?req] s s1" by blast
  let ?s1 = "s1\<lparr>rs_calls := rs_calls s1 @ [(name, args)]\<rparr>"
  have "open_at a (ex_tid X) ?s1" using s1(2) by (simp add: open_at_def)
  from append_open [OF assms(1) this plain(2)] obtain s2 where s2: "run_proc (append_locked E (ex_tid X) ?res) ?s1 = (Inr True, s2)"
    "open_at a (ex_tid X) s2" "rs_ticks s2 = rs_ticks ?s1" "rs_calls s2 = rs_calls ?s1" "adds [sr_description ?res] ?s1 s2" by blast
  have "adds ([sr_description ?req] @ [sr_description ?res]) s s2" by (rule adds_trans [OF s1(5) _ s2(5)]) simp
  have "run_proc (run_tool E name args) s1 = (Inr (Inr r), ?s1)"
    using assms(4) s1(4) by (simp add: run_tool_def call_tool_def run_tryT run_bindT)
  then show ?thesis using s1 s2 assms(3) \<open>adds (_ @ _) s s2\<close> by (simp add: mediate_tool_def run_bindT step_of_def)
qed

lemma loop_leads:
  assumes E: "me_store E = memory" "me_backend E = in_process_backend factory" and X: "ex_comp X = None" "\<not> ex_group X"
    and "leads (me_tools E) (ex_tools X) (rs_calls s) g x n ds v"
  shows "open_at a (ex_tid X) s \<Longrightarrow> length ds < left \<Longrightarrow> unhurried (me_clock E) (ex_envelope X) (ex_start X) (rs_ticks s) n \<Longrightarrow>
    \<exists>s'. run_proc (agent_loop E X i left \<lparr>ip_gen = g, ip_closed = False\<rparr> x) s = (Inr (Inr v), s') \<and>
      open_at a (ex_tid X) s' \<and> adds ds s s'"
  using assms(5)
proof (induction "rs_calls s" g x n ds v arbitrary: s left rule: leads.induct)
  case (leads_return g x v)
  then obtain l where left: "left = Suc l" by (cases left) auto
  have "me_clock E (rs_ticks s) - ex_start X \<le> te_timeout (ex_envelope X)" using leads_return by simp
  note guard = turn_guard_alone [OF X this]
  show ?case using leads_return by (simp add: left run_bindT guard now_def E(2) in_process_backend_def ip_next_def open_at_def adds_def)
next
  case (leads_step g x d detail k n ds v)
  then obtain l where left: "left = Suc l" "length ds < l" by (cases left) auto
  let ?k = "rs_ticks s" and ?s = "s\<lparr>rs_ticks := Suc (Suc (Suc (rs_ticks s)))\<rparr>"
  have clock: "me_clock E ?k - ex_start X \<le> te_timeout (ex_envelope X)" "unhurried (me_clock E) (ex_envelope X) (ex_start X) (Suc (Suc (Suc ?k))) n"
    and over: "\<not> over_step_budget X (me_clock E (Suc (Suc ?k)) - me_clock E (Suc ?k))"
    using leads_step.prems(3) by (auto simp: over_step_budget_def in_step_def split: option.splits)
  note guard = turn_guard_alone [OF X clock(1)]
  have opened: "open_at a (ex_tid X) ?s" using leads_step.prems(1) by (simp add: open_at_def)
  have "plain_record (step_of Completed d PNone detail PNone t)" for t by (simp add: plain_record_def step_of_def)
  from append_open [OF E(1) opened this, of "me_seconds E (me_clock E (Suc (Suc ?k)) - me_clock E (Suc ?k))"]
  obtain s' where s':
    "run_proc (append_locked E (ex_tid X) (step_of Completed d PNone detail PNone (me_seconds E (me_clock E (Suc (Suc ?k)) - me_clock E (Suc ?k))))) ?s
      = (Inr True, s')"
    "open_at a (ex_tid X) s'" "rs_ticks s' = Suc (Suc (Suc ?k))" "rs_calls s' = rs_calls s" "adds [d] ?s s'"
    by (auto simp: step_of_def)
  have "adds (d # es) s u" if "adds es s' u" for es u
    using adds_trans [OF adds_from [OF s'(5), of s] refl that] by simp
  with leads_step.hyps(3) [OF s'(4) [symmetric] s'(2) left(2)] clock(2) s'(3) leads_step.hyps(1) show ?case
    by (auto simp add: left(1) run_bindT guard now_def step_count_def E(2) in_process_backend_def ip_next_def over persist_step_def s'(1))
next
  case (leads_tool g x name args k r n ds v)
  then obtain l where left: "left = Suc l" "length ds < l - Suc 0" by (cases left) auto
  let ?k = "rs_ticks s" and ?s = "s\<lparr>rs_ticks := Suc (Suc (Suc (rs_ticks s)))\<rparr>"
  have clock: "me_clock E ?k - ex_start X \<le> te_timeout (ex_envelope X)" "unhurried (me_clock E) (ex_envelope X) (ex_start X) (Suc (Suc (Suc ?k))) n"
    and over: "\<not> over_step_budget X (me_clock E (Suc (Suc ?k)) - me_clock E (Suc ?k))"
    using leads_tool.prems(3) by (auto simp: over_step_budget_def in_step_def split: option.splits)
  note guard = turn_guard_alone [OF X clock(1)]
  have "open_at a (ex_tid X) ?s" using leads_tool.prems(1) by (simp add: open_at_def)
  moreover have "execute_tool (me_tools E) (rs_calls ?s) name args = Inr r" using leads_tool.hyps(3) by simp
  ultimately obtain s' where s': "run_proc (mediate_tool E X name args) ?s =
      (Inr (Some \<lparr>dv_result = \<lparr>tr_success = True, tr_output = r, tr_error = PNone\<rparr>, dv_consumed = 2\<rparr>), s')"
    "open_at a (ex_tid X) s'" "rs_ticks s' = Suc (Suc (Suc ?k))" "rs_calls s @ [(name, args)] = rs_calls s'"
    "adds [''tool '' @ repr_str name @ '' request'', ''tool '' @ repr_str name @ '' result''] ?s s'"
    using mediate_open [OF E(1) _ leads_tool.hyps(2)] by fastforce
  have "adds ((''tool '' @ repr_str name @ '' request'') # (''tool '' @ repr_str name @ '' result'') # es) s u" if "adds es s' u" for es u
    using adds_trans [OF adds_from [OF s'(5), of s] refl that] by simp
  with leads_tool.hyps(5) [OF s'(4) s'(2) left(2)] clock(2) s'(3) leads_tool.hyps(1) show ?case
    by (auto simp add: left(1) run_bindT guard now_def E(2) in_process_backend_def ip_next_def over s'(1))
qed

section \<open>The run\<close>

lemma resolve_named:
  assumes "agents_ok rg" "resolve rg name cap = Some m"
  shows "get_by_name rg (am_name m) = Some m"
  using assms by (fastforce simp: resolve_def agents_ok_def split: option.splits)

text \<open>A task for one agent without a policy, on a manager whose store is the memory and whose agents run in
  its process, that is given an identifier the store does not hold yet.\<close>

definition plain_run :: "(in_process, mem) menv \<Rightarrow> (string \<Rightarrow> string \<Rightarrow> exc + agent_fn) \<Rightarrow> task \<Rightarrow> mem manager \<Rightarrow> bool" where
  "plain_run E factory t mg \<longleftrightarrow> me_store E = memory \<and> me_backend E = in_process_backend factory \<and> agents_ok (me_agents E) \<and>
     tk_pipeline t = None \<and> tk_parallel t = None \<and> tk_policy t = None \<and>
     \<not> mem_contains (trajectory_id t (mg_seq mg)) (rs_store (mg_state mg))"

definition answered_with :: "(in_process, mem) menv \<Rightarrow> task \<Rightarrow> mem manager \<Rightarrow> pyval \<Rightarrow> string list \<Rightarrow> bool" where
  "answered_with E t mg v descriptions \<longleftrightarrow>
     (case fst (run E t mg) of Inl e \<Rightarrow> False
      | Inr oc \<Rightarrow> oc_failure oc = None \<and> (case oc_result oc of None \<Rightarrow> False
          | Some r \<Rightarrow> vr_output r = v \<and> map sr_description (tj_steps (vr_trajectory r)) = descriptions))"

lemma begin_memory:
  assumes "me_store E = memory" "tk_policy t = None" "\<not> mem_contains tid (rs_store s)" "tid \<noteq> []"
    "rs_steps s = []"
  shows "\<exists>s'. run_proc (begin_run E t a tid body) s = run_proc body s' \<and> open_at a tid s' \<and> rs_steps s' = [] \<and> rs_ticks s' = rs_ticks s \<and> rs_calls s' = rs_calls s"
  using assms by (intro exI [where x = "s\<lparr>rs_store := dput tid
      \<lparr>me_task_id = tk_id t, me_agent_name = a, me_steps = [], me_outcome = None\<rparr> (rs_store s)\<rparr>"])
    (simp add: begin_run_def on_store_error_def run_bindT run_tryT store_begin_def memory_def mem_begin_def mem_contains_def
      validate_trajectory_id_def value_error_if_def policy_gate_def open_at_def dict_simps)

lemma success_memory:
  assumes "me_store E = memory" "open_at a tid s"
  shows "\<exists>oc s' m. run_proc (record_success E t a tid v) s = (Inr oc, s') \<and> oc_failure oc = None \<and> oc_trajectory_id oc = Some tid \<and>
    (\<exists>r. oc_result oc = Some r \<and> vr_output r = v \<and> tj_steps (vr_trajectory r) = rs_steps s) \<and>
    dget (rs_store s') tid = Some m \<and> me_agent_name m = a \<and> me_steps m = rs_steps s \<and> me_outcome m = Some (stored_verified v)"
proof -
  from assms(2) obtain m where "dget (rs_store s) tid = Some m" "me_agent_name m = a" "me_steps m = rs_steps s" "me_outcome m = None"
    "indexed (rs_steps s)"
    by (auto simp: open_at_def)
  moreover from this(5) have "trajectory_init \<lparr>tj_version = Trajectory_V1, tj_task_id = tk_id t, tj_agent_name = a, tj_steps = rs_steps s\<rparr>
    = Inr \<lparr>tj_version = Trajectory_V1, tj_task_id = tk_id t, tj_agent_name = a, tj_steps = rs_steps s\<rparr>"
    by (simp add: trajectory_init_iff)
  ultimately show ?thesis
    by (simp add: record_success_def on_store_error_def run_bindT run_tryT store_outcome_def assms(1) memory_def mem_outcome_def
        mem_require_def build_trajectory_def steps_so_far_def mk_outcome_def value_error_if_def dict_simps)
qed

text \<open>The agent of a task answers it with the output \<open>v\<close> and the records \<open>ds\<close>: it is the selected one, it comes to \<open>v\<close>, the
  envelope leaves it the steps and the time, and its verifier accepts \<open>v\<close>.\<close>

definition answers :: "(in_process, mem) menv \<Rightarrow> (string \<Rightarrow> string \<Rightarrow> exc + agent_fn) \<Rightarrow> task \<Rightarrow> mem manager \<Rightarrow> string \<Rightarrow> pyval \<Rightarrow> string list \<Rightarrow> bool" where
  "answers E factory t mg a v ds \<longleftrightarrow> (\<exists>m agent g n.
     resolve (me_agents E) (tk_agent t) (tk_capability t) = Some m \<and> am_name m = a \<and>
     instantiate_agent factory (am_entry_point m) = Inr agent \<and>
     agent (tk_payload t) (te_max_steps (tk_envelope t)) (build_tool_context (me_tools E) (tk_tools t)) = Inr g \<and>
     leads (me_tools E) (build_tool_context (me_tools E) (tk_tools t)) (rs_calls (mg_state mg)) g No_Value n ds v \<and>
     int (length ds) < te_max_steps (tk_envelope t) \<and>
     unhurried (me_clock E) (tk_envelope t) (me_clock E (rs_ticks (mg_state mg))) (Suc (rs_ticks (mg_state mg))) n \<and>
     accepted E a t v)"

lemma run_recorded:
  assumes plain: "plain_run E factory t mg" and answers: "answers E factory t mg a v ds"
  shows "\<exists>oc mg' r ss i. run E t mg = (Inr oc, mg') \<and> oc_failure oc = None \<and> oc_result oc = Some r \<and> vr_output r = v \<and>
    tj_steps (vr_trajectory r) = ss \<and> map sr_description ss = ds \<and> (\<forall>s \<in> set ss. plain_record s) \<and> indexed ss \<and>
    oc_trajectory_id oc = Some i \<and> (\<exists>task. load E i mg' = Inr (Some
      \<lparr>sd_id = i, sd_task_id = task, sd_agent_name = PStr a, sd_steps = ss, sd_outcome = stored_verified v\<rparr>))"
proof -
  obtain m agent g n where agent: "resolve (me_agents E) (tk_agent t) (tk_capability t) = Some m" "instantiate_agent factory (am_entry_point m) = Inr agent"
    and gen: "agent (tk_payload t) (te_max_steps (tk_envelope t)) (build_tool_context (me_tools E) (tk_tools t)) = Inr g"
    and leads: "leads (me_tools E) (build_tool_context (me_tools E) (tk_tools t)) (rs_calls (mg_state mg)) g No_Value n ds v"
    and enough: "int (length ds) < te_max_steps (tk_envelope t)"
    and clock: "unhurried (me_clock E) (tk_envelope t) (me_clock E (rs_ticks (mg_state mg))) (Suc (rs_ticks (mg_state mg))) n"
    and ver: "accepted E a t v" and a: "am_name m = a"
    using answers unfolding answers_def by blast
  let ?tid = "trajectory_id t (mg_seq mg)" and ?k = "rs_ticks (mg_state mg)"
  let ?s = "(fresh_run (mg_state mg))\<lparr>rs_ticks := Suc ?k\<rparr>" and ?X = "single_exec E t a ?tid (me_clock E ?k)"
  let ?body = "bindT (execute_agent E ?X) (\<lambda>r. case r of Inl h \<Rightarrow> outcome_of_halt E t a ?tid h
    | Inr output \<Rightarrow> record_success E t a ?tid output)"
  note pl = plain [unfolded plain_run_def]
  have "\<not> mem_contains ?tid (rs_store ?s)" "?tid \<noteq> []" "rs_steps ?s = []" using pl by (simp_all add: fresh_run_def trajectory_id_def)
  then obtain s where s: "run_proc (begin_run E t a ?tid ?body) ?s = run_proc ?body s"
    "open_at a ?tid s" "rs_steps s = []" "rs_ticks s = Suc ?k" "rs_calls s = rs_calls (mg_state mg)"
    using begin_memory [of E t ?tid ?s a ?body] pl by (auto simp: fresh_run_def simp del: run_bindP)
  let ?n = "rs_sessions s" and ?s' = "snd (run_proc open_session s)" and ?left = "nat (te_max_steps (tk_envelope t))"
  have s': "open_at a ?tid ?s'" "rs_steps ?s' = []" "rs_ticks ?s' = Suc ?k" "rs_calls ?s' = rs_calls (mg_state mg)"
    using s by (simp_all add: open_session_def open_at_def)
  have "\<exists>u. run_proc (agent_loop E ?X ?n ?left \<lparr>ip_gen = g, ip_closed = False\<rparr> No_Value) ?s'
      = (Inr (Inr v), u) \<and> open_at a (ex_tid ?X) u \<and> adds ds ?s' u"
    by (rule loop_leads) (use pl s' enough clock leads in \<open>simp_all add: single_exec_def\<close>)
  then obtain u where u: "run_proc (agent_loop E ?X ?n ?left \<lparr>ip_gen = g, ip_closed = False\<rparr> No_Value) ?s'
      = (Inr (Inr v), u)" "open_at a ?tid u" "map sr_description (rs_steps u) = ds" "\<forall>r \<in> set (rs_steps u). plain_record r"
    using s'(2) by (auto simp: single_exec_def adds_def)
  have start: "run_proc (start_agent E ?X) s = (Inr (Inr \<lparr>ip_gen = g, ip_closed = False\<rparr>), s)"
    using resolve_named [OF _ agent(1)] pl agent(2) gen
    by (simp add: start_agent_def single_exec_def run_tryT run_bindT in_process_backend_def ip_session_def bindR_def a)
  obtain vf where vf: "run_verifier (me_verifiers E) a t v = Inr vf" "vf_passed vf" using ver by (auto simp: accepted_def)
  let ?u = "u\<lparr>rs_open := removeAll ?n (rs_open u)\<rparr>"
  have exec: "run_proc (execute_agent E ?X) s = (Inr (Inr v), ?u)"
    using start u(1) vf
    by (simp add: execute_agent_def drive_agent_def verify_output_def run_bindT run_thenT run_tryT open_session_def close_session_def
        single_exec_def)
  have opened: "open_at a ?tid ?u" using u(2) by (simp add: open_at_def)
  from success_memory [OF _ this, of E t v] obtain oc w r m' where oc:
    "run_proc (record_success E t a ?tid v) ?u = (Inr oc, w)" "oc_failure oc = None" "oc_trajectory_id oc = Some ?tid" "oc_result oc = Some r"
    "vr_output r = v" "tj_steps (vr_trajectory r) = rs_steps u" "dget (rs_store w) ?tid = Some m'" "me_agent_name m' = a"
    "me_steps m' = rs_steps u" "me_outcome m' = Some (stored_verified v)"
    using pl by auto
  have run: "run E t mg = (Inr oc, \<lparr>mg_seq = Suc (mg_seq mg), mg_state = w\<rparr>)"
    using s(1) exec oc(1) pl by (simp add: run_def run_task_def run_single_def agent(1) now_def run_bindT fresh_run_def a)
  have "load E ?tid \<lparr>mg_seq = Suc (mg_seq mg), mg_state = w\<rparr> = Inr (Some \<lparr>sd_id = ?tid, sd_task_id = PStr (me_task_id m'),
      sd_agent_name = PStr a, sd_steps = rs_steps u, sd_outcome = stored_verified v\<rparr>)"
    using pl oc(7-10) by (simp add: load_def memory_def mem_load_def)
  moreover have "indexed (rs_steps u)" using opened by (simp add: open_at_def)
  ultimately show ?thesis using run oc(2-6) u(3,4) by blast
qed

lemma answersI:
  assumes "resolve (me_agents E) (tk_agent t) (tk_capability t) = Some m" "instantiate_agent factory (am_entry_point m) = Inr agent"
    and "agent (tk_payload t) (te_max_steps (tk_envelope t)) (build_tool_context (me_tools E) (tk_tools t)) = Inr g"
    and "leads (me_tools E) (build_tool_context (me_tools E) (tk_tools t)) (rs_calls (mg_state mg)) g No_Value n ds v"
    and "int (length ds) < te_max_steps (tk_envelope t)"
    and "unhurried (me_clock E) (tk_envelope t) (me_clock E (rs_ticks (mg_state mg))) (Suc (rs_ticks (mg_state mg))) n"
    and "accepted E (am_name m) t v"
  shows "answers E factory t mg (am_name m) v ds"
  unfolding answers_def using assms by blast

lemma agent_answers:
  assumes plain: "plain_run E factory t mg"
    and agent: "resolve (me_agents E) (tk_agent t) (tk_capability t) = Some m" "instantiate_agent factory (am_entry_point m) = Inr agent"
    and gen: "agent (tk_payload t) (te_max_steps (tk_envelope t)) (build_tool_context (me_tools E) (tk_tools t)) = Inr g"
    and leads: "leads (me_tools E) (build_tool_context (me_tools E) (tk_tools t)) (rs_calls (mg_state mg)) g No_Value n ds v"
    and enough: "int (length ds) < te_max_steps (tk_envelope t)"
    and clock: "unhurried (me_clock E) (tk_envelope t) (me_clock E (rs_ticks (mg_state mg))) (Suc (rs_ticks (mg_state mg))) n"
    and ver: "accepted E (am_name m) t v"
  shows "answered_with E t mg v ds"
  using run_recorded [OF plain answersI [OF agent gen leads enough clock ver]] by (auto simp: answered_with_def)

section \<open>The counter answers\<close>

lemma counter_answers:
  assumes "resolve (me_agents E) (tk_agent t) (tk_capability t) = Some m" "instantiate_agent factory (am_entry_point m) = Inr counter_agent"
    and "dget (me_verifiers E) (am_name m) = Some verify_counter_output"
    and "tk_payload t = PDict d" "dget d ''text'' = Some (PStr cs)" "dget d ''target'' = Some (PStr [c])"
    and "int (length cs) \<le> te_max_steps (tk_envelope t)" "int (2 + length cs div 1000) < te_max_steps (tk_envelope t)"
    and "unhurried (me_clock E) (tk_envelope t) (me_clock E (rs_ticks (mg_state mg))) (Suc (rs_ticks (mg_state mg))) (2 + length cs div 1000)"
  shows "answers E factory t mg (am_name m) (PInt (int (count_list cs c))) (map fst (fst (counter_script cs c (te_max_steps (tk_envelope t)))))"
proof -
  let ?p = "counter_script cs c (te_max_steps (tk_envelope t))"
  have p: "snd ?p = PInt (int (count_list cs c))" "length (fst ?p) = 2 + length cs div 1000"
    using counter_script_result [OF assms(7)] by simp_all
  let ?ctx = "build_tool_context (me_tools E) (tk_tools t)" and ?calls = "rs_calls (mg_state mg)"
  have gen: "counter_agent (tk_payload t) (te_max_steps (tk_envelope t)) ?ctx = Inr (\<lambda>_. reports ?p)"
    using assms(4-6) by (simp add: counter_agent_def dget_or_def)
  have "leads (me_tools E) ?ctx ?calls (\<lambda>_. reports ?p) No_Value (length (fst ?p)) (map fst (fst ?p)) (snd ?p)"
    by (rule leads_reports) simp
  note leads = this [unfolded p]
  have "accepted E (am_name m) t (PInt (int (count_list cs c)))"
    using counter_accepts [OF assms(4-6), of "PInt (int (count_list cs c))"] assms(3) by (auto simp: accepted_def run_verifier_def scalar_eq_def)
  then show ?thesis by (intro answersI [OF assms(1,2) gen leads]) (use assms(8,9) p(2) in simp_all)
qed

text \<open>A task for the counter is answered. If an agent whose entry point makes the counter is selected
  and its verifier is the counter's, the payload is a text with a target character, the step budget
  covers the characters and the steps reported (two, and one for every thousand characters), and the
  clock stays within the envelope, then the run returns the number of occurrences of the target as
  its result, and the trajectory holds the steps the counter reports.\<close>

theorem counter_task_answered:
  assumes "plain_run E factory t mg"
    and "resolve (me_agents E) (tk_agent t) (tk_capability t) = Some m" "instantiate_agent factory (am_entry_point m) = Inr counter_agent"
    and "dget (me_verifiers E) (am_name m) = Some verify_counter_output"
    and "tk_payload t = PDict d" "dget d ''text'' = Some (PStr cs)" "dget d ''target'' = Some (PStr [c])"
    and "int (length cs) \<le> te_max_steps (tk_envelope t)" "int (2 + length cs div 1000) < te_max_steps (tk_envelope t)"
    and "unhurried (me_clock E) (tk_envelope t) (me_clock E (rs_ticks (mg_state mg))) (Suc (rs_ticks (mg_state mg))) (2 + length cs div 1000)"
  shows "answered_with E t mg (PInt (int (count_list cs c))) (map fst (fst (counter_script cs c (te_max_steps (tk_envelope t)))))"
proof -
  from run_recorded [OF assms(1) counter_answers [OF assms(2-)]] show ?thesis by (auto simp: answered_with_def)
qed

text \<open>Three letters counted in a word, on a clock that advances by one at every reading.\<close>

definition tally_manifest :: agent_manifest where
  "tally_manifest = \<lparr>am_version = Manifest_V2, am_name = ''tally'', am_entry_point = ''m:make'', am_description = [], am_capabilities = []\<rparr>"

definition tally_desk :: "(in_process, mem) menv" where
  "tally_desk = \<lparr>me_store = memory, me_backend = in_process_backend (\<lambda>_ _. Inr counter_agent),
     me_agents = \<lparr>rg_by_name = [(''tally'', tally_manifest)], rg_by_capability = []\<rparr>,
     me_tools = \<lparr>tl_impls = [], tl_descriptors = []\<rparr>, me_verifiers = [(''tally'', verify_counter_output)],
     me_clock = int, me_seconds = (\<lambda>d. show_int d @ ''.0''), me_schedule = (\<lambda>_. [])\<rparr>"

definition tally_task :: task where
  "tally_task = \<lparr>tk_version = Task_V6, tk_id = ''t'', tk_agent = Some ''tally'', tk_capability = None,
     tk_payload = PDict [(''text'', PStr ''banana''), (''target'', PStr ''a'')],
     tk_envelope = \<lparr>te_timeout = 100, te_max_steps = 10, te_step = Some 5\<rparr>, tk_tools = [], tk_pipeline = None, tk_parallel = None, tk_policy = None\<rparr>"

lemma tally_plain_run:
  "dget st ''t#0'' = None \<Longrightarrow> plain_run tally_desk (\<lambda>_ _. Inr counter_agent) tally_task (new_manager st)"
  by (simp add: plain_run_def tally_desk_def tally_task_def agents_ok_def get_by_name_def get_by_capability_def tally_manifest_def
      dget_Cons mem_contains_def new_manager_def trajectory_id_def show_nat.simps digit_char_def hexl_chars_def)

lemma tally_answers:
  "answers tally_desk (\<lambda>_ _. Inr counter_agent) tally_task (new_manager st) ''tally'' (PInt 3) [''validated payload'', ''computed final count'']"
proof -
  have "answers tally_desk (\<lambda>_ _. Inr counter_agent) tally_task (new_manager st) (am_name tally_manifest) (PInt (int (count_list ''banana'' CHR ''a'')))
      (map fst (fst (counter_script ''banana'' CHR ''a'' (te_max_steps (tk_envelope tally_task)))))"
    by (rule counter_answers [of _ _ _ _ "[(''text'', PStr ''banana''), (''target'', PStr ''a'')]"])
      (simp_all add: tally_desk_def tally_task_def tally_manifest_def resolve_def get_by_name_def dget_Cons instantiate_agent_def entry_parts_def
        new_manager_def in_step_def numeral_2_eq_2)
  moreover have "counter_script ''banana'' CHR ''a'' 10
      = ([(''validated payload'', int_field ''text_len'' 6), (''computed final count'', int_field ''count'' 3)], PInt 3)" by code_simp
  ultimately show ?thesis by (simp add: tally_task_def tally_manifest_def)
qed

lemma tally_answered:
  "answered_with tally_desk tally_task (new_manager []) (PInt 3) [''validated payload'', ''computed final count'']"
  using run_recorded [OF tally_plain_run tally_answers, of "[]"] by (auto simp: answered_with_def)

end
