(* ===== verification/Replay_Props.thy ===== *)
theory Replay_Props
  imports Replay Manager_Live
begin

text \<open>
  What a passing replay says of the two runs: the comparison of the code against the equivalence that
  \<open>control_plane/replay.py\<close> documents, stated on the stored runs without the code's functions. A passing
  replay is equivalent in that sense; an equivalent one passes unless tools were called concurrently. With
  the runs of \<open>Manager_Live\<close>, what \<open>AgentManager.replay\<close> decides of a stored run.
\<close>

lemma same_counts_iff: "same_counts xs ys \<longleftrightarrow> mset xs = mset ys"
proof
  assume "same_counts xs ys"
  then have "count_list xs x = count_list ys x" if "x \<in> set (xs @ ys)" for x
    using that by (simp add: same_counts_def list_all_iff)
  moreover have "count_list xs x = count_list ys x" if "x \<notin> set (xs @ ys)" for x
    using that by (simp add: count_list_0_iff)
  ultimately show "mset xs = mset ys" by (intro multiset_eqI) (metis count_mset)
next
  assume "mset xs = mset ys"
  then show "same_counts xs ys" unfolding same_counts_def list_all_iff by (metis count_mset)
qed

section \<open>The tools\<close>

definition requests :: "string \<Rightarrow> step_record list \<Rightarrow> step_record list" where
  "requests tool ss = filter (\<lambda>s. is_tool_request (sr_description s) \<and> tool_name (sr_description s) = Inr tool) ss"

definition answered :: "step_record list \<Rightarrow> string \<Rightarrow> step_record \<Rightarrow> step_status option" where
  "answered ss tool s = (if sr_status s = Rejected then None else map_option sr_status (paired_result ss s tool))"

text \<open>How often a tool was requested, how many of the requests were answered well or badly, and how many
  were rejected.\<close>

definition tally :: "step_record list \<Rightarrow> string \<Rightarrow> tool_count" where
  "tally ss tool = (let rs = requests tool ss in
     \<lparr>tc_requests = length rs,
      tc_succeeded = length (filter (\<lambda>s. answered ss tool s \<notin> {None, Some Failed}) rs),
      tc_failed = length (filter (\<lambda>s. answered ss tool s = Some Failed) rs),
      tc_rejected = length (filter (\<lambda>s. sr_status s = Rejected) rs)\<rparr>)"

lemma requests_items: "requests tool ss = items_of requested tool ss"
  unfolding requests_def items_of_def requested_def by (rule filter_cong) (auto simp: result_simps)

lemma count_fold:
  "foldl (\<lambda>c s. count_request ss s tool c) c rs =
     \<lparr>tc_requests = tc_requests c + length rs,
      tc_succeeded = tc_succeeded c + length (filter (\<lambda>s. answered ss tool s \<notin> {None, Some Failed}) rs),
      tc_failed = tc_failed c + length (filter (\<lambda>s. answered ss tool s = Some Failed) rs),
      tc_rejected = tc_rejected c + length (filter (\<lambda>s. sr_status s = Rejected) rs)\<rparr>"
proof (induction rs arbitrary: c)
  case Nil
  then show ?case by simp
next
  case (Cons s rs)
  show ?case unfolding foldl.simps Cons.IH
    by (auto simp: count_request_def answered_def Let_def split: option.splits)
qed

lemma pattern_get:
  assumes "keyed_fold requested (count_request ss) no_count ss [] = Inr c"
  shows "dget c tool = (if requests tool ss = [] then None else Some (tally ss tool))"
  using keyed_fold_get [OF assms, of tool]
  by (simp add: requests_items count_fold tally_def Let_def dget_or_def no_count_def)

lemma pattern_eq_iff:
  assumes "tool_pattern t = Inr p" "tool_pattern u = Inr q"
  shows "p = q \<longleftrightarrow> (\<forall>tool. tally (tj_steps t) tool = tally (tj_steps u) tool)"
proof -
  obtain c where c: "keyed_fold requested (count_request (tj_steps t)) no_count (tj_steps t) [] = Inr c" "p = sort_key fst c"
    using assms(1) by (auto simp: tool_pattern_def result_simps)
  obtain d where d: "keyed_fold requested (count_request (tj_steps u)) no_count (tj_steps u) [] = Inr d" "q = sort_key fst d"
    using assms(2) by (auto simp: tool_pattern_def result_simps)
  have "p = q \<longleftrightarrow> (\<forall>n. dget c n = dget d n)"
    unfolding c d by (rule sort_key_eq_iff) (use keyed_fold_wf [OF c(1)] keyed_fold_wf [OF d(1)] in simp_all)
  also have "\<dots> \<longleftrightarrow> (\<forall>tool. tally (tj_steps t) tool = tally (tj_steps u) tool)"
  proof (rule iff_allI)
    fix n
    have zero: "requests n ss = [] \<longleftrightarrow> tc_requests (tally ss n) = 0" for ss by (simp add: tally_def Let_def)
    have none: "requests n ss = [] \<Longrightarrow> tally ss n = no_count" for ss by (simp add: tally_def Let_def no_count_def)
    show "(dget c n = dget d n) = (tally (tj_steps t) n = tally (tj_steps u) n)"
    proof (cases "requests n (tj_steps t) = []")
      case True
      then have "dget c n = None" "tc_requests (tally (tj_steps t) n) = 0" using zero by (simp_all add: pattern_get [OF c(1)])
      moreover have "dget d n = None \<longleftrightarrow> tc_requests (tally (tj_steps u) n) = 0" using zero by (simp add: pattern_get [OF d(1)])
      ultimately show ?thesis using none zero True by (metis (no_types))
    next
      case False
      then show ?thesis using zero [of "tj_steps t"] zero [of "tj_steps u"] by (auto simp: pattern_get [OF c(1)] pattern_get [OF d(1)])
    qed
  qed
  finally show ?thesis .
qed

section \<open>Descriptions\<close>

lemma starts_with_iff: "starts_with p s \<longleftrightarrow> (\<exists>rest. s = p @ rest)"
proof
  assume "starts_with p s"
  then have "s = p @ drop (length p) s" unfolding starts_with_def by (metis append_take_drop_id)
  then show "\<exists>rest. s = p @ rest" ..
qed (auto simp: starts_with_def)

lemma infix_of_iff: "infix_of p s \<longleftrightarrow> (\<exists>before after. s = before @ p @ after)"
proof (induction s)
  case (Cons c s)
  show ?case unfolding infix_of.simps Cons.IH starts_with_iff by (metis append_Cons append_Nil append_eq_Cons_conv)
qed auto

text \<open>A step asks for a tool if its description begins with \<open>tool '\<close> and contains \<open>request\<close> after a space;
  it asks for the one between the quotes.\<close>

definition asks :: "step_record \<Rightarrow> bool" where
  "asks s \<longleftrightarrow> (\<exists>rest before after. sr_description s = ''tool '' @ squote_c # rest \<and>
     sr_description s = before @ '' request'' @ after)"

definition asks_for :: "string \<Rightarrow> step_record \<Rightarrow> bool" where
  "asks_for tool s \<longleftrightarrow> asks s \<and> squote_c \<notin> set tool \<and> (\<exists>rest. sr_description s = ''tool '' @ squote_c # tool @ squote_c # rest)"

text \<open>No step of an agent imitates a request without naming a tool in quotes.\<close>

definition unforged :: "step_record list \<Rightarrow> bool" where
  "unforged ss \<longleftrightarrow> (\<forall>s \<in> set ss. asks s \<longrightarrow> (\<exists>tool. asks_for tool s))"

lemma is_tool_request_iff: "is_tool_request (sr_description s) \<longleftrightarrow> asks s"
  by (auto simp: is_tool_request_def asks_def starts_with_iff infix_of_iff tool_prefix_def)

lemma tool_name_quoted: "tool_name (''tool '' @ squote_c # rest) =
    (if squote_c \<in> set rest then Inr (takeWhile (\<lambda>c. c \<noteq> squote_c) rest) else Inl (Exc ValueError ''substring not found''))"
  by (simp add: tool_name_def squote_c_def)

lemma split_at_quote: "(\<exists>r. rest = tool @ q # r) \<and> q \<notin> set tool \<longleftrightarrow> q \<in> set rest \<and> takeWhile (\<lambda>c. c \<noteq> q) rest = tool"
proof
  assume "(\<exists>r. rest = tool @ q # r) \<and> q \<notin> set tool"
  then show "q \<in> set rest \<and> takeWhile (\<lambda>c. c \<noteq> q) rest = tool" by (auto simp: takeWhile_tail takeWhile_eq_all_conv)
next
  assume q: "q \<in> set rest \<and> takeWhile (\<lambda>c. c \<noteq> q) rest = tool"
  then obtain ys zs where split: "rest = ys @ q # zs" "q \<notin> set ys" by (metis split_list_first)
  then have "takeWhile (\<lambda>c. c \<noteq> q) rest = ys" by (simp add: takeWhile_tail takeWhile_eq_all_conv) blast
  then show "(\<exists>r. rest = tool @ q # r) \<and> q \<notin> set tool" using q split by auto
qed

lemma requested_iff:
  "requested s = Inr (Some tool) \<longleftrightarrow> asks_for tool s"
  "requested s = Inr None \<longleftrightarrow> \<not> asks s"
proof -
  show "requested s = Inr None \<longleftrightarrow> \<not> asks s"
    by (auto simp: requested_def is_tool_request_iff result_simps)
  show "requested s = Inr (Some tool) \<longleftrightarrow> asks_for tool s"
  proof (cases "asks s")
    case True
    then obtain rest where d: "sr_description s = ''tool '' @ squote_c # rest" by (auto simp: asks_def)
    have "requested s = Inr (Some tool) \<longleftrightarrow> squote_c \<in> set rest \<and> takeWhile (\<lambda>c. c \<noteq> squote_c) rest = tool"
      using True unfolding requested_def is_tool_request_iff unfolding d tool_name_quoted by auto
    then show ?thesis using True unfolding asks_for_def d split_at_quote [symmetric] by auto
  next
    case False
    then show ?thesis by (simp add: requested_def is_tool_request_iff asks_for_def)
  qed
qed

lemma pattern_exists: "unforged (tj_steps t) \<Longrightarrow> \<exists>p. tool_pattern t = Inr p"
proof -
  have total: "\<exists>d'. keyed_fold requested upd zero ss d = Inr d'" if "unforged ss" for upd and zero :: tool_count and ss d
    using that
  proof (induction ss arbitrary: d)
    case (Cons s ss)
    have "\<exists>k. requested s = Inr k"
      using Cons.prems requested_iff [of s] by (cases "asks s") (auto simp: unforged_def)
    then obtain k where "requested s = Inr k" ..
    then show ?case using Cons by (cases k) (auto simp: unforged_def)
  qed simp
  show "unforged (tj_steps t) \<Longrightarrow> ?thesis"
    using total [of "tj_steps t" "count_request (tj_steps t)" no_count "[]"] by (auto simp: tool_pattern_def)
qed

section \<open>The documented equivalence\<close>

text \<open>The rules at the head of \<open>control_plane/replay.py\<close>, on stored runs. Rule 5, that the numbers of requests,
  rejections, results and failures of each tool agree, follows from rule 3: each of these events is a step
  with a signature of its own.\<close>

definition same_end :: "stored_outcome \<Rightarrow> stored_outcome \<Rightarrow> bool" where
  "same_end c d \<longleftrightarrow> so_kind c = so_kind d \<and>
     (case so_kind c of Verified_Kind \<Rightarrow> py_eq (so_output c) (so_output d) | Failure_Kind \<Rightarrow> py_eq (so_reason c) (so_reason d)
      | Interrupted_Kind \<Rightarrow> False)"

definition concurrent :: "step_record list \<Rightarrow> bool" where
  "concurrent ss \<longleftrightarrow> (\<exists>s \<in> set ss. sr_description s = ''parallel group begin'' \<or> (\<exists>n. sr_description s = ''parallel stage '' @ n))"

definition marker :: "step_record \<Rightarrow> bool" where
  "marker s \<longleftrightarrow> (\<exists>rest. sr_description s = ''pipeline stage '' @ rest \<or> sr_description s = ''parallel group begin'' @ rest \<or>
     sr_description s = ''parallel stage '' @ rest \<or> sr_description s = ''parallel group end'' @ rest)"

definition signature :: "step_record \<Rightarrow> step_status \<times> string" where
  "signature s = (sr_status s, sr_description s)"

definition same_steps :: "step_record list \<Rightarrow> step_record list \<Rightarrow> bool" where
  "same_steps xs ys \<longleftrightarrow>
     (if concurrent xs \<or> concurrent ys then
        map signature (filter marker xs) = map signature (filter marker ys) \<and> mset (map signature xs) = mset (map signature ys)
      else map signature xs = map signature ys)"

text \<open>The agents of a run: those its stages name, each at its first mention, or the agent of the run itself.\<close>

definition mentions :: "step_record \<Rightarrow> string list" where
  "mentions s =
     (case sr_input s of
        PDict d \<Rightarrow>
          (if \<exists>n. sr_description s = ''pipeline stage '' @ n \<or> sr_description s = ''parallel stage '' @ n
           then (case dget d ''agent'' of Some (PStr a) \<Rightarrow> [a] | _ \<Rightarrow> [])
           else if sr_description s = ''parallel group begin''
           then (case dget d ''stages'' of Some (PList vs) \<Rightarrow> [a. PStr a \<leftarrow> vs] | _ \<Rightarrow> []) else [])
      | _ \<Rightarrow> [])"

definition agents_of :: "stored \<Rightarrow> string list" where
  "agents_of r = (let ls = concat (map mentions (sd_steps r)) in if ls = [] then [py_str (sd_agent_name r)] else rev (remdups (rev ls)))"

definition same_run :: "stored \<Rightarrow> stored \<Rightarrow> bool" where
  "same_run o' r \<longleftrightarrow> same_end (sd_outcome o') (sd_outcome r) \<and> same_steps (sd_steps o') (sd_steps r) \<and> agents_of o' = agents_of r"

section \<open>The comparison of the code\<close>

lemma parallel_iff: "is_parallel = concurrent"
  by (rule ext) (auto simp: is_parallel_def concurrent_def list_ex_iff starts_with_iff)

lemma boundary_iff: "is_boundary = marker"
  by (rule ext) (auto simp: is_boundary_def boundary_prefixes_def marker_def starts_with_iff)

lemma status_value_inj: "status_value s = status_value t \<longleftrightarrow> s = t"
  by (cases s; cases t) (simp_all add: status_value_def)

lemma signatures_iff:
  "map step_signature xs = map step_signature ys \<longleftrightarrow> map signature xs = map signature ys"
  "mset (map step_signature xs) = mset (map step_signature ys) \<longleftrightarrow> mset (map signature xs) = mset (map signature ys)"
proof -
  let ?f = "\<lambda>(s, d :: string). (status_value s, d)"
  have inj: "inj ?f" by (auto simp: inj_def status_value_inj)
  have sig: "map step_signature zs = map ?f (map signature zs)" for zs
    by (simp add: step_signature_def signature_def)
  show "map step_signature xs = map step_signature ys \<longleftrightarrow> map signature xs = map signature ys"
    unfolding sig by (rule inj_map_eq_map [OF inj])
  have "image_mset ?f A = image_mset ?f B \<longleftrightarrow> A = B" for A B
    using inj by (metis multiset.inj_map injD)
  then show "mset (map step_signature xs) = mset (map step_signature ys) \<longleftrightarrow> mset (map signature xs) = mset (map signature ys)"
    unfolding sig mset_map .
qed

lemma mset_partition:
  "map f (filter P xs) = map f (filter P ys) \<Longrightarrow>
    mset (map f (filter (Not \<circ> P) xs)) = mset (map f (filter (Not \<circ> P) ys)) \<longleftrightarrow> mset (map f xs) = mset (map f ys)"
proof -
  have split: "mset (map f xs) = mset (map f (filter P xs)) + mset (map f (filter (Not \<circ> P) xs))" for xs
    by (induction xs) auto
  assume "map f (filter P xs) = map f (filter P ys)"
  then have "mset (map f (filter P xs)) = mset (map f (filter P ys))" by simp
  then show ?thesis unfolding split [of xs] split [of ys] by simp
qed

lemma steps_equivalent_iff: "steps_equivalent xs ys \<longleftrightarrow> same_steps xs ys"
  unfolding steps_equivalent_def same_steps_def same_counts_iff parallel_iff boundary_iff signatures_iff [symmetric]
  by (rule if_cong [OF refl conj_cong [OF refl mset_partition] refl])

abbreviation add_new :: "'a list \<Rightarrow> 'a \<Rightarrow> 'a list" where
  "add_new ls a \<equiv> (if a \<in> set ls then ls else ls @ [a])"

lemma add_new_fold: "foldl add_new ls xs = ls @ filter (\<lambda>a. a \<notin> set ls) (rev (remdups (rev xs)))"
  by (induction xs rule: rev_induct) auto

lemma label_step: "foldl add_label ls (step_labels s) = foldl add_new ls (mentions s)"
proof -
  have strings: "foldl add_label ls vs = foldl add_new ls [a. PStr a \<leftarrow> vs]" for ls vs
    by (induction vs arbitrary: ls) (auto simp: add_label_def split: pyval.splits)
  show ?thesis
    by (cases "sr_input s")
      (auto simp: step_labels_def mentions_def starts_with_iff strings add_label_def dget_or_def split: option.splits pyval.splits)
qed

lemma compose_agents_of:
  assumes "to_trajectory r = Inr t"
  shows "compose_agents t = agents_of r"
proof -
  have t: "tj_steps t = sd_steps r" "tj_agent_name t = py_str (sd_agent_name r)"
    using assms by (auto simp: to_trajectory_def trajectory_init_iff)
  have "foldl (\<lambda>ls s. foldl add_label ls (step_labels s)) ls ss = foldl add_new ls (concat (map mentions ss))" for ls ss
    by (induction ss arbitrary: ls) (simp_all add: label_step)
  then have "compose_agents t = (let ls = rev (remdups (rev (concat (map mentions (sd_steps r))))) in
      if ls \<noteq> [] then ls else [py_str (sd_agent_name r)])"
    by (simp add: compose_agents_def t add_new_fold)
  then show ?thesis by (simp add: agents_of_def Let_def)
qed

text \<open>The tallies look at the index, the status and the description of a step only.\<close>

definition plain_step :: "step_record \<Rightarrow> step_record" where
  "plain_step s = (step_of (sr_status s) (sr_description s) PNone PNone PNone [])\<lparr>sr_index := sr_index s\<rparr>"

lemma plain_step_simps [simp]:
  "sr_index (plain_step s) = sr_index s" "sr_status (plain_step s) = sr_status s" "sr_description (plain_step s) = sr_description s"
  by (simp_all add: plain_step_def step_of_def)

lemma tally_plain: "tally (map plain_step ss) tool = tally ss tool"
proof -
  have requests: "requests tool (map plain_step ss) = map plain_step (requests tool ss)"
    by (simp add: requests_def filter_map comp_def)
  have "find P (map plain_step ss) = map_option plain_step (find (P \<circ> plain_step) ss)" for P
    by (induction ss) simp_all
  then have answered: "answered (map plain_step ss) tool (plain_step s) = answered ss tool s" for s
    by (simp add: answered_def paired_result_def comp_def option.map_comp)
  show ?thesis by (simp add: tally_def Let_def requests filter_map comp_def answered)
qed

lemma same_tally:
  assumes "indexed xs" "indexed ys" "map signature xs = map signature ys"
  shows "tally xs tool = tally ys tool"
proof -
  have len: "length xs = length ys" using assms(3) by (rule map_eq_imp_length_eq)
  have "map plain_step xs = map plain_step ys"
  proof (rule nth_equalityI)
    fix i assume i: "i < length (map plain_step xs)"
    then have "signature (xs ! i) = signature (ys ! i)" "sr_index (xs ! i) = sr_index (ys ! i)"
      using assms len by (metis length_map nth_map, simp add: indexed_def)
    then show "map plain_step xs ! i = map plain_step ys ! i" using i len by (simp add: signature_def plain_step_def)
  qed (simp add: len)
  then show ?thesis by (metis tally_plain)
qed

lemma no_tally: "\<forall>s \<in> set ss. \<not> asks s \<Longrightarrow> tally ss tool = no_count"
proof -
  assume "\<forall>s \<in> set ss. \<not> asks s"
  then have "requests tool ss = []" by (simp add: requests_def filter_empty_conv is_tool_request_iff)
  then show ?thesis by (simp add: tally_def no_count_def)
qed

lemma same_steps_asks:
  assumes "mset (map signature xs) = mset (map signature ys)" "\<forall>s \<in> set xs. \<not> asks s"
  shows "\<forall>s \<in> set ys. \<not> asks s"
proof
  fix s assume "s \<in> set ys"
  then have "signature s \<in> set (map signature xs)" using mset_eq_setD [OF assms(1)] by simp
  then obtain s' where "s' \<in> set xs" "sr_description s' = sr_description s" by (auto simp: signature_def)
  then show "\<not> asks s" using assms(2) unfolding asks_def by metis
qed

lemma same_steps_concurrent:
  assumes "same_steps xs ys"
  shows "concurrent xs = concurrent ys"
proof -
  have conc: "concurrent zs \<longleftrightarrow> (\<exists>d \<in> set (map (snd \<circ> signature) zs). d = ''parallel group begin'' \<or> (\<exists>n. d = ''parallel stage '' @ n))" for zs
    by (auto simp: concurrent_def signature_def)
  have sets: "set (map (snd \<circ> signature) xs) = set (map (snd \<circ> signature) ys)" if "mset (map signature xs) = mset (map signature ys)"
    using mset_eq_setD [OF that] by (metis list.map_comp list.set_map)
  show ?thesis
  proof (cases "concurrent xs \<or> concurrent ys")
    case True
    then have m: "mset (map signature xs) = mset (map signature ys)" using assms by (simp add: same_steps_def)
    then show ?thesis using conc sets by metis
  qed simp
qed

lemma same_steps_tally:
  assumes "indexed xs" "indexed ys" "same_steps xs ys" "concurrent xs \<longrightarrow> (\<forall>s \<in> set xs. \<not> asks s)"
  shows "tally xs tool = tally ys tool"
proof (cases "concurrent xs")
  case True
  then have m: "mset (map signature xs) = mset (map signature ys)" using assms(3) by (simp add: same_steps_def)
  have "\<forall>s \<in> set xs. \<not> asks s" using assms(4) True by blast
  then show ?thesis using no_tally same_steps_asks [OF m] by metis
next
  case False
  then have "map signature xs = map signature ys"
    using assms(3) same_steps_concurrent [OF assms(3)] by (simp add: same_steps_def)
  then show ?thesis using same_tally [OF assms(1,2)] by blast
qed

section \<open>The verdict\<close>

lemma verdict:
  assumes "indexed (sd_steps o')" "indexed (sd_steps r)" "unforged (sd_steps o')" "unforged (sd_steps r)"
  shows "\<exists>res. verify_replay o' r = Inr res \<and> (rr_passed res \<longleftrightarrow> rr_diffs res = []) \<and>
    (rr_passed res \<longrightarrow> same_run o' r) \<and>
    (same_run o' r \<and> (concurrent (sd_steps o') \<longrightarrow> (\<forall>s \<in> set (sd_steps o'). \<not> asks s)) \<longrightarrow> rr_passed res)"
proof (cases "so_kind (sd_outcome o') = Interrupted_Kind")
  case True
  then show ?thesis
    by (simp add: verify_replay_def replay_result_of_def replay_result_init_def value_error_if_def same_run_def same_end_def)
next
  case False
  obtain t where t: "to_trajectory o' = Inr t" "tj_steps t = sd_steps o'"
    using assms(1) by (simp add: to_trajectory_def trajectory_init_iff)
  obtain u where u: "to_trajectory r = Inr u" "tj_steps u = sd_steps r"
    using assms(2) by (simp add: to_trajectory_def trajectory_init_iff)
  obtain p q where pq: "tool_pattern t = Inr p" "tool_pattern u = Inr q"
    using pattern_exists assms(3,4) unfolding t(2) [symmetric] u(2) [symmetric] by blast
  have ends: "outcome_diffs (sd_outcome o') (sd_outcome r) = [] \<longleftrightarrow> same_end (sd_outcome o') (sd_outcome r)"
    using False by (auto simp: outcome_diffs_def diff_if_def same_end_def split: outcome_kind.splits)
  define ds where "ds =
     diff_if (\<not> steps_equivalent (tj_steps t) (tj_steps u)) ''steps'' (PInt (int (length (tj_steps t)))) (PInt (int (length (tj_steps u)))) @
     diff_if (compose_agents t \<noteq> compose_agents u) ''agents'' (PStrs (compose_agents t)) (PStrs (compose_agents u)) @
     diff_if (p \<noteq> q) ''tools'' (pattern_value p) (pattern_value q)"
  have ds: "trajectory_diffs t u = Inr ds" by (simp add: trajectory_diffs_def pq ds_def)
  have "ds = [] \<longleftrightarrow> same_steps (sd_steps o') (sd_steps r) \<and> agents_of o' = agents_of r \<and> p = q"
    by (auto simp: ds_def diff_if_def steps_equivalent_iff compose_agents_of [OF t(1)] compose_agents_of [OF u(1)] t(2) u(2))
  moreover have "p = q" if "same_steps (sd_steps o') (sd_steps r)"
    "concurrent (sd_steps o') \<longrightarrow> (\<forall>s \<in> set (sd_steps o'). \<not> asks s)"
    using same_steps_tally [OF assms(1,2) that] unfolding pattern_eq_iff [OF pq] t(2) u(2) by blast
  ultimately show ?thesis using False ends
    by (auto simp: verify_replay_def t(1) u(1) ds replay_result_of_def replay_result_init_def value_error_if_def Let_def same_run_def)
qed

text \<open>C35: A replay is judged by the documented equivalence. The comparison of two stored runs returns a
  result, which passes exactly when it lists no difference. If it passes, the runs are equivalent: the
  same end with equal outputs or equal failure reasons, the same steps (concurrent ones in any order, the
  markers of the stages in order), the same agents. If they are equivalent, it passes, provided that the
  run was not parallel or asked for no tool; with concurrent tool calls the documented promise fails
  (\<open>concurrent_order_fails\<close>). The steps are numbered as every stored trajectory numbers them, and
  no agent forges a request.\<close>

theorem replay_verdict:
  assumes "indexed (sd_steps o')" "indexed (sd_steps r)" "unforged (sd_steps o')" "unforged (sd_steps r)"
  shows "\<exists>res. verify_replay o' r = Inr res \<and> (rr_passed res \<longleftrightarrow> rr_diffs res = []) \<and>
    (rr_passed res \<longrightarrow> same_run o' r) \<and>
    (same_run o' r \<and> (concurrent (sd_steps o') \<longrightarrow> (\<forall>s \<in> set (sd_steps o'). \<not> asks s)) \<longrightarrow> rr_passed res)"
  by (rule verdict [OF assms])

text \<open>A stored run with one tool request and its answer.\<close>

definition sample_steps :: "step_record list" where
  "sample_steps = [step_of Completed (tool_prefix @ ''add'' @ [squote_c] @ '' request'') PNone PNone PNone ''0.0'',
     (step_of Completed (result_prefix ''add'') PNone (PInt 5) PNone ''0.0'')\<lparr>sr_index := 1\<rparr>]"

definition sample_stored :: "string \<Rightarrow> stored" where
  "sample_stored i = \<lparr>sd_id = i, sd_task_id = PStr ''t'', sd_agent_name = PStr ''a'', sd_steps = sample_steps, sd_outcome = stored_verified (PInt 5)\<rparr>"

lemma sample_steps_ok: "indexed sample_steps" "unforged sample_steps" "\<not> concurrent sample_steps"
proof -
  show "indexed sample_steps" by (simp add: indexed_def sample_steps_def step_of_def less_Suc_eq)
  show "\<not> concurrent sample_steps"
    by (simp add: concurrent_def sample_steps_def step_of_def tool_prefix_def result_prefix_def)
  have "asks_for ''add'' s \<or> \<not> asks s" if "s \<in> set sample_steps" for s
  proof -
    have "list_all (\<lambda>s. requested s = Inr (Some ''add'') \<or> requested s = Inr None) sample_steps" by code_simp
    then show ?thesis using that by (auto simp: list_all_iff requested_iff)
  qed
  then show "unforged sample_steps" unfolding unforged_def by blast
qed

theorem replay_verdict_witness:
  "\<exists>res. verify_replay (sample_stored ''t#0'') (sample_stored ''t#1'') = Inr res \<and> rr_passed res"
proof -
  have "same_end (sd_outcome (sample_stored ''t#0'')) (sd_outcome (sample_stored ''t#1''))" by code_simp
  then have "same_run (sample_stored ''t#0'') (sample_stored ''t#1'')"
    by (simp add: same_run_def same_steps_def agents_of_def sample_stored_def)
  then show ?thesis
    using replay_verdict [of "sample_stored ''t#0''" "sample_stored ''t#1''"] sample_steps_ok by (auto simp: sample_stored_def)
qed

section \<open>What the comparison does not see\<close>

text \<open>A tool that failed is recorded under a description that is never taken for an answer.\<close>

lemma failed_tool_unseen: "\<not> starts_with (result_prefix tool) (tool_prefix @ tool @ [squote_c] @ '' execution failed'')"
  by (simp add: starts_with_def result_prefix_def)

text \<open>So the tool counts depend on the order of concurrent calls. Two stages of a parallel group each ask for
  the tool \<open>add\<close> once; it fails for the stage \<open>a\<close>, which goes on without it, and answers the stage \<open>b\<close>. In the
  first run both ask before either is answered, in the second \<open>b\<close> is done before \<open>a\<close> asks. The runs are
  equivalent, and the comparison reports a difference in the tools: two calls that succeeded against one.\<close>

definition numbered :: "(step_status \<times> string) list \<Rightarrow> step_record list" where
  "numbered ds = map (\<lambda>(i, st, d). (step_of st d PNone PNone PNone ''0.0'')\<lparr>sr_index := int i\<rparr>) (zip [0..<length ds] ds)"

definition group_begin :: "(step_status \<times> string) list" where
  "group_begin = [(Started, ''parallel group begin''), (Started, ''parallel stage 0 begin''), (Started, ''parallel stage 1 begin'')]"

definition group_run :: "string \<Rightarrow> (step_status \<times> string) list \<Rightarrow> stored" where
  "group_run i work = \<lparr>sd_id = i, sd_task_id = PStr ''t'', sd_agent_name = PStr ''j'',
     sd_steps = numbered (group_begin @ work @ [(Completed, ''parallel group end'')]), sd_outcome = stored_verified (PInt 5)\<rparr>"

definition add_asked :: "step_status \<times> string" where
  "add_asked = (Completed, tool_prefix @ ''add'' @ [squote_c] @ '' request'')"

definition add_failed :: "step_status \<times> string" where
  "add_failed = (Failed, tool_prefix @ ''add'' @ [squote_c] @ '' execution failed'')"

definition add_answered :: "step_status \<times> string" where
  "add_answered = (Completed, result_prefix ''add'')"

definition first_run :: stored where
  "first_run = group_run ''t#0'' [add_asked, add_asked, add_failed, add_answered]"

definition second_run :: stored where
  "second_run = group_run ''t#1'' [add_asked, add_answered, add_asked, add_failed]"

lemma no_mentions: "concat (map mentions (numbered ds)) = []"
  by (auto simp: numbered_def mentions_def step_of_def)

lemma numbered_indexed: "indexed (numbered ds)"
  by (simp add: indexed_def numbered_def step_of_def split_beta)

text \<open>What the code sees in each of the records.\<close>

lemma record_kinds:
  "list_all (\<lambda>(st, d). \<not> is_tool_request d \<and> \<not> starts_with (result_prefix ''add'') d \<and> d \<noteq> ''model call failed'')
     ((Completed, ''parallel group end'') # add_failed # group_begin)"
  "list_all (\<lambda>(st, d). is_tool_request d \<and> tool_name d = Inr ''add'' \<and> \<not> starts_with (result_prefix ''add'') d \<and>
     d \<noteq> ''model call failed'' \<and> st = Completed) [add_asked]"
  "list_all (\<lambda>(st, d). \<not> is_tool_request d \<and> starts_with (result_prefix ''add'') d \<and> st = Completed) [add_answered]"
  by code_simp+

lemma group_tallies:
  "tc_succeeded (tally (sd_steps first_run) ''add'') = 2" "tc_succeeded (tally (sd_steps second_run) ''add'') = 1"
proof -
  note kinds = record_kinds [unfolded group_begin_def list.pred_inject split_beta]
  show "tc_succeeded (tally (sd_steps first_run) ''add'') = 2" "tc_succeeded (tally (sd_steps second_run) ''add'') = 1"
    using kinds by (simp_all add: first_run_def second_run_def group_run_def group_begin_def numbered_def step_of_def tally_def
        requests_def answered_def paired_result_def Let_def split_beta)
qed

lemma concurrent_order_fails:
  "same_run first_run second_run"
  "\<exists>res. verify_replay first_run second_run = Inr res \<and> \<not> rr_passed res \<and> map rd_field (rr_diffs res) = [''tools'']"
proof -
  have ends: "outcome_diffs (sd_outcome first_run) (sd_outcome second_run) = []"
      "same_end (sd_outcome first_run) (sd_outcome second_run)" by code_simp+
  have steps: "steps_equivalent (sd_steps first_run) (sd_steps second_run)" by code_simp
  have agents: "agents_of (group_run i work) = [''j'']" for i work
    by (simp add: agents_of_def group_run_def no_mentions py_str_def)
  show "same_run first_run second_run"
    using ends steps agents by (simp add: same_run_def steps_equivalent_iff first_run_def second_run_def)
  have "indexed (sd_steps first_run)" "indexed (sd_steps second_run)"
    by (simp_all add: first_run_def second_run_def group_run_def numbered_indexed)
  then obtain t u where t: "to_trajectory first_run = Inr t" "tj_steps t = sd_steps first_run"
    and u: "to_trajectory second_run = Inr u" "tj_steps u = sd_steps second_run"
    by (simp add: to_trajectory_def trajectory_init_iff)
  note kinds = record_kinds [unfolded group_begin_def list.pred_inject split_beta]
  have "unforged (sd_steps first_run)" "unforged (sd_steps second_run)"
    unfolding unforged_def is_tool_request_iff [symmetric] requested_iff(1) [symmetric] requested_def
    using kinds by (simp_all add: first_run_def second_run_def group_run_def group_begin_def numbered_def step_of_def split_beta)
  then obtain p q where pq: "tool_pattern t = Inr p" "tool_pattern u = Inr q"
    using pattern_exists t(2) u(2) by metis
  have "p \<noteq> q" using pattern_eq_iff [OF pq] group_tallies unfolding t(2) u(2) by (metis numeral_eq_one_iff semiring_norm(85))
  moreover have "compose_agents t = compose_agents u"
    using compose_agents_of [OF t(1)] compose_agents_of [OF u(1)] agents by (simp add: first_run_def second_run_def)
  moreover have "so_kind (sd_outcome first_run) = Verified_Kind" by code_simp
  ultimately show "\<exists>res. verify_replay first_run second_run = Inr res \<and> \<not> rr_passed res \<and> map rd_field (rr_diffs res) = [''tools'']"
    using ends(1) steps
    by (simp add: verify_replay_def t u trajectory_diffs_def pq diff_if_def replay_result_of_def replay_result_init_def value_error_if_def)
qed

text \<open>An agent may describe a step in words that read like a request: the comparison then raises.\<close>

lemma forged_request_raises:
  assumes "s \<in> set (tj_steps t)" "sr_description s = tool_prefix @ ''x request''"
  shows "\<exists>e. tool_pattern t = Inl e"
proof -
  have "is_tool_request (tool_prefix @ ''x request'')" "tool_name (tool_prefix @ ''x request'') = Inl (Exc ValueError ''substring not found'')"
    by code_simp+
  then have "\<exists>e. requested s = Inl e" by (simp add: requested_def assms(2))
  then show ?thesis using keyed_fold_raises [OF assms(1)] by (auto simp: tool_pattern_def result_simps)
qed

section \<open>What a replay decides\<close>

text \<open>A description that an agent may report without imitating the manager: no marker of a parallel group, and
  no request that names no tool.\<close>

definition ordinary :: "string \<Rightarrow> bool" where
  "ordinary d \<longleftrightarrow> d \<noteq> ''parallel group begin'' \<and> (\<nexists>n. d = ''parallel stage '' @ n) \<and>
     (\<forall>s. sr_description s = d \<and> asks s \<longrightarrow> (\<exists>tool. asks_for tool s))"

lemma ordinary_steps:
  assumes "list_all ordinary (map sr_description ss)"
  shows "unforged ss" "\<not> concurrent ss"
  using assms by (auto simp: unforged_def concurrent_def ordinary_def list_all_iff)

lemma plain_records:
  assumes "\<forall>s \<in> set ss. plain_record s" "list_all ordinary (map sr_description ss)"
  shows "unforged ss" "\<not> concurrent ss" "concat (map mentions ss) = []" "map signature ss = map (Pair Completed) (map sr_description ss)"
proof -
  show "unforged ss" "\<not> concurrent ss" using ordinary_steps [OF assms(2)] .
  show "concat (map mentions ss) = []" using assms(1) by (fastforce simp: plain_record_def mentions_def split: pyval.splits)
  show "map signature ss = map (Pair Completed) (map sr_description ss)"
    using assms(1) by (simp add: plain_record_def signature_def)
qed

text \<open>C36: A replay decides: for a task of one agent on the manager of \<open>plain_run\<close>, whose agent answers it with
  the output \<open>v\<close> and the records \<open>ds\<close>, and any stored run, \<open>replay\<close> runs the task and returns a result, and the
  result passes exactly if the stored run was verified with an equal output, consists of just the
  records \<open>ds\<close>, each completed, and involved just the agent that is selected now. The stored steps are
  numbered, and neither run has a step that imitates a record of the manager.\<close>

theorem replay_decides:
  assumes "plain_run E factory t mg" "answers E factory t mg a v ds" "list_all ordinary ds"
    and "load E i mg = Inr (Some o')" "indexed (sd_steps o')" "unforged (sd_steps o')"
  shows "\<exists>res. fst (replay E t i mg) = Inr res \<and> (rr_passed res \<longleftrightarrow> so_kind (sd_outcome o') = Verified_Kind \<and>
    py_eq (so_output (sd_outcome o')) v \<and> map signature (sd_steps o') = map (Pair Completed) ds \<and> agents_of o' = [a])"
proof -
  obtain oc mg' ss j task where run: "run E t mg = (Inr oc, mg')" "oc_trajectory_id oc = Some j" "map sr_description ss = ds"
    "\<forall>s \<in> set ss. plain_record s" "indexed ss"
    "load E j mg' = Inr (Some \<lparr>sd_id = j, sd_task_id = task, sd_agent_name = PStr a, sd_steps = ss, sd_outcome = stored_verified v\<rparr>)"
    using run_recorded [OF assms(1,2)] by blast
  let ?r = "\<lparr>sd_id = j, sd_task_id = task, sd_agent_name = PStr a, sd_steps = ss, sd_outcome = stored_verified v\<rparr>"
  note plain = plain_records [OF run(4), unfolded run(3), OF assms(3)]
  have replay: "fst (replay E t i mg) = verify_replay o' ?r"
    by (simp add: replay_def assms(4) run(1,2,6))
  obtain res where res: "verify_replay o' ?r = Inr res" "rr_passed res \<longrightarrow> same_run o' ?r"
    "same_run o' ?r \<and> (concurrent (sd_steps o') \<longrightarrow> (\<forall>s \<in> set (sd_steps o'). \<not> asks s)) \<longrightarrow> rr_passed res"
    using verdict [of o' ?r] assms(5,6) run(5) plain(1) by auto
  have ag: "agents_of ?r = [a]" using plain(3) by (simp add: agents_of_def py_str_def)
  have en: "same_end (sd_outcome o') (stored_verified v) \<longleftrightarrow>
      so_kind (sd_outcome o') = Verified_Kind \<and> py_eq (so_output (sd_outcome o')) v"
    by (auto simp: same_end_def stored_verified_def)
  have st: "same_steps (sd_steps o') ss \<longleftrightarrow> map signature (sd_steps o') = map (Pair Completed) ds \<and> \<not> concurrent (sd_steps o')"
    using plain(2,4) same_steps_concurrent [of "sd_steps o'" ss] by (auto simp: same_steps_def)
  have nc: "\<not> concurrent (sd_steps o')" if same: "map signature (sd_steps o') = map (Pair Completed) ds"
  proof -
    have "map sr_description (sd_steps o') = map snd (map signature (sd_steps o'))" by (simp add: signature_def)
    then have "list_all ordinary (map sr_description (sd_steps o'))" using assms(3) unfolding same by (simp add: comp_def)
    then show ?thesis by (rule ordinary_steps(2))
  qed
  have iff: "same_run o' ?r \<longleftrightarrow> so_kind (sd_outcome o') = Verified_Kind \<and> py_eq (so_output (sd_outcome o')) v \<and>
      map signature (sd_steps o') = map (Pair Completed) ds \<and> agents_of o' = [a]"
    unfolding same_run_def ag using en st nc by auto
  have "same_run o' ?r \<Longrightarrow> \<not> concurrent (sd_steps o')" using nc iff by blast
  then have "rr_passed res \<longleftrightarrow> same_run o' ?r" using res(2,3) by blast
  then show ?thesis unfolding replay using res(1) iff by blast
qed

text \<open>The letters of \<open>counter_task_answered\<close>, counted again.\<close>

definition counted_before :: mem where
  "counted_before = [(''old'', \<lparr>me_task_id = ''t'', me_agent_name = ''tally'',
     me_steps = numbered [(Completed, ''validated payload''), (Completed, ''computed final count'')], me_outcome = Some (stored_verified (PInt 3))\<rparr>)]"

lemma counted_before_loads:
  "load tally_desk ''old'' (new_manager counted_before) = Inr (Some \<lparr>sd_id = ''old'', sd_task_id = PStr ''t'', sd_agent_name = PStr ''tally'',
     sd_steps = numbered [(Completed, ''validated payload''), (Completed, ''computed final count'')], sd_outcome = stored_verified (PInt 3)\<rparr>)"
  by (simp add: load_def tally_desk_def memory_def mem_load_def counted_before_def new_manager_def dget_Cons)

lemma ordinary_plain: "\<not> starts_with ''parallel '' d \<Longrightarrow> \<not> starts_with ''tool '' d \<Longrightarrow> ordinary d"
  unfolding ordinary_def asks_def starts_with_iff by (metis append_Cons append_Nil)

theorem replay_decides_witness: "\<exists>res. fst (replay tally_desk tally_task ''old'' (new_manager counted_before)) = Inr res \<and> rr_passed res"
proof -
  let ?ds = "[''validated payload'', ''computed final count'']" let ?ss = "numbered (map (Pair Completed) ?ds)"
  have "ordinary ''validated payload''" "ordinary ''computed final count''" by (rule ordinary_plain; code_simp)+
  then have ordinary: "list_all ordinary ?ds" by simp
  have plain: "\<forall>s \<in> set ?ss. plain_record s" "map sr_description ?ss = ?ds"
    by (auto simp: numbered_def step_of_def plain_record_def)
  have "dget counted_before ''t#0'' = None" by (simp add: counted_before_def dget_Cons)
  note run = tally_plain_run [OF this] tally_answers ordinary
  note kept = plain_records [OF plain(1), unfolded plain(2), OF ordinary]
  from replay_decides [OF run counted_before_loads] show ?thesis
    using kept numbered_indexed [of "map (Pair Completed) ?ds"] by (simp add: agents_of_def py_str_def stored_verified_def scalar_eq_def)
qed

end
