(* ===== verification/Summary.thy ===== *)
theory Summary
  imports Replay_Props Manager_Props
begin

text \<open>
  The read side of the manager (\<open>control_plane/summary.py\<close>, \<open>contracts/summary.py\<close>,
  \<open>AgentManager.summarise\<close>): a stored trajectory projected to what an operator asks of a run. The sum of
  the elapsed times, a float, is a parameter.
\<close>

section \<open>The summary\<close>

datatype run_state = Run_Verified | Run_Failed | Run_Interrupted

datatype stage_kind = Single | Sequential | Parallel_Kind

datatype stage_status = Stage_Completed | Stage_Cancelled | Stage_Failed

record stage_summary =
  ss_index :: nat
  ss_agent :: string
  ss_status :: stage_status

record tool_summary =
  ts_name :: string
  ts_granted :: bool
  ts_counts :: tool_count

record policy_summary =
  ps_accepted :: bool
  ps_constraints :: "(string \<times> string) list"
  ps_message :: pyval

datatype summary_version = Summary_V1

record summary =
  su_version :: summary_version
  su_trajectory_id :: "string option"
  su_task_id :: string
  su_agent_name :: string
  su_agents :: "string list"
  su_state :: run_state
  su_reason :: "string option"
  su_message :: pyval
  su_output :: pyval
  su_kind :: stage_kind
  su_stages :: "stage_summary list"
  su_tools :: "tool_summary list"
  su_models :: "tool_count option"
  su_steps :: nat
  su_time :: string
  su_policy :: "policy_summary option"
  su_cancellations :: nat

text \<open>The other checks of the constructor are on counts, which are natural numbers here, and on the
  statuses of stages, which are an enumeration.\<close>

definition summary_init :: "summary \<Rightarrow> exc + summary" where
  "summary_init s = thenR (value_error_if (num_negative (PFloat (su_time s))) ''approximate_time_seconds must be non-negative.'') (Inr s)"

section \<open>States and stages\<close>

definition outcome_state :: "stored_outcome \<Rightarrow> run_state" where
  "outcome_state oc = (case so_kind oc of Verified_Kind \<Rightarrow> Run_Verified | Failure_Kind \<Rightarrow> Run_Failed | Interrupted_Kind \<Rightarrow> Run_Interrupted)"

definition default_state :: "step_record list \<Rightarrow> run_state" where
  "default_state ss = (if list_ex (\<lambda>s. sr_description s = ''policy rejected'') ss then Run_Failed else Run_Interrupted)"

definition marker_agent :: "step_record \<Rightarrow> string option" where
  "marker_agent s = (case sr_input s of PDict d \<Rightarrow> (case dget_or d ''agent'' PNone of PStr a \<Rightarrow> Some a | _ \<Rightarrow> None) | _ \<Rightarrow> None)"

definition stage_kind_of :: "step_record list \<Rightarrow> stage_kind" where
  "stage_kind_of ss =
     (case find (\<lambda>s. starts_with ''parallel stage '' (sr_description s) \<or> sr_description s = ''parallel group begin''
         \<or> starts_with ''pipeline stage '' (sr_description s)) ss of
        None \<Rightarrow> Single
      | Some s \<Rightarrow> if starts_with ''parallel stage '' (sr_description s) \<or> sr_description s = ''parallel group begin'' then Parallel_Kind
          else Sequential)"

definition last_status :: "run_state \<Rightarrow> bool \<Rightarrow> stage_status" where
  "last_status state cancelled = (if state = Run_Verified then Stage_Completed else if cancelled then Stage_Cancelled else Stage_Failed)"

definition sequential_stages :: "string list \<Rightarrow> run_state \<Rightarrow> bool \<Rightarrow> stage_summary list" where
  "sequential_stages began state cancelled =
     map (\<lambda>i. \<lparr>ss_index = i, ss_agent = began ! i,
       ss_status = (if i = length began - 1 then last_status state cancelled else Stage_Completed)\<rparr>) [0..<length began]"

definition parallel_stages :: "step_record list \<Rightarrow> run_state \<Rightarrow> bool \<Rightarrow> stage_summary list" where
  "parallel_stages ss state cancelled =
     (let labels = List.map_filter marker_agent (filter (\<lambda>s. starts_with ''parallel stage '' (sr_description s) \<and> sr_status s = Started) ss)
      in map (\<lambda>i. \<lparr>ss_index = i, ss_agent = labels ! i, ss_status = last_status state cancelled\<rparr>) [0..<length labels])"

definition sequential_labels :: "step_record list \<Rightarrow> string list" where
  "sequential_labels ss = List.map_filter marker_agent (filter (\<lambda>s. starts_with ''pipeline stage '' (sr_description s)) ss)"

section \<open>Tools and models\<close>

definition model_tool :: string where
  "model_tool = ''llm_complete''"

definition paired_result_step :: "step_record list \<Rightarrow> step_record \<Rightarrow> string \<Rightarrow> step_record option" where
  "paired_result_step ss request tool =
     find (\<lambda>s. sr_index request < sr_index s \<and> starts_with (result_prefix tool) (sr_description s)) ss"

definition requested_tool :: "step_record \<Rightarrow> exc + string option" where
  "requested_tool s = bindR (requested s) (\<lambda>k. Inr (if k = Some model_tool then None else k))"

definition count_tool :: "step_record list \<Rightarrow> step_record \<Rightarrow> string \<Rightarrow> bool \<times> tool_count \<Rightarrow> bool \<times> tool_count" where
  "count_tool ss s tool g =
     (case g of (b, c) \<Rightarrow>
       let c' = c\<lparr>tc_requests := Suc (tc_requests c)\<rparr> in
       if sr_status s = Rejected then (b, c'\<lparr>tc_rejected := Suc (tc_rejected c')\<rparr>)
       else (True, (case paired_result_step ss s tool of
          None \<Rightarrow> c'
        | Some p \<Rightarrow> if sr_status p = Failed then c'\<lparr>tc_failed := Suc (tc_failed c')\<rparr> else c'\<lparr>tc_succeeded := Suc (tc_succeeded c')\<rparr>)))"

definition tool_summaries :: "step_record list \<Rightarrow> exc + tool_summary list" where
  "tool_summaries ss =
     bindR (keyed_fold requested_tool (count_tool ss) (False, no_count) ss []) (\<lambda>counts.
       Inr (map (\<lambda>(n, granted, c). \<lparr>ts_name = n, ts_granted = granted, ts_counts = c\<rparr>) (sort_key fst counts)))"

definition model_succeeded :: "step_record list \<Rightarrow> step_record \<Rightarrow> bool" where
  "model_succeeded ss request =
     (case find (\<lambda>s. sr_index request < sr_index s \<and>
         (sr_description s = ''model call failed'' \<or> sr_description s = ''received llm_complete tool result'')) ss of
        None \<Rightarrow> False | Some s \<Rightarrow> sr_description s \<noteq> ''model call failed'')"

definition count_model :: "step_record list \<Rightarrow> step_record \<Rightarrow> tool_count \<Rightarrow> tool_count" where
  "count_model ss s c =
     (let c' = c\<lparr>tc_requests := Suc (tc_requests c)\<rparr> in
      if sr_status s = Rejected then c'\<lparr>tc_rejected := Suc (tc_rejected c')\<rparr>
      else if model_succeeded ss s then c'\<lparr>tc_succeeded := Suc (tc_succeeded c')\<rparr>
      else c'\<lparr>tc_failed := Suc (tc_failed c')\<rparr>)"

fun model_counts :: "step_record list \<Rightarrow> step_record list \<Rightarrow> tool_count \<Rightarrow> exc + tool_count" where
  "model_counts ss [] c = Inr c"
| "model_counts ss (s # rest) c =
     bindR (requested s) (\<lambda>k. model_counts ss rest (if k = Some model_tool then count_model ss s c else c))"

definition model_summary :: "step_record list \<Rightarrow> exc + tool_count option" where
  "model_summary ss = bindR (model_counts ss ss no_count) (\<lambda>c. Inr (if tc_requests c = 0 then None else Some c))"

section \<open>The policy\<close>

definition constraint_pair :: "pyval \<Rightarrow> (string \<times> string) option" where
  "constraint_pair v = (case v of PList [a, b] \<Rightarrow> Some (py_str a, py_str b) | _ \<Rightarrow> None)"

fun policy_summary_of :: "step_record list \<Rightarrow> policy_summary option" where
  "policy_summary_of [] = None"
| "policy_summary_of (s # ss) =
     (if sr_description s = ''policy accepted'' \<and> sr_status s = Completed then
        Some \<lparr>ps_accepted = True,
          ps_constraints = (case sr_input s of PDict d \<Rightarrow>
              (case dget_or d ''constraints'' PNone of PList vs \<Rightarrow> List.map_filter constraint_pair vs | _ \<Rightarrow> []) | _ \<Rightarrow> []),
          ps_message = PNone\<rparr>
      else if sr_description s = ''policy rejected'' \<and> sr_status s = Rejected then
        Some \<lparr>ps_accepted = False, ps_constraints = [], ps_message = sr_error s\<rparr>
      else policy_summary_of ss)"

section \<open>Summaries\<close>

definition summarise_trajectory ::
  "(string list \<Rightarrow> string) \<Rightarrow> trajectory \<Rightarrow> string option \<Rightarrow> stored_outcome option \<Rightarrow> exc + summary" where
  "summarise_trajectory add_seconds t i oc =
     (let ss = tj_steps t;
          state = (case oc of Some c \<Rightarrow> outcome_state c | None \<Rightarrow> default_state ss);
          reason = (case oc of Some c \<Rightarrow> (case so_reason c of PStr r \<Rightarrow> Some r | _ \<Rightarrow> None) | None \<Rightarrow> None);
          cancellations = length (filter (\<lambda>s. sr_status s = Was_Cancelled) ss);
          kind = stage_kind_of ss in
      bindR (tool_summaries ss) (\<lambda>tools.
      bindR (model_summary ss) (\<lambda>models.
        summary_init \<lparr>su_version = Summary_V1, su_trajectory_id = i, su_task_id = tj_task_id t, su_agent_name = tj_agent_name t,
          su_agents = compose_agents t, su_state = state, su_reason = reason,
          su_message = (case oc of Some c \<Rightarrow> so_message c | None \<Rightarrow> PNone), su_output = (case oc of Some c \<Rightarrow> so_output c | None \<Rightarrow> PNone),
          su_kind = kind,
          su_stages = (case kind of Single \<Rightarrow> [] | Sequential \<Rightarrow> sequential_stages (sequential_labels ss) state (0 < cancellations)
            | Parallel_Kind \<Rightarrow> parallel_stages ss state (0 < cancellations)),
          su_tools = tools, su_models = models, su_steps = length ss, su_time = add_seconds (map sr_elapsed ss),
          su_policy = policy_summary_of ss, su_cancellations = cancellations\<rparr>)))"

definition summarise_stored :: "(string list \<Rightarrow> string) \<Rightarrow> stored \<Rightarrow> exc + summary" where
  "summarise_stored add_seconds st =
     bindR (to_trajectory st) (\<lambda>t. summarise_trajectory add_seconds t (Some (sd_id st)) (Some (sd_outcome st)))"

definition summarise :: "('s, 'st) menv \<Rightarrow> (string list \<Rightarrow> string) \<Rightarrow> string \<Rightarrow> 'st manager \<Rightarrow> exc + summary option" where
  "summarise E add_seconds i mg =
     bindR (load E i mg) (\<lambda>st. case st of None \<Rightarrow> Inr None | Some s \<Rightarrow> bindR (summarise_stored add_seconds s) (\<lambda>u. Inr (Some u)))"

section \<open>What the counts mean\<close>

definition tool_requests :: "string \<Rightarrow> step_record list \<Rightarrow> step_record list" where
  "tool_requests tool ss = filter (\<lambda>s. requested_tool s = Inr (Some tool)) ss"

lemma count_tool_fold:
  "foldl (\<lambda>g s. count_tool ss s tool g) (b, c) rs =
     (b \<or> (\<exists>s \<in> set rs. sr_status s \<noteq> Rejected),
      \<lparr>tc_requests = tc_requests c + length rs,
       tc_succeeded = tc_succeeded c + length (filter (\<lambda>s. sr_status s \<noteq> Rejected \<and> (\<exists>p. paired_result_step ss s tool = Some p \<and> sr_status p \<noteq> Failed)) rs),
       tc_failed = tc_failed c + length (filter (\<lambda>s. sr_status s \<noteq> Rejected \<and> (\<exists>p. paired_result_step ss s tool = Some p \<and> sr_status p = Failed)) rs),
       tc_rejected = tc_rejected c + length (filter (\<lambda>s. sr_status s = Rejected) rs)\<rparr>)"
proof (induction rs arbitrary: b c)
  case Nil
  then show ?case by simp
next
  case (Cons s rs)
  show ?case
  proof (cases "sr_status s = Rejected")
    case True
    then have "count_tool ss s tool (b, c) = (b, c\<lparr>tc_requests := Suc (tc_requests c), tc_rejected := Suc (tc_rejected c)\<rparr>)"
      by (simp add: count_tool_def)
    then show ?thesis using True by (simp add: Cons.IH)
  next
    case False
    show ?thesis
    proof (cases "paired_result_step ss s tool")
      case None
      then have "count_tool ss s tool (b, c) = (True, c\<lparr>tc_requests := Suc (tc_requests c)\<rparr>)"
        using False by (simp add: count_tool_def)
      then show ?thesis using None False by (simp add: Cons.IH)
    next
      case (Some p)
      then have "count_tool ss s tool (b, c) = (True, if sr_status p = Failed
          then c\<lparr>tc_requests := Suc (tc_requests c), tc_failed := Suc (tc_failed c)\<rparr>
          else c\<lparr>tc_requests := Suc (tc_requests c), tc_succeeded := Suc (tc_succeeded c)\<rparr>)"
        using False by (simp add: count_tool_def Let_def)
      then show ?thesis using Some False by (cases "sr_status p = Failed") (simp_all add: Cons.IH)
    qed
  qed
qed

lemma summary_lists:
  assumes "summarise_stored add_seconds st = Inr u" "to_trajectory st = Inr t"
  shows "su_state u = outcome_state (sd_outcome st) \<and> su_steps u = length (sd_steps st) \<and>
    su_cancellations u = length (filter (\<lambda>s. sr_status s = Was_Cancelled) (sd_steps st)) \<and>
    sorted_wrt (<) (map ts_name (su_tools u)) \<and>
    (\<forall>tool. tool \<in> set (map ts_name (su_tools u)) \<longleftrightarrow> tool_requests tool (sd_steps st) \<noteq> []) \<and>
    (\<forall>e \<in> set (su_tools u). let rs = tool_requests (ts_name e) (sd_steps st); answer = paired_result_step (sd_steps st) in
       ts_granted e = (\<exists>s \<in> set rs. sr_status s \<noteq> Rejected) \<and>
       tc_requests (ts_counts e) = length rs \<and>
       tc_rejected (ts_counts e) = length (filter (\<lambda>s. sr_status s = Rejected) rs) \<and>
       tc_failed (ts_counts e) = length (filter (\<lambda>s. sr_status s \<noteq> Rejected \<and> (\<exists>p. answer s (ts_name e) = Some p \<and> sr_status p = Failed)) rs) \<and>
       tc_succeeded (ts_counts e) = length (filter (\<lambda>s. sr_status s \<noteq> Rejected \<and> (\<exists>p. answer s (ts_name e) = Some p \<and> sr_status p \<noteq> Failed)) rs))"
proof -
  have ss: "tj_steps t = sd_steps st" using assms(2) by (auto simp: to_trajectory_def trajectory_init_iff)
  obtain tools models where tm: "tool_summaries (sd_steps st) = Inr tools" "model_summary (sd_steps st) = Inr models"
    and u: "su_tools u = tools" "su_state u = outcome_state (sd_outcome st)" "su_steps u = length (sd_steps st)"
      "su_cancellations u = length (filter (\<lambda>s. sr_status s = Was_Cancelled) (sd_steps st))"
    using assms by (auto simp: summarise_stored_def summarise_trajectory_def ss summary_init_def Let_def result_simps)
  obtain counts where c: "keyed_fold requested_tool (count_tool (sd_steps st)) (False, no_count) (sd_steps st) [] = Inr counts"
    "tools = map (\<lambda>(n, granted, c). \<lparr>ts_name = n, ts_granted = granted, ts_counts = c\<rparr>) (sort_key fst counts)"
    using tm(1) by (auto simp: tool_summaries_def result_simps)
  have wf: "wf_dict counts" using keyed_fold_wf [OF c(1)] by simp
  have get: "dget counts n = (if tool_requests n (sd_steps st) = [] then None
      else Some (foldl (\<lambda>g s. count_tool (sd_steps st) s n g) (False, no_count) (tool_requests n (sd_steps st))))" for n
    using keyed_fold_get [OF c(1), of n] by (simp add: items_of_def tool_requests_def dget_or_def)
  have names: "map ts_name tools = map fst (sort_key fst counts)" by (simp add: c(2) split_def)
  have "mset (map fst (sort_key fst counts)) = mset (map fst counts)" by simp
  then have dist: "distinct (map fst (sort_key fst counts))" using wf unfolding wf_dict_def by (metis mset_eq_imp_distinct_iff)
  then have order: "sorted_wrt (<) (map ts_name tools)" unfolding names strict_sorted_iff by simp
  have members: "tool \<in> set (map ts_name tools) \<longleftrightarrow> tool_requests tool (sd_steps st) \<noteq> []" for tool
    using get [of tool] dget_None_iff [of counts tool] by (auto simp: names image_iff split: if_splits)
  have entry: "let rs = tool_requests (ts_name e) (sd_steps st); answer = paired_result_step (sd_steps st) in
       ts_granted e = (\<exists>s \<in> set rs. sr_status s \<noteq> Rejected) \<and>
       tc_requests (ts_counts e) = length rs \<and>
       tc_rejected (ts_counts e) = length (filter (\<lambda>s. sr_status s = Rejected) rs) \<and>
       tc_failed (ts_counts e) = length (filter (\<lambda>s. sr_status s \<noteq> Rejected \<and> (\<exists>p. answer s (ts_name e) = Some p \<and> sr_status p = Failed)) rs) \<and>
       tc_succeeded (ts_counts e) = length (filter (\<lambda>s. sr_status s \<noteq> Rejected \<and> (\<exists>p. answer s (ts_name e) = Some p \<and> sr_status p \<noteq> Failed)) rs)"
    if mem: "e \<in> set tools" for e
  proof -
    obtain x where x: "x \<in> set counts" "e = (\<lambda>(n, granted, c). \<lparr>ts_name = n, ts_granted = granted, ts_counts = c\<rparr>) x"
      using mem unfolding c(2) set_map set_sort by blast
    obtain n g k where "x = (n, g, k)" by (cases x)
    with x have e: "e = \<lparr>ts_name = n, ts_granted = g, ts_counts = k\<rparr>" "(n, g, k) \<in> set counts" by simp_all
    from dget_wf [OF wf e(2)] get [of n] have "(g, k) = foldl (\<lambda>g s. count_tool (sd_steps st) s n g) (False, no_count) (tool_requests n (sd_steps st))"
      by (simp split: if_splits)
    then show ?thesis by (simp add: count_tool_fold e(1) no_count_def Let_def)
  qed
  show ?thesis using order members entry by (simp add: u)
qed












text \<open>An agent calls the tool \<open>add\<close>, which fails, and calls it again, which succeeds: the summary says that two
  executions succeeded and none failed.\<close>

definition retried_run :: stored where
  "retried_run = \<lparr>sd_id = ''t#0'', sd_task_id = PStr ''t'', sd_agent_name = PStr ''a'',
     sd_steps = numbered [add_asked, add_failed, add_asked, add_answered], sd_outcome = stored_verified (PInt 5)\<rparr>"

lemma failed_call_counted_as_success:
  "\<exists>u e. summarise_stored concat retried_run = Inr u \<and> e \<in> set (su_tools u) \<and> ts_name e = ''add'' \<and>
     tc_requests (ts_counts e) = 2 \<and> tc_succeeded (ts_counts e) = 2 \<and> tc_failed (ts_counts e) = 0"
proof -
  have "case summarise_stored concat retried_run of Inr u \<Rightarrow> True | Inl e \<Rightarrow> False" by code_simp
  then obtain u where u: "summarise_stored concat retried_run = Inr u" by (auto split: sum.splits)
  then obtain t where t: "to_trajectory retried_run = Inr t" by (auto simp: summarise_stored_def result_simps)
  note kinds = record_kinds [unfolded group_begin_def list.pred_inject split_beta]
  let ?a = "\<lambda>k. (step_of Completed (snd add_asked) PNone PNone PNone ''0.0'')\<lparr>sr_index := k\<rparr>"
  let ?p = "(step_of Completed (snd add_answered) PNone PNone PNone ''0.0'')\<lparr>sr_index := 3\<rparr>"
  have rs: "tool_requests ''add'' (sd_steps retried_run) = [?a 0, ?a 2]"
    using kinds by (simp add: tool_requests_def requested_tool_def requested_def model_tool_def retried_run_def numbered_def step_of_def split_beta)
  have pairs: "paired_result_step (sd_steps retried_run) (?a 0) ''add'' = Some ?p" "paired_result_step (sd_steps retried_run) (?a 2) ''add'' = Some ?p"
    using kinds by (simp_all add: paired_result_step_def retried_run_def numbered_def step_of_def split_beta)
  note lists = summary_lists [OF u t, THEN conjunct2, THEN conjunct2, THEN conjunct2, THEN conjunct2]
  have "''add'' \<in> set (map ts_name (su_tools u))" using lists [THEN conjunct1, THEN spec, of "''add''"] rs by simp
  then obtain e where e: "e \<in> set (su_tools u)" "ts_name e = ''add''" by auto
  have "tc_requests (ts_counts e) = 2 \<and> tc_succeeded (ts_counts e) = 2 \<and> tc_failed (ts_counts e) = 0"
    using bspec [OF lists [THEN conjunct2] e(1)] unfolding e(2) Let_def rs by (simp add: pairs) (simp add: step_of_def)
  then show ?thesis using u e by blast
qed

section \<open>The audit records\<close>

text \<open>
  The audit record is append-only: whatever a run or a replay does, a stored trajectory keeps its task, its
  agent, the steps it had and the outcome it had. The manager's rules with that relation.
\<close>

definition keeps_entry :: "mem_entry \<Rightarrow> mem_entry \<Rightarrow> bool" where
  "keeps_entry m m' \<longleftrightarrow> me_task_id m' = me_task_id m \<and> me_agent_name m' = me_agent_name m \<and>
     (\<exists>more. me_steps m' = me_steps m @ more) \<and> (me_outcome m \<noteq> None \<longrightarrow> me_outcome m' = me_outcome m)"

definition keeps_records :: "mem \<Rightarrow> mem \<Rightarrow> bool" where
  "keeps_records st st' \<longleftrightarrow> (\<forall>i m. dget st i = Some m \<longrightarrow> (\<exists>m'. dget st' i = Some m' \<and> keeps_entry m m'))"

lemma keeps_entry_refl [simp]: "keeps_entry m m"
  by (simp add: keeps_entry_def)

lemma keeps_entry_trans: "keeps_entry m n \<Longrightarrow> keeps_entry n k \<Longrightarrow> keeps_entry m k"
  by (auto simp: keeps_entry_def)

lemma keeps_records_trans: "keeps_records st st' \<Longrightarrow> keeps_records st' st'' \<Longrightarrow> keeps_records st st''"
  unfolding keeps_records_def by (meson keeps_entry_trans)

lemma keeps_records_refl [simp]: "keeps_records st st"
  by (simp add: keeps_records_def)

lemma keeps_records_put: "dget st i = Some m \<Longrightarrow> keeps_entry m m' \<Longrightarrow> keeps_records st (dput i m' st)"
  by (auto simp: keeps_records_def dict_simps)

lemma keeps_records_new: "dget st i = None \<Longrightarrow> keeps_records st (dput i m st)"
  by (auto simp: keeps_records_def dict_simps)

lemma memory_keeps:
  "ts_append memory i r st = (res, st') \<Longrightarrow> keeps_records st st'"
  "ts_outcome memory i oc st = (res, st') \<Longrightarrow> keeps_records st st'"
  by (auto simp: mem_defs keeps_entry_def intro!: keeps_records_put split: if_splits option.splits)

lemma memory_begin_keeps: "ts_begin memory i t a st = (res, st') \<Longrightarrow> keeps_records st st'"
  by (auto simp: mem_defs rejectR_def intro!: keeps_records_new split: if_splits)

lemma audit_rules:
  "me_store E = memory \<Longrightarrow> run_rules (\<lambda>_. True) (\<lambda>s s'. keeps_records (rs_store s) (rs_store s')) E (\<lambda>_. True) (\<lambda>_. True)"
  by unfold_locales (auto simp: same_record_def intro: keeps_records_trans dest: memory_keeps memory_begin_keeps)

lemma run_keeps_records:
  assumes "me_store E = memory"
  shows "keeps_records (rs_store (mg_state mg)) (rs_store (mg_state (snd (run E t mg))))"
proof -
  obtain r s where rs: "run_proc (run_task E t (trajectory_id t (mg_seq mg))) (fresh_run (mg_state mg)) = (r, s)"
    "run E t mg = (r, \<lparr>mg_seq = Suc (mg_seq mg), mg_state = s\<rparr>)" by (rule runE)
  show ?thesis
    using run_rules.run_task_rules(2) [OF audit_rules [OF assms] _ trajectory_id_nonempty TrueI rs(1)]
    by (simp add: rs(2) fresh_run_def)
qed

lemma replay_keeps_records:
  assumes "me_store E = memory"
  shows "keeps_records (rs_store (mg_state mg)) (rs_store (mg_state (snd (replay E t i mg))))"
proof -
  have "snd (replay E t i mg) \<in> {mg, snd (run E t mg)}"
    by (cases "run E t mg") (auto simp: replay_def split: sum.split option.split)
  then show ?thesis using run_keeps_records [OF assms, of mg t] by auto
qed

text \<open>C38: With the store in memory, a run and a replay leave every stored trajectory as it was, except that
  steps may be appended to it and that an outcome may be recorded where there was none: what was
  loaded before is still there, with the same task, agent, first steps and outcome.\<close>

theorem audit_record_append_only:
  assumes "me_store E = memory" "mg' = snd (run E t mg) \<or> mg' = snd (replay E t j mg)"
    "load E i mg = Inr (Some tr)"
  shows "\<exists>tr' more. load E i mg' = Inr (Some tr') \<and> sd_task_id tr' = sd_task_id tr \<and> sd_agent_name tr' = sd_agent_name tr \<and>
    sd_steps tr' = sd_steps tr @ more \<and> (so_kind (sd_outcome tr) \<noteq> Interrupted_Kind \<longrightarrow> sd_outcome tr' = sd_outcome tr)"
proof -
  have keeps: "keeps_records (rs_store (mg_state mg)) (rs_store (mg_state mg'))"
    using assms(2) run_keeps_records [OF assms(1)] replay_keeps_records [OF assms(1)] by blast
  obtain m where m: "dget (rs_store (mg_state mg)) i = Some m"
    "tr = \<lparr>sd_id = i, sd_task_id = PStr (me_task_id m), sd_agent_name = PStr (me_agent_name m),
     sd_steps = me_steps m, sd_outcome = (case me_outcome m of None \<Rightarrow> stored_interrupted | Some oc \<Rightarrow> oc)\<rparr>"
    using assms(1,3) by (auto simp: load_def memory_def mem_load_Some)
  obtain m' where m': "dget (rs_store (mg_state mg')) i = Some m'" "keeps_entry m m'"
    using keeps m(1) by (auto simp: keeps_records_def)
  show ?thesis
    using m'(2) assms(1)
    by (auto simp: load_def memory_def mem_load_def m'(1) m(2) keeps_entry_def stored_interrupted_def split: option.splits)
qed

theorem audit_record_append_only_witness:
  "\<exists>tr'. load desk ''t#0'' (snd (run desk (desk_task [''add''] None) (snd desk_run))) = Inr (Some tr') \<and>
    sd_outcome tr' = stored_verified (PInt 5)"
proof -
  have stored: "case load desk ''t#0'' (snd desk_run) of Inr (Some tr) \<Rightarrow> sd_outcome tr = stored_verified (PInt 5) | _ \<Rightarrow> False"
    unfolding desk_run_def desk_def desk_task_def by code_simp
  then obtain tr where tr: "load desk ''t#0'' (snd desk_run) = Inr (Some tr)" "sd_outcome tr = stored_verified (PInt 5)"
    by (auto split: sum.splits option.splits)
  have "me_store desk = memory" by (simp add: desk_def)
  from audit_record_append_only [OF this disjI1 [OF refl] tr(1), of "desk_task [''add''] None"] tr(2) show ?thesis
    by (auto simp: stored_verified_def)
qed

end
