(* ===== verification/Bills.thy ===== *)
theory Bills
  imports Manager_Live
begin

text \<open>
  The bills agent: the contract (\<open>contracts/bill.py\<close>), the tool \<open>bill_total\<close> (\<open>control_plane/tools.py\<close>),
  the agent (\<open>agents/bills.py\<close>) and its verifier (\<open>control_plane/verifier.py\<close>). Amounts are integers
  in minor units; a rate is in basis points. The totals round half up and no rate makes an amount
  negative; what the verifier accepts is what the contract computes.
\<close>

section \<open>Checked numbers\<close>

definition bad_int :: "string \<Rightarrow> pyval \<Rightarrow> exc" where
  "bad_int name v = Exc ValueError (name @ '' must be an integer, got '' @ py_repr v @ ''.'')"

definition require_int :: "string \<Rightarrow> pyval \<Rightarrow> exc + int" where
  "require_int name v =
     (case v of PInt i \<Rightarrow> thenR (value_error_if (i < 0) (name @ '' must be non-negative, got '' @ show_int i @ ''.'')) (Inr i)
      | _ \<Rightarrow> Inl (bad_int name v))"

definition require_positive_int :: "string \<Rightarrow> pyval \<Rightarrow> exc + int" where
  "require_positive_int name v =
     (case v of PInt i \<Rightarrow> thenR (value_error_if (i \<le> 0) (name @ '' must be positive, got '' @ show_int i @ ''.'')) (Inr i)
      | _ \<Rightarrow> Inl (bad_int name v))"

definition require_bps :: "string \<Rightarrow> pyval \<Rightarrow> exc + int" where
  "require_bps name v =
     (case v of PInt i \<Rightarrow> thenR (value_error_if (i < 0 \<or> 10000 < i)
          (name @ '' must be between 0 and 10000 (0%..100%), got '' @ show_int i @ ''.'')) (Inr i)
      | _ \<Rightarrow> Inl (bad_int name v))"

section \<open>Bills\<close>

record bill_line =
  bl_description :: string
  bl_quantity :: int
  bl_price :: int

record bill =
  bi_lines :: "bill_line list"
  bi_discount :: int
  bi_tax :: int

definition line_from_mapping :: "pyval \<Rightarrow> exc + bill_line" where
  "line_from_mapping v =
     (case v of
        PDict d \<Rightarrow>
          (case name_of (dget_or d ''description'' (PStr [])) of
             None \<Rightarrow> Inl (Exc ValueError ''BillLine description must be a non-empty string.'')
           | Some description \<Rightarrow>
               bindR (require_positive_int ''quantity'' (dget_or d ''quantity'' PNone)) (\<lambda>q.
               bindR (require_int ''unit_price_cents'' (dget_or d ''unit_price_cents'' PNone)) (\<lambda>p.
                 Inr \<lparr>bl_description = description, bl_quantity = q, bl_price = p\<rparr>)))
      | _ \<Rightarrow> Inl (Exc ValueError (''Bill line must be a mapping, got '' @ py_repr v @ ''.'')))"

definition bill_init :: "bill_line list \<Rightarrow> pyval \<Rightarrow> pyval \<Rightarrow> exc + bill" where
  "bill_init ls discount tax =
     thenR (value_error_if (ls = []) ''Bill must contain at least one line.'')
      (bindR (require_bps ''discount_bps'' discount) (\<lambda>d.
       bindR (require_bps ''tax_bps'' tax) (\<lambda>t. Inr \<lparr>bi_lines = ls, bi_discount = d, bi_tax = t\<rparr>)))"

definition bill_from_mapping :: "pyval \<Rightarrow> exc + bill" where
  "bill_from_mapping v =
     (case v of
        PDict d \<Rightarrow>
          (case dget_or d ''lines'' PNone of
             PList (x # xs) \<Rightarrow> bindR (mapR line_from_mapping (x # xs)) (\<lambda>ls.
               bill_init ls (dget_or d ''discount_bps'' (PInt 0)) (dget_or d ''tax_bps'' (PInt 0)))
           | _ \<Rightarrow> Inl (Exc ValueError (''Bill '' @ squote_c # ''lines'' @ squote_c # '' must be a non-empty list.'')))
      | _ \<Rightarrow> Inl (Exc ValueError (''Bill must be a mapping, got '' @ py_repr v @ ''.'')))"

definition line_mapping :: "bill_line \<Rightarrow> pyval" where
  "line_mapping l = PDict [(''description'', PStr (bl_description l)), (''quantity'', PInt (bl_quantity l)), (''unit_price_cents'', PInt (bl_price l))]"

definition bill_mapping :: "bill \<Rightarrow> pyval" where
  "bill_mapping b = PDict [(''lines'', PList (map line_mapping (bi_lines b))), (''discount_bps'', PInt (bi_discount b)), (''tax_bps'', PInt (bi_tax b))]"

section \<open>Totals\<close>

record bill_total =
  bt_subtotal :: int
  bt_discount :: int
  bt_taxable :: int
  bt_tax :: int
  bt_grand :: int

definition round_half_up :: "int \<Rightarrow> int \<Rightarrow> int" where
  "round_half_up n d = (n + d div 2) div d"

definition total_init :: "pyval \<Rightarrow> pyval \<Rightarrow> pyval \<Rightarrow> pyval \<Rightarrow> pyval \<Rightarrow> exc + bill_total" where
  "total_init s d x t g =
     bindR (require_int ''line_subtotal_cents'' s) (\<lambda>s. bindR (require_int ''discount_cents'' d) (\<lambda>d.
     bindR (require_int ''taxable_amount_cents'' x) (\<lambda>x. bindR (require_int ''tax_cents'' t) (\<lambda>t.
     bindR (require_int ''grand_total_cents'' g) (\<lambda>g.
       Inr \<lparr>bt_subtotal = s, bt_discount = d, bt_taxable = x, bt_tax = t, bt_grand = g\<rparr>)))))"

definition compute_total :: "bill \<Rightarrow> exc + bill_total" where
  "compute_total b =
     (let subtotal = sum_list (map (\<lambda>l. bl_quantity l * bl_price l) (bi_lines b));
          discount = round_half_up (subtotal * bi_discount b) 10000;
          taxable = subtotal - discount;
          tax = round_half_up (taxable * bi_tax b) 10000
      in total_init (PInt subtotal) (PInt discount) (PInt taxable) (PInt tax) (PInt (taxable + tax)))"

definition total_mapping :: "bill_total \<Rightarrow> pyval" where
  "total_mapping t = PDict [(''line_subtotal_cents'', PInt (bt_subtotal t)), (''discount_cents'', PInt (bt_discount t)),
     (''taxable_amount_cents'', PInt (bt_taxable t)), (''tax_cents'', PInt (bt_tax t)), (''grand_total_cents'', PInt (bt_grand t))]"

section \<open>The tool and the agent\<close>

definition BILL_TOTAL_DESCRIPTOR :: tool_descriptor where
  "BILL_TOTAL_DESCRIPTOR = \<lparr>td_version = Tool_V1, td_name = ''bill_total'',
     td_description = ''Compute deterministic totals for a structured bill.'', td_input = [(''bill'', ''mapping'')],
     td_output = ''mapping'', td_semantics = ''pure, deterministic, side-effect free''\<rparr>"

text \<open>A call with other arguments than \<open>bill\<close> is a \<open>TypeError\<close>.\<close>

definition bill_total_tool :: tool_impl where
  "bill_total_tool calls args =
     (if dkeys args \<noteq> [''bill''] then Inl type_error
      else case bill_from_mapping (dget_or args ''bill'' PNone) of
        Inl e \<Rightarrow> Inl (Exc ToolExecutionError (''Invalid bill: '' @ exc_text e))
      | Inr b \<Rightarrow> bindR (compute_total b) (\<lambda>t. Inr (total_mapping t)))"

definition raises_value :: "exc \<Rightarrow> gen" where
  "raises_value e = Raises ''ValueError'' (exc_text e)"

definition bills_tool_result :: "sent \<Rightarrow> gen" where
  "bills_tool_result s =
     (case s of
        Tool_Value r \<Rightarrow>
          (if \<not> tr_success r then reports ([(''bill_total tool call failed: '' @ py_str (tr_error r), PNone)], PNone)
           else case tr_output r of
             PDict o' \<Rightarrow>
               (case dget o' ''grand_total_cents'' of
                  None \<Rightarrow> Raises ''KeyError'' (repr_str ''grand_total_cents'')
                | Some g \<Rightarrow> reports ([(''received bill_total tool result'', PDict [(''grand_total_cents'', g)])], PDict o'))
           | _ \<Rightarrow> raises_type ''bill_total tool returned a non-mapping result.'')
      | _ \<Rightarrow> raises_type ''Manager did not deliver a ToolResult for bill_total.'')"

definition bills_agent :: agent_fn where
  "bills_agent payload budget ctx = Inr (\<lambda>_.
     (case bill_from_mapping payload of
        Inl e \<Rightarrow> raises_value e
      | Inr b \<Rightarrow> Yields (Agent_Step ''validated bill payload'' (int_field ''lines'' (length (bi_lines b)))) (\<lambda>_.
          if available ctx ''bill_total'' then Yields (Tool_Request ''bill_total'' [(''bill'', bill_mapping b)]) bills_tool_result
          else case compute_total b of
            Inl e \<Rightarrow> raises_value e
          | Inr t \<Rightarrow> reports ([(''computed bill totals'', PDict [(''grand_total_cents'', PInt (bt_grand t))])], total_mapping t))))"

section \<open>The verifier\<close>

definition read_total :: "pyval dict \<Rightarrow> exc + bill_total" where
  "read_total d =
     (let key = (\<lambda>k. case dget d k of None \<Rightarrow> Inl (key_error (PStr k)) | Some v \<Rightarrow> Inr v) in
      bindR (key ''line_subtotal_cents'') (\<lambda>s. bindR (key ''discount_cents'') (\<lambda>dc. bindR (key ''taxable_amount_cents'') (\<lambda>x.
      bindR (key ''tax_cents'') (\<lambda>t. bindR (key ''grand_total_cents'') (\<lambda>g. total_init s dc x t g))))))"

definition verify_bills_output :: verifier where
  "verify_bills_output t output =
     (case bill_from_mapping (tk_payload t) of
        Inl e \<Rightarrow> verdict False (''Payload is not a valid bill: '' @ exc_text e)
      | Inr b \<Rightarrow> bindR (compute_total b) (\<lambda>expected.
          case output of
            PDict d \<Rightarrow>
              (case read_total d of
                 Inl e \<Rightarrow> verdict False (''Output is a malformed bill-totals mapping: '' @ exc_text e)
               | Inr actual \<Rightarrow>
                   if actual = expected then verdict True ''Output matches the recomputed bill totals.''
                   else verdict False ''Output does not match the recomputed bill totals.'')
          | _ \<Rightarrow> verdict False ''Output is not a bill-totals mapping.''))"

section \<open>Well-formed bills\<close>

definition line_ok :: "bill_line \<Rightarrow> bool" where
  "line_ok l \<longleftrightarrow> bl_description l \<noteq> [] \<and> 0 < bl_quantity l \<and> 0 \<le> bl_price l"

definition bill_ok :: "bill \<Rightarrow> bool" where
  "bill_ok b \<longleftrightarrow> bi_lines b \<noteq> [] \<and> list_all line_ok (bi_lines b) \<and> 0 \<le> bi_discount b \<and> bi_discount b \<le> 10000 \<and>
     0 \<le> bi_tax b \<and> bi_tax b \<le> 10000"

lemma require_iff:
  "require_int n v = Inr i \<longleftrightarrow> v = PInt i \<and> 0 \<le> i"
  "require_positive_int n v = Inr i \<longleftrightarrow> v = PInt i \<and> 0 < i"
  "require_bps n v = Inr i \<longleftrightarrow> v = PInt i \<and> 0 \<le> i \<and> i \<le> 10000"
  by (cases v; auto simp: require_int_def require_positive_int_def require_bps_def value_error_if_def rejectR_def)+

lemma require_simps [simp]:
  "0 \<le> i \<Longrightarrow> require_int n (PInt i) = Inr i"
  "0 < i \<Longrightarrow> require_positive_int n (PInt i) = Inr i"
  "0 \<le> i \<Longrightarrow> i \<le> 10000 \<Longrightarrow> require_bps n (PInt i) = Inr i"
  by (simp_all add: require_iff)

lemma line_from_mapping_ok: "line_from_mapping v = Inr l \<Longrightarrow> line_ok l"
  by (auto simp: line_from_mapping_def line_ok_def require_iff bindR_Inr_iff name_of_Some_iff split: pyval.splits option.splits)

lemma line_roundtrip: "line_ok l \<Longrightarrow> line_from_mapping (line_mapping l) = Inr l"
  by (simp add: line_from_mapping_def line_mapping_def line_ok_def dget_or_def dget_Cons)

lemma bill_from_mapping_ok:
  assumes "bill_from_mapping v = Inr b"
  shows "bill_ok b"
proof -
  from assms obtain d x xs ls where "v = PDict d" "mapR line_from_mapping (x # xs) = Inr ls"
    "bill_init ls (dget_or d ''discount_bps'' (PInt 0)) (dget_or d ''tax_bps'' (PInt 0)) = Inr b"
    by (auto simp: bill_from_mapping_def bindR_Inr_iff simp del: mapR.simps split: pyval.splits list.splits)
  moreover from this(2) have "list_all line_ok ls" by (simp only: mapR_Inr_iff list_all_length list_all2_conv_all_nth) (metis line_from_mapping_ok)
  ultimately show ?thesis
    by (auto simp: bill_init_def bill_ok_def bindR_Inr_iff thenR_def value_error_if_def rejectR_def require_iff split: if_splits)
qed

lemma bill_roundtrip:
  assumes "bill_ok b"
  shows "bill_from_mapping (bill_mapping b) = Inr b"
proof -
  have ls: "mapR line_from_mapping (map line_mapping (bi_lines b)) = Inr (bi_lines b)"
    using assms by (simp add: mapR_Inr_iff list_all2_map1 list.rel_refl_strong line_roundtrip bill_ok_def list_all_iff)
  obtain l r where lr: "bi_lines b = l # r" using assms by (cases "bi_lines b") (simp_all add: bill_ok_def)
  have "bill_init (bi_lines b) (PInt (bi_discount b)) (PInt (bi_tax b)) = Inr b"
    using assms by (simp add: bill_init_def bill_ok_def value_error_if_def rejectR_def)
  then show ?thesis using ls by (simp add: bill_from_mapping_def bill_mapping_def dget_or_def dget_Cons lr del: mapR.simps)
qed

section \<open>Rounding\<close>

text \<open>\<open>r\<close> is \<open>n / 10000\<close> rounded to the nearest integer, an exact half upwards.\<close>

definition rounds :: "int \<Rightarrow> int \<Rightarrow> bool" where
  "rounds n r \<longleftrightarrow> 10000 * r - 5000 \<le> n \<and> n < 10000 * r + 5000"

lemma round_half_up_rounds: "rounds n (round_half_up n 10000)"
  using div_mult_mod_eq [of "n + 5000" 10000] pos_mod_bound [of 10000 "n + 5000"] pos_mod_sign [of 10000 "n + 5000"]
  by (simp add: rounds_def round_half_up_def) linarith

lemma rounds_unique: "rounds n r \<Longrightarrow> rounds n r' \<Longrightarrow> r = r'"
  unfolding rounds_def by linarith

lemma round_share:
  assumes "0 \<le> a" "0 \<le> p" "p \<le> 10000"
  shows "0 \<le> round_half_up (a * p) 10000" "round_half_up (a * p) 10000 \<le> a"
proof -
  have "0 \<le> a * p" "a * p \<le> a * 10000" using assms by (simp_all add: mult_left_mono)
  then show "0 \<le> round_half_up (a * p) 10000" "round_half_up (a * p) 10000 \<le> a"
    using round_half_up_rounds [of "a * p"] by (simp_all add: rounds_def)
qed

section \<open>Exact totals\<close>

definition subtotal :: "bill \<Rightarrow> int" where
  "subtotal b = sum_list (map (\<lambda>l. bl_quantity l * bl_price l) (bi_lines b))"

lemma subtotal_nonneg: "bill_ok b \<Longrightarrow> 0 \<le> subtotal b"
  unfolding subtotal_def bill_ok_def line_ok_def by (intro sum_list_nonneg) (auto simp: list_all_iff)

lemma compute_total_ok:
  assumes "bill_ok b"
  shows "\<exists>t. compute_total b = Inr t"
proof -
  let ?d = "round_half_up (subtotal b * bi_discount b) 10000"
  have d: "0 \<le> ?d" "?d \<le> subtotal b" using round_share [of "subtotal b"] subtotal_nonneg assms by (simp_all add: bill_ok_def)
  then have "0 \<le> round_half_up ((subtotal b - ?d) * bi_tax b) 10000"
    using round_share [of "subtotal b - ?d"] assms by (simp add: bill_ok_def)
  then show ?thesis using d subtotal_nonneg [OF assms] by (simp add: compute_total_def total_init_def Let_def subtotal_def)
qed

text \<open>C39: The totals of every bill that the contract accepts exist and are exact: the subtotal is the sum
  of the lines, discount and tax are the shares in basis points rounded half up, the discount is at
  most the subtotal, the tax at most the taxable amount, and what is taxable plus the tax is the
  grand total; no amount is negative.\<close>

theorem bill_total_exact:
  assumes "bill_from_mapping v = Inr b"
  shows "\<exists>t. compute_total b = Inr t \<and> bt_subtotal t = subtotal b \<and>
    rounds (bt_subtotal t * bi_discount b) (bt_discount t) \<and> 0 \<le> bt_discount t \<and> bt_discount t \<le> bt_subtotal t \<and>
    bt_taxable t = bt_subtotal t - bt_discount t \<and>
    rounds (bt_taxable t * bi_tax b) (bt_tax t) \<and> 0 \<le> bt_tax t \<and> bt_tax t \<le> bt_taxable t \<and>
    bt_grand t = bt_taxable t + bt_tax t"
proof -
  have b: "bill_ok b" by (rule bill_from_mapping_ok) (rule assms)
  let ?d = "round_half_up (subtotal b * bi_discount b) 10000"
  have d: "0 \<le> ?d" "?d \<le> subtotal b" using round_share [of "subtotal b"] subtotal_nonneg b by (simp_all add: bill_ok_def)
  let ?x = "subtotal b - ?d" and ?t = "round_half_up ((subtotal b - ?d) * bi_tax b) 10000"
  have t: "0 \<le> ?t" "?t \<le> ?x" using round_share [of ?x] d b by (simp_all add: bill_ok_def)
  have "compute_total b = Inr \<lparr>bt_subtotal = subtotal b, bt_discount = ?d, bt_taxable = ?x, bt_tax = ?t, bt_grand = ?x + ?t\<rparr>"
    using d t subtotal_nonneg [OF b] by (simp add: compute_total_def total_init_def Let_def subtotal_def)
  then show ?thesis using d t round_half_up_rounds by simp
qed

text \<open>Three at 3.33 less a discount of 12.5 percent, and a tax of 8.25 percent: both shares round up.\<close>

definition sample_bill :: pyval where
  "sample_bill = PDict [(''lines'', PList [PDict [(''description'', PStr ''paper''), (''quantity'', PInt 3), (''unit_price_cents'', PInt 333)]]),
     (''discount_bps'', PInt 1250), (''tax_bps'', PInt 825)]"

definition sample_parsed :: bill where
  "sample_parsed = \<lparr>bi_lines = [\<lparr>bl_description = ''paper'', bl_quantity = 3, bl_price = 333\<rparr>], bi_discount = 1250, bi_tax = 825\<rparr>"

definition sample_total :: bill_total where
  "sample_total = \<lparr>bt_subtotal = 999, bt_discount = 125, bt_taxable = 874, bt_tax = 72, bt_grand = 946\<rparr>"

lemma sample_parses: "bill_from_mapping sample_bill = Inr sample_parsed"
  by code_simp

lemma sample_computes: "compute_total sample_parsed = Inr sample_total"
  by code_simp

theorem bill_total_exact_witness:
  "\<exists>t. compute_total sample_parsed = Inr t \<and> bt_subtotal t = 999 \<and> rounds (999 * 1250) (bt_discount t) \<and>
    bt_grand t = bt_taxable t + bt_tax t"
  using bill_total_exact [OF sample_parses] by (auto simp: sample_parsed_def subtotal_def)

section \<open>What the verifier accepts\<close>

lemma read_total_iff:
  "read_total d = Inr t \<longleftrightarrow>
     dget d ''line_subtotal_cents'' = Some (PInt (bt_subtotal t)) \<and> dget d ''discount_cents'' = Some (PInt (bt_discount t)) \<and>
     dget d ''taxable_amount_cents'' = Some (PInt (bt_taxable t)) \<and> dget d ''tax_cents'' = Some (PInt (bt_tax t)) \<and>
     dget d ''grand_total_cents'' = Some (PInt (bt_grand t)) \<and>
     0 \<le> bt_subtotal t \<and> 0 \<le> bt_discount t \<and> 0 \<le> bt_taxable t \<and> 0 \<le> bt_tax t \<and> 0 \<le> bt_grand t"
  by (cases t) (auto simp: read_total_def total_init_def bindR_Inr_iff require_iff Let_def split: option.splits)

lemma read_total_mapping: "total_mapping t = PDict d \<Longrightarrow> compute_total b = Inr t \<Longrightarrow> read_total d = Inr t"
  by (auto simp: total_mapping_def read_total_iff dget_Cons compute_total_def total_init_def bindR_Inr_iff require_iff Let_def)

text \<open>The verifier accepts an output exactly if the payload is a bill the contract accepts and the output is
  a mapping whose five amounts are the totals recomputed from it.\<close>

lemma bills_verifier_iff:
  "(\<exists>vf. verify_bills_output t output = Inr vf \<and> vf_passed vf) \<longleftrightarrow>
     (\<exists>b s d. bill_from_mapping (tk_payload t) = Inr b \<and> compute_total b = Inr s \<and> output = PDict d \<and> read_total d = Inr s)"
proof (cases "bill_from_mapping (tk_payload t)")
  case (Inr b)
  then obtain s where "compute_total b = Inr s" using compute_total_ok bill_from_mapping_ok by blast
  then show ?thesis using Inr
    by (auto simp: verify_bills_output_def verdict_def split: pyval.splits sum.splits)
qed (simp add: verify_bills_output_def verdict_def)

section \<open>The agent answers\<close>

lemma total_mapping_dict: "\<exists>d. total_mapping t = PDict d \<and> dget d ''grand_total_cents'' = Some (PInt (bt_grand t))"
  by (simp add: total_mapping_def dget_Cons)

lemma tool_totals:
  assumes "bill_ok b" "compute_total b = Inr s"
  shows "bill_total_tool calls [(''bill'', bill_mapping b)] = Inr (total_mapping s)"
  using assms bill_roundtrip by (simp add: bill_total_tool_def dkeys_def dget_or_def dget_Cons)

definition bills_records :: "bool \<Rightarrow> string list" where
  "bills_records asks = (if asks
     then [''validated bill payload'', ''tool '' @ repr_str ''bill_total'' @ '' request'', ''tool '' @ repr_str ''bill_total'' @ '' result'',
       ''received bill_total tool result'']
     else [''validated bill payload'', ''computed bill totals''])"

lemma bills_agent_leads:
  assumes "bill_from_mapping payload = Inr b" "compute_total b = Inr s" "dget (tl_impls ts) ''bill_total'' = Some bill_total_tool"
    "bills_agent payload budget ctx = Inr g"
  shows "leads ts ctx calls g x (if available ctx ''bill_total'' then 3 else 2) (bills_records (available ctx ''bill_total'')) (total_mapping s)"
proof -
  have b: "bill_ok b" using assms(1) by (rule bill_from_mapping_ok)
  let ?after = "\<lambda>_. if available ctx ''bill_total'' then Yields (Tool_Request ''bill_total'' [(''bill'', bill_mapping b)]) bills_tool_result
    else reports ([(''computed bill totals'', PDict [(''grand_total_cents'', PInt (bt_grand s))])], total_mapping s)"
  have g: "g x = Yields (Agent_Step ''validated bill payload'' (int_field ''lines'' (length (bi_lines b)))) ?after"
    using assms(1,2,4) by (auto simp: bills_agent_def)
  obtain d where d: "total_mapping s = PDict d" "dget d ''grand_total_cents'' = Some (PInt (bt_grand s))" using total_mapping_dict by blast
  let ?got = "Tool_Value \<lparr>tr_success = True, tr_output = total_mapping s, tr_error = PNone\<rparr>"
  have got: "bills_tool_result ?got
      = reports ([(''received bill_total tool result'', PDict [(''grand_total_cents'', PInt (bt_grand s))])], total_mapping s)"
    using d by (simp add: bills_tool_result_def)
  show ?thesis
  proof (cases "available ctx ''bill_total''")
    case True
    have "leads ts ctx (calls @ [(''bill_total'', [(''bill'', bill_mapping b)])]) bills_tool_result ?got (Suc 0) [''received bill_total tool result''] (total_mapping s)"
      using leads_reports [of bills_tool_result, OF got] by simp
    then have "leads ts ctx calls ?after No_Value (Suc (Suc 0)) (tl (bills_records True)) (total_mapping s)"
      using leads_tool [of ?after No_Value "''bill_total''" "[(''bill'', bill_mapping b)]" bills_tool_result ctx ts calls "total_mapping s"]
        True assms(3) tool_totals [OF b assms(2)] by (simp add: execute_tool_def bills_records_def)
    from leads_step [of g x, OF g this] show ?thesis using True by (simp add: bills_records_def numeral_3_eq_3)
  next
    case False
    then have "leads ts ctx calls ?after No_Value (Suc 0) [''computed bill totals''] (total_mapping s)"
      using leads_reports [of ?after No_Value "([(''computed bill totals'', PDict [(''grand_total_cents'', PInt (bt_grand s))])], total_mapping s)"]
      by simp
    from leads_step [of g x, OF g this] show ?thesis using False by (simp add: bills_records_def numeral_2_eq_2)
  qed
qed

text \<open>C40: A task for the bills agent is answered, on a manager whose store is the one in memory and whose
  agents run in its process, for a task of one agent without a policy that gets an identifier the store
  does not hold (\<open>plain_run\<close>, which also asks for a well-formed agent registry). If the payload is a bill the contract accepts, an agent
  whose entry point makes the bills agent is selected, its verifier is the one of the bills agent, the
  registry has the tool \<open>bill_total\<close>, five steps or more are allowed and the clock stays within the
  envelope, then the run returns the totals that the contract computes, whether the task grants the
  tool, and the agent asks for the totals, or not, and the agent computes them; the trajectory holds the
  agent's steps and, between them, the request and the result of the tool.\<close>

theorem bills_task_answered:
  assumes "plain_run E factory t mg"
    and "resolve (me_agents E) (tk_agent t) (tk_capability t) = Some m" "instantiate_agent factory (am_entry_point m) = Inr bills_agent"
    and "dget (me_verifiers E) (am_name m) = Some verify_bills_output" "dget (tl_impls (me_tools E)) ''bill_total'' = Some bill_total_tool"
    and "bill_from_mapping (tk_payload t) = Inr b" "compute_total b = Inr s"
    and "5 \<le> te_max_steps (tk_envelope t)"
    and "unhurried (me_clock E) (tk_envelope t) (me_clock E (rs_ticks (mg_state mg))) (Suc (rs_ticks (mg_state mg)))
      (if available (build_tool_context (me_tools E) (tk_tools t)) ''bill_total'' then 3 else 2)"
  shows "answered_with E t mg (total_mapping s) (bills_records (available (build_tool_context (me_tools E) (tk_tools t)) ''bill_total''))"
proof -
  let ?ctx = "build_tool_context (me_tools E) (tk_tools t)"
  obtain g where g: "bills_agent (tk_payload t) (te_max_steps (tk_envelope t)) ?ctx = Inr g" by (simp add: bills_agent_def)
  obtain d where d: "total_mapping s = PDict d" using total_mapping_dict by blast
  have "\<exists>vf. verify_bills_output t (total_mapping s) = Inr vf \<and> vf_passed vf"
    unfolding bills_verifier_iff using assms(6,7) d read_total_mapping by blast
  then have "accepted E (am_name m) t (total_mapping s)" using assms(4) by (auto simp: accepted_def run_verifier_def)
  moreover have "int (length (bills_records asks)) < te_max_steps (tk_envelope t)" for asks
    using assms(8) by (simp add: bills_records_def)
  ultimately show ?thesis
    using agent_answers [OF assms(1-3) g bills_agent_leads [OF assms(6,7,5) g]] assms(9) by blast
qed

text \<open>The sample bill, with the tool granted.\<close>

definition billing_desk :: "(in_process, mem) menv" where
  "billing_desk = \<lparr>me_store = memory, me_backend = in_process_backend (\<lambda>_ _. Inr bills_agent),
     me_agents = \<lparr>rg_by_name = [(''tally'', tally_manifest)], rg_by_capability = []\<rparr>,
     me_tools = register_impl BILL_TOTAL_DESCRIPTOR bill_total_tool \<lparr>tl_impls = [], tl_descriptors = []\<rparr>,
     me_verifiers = [(''tally'', verify_bills_output)],
     me_clock = int, me_seconds = (\<lambda>d. show_int d @ ''.0''), me_schedule = (\<lambda>_. [])\<rparr>"

definition billing_task :: task where
  "billing_task = tally_task\<lparr>tk_payload := sample_bill, tk_tools := [''bill_total'']\<rparr>"

theorem bills_task_answered_witness:
  "answered_with billing_desk billing_task (new_manager []) (total_mapping sample_total) (bills_records True)"
proof -
  have plain: "plain_run billing_desk (\<lambda>_ _. Inr bills_agent) billing_task (new_manager [])"
    by (simp add: plain_run_def billing_desk_def billing_task_def tally_task_def agents_ok_def get_by_name_def get_by_capability_def
        tally_manifest_def dget_Cons mem_contains_def new_manager_def)
  have tool: "available (build_tool_context (me_tools billing_desk) (tk_tools billing_task)) ''bill_total''"
    unfolding billing_desk_def billing_task_def by code_simp
  have "answered_with billing_desk billing_task (new_manager []) (total_mapping sample_total)
      (bills_records (available (build_tool_context (me_tools billing_desk) (tk_tools billing_task)) ''bill_total''))"
    by (rule bills_task_answered [OF plain, of tally_manifest sample_parsed])
      (use tool sample_parses sample_computes in \<open>simp_all add: billing_desk_def billing_task_def tally_task_def tally_manifest_def resolve_def
        get_by_name_def dget_Cons instantiate_agent_def entry_parts_def new_manager_def in_step_def numeral_3_eq_3 register_impl_def
        BILL_TOTAL_DESCRIPTOR_def dict_simps\<close>)
  then show ?thesis using tool by simp
qed

end
