(* ===== verification/Spec2Isabelle.thy ===== *)
theory Spec2Isabelle
  imports Run_Network Onto_Closure_Props Cpm_Props Resolve_Props Threshold_Props Transparency_Props Agent_Answers Manager_Durable Summary Bills
begin

text \<open>
  A verification development for the agent platform under \<open>src/src/agent_centric\<close>. All paths below are
  relative to that directory; definitions have the names of the functions they translate.

  \<^bold>\<open>The program.\<close> Work is done by components and agents, and nothing they return is believed before
  ordinary code has verified it. There are two execution layers over one set of contracts. In the
  component layer (\<open>cbp/\<close>) a network of typed components is validated, compiled and run by one of
  three engines; components come as signed bundles pinned in a lock; agents form a tree whose edges are
  sockets, and serve directives of their parents. In the control plane (\<open>control_plane/\<close>) a manager
  runs one agent, a pipeline or a parallel group under a resource envelope, mediates its tools, verifies
  its output and records every step in a durable trajectory. A semantic layer (\<open>contracts/ontology.py\<close>)
  gives graphs of assertions, their shapes and their entailment closure.

  \<^bold>\<open>Shared vocabulary.\<close> \<open>Prelude\<close>: exceptions as the left summand of a sum, loops that stop at the
  first exception, dictionaries as association lists in insertion order, regular expressions of the
  contracts. \<open>Canonical_Json\<close>: JSON-ready values, the canonical writer and a reader, with the round
  trip. \<open>Py_Values\<close>, \<open>Py_Effects\<close>, \<open>Utf8\<close>, \<open>Lines\<close>: operations of Python on dynamic values, exceptions
  with their texts, comparisons of JSON numbers, UTF-8, texts made of lines. \<open>Write_Once\<close>: the contract
  (a locale) of stores whose keys stay bound to their first value.

  \<^bold>\<open>Networks\<close> (\<open>cbp/network.py\<close>, \<open>contracts/handoff.py\<close>). \<open>Handoff\<close>, \<open>Kahn\<close>, \<open>Network\<close>, \<open>Network_Compile\<close>:
  value types, the topological sort the program writes three times (one locale, interpreted for the two
  containers of ready nodes the copies use), construction, validation, compilation. \<open>Network_Props\<close>: validation accepts exactly the
  networks that meet every local rule and have acyclic edges; the topological order is one; a plan reads
  only from earlier steps.

  \<^bold>\<open>Engines\<close> (\<open>cbp/flow.py\<close>, \<open>cbp/stream.py\<close>, \<open>run_network\<close>). \<open>Packets\<close>, \<open>Flow\<close>, \<open>Stream\<close>,
  \<open>Run_Network\<close>: bounded connections, the single-shot engine, the streaming scheduler with its suspended
  emitters, the legacy loop. Each engine refines a specification without connections. Packets are
  conserved (\<open>Stream_Inv\<close>): what is on a connection and in its emitter is what was emitted and not yet
  consumed. The scheduler's loop is a \<open>while_option\<close> bounded by the activation limit of the code, and
  \<open>stream_terminates\<close> shows that it returns. The driver that runs a component is a parameter.

  \<^bold>\<open>Semantic graphs\<close> (\<open>contracts/ontology.py\<close>, \<open>cbp/ontology_runtime.py\<close>, \<open>contracts/closure.py\<close>).
  \<open>Onto_Terms\<close>, \<open>Onto_Rules\<close>, \<open>Onto_Fragment\<close>, \<open>Onto_Gates\<close>, \<open>Onto_Closure\<close>: terms, assertions, content
  addresses, rule sets and their strata, class hierarchies, shapes and queries, the closure. The closure
  of a stratum is the least set closed under its rules and the strata compose (\<open>Onto_Entail\<close>,
  \<open>Onto_Strata\<close>); \<open>while_option\<close> with the assertion bound of the code models the fixpoint loop.

  \<^bold>\<open>Distribution\<close> (\<open>contracts/components_lock.py\<close>, \<open>contracts/component.py\<close>, \<open>cbp/cache.py\<close>,
  \<open>cbp/resolver.py\<close>, \<open>cbp/component_bundle.py\<close>, \<open>cbp/component_graph.py\<close>, \<open>cbp/critical_path.py\<close>).
  \<open>Locks\<close>, \<open>Manifest\<close>, \<open>Resolve\<close>: locks and manifests with their parsers, the cache, the resolver, the
  depth-first resolution of component graphs (fuel is the number of entries of the lock, which the lemma
  \<open>resolve_graph_ends\<close> shows to be enough). \<open>Cpm\<close>, \<open>Cpm_Schedule\<close>: the critical path method, on the
  integers and doubles of Python (\<open>pynum\<close>); a locale states the laws of the two passes over the integers,
  where the critical path is a longest chain, and a chain of doubles whose critical path is empty shows
  that they do not hold beyond.

  \<^bold>\<open>Trust\<close> (\<open>cbp/trust.py\<close>, \<open>cbp/threshold.py\<close>, \<open>cbp/transparency.py\<close>, \<open>cbp/signing_service.py\<close>).
  \<open>Trust\<close>, \<open>Threshold\<close>, \<open>Transparency\<close>: keys with windows, k-of-n bundles, the hash-chained release log.
  The hash function is a parameter; a property that needs it to have no collision on the values at hand
  says so.

  \<^bold>\<open>Agents\<close> (\<open>cbp/agent.py\<close>, \<open>cbp/message.py\<close>, \<open>cbp/model_record.py\<close>, \<open>cbp/security.py\<close>, \<open>cbp/transport.py\<close>,
  \<open>cbp/envelopes.py\<close>, \<open>cbp/registry.py\<close>, \<open>cbp/component_catalog.py\<close>, \<open>cbp/store.py\<close>, \<open>cbp/config.py\<close>).
  \<open>Message\<close>, \<open>Transport\<close>, \<open>Envelope\<close>, \<open>Registry\<close>, \<open>Agent_Store\<close>: the message contract, the trust boundary,
  the limits, the catalogs, the two durable stores. \<open>Agent_State\<close>, \<open>Agent_Handlers\<close>, \<open>Agent\<close>: the state
  of an agent, the handler of every directive, the poll loop. \<open>Agent_Loop\<close> is a locale: what every
  handler and every primitive effect keeps, the poll loop keeps; it is interpreted for the idempotent
  cache and the envelope (\<open>Agent_Inv\<close>), bound endpoints and children (\<open>Agent_Spawn\<close>) and the audit trail
  (\<open>Agent_Trail\<close>). \<open>Agent_Wire\<close> joins the two ends of a link. Registered tasks and verifiers, the digest,
  the clock and what sockets deliver are parameters. A parent knows its children by configuration and
  socket; the tree is not composed into one state.

  \<^bold>\<open>Control plane\<close> (\<open>contracts/\<close> \<open>policy\<close>, \<open>task\<close>, \<open>pipeline\<close>, \<open>parallel\<close>, \<open>tool\<close>, \<open>manifest\<close>,
  \<open>trajectory\<close>, \<open>result\<close>; \<open>agents/interface.py\<close>; \<open>control_plane/\<close> \<open>registry\<close>, \<open>tools\<close>, \<open>execution\<close>,
  \<open>trajectory_store\<close>, \<open>manager\<close>). \<open>Policy\<close>, \<open>Task_Spec\<close>, \<open>Control_Registry\<close>, \<open>Sessions\<close>, \<open>Traj_Store\<close>: the
  contracts, both registries, agents as generators (a codatatype: they may yield for ever), the store in
  memory and the store in files. \<open>Store_Contract\<close> is the locale of what a client may rely on, interpreted
  for both stores. \<open>Threads\<close>: threads as resumptions over a shared state, run alone or interleaved by a
  schedule with the thread that joins them. \<open>Manager_State\<close>, \<open>Manager_Exec\<close>, \<open>Manager\<close>, \<open>Manager_Run\<close>: the
  manager's methods as such threads. The loop that drives an agent is a recursion on the steps left in
  its budget, so every run ends. \<open>Manager_Rules\<close> is the locale of what every method keeps and may return,
  given what the atomic actions keep; \<open>Manager_Props\<close> uses it four times: a run returns an outcome and does
  not raise, calls only granted and permitted tools, returns a result only for accepted outputs, and
  starts nothing for a denied task. \<open>Manager_Durable\<close> follows refused writes to the failure they end in,
  on any store of the contract: a returned result is durable. All of this holds for every schedule of the
  worker threads of a parallel group. Verifiers, tools, agents, the clock's readings, the back end and the
  schedule are parameters (\<open>menv\<close>).

  \<^bold>\<open>Reading trajectories\<close> (\<open>control_plane/replay.py\<close>, \<open>control_plane/summary.py\<close> and their contracts).
  \<open>Replay\<close>, \<open>Summary\<close>: the comparison of two runs and the summary of one, both over counters kept by key.
  \<open>Replay_Props\<close> states the equivalence the code documents and judges the comparison by it: a passing
  replay is equivalent, an equivalent one passes unless tools were called concurrently, where two
  equivalent runs are shown to fail; with \<open>Manager_Live\<close> it says what a replay of a stored run decides.
  \<open>Summary\<close> says what the counts of a summary count, with a failed call that is counted as a success,
  and, with the rules of the manager, that runs and replays only add to the store.

  \<^bold>\<open>Agents that run\<close> (\<open>agents/counter.py\<close>, \<open>agents/reverse.py\<close>, \<open>agents/case_tool.py\<close>,
  \<open>agents/model_agent.py\<close>, \<open>agents/bills.py\<close>, \<open>contracts/bill.py\<close>, \<open>control_plane/verifier.py\<close>).
  \<open>Demo_Agents\<close>, \<open>Bills\<close>: these agents as generators, with the verifiers that derive their outputs again.
  \<open>Manager_Live\<close> describes inductively the conversation of an agent that ends, and shows that such an
  agent, given enough steps and time, has its output returned; \<open>Bills\<close> applies it to both paths of the
  bills agent, and shows the totals of a bill exact.

  \<^bold>\<open>Conventions and bounds.\<close> Strings are lists of characters, so the model covers strings whose code
  points lie below 256. A float is the text of its \<open>repr\<close>; only the comparisons the code makes are
  defined on it. The critical path method computes, and there a double is its mantissa and exponent. Durations
  of the manager are integers of the clock's resolution. The JSON reader has no nesting or digit limit. Tuples in recorded values are lists. Object
  identity is not modelled; where the code shares a mutable object, the state is passed explicitly.
  Fields that the code does not have record what happened outside it and are never read by the model:
  the calls of an agent and the endpoints it bound, with their numbers when its envelope was granted, and
  the open sessions of the manager.

  \<^bold>\<open>Not modelled.\<close> The web page, the command line, the driver and its hosts, the adapters of external
  protocols and the user interface: input and output over the layers above. The subprocess back end and
  its worker, process isolation of components, ZeroMQ, CURVE, minisign and gpg: behaviour of the
  operating system and of libraries, represented by parameters. The hosting, work, design and review
  contracts with their runtimes, the applications (bills registry, intake, email, workspace) and the
  network of experts: outside the plan of this development; \<open>PROJECT.json\<close> lists each with its files.
\<close>

end
